(* ===== verification/Prelude.thy ===== *)
theory Prelude
  imports Main "HOL-Library.Word"
begin

text \<open>
  Shared vocabulary of the development: the C integer types of the wallet core as words,
  byte buffers, the null pointer as \<open>None\<close>, and the generic facts on lists, buffers and byte
  strings the component theories rest on.

  A C buffer \<open>(uint8_t *buf, size_t bufLen)\<close> is the list of its \<open>bufLen\<close> bytes; a pointer that
  may be \<open>NULL\<close> is an \<open>option\<close>. A function that writes to a buffer returns the new contents, of
  the same length, with its C result. \<open>poke\<close> is a \<open>memcpy\<close> into a buffer, \<open>at_off\<close> is a call
  with the pair \<open>&buf[off], (off <= bufLen ? bufLen - off : 0)\<close> that all serializers of the
  repository use, and \<open>emit\<close> is their guarded store
  \<open>if (buf && off + n <= bufLen) store(&buf[off]); off += n\<close>.
\<close>

unbundle bit_operations_syntax

type_synonym u8 = "8 word"
type_synonym u16 = "16 word"
type_synonym u32 = "32 word"
type_synonym u64 = "64 word"
type_synonym bytes = "u8 list"
type_synonym buffer = "bytes option"

named_theorems byte_order "facts on the little and big endian encodings"
named_theorems buffer_simps "facts on writes into buffers"

section \<open>Little endian byte strings\<close>

text \<open>The value of a little endian byte string, and the first \<open>k\<close> bytes of a word.\<close>

fun word_of_le :: "bytes \<Rightarrow> 'a::len word" where
  "word_of_le [] = 0"
| "word_of_le (b # bs) = ucast b OR push_bit 8 (word_of_le bs)"

definition le_of_word :: "nat \<Rightarrow> 'a::len word \<Rightarrow> bytes" where
  "le_of_word k w = map (\<lambda>i. ucast (drop_bit (8 * i) w)) [0..<k]"

lemma bit_word_of_le [byte_order]:
  "bit (word_of_le bs :: 'a::len word) n \<longleftrightarrow>
     n < LENGTH('a) \<and> n div 8 < length bs \<and> bit (bs ! (n div 8)) (n mod 8)"
proof (induction bs arbitrary: n)
  case Nil
  then show ?case by simp
next
  case (Cons b bs)
  show ?case
  proof (cases "n < 8")
    case True
    then show ?thesis by (auto simp: bit_simps)
  next
    case False
    then obtain m where n: "n = m + 8" by (metis add.commute le_Suc_ex not_less)
    have "\<not> bit b n" using False by (auto dest: bit_imp_le_length)
    moreover have "n div 8 = Suc (m div 8)" "n mod 8 = m mod 8" using n by simp_all
    ultimately show ?thesis using n Cons.IH [of m] by (auto simp: bit_simps)
  qed
qed

lemma length_le_of_word [simp]: "length (le_of_word k w) = k"
  by (simp add: le_of_word_def)

lemma nth_le_of_word: "i < k \<Longrightarrow> le_of_word k w ! i = ucast (drop_bit (8 * i) w)"
  by (simp add: le_of_word_def)

lemma le_of_word_inverse [byte_order]:
  assumes "LENGTH('a) = 8 * k"
  shows "word_of_le (le_of_word k w) = (w :: 'a::len word)"
proof (rule bit_word_eqI)
  fix n assume n: "n < LENGTH('a)"
  then have "n div 8 < k" using assms by auto
  moreover have "8 * (n div 8) + n mod 8 = n" by simp
  ultimately show "bit (word_of_le (le_of_word k w) :: 'a word) n = bit w n"
    using n by (simp add: bit_word_of_le nth_le_of_word bit_simps)
qed

lemma word_of_le_inverse [byte_order]:
  assumes "8 * k \<le> LENGTH('a::len)" "length bs = k"
  shows "le_of_word k (word_of_le bs :: 'a word) = bs"
proof (rule nth_equalityI)
  show "length (le_of_word k (word_of_le bs :: 'a word)) = length bs" using assms by simp
next
  fix i assume "i < length (le_of_word k (word_of_le bs :: 'a word))"
  then have i: "i < k" by simp
  show "le_of_word k (word_of_le bs :: 'a word) ! i = bs ! i"
  proof (rule bit_word_eqI)
    fix n assume n: "n < LENGTH(8)"
    have "8 * i + n < LENGTH('a)" using i n assms(1) by simp
    moreover have "(8 * i + n) div 8 = i" "(8 * i + n) mod 8 = n" using n by simp_all
    ultimately show "bit (le_of_word k (word_of_le bs :: 'a word) ! i) n = bit (bs ! i) n"
      using i n assms(2) by (simp add: nth_le_of_word bit_word_of_le bit_simps)
  qed
qed

lemma word_of_le_eq_iff:
  assumes "8 * length bs = LENGTH('a::len)" "length cs = length bs"
  shows "(word_of_le bs :: 'a word) = word_of_le cs \<longleftrightarrow> bs = cs"
  using assms word_of_le_inverse [of "length bs", where 'a = 'a, OF _ refl]
    word_of_le_inverse [of "length bs" cs, where 'a = 'a]
  by (metis order_refl)

lemma byte_mask: "(0xff :: 'a::len word) = mask 8"
  by (simp add: mask_eq_exp_minus_1)

lemma ucast_and_byte [simp]: "(ucast (u AND 0xff) :: u8) = ucast (u :: 'a::len word)"
  unfolding byte_mask by (rule bit_word_eqI) (auto simp: bit_simps dest: bit_imp_le_length)

lemma unat_ucast_mod:
  "unat (ucast (w :: 'b::len word) :: 'a::len word) = unat w mod 2 ^ LENGTH('a)"
  by (simp add: unsigned_ucast_eq take_bit_eq_mod)

lemma unat_byte: "unat (b :: u8) < 256"
  using unsigned_less [of b] by simp

lemma unat_ucast_up:
  assumes "LENGTH('b::len) \<le> LENGTH('a::len)"
  shows "unat (ucast (w :: 'b word) :: 'a word) = unat w"
proof -
  have "unat w < 2 ^ LENGTH('b)" by (rule unsigned_less)
  also have "(2 :: nat) ^ LENGTH('b) \<le> 2 ^ LENGTH('a)" using assms by (intro power_increasing) auto
  finally show ?thesis by (simp add: unat_ucast_mod)
qed

lemma unat_of_nat_small: "n < 2 ^ LENGTH('a::len) \<Longrightarrow> unat (word_of_nat n :: 'a word) = n"
  by (simp add: unsigned_of_nat take_bit_nat_eq_self)

lemma sint_of_nat_small:
  assumes "n < 2 ^ (LENGTH('a::len) - 1)"
  shows "sint (word_of_nat n :: 'a word) = int n"
proof -
  have "int n < 2 ^ (LENGTH('a) - 1)" using assms by (metis of_nat_less_iff of_nat_numeral of_nat_power)
  moreover have "- (2 ^ (LENGTH('a) - 1)) \<le> int n" by (rule order_trans [of _ 0]) simp_all
  ultimately show ?thesis by (simp add: signed_of_nat signed_take_bit_int_eq_self)
qed

lemma unat_push_bit_small:
  assumes "unat (w :: 'a::len word) * 2 ^ n < 2 ^ LENGTH('a)"
  shows "unat (push_bit n w) = unat w * 2 ^ n"
  using assms unsigned_push_bit_eq [of n w, where 'a = nat]
  by (metis push_bit_eq_mult take_bit_nat_eq_self)

lemma unat_drop_bit_div: "unat (drop_bit n w) = unat (w :: 'a::len word) div 2 ^ n"
  by (metis drop_bit_eq_div unat_drop_bit_eq)

section \<open>Buffers\<close>

text \<open>\<open>memcpy(&b[off], bs, length bs)\<close>.\<close>

definition poke :: "nat \<Rightarrow> bytes \<Rightarrow> bytes \<Rightarrow> bytes" where
  "poke off bs b = take off b @ bs @ drop (off + length bs) b"

lemma length_poke [simp, buffer_simps]:
  "off + length bs \<le> length b \<Longrightarrow> length (poke off bs b) = length b"
  by (simp add: poke_def)

lemma poke_0 [simp]: "poke 0 bs b = bs @ drop (length bs) b"
  by (simp add: poke_def)

lemma poke_append [buffer_simps]: "poke (length a) bs (a @ b) = a @ bs @ drop (length bs) b"
  by (simp add: poke_def)

text \<open>The guarded store of the serializers, on a buffer and an offset.\<close>

definition emit :: "bytes \<Rightarrow> buffer \<times> nat \<Rightarrow> buffer \<times> nat" where
  "emit bs s = (case s of
     (None, off) \<Rightarrow> (None, off + length bs)
   | (Some b, off) \<Rightarrow>
       (Some (if off + length bs \<le> length b then poke off bs b else b), off + length bs))"

text \<open>A call on the rest of the buffer; its result is added to the offset.\<close>

definition at_off :: "(buffer \<Rightarrow> buffer \<times> nat) \<Rightarrow> buffer \<times> nat \<Rightarrow> buffer \<times> nat" where
  "at_off f s = (case s of
     (None, off) \<Rightarrow> (None, off + snd (f None))
   | (Some b, off) \<Rightarrow>
       (case f (Some (drop off b)) of
          (Some b', n) \<Rightarrow> (Some (take off b @ b'), off + n)
        | (None, n) \<Rightarrow> (Some b, off + n)))"

text \<open>
  The contract of a serializer of the byte string \<open>bs\<close>: the size query with a null buffer
  gives the length of \<open>bs\<close>; a buffer that is long enough receives \<open>bs\<close> at its start and keeps
  its other bytes, and the result is again the length of \<open>bs\<close>.
\<close>

definition serializes :: "(buffer \<Rightarrow> buffer \<times> nat) \<Rightarrow> bytes \<Rightarrow> bool" where
  "serializes f bs \<longleftrightarrow> f None = (None, length bs) \<and>
     (\<forall>b. length bs \<le> length b \<longrightarrow> f (Some b) = (Some (bs @ drop (length bs) b), length bs))"

text \<open>A serializer step on a buffer whose first \<open>length a\<close> bytes \<open>a\<close> are already written.\<close>

definition appends :: "(buffer \<times> nat \<Rightarrow> buffer \<times> nat) \<Rightarrow> bytes \<Rightarrow> bool" where
  "appends g bs \<longleftrightarrow> (\<forall>off. g (None, off) = (None, off + length bs)) \<and>
     (\<forall>a b. length bs \<le> length b \<longrightarrow>
        g (Some (a @ b), length a) = (Some (a @ bs @ drop (length bs) b), length a + length bs))"

lemma appendsD:
  assumes "appends g bs" "length bs \<le> length b"
  shows "g (Some (a @ b), length a) = (Some (a @ bs @ drop (length bs) b), length a + length bs)"
  using assms by (simp add: appends_def)

lemma appends_emit [intro, buffer_simps]: "appends (emit bs) bs"
  by (simp add: appends_def emit_def poke_append)

lemma appends_at_off [intro, buffer_simps]: "serializes f bs \<Longrightarrow> appends (at_off f) bs"
  by (simp add: appends_def serializes_def at_off_def)

lemma appends_id [intro, buffer_simps]: "appends (\<lambda>s. s) []"
  by (simp add: appends_def)

lemma appends_comp [intro]:
  assumes "appends g bs" "appends h cs"
  shows "appends (\<lambda>s. h (g s)) (bs @ cs)"
proof -
  have "h (g (Some (a @ b), length a)) =
      (Some (a @ (bs @ cs) @ drop (length (bs @ cs)) b), length a + length (bs @ cs))"
    if "length (bs @ cs) \<le> length b" for a b
  proof -
    have "g (Some (a @ b), length a) = (Some ((a @ bs) @ drop (length bs) b), length (a @ bs))"
      using appendsD [OF assms(1), of b a] that by simp
    then show ?thesis
      using appendsD [OF assms(2), of "drop (length bs) b" "a @ bs"] that
      by (simp add: add.commute)
  qed
  moreover have "h (g (None, off)) = (None, off + length (bs @ cs))" for off
    using assms by (simp add: appends_def)
  ultimately show ?thesis by (simp add: appends_def)
qed

lemma appends_foldl:
  assumes "\<And>x. x \<in> set xs \<Longrightarrow> appends (\<lambda>s. f s x) (e x)"
  shows "appends (\<lambda>s. foldl f s xs) (concat (map e xs))"
  using assms
proof (induction xs)
  case (Cons x xs)
  have "appends (\<lambda>s. foldl f (f s x) xs) (e x @ concat (map e xs))"
    by (rule appends_comp [where g = "\<lambda>s. f s x"]) (use Cons in auto)
  then show ?case by simp
qed (simp add: appends_id)

text \<open>
  The frame of every serializer: start at offset 0, and give the offset reached, or 0 when it
  runs past the buffer.
\<close>

definition serial_result :: "buffer \<times> nat \<Rightarrow> buffer \<times> nat" where
  "serial_result s = (case s of
     (None, off) \<Rightarrow> (None, off)
   | (Some b, off) \<Rightarrow> (Some b, if off \<le> length b then off else 0))"

lemma serializes_run [intro]:
  assumes "appends g bs"
  shows "serializes (\<lambda>d. serial_result (g (d, 0))) bs"
proof -
  have "g (Some b, 0) = (Some (bs @ drop (length bs) b), length bs)"
    if "length bs \<le> length b" for b
    using assms that unfolding appends_def by (metis append_Nil list.size(3) add_0)
  moreover have "g (None, 0) = (None, length bs)" using assms by (simp add: appends_def)
  ultimately show ?thesis by (simp add: serializes_def serial_result_def)
qed

lemma serializes_None: "serializes f bs \<Longrightarrow> f None = (None, length bs)"
  by (simp add: serializes_def)

lemma serializes_exact:
  "serializes f bs \<Longrightarrow> length b = length bs \<Longrightarrow> f (Some b) = (Some bs, length bs)"
  by (simp add: serializes_def)

text \<open>
  The interface of the functions that write an encoding: \<open>w x\<close> is the C function, \<open>enc x\<close> the
  encoding, \<open>ok x\<close> what its caller has to provide. Callers of the repository use it in two
  passes: the first call, with a null buffer, gives the size of the buffer to allocate, the
  second fills it.
\<close>

locale writer =
  fixes w :: "'a \<Rightarrow> buffer \<Rightarrow> buffer \<times> nat"
    and enc :: "'a \<Rightarrow> bytes"
    and ok :: "'a \<Rightarrow> bool"
  assumes writes: "ok x \<Longrightarrow> serializes (w x) (enc x)"
begin

lemma size_query: "ok x \<Longrightarrow> w x None = (None, length (enc x))"
  using writes by (rule serializes_None)

lemma two_pass:
  assumes "ok x" "length b = snd (w x None)"
  shows "w x (Some b) = (Some (enc x), length (enc x))"
  using assms serializes_exact [OF writes [OF assms(1)]] by (simp add: size_query)

lemma keeps_rest:
  assumes "ok x" "length (enc x) \<le> length b"
  shows "w x (Some b) = (Some (enc x @ drop (length (enc x)) b), length (enc x))"
  using writes [OF assms(1)] assms(2) by (simp add: serializes_def)

lemma length_kept:
  assumes "ok x" "length (enc x) \<le> length b" "w x (Some b) = (Some b', n)"
  shows "length b' = length b"
  using keeps_rest [OF assms(1,2)] assms(2,3) by auto

end

text \<open>A writer with a reader that gets the value back, whatever follows its encoding.\<close>

locale codec = writer w enc ok
  for w :: "'a \<Rightarrow> buffer \<Rightarrow> buffer \<times> nat" and enc :: "'a \<Rightarrow> bytes" and ok :: "'a \<Rightarrow> bool" +
  fixes r :: "bytes \<Rightarrow> 'a option"
  assumes reads: "ok x \<Longrightarrow> r (enc x @ t) = Some x"
begin

lemma read_written:
  assumes "ok x" "length (enc x) \<le> length b" "w x (Some b) = (Some b', n)"
  shows "r b' = Some x"
  using keeps_rest [OF assms(1,2)] assms(1,3) by (auto simp: reads)

lemma enc_inj: "ok x \<Longrightarrow> ok y \<Longrightarrow> enc x = enc y \<Longrightarrow> x = y"
  using reads [of x "[]"] reads [of y "[]"] by simp

text \<open>The encodings are prefix free: a stream of them can be cut in one way only.\<close>

lemma enc_prefix_free: "ok x \<Longrightarrow> ok y \<Longrightarrow> enc x @ s = enc y @ t \<Longrightarrow> x = y \<and> s = t"
  by (metis option.inject reads same_append_eq)

end

text \<open>The characters of a C string in memory, up to its terminator.\<close>

definition cstr :: "bytes \<Rightarrow> bytes" where
  "cstr m = takeWhile (\<lambda>c. c \<noteq> 0) m"

lemma cstr_terminated [simp]: "0 \<notin> set s \<Longrightarrow> cstr (s @ 0 # t) = s"
  by (auto simp: cstr_def takeWhile_append)

lemma cstr_no_nul [simp]: "0 \<notin> set (cstr m)"
  by (auto simp: cstr_def dest: set_takeWhileD)

end
