(* ===== verification/BRHash.thy ===== *)
theory BRHash
  imports BRInt
begin

text \<open>
  \<open>src/Modules/core/BRCrypto.c\<close>, hash functions: SHA-1, SHA-224/256, SHA-384/512,
  RIPEMD-160, HASH160, MD5 and murmurHash3.

  All five block hashes of the file share one driver: copy the next block of the message to
  the work array \<open>x\<close>, compress, and finish with the padded last block or two. \<open>md_loop\<close> and
  \<open>md_final\<close> are that driver, over the compression function, the block size, and the bound of
  the length field. The work array is modelled with its bytes, and a compression function
  returns it as well, since \<open>_BRSHA1Compress\<close> overwrites it.
\<close>

section \<open>Word operations\<close>

definition be32 :: "u32 \<Rightarrow> u32" where
  "be32 x = push_bit 24 (x AND 0xff) OR push_bit 8 (x AND 0xff00) OR
     drop_bit 8 (x AND 0xff0000) OR drop_bit 24 (x AND 0xff000000)"

definition be64 :: "u64 \<Rightarrow> u64" where
  "be64 x = ucast (be32 (ucast (drop_bit 32 x))) OR push_bit 32 (ucast (be32 (ucast x)))"

definition rol32 :: "u32 \<Rightarrow> nat \<Rightarrow> u32" where
  "rol32 a b = push_bit b a OR drop_bit (32 - b) a"

definition ror32 :: "u32 \<Rightarrow> nat \<Rightarrow> u32" where
  "ror32 a b = drop_bit b a OR push_bit (32 - b) a"

definition ror64 :: "u64 \<Rightarrow> nat \<Rightarrow> u64" where
  "ror64 a b = drop_bit b a OR push_bit (64 - b) a"

text \<open>The 32-bit and 64-bit views of a work array.\<close>

definition x32 :: "bytes \<Rightarrow> nat \<Rightarrow> u32" where
  "x32 x i = UInt32GetLE (drop (4 * i) x)"

definition x64 :: "bytes \<Rightarrow> nat \<Rightarrow> u64" where
  "x64 x i = UInt64GetLE (drop (8 * i) x)"

section \<open>The block driver\<close>

function md_loop ::
  "('s \<Rightarrow> bytes \<Rightarrow> 's \<times> bytes) \<Rightarrow> nat \<Rightarrow> bool \<Rightarrow> bytes \<Rightarrow> nat \<Rightarrow> 's \<Rightarrow> bytes \<Rightarrow> nat \<times> 's \<times> bytes"
where
  "md_loop compress B le data i buf x =
     (if 0 < B \<and> (if le then i \<le> length data else i < length data) then
        let n = (if i + B < length data then B else length data - i);
            x' = poke 0 (take n (drop i data)) x
        in if i + B > length data then (i, buf, x')
           else let (buf', x'') = compress buf x' in md_loop compress B le data (i + B) buf' x''
      else (i, buf, x))"
  by pat_completeness auto
termination
  by (relation "measure (\<lambda>(compress, B, le, data, i, buf, x). length data + 1 - i)") auto

declare md_loop.simps [simp del]

definition md_final ::
  "('s \<Rightarrow> bytes \<Rightarrow> 's \<times> bytes) \<Rightarrow> nat \<Rightarrow> nat \<Rightarrow> bytes \<Rightarrow> nat \<Rightarrow> nat \<times> 's \<times> bytes \<Rightarrow> 's"
where
  "md_final compress B L lenField len s = (case s of (i, buf, x) \<Rightarrow>
     let n = len - i;
         x1 = poke n (replicate (B - n) 0) x;
         x2 = x1[n := 0x80];
         (buf', x3) = (if n \<ge> L then let (b, y) = compress buf x2 in (b, poke 0 (replicate B 0) y)
                       else (buf, x2));
         x4 = poke (B - length lenField) lenField x3
     in fst (compress buf' x4))"

section \<open>SHA-1\<close>

definition f1 :: "u32 \<Rightarrow> u32 \<Rightarrow> u32 \<Rightarrow> u32" where "f1 x y z = (x AND y) OR (NOT x AND z)"
definition f2 :: "u32 \<Rightarrow> u32 \<Rightarrow> u32 \<Rightarrow> u32" where "f2 x y z = (x XOR y) XOR z"
definition f3 :: "u32 \<Rightarrow> u32 \<Rightarrow> u32 \<Rightarrow> u32" where
  "f3 x y z = ((x AND y) OR (x AND z)) OR (y AND z)"

type_synonym sha1_state = "u32 \<times> u32 \<times> u32 \<times> u32 \<times> u32"

fun sha1_op :: "(u32 \<Rightarrow> u32 \<Rightarrow> u32 \<Rightarrow> u32) \<Rightarrow> u32 \<Rightarrow> u32 \<Rightarrow> sha1_state \<Rightarrow> sha1_state" where
  "sha1_op f y z (a, b, c, d, e) =
     (rol32 a 5 + f b c d + e + y + z, a, rol32 b 30, c, d)"

definition sha1_step :: "sha1_state \<times> u32 list \<Rightarrow> nat \<Rightarrow> sha1_state \<times> u32 list" where
  "sha1_step s i = (case s of (v, x) \<Rightarrow>
     let xi = (if i < 16 then be32 (x ! i)
               else rol32 (x ! (i - 3) XOR x ! (i - 8) XOR x ! (i - 14) XOR x ! (i - 16)) 1);
         (f, y) = (if i < 20 then (f1, 0x5a827999) else if i < 40 then (f2, 0x6ed9eba1)
                   else if i < 60 then (f3, 0x8f1bbcdc) else (f2, 0xca62c1d6))
     in (sha1_op f y xi v, x[i := xi]))"

text \<open>The work array has room for 80 words; the expanded schedule is left in it.\<close>

fun BRSHA1Compress :: "sha1_state \<Rightarrow> bytes \<Rightarrow> sha1_state \<times> bytes" where
  "BRSHA1Compress (r0, r1, r2, r3, r4) x =
     (case foldl sha1_step ((r0, r1, r2, r3, r4), map (x32 x) [0..<80]) [0..<80] of
        ((a, b, c, d, e), w) \<Rightarrow>
          ((r0 + a, r1 + b, r2 + c, r3 + d, r4 + e), concat (map UInt32SetLE w)))"

text \<open>The length fields: \<open>x[14]\<close> and \<open>x[15]\<close>, big and little endian.\<close>

definition len_be :: "nat \<Rightarrow> bytes" where
  "len_be len = UInt32SetLE (be32 (ucast (drop_bit 29 (of_nat len :: u64)))) @
     UInt32SetLE (be32 (ucast (push_bit 3 (of_nat len :: u64))))"

definition len_le :: "nat \<Rightarrow> bytes" where
  "len_le len = UInt32SetLE (ucast (push_bit 3 (of_nat len :: u64))) @
     UInt32SetLE (ucast (drop_bit 29 (of_nat len :: u64)))"

definition BRSHA1 :: "bytes \<Rightarrow> bytes" where
  "BRSHA1 data = (case md_final BRSHA1Compress 64 56 (len_be (length data)) (length data)
      (md_loop BRSHA1Compress 64 False data 0
        (0x67452301, 0xefcdab89, 0x98badcfe, 0x10325476, 0xc3d2e1f0) (replicate 320 0)) of
    (a, b, c, d, e) \<Rightarrow> concat (map (\<lambda>w. UInt32SetLE (be32 w)) [a, b, c, d, e]))"

section \<open>SHA-224 and SHA-256\<close>

definition ch :: "'a::len word \<Rightarrow> 'a word \<Rightarrow> 'a word \<Rightarrow> 'a word" where
  "ch x y z = (x AND y) XOR (NOT x AND z)"
definition maj :: "'a::len word \<Rightarrow> 'a word \<Rightarrow> 'a word \<Rightarrow> 'a word" where
  "maj x y z = ((x AND y) XOR (x AND z)) XOR (y AND z)"

definition s0 :: "u32 \<Rightarrow> u32" where "s0 x = ror32 x 2 XOR ror32 x 13 XOR ror32 x 22"
definition s1 :: "u32 \<Rightarrow> u32" where "s1 x = ror32 x 6 XOR ror32 x 11 XOR ror32 x 25"
definition s2 :: "u32 \<Rightarrow> u32" where "s2 x = ror32 x 7 XOR ror32 x 18 XOR drop_bit 3 x"
definition s3 :: "u32 \<Rightarrow> u32" where "s3 x = ror32 x 17 XOR ror32 x 19 XOR drop_bit 10 x"

text \<open>The table \<open>k\<close> of \<open>_BRSHA256Compress\<close>, its hexadecimal literals written in decimal.\<close>

definition sha256_k :: "u32 list" where
  "sha256_k = [
    1116352408, 1899447441, 3049323471, 3921009573, 961987163, 1508970993, 2453635748, 2870763221,
    3624381080, 310598401, 607225278, 1426881987, 1925078388, 2162078206, 2614888103, 3248222580,
    3835390401, 4022224774, 264347078, 604807628, 770255983, 1249150122, 1555081692, 1996064986,
    2554220882, 2821834349, 2952996808, 3210313671, 3336571891, 3584528711, 113926993, 338241895,
    666307205, 773529912, 1294757372, 1396182291, 1695183700, 1986661051, 2177026350, 2456956037,
    2730485921, 2820302411, 3259730800, 3345764771, 3516065817, 3600352804, 4094571909, 275423344,
    430227734, 506948616, 659060556, 883997877, 958139571, 1322822218, 1537002063, 1747873779,
    1955562222, 2024104815, 2227730452, 2361852424, 2428436474, 2756734187, 3204031479, 3329325298]"

type_synonym 'w sha2_state = "'w \<times> 'w \<times> 'w \<times> 'w \<times> 'w \<times> 'w \<times> 'w \<times> 'w"

definition sha256_w :: "bytes \<Rightarrow> u32 list" where
  "sha256_w x = foldl (\<lambda>w i. w @ [s3 (w ! (i - 2)) + w ! (i - 7) + s2 (w ! (i - 15)) + w ! (i - 16)])
     (map (\<lambda>i. be32 (x32 x i)) [0..<16]) [16..<64]"

fun sha256_round :: "u32 sha2_state \<Rightarrow> u32 \<times> u32 \<Rightarrow> u32 sha2_state" where
  "sha256_round (a, b, c, d, e, f, g, h) (k, w) =
     (let t1 = h + s1 e + ch e f g + k + w; t2 = s0 a + maj a b c
      in (t1 + t2, a, b, c, d + t1, e, f, g))"

fun sha2_add :: "'a::len word sha2_state \<Rightarrow> 'a word sha2_state \<Rightarrow> 'a word sha2_state" where
  "sha2_add (r0, r1, r2, r3, r4, r5, r6, r7) (a, b, c, d, e, f, g, h) =
     (r0 + a, r1 + b, r2 + c, r3 + d, r4 + e, r5 + f, r6 + g, r7 + h)"

fun sha2_list :: "'w sha2_state \<Rightarrow> 'w list" where
  "sha2_list (a, b, c, d, e, f, g, h) = [a, b, c, d, e, f, g, h]"

definition BRSHA256Compress :: "u32 sha2_state \<Rightarrow> bytes \<Rightarrow> u32 sha2_state \<times> bytes" where
  "BRSHA256Compress r x = (sha2_add r (foldl sha256_round r (zip sha256_k (sha256_w x))), x)"

definition sha256_hash :: "u32 sha2_state \<Rightarrow> bytes \<Rightarrow> u32 list" where
  "sha256_hash init data =
     sha2_list (md_final BRSHA256Compress 64 56 (len_be (length data)) (length data)
       (md_loop BRSHA256Compress 64 False data 0 init (replicate 64 0)))"

definition BRSHA224 :: "bytes \<Rightarrow> bytes" where
  "BRSHA224 data = concat (map (\<lambda>w. UInt32SetLE (be32 w)) (take 7 (sha256_hash
     (0xc1059ed8, 0x367cd507, 0x3070dd17, 0xf70e5939, 0xffc00b31, 0x68581511,
      0x64f98fa7, 0xbefa4fa4) data)))"

definition BRSHA256 :: "bytes \<Rightarrow> bytes" where
  "BRSHA256 data = concat (map (\<lambda>w. UInt32SetLE (be32 w)) (sha256_hash
     (0x6a09e667, 0xbb67ae85, 0x3c6ef372, 0xa54ff53a, 0x510e527f, 0x9b05688c,
      0x1f83d9ab, 0x5be0cd19) data))"

definition BRSHA256_2 :: "bytes \<Rightarrow> bytes" where
  "BRSHA256_2 data = (let t = BRSHA256 data in BRSHA256 t)"

section \<open>SHA-384 and SHA-512\<close>

definition S0 :: "u64 \<Rightarrow> u64" where "S0 x = ror64 x 28 XOR ror64 x 34 XOR ror64 x 39"
definition S1 :: "u64 \<Rightarrow> u64" where "S1 x = ror64 x 14 XOR ror64 x 18 XOR ror64 x 41"
definition S2 :: "u64 \<Rightarrow> u64" where "S2 x = ror64 x 1 XOR ror64 x 8 XOR drop_bit 7 x"
definition S3 :: "u64 \<Rightarrow> u64" where "S3 x = ror64 x 19 XOR ror64 x 61 XOR drop_bit 6 x"

text \<open>The table \<open>k\<close> of \<open>_BRSHA512Compress\<close>, its hexadecimal literals written in decimal.\<close>

definition sha512_k :: "u64 list" where
  "sha512_k = [
    4794697086780616226, 8158064640168781261, 13096744586834688815, 16840607885511220156,
    4131703408338449720, 6480981068601479193, 10538285296894168987, 12329834152419229976,
    15566598209576043074, 1334009975649890238, 2608012711638119052, 6128411473006802146,
    8268148722764581231, 9286055187155687089, 11230858885718282805, 13951009754708518548,
    16472876342353939154, 17275323862435702243, 1135362057144423861, 2597628984639134821,
    3308224258029322869, 5365058923640841347, 6679025012923562964, 8573033837759648693,
    10970295158949994411, 12119686244451234320, 12683024718118986047, 13788192230050041572,
    14330467153632333762, 15395433587784984357, 489312712824947311, 1452737877330783856,
    2861767655752347644, 3322285676063803686, 5560940570517711597, 5996557281743188959,
    7280758554555802590, 8532644243296465576, 9350256976987008742, 10552545826968843579,
    11727347734174303076, 12113106623233404929, 14000437183269869457, 14369950271660146224,
    15101387698204529176, 15463397548674623760, 17586052441742319658, 1182934255886127544,
    1847814050463011016, 2177327727835720531, 2830643537854262169, 3796741975233480872,
    4115178125766777443, 5681478168544905931, 6601373596472566643, 7507060721942968483,
    8399075790359081724, 8693463985226723168, 9568029438360202098, 10144078919501101548,
    10430055236837252648, 11840083180663258601, 13761210420658862357, 14299343276471374635,
    14566680578165727644, 15097957966210449927, 16922976911328602910, 17689382322260857208,
    500013540394364858, 748580250866718886, 1242879168328830382, 1977374033974150939,
    2944078676154940804, 3659926193048069267, 4368137639120453308, 4836135668995329356,
    5532061633213252278, 6448918945643986474, 6902733635092675308, 7801388544844847127]"

definition sha512_w :: "bytes \<Rightarrow> u64 list" where
  "sha512_w x = foldl (\<lambda>w i. w @ [S3 (w ! (i - 2)) + w ! (i - 7) + S2 (w ! (i - 15)) + w ! (i - 16)])
     (map (\<lambda>i. be64 (x64 x i)) [0..<16]) [16..<80]"

fun sha512_round :: "u64 sha2_state \<Rightarrow> u64 \<times> u64 \<Rightarrow> u64 sha2_state" where
  "sha512_round (a, b, c, d, e, f, g, h) (k, w) =
     (let t1 = h + S1 e + ch e f g + k + w; t2 = S0 a + maj a b c
      in (t1 + t2, a, b, c, d + t1, e, f, g))"

definition BRSHA512Compress :: "u64 sha2_state \<Rightarrow> bytes \<Rightarrow> u64 sha2_state \<times> bytes" where
  "BRSHA512Compress r x = (sha2_add r (foldl sha512_round r (zip sha512_k (sha512_w x))), x)"

definition len_be128 :: "nat \<Rightarrow> bytes" where
  "len_be128 len = UInt64SetLE 0 @ UInt64SetLE (be64 ((of_nat len :: u64) * 8))"

definition sha512_hash :: "u64 sha2_state \<Rightarrow> bytes \<Rightarrow> u64 list" where
  "sha512_hash init data =
     sha2_list (md_final BRSHA512Compress 128 112 (len_be128 (length data)) (length data)
       (md_loop BRSHA512Compress 128 False data 0 init (replicate 128 0)))"

definition BRSHA384 :: "bytes \<Rightarrow> bytes" where
  "BRSHA384 data = concat (map (\<lambda>w. UInt64SetLE (be64 w)) (take 6 (sha512_hash
     (0xcbbb9d5dc1059ed8, 0x629a292a367cd507, 0x9159015a3070dd17, 0x152fecd8f70e5939,
      0x67332667ffc00b31, 0x8eb44a8768581511, 0xdb0c2e0d64f98fa7, 0x47b5481dbefa4fa4) data)))"

definition BRSHA512 :: "bytes \<Rightarrow> bytes" where
  "BRSHA512 data = concat (map (\<lambda>w. UInt64SetLE (be64 w)) (sha512_hash
     (0x6a09e667f3bcc908, 0xbb67ae8584caa73b, 0x3c6ef372fe94f82b, 0xa54ff53a5f1d36f1,
      0x510e527fade682d1, 0x9b05688c2b3e6c1f, 0x1f83d9abfb41bd6b, 0x5be0cd19137e2179) data))"

section \<open>RIPEMD-160\<close>

definition rmd_f :: "u32 \<Rightarrow> u32 \<Rightarrow> u32 \<Rightarrow> u32" where "rmd_f x y z = (x XOR y) XOR z"
definition rmd_g :: "u32 \<Rightarrow> u32 \<Rightarrow> u32 \<Rightarrow> u32" where "rmd_g x y z = (x AND y) OR (NOT x AND z)"
definition rmd_h :: "u32 \<Rightarrow> u32 \<Rightarrow> u32 \<Rightarrow> u32" where "rmd_h x y z = (x OR NOT y) XOR z"
definition rmd_i :: "u32 \<Rightarrow> u32 \<Rightarrow> u32 \<Rightarrow> u32" where "rmd_i x y z = (x AND z) OR (y AND NOT z)"
definition rmd_j :: "u32 \<Rightarrow> u32 \<Rightarrow> u32 \<Rightarrow> u32" where "rmd_j x y z = x XOR (y OR NOT z)"

text \<open>Message word selection and shifts of the five rounds, left and right line.\<close>

definition rmd_rl :: "nat list list" where
  "rmd_rl = [
    [0, 1, 2, 3, 4, 5, 6, 7, 8, 9, 10, 11, 12, 13, 14, 15],
    [7, 4, 13, 1, 10, 6, 15, 3, 12, 0, 9, 5, 2, 14, 11, 8],
    [3, 10, 14, 4, 9, 15, 8, 1, 2, 7, 0, 6, 13, 11, 5, 12],
    [1, 9, 11, 10, 0, 8, 12, 4, 13, 3, 7, 15, 14, 5, 6, 2],
    [4, 0, 5, 9, 7, 12, 2, 10, 14, 1, 3, 8, 11, 6, 15, 13]]"
definition rmd_rr :: "nat list list" where
  "rmd_rr = [
    [5, 14, 7, 0, 9, 2, 11, 4, 13, 6, 15, 8, 1, 10, 3, 12],
    [6, 11, 3, 7, 0, 13, 5, 10, 14, 15, 8, 12, 4, 9, 1, 2],
    [15, 5, 1, 3, 7, 14, 6, 9, 11, 8, 12, 2, 10, 0, 4, 13],
    [8, 6, 4, 1, 3, 11, 15, 0, 5, 12, 2, 13, 9, 7, 10, 14],
    [12, 15, 10, 4, 1, 5, 8, 7, 6, 2, 13, 14, 0, 3, 9, 11]]"
definition rmd_sl :: "nat list list" where
  "rmd_sl = [
    [11, 14, 15, 12, 5, 8, 7, 9, 11, 13, 14, 15, 6, 7, 9, 8],
    [7, 6, 8, 13, 11, 9, 7, 15, 7, 12, 15, 9, 11, 7, 13, 12],
    [11, 13, 6, 7, 14, 9, 13, 15, 14, 8, 13, 6, 5, 12, 7, 5],
    [11, 12, 14, 15, 14, 15, 9, 8, 9, 14, 5, 6, 8, 6, 5, 12],
    [9, 15, 5, 11, 6, 8, 13, 12, 5, 12, 13, 14, 11, 8, 5, 6]]"
definition rmd_sr :: "nat list list" where
  "rmd_sr = [
    [8, 9, 9, 11, 13, 15, 15, 5, 7, 7, 8, 11, 14, 14, 12, 6],
    [9, 13, 15, 7, 12, 8, 9, 11, 7, 7, 12, 7, 6, 15, 13, 11],
    [9, 7, 15, 11, 8, 6, 6, 14, 12, 13, 5, 14, 13, 13, 7, 5],
    [15, 5, 8, 11, 14, 14, 6, 14, 6, 9, 12, 9, 12, 5, 15, 8],
    [8, 5, 12, 9, 12, 5, 14, 6, 8, 13, 6, 5, 15, 13, 11, 11]]"

text \<open>
  One operation \<open>rmd(t, fn(b, c, d), x, k, s, a, e, d, c, b)\<close> on the line \<open>(a, b, c, d, e)\<close>, and
  one round of sixteen.
\<close>

fun rmd_op :: "(u32 \<Rightarrow> u32 \<Rightarrow> u32 \<Rightarrow> u32) \<Rightarrow> u32 \<Rightarrow> sha1_state \<Rightarrow> u32 \<times> nat \<Rightarrow> sha1_state" where
  "rmd_op fn k (a, b, c, d, e) (x, s) =
     (e, rol32 (a + fn b c d + x + k) s + e, b, rol32 c 10, d)"

definition rmd_round ::
  "bytes \<Rightarrow> (u32 \<Rightarrow> u32 \<Rightarrow> u32 \<Rightarrow> u32) \<Rightarrow> u32 \<Rightarrow> nat list \<Rightarrow> nat list \<Rightarrow> sha1_state \<Rightarrow> sha1_state" where
  "rmd_round x fn k rs ss v = foldl (rmd_op fn k) v (zip (map (x32 x) rs) ss)"

definition rmd_line ::
  "bytes \<Rightarrow> (u32 \<Rightarrow> u32 \<Rightarrow> u32 \<Rightarrow> u32) list \<Rightarrow> u32 list \<Rightarrow> nat list list \<Rightarrow> nat list list
    \<Rightarrow> sha1_state \<Rightarrow> sha1_state" where
  "rmd_line x fns ks rs ss v =
     foldl (\<lambda>v i. rmd_round x (fns ! i) (ks ! i) (rs ! i) (ss ! i) v) v [0..<5]"

fun BRRMDCompress :: "sha1_state \<Rightarrow> bytes \<Rightarrow> sha1_state \<times> bytes" where
  "BRRMDCompress (r0, r1, r2, r3, r4) x =
     (case (rmd_line x [rmd_f, rmd_g, rmd_h, rmd_i, rmd_j]
              [0x00000000, 0x5a827999, 0x6ed9eba1, 0x8f1bbcdc, 0xa953fd4e] rmd_rl rmd_sl
              (r0, r1, r2, r3, r4),
            rmd_line x [rmd_j, rmd_i, rmd_h, rmd_g, rmd_f]
              [0x50a28be6, 0x5c4dd124, 0x6d703ef3, 0x7a6d76e9, 0x00000000] rmd_rr rmd_sr
              (r0, r1, r2, r3, r4)) of
        ((al, bl, cl, dl, el), (ar, br, cr, dr, er)) \<Rightarrow>
          ((r1 + cl + dr, r2 + dl + er, r3 + el + ar, r4 + al + br, r0 + bl + cr), x))"

definition BRRMD160 :: "bytes \<Rightarrow> bytes" where
  "BRRMD160 data = (case md_final BRRMDCompress 64 56 (len_le (length data)) (length data)
      (md_loop BRRMDCompress 64 True data 0
        (0x67452301, 0xefcdab89, 0x98badcfe, 0x10325476, 0xc3d2e1f0) (replicate 64 0)) of
    (a, b, c, d, e) \<Rightarrow> concat (map UInt32SetLE [a, b, c, d, e]))"

definition BRHash160 :: "bytes \<Rightarrow> bytes" where
  "BRHash160 data = (let t = BRSHA256 data in BRRMD160 t)"

section \<open>MD5\<close>

definition md5_F :: "u32 \<Rightarrow> u32 \<Rightarrow> u32 \<Rightarrow> u32" where "md5_F x y z = z XOR (x AND (y XOR z))"
definition md5_G :: "u32 \<Rightarrow> u32 \<Rightarrow> u32 \<Rightarrow> u32" where "md5_G x y z = y XOR (z AND (x XOR y))"
definition md5_H :: "u32 \<Rightarrow> u32 \<Rightarrow> u32 \<Rightarrow> u32" where "md5_H x y z = (x XOR y) XOR z"
definition md5_I :: "u32 \<Rightarrow> u32 \<Rightarrow> u32 \<Rightarrow> u32" where "md5_I x y z = y XOR (x OR NOT z)"

definition md5_k :: "u32 list" where
  "md5_k = [
    0xd76aa478, 0xe8c7b756, 0x242070db, 0xc1bdceee, 0xf57c0faf, 0x4787c62a,
    0xa8304613, 0xfd469501, 0x698098d8, 0x8b44f7af, 0xffff5bb1, 0x895cd7be,
    0x6b901122, 0xfd987193, 0xa679438e, 0x49b40821, 0xf61e2562, 0xc040b340,
    0x265e5a51, 0xe9b6c7aa, 0xd62f105d, 0x02441453, 0xd8a1e681, 0xe7d3fbc8,
    0x21e1cde6, 0xc33707d6, 0xf4d50d87, 0x455a14ed, 0xa9e3e905, 0xfcefa3f8,
    0x676f02d9, 0x8d2a4c8a, 0xfffa3942, 0x8771f681, 0x6d9d6122, 0xfde5380c,
    0xa4beea44, 0x4bdecfa9, 0xf6bb4b60, 0xbebfbc70, 0x289b7ec6, 0xeaa127fa,
    0xd4ef3085, 0x04881d05, 0xd9d4d039, 0xe6db99e5, 0x1fa27cf8, 0xc4ac5665,
    0xf4292244, 0x432aff97, 0xab9423a7, 0xfc93a039, 0x655b59c3, 0x8f0ccc92,
    0xffeff47d, 0x85845dd1, 0x6fa87e4f, 0xfe2ce6e0, 0xa3014314, 0x4e0811a1,
    0xf7537e82, 0xbd3af235, 0x2ad7d2bb, 0xeb86d391]"

definition md5_s :: "nat list" where
  "md5_s = [7, 12, 17, 22, 5, 9, 14, 20, 4, 11, 16, 23, 6, 10, 15, 21]"

type_synonym md5_state = "u32 \<times> u32 \<times> u32 \<times> u32"

fun md5_op :: "(u32 \<Rightarrow> u32 \<Rightarrow> u32 \<Rightarrow> u32) \<Rightarrow> u32 \<Rightarrow> u32 \<Rightarrow> nat \<Rightarrow> md5_state \<Rightarrow> md5_state" where
  "md5_op f x k s (a, b, c, d) = (d, rol32 (a + (f b c d + x + k)) s + b, b, c)"

definition md5_step :: "bytes \<Rightarrow> md5_state \<Rightarrow> nat \<Rightarrow> md5_state" where
  "md5_step x v i =
     (if i < 16 then md5_op md5_F (x32 x i) (md5_k ! i) (md5_s ! (i mod 4)) v
      else if i < 32 then md5_op md5_G (x32 x ((5 * i + 1) mod 16)) (md5_k ! i) (md5_s ! (4 + i mod 4)) v
      else if i < 48 then md5_op md5_H (x32 x ((3 * i + 5) mod 16)) (md5_k ! i) (md5_s ! (8 + i mod 4)) v
      else md5_op md5_I (x32 x ((7 * i) mod 16)) (md5_k ! i) (md5_s ! (12 + i mod 4)) v)"

fun BRMD5Compress :: "md5_state \<Rightarrow> bytes \<Rightarrow> md5_state \<times> bytes" where
  "BRMD5Compress (r0, r1, r2, r3) x =
     (case foldl (md5_step x) (r0, r1, r2, r3) [0..<64] of
        (a, b, c, d) \<Rightarrow> ((r0 + a, r1 + b, r2 + c, r3 + d), x))"

definition BRMD5 :: "bytes \<Rightarrow> bytes" where
  "BRMD5 data = (case md_final BRMD5Compress 64 56 (len_le (length data)) (length data)
      (md_loop BRMD5Compress 64 True data 0
        (0x67452301, 0xefcdab89, 0x98badcfe, 0x10325476) (replicate 64 0)) of
    (a, b, c, d) \<Rightarrow> concat (map UInt32SetLE [a, b, c, d]))"

section \<open>murmurHash3\<close>

definition fmix32 :: "u32 \<Rightarrow> u32" where
  "fmix32 h = (let h = h XOR drop_bit 16 h; h = h * 0x85ebca6b; h = h XOR drop_bit 13 h;
     h = h * 0xc2b2ae35 in h XOR drop_bit 16 h)"

definition murmur_block :: "bytes \<Rightarrow> u32 \<Rightarrow> nat \<Rightarrow> u32" where
  "murmur_block data h i =
     (let k = x32 data i * 0xcc9e2d51; k = rol32 k 15 * 0x1b873593; h = h XOR k
      in rol32 h 13 * 5 + 0xe6546b64)"

definition BRMurmur3_32 :: "bytes \<Rightarrow> u32 \<Rightarrow> u32" where
  "BRMurmur3_32 data seed =
     (let count = length data div 4;
          h = foldl (murmur_block data) seed [0..<count];
          r = length data mod 4;
          k = (if r = 3 then push_bit 16 (ucast (data ! (count * 4 + 2))) else 0);
          k = (if r \<ge> 2 then k XOR push_bit 8 (ucast (data ! (count * 4 + 1))) else k);
          h = (if r \<ge> 1 then
                 let k = (k XOR ucast (data ! (count * 4))) * 0xcc9e2d51
                 in h XOR rol32 k 15 * 0x1b873593
               else h);
          h = h XOR of_nat (length data)
      in fmix32 h)"


section \<open>Equivalence of the driver with the padded Merkle-Damgard construction\<close>

text \<open>The full blocks of a byte string, and the padding of FIPS 180-4 and RFC 1321.\<close>

function chunks :: "nat \<Rightarrow> 'a list \<Rightarrow> 'a list list" where
  "chunks B xs = (if B = 0 \<or> length xs < B then [] else take B xs # chunks B (drop B xs))"
  by pat_completeness auto
termination by (relation "measure (\<lambda>(B, xs). length xs)") auto

declare chunks.simps [simp del]

definition md_pad :: "nat \<Rightarrow> nat \<Rightarrow> bytes \<Rightarrow> bytes \<Rightarrow> bytes" where
  "md_pad B L lenField msg =
     (let r = length msg mod B
      in msg @ [0x80] @ replicate (if r < L then L - 1 - r else B + L - 1 - r) 0 @ lenField)"

definition md_spec ::
  "('s \<Rightarrow> bytes \<Rightarrow> 's \<times> bytes) \<Rightarrow> nat \<Rightarrow> nat \<Rightarrow> nat \<Rightarrow> 's \<Rightarrow> bytes \<Rightarrow> bytes \<Rightarrow> 's" where
  "md_spec compress B L X init lenField msg =
     foldl (\<lambda>s c. fst (compress s (c @ replicate (X - B) 0))) init (chunks B (md_pad B L lenField msg))"

lemma md_loop_step:
  assumes "0 < B" "i + B \<le> length data"
  shows "md_loop compress B le data i buf x =
    (case compress buf (poke 0 (take B (drop i data)) x) of
       (buf', x') \<Rightarrow> md_loop compress B le data (i + B) buf' x')"
proof (cases "i + B = length data")
  case True
  then have "length data - i = B" by simp
  then show ?thesis using True assms
    by (subst md_loop.simps) (simp add: Let_def del: poke_0)
next
  case False
  then show ?thesis using assms
    by (subst md_loop.simps) (simp add: Let_def del: poke_0)
qed

lemma chunks_short [simp]: "length xs < B \<Longrightarrow> chunks B xs = []"
  by (subst chunks.simps) simp

lemma chunks_Cons: "0 < B \<Longrightarrow> length c = B \<Longrightarrow> chunks B (c @ xs) = c # chunks B xs"
  by (subst chunks.simps) simp

lemma chunks_append:
  "0 < B \<Longrightarrow> B dvd length xs \<Longrightarrow> chunks B (xs @ ys) = chunks B xs @ chunks B ys"
proof (induction B xs rule: chunks.induct)
  case (1 B xs)
  show ?case
  proof (cases "length xs < B")
    case True
    then have "xs = []" using "1.prems" by (auto dest: dvd_imp_le)
    then show ?thesis using "1.prems" by simp
  next
    case False
    have "xs = take B xs @ drop B xs" "length (take B xs) = B" using False by simp_all
    moreover have "B dvd length (drop B xs)" using "1.prems" False by (simp add: dvd_minus_self)
    ultimately show ?thesis
      using "1.IH" "1.prems" False chunks_Cons [of B "take B xs" "drop B xs"]
        chunks_Cons [of B "take B xs" "drop B xs @ ys"]
      by (metis append_Cons append_assoc neq0_conv)
  qed
qed

text \<open>What the driver needs of a compression function: it reads one block and keeps the
  length of the work array.\<close>

locale md_construction =
  fixes compress :: "'s \<Rightarrow> bytes \<Rightarrow> 's \<times> bytes" and B L X :: nat
  assumes L_pos: "0 < L" and L_less: "L < B" and B_le: "B \<le> X"
    and compress_len: "length x = X \<Longrightarrow> length (snd (compress r x)) = X"
    and compress_block: "length x = X \<Longrightarrow>
      fst (compress r x) = fst (compress r (take B x @ replicate (X - B) 0))"
begin

abbreviation "step \<equiv> (\<lambda>s c. fst (compress s (c @ replicate (X - B) 0)))"


lemma B_pos: "0 < B" using L_pos L_less by simp

lemma compress_take:
  "length x = X \<Longrightarrow> take B x = c \<Longrightarrow> fst (compress r x) = step r c"
  using compress_block by simp

lemma md_loop_blocks:
  assumes "length x = X" "i \<le> length data"
  shows "\<exists>x'. md_loop compress B le data i buf x =
      (i + B * ((length data - i) div B), foldl step buf (chunks B (drop i data)), x') \<and>
      length x' = X \<and>
      take ((length data - i) mod B) x' = drop (i + B * ((length data - i) div B)) data"
  using assms
proof (induction "length data - i" arbitrary: i buf x rule: less_induct)
  case less
  show ?case
  proof (cases "i + B > length data")
    case True
    then have small: "length data - i < B" using less.prems by linarith
    define x' where "x' = poke 0 (drop i data) x"
    have "length x' = X" "take (length data - i) x' = drop i data"
      using less.prems small B_le by (simp_all add: x'_def)
    moreover have "md_loop compress B le data i buf x = (i, buf, if le \<or> i < length data then x' else x)"
      using small B_pos True less.prems
      by (subst md_loop.simps) (auto simp: x'_def Let_def)
    ultimately show ?thesis using small less.prems by auto
  next
    case False
    define c where "c = take B (drop i data)"
    define x1 where "x1 = poke 0 c x"
    have c: "length c = B" using False by (simp add: c_def)
    have x1: "length x1 = X" "take B x1 = c"
      using less.prems B_le c by (simp_all add: x1_def)
    obtain buf' x2 where cx: "compress buf x1 = (buf', x2)" by force
    have buf': "buf' = step buf c" using compress_take [OF x1, of buf] cx by simp
    have x2: "length x2 = X" using compress_len [OF x1(1), of buf] cx by simp
    have "md_loop compress B le data i buf x = md_loop compress B le data (i + B) buf' x2"
      using md_loop_step [of B i data compress le buf x] False B_pos cx
      unfolding c_def x1_def by simp
    moreover have dec: "length data - (i + B) < length data - i" using False B_pos by linarith
    then obtain x' where "md_loop compress B le data (i + B) buf' x2 =
      (i + B + B * ((length data - (i + B)) div B), foldl step buf' (chunks B (drop (i + B) data)), x')"
      "length x' = X" "take ((length data - (i + B)) mod B) x' =
        drop (i + B + B * ((length data - (i + B)) div B)) data"
      using less.hyps [OF dec x2, of buf'] False by auto
    moreover have "drop i data = c @ drop (i + B) data"
      using False by (simp add: c_def add.commute flip: drop_drop)
    then have "foldl step buf (chunks B (drop i data)) = foldl step buf' (chunks B (drop (i + B) data))"
      by (simp add: chunks_Cons [OF B_pos c] buf')
    moreover have l: "length data - i = length data - (i + B) + B" using False by simp
    then have "i + B * ((length data - i) div B) = i + B + B * ((length data - (i + B)) div B)"
        "(length data - i) mod B = (length data - (i + B)) mod B"
      using B_pos by (simp_all only: l) (simp_all add: div_add_self2)
    ultimately show ?thesis by metis
  qed
qed

lemma md_final_block:
  assumes "length x = X" "n < B" "take n x = t" "length t = n" "length lenField = B - L"
  shows "md_final compress B L lenField (i + n) (i, buf, x) =
    foldl step buf (chunks B (t @ [0x80] @ replicate (if n < L then L - 1 - n else B + L - 1 - n) 0 @ lenField))"
proof -
  define x2 where "x2 = (poke n (replicate (B - n) 0) x)[n := 0x80]"
  have x2: "length x2 = X" using assms B_le by (simp add: x2_def)
  have t2: "take B x2 = t @ [0x80] @ replicate (B - 1 - n) 0"
  proof -
    have "poke n (replicate (B - n) 0) x = t @ replicate (B - n) 0 @ drop B x"
      using assms by (simp add: poke_def)
    moreover have "replicate (B - n) (0::u8) = 0 # replicate (B - 1 - n) 0"
      using assms(2) by (cases "B - n") auto
    ultimately show ?thesis
      using assms by (simp add: x2_def list_update_append take_Cons')
  qed
  show ?thesis
  proof (cases "n < L")
    case True
    define x4 where "x4 = poke (B - length lenField) lenField x2"
    have BL: "B - length lenField = L" using assms(5) L_less by simp
    have x4: "length x4 = X" using x2 assms(5) BL B_le L_less by (simp add: x4_def)
    have "take B x4 = take L x2 @ lenField"
      using x2 assms(5) B_le L_less by (simp add: x4_def BL poke_def)
    also have "take L x2 = take L (take B x2)" using L_less by (simp add: min_def)
    also have "\<dots> = t @ [0x80] @ replicate (L - 1 - n) 0"
      unfolding t2 using True assms L_less by (simp add: take_Cons' min_def)
    finally have tx: "take B x4 = t @ [0x80] @ replicate (L - 1 - n) 0 @ lenField" by simp
    have "md_final compress B L lenField (i + n) (i, buf, x) = fst (compress buf x4)"
      using True by (simp add: md_final_def Let_def x4_def x2_def)
    also have "\<dots> = step buf (t @ [0x80] @ replicate (L - 1 - n) 0 @ lenField)"
      using compress_take [OF x4 tx] .
    finally show ?thesis
      using True assms L_less chunks_Cons [OF B_pos, of "t @ [0x80] @ replicate (L - 1 - n) 0 @ lenField" "[]"] B_pos
      by simp
  next
    case False
    obtain buf' y where cy: "compress buf x2 = (buf', y)" by force
    have y: "length y = X" using compress_len [OF x2, of buf] cy by simp
    have b': "buf' = step buf (t @ [0x80] @ replicate (B - 1 - n) 0)"
      using compress_take [OF x2 t2, of buf] cy by simp
    define x4 where "x4 = poke (B - length lenField) lenField (poke 0 (replicate B 0) y)"
    have BL: "B - length lenField = L" using assms(5) L_less by simp
    have x4: "length x4 = X" using y assms(5) BL B_le L_less by (simp add: x4_def)
    have tx: "take B x4 = replicate L 0 @ lenField"
      using y assms(5) B_le L_less by (simp add: x4_def BL poke_def min_def)
    have "md_final compress B L lenField (i + n) (i, buf, x) = fst (compress buf' x4)"
      using False cy by (simp add: md_final_def Let_def x4_def x2_def)
    also have "\<dots> = step buf' (replicate L 0 @ lenField)"
      using compress_take [OF x4 tx] .
    finally have res: "md_final compress B L lenField (i + n) (i, buf, x) =
      step buf' (replicate L 0 @ lenField)" .
    have "replicate (B + L - 1 - n) (0::u8) = replicate (B - 1 - n) 0 @ replicate L 0"
      using assms(2) by (simp flip: replicate_add)
    then have "chunks B (t @ [0x80] @ replicate (B + L - 1 - n) 0 @ lenField) =
        [t @ [0x80] @ replicate (B - 1 - n) 0, replicate L 0 @ lenField]"
      using assms L_less B_pos chunks_Cons [OF B_pos, of "t @ [0x80] @ replicate (B - 1 - n) 0" "replicate L 0 @ lenField"]
        chunks_Cons [OF B_pos, of "replicate L 0 @ lenField" "[]"] by simp
    then show ?thesis using False res b' by simp
  qed
qed

theorem md_hash_eq_spec:
  assumes "length x = X" "length lenField = B - L"
  shows "md_final compress B L lenField (length data) (md_loop compress B le data 0 init x) =
    md_spec compress B L X init lenField data"
proof -
  define q where "q = B * (length data div B)"
  define t where "t = drop q data"
  have q: "q \<le> length data" "q + length data mod B = length data" by (simp_all add: q_def)
  have lt: "length t = length data mod B" using q by (simp add: t_def)
  obtain x' where x': "md_loop compress B le data 0 init x = (q, foldl step init (chunks B data), x')"
      "length x' = X" "take (length data mod B) x' = t"
    using md_loop_blocks [OF assms(1), of 0 data le init] by (auto simp: q_def t_def)
  have "data = take q data @ t" by (simp add: t_def)
  moreover have "length (take q data) = B * (length data div B)" using q(1) by (simp add: q_def)
  then have "B dvd length (take q data)" by simp
  ultimately have "chunks B data = chunks B (take q data)"
    and pad: "chunks B (md_pad B L lenField data) = chunks B (take q data) @
      chunks B (t @ [0x80] @ replicate (if length t < L then L - 1 - length t else B + L - 1 - length t) 0 @ lenField)"
    using chunks_append [OF B_pos, of "take q data"] B_pos lt
    by (metis append_Nil2 chunks_short mod_less_divisor,
        metis (no_types, lifting) append_assoc md_pad_def)
  then show ?thesis
    using md_final_block [OF x'(2) _ x'(3), of lenField q] lt assms(2) B_pos q(2) x'(1)
    by (simp add: md_spec_def)
qed

end

section \<open>The compression functions satisfy the contract of the driver\<close>

lemma x32_take:
  assumes "4 * i + 4 \<le> n" "n \<le> length x"
  shows "x32 (take n x @ y) i = x32 x i"
  using assms by (simp add: x32_def uint_get_le take_drop min_def)

interpretation sha256: md_construction BRSHA256Compress 64 56 64
  by unfold_locales (simp_all add: BRSHA256Compress_def)

interpretation sha512: md_construction BRSHA512Compress 128 112 128
  by unfold_locales (simp_all add: BRSHA512Compress_def)

interpretation rmd160: md_construction BRRMDCompress 64 56 64
  by unfold_locales (auto split: prod.splits)

interpretation md5: md_construction BRMD5Compress 64 56 64
  by unfold_locales (auto split: prod.splits)

text \<open>SHA-1 reads the words of the schedule after it has written them.\<close>

lemma sha1_steps_agree:
  assumes "length x = 80" "length y = 80" "take 16 x = take 16 y" "n \<le> 80"
  shows "\<exists>v x' y'. foldl sha1_step (s, x) [0..<n] = (v, x') \<and> foldl sha1_step (s, y) [0..<n] = (v, y') \<and>
    length x' = 80 \<and> length y' = 80 \<and> take (max 16 n) x' = take (max 16 n) y'"
  using assms(4)
proof (induction n)
  case 0
  then show ?case using assms by (cases s) auto
next
  case (Suc n)
  then obtain v x' y' where *: "foldl sha1_step (s, x) [0..<n] = (v, x')"
      "foldl sha1_step (s, y) [0..<n] = (v, y')" "length x' = 80" "length y' = 80"
      "take (max 16 n) x' = take (max 16 n) y'" by auto
  have eq: "x' ! k = y' ! k" if "k < max 16 n" for k
    using *(5) that by (metis nth_take)
  define xi where "xi = (if n < 16 then be32 (x' ! n)
     else rol32 (x' ! (n - 3) XOR x' ! (n - 8) XOR x' ! (n - 14) XOR x' ! (n - 16)) 1)"
  have yi: "xi = (if n < 16 then be32 (y' ! n)
     else rol32 (y' ! (n - 3) XOR y' ! (n - 8) XOR y' ! (n - 14) XOR y' ! (n - 16)) 1)"
    using eq by (simp add: xi_def)
  define v' where "v' = (case (if n < 20 then (f1, 0x5a827999) else if n < 40 then (f2, 0x6ed9eba1)
      else if n < 60 then (f3, 0x8f1bbcdc) else (f2, 0xca62c1d6)) of (f, y) \<Rightarrow> sha1_op f y xi v)"
  have "sha1_step (v, x') n = (v', x'[n := xi])"
    by (simp add: sha1_step_def Let_def xi_def [symmetric] v'_def split: prod.splits)
  moreover have "sha1_step (v, y') n = (v', y'[n := xi])"
    by (simp add: sha1_step_def Let_def yi [symmetric] v'_def split: prod.splits)
  moreover have "take (max 16 (Suc n)) (x'[n := xi]) = take (max 16 (Suc n)) (y'[n := xi])"
    using *(3,4) eq Suc.prems by (intro nth_equalityI) (auto simp: nth_list_update less_Suc_eq)
  ultimately show ?case using * by (cases v' rule: prod_cases5) simp
qed

lemma sha1_words_take:
  assumes "length x = 320"
  shows "take 16 (map (x32 (take 64 x @ replicate 256 0)) [0..<80]) = take 16 (map (x32 x) [0..<80])"
  using assms by (auto simp: take_map take_upt x32_take)

lemma length_concat_words [simp]:
  "length (concat (map (\<lambda>w. UInt32SetLE (f w)) ws)) = 4 * length ws"
  "length (concat (map (\<lambda>w. UInt64SetLE (g w)) vs)) = 8 * length vs"
  by (induction ws, simp_all) (induction vs, simp_all)

interpretation sha1: md_construction BRSHA1Compress 64 56 320
proof unfold_locales
  fix x :: bytes and r :: sha1_state
  assume x: "length x = 320"
  obtain r0 r1 r2 r3 r4 where r: "r = (r0, r1, r2, r3, r4)" by (cases r) auto
  obtain v x' y' where *:
      "foldl sha1_step (r, map (x32 x) [0..<80]) [0..<80] = (v, x')"
      "foldl sha1_step (r, map (x32 (take 64 x @ replicate 256 0)) [0..<80]) [0..<80] = (v, y')"
      "length x' = 80"
    using sha1_steps_agree [of "map (x32 x) [0..<80]"
        "map (x32 (take 64 x @ replicate 256 0)) [0..<80]" 80 r] sha1_words_take [OF x]
    by auto
  show "length (snd (BRSHA1Compress r x)) = 320"
    using * length_concat_words(1) [of "\<lambda>w. w"] by (auto simp: r split: prod.splits)
  show "fst (BRSHA1Compress r x) = fst (BRSHA1Compress r (take 64 x @ replicate (320 - 64) 0))"
    using * by (auto simp: r split: prod.splits)
qed simp_all

lemma be_masks:
  "(0xff00 :: u32) = push_bit 8 (mask 8)" "(0xff0000 :: u32) = push_bit 16 (mask 8)"
  "(0xff000000 :: u32) = push_bit 24 (mask 8)"
  by (simp_all add: mask_eq_exp_minus_1)

lemma set_be32 [byte_order]: "UInt32SetLE (be32 w) = UInt32SetBE w"
proof -
  have "(ucast (be32 w) :: u8) = ucast (drop_bit 24 w)"
    "(ucast (drop_bit 8 (be32 w)) :: u8) = ucast (drop_bit 16 w)"
    "(ucast (drop_bit 16 (be32 w)) :: u8) = ucast (drop_bit 8 w)"
    "(ucast (drop_bit 24 (be32 w)) :: u8) = ucast w"
    unfolding be32_def be_masks byte_mask
    by (rule bit_word_eqI; auto simp: bit_simps)+
  then show ?thesis by (simp add: UInt32SetLE_def UInt32SetBE_def)
qed

lemma be32_get_le [byte_order]: "4 \<le> length b \<Longrightarrow> be32 (UInt32GetLE b) = UInt32GetBE b"
  using set_be32 [of "UInt32GetLE b"] uint_get_set0(2) uint_set_get(2) [of b]
  by (metis length_take min.absorb2 rev_rev_ident uint_get_be(2) uint_get_le(2) uint_set_be(2)
      uint_set_le(2) take_all_iff dual_order.refl length_rev length_le_of_word)

text \<open>The digests.\<close>

lemma sha2_list_length [simp]: "length (sha2_list s) = 8"
  by (cases s rule: sha2_list.cases) simp

lemma length_sha256_hash [simp]: "length (sha256_hash i d) = 8"
  by (simp add: sha256_hash_def)

lemma length_sha512_hash [simp]: "length (sha512_hash i d) = 8"
  by (simp add: sha512_hash_def)

lemma length_digests [simp]:
  "length (BRSHA1 d) = 20" "length (BRSHA224 d) = 28" "length (BRSHA256 d) = 32"
  "length (BRSHA256_2 d) = 32" "length (BRSHA384 d) = 48" "length (BRSHA512 d) = 64"
  "length (BRRMD160 d) = 20" "length (BRHash160 d) = 20" "length (BRMD5 d) = 16"
  by (simp_all add: BRSHA1_def BRSHA224_def BRSHA256_def BRSHA256_2_def BRSHA384_def BRSHA512_def
      BRRMD160_def BRHash160_def BRMD5_def Let_def split: prod.splits)

section \<open>The block hashes are the padded iterations of their compression functions\<close>

text \<open>The length fields of the padding: the bit length modulo \<open>2^64\<close>.\<close>

lemma len_words:
  "(ucast (drop_bit 29 w) :: u32) = ucast (drop_bit 32 (push_bit 3 (w :: u64)))"
  by (rule bit_word_eqI) (auto simp: bit_simps)

lemma push_bit_3_of_nat: "push_bit 3 (of_nat n :: u64) = of_nat (8 * n)"
  by (simp add: push_bit_eq_mult)

lemma set_be64_halves:
  "UInt32SetBE (ucast (drop_bit 32 (w :: u64))) @ UInt32SetBE (ucast w) = UInt64SetBE w"
  "UInt32SetLE (ucast w) @ UInt32SetLE (ucast (drop_bit 32 w)) = UInt64SetLE w"
proof -
  have "(ucast (drop_bit n (ucast w :: u32)) :: u8) = ucast (drop_bit n w)" if "n \<le> 24" for n
    using that by (intro bit_word_eqI) (auto simp: bit_simps)
  moreover have "(ucast (ucast w :: u32) :: u8) = ucast w"
    by (intro bit_word_eqI) (auto simp: bit_simps)
  moreover have "(ucast (drop_bit n (ucast (drop_bit 32 w) :: u32)) :: u8) = ucast (drop_bit (n + 32) w)"
    if "n \<le> 24" for n
    using that by (intro bit_word_eqI) (auto simp: bit_simps ac_simps)
  moreover have "(ucast (ucast (drop_bit 32 w) :: u32) :: u8) = ucast (drop_bit 32 w)"
    by (intro bit_word_eqI) (auto simp: bit_simps)
  ultimately show
    "UInt32SetBE (ucast (drop_bit 32 w)) @ UInt32SetBE (ucast w) = UInt64SetBE w"
    "UInt32SetLE (ucast w) @ UInt32SetLE (ucast (drop_bit 32 w)) = UInt64SetLE w"
    by (simp_all add: UInt32SetBE_def UInt64SetBE_def UInt32SetLE_def UInt64SetLE_def)
qed

lemma len_be_eq: "len_be n = UInt64SetBE (of_nat (8 * n))"
  unfolding len_be_def len_words set_be32 set_be64_halves(1) push_bit_3_of_nat ..

lemma len_le_eq: "len_le n = UInt64SetLE (of_nat (8 * n))"
  unfolding len_le_def len_words set_be64_halves(2) push_bit_3_of_nat ..

lemma set_be64 [byte_order]: "UInt64SetLE (be64 w) = UInt64SetBE w"
proof -
  have "(ucast (be64 w) :: u32) = be32 (ucast (drop_bit 32 w))"
    "(ucast (drop_bit 32 (be64 w)) :: u32) = be32 (ucast w)"
    by (auto intro!: bit_word_eqI simp: bit_simps be64_def dest: bit_imp_le_length)
       (auto dest!: bit_imp_le_length)
  then show ?thesis
    using set_be64_halves(2) [of "be64 w"] set_be64_halves(1) [of w] by (simp add: set_be32)
qed

lemma len_be128_eq: "len_be128 n = replicate 8 0 @ UInt64SetBE (of_nat (8 * n))"
proof -
  have "UInt64SetLE 0 = replicate 8 0" by (simp add: UInt64SetLE_def numeral_eq_Suc)
  then show ?thesis by (simp add: len_be128_def set_be64 mult.commute)
qed

lemma sha1_spec:
  "BRSHA1 data = (case md_spec BRSHA1Compress 64 56 320
      (0x67452301, 0xefcdab89, 0x98badcfe, 0x10325476, 0xc3d2e1f0)
      (UInt64SetBE (of_nat (8 * length data))) data of
    (a, b, c, d, e) \<Rightarrow> concat (map UInt32SetBE [a, b, c, d, e]))"
  by (simp add: BRSHA1_def sha1.md_hash_eq_spec len_be_eq set_be32)

lemma sha256_hash_spec:
  "sha256_hash init data = sha2_list (foldl (\<lambda>s c. fst (BRSHA256Compress s c)) init
     (chunks 64 (md_pad 64 56 (UInt64SetBE (of_nat (8 * length data))) data)))"
  by (simp add: sha256_hash_def sha256.md_hash_eq_spec len_be_eq md_spec_def)

lemma sha512_hash_spec:
  "sha512_hash init data = sha2_list (foldl (\<lambda>s c. fst (BRSHA512Compress s c)) init
     (chunks 128 (md_pad 128 112 (replicate 8 0 @ UInt64SetBE (of_nat (8 * length data))) data)))"
  by (simp add: sha512_hash_def sha512.md_hash_eq_spec len_be128_eq md_spec_def)

lemma rmd160_spec:
  "BRRMD160 data = (case foldl (\<lambda>s c. fst (BRRMDCompress s c))
      (0x67452301, 0xefcdab89, 0x98badcfe, 0x10325476, 0xc3d2e1f0)
      (chunks 64 (md_pad 64 56 (UInt64SetLE (of_nat (8 * length data))) data)) of
    (a, b, c, d, e) \<Rightarrow> concat (map UInt32SetLE [a, b, c, d, e]))"
  by (simp add: BRRMD160_def rmd160.md_hash_eq_spec len_le_eq md_spec_def del: BRRMDCompress.simps)

lemma md5_spec:
  "BRMD5 data = (case foldl (\<lambda>s c. fst (BRMD5Compress s c))
      (0x67452301, 0xefcdab89, 0x98badcfe, 0x10325476)
      (chunks 64 (md_pad 64 56 (UInt64SetLE (of_nat (8 * length data))) data)) of
    (a, b, c, d) \<Rightarrow> concat (map UInt32SetLE [a, b, c, d]))"
  by (simp add: BRMD5_def md5.md_hash_eq_spec len_le_eq md_spec_def del: BRMD5Compress.simps)

lemma md_pad_length_dvd:
  assumes "0 < L" "L < B" "length lenField = B - L"
  shows "B dvd length (md_pad B L lenField msg)"
proof -
  define r where "r = length msg mod B"
  have "length msg = r + B * (length msg div B)" by (simp add: r_def)
  moreover have "r < B" using assms by (simp add: r_def)
  ultimately have "length (md_pad B L lenField msg) = B * (length msg div B + (if r < L then 1 else 2))"
    using assms by (cases "r < L") (simp_all add: md_pad_def r_def [symmetric] Let_def add_mult_distrib2)
  then show ?thesis by simp
qed

text \<open>
  The two round constant tables agree: both hold the leading bits of the same fractional parts,
  so the 32-bit table is the upper half of the first 64 entries of the 64-bit one. The first and
  last entries are given in the notation of the source.
\<close>

lemma sha2_tables_agree:
  "sha256_k = map (\<lambda>w. ucast (drop_bit 32 w)) (take 64 sha512_k)"
  by code_simp

lemma sha2_tables_ends:
  "hd sha256_k = 0x428a2f98" "last sha256_k = 0xc67178f2"
  "hd sha512_k = 0x428a2f98d728ae22" "last sha512_k = 0x6c44198c4a475817"
  by (simp_all add: sha256_k_def sha512_k_def)

end
