(* ===== verification/BRBase58.thy ===== *)
theory BRBase58
  imports BRHash
begin

text \<open>
  \<open>src/Modules/core/BRBase58.c\<close>: base58 and base58check.

  A C string argument is the list of its characters without the terminator; a character
  buffer is a byte buffer, to which the terminator is written too. Both conversion loops
  multiply the number in \<open>buf\<close>, most significant digit first, by the base of the input and
  add the next input digit as \<open>carry\<close>.
\<close>

definition base58chars :: bytes where
  "base58chars = map of_char ''123456789ABCDEFGHJKLMNPQRSTUVWXYZabcdefghijkmnopqrstuvwxyz''"

section \<open>Encoding\<close>

text \<open>The inner loop of \<open>BRBase58Encode\<close>, from the last digit to the first.\<close>

primrec encode_carry :: "bytes \<Rightarrow> u32 \<Rightarrow> bytes \<times> u32" where
  "encode_carry [] carry = ([], carry)"
| "encode_carry (b # bs) carry =
     (let (bs', c) = encode_carry bs carry; c' = c + push_bit 8 (ucast b)
      in (ucast (c' mod 58) # bs', c' div 58))"

definition encode_digits :: "bytes \<Rightarrow> bytes" where
  "encode_digits data =
     foldl (\<lambda>buf d. fst (encode_carry buf (ucast d)))
       (replicate (length data * 138 div 100 + 1) 0) data"

definition BRBase58Encode :: "bytes \<Rightarrow> buffer \<Rightarrow> buffer \<times> nat" where
  "BRBase58Encode data str =
     (let zcount = length (takeWhile (\<lambda>d. d = 0) data);
          buf = encode_digits (drop zcount data);
          i = length (takeWhile (\<lambda>d. d = 0) buf);
          len = (zcount + length buf - i) + 1
      in case str of
           None \<Rightarrow> (None, len)
         | Some s \<Rightarrow>
             if len \<le> length s
             then (Some (poke 0 (replicate zcount (base58chars ! 0) @
                      map (\<lambda>d. base58chars ! unat d) (drop i buf) @ [0]) s), len)
             else (Some s, 0))"

section \<open>Decoding\<close>

text \<open>The \<open>switch\<close> of \<open>BRBase58Decode\<close>, on character codes.\<close>

definition base58_digit :: "u8 \<Rightarrow> u32" where
  "base58_digit c = (let carry = ucast c in
     if 0x31 \<le> c \<and> c \<le> 0x39 then carry - 0x31
     else if 0x41 \<le> c \<and> c \<le> 0x48 then carry + (9 - 0x41)
     else if 0x4a \<le> c \<and> c \<le> 0x4e then carry + (17 - 0x4a)
     else if 0x50 \<le> c \<and> c \<le> 0x5a then carry + (22 - 0x50)
     else if 0x61 \<le> c \<and> c \<le> 0x6b then carry + (33 - 0x61)
     else if 0x6d \<le> c \<and> c \<le> 0x7a then carry + (44 - 0x6d)
     else 0xffffffff)"

primrec decode_carry :: "bytes \<Rightarrow> u32 \<Rightarrow> bytes \<times> u32" where
  "decode_carry [] carry = ([], carry)"
| "decode_carry (b # bs) carry =
     (let (bs', c) = decode_carry bs carry; c' = c + ucast b * 58
      in (ucast (c' AND 0xff) # bs', drop_bit 8 c'))"

fun decode_loop :: "bytes \<Rightarrow> bytes \<Rightarrow> bytes" where
  "decode_loop [] buf = buf"
| "decode_loop (c # cs) buf =
     (let carry = base58_digit c
      in if carry \<ge> 58 then buf else decode_loop cs (fst (decode_carry buf carry)))"

definition decode_digits :: "bytes \<Rightarrow> bytes" where
  "decode_digits str = decode_loop str (replicate (length str * 733 div 1000 + 1) 0)"

definition BRBase58Decode :: "bytes \<Rightarrow> buffer \<Rightarrow> buffer \<times> nat" where
  "BRBase58Decode str data =
     (let zcount = length (takeWhile (\<lambda>c. c = base58chars ! 0) str);
          buf = decode_digits (drop zcount str);
          i = length (takeWhile (\<lambda>d. d = 0) buf);
          len = zcount + length buf - i
      in case data of
           None \<Rightarrow> (None, len)
         | Some d \<Rightarrow>
             if len \<le> length d
             then (Some (poke zcount (drop i buf) (poke 0 (replicate zcount 0) d)), len)
             else (Some d, 0))"

section \<open>base58check\<close>

definition BRBase58CheckEncode :: "bytes \<Rightarrow> buffer \<Rightarrow> buffer \<times> nat" where
  "BRBase58CheckEncode data str =
     (let buf = data @ BRSHA256_2 data in BRBase58Encode (take (length data + 4) buf) str)"

text \<open>The local buffer starts with arbitrary contents; only its decoded part is read.\<close>

definition BRBase58CheckDecode :: "bytes \<Rightarrow> buffer \<Rightarrow> buffer \<times> nat" where
  "BRBase58CheckDecode str data =
     (case BRBase58Decode str (Some (replicate (length str) 0)) of
        (b, n) \<Rightarrow>
          let buf = the b;
              len = (if n \<ge> 4 then
                       let l = n - 4; md = BRSHA256_2 (take l buf)
                       in if take 4 (drop l buf) \<noteq> take 4 md then 0 else l
                     else 0)
          in case data of
               None \<Rightarrow> (None, len)
             | Some d \<Rightarrow>
                 if len \<le> length d
                 then (Some (if n \<ge> 4 then poke 0 (take len buf) d else d), len)
                 else (Some d, 0))"

section \<open>Numbers in a base, most significant digit first\<close>

definition dval :: "nat \<Rightarrow> nat list \<Rightarrow> nat" where
  "dval B ds = foldl (\<lambda>v d. v * B + d) 0 ds"

lemma dval_acc: "foldl (\<lambda>v d. v * B + d) v ds = v * B ^ length ds + dval B ds"
proof (induction ds arbitrary: v)
  case (Cons d ds)
  have "dval B (d # ds) = d * B ^ length ds + dval B ds"
    using Cons [of d] by (simp add: dval_def)
  then show ?case by (simp add: Cons add_mult_distrib)
qed (simp add: dval_def)

lemma dval_simps [simp]:
  "dval B [] = 0" "dval B (d # ds) = d * B ^ length ds + dval B ds"
  "dval B (ds @ [e]) = dval B ds * B + e"
  using dval_acc [of B d ds] by (simp_all add: dval_def)

lemma dval_less:
  assumes "\<forall>d\<in>set ds. d < B"
  shows "dval B ds < B ^ length ds"
  using assms
proof (induction ds)
  case (Cons d ds)
  then have "d * B ^ length ds + dval B ds < (d + 1) * B ^ length ds" by simp
  also have "\<dots> \<le> B * B ^ length ds" using Cons.prems by (intro mult_right_mono) auto
  finally show ?case by simp
qed simp

lemma dval_inj:
  assumes "length xs = length ys" "\<forall>d\<in>set xs. d < B" "\<forall>d\<in>set ys. d < B" "dval B xs = dval B ys"
  shows "xs = ys"
  using assms
proof (induction xs ys rule: list_induct2)
  case (Cons x xs y ys)
  have lt: "dval B xs < B ^ length xs" "dval B ys < B ^ length xs"
    using Cons.prems Cons.hyps dval_less by (auto, metis)
  have "(x * B ^ length xs + dval B xs) div B ^ length xs = (y * B ^ length xs + dval B ys) div B ^ length xs"
    using Cons.prems Cons.hyps by simp
  moreover have "(k * B ^ length xs + v) div B ^ length xs = k" if "v < B ^ length xs" for k v
    using that by (metis div_less div_mult_self3 add_0_right not_less_zero)
  ultimately have "x = y" using lt by metis
  then show ?case using Cons by simp
qed simp

lemma dval_replicate_0 [simp]: "dval B (replicate n 0 @ ds) = dval B ds"
  by (induction n) simp_all

lemma dval_dropWhile_0 [simp]: "dval B (dropWhile (\<lambda>d. d = 0) ds) = dval B ds"
  by (induction ds) simp_all

lemma dropWhile_replicate [simp]:
  "dropWhile (\<lambda>d. d = c) (replicate n c @ ds) = dropWhile (\<lambda>d. d = c) ds"
  by (induction n) simp_all

text \<open>Without its leading zeros, a number has one representation.\<close>

lemma dval_strip_unique:
  assumes "\<forall>d\<in>set xs. d < B" "\<forall>d\<in>set ys. d < B" "dval B xs = dval B ys"
  shows "dropWhile (\<lambda>d. d = 0) xs = dropWhile (\<lambda>d. d = 0) ys"
proof -
  define xs' where "xs' = replicate (length ys) 0 @ xs"
  define ys' where "ys' = replicate (length xs) 0 @ ys"
  have "0 < B \<or> (xs = [] \<and> ys = [])"
    using assms(1,2) by (cases xs; cases ys) auto
  then have "xs' = ys'"
    using assms by (intro dval_inj [of _ _ B]) (auto simp: xs'_def ys'_def)
  then show ?thesis by (metis dropWhile_replicate xs'_def ys'_def)
qed

section \<open>The conversion loops\<close>

text \<open>Multiplication by \<open>M\<close> and addition of \<open>c\<close> in base \<open>B\<close>, on numbers.\<close>

primrec mulc :: "nat \<Rightarrow> nat \<Rightarrow> nat list \<Rightarrow> nat \<Rightarrow> nat list \<times> nat" where
  "mulc M B [] c = ([], c)"
| "mulc M B (d # ds) c =
     (let (ds', c') = mulc M B ds c; t = c' + d * M in (t mod B # ds', t div B))"

lemma mulc_val:
  "dval B (fst (mulc M B ds c)) + snd (mulc M B ds c) * B ^ length ds = dval B ds * M + c \<and>
   length (fst (mulc M B ds c)) = length ds"
proof (induction ds)
  case (Cons d ds)
  define t where "t = snd (mulc M B ds c) + d * M"
  have "t mod B * B ^ length ds + t div B * B ^ length (d # ds) = (t mod B + t div B * B) * B ^ length ds"
    by (simp only: add_mult_distrib length_Cons power_Suc mult.assoc)
  also have "\<dots> = t * B ^ length ds" by (simp only: mod_div_mult_eq)
  finally show ?case
    using Cons by (simp add: t_def [symmetric] split_beta Let_def) (simp add: t_def algebra_simps)
qed simp

lemma mulc_digits:
  assumes "0 < B"
  shows "\<forall>d\<in>set (fst (mulc M B ds c)). d < B"
  using assms by (induction ds) (auto simp: split_beta Let_def)

lemma mulc_carry:
  assumes "\<forall>d\<in>set ds. d < B" "c < M"
  shows "snd (mulc M B ds c) < M"
  using assms
proof (induction ds)
  case (Cons d ds)
  have "snd (mulc M B ds c) + d * M < M + d * M" using Cons by simp
  also have "\<dots> = (d + 1) * M" by simp
  also have "\<dots> \<le> B * M" using Cons.prems by (intro mult_right_mono) auto
  finally have "(snd (mulc M B ds c) + d * M) div B < M"
    by (simp add: less_mult_imp_div_less mult.commute)
  then show ?case by (simp add: split_beta Let_def)
qed simp

text \<open>
  A step of a conversion from base \<open>M\<close> to base \<open>B\<close>. The client is the outer loop: as long as
  the buffer can hold the number, it converts it.
\<close>

locale radix_step =
  fixes step :: "bytes \<Rightarrow> u32 \<Rightarrow> bytes \<times> u32" and M B :: nat
  assumes B_pos: "0 < B"
    and step_mulc: "\<forall>d\<in>set (map unat buf). d < B \<Longrightarrow> unat c < M \<Longrightarrow>
      map unat (fst (step buf c)) = fst (mulc M B (map unat buf) (unat c))"
begin

lemma step_val:
  assumes "\<forall>d\<in>set (map unat buf). d < B" "unat c < M"
    "dval B (map unat buf) * M + unat c < B ^ length buf"
  shows "dval B (map unat (fst (step buf c))) = dval B (map unat buf) * M + unat c"
    and "length (fst (step buf c)) = length buf"
    and "\<forall>d\<in>set (map unat (fst (step buf c))). d < B"
proof -
  let ?r = "mulc M B (map unat buf) (unat c)"
  have r: "dval B (fst ?r) + snd ?r * B ^ length buf = dval B (map unat buf) * M + unat c"
    "length (fst ?r) = length buf"
    using mulc_val [of B M "map unat buf" "unat c"] by simp_all
  then have "snd ?r * B ^ length buf < 1 * B ^ length buf" using assms(3) by linarith
  then have "snd ?r = 0" by (simp only: mult_less_cancel2) simp
  then show "dval B (map unat (fst (step buf c))) = dval B (map unat buf) * M + unat c"
    using r step_mulc [OF assms(1,2)] by simp
  show "length (fst (step buf c)) = length buf"
    using r(2) step_mulc [OF assms(1,2)] by (metis length_map)
  show "\<forall>d\<in>set (map unat (fst (step buf c))). d < B"
    using mulc_digits [OF B_pos, of M "map unat buf" "unat c"] step_mulc [OF assms(1,2)] by simp
qed

lemma convert:
  assumes "\<forall>c\<in>set cs. unat c < M" "M ^ length cs \<le> B ^ n"
  shows "dval B (map unat (foldl (\<lambda>buf c. fst (step buf c)) (replicate n 0) cs)) = dval M (map unat cs)"
    (is "dval B (map unat (?f cs)) = _")
    and "length (foldl (\<lambda>buf c. fst (step buf c)) (replicate n 0) cs) = n"
    and "\<forall>d\<in>set (map unat (foldl (\<lambda>buf c. fst (step buf c)) (replicate n 0) cs)). d < B"
proof -
  have "dval B (map unat (?f cs)) = dval M (map unat cs) \<and> length (?f cs) = n \<and>
      (\<forall>d\<in>set (map unat (?f cs)). d < B)"
    using assms
  proof (induction cs rule: rev_induct)
    case Nil
    have "map unat (replicate n (0 :: u8)) = replicate n 0 @ []" by simp
    then show ?case using B_pos dval_replicate_0 [of B n "[]"] by auto
  next
    case (snoc c cs)
    have "M ^ length cs \<le> M ^ length (cs @ [c])"
      using snoc.prems(1) by (intro power_increasing) auto
    then have "M ^ length cs \<le> B ^ n" using snoc.prems(2) by (rule order_trans)
    then have IH: "dval B (map unat (?f cs)) = dval M (map unat cs)" "length (?f cs) = n"
        "\<forall>d\<in>set (map unat (?f cs)). d < B"
      using snoc.IH snoc.prems by simp_all
    have "dval M (map unat (cs @ [c])) < M ^ length (cs @ [c])"
      using snoc.prems(1) dval_less [of "map unat (cs @ [c])" M] by simp
    then have "dval B (map unat (?f cs)) * M + unat c < B ^ length (?f cs)"
      using IH(1,2) snoc.prems(2) by simp
    then show ?case
      using step_val [of "?f cs" c] IH snoc.prems(1) by simp
  qed
  then show "dval B (map unat (?f cs)) = dval M (map unat cs)" "length (?f cs) = n"
    "\<forall>d\<in>set (map unat (?f cs)). d < B"
    by auto
qed

end

lemma encode_carry_mulc:
  assumes "\<forall>d\<in>set (map unat buf). d < 58" "unat c < 256"
  shows "map unat (fst (encode_carry buf c)) = fst (mulc 256 58 (map unat buf) (unat c)) \<and>
    unat (snd (encode_carry buf c)) = snd (mulc 256 58 (map unat buf) (unat c))"
  using assms(1)
proof (induction buf)
  case (Cons b bs)
  define c' where "c' = snd (encode_carry bs c)"
  have IH: "map unat (fst (encode_carry bs c)) = fst (mulc 256 58 (map unat bs) (unat c))"
      "unat c' = snd (mulc 256 58 (map unat bs) (unat c))"
    using Cons by (simp_all add: c'_def)
  have "unat c' < 256"
    using mulc_carry [of "map unat bs" 58 "unat c" 256] Cons.prems assms(2) IH(2) by simp
  moreover have "unat b < 58" using Cons.prems by simp
  then have b: "unat (push_bit 8 (ucast b :: u32)) = unat b * 256"
    by (simp add: push_bit_eq_mult unat_word_ariths unat_ucast_mod)
  ultimately have "unat (c' + push_bit 8 (ucast b)) = unat c' + unat b * 256"
    using \<open>unat b < 58\<close> by (subst unat_word_ariths) simp
  moreover have "unat (ucast (x mod 58) :: u8) = unat x mod 58" for x :: u32
    by (simp add: unat_ucast_mod unat_mod)
  ultimately show ?case
    using IH by (simp add: split_beta Let_def c'_def unat_div)
qed simp

lemma decode_carry_mulc:
  assumes "unat c < 58"
  shows "map unat (fst (decode_carry buf c)) = fst (mulc 58 256 (map unat buf) (unat c)) \<and>
    unat (snd (decode_carry buf c)) = snd (mulc 58 256 (map unat buf) (unat c))"
proof (induction buf)
  case (Cons b bs)
  define c' where "c' = snd (decode_carry bs c)"
  have IH: "map unat (fst (decode_carry bs c)) = fst (mulc 58 256 (map unat bs) (unat c))"
      "unat c' = snd (mulc 58 256 (map unat bs) (unat c))"
    using Cons by (simp_all add: c'_def)
  have "unat c' < 58"
    using mulc_carry [of "map unat bs" 256 "unat c" 58] unat_byte assms IH(2) by simp
  moreover have "unat (ucast b * 58 :: u32) = unat b * 58"
    using unat_byte [of b] by (simp add: unat_word_ariths unat_ucast_mod)
  ultimately have "unat (c' + ucast b * 58) = unat c' + unat b * 58"
    using unat_byte [of b] by (subst unat_word_ariths) simp
  moreover have "unat (ucast x :: u8) = unat x mod 256" for x :: u32
    by (simp add: unat_ucast_mod)
  moreover have "unat (drop_bit 8 x) = unat x div 256" for x :: u32
    by (simp add: drop_bit_eq_div unat_div)
  ultimately show ?case
    using IH by (simp add: split_beta Let_def c'_def)
qed simp

interpretation enc58: radix_step encode_carry 256 58
  by unfold_locales (simp_all add: encode_carry_mulc)

interpretation dec58: radix_step decode_carry 58 256
  by unfold_locales (simp_all add: decode_carry_mulc)

section \<open>The buffers are large enough\<close>

lemma power_root_le:
  fixes a b :: nat
  assumes "a ^ k \<le> b ^ l" "0 < k" "0 < b"
  shows "a ^ n \<le> b ^ (n * l div k + 1)"
proof -
  have "(a ^ n) ^ k = (a ^ k) ^ n" by (simp add: power_mult [symmetric] mult.commute)
  also have "\<dots> \<le> (b ^ l) ^ n" using assms(1) by (rule power_mono) simp
  also have "\<dots> = b ^ (n * l)" by (simp add: power_mult [symmetric] mult.commute)
  also have "\<dots> \<le> b ^ ((n * l div k + 1) * k)"
  proof (rule power_increasing)
    have "n * l = n * l div k * k + n * l mod k" by simp
    moreover have "n * l mod k < k" using assms(2) by simp
    ultimately have "n * l \<le> n * l div k * k + k" by linarith
    then show "n * l \<le> (n * l div k + 1) * k" by simp
  qed (use assms(3) in simp)
  also have "\<dots> = (b ^ (n * l div k + 1)) ^ k" by (rule power_mult)
  finally show ?thesis using assms(2) by (simp only: power_mono_iff le0)
qed

lemma base58_size: "(256 :: nat) ^ n \<le> 58 ^ (n * 138 div 100 + 1)"
proof -
  have "(256 :: nat) ^ n \<le> 58 ^ (n * 11 div 8 + 1)" by (rule power_root_le) simp_all
  also have "\<dots> \<le> 58 ^ (n * 138 div 100 + 1)" by (intro power_increasing) (linarith, simp)
  finally show ?thesis .
qed

lemma base256_size: "(58 :: nat) ^ n \<le> 256 ^ (n * 733 div 1000 + 1)"
proof -
  have "(58 :: nat) ^ n \<le> 256 ^ (n * 52 div 71 + 1)" by (rule power_root_le) simp_all
  also have "\<dots> \<le> 256 ^ (n * 733 div 1000 + 1)" by (intro power_increasing) (linarith, simp)
  finally show ?thesis .
qed

section \<open>Encoding and decoding as functions on digits\<close>

definition base58_text :: "bytes \<Rightarrow> bytes" where
  "base58_text data = map (\<lambda>d. base58chars ! 0) (takeWhile (\<lambda>d. d = 0) data) @
     map (\<lambda>d. base58chars ! unat d)
       (dropWhile (\<lambda>d. d = 0) (encode_digits (dropWhile (\<lambda>d. d = 0) data)))"

definition base58_bytes :: "bytes \<Rightarrow> bytes" where
  "base58_bytes str = map (\<lambda>c. 0) (takeWhile (\<lambda>c. c = base58chars ! 0) str) @
     dropWhile (\<lambda>d. d = 0) (decode_digits (dropWhile (\<lambda>c. c = base58chars ! 0) str))"

lemma len_strip: "n + length xs - length (takeWhile P xs) = n + length (dropWhile P xs)"
  by (simp add: dropWhile_eq_drop length_takeWhile_le)

lemma serializes_encode: "serializes (BRBase58Encode data) (base58_text data @ [0])"
  by (simp add: serializes_def BRBase58Encode_def base58_text_def Let_def len_strip map_replicate_const
      dropWhile_eq_drop [symmetric])

lemma encode_too_small:
  "length s \<le> length (base58_text data) \<Longrightarrow> BRBase58Encode data (Some s) = (Some s, 0)"
  by (simp add: BRBase58Encode_def base58_text_def Let_def len_strip dropWhile_eq_drop [symmetric])

lemma serializes_decode: "serializes (BRBase58Decode str) (base58_bytes str)"
proof -
  have "poke (length z) y (poke 0 (replicate (length z) 0) d) =
      (map (\<lambda>c. 0) z @ y) @ drop (length z + length y) d" if "length z + length y \<le> length d"
    for z y and d :: bytes
    using that by (simp add: poke_def map_replicate_const add.commute)
  note * = this [simplified]
  show ?thesis
    by (simp add: * serializes_def BRBase58Decode_def base58_bytes_def Let_def len_strip
        dropWhile_eq_drop [symmetric])
qed

lemma decode_too_small:
  "length d < length (base58_bytes str) \<Longrightarrow> BRBase58Decode str (Some d) = (Some d, 0)"
  by (simp add: BRBase58Decode_def base58_bytes_def Let_def len_strip dropWhile_eq_drop [symmetric])

lemma decode_eq:
  "BRBase58Decode str data =
     (case data of None \<Rightarrow> (None, length (base58_bytes str))
      | Some d \<Rightarrow> if length (base58_bytes str) \<le> length d
                then (Some (base58_bytes str @ drop (length (base58_bytes str)) d), length (base58_bytes str))
                else (Some d, 0))"
  using serializes_decode [of str] by (auto simp: serializes_def decode_too_small split: option.splits)

interpretation base58_writer: writer BRBase58Encode "\<lambda>data. base58_text data @ [0]" "\<lambda>_. True"
  by unfold_locales (rule serializes_encode)

interpretation base58_reader: writer BRBase58Decode base58_bytes "\<lambda>_. True"
  by unfold_locales (rule serializes_decode)

text \<open>The characters and their digits.\<close>

lemma base58chars_codes: "base58chars =
  [0x31, 0x32, 0x33, 0x34, 0x35, 0x36, 0x37, 0x38, 0x39,
   0x41, 0x42, 0x43, 0x44, 0x45, 0x46, 0x47, 0x48, 0x4a, 0x4b, 0x4c, 0x4d, 0x4e,
   0x50, 0x51, 0x52, 0x53, 0x54, 0x55, 0x56, 0x57, 0x58, 0x59, 0x5a,
   0x61, 0x62, 0x63, 0x64, 0x65, 0x66, 0x67, 0x68, 0x69, 0x6a, 0x6b,
   0x6d, 0x6e, 0x6f, 0x70, 0x71, 0x72, 0x73, 0x74, 0x75, 0x76, 0x77, 0x78, 0x79, 0x7a]"
  by (simp add: base58chars_def)

lemma base58_alphabet:
  "map base58_digit base58chars = map of_nat [0..<58]"
  "list_all (\<lambda>c. c \<noteq> 0) base58chars" "list_all (\<lambda>c. c \<noteq> base58chars ! 0) (tl base58chars)"
  "length base58chars = 58"
  unfolding base58chars_codes by (simp_all add: base58_digit_def upt_rec)

lemma base58_char:
  assumes "unat (d :: u8) < 58"
  shows "unat (base58_digit (base58chars ! unat d)) = unat d"
    and "base58chars ! unat d \<noteq> 0"
    and "base58chars ! unat d = base58chars ! 0 \<longleftrightarrow> d = 0"
proof -
  have "base58_digit (base58chars ! unat d) = map of_nat [0..<58] ! unat d"
    using assms base58_alphabet(4) by (simp only: base58_alphabet(1) [symmetric] nth_map)
  also have "\<dots> = of_nat (unat d)" using assms by (simp del: upt_rec_numeral upt_Suc of_nat_unat)
  finally show "unat (base58_digit (base58chars ! unat d)) = unat d"
    by (simp add: unat_ucast_up)
  show "base58chars ! unat d \<noteq> 0"
    using assms base58_alphabet(2,4) by (simp add: list_all_length)
  show "base58chars ! unat d = base58chars ! 0 \<longleftrightarrow> d = 0"
  proof (cases "unat d")
    case (Suc n)
    then show ?thesis
      using assms base58_alphabet(3,4) by (auto simp: list_all_length nth_tl)
  qed (simp add: unat_eq_0)
qed

lemma encode_digits_val:
  "dval 58 (map unat (encode_digits data)) = dval 256 (map unat data)"
  "\<forall>d\<in>set (encode_digits data). unat d < 58"
proof -
  let ?cs = "map ucast data :: u32 list"
  have "encode_digits data =
      foldl (\<lambda>buf c. fst (encode_carry buf c)) (replicate (length data * 138 div 100 + 1) 0) ?cs"
    by (simp add: encode_digits_def foldl_map)
  moreover have "unat \<circ> (ucast :: u8 \<Rightarrow> u32) = unat" by (simp add: fun_eq_iff unat_ucast_up)
  moreover have "\<forall>c\<in>set ?cs. unat c < 256"
    using unat_byte by (auto simp: unat_ucast_up)
  ultimately show "dval 58 (map unat (encode_digits data)) = dval 256 (map unat data)"
    "\<forall>d\<in>set (encode_digits data). unat d < 58"
    using enc58.convert [of ?cs "length data * 138 div 100 + 1"] base58_size [of "length data"]
    by simp_all
qed

lemma decode_loop_valid:
  "\<forall>c\<in>set cs. base58_digit c < 58 \<Longrightarrow>
   decode_loop cs buf = foldl (\<lambda>buf c. fst (decode_carry buf c)) buf (map base58_digit cs)"
  by (induction cs arbitrary: buf) (auto simp: Let_def)

lemma decode_digits_val:
  assumes "\<forall>c\<in>set str. base58_digit c < 58"
  shows "dval 256 (map unat (decode_digits str)) = dval 58 (map (\<lambda>c. unat (base58_digit c)) str)"
  using dec58.convert(1) [of "map base58_digit str" "length str * 733 div 1000 + 1"]
    base256_size [of "length str"] assms
  by (simp add: decode_digits_def decode_loop_valid word_less_nat_alt comp_def)

text \<open>Digit strings over bytes, without leading zeros, are determined by their value.\<close>

lemma strip_unique:
  assumes "dval 256 (map unat xs) = dval 256 (map unat (ys :: bytes))"
  shows "dropWhile (\<lambda>d. d = 0) xs = dropWhile (\<lambda>d. d = 0) ys"
proof -
  have "dropWhile (\<lambda>d. d = 0) (map unat xs) = dropWhile (\<lambda>d. d = 0) (map unat ys)"
    using assms unat_byte by (intro dval_strip_unique [of _ 256]) auto
  moreover have "(\<lambda>d. d = 0) \<circ> unat = (\<lambda>d :: u8. d = 0)" by (simp add: fun_eq_iff unat_eq_0)
  ultimately have "map unat (dropWhile (\<lambda>d. d = 0) xs) = map unat (dropWhile (\<lambda>d. d = 0) ys)"
    by (simp add: dropWhile_map)
  then show ?thesis by (simp add: inj_on_def word_unat_eq_iff map_injective)
qed

lemma base58_bytes_text: "base58_bytes (base58_text data) = data"
proof -
  define z where "z = takeWhile (\<lambda>d. d = 0) data"
  define y where "y = dropWhile (\<lambda>d. d = 0) data"
  define e where "e = dropWhile (\<lambda>d. d = 0) (encode_digits y)"
  define s where "s = map (\<lambda>d. base58chars ! unat d) e"
  have e: "\<forall>d\<in>set e. unat d < 58"
    using encode_digits_val(2) [of y] by (auto simp: e_def dest: set_dropWhileD)
  have "takeWhile (\<lambda>c. c = base58chars ! 0) s = []" and drop: "dropWhile (\<lambda>c. c = base58chars ! 0) s = s"
    using e base58_char(3) hd_dropWhile [of "\<lambda>d. d = 0" "encode_digits y"]
    by (cases e; force simp: s_def e_def [symmetric])+
  have str: "base58_text data = map (\<lambda>d. base58chars ! 0) z @ s"
    by (simp add: base58_text_def z_def y_def e_def s_def)
  have "takeWhile (\<lambda>c. c = base58chars ! 0) (base58_text data) = map (\<lambda>d. base58chars ! 0) z"
    "dropWhile (\<lambda>c. c = base58chars ! 0) (base58_text data) = s"
    unfolding str using \<open>takeWhile _ s = []\<close> drop
    by (simp_all add: takeWhile_append dropWhile_append)
  moreover have "dropWhile (\<lambda>d. d = 0) (decode_digits s) = dropWhile (\<lambda>d. d = 0) y"
  proof (rule strip_unique)
    have "dval 256 (map unat (decode_digits s)) = dval 58 (map unat e)"
      using e base58_char(1) by (subst decode_digits_val) (auto simp: s_def word_less_nat_alt
          intro!: arg_cong [where f = "dval 58"])
    also have "map unat e = dropWhile (\<lambda>d. d = 0) (map unat (encode_digits y))"
      by (simp add: e_def dropWhile_map comp_def unat_eq_0)
    finally show "dval 256 (map unat (decode_digits s)) = dval 256 (map unat y)"
      using encode_digits_val(1) [of y] by simp
  qed
  moreover have "dropWhile (\<lambda>d. d = 0) y = y" by (simp add: y_def dropWhile_idem)
  ultimately have "base58_bytes (base58_text data) = map (\<lambda>c. 0) z @ y"
    by (simp add: base58_bytes_def comp_def)
  also have "map (\<lambda>c. 0) z = z" by (rule map_idI) (auto simp: z_def dest: set_takeWhileD)
  finally show ?thesis by (simp add: z_def y_def)
qed

lemma base58_text_no_nul: "0 \<notin> set (base58_text data)"
  using encode_digits_val(2) base58_char(2) [of 0] base58_char(2)
  by (force simp: base58_text_def dest: set_dropWhileD)

section \<open>Lengths, and the first invalid character\<close>

lemma decode_carry_length [simp]: "length (fst (decode_carry buf c)) = length buf"
  by (induction buf) (auto simp: split_beta Let_def)

lemma decode_loop_length [simp]: "length (decode_loop cs buf) = length buf"
  by (induction cs buf rule: decode_loop.induct) (auto simp: Let_def)

lemma decode_digits_Nil [simp]: "decode_digits [] = [0]"
  by (simp add: decode_digits_def)

lemma length_base58_bytes: "length (base58_bytes str) \<le> length str"
proof -
  define y where "y = dropWhile (\<lambda>c. c = base58chars ! 0) str"
  have "length (dropWhile (\<lambda>d. d = 0) (decode_digits y)) \<le> length y"
  proof (cases "y = []")
    case False
    have "length (dropWhile (\<lambda>d. d = 0) (decode_digits y)) \<le> length (decode_digits y)"
      by (rule length_dropWhile_le)
    also have "\<dots> = length y * 733 div 1000 + 1" by (simp add: decode_digits_def)
    also have "\<dots> \<le> length y" using False by (cases y) auto
    finally show ?thesis .
  qed simp
  moreover have "length (takeWhile (\<lambda>c. c = base58chars ! 0) str) + length y = length str"
    by (metis length_append takeWhile_dropWhile_id y_def)
  ultimately show ?thesis by (simp add: base58_bytes_def y_def)
qed

lemma decode_loop_invalid:
  "base58_digit c \<ge> 58 \<Longrightarrow> \<forall>x\<in>set cs. base58_digit x < 58 \<Longrightarrow>
   decode_loop (cs @ c # t) buf = decode_loop cs buf"
  by (induction cs arbitrary: buf) (auto simp: Let_def not_less)

lemma decode_digits_invalid:
  assumes "base58_digit c \<ge> 58" "\<forall>x\<in>set cs. base58_digit x < 58"
  shows "dropWhile (\<lambda>d. d = 0) (decode_digits (cs @ c # t)) = dropWhile (\<lambda>d. d = 0) (decode_digits cs)"
proof (rule strip_unique)
  let ?n = "length (cs @ c # t) * 733 div 1000 + 1" and ?m = "length cs * 733 div 1000 + 1"
  have "(58 :: nat) ^ length cs \<le> 256 ^ ?m" by (rule base256_size)
  also have "\<dots> \<le> 256 ^ ?n" by (intro power_increasing) (auto intro!: div_le_mono)
  finally have "dval 256 (map unat (decode_loop cs (replicate ?n 0))) =
      dval 58 (map (\<lambda>c. unat (base58_digit c)) cs)"
    using dec58.convert(1) [of "map base58_digit cs" ?n] assms(2)
    by (simp add: decode_loop_valid word_less_nat_alt comp_def del: power_Suc)
  then show "dval 256 (map unat (decode_digits (cs @ c # t))) = dval 256 (map unat (decode_digits cs))"
    using decode_digits_val [OF assms(2)] decode_loop_invalid [OF assms]
    by (simp add: decode_digits_def)
qed

lemma base58_bytes_invalid:
  assumes "base58_digit c \<ge> 58" "\<forall>x\<in>set s. base58_digit x < 58"
  shows "base58_bytes (s @ c # t) = base58_bytes s"
proof -
  have "base58_digit (base58chars ! 0) = 0" by (simp add: base58chars_codes base58_digit_def)
  then have c: "c \<noteq> base58chars ! 0" using assms(1) by auto
  have "\<forall>x\<in>set (dropWhile (\<lambda>c. c = base58chars ! 0) s). base58_digit x < 58"
    using assms(2) by (auto dest: set_dropWhileD)
  moreover have "takeWhile (\<lambda>c. c = base58chars ! 0) (s @ c # t) = takeWhile (\<lambda>c. c = base58chars ! 0) s"
    using c by (simp add: takeWhile_append) (rule impI, rule sym, simp)
  moreover have "dropWhile (\<lambda>c. c = base58chars ! 0) (s @ c # t) =
      dropWhile (\<lambda>c. c = base58chars ! 0) s @ c # t"
    using c by (simp add: dropWhile_append)
  ultimately show ?thesis
    using decode_digits_invalid [OF assms(1)] by (simp add: base58_bytes_def)
qed

section \<open>base58check: the payload of a string\<close>

definition check_bytes :: "bytes \<Rightarrow> bytes" where
  "check_bytes str =
     (let b = base58_bytes str; l = length b - 4
      in if 4 \<le> length b \<and> drop l b = take 4 (BRSHA256_2 (take l b)) then take l b else [])"

definition check_text :: "bytes \<Rightarrow> bytes" where
  "check_text data = base58_text (data @ take 4 (BRSHA256_2 data))"

lemma serializes_check_encode: "serializes (BRBase58CheckEncode data) (check_text data @ [0])"
  using serializes_encode [of "data @ take 4 (BRSHA256_2 data)"]
  by (simp add: BRBase58CheckEncode_def check_text_def serializes_def)

lemma check_decode_buf:
  "BRBase58Decode str (Some (replicate (length str) 0)) =
     (Some (base58_bytes str @ replicate (length str - length (base58_bytes str)) 0),
      length (base58_bytes str))"
  using serializes_decode [of str] length_base58_bytes [of str] by (simp add: serializes_def)

lemma check_decode_eq:
  "BRBase58CheckDecode str data =
     (case data of None \<Rightarrow> (None, length (check_bytes str))
      | Some d \<Rightarrow> if length (check_bytes str) \<le> length d
                then (Some (check_bytes str @ drop (length (check_bytes str)) d), length (check_bytes str))
                else (Some d, 0))"
  by (cases data) (auto simp: BRBase58CheckDecode_def check_decode_buf check_bytes_def Let_def)

lemma serializes_check_decode: "serializes (BRBase58CheckDecode str) (check_bytes str)"
  by (simp add: serializes_def check_decode_eq)

interpretation check_writer: writer BRBase58CheckEncode "\<lambda>data. check_text data @ [0]" "\<lambda>_. True"
  by unfold_locales (rule serializes_check_encode)

interpretation check_reader: writer BRBase58CheckDecode check_bytes "\<lambda>_. True"
  by unfold_locales (rule serializes_check_decode)

lemma check_bytes_text: "check_bytes (check_text data) = data"
  by (simp add: check_bytes_def check_text_def base58_bytes_text Let_def)

lemma check_text_no_nul: "0 \<notin> set (check_text data)"
  by (simp add: check_text_def base58_text_no_nul)

lemma check_text_longer: "length data + 4 \<le> length (check_text data)"
  using length_base58_bytes [of "check_text data"] by (simp add: check_text_def base58_bytes_text)

lemma check_encode_text:
  assumes "BRBase58CheckEncode data (Some s) = (Some s', n)" "n \<noteq> 0"
  shows "cstr s' = check_text data" "n = length (check_text data) + 1"
proof -
  have "length (check_text data @ [0]) \<le> length s"
    using assms encode_too_small [of s "data @ take 4 (BRSHA256_2 data)"]
    by (force simp: not_le BRBase58CheckEncode_def check_text_def)
  then show "cstr s' = check_text data" "n = length (check_text data) + 1"
    using assms(1) check_writer.keeps_rest [of data s] check_text_no_nul [of data] by auto
qed

lemma check_bytes_invalid:
  assumes "base58_digit c \<ge> 58" "\<forall>x\<in>set s. base58_digit x < 58"
  shows "check_bytes (s @ c # t) = check_bytes s"
  by (simp add: check_bytes_def base58_bytes_invalid [OF assms])

section \<open>Properties\<close>

text \<open>
  C21: decoding the string that \<open>BRBase58Encode\<close> wrote gives the encoded bytes back, leading zero
  bytes included, for data of every length: the two buffer sizes computed by the code are large
  enough.
\<close>

theorem base58_round_trip:
  assumes "BRBase58Encode data (Some s) = (Some s', n)" "n \<noteq> 0" "length data \<le> length d"
  shows "BRBase58Decode (cstr s') (Some d) = (Some (data @ drop (length data) d), length data)"
proof -
  have "length (base58_text data @ [0]) \<le> length s"
    using assms(1,2) encode_too_small [of s data] by (force simp: not_le)
  then have "cstr s' = base58_text data"
    using assms(1) base58_writer.keeps_rest [of data s] base58_text_no_nul [of data] by auto
  then show ?thesis
    using base58_reader.keeps_rest [of "base58_text data" d] assms(3)
    by (simp add: base58_bytes_text)
qed

theorem base58_round_trip_witness:
  "BRBase58Decode (cstr (map of_char ''115R'' @ [0, 7])) (Some [5, 5, 5, 5, 6]) = (Some [0, 0, 1, 0, 6], 4)"
proof -
  have "BRBase58Encode [0, 0, 1, 0] (Some (replicate 6 7)) = (Some (map of_char ''115R'' @ [0, 7]), 5)"
    by code_simp
  from base58_round_trip [OF this, of "[5, 5, 5, 5, 6]"] show ?thesis by simp
qed

text \<open>
  The first character outside the alphabet ends the decoding without an error: a string of
  valid characters followed by such a character and anything else decodes as the valid prefix
  alone, with base58check as well.
\<close>

theorem base58_decode_ignores_tail:
  assumes "\<forall>x\<in>set s. base58_digit x < 58" "base58_digit c \<ge> 58"
  shows "BRBase58Decode (s @ c # t) data = BRBase58Decode s data \<and>
    BRBase58CheckDecode (s @ c # t) data = BRBase58CheckDecode s data"
  unfolding check_decode_eq decode_eq check_bytes_invalid [OF assms(2,1)]
    base58_bytes_invalid [OF assms(2,1)] by simp

theorem base58_decode_ignores_tail_witness:
  "BRBase58Decode (map of_char ''1z'' @ of_char CHR ''!'' # map of_char ''xyz'') (Some [9, 9, 9]) =
   BRBase58Decode (map of_char ''1z'') (Some [9, 9, 9])"
  using base58_decode_ignores_tail [of "map of_char ''1z''" "of_char CHR ''!''"]
  by (simp add: base58_digit_def)

text \<open>
  Base58check accepts exactly the strings whose decoded bytes end with the first four bytes
  of the double SHA-256 of the bytes before; it then gives those bytes. Every other string gives
  the length 0 and leaves the caller's buffer unchanged.
\<close>

theorem base58check_accepts_iff:
  "snd (BRBase58CheckDecode str None) = n \<and> n \<noteq> 0 \<longleftrightarrow>
    (\<exists>p. p \<noteq> [] \<and> n = length p \<and>
       fst (BRBase58Decode str (Some (replicate (n + 4) 0))) = Some (p @ take 4 (BRSHA256_2 p)) \<and>
       snd (BRBase58Decode str None) = n + 4)" (is "?l \<longleftrightarrow> ?r")
proof
  assume ?l
  then have "n = length (check_bytes str)" "check_bytes str \<noteq> []"
    by (auto simp: check_decode_eq)
  moreover from this(2) have "base58_bytes str = check_bytes str @ take 4 (BRSHA256_2 (check_bytes str))"
    by (auto simp: check_bytes_def Let_def split: if_splits) (metis append_take_drop_id)
  ultimately show ?r
    using base58_reader.keeps_rest [of str "replicate (n + 4) 0"] base58_reader.size_query [of str]
    by auto
next
  assume ?r
  then obtain p where p: "p \<noteq> []" "n = length p" "length (base58_bytes str) = n + 4"
      "fst (BRBase58Decode str (Some (replicate (n + 4) 0))) = Some (p @ take 4 (BRSHA256_2 p))"
    using base58_reader.size_query [of str] by auto
  then have "base58_bytes str = p @ take 4 (BRSHA256_2 p)"
    using base58_reader.keeps_rest [of str "replicate (n + 4) 0"] by simp
  then show ?l using p(1,2) by (simp add: check_decode_eq check_bytes_def Let_def)
qed

text \<open>
  A payload written by \<open>BRBase58CheckEncode\<close> is accepted by \<open>BRBase58CheckDecode\<close>, which
  gives it back.
\<close>

theorem base58check_round_trip:
  assumes "BRBase58CheckEncode data (Some s) = (Some s', n)" "n \<noteq> 0" "length data \<le> length d"
  shows "BRBase58CheckDecode (cstr s') (Some d) = (Some (data @ drop (length data) d), length data)"
  using check_encode_text(1) [OF assms(1,2)] assms(3) by (simp add: check_decode_eq check_bytes_text)

theorem base58check_round_trip_witness:
  "BRBase58CheckDecode (check_text [3, 1]) (Some [0, 0]) = (Some [3, 1], 2)"
proof -
  have "BRBase58CheckEncode [3, 1] (Some (replicate (length (check_text [3, 1]) + 1) 0)) =
      (Some (check_text [3, 1] @ [0]), length (check_text [3, 1]) + 1)"
    using check_writer.keeps_rest [of "[3, 1]" "replicate (length (check_text [3, 1]) + 1) 0"] by simp
  from base58check_round_trip [OF this, of "[0, 0]"] show ?thesis
    using check_text_no_nul [of "[3, 1]"] by simp
qed

end
