(* ===== verification/BRAddress.thy ===== *)
theory BRAddress
  imports BRBase58
begin

text \<open>
  \<open>src/Modules/core/BRAddress.c\<close>: variable length integers, script elements and the addresses
  of scripts.

  A pointer into a script is an offset. A null \<open>buf\<close> of \<open>BRVarInt\<close> and a null \<open>script\<close> are read
  as empty, which is what the code's tests of the pointer make of them. The compile time switch
  \<open>BITCOIN_TESTNET\<close> is the argument \<open>testnet\<close>. \<open>size_t\<close> is the 64-bit one of the application's
  targets: script offsets stay below \<open>2^33\<close> plus the script length, so they are natural numbers.
\<close>

section \<open>Variable length integers\<close>

definition BRVarInt :: "bytes \<Rightarrow> u64 \<times> nat" where
  "BRVarInt buf =
     (let h = (if 1 \<le> length buf then buf ! 0 else 0) in
      if h = 0xfd then (if 1 + 2 \<le> length buf then ucast (UInt16GetLE (drop 1 buf)) else 0, 1 + 2)
      else if h = 0xfe then (if 1 + 4 \<le> length buf then ucast (UInt32GetLE (drop 1 buf)) else 0, 1 + 4)
      else if h = 0xff then (if 1 + 8 \<le> length buf then UInt64GetLE (drop 1 buf) else 0, 1 + 8)
      else (ucast h, 1))"

definition BRVarIntSet :: "u64 \<Rightarrow> buffer \<Rightarrow> buffer \<times> nat" where
  "BRVarIntSet i buf =
     (let put = (\<lambda>n bs. case buf of
            None \<Rightarrow> (None, n)
          | Some b \<Rightarrow> if n \<le> length b then (Some (poke 0 bs b), n) else (Some b, 0))
      in if i < 0xfd then put 1 [ucast i]
         else if i \<le> 0xffff then put (1 + 2) (0xfd # UInt16SetLE (ucast i))
         else if i \<le> 0xffffffff then put (1 + 4) (0xfe # UInt32SetLE (ucast i))
         else put (1 + 8) (0xff # UInt64SetLE i))"

definition BRVarIntSize :: "u64 \<Rightarrow> nat" where
  "BRVarIntSize i = snd (BRVarIntSet i None)"

section \<open>Script elements\<close>

definition OP_PUSHDATA1 :: u8 where "OP_PUSHDATA1 = 0x4c"
definition OP_PUSHDATA2 :: u8 where "OP_PUSHDATA2 = 0x4d"
definition OP_PUSHDATA4 :: u8 where "OP_PUSHDATA4 = 0x4e"
definition OP_DUP :: u8 where "OP_DUP = 0x76"
definition OP_EQUAL :: u8 where "OP_EQUAL = 0x87"
definition OP_EQUALVERIFY :: u8 where "OP_EQUALVERIFY = 0x88"
definition OP_HASH160 :: u8 where "OP_HASH160 = 0xa9"
definition OP_CHECKSIG :: u8 where "OP_CHECKSIG = 0xac"

lemmas op_defs = OP_PUSHDATA1_def OP_PUSHDATA2_def OP_PUSHDATA4_def OP_DUP_def OP_EQUAL_def
  OP_EQUALVERIFY_def OP_HASH160_def OP_CHECKSIG_def

text \<open>
  One pass of the loop: the new \<open>len\<close>, which keeps its old value when the length bytes of a push
  are cut off, and the offset after the header.
\<close>

definition element_header :: "bytes \<Rightarrow> nat \<Rightarrow> nat \<Rightarrow> nat \<times> nat" where
  "element_header script off len =
     (let op = script ! off; off1 = off + 1 in
      if op = OP_PUSHDATA1 then
        (if off1 + 1 \<le> length script then unat (script ! off1) else len, off1 + 1)
      else if op = OP_PUSHDATA2 then
        (if off1 + 2 \<le> length script then unat (UInt16GetLE (drop off1 script)) else len, off1 + 2)
      else if op = OP_PUSHDATA4 then
        (if off1 + 4 \<le> length script then unat (UInt32GetLE (drop off1 script)) else len, off1 + 4)
      else (if op > OP_PUSHDATA4 then 0 else unat op, off1))"

lemma element_header_less: "off < snd (element_header script off len)"
  by (simp add: element_header_def Let_def)

text \<open>The element offsets, and the offset at which the loop stops.\<close>

function elements_loop :: "bytes \<Rightarrow> nat \<Rightarrow> nat \<Rightarrow> nat list \<times> nat" where
  "elements_loop script off len =
     (if off < length script then
        let (len', off') = element_header script off len;
            (es, o') = elements_loop script (off' + len') len'
        in (off # es, o')
      else ([], off))"
  by pat_completeness auto
termination
  using element_header_less
  by (relation "measure (\<lambda>(script, off, len). length script - off)")
     (auto, metis add_leD1 diff_less_mono2 less_le_trans snd_conv trans_less_add1)

declare elements_loop.simps [simp del]

text \<open>\<open>elems\<close> is the capacity of the caller's array, \<open>None\<close> for a null pointer.\<close>

definition BRScriptElements :: "nat option \<Rightarrow> bytes \<Rightarrow> nat list \<times> nat" where
  "BRScriptElements elems script =
     (let (es, off) = elements_loop script 0 0; i = length es in
      (case elems of None \<Rightarrow> [] | Some n \<Rightarrow> take n es,
       if (case elems of None \<Rightarrow> True | Some n \<Rightarrow> i \<le> n) \<and> off = length script then i else 0))"

text \<open>The argument is the memory at \<open>elem\<close>; the pointer returned is relative to it.\<close>

definition BRScriptData :: "bytes \<Rightarrow> nat option \<times> nat" where
  "BRScriptData elem =
     (let (dataLen, p) =
        (if elem ! 0 = OP_PUSHDATA1 then (unat (elem ! 1), 1 + 1)
         else if elem ! 0 = OP_PUSHDATA2 then (unat (UInt16GetLE (drop 1 elem)), 1 + 2)
         else if elem ! 0 = OP_PUSHDATA4 then (unat (UInt32GetLE (drop 1 elem)), 1 + 4)
         else (if elem ! 0 > OP_PUSHDATA4 then 0 else unat (elem ! 0), 1))
      in (if dataLen > 0 then Some p else None, dataLen))"

definition BRScriptPushData :: "bytes \<Rightarrow> buffer \<Rightarrow> buffer \<times> nat" where
  "BRScriptPushData data script =
     (let dataLen = length data;
          (len, hdr) =
            (if dataLen < 0x4c then (dataLen + 1, [of_nat dataLen])
             else if dataLen < 0xff then (dataLen + (1 + 1), [OP_PUSHDATA1, of_nat dataLen])
             else if dataLen < 0xffff then
               (dataLen + (1 + 2), OP_PUSHDATA2 # UInt16SetLE (of_nat dataLen))
             else (dataLen + (1 + 4), OP_PUSHDATA4 # UInt32SetLE (of_nat dataLen)))
      in case script of
           None \<Rightarrow> (None, len)
         | Some s \<Rightarrow>
             if len \<le> length s
             then (Some (poke (len - dataLen) data (poke 0 hdr s)), len)
             else (Some s, 0))"

section \<open>Addresses\<close>

definition pubkey_address :: "bool \<Rightarrow> u8" where
  "pubkey_address testnet = (if testnet then 111 else 3)"

definition script_address :: "bool \<Rightarrow> u8" where
  "script_address testnet = (if testnet then 196 else 125)"

text \<open>\<open>d\<close> and \<open>l\<close> after \<open>d = BRScriptData(elem, &l)\<close>: the bytes pushed, if any.\<close>

definition elem_data :: "bytes \<Rightarrow> nat \<Rightarrow> bytes option" where
  "elem_data script e =
     (case BRScriptData (drop e script) of
        (None, l) \<Rightarrow> None
      | (Some p, l) \<Rightarrow> Some (take l (drop (e + p) script)))"

definition MAX_SCRIPT_LENGTH :: nat where "MAX_SCRIPT_LENGTH = 0x100"

text \<open>The array \<open>data\<close> that is encoded, when \<open>d\<close> is not null at the end.\<close>

definition script_pub_key_data :: "bool \<Rightarrow> bytes \<Rightarrow> nat list \<Rightarrow> nat \<Rightarrow> bytes option" where
  "script_pub_key_data testnet script elems count =
     (let op = (\<lambda>i. script ! (elems ! i)) in
      if count = 5 \<and> op 0 = OP_DUP \<and> op 1 = OP_HASH160 \<and> op 2 = 20 \<and>
         op 3 = OP_EQUALVERIFY \<and> op 4 = OP_CHECKSIG then
        (case elem_data script (elems ! 2) of
           None \<Rightarrow> None
         | Some d \<Rightarrow> if length d \<noteq> 20 then None else Some (pubkey_address testnet # d))
      else if count = 3 \<and> op 0 = OP_HASH160 \<and> op 1 = 20 \<and> op 2 = OP_EQUAL then
        (case elem_data script (elems ! 1) of
           None \<Rightarrow> None
         | Some d \<Rightarrow> if length d \<noteq> 20 then None else Some (script_address testnet # d))
      else if count = 2 \<and> (op 0 = 65 \<or> op 0 = 33) \<and> op 1 = OP_CHECKSIG then
        (case elem_data script (elems ! 0) of
           None \<Rightarrow> None
         | Some d \<Rightarrow> if length d \<noteq> 65 \<and> length d \<noteq> 33 then None
                   else Some (pubkey_address testnet # BRHash160 d))
      else None)"

definition BRAddressFromScriptPubKey :: "bool \<Rightarrow> bytes \<Rightarrow> buffer \<Rightarrow> buffer \<times> nat" where
  "BRAddressFromScriptPubKey testnet script addr =
     (if script = [] \<or> length script > MAX_SCRIPT_LENGTH then (addr, 0)
      else
        let (elems, count) = BRScriptElements (Some (snd (BRScriptElements None script))) script
        in case script_pub_key_data testnet script elems count of
             None \<Rightarrow> (addr, 0)
           | Some data \<Rightarrow> BRBase58CheckEncode data addr)"

definition script_sig_data :: "bool \<Rightarrow> bytes \<Rightarrow> nat list \<Rightarrow> nat \<Rightarrow> bytes option" where
  "script_sig_data testnet script elems count =
     (let op = (\<lambda>i. script ! (elems ! i)) in
      if count \<ge> 2 \<and> op (count - 2) \<le> OP_PUSHDATA4 \<and>
         (op (count - 1) = 65 \<or> op (count - 1) = 33) then
        (case elem_data script (elems ! (count - 1)) of
           None \<Rightarrow> None
         | Some d \<Rightarrow> if length d \<noteq> 65 \<and> length d \<noteq> 33 then None
                   else Some (pubkey_address testnet # BRHash160 d))
      else if count \<ge> 2 \<and> op (count - 2) \<le> OP_PUSHDATA4 \<and> op (count - 1) \<le> OP_PUSHDATA4 \<and>
         op (count - 1) > 0 then
        (case elem_data script (elems ! (count - 1)) of
           None \<Rightarrow> None
         | Some d \<Rightarrow> Some (script_address testnet # BRHash160 d))
      else None)"

definition BRAddressFromScriptSig :: "bool \<Rightarrow> bytes \<Rightarrow> buffer \<Rightarrow> buffer \<times> nat" where
  "BRAddressFromScriptSig testnet script addr =
     (if script = [] \<or> length script > MAX_SCRIPT_LENGTH then (addr, 0)
      else
        let (elems, count) = BRScriptElements (Some (snd (BRScriptElements None script))) script
        in case script_sig_data testnet script elems count of
             None \<Rightarrow> (addr, 0)
           | Some data \<Rightarrow> BRBase58CheckEncode data addr)"

text \<open>The 21 bytes of an address, when \<open>BRBase58CheckDecode(data, sizeof(data), addr) == 21\<close>.\<close>

definition address_data :: "bytes \<Rightarrow> bytes option" where
  "address_data addr =
     (case BRBase58CheckDecode addr (Some (replicate 21 0)) of
        (data, n) \<Rightarrow> if n = 21 then data else None)"

definition BRAddressScriptPubKey :: "bool \<Rightarrow> bytes \<Rightarrow> buffer \<Rightarrow> buffer \<times> nat" where
  "BRAddressScriptPubKey testnet addr script =
     (let put = (\<lambda>n bs. case script of
            None \<Rightarrow> (None, n)
          | Some s \<Rightarrow> if n \<le> length s then (Some (poke 0 bs s), n) else (Some s, 0))
      in case address_data addr of
           None \<Rightarrow> (script, 0)
         | Some data \<Rightarrow>
             if data ! 0 = pubkey_address testnet then
               put 25 ([OP_DUP, OP_HASH160, 20] @ take 20 (drop 1 data) @ [OP_EQUALVERIFY, OP_CHECKSIG])
             else if data ! 0 = script_address testnet then
               put 23 ([OP_HASH160, 20] @ take 20 (drop 1 data) @ [OP_EQUAL])
             else (script, 0))"

definition BRAddressIsValid :: "bool \<Rightarrow> bytes \<Rightarrow> bool" where
  "BRAddressIsValid testnet addr =
     (case address_data addr of
        None \<Rightarrow> False
      | Some data \<Rightarrow> data ! 0 = pubkey_address testnet \<or> data ! 0 = script_address testnet)"

text \<open>The bytes written to \<open>md20\<close>, or \<open>None\<close> for the result 0.\<close>

definition BRAddressHash160 :: "bytes \<Rightarrow> bytes option" where
  "BRAddressHash160 addr = map_option (\<lambda>data. take 20 (drop 1 data)) (address_data addr)"

definition BRAddressHash :: "bytes \<Rightarrow> u32" where
  "BRAddressHash addr = BRMurmur3_32 addr 0"

definition BRAddressEq :: "bytes \<Rightarrow> bytes \<Rightarrow> bool" where
  "BRAddressEq addr otherAddr \<longleftrightarrow> take 36 addr = take 36 otherAddr"

section \<open>The varint codec\<close>

definition varint_enc :: "u64 \<Rightarrow> bytes" where
  "varint_enc i =
     (if i < 0xfd then [ucast i]
      else if i \<le> 0xffff then 0xfd # UInt16SetLE (ucast i)
      else if i \<le> 0xffffffff then 0xfe # UInt32SetLE (ucast i)
      else 0xff # UInt64SetLE i)"

lemma varint_set_eq:
  "BRVarIntSet i buf = (case buf of None \<Rightarrow> (None, length (varint_enc i))
     | Some b \<Rightarrow> if length (varint_enc i) \<le> length b
                 then (Some (poke 0 (varint_enc i) b), length (varint_enc i)) else (Some b, 0))"
  by (simp add: BRVarIntSet_def varint_enc_def Let_def split: option.splits)

lemma serializes_varint [intro]: "serializes (BRVarIntSet i) (varint_enc i)"
  by (simp add: serializes_def varint_set_eq)

lemma varint_size [simp]: "BRVarIntSize i = length (varint_enc i)"
  by (simp add: BRVarIntSize_def varint_set_eq)

lemma varint_size_bounds: "0 < length (varint_enc i)" "length (varint_enc i) \<le> 9"
  by (simp_all add: varint_enc_def)

lemma ucast_ucast_le:
  fixes i :: u64
  assumes "unat i < 2 ^ LENGTH('a::len)"
  shows "ucast (ucast i :: 'a word) = i"
proof -
  have "unat i < 2 ^ LENGTH(64)" by (rule unsigned_less)
  then show ?thesis
    using assms by (intro word_unat_eq_iff [THEN iffD2]) (simp add: unat_ucast_mod)
qed

lemma varint_read:
  "BRVarInt (varint_enc i @ t) = (i, length (varint_enc i))"
proof -
  consider "i < 0xfd" | "\<not> i < 0xfd" "i \<le> 0xffff" | "\<not> i \<le> 0xffff" "i \<le> 0xffffffff"
    | "\<not> i \<le> 0xffffffff" by blast
  then show ?thesis
  proof cases
    case 1
    have lt: "unat i < 0xfd" using 1 by (simp add: word_less_nat_alt)
    then have "unat (ucast i :: u8) < 0xfd" by (simp add: unat_ucast_mod)
    then have "(ucast i :: u8) \<noteq> 0xfd" "(ucast i :: u8) \<noteq> 0xfe" "(ucast i :: u8) \<noteq> 0xff" by auto
    moreover have "ucast (ucast i :: u8) = i" using lt by (intro ucast_ucast_le) simp
    ultimately show ?thesis using 1 by (simp add: BRVarInt_def varint_enc_def)
  next
    case 2
    then have "unat i < 2 ^ LENGTH(16)" by (simp add: word_le_nat_alt)
    then have "ucast (ucast i :: u16) = i" by (rule ucast_ucast_le)
    then show ?thesis using 2 by (simp add: BRVarInt_def varint_enc_def)
  next
    case 3
    then have "unat i < 2 ^ LENGTH(32)" by (simp add: word_le_nat_alt)
    then have "ucast (ucast i :: u32) = i" by (rule ucast_ucast_le)
    moreover have "\<not> i < 0xfd" using 3 by (auto simp: word_less_nat_alt word_le_nat_alt)
    ultimately show ?thesis using 3 by (simp add: BRVarInt_def varint_enc_def)
  next
    case 4
    then have "\<not> i < 0xfd" "\<not> i \<le> 0xffff" by (auto simp: word_less_nat_alt word_le_nat_alt)
    then show ?thesis using 4 by (simp add: BRVarInt_def varint_enc_def)
  qed
qed

text \<open>The value at the start of a buffer, when all its bytes are there.\<close>

definition read_varint :: "bytes \<Rightarrow> u64 option" where
  "read_varint b = (if 0 < length b \<and> snd (BRVarInt b) \<le> length b then Some (fst (BRVarInt b)) else None)"

interpretation varint: codec BRVarIntSet varint_enc "\<lambda>_. True" read_varint
  by unfold_locales (use varint_size_bounds in \<open>auto simp: read_varint_def varint_read\<close>)

section \<open>Data pushes\<close>

definition push_header :: "nat \<Rightarrow> bytes" where
  "push_header n =
     (if n < 0x4c then [of_nat n]
      else if n < 0xff then [OP_PUSHDATA1, of_nat n]
      else if n < 0xffff then OP_PUSHDATA2 # UInt16SetLE (of_nat n)
      else OP_PUSHDATA4 # UInt32SetLE (of_nat n))"

definition push_enc :: "bytes \<Rightarrow> bytes" where
  "push_enc d = push_header (length d) @ d"

lemma length_push_header: "0 < length (push_header n)" "length (push_header n) \<le> 5"
  by (simp_all add: push_header_def)

lemma push_data_eq:
  "BRScriptPushData data script = (case script of None \<Rightarrow> (None, length (push_enc data))
     | Some s \<Rightarrow> if length (push_enc data) \<le> length s
         then (Some (push_enc data @ drop (length (push_enc data)) s), length (push_enc data))
         else (Some s, 0))"
  by (cases script)
     (auto simp: BRScriptPushData_def push_enc_def push_header_def Let_def poke_def add.commute)

interpretation push: writer BRScriptPushData push_enc "\<lambda>_. True"
  by unfold_locales (simp add: serializes_def push_data_eq)

text \<open>The header of a push at offset \<open>length a\<close> of a script is read back.\<close>

lemma of_nat_byte: "n < 0x4c \<Longrightarrow> unat (of_nat n :: u8) = n"
  by (simp add: unat_of_nat)

lemma push_small_op:
  assumes "n < 0x4c"
  shows "(of_nat n :: u8) \<noteq> OP_PUSHDATA1" "(of_nat n :: u8) \<noteq> OP_PUSHDATA2"
    "(of_nat n :: u8) \<noteq> OP_PUSHDATA4" "\<not> (of_nat n :: u8) > OP_PUSHDATA4"
  using assms of_nat_byte [OF assms]
  by (auto simp: op_defs word_less_nat_alt dest: arg_cong [where f = unat])

lemma element_header_push:
  assumes "n < 2 ^ 32"
  shows "element_header (a @ push_header n @ t) (length a) len = (n, length a + length (push_header n))"
proof -
  have "drop (Suc (length a)) (a @ x # y) = y" "(a @ x # y) ! length a = x"
    "(a @ x # z # y) ! Suc (length a) = z" for x z :: u8 and y
    by (simp_all add: nth_append)
  then show ?thesis
    using assms push_small_op [of n] of_nat_byte [of n]
    by (auto simp: element_header_def push_header_def Let_def unat_of_nat op_defs)
qed

lemma elements_push:
  assumes "length d < 2 ^ 32"
  shows "elements_loop (a @ push_enc d @ t) (length a) len =
    (case elements_loop (a @ push_enc d @ t) (length a + length (push_enc d)) (length d) of
       (es, o') \<Rightarrow> (length a # es, o'))"
proof -
  have "element_header (a @ push_enc d @ t) (length a) len = (length d, length a + length (push_header (length d)))"
    using element_header_push [OF assms, of a "d @ t" len] by (simp add: push_enc_def)
  then show ?thesis
    using length_push_header [of "length d"]
    by (subst elements_loop.simps) (simp add: push_enc_def add.assoc split: prod.splits)
qed

text \<open>The offsets of consecutive encodings.\<close>

primrec offsets :: "nat \<Rightarrow> bytes list \<Rightarrow> nat list" where
  "offsets off [] = []"
| "offsets off (e # es) = off # offsets (off + length e) es"

lemma length_offsets [simp]: "length (offsets off es) = length es"
  by (induction es arbitrary: off) simp_all

lemma nth_offsets: "i < length es \<Longrightarrow> offsets off es ! i = off + length (concat (take i es))"
proof (induction es arbitrary: off i)
  case (Cons e es)
  then show ?case by (cases i) auto
qed simp

lemma elements_pushes:
  assumes "\<forall>d\<in>set ds. length d < 2 ^ 32"
  shows "elements_loop (a @ concat (map push_enc ds)) (length a) len =
    (offsets (length a) (map push_enc ds), length (a @ concat (map push_enc ds)))"
  using assms
proof (induction ds arbitrary: a len)
  case Nil
  then show ?case by (subst elements_loop.simps) simp
next
  case (Cons d ds)
  then show ?case
    using elements_push [of d a "concat (map push_enc ds)" len] Cons.IH [of "a @ push_enc d" "length d"]
    by simp
qed

lemma script_data_push:
  assumes "length d < 2 ^ 32"
  shows "BRScriptData (push_enc d @ t) =
    (if d = [] then None else Some (length (push_header (length d))), length d)"
  using assms push_small_op [of "length d"] of_nat_byte [of "length d"]
  by (auto simp: BRScriptData_def push_enc_def push_header_def Let_def unat_of_nat op_defs)

section \<open>The standard scripts\<close>

lemma elements_op:
  assumes "op > OP_PUSHDATA4"
  shows "elements_loop (a @ op # t) (length a) len =
    (case elements_loop (a @ op # t) (length a + 1) 0 of (es, o') \<Rightarrow> (length a # es, o'))"
proof -
  have "op \<noteq> OP_PUSHDATA1" "op \<noteq> OP_PUSHDATA2" "op \<noteq> OP_PUSHDATA4"
    using assms by (auto simp: op_defs word_less_nat_alt)
  then have "element_header (a @ op # t) (length a) len = (0, length a + 1)"
    using assms by (simp add: element_header_def Let_def)
  then show ?thesis by (subst elements_loop.simps) (simp split: prod.splits)
qed

definition p2pkh :: "bytes \<Rightarrow> bytes" where
  "p2pkh h = [OP_DUP, OP_HASH160, 20] @ h @ [OP_EQUALVERIFY, OP_CHECKSIG]"

definition p2sh :: "bytes \<Rightarrow> bytes" where
  "p2sh h = [OP_HASH160, 20] @ h @ [OP_EQUAL]"

lemma push_enc_20: "length h = 20 \<Longrightarrow> push_enc h = 20 # h"
  by (simp add: push_enc_def push_header_def)

lemma elements_end: "elements_loop s (length s) len = ([], length s)"
  by (subst elements_loop.simps) simp

lemma elements_p2pkh:
  assumes "length h = 20"
  shows "elements_loop (p2pkh h) 0 0 = ([0, 1, 2, 23, 24], 25)"
proof -
  have len: "length (p2pkh h) = 25" using assms by (simp add: p2pkh_def)
  have "p2pkh h = [] @ OP_DUP # OP_HASH160 # push_enc h @ [OP_EQUALVERIFY, OP_CHECKSIG]"
    "p2pkh h = [OP_DUP] @ OP_HASH160 # push_enc h @ [OP_EQUALVERIFY, OP_CHECKSIG]"
    "p2pkh h = [OP_DUP, OP_HASH160] @ push_enc h @ [OP_EQUALVERIFY, OP_CHECKSIG]"
    "p2pkh h = ([OP_DUP, OP_HASH160] @ push_enc h) @ OP_EQUALVERIFY # [OP_CHECKSIG]"
    "p2pkh h = ([OP_DUP, OP_HASH160] @ push_enc h @ [OP_EQUALVERIFY]) @ OP_CHECKSIG # []"
    using assms by (simp_all add: p2pkh_def push_enc_20)
  note s = this
  have "elements_loop (p2pkh h) 24 0 = ([24], 25)"
    using elements_op [of OP_CHECKSIG "[OP_DUP, OP_HASH160] @ push_enc h @ [OP_EQUALVERIFY]" "[]" 0]
      elements_end [of "p2pkh h" 0] assms len
    unfolding s(5) [symmetric] by (simp add: op_defs push_enc_20)
  then have "elements_loop (p2pkh h) 23 20 = ([23, 24], 25)"
    using elements_op [of OP_EQUALVERIFY "[OP_DUP, OP_HASH160] @ push_enc h" "[OP_CHECKSIG]" 20] assms
    unfolding s(4) [symmetric] by (simp add: op_defs push_enc_20)
  then have "elements_loop (p2pkh h) 2 0 = ([2, 23, 24], 25)"
    using elements_push [of h "[OP_DUP, OP_HASH160]" "[OP_EQUALVERIFY, OP_CHECKSIG]" 0] assms
    unfolding s(3) [symmetric] by (simp add: push_enc_20 Suc_1 [unfolded One_nat_def])
  then have "elements_loop (p2pkh h) 1 0 = ([1, 2, 23, 24], 25)"
    using elements_op [of OP_HASH160 "[OP_DUP]" "push_enc h @ [OP_EQUALVERIFY, OP_CHECKSIG]" 0]
    unfolding s(2) [symmetric] by (simp add: op_defs Suc_1 [unfolded One_nat_def])
  then show ?thesis
    using elements_op [of OP_DUP "[]" "OP_HASH160 # push_enc h @ [OP_EQUALVERIFY, OP_CHECKSIG]" 0]
    unfolding s(1) [symmetric] by (simp add: op_defs)
qed

lemma elements_p2sh:
  assumes "length h = 20"
  shows "elements_loop (p2sh h) 0 0 = ([0, 1, 22], 23)"
proof -
  have len: "length (p2sh h) = 23" using assms by (simp add: p2sh_def)
  have "p2sh h = [] @ OP_HASH160 # push_enc h @ [OP_EQUAL]"
    "p2sh h = [OP_HASH160] @ push_enc h @ [OP_EQUAL]"
    "p2sh h = ([OP_HASH160] @ push_enc h) @ OP_EQUAL # []"
    using assms by (simp_all add: p2sh_def push_enc_20)
  note s = this
  have "elements_loop (p2sh h) 22 20 = ([22], 23)"
    using elements_op [of OP_EQUAL "[OP_HASH160] @ push_enc h" "[]" 20]
      elements_end [of "p2sh h" 0] assms len
    unfolding s(3) [symmetric] by (simp add: op_defs push_enc_20)
  then have "elements_loop (p2sh h) 1 0 = ([1, 22], 23)"
    using elements_push [of h "[OP_HASH160]" "[OP_EQUAL]" 0] assms
    unfolding s(2) [symmetric] by (simp add: push_enc_20)
  then show ?thesis
    using elements_op [of OP_HASH160 "[]" "push_enc h @ [OP_EQUAL]" 0]
    unfolding s(1) [symmetric] by (simp add: op_defs)
qed

lemma elem_data_20:
  assumes "length h = 20"
  shows "elem_data (a @ 20 # h @ t) (length a) = Some h"
  using script_data_push [of h t] assms
  by (simp add: elem_data_def push_enc_20 push_header_def) auto

lemma from_p2pkh:
  assumes "length h = 20"
  shows "BRAddressFromScriptPubKey testnet (p2pkh h) addr = BRBase58CheckEncode (pubkey_address testnet # h) addr"
proof -
  have "elem_data (p2pkh h) 2 = Some h"
    using elem_data_20 [OF assms, of "[OP_DUP, OP_HASH160]"] by (simp add: p2pkh_def numeral_2_eq_2)
  moreover have "p2pkh h ! 0 = OP_DUP" "p2pkh h ! 1 = OP_HASH160" "p2pkh h ! 2 = 20"
    "p2pkh h ! 23 = OP_EQUALVERIFY" "p2pkh h ! 24 = OP_CHECKSIG" "length (p2pkh h) = 25" "p2pkh h \<noteq> []"
    using assms by (simp_all add: p2pkh_def nth_append nth_Cons')
  ultimately show ?thesis
    using elements_p2pkh [OF assms] assms
    by (simp add: BRAddressFromScriptPubKey_def BRScriptElements_def MAX_SCRIPT_LENGTH_def
        script_pub_key_data_def)
qed

lemma from_p2sh:
  assumes "length h = 20"
  shows "BRAddressFromScriptPubKey testnet (p2sh h) addr = BRBase58CheckEncode (script_address testnet # h) addr"
proof -
  have "elem_data (p2sh h) 1 = Some h"
    using elem_data_20 [OF assms, of "[OP_HASH160]"] by (simp add: p2sh_def)
  moreover have "p2sh h ! 0 = OP_HASH160" "p2sh h ! 1 = 20" "p2sh h ! 22 = OP_EQUAL"
    "length (p2sh h) = 23" "p2sh h \<noteq> []"
    using assms by (simp_all add: p2sh_def nth_append nth_Cons')
  ultimately show ?thesis
    using elements_p2sh [OF assms] assms
    by (simp add: BRAddressFromScriptPubKey_def BRScriptElements_def MAX_SCRIPT_LENGTH_def
        script_pub_key_data_def)
qed

section \<open>Address strings\<close>

lemma address_data_eq:
  "address_data addr = (if length (check_bytes addr) = 21 then Some (check_bytes addr) else None)"
  by (simp add: address_data_def check_decode_eq)

lemma address_data_cases:
  assumes "address_data addr = Some data"
  obtains v h where "check_bytes addr = v # h" "data = v # h" "length h = 20"
  using assms by (cases "check_bytes addr") (auto simp: address_data_eq split: if_splits)

definition address_script :: "bool \<Rightarrow> bytes \<Rightarrow> bytes option" where
  "address_script testnet addr =
     (case address_data addr of
        None \<Rightarrow> None
      | Some data \<Rightarrow>
          if hd data = pubkey_address testnet then Some (p2pkh (tl data))
          else if hd data = script_address testnet then Some (p2sh (tl data)) else None)"

lemma script_pub_key_eq:
  "BRAddressScriptPubKey testnet addr script =
     (case address_script testnet addr of
        None \<Rightarrow> (script, 0)
      | Some bs \<Rightarrow> (case script of
            None \<Rightarrow> (None, length bs)
          | Some s \<Rightarrow> if length bs \<le> length s then (Some (bs @ drop (length bs) s), length bs) else (Some s, 0)))"
proof (cases "address_data addr")
  case (Some data)
  then obtain v h where "data = v # h" "length h = 20" by (rule address_data_cases)
  then show ?thesis using Some
    by (auto simp: BRAddressScriptPubKey_def address_script_def p2pkh_def p2sh_def Let_def
        split: option.splits)
qed (simp add: BRAddressScriptPubKey_def address_script_def)

text \<open>The payload of an address has 21 bytes and a version byte that is not zero.\<close>

lemma encode_digits_length: "length (encode_digits d) = length d * 138 div 100 + 1"
proof -
  have "length (fst (encode_carry buf c)) = length buf" for buf c
    by (induction buf) (auto simp: split_beta Let_def)
  then have "length (foldl (\<lambda>buf d. fst (encode_carry buf (ucast d))) buf d) = length buf" for buf
    by (induction d arbitrary: buf) auto
  then show ?thesis by (simp add: encode_digits_def)
qed

lemma length_check_text:
  assumes "length h = 20" "v \<noteq> 0"
  shows "length (check_text (v # h)) \<le> 35"
proof -
  define d where "d = (v # h) @ take 4 (BRSHA256_2 (v # h))"
  have "length (dropWhile (\<lambda>d. d = 0) (encode_digits d)) \<le> length (encode_digits d)"
    by (rule length_dropWhile_le)
  also have "\<dots> = 35" using assms by (simp add: d_def encode_digits_length)
  finally show ?thesis
    using assms(2) by (simp add: check_text_def base58_text_def d_def)
qed

lemma version_nonzero: "pubkey_address t \<noteq> 0" "script_address t \<noteq> 0"
  by (simp_all add: pubkey_address_def script_address_def)

lemma check_encode_fits:
  "length h = 20 \<Longrightarrow> v \<noteq> 0 \<Longrightarrow> snd (BRBase58CheckEncode (v # h) None) \<le> 36"
  using length_check_text [of h v] check_writer.size_query [of "v # h"] by simp

lemma script_data_payload:
  "script_pub_key_data testnet s es n = Some d \<Longrightarrow> \<exists>v h. d = v # h \<and> v \<noteq> 0 \<and> length h = 20"
  "script_sig_data testnet s es n = Some d \<Longrightarrow> \<exists>v h. d = v # h \<and> v \<noteq> 0 \<and> length h = 20"
  using version_nonzero
  by (auto simp: script_pub_key_data_def script_sig_data_def Let_def split: if_splits option.splits)

section \<open>Properties\<close>

text \<open>
  A variable length integer written to a buffer is read back, with the length that
  \<open>BRVarIntSize\<close> announced; the read does not depend on what follows it.
\<close>

theorem varint_round_trip:
  assumes "BRVarIntSet i (Some b) = (Some b', n)" "n \<noteq> 0"
  shows "BRVarInt b' = (i, n) \<and> n = BRVarIntSize i \<and> length b' = length b"
  using assms varint_read [of i] by (auto simp: varint_set_eq split: if_splits)

theorem varint_round_trip_witness: "BRVarInt [0xfd, 0x34, 0x12, 7] = (0x1234, 3)"
proof -
  have "BRVarIntSet 0x1234 (Some [0, 0, 0, 7]) = (Some [0xfd, 0x34, 0x12, 7], 3)"
    by (simp add: BRVarIntSet_def UInt16SetLE_def)
  from varint_round_trip [OF this] show ?thesis by simp
qed

text \<open>The bytes of a push, obtained in two passes.\<close>

definition pushed :: "bytes \<Rightarrow> bytes" where
  "pushed d = the (fst (BRScriptPushData d (Some (replicate (snd (BRScriptPushData d None)) 0))))"

lemma pushed_eq [simp]: "pushed d = push_enc d"
  using push.two_pass [of "replicate (snd (BRScriptPushData d None)) 0" d] by (simp add: pushed_def)

text \<open>
  A script made of data pushes is split by \<open>BRScriptElements\<close> into exactly these pushes, and
  \<open>BRScriptData\<close> gives the data of each of them back (a null pointer for an empty one), whichever
  of the four push opcodes its length asked for.
\<close>

theorem script_pushes_round_trip:
  assumes "\<forall>d\<in>set ds. length d < 2 ^ 32" "length ds \<le> n"
  shows "BRScriptElements None (concat (map pushed ds)) = ([], length ds) \<and>
    (\<exists>elems. BRScriptElements (Some n) (concat (map pushed ds)) = (elems, length ds) \<and>
       map (elem_data (concat (map pushed ds))) elems = map (\<lambda>d. if d = [] then None else Some d) ds)"
proof -
  define s where "s = concat (map push_enc ds)"
  have loop: "elements_loop s 0 0 = (offsets 0 (map push_enc ds), length s)"
    using elements_pushes [OF assms(1), of "[]" 0] by (simp add: s_def)
  have "elem_data s (offsets 0 (map push_enc ds) ! i) = (if ds ! i = [] then None else Some (ds ! i))"
    if i: "i < length ds" for i
  proof -
    have s: "s = concat (take i (map push_enc ds)) @ push_enc (ds ! i) @ concat (map push_enc (drop (Suc i) ds))"
      using id_take_nth_drop [OF i] unfolding s_def
      by (metis append_Cons concat.simps(2) concat_append list.simps(9) map_append take_map)
    moreover have "length (ds ! i) < 2 ^ 32" using assms(1) i by simp
    ultimately show ?thesis
      using i script_data_push [of "ds ! i" "concat (map push_enc (drop (Suc i) ds))"]
      by (simp add: elem_data_def nth_offsets push_enc_def)
  qed
  then have "map (elem_data s) (offsets 0 (map push_enc ds)) = map (\<lambda>d. if d = [] then None else Some d) ds"
    by (intro nth_equalityI) simp_all
  moreover have "pushed = push_enc" by (simp add: fun_eq_iff)
  ultimately show ?thesis
    using loop assms(2) by (simp add: BRScriptElements_def s_def)
qed

theorem script_pushes_round_trip_witness:
  "\<exists>elems. BRScriptElements (Some 2) (concat (map pushed [[1, 2], replicate 80 9])) = (elems, 2) \<and>
     map (elem_data (concat (map pushed [[1, 2], replicate 80 9]))) elems = [Some [1, 2], Some (replicate 80 9)]"
proof -
  have "\<forall>d\<in>set [[1, 2], replicate 80 9]. length (d :: bytes) < 2 ^ 32" "length [[1, 2], replicate 80 (9 :: u8)] \<le> 2"
    by simp_all
  from script_pushes_round_trip [OF this] show ?thesis
    by (simp del: pushed_eq add: numeral_2_eq_2)
qed

text \<open>
  Every address the code derives from a script fits the 36 characters of \<open>BRAddress\<close>, with
  its terminator.
\<close>

theorem address_fits:
  "snd (BRAddressFromScriptPubKey testnet script None) \<le> 36 \<and>
   snd (BRAddressFromScriptSig testnet script None) \<le> 36"
proof -
  have "snd (case f of None \<Rightarrow> (None, 0) | Some data \<Rightarrow> BRBase58CheckEncode data None) \<le> 36"
    if "\<And>d. f = Some d \<Longrightarrow> \<exists>v h. d = v # h \<and> v \<noteq> 0 \<and> length h = 20" for f
    using that check_encode_fits by (cases f) auto
  from this [OF script_data_payload(1)] this [OF script_data_payload(2)] show ?thesis
    by (simp add: BRAddressFromScriptPubKey_def BRAddressFromScriptSig_def split_beta Let_def)
qed

text \<open>
  C22: the scriptPubKey of an accepted address leads back to the address: the script written by
  \<open>BRAddressScriptPubKey\<close> is recognised by \<open>BRAddressFromScriptPubKey\<close>, in 36 characters, and the
  string it writes decodes to the same payload.
\<close>

theorem address_script_round_trip:
  assumes "BRAddressScriptPubKey testnet addr (Some s) = (Some s', n)" "n \<noteq> 0" "length s = n"
    "length b = 36"
  shows "\<exists>b' m. BRAddressFromScriptPubKey testnet s' (Some b) = (Some b', m) \<and> m \<noteq> 0 \<and>
    (\<forall>d. BRBase58CheckDecode (cstr b') d = BRBase58CheckDecode addr d)"
proof -
  obtain bs where bs: "address_script testnet addr = Some bs" "s' = bs"
    using assms by (auto simp: script_pub_key_eq split: option.splits if_splits)
  then obtain v h where vh: "check_bytes addr = v # h" "length h = 20" and v: "v \<noteq> 0" and
    f: "BRAddressFromScriptPubKey testnet s' (Some b) = BRBase58CheckEncode (v # h) (Some b)"
    using from_p2pkh from_p2sh version_nonzero
    by (auto simp: address_script_def split: option.splits if_splits elim!: address_data_cases)
  have "length (check_text (v # h) @ [0]) \<le> length b"
    using length_check_text [OF vh(2) v] assms(4) by simp
  then have "BRBase58CheckEncode (v # h) (Some b) =
      (Some ((check_text (v # h) @ [0]) @ drop (length (check_text (v # h) @ [0])) b),
       length (check_text (v # h) @ [0]))"
    by (rule check_writer.keeps_rest [OF TrueI])
  then show ?thesis
    using f check_text_no_nul [of "v # h"] vh(1)
    by (auto simp: check_decode_eq check_bytes_text split: option.splits)
qed

text \<open>
  \<open>BRAddressIsValid\<close> accepts exactly the strings \<open>BRAddressScriptPubKey\<close> makes a script of, and
  for these \<open>BRAddressHash160\<close> gives the 20 bytes that the script carries.
\<close>

theorem address_valid_iff_script:
  "(BRAddressIsValid testnet addr \<longleftrightarrow> snd (BRAddressScriptPubKey testnet addr None) \<noteq> 0) \<and>
   (BRAddressIsValid testnet addr \<longrightarrow>
     (\<exists>h. BRAddressHash160 addr = Some h \<and> length h = 20 \<and>
        fst (BRAddressScriptPubKey testnet addr (Some (replicate 25 0))) \<in>
          {Some (p2pkh h), Some (p2sh h @ [0, 0])}))"
proof (cases "address_data addr")
  case (Some data)
  then obtain v h where "data = v # h" "length h = 20" by (rule address_data_cases)
  then show ?thesis using Some
    by (auto simp: BRAddressIsValid_def BRAddressHash160_def script_pub_key_eq address_script_def
        p2pkh_def p2sh_def numeral_eq_Suc)
qed (simp add: BRAddressIsValid_def script_pub_key_eq address_script_def)

theorem address_script_round_trip_witness:
  "\<exists>b' m. BRAddressFromScriptPubKey False (p2pkh (replicate 20 7)) (Some (replicate 36 0)) = (Some b', m) \<and> m \<noteq> 0 \<and>
     BRBase58CheckDecode (cstr b') None = (None, 21)"
proof -
  define addr where "addr = check_text (3 # replicate 20 7)"
  have "address_script False addr = Some (p2pkh (replicate 20 7))"
    by (simp add: address_script_def address_data_eq addr_def check_bytes_text pubkey_address_def)
  then have "BRAddressScriptPubKey False addr (Some (replicate 25 0)) = (Some (p2pkh (replicate 20 7)), 25)"
    by (simp add: script_pub_key_eq p2pkh_def)
  from address_script_round_trip [OF this, of "replicate 36 0"]
  obtain b' m where "BRAddressFromScriptPubKey False (p2pkh (replicate 20 7)) (Some (replicate 36 0)) = (Some b', m)"
      "m \<noteq> 0" "BRBase58CheckDecode (cstr b') None = BRBase58CheckDecode addr None"
    by auto
  moreover have "BRBase58CheckDecode addr None = (None, 21)"
    by (simp add: check_decode_eq addr_def check_bytes_text)
  ultimately show ?thesis by auto
qed

theorem address_valid_iff_script_witness:
  "\<exists>h. BRAddressHash160 (check_text (3 # replicate 20 7)) = Some h \<and> length h = 20"
proof -
  have "BRAddressIsValid False (check_text (3 # replicate 20 7))"
    by (simp add: BRAddressIsValid_def address_data_eq check_bytes_text pubkey_address_def)
  then show ?thesis using address_valid_iff_script [of False "check_text (3 # replicate 20 7)"] by blast
qed

end
