(* ===== verification/BRBloomFilter.thy ===== *)
theory BRBloomFilter
  imports BRAddress
begin

text \<open>
  \<open>src/Modules/core/BRBloomFilter.c\<close>: the BIP37 bloom filter.

  The allocated array \<open>filter\<close> is the list of its \<open>length\<close> bytes. A \<open>data\<close> pointer that may be
  null is an \<open>option\<close>. The bit index is taken modulo \<open>length*8\<close>: for an empty filter this is a
  division by zero, which the model shows as \<open>None\<close>. \<open>BRBloomFilterNew\<close> computes the size and the
  number of hash functions in floating point; the two values the expressions give are arguments.
\<close>

record BRBloomFilter =
  bf_filter :: bytes
  bf_hashFuncs :: u32
  bf_elemCount :: u64
  bf_tweak :: u32
  bf_flags :: u8

definition BLOOM_MAX_FILTER_LENGTH :: nat where "BLOOM_MAX_FILTER_LENGTH = 36000"
definition BLOOM_MAX_HASH_FUNCS :: u32 where "BLOOM_MAX_HASH_FUNCS = 50"

definition BRBloomFilterHash :: "BRBloomFilter \<Rightarrow> bytes \<Rightarrow> u32 \<Rightarrow> nat option" where
  "BRBloomFilterHash f data hashNum =
     (let n = length (bf_filter f) * 8 in
      if n = 0 then None
      else Some (unat (BRMurmur3_32 data (hashNum * 0xfba4c795 + bf_tweak f)) mod n))"

text \<open>
  \<open>rateTiny\<close> is \<open>falsePositiveRate < DBL_EPSILON\<close>, \<open>len\<close> the first expression converted to
  \<open>size_t\<close>, and \<open>funcs\<close> the second one as a function of the final length.
\<close>

definition BRBloomFilterNew :: "bool \<Rightarrow> nat \<Rightarrow> (nat \<Rightarrow> u32) \<Rightarrow> u32 \<Rightarrow> u8 \<Rightarrow> BRBloomFilter" where
  "BRBloomFilterNew rateTiny len funcs tweak flags =
     (let l0 = (if rateTiny then BLOOM_MAX_FILTER_LENGTH else len);
          l1 = (if l0 > BLOOM_MAX_FILTER_LENGTH then BLOOM_MAX_FILTER_LENGTH else l0);
          l2 = (if l1 < 1 then 1 else l1);
          h = funcs l2
      in \<lparr>bf_filter = replicate l2 0,
          bf_hashFuncs = (if h > BLOOM_MAX_HASH_FUNCS then BLOOM_MAX_HASH_FUNCS else h),
          bf_elemCount = 0, bf_tweak = tweak, bf_flags = flags\<rparr>)"

text \<open>
  The length is a \<open>uint64_t\<close> from the wire and \<open>off\<close> a \<open>size_t\<close>. The sum \<open>off + length\<close> is formed
  only below the maximum, so it does not wrap; when that test fails the filter is dropped.
\<close>

definition BRBloomFilterParse :: "bytes \<Rightarrow> BRBloomFilter option" where
  "BRBloomFilterParse buf =
     (case BRVarInt buf of
        (l, off0) \<Rightarrow>
          if unat l \<le> BLOOM_MAX_FILTER_LENGTH \<and> off0 + unat l \<le> length buf then
            let n = unat l; off1 = off0 + n; off2 = off1 + 4; off3 = off2 + 4
            in Some \<lparr>bf_filter = take n (drop off0 buf),
                 bf_hashFuncs = (if off1 + 4 \<le> length buf then UInt32GetLE (drop off1 buf) else 0),
                 bf_elemCount = 0,
                 bf_tweak = (if off2 + 4 \<le> length buf then UInt32GetLE (drop off2 buf) else 0),
                 bf_flags = (if off3 + 1 \<le> length buf then buf ! off3 else 0)\<rparr>
          else None)"

definition BRBloomFilterSerialize :: "BRBloomFilter \<Rightarrow> buffer \<Rightarrow> buffer \<times> nat" where
  "BRBloomFilterSerialize f buf =
     (let n = length (bf_filter f);
          len = BRVarIntSize (of_nat n) + n + 4 + 4 + 1
      in case buf of
           None \<Rightarrow> (None, len)
         | Some b \<Rightarrow>
             if len \<le> length b then
               (fst (emit [bf_flags f] (emit (UInt32SetLE (bf_tweak f))
                 (emit (UInt32SetLE (bf_hashFuncs f)) (emit (bf_filter f)
                   (at_off (BRVarIntSet (of_nat n)) (Some b, 0)))))), len)
             else (Some b, 0))"

fun contains_loop :: "BRBloomFilter \<Rightarrow> bytes \<Rightarrow> nat list \<Rightarrow> bool option" where
  "contains_loop f data [] = Some True"
| "contains_loop f data (i # is) =
     (case BRBloomFilterHash f data (of_nat i) of
        None \<Rightarrow> None
      | Some idx \<Rightarrow>
          if bf_filter f ! (idx div 8) AND push_bit (idx mod 8) 1 = 0 then Some False
          else contains_loop f data is)"

definition BRBloomFilterContainsData :: "BRBloomFilter \<Rightarrow> bytes option \<Rightarrow> bool option" where
  "BRBloomFilterContainsData f data =
     (case data of
        None \<Rightarrow> Some False
      | Some d \<Rightarrow> contains_loop f d [0..<unat (bf_hashFuncs f)])"

fun insert_loop :: "BRBloomFilter \<Rightarrow> bytes \<Rightarrow> nat list \<Rightarrow> BRBloomFilter option" where
  "insert_loop f data [] = Some f"
| "insert_loop f data (i # is) =
     (case BRBloomFilterHash f data (of_nat i) of
        None \<Rightarrow> None
      | Some idx \<Rightarrow>
          insert_loop (f\<lparr>bf_filter :=
             (bf_filter f)[idx div 8 := bf_filter f ! (idx div 8) OR push_bit (idx mod 8) 1]\<rparr>) data is)"

definition BRBloomFilterInsertData :: "BRBloomFilter \<Rightarrow> bytes option \<Rightarrow> BRBloomFilter option" where
  "BRBloomFilterInsertData f data =
     (case data of
        None \<Rightarrow> Some f
      | Some d \<Rightarrow>
          map_option (\<lambda>f'. f'\<lparr>bf_elemCount := bf_elemCount f' + 1\<rparr>)
            (insert_loop f d [0..<unat (bf_hashFuncs f)]))"

section \<open>Bits of a filter\<close>

text \<open>A filter of a length the peers accept.\<close>

definition bloom_wf :: "BRBloomFilter \<Rightarrow> bool" where
  "bloom_wf f \<longleftrightarrow> 1 \<le> length (bf_filter f) \<and> length (bf_filter f) \<le> BLOOM_MAX_FILTER_LENGTH"

definition fbit :: "bytes \<Rightarrow> nat \<Rightarrow> bool" where
  "fbit b idx \<longleftrightarrow> bit (b ! (idx div 8)) (idx mod 8)"

text \<open>\<open>g\<close> has the parameters of \<open>f\<close> and at least its bits.\<close>

definition bloom_le :: "BRBloomFilter \<Rightarrow> BRBloomFilter \<Rightarrow> bool" where
  "bloom_le f g \<longleftrightarrow> length (bf_filter g) = length (bf_filter f) \<and> bf_hashFuncs g = bf_hashFuncs f \<and>
     bf_tweak g = bf_tweak f \<and> bf_flags g = bf_flags f \<and>
     (\<forall>idx < 8 * length (bf_filter f). fbit (bf_filter f) idx \<longrightarrow> fbit (bf_filter g) idx)"

lemma bloom_le_refl [simp]: "bloom_le f f"
  by (simp add: bloom_le_def)

lemma bloom_le_trans: "bloom_le f g \<Longrightarrow> bloom_le g h \<Longrightarrow> bloom_le f h"
  by (simp add: bloom_le_def)

lemma bloom_le_hash: "bloom_le f g \<Longrightarrow> BRBloomFilterHash g d i = BRBloomFilterHash f d i"
  by (simp add: bloom_le_def BRBloomFilterHash_def)

lemma hash_less: "BRBloomFilterHash f d i = Some idx \<Longrightarrow> idx < 8 * length (bf_filter f)"
  by (auto simp: BRBloomFilterHash_def Let_def mult.commute split: if_splits)

lemma fbit_set:
  assumes "idx < 8 * length b"
  shows "fbit (b[idx div 8 := b ! (idx div 8) OR push_bit (idx mod 8) 1]) j \<longleftrightarrow>
    (j = idx \<or> fbit b j)"
proof -
  have lt: "idx div 8 < length b" using assms by (simp add: less_mult_imp_div_less mult.commute)
  have eq: "j = idx \<longleftrightarrow> j div 8 = idx div 8 \<and> j mod 8 = idx mod 8"
    by (metis div_mult_mod_eq)
  show ?thesis
    using lt eq by (cases "j div 8 = idx div 8") (auto simp: fbit_def bit_simps nth_list_update)
qed

lemma insert_loop_ok:
  assumes "bf_filter f \<noteq> []"
  shows "\<exists>f'. insert_loop f d is = Some f' \<and> bloom_le f f' \<and> bf_elemCount f' = bf_elemCount f \<and>
    (\<forall>i\<in>set is. \<exists>idx. BRBloomFilterHash f d (of_nat i) = Some idx \<and> fbit (bf_filter f') idx)"
  using assms
proof (induction "is" arbitrary: f)
  case (Cons i "is")
  obtain idx where idx: "BRBloomFilterHash f d (of_nat i) = Some idx"
    using Cons.prems by (simp add: BRBloomFilterHash_def)
  define g where "g = f\<lparr>bf_filter :=
     (bf_filter f)[idx div 8 := bf_filter f ! (idx div 8) OR push_bit (idx mod 8) 1]\<rparr>"
  have le: "bloom_le f g" and b: "fbit (bf_filter g) idx"
    using fbit_set [OF hash_less [OF idx]] by (simp_all add: bloom_le_def g_def)
  have ne: "bf_filter g \<noteq> []" using Cons.prems by (simp add: g_def)
  obtain f' where f': "insert_loop g d is = Some f'" "bloom_le g f'" "bf_elemCount f' = bf_elemCount g"
      "\<forall>i\<in>set is. \<exists>idx. BRBloomFilterHash g d (of_nat i) = Some idx \<and> fbit (bf_filter f') idx"
    using Cons.IH [OF ne] by blast
  have "fbit (bf_filter f') idx"
    using f'(2) b hash_less [OF idx] by (simp add: bloom_le_def g_def)
  moreover have "insert_loop f d (i # is) = Some f'" using idx f'(1) by (simp add: g_def)
  moreover have "bf_elemCount f' = bf_elemCount f" using f'(3) by (simp add: g_def)
  ultimately show ?case
    using idx f'(4) bloom_le_trans [OF le f'(2)] bloom_le_hash [OF le] by auto
qed simp

lemma contains_loop_iff:
  assumes "bf_filter f \<noteq> []"
  shows "contains_loop f d is = Some (\<forall>i\<in>set is.
    \<exists>idx. BRBloomFilterHash f d (of_nat i) = Some idx \<and> fbit (bf_filter f) idx)"
  using assms
  by (induction "is") (auto simp: BRBloomFilterHash_def Let_def and_exp_eq_0_iff_not_bit fbit_def)

lemma insert_ok:
  assumes "bf_filter f \<noteq> []"
  obtains f' where "BRBloomFilterInsertData f (Some d) = Some f'" "bloom_le f f'"
    "bf_elemCount f' = bf_elemCount f + 1" "BRBloomFilterContainsData f' (Some d) = Some True"
proof -
  obtain g where g: "insert_loop f d [0..<unat (bf_hashFuncs f)] = Some g" "bloom_le f g"
      "bf_elemCount g = bf_elemCount f"
      "\<forall>i\<in>set [0..<unat (bf_hashFuncs f)]. \<exists>idx. BRBloomFilterHash f d (of_nat i) = Some idx \<and>
         fbit (bf_filter g) idx"
    using insert_loop_ok [OF assms] by blast
  define f' where "f' = g\<lparr>bf_elemCount := bf_elemCount g + 1\<rparr>"
  have le: "bloom_le f f'" using g(2) by (simp add: bloom_le_def f'_def)
  have "bf_filter f' \<noteq> []" "bf_hashFuncs f' = bf_hashFuncs f" "bf_filter f' = bf_filter g"
    using assms le by (auto simp: bloom_le_def f'_def)
  then have "BRBloomFilterContainsData f' (Some d) = Some True"
    using g(4) bloom_le_hash [OF le] by (simp add: BRBloomFilterContainsData_def contains_loop_iff)
  moreover have "BRBloomFilterInsertData f (Some d) = Some f'"
    using g(1) by (simp add: BRBloomFilterInsertData_def f'_def)
  ultimately show ?thesis using that le g(3) by (simp add: f'_def)
qed

lemma contains_mono:
  assumes "bloom_le f g" "bf_filter f \<noteq> []" "BRBloomFilterContainsData f d = Some True"
  shows "BRBloomFilterContainsData g d = Some True"
proof -
  have "bf_filter g \<noteq> []" "bf_hashFuncs g = bf_hashFuncs f"
    using assms(1,2) by (auto simp: bloom_le_def)
  moreover have "fbit (bf_filter f) idx \<Longrightarrow> fbit (bf_filter g) idx"
    if "BRBloomFilterHash f x i = Some idx" for x i idx
    using assms(1) hash_less [OF that] by (simp add: bloom_le_def)
  ultimately show ?thesis
    using assms bloom_le_hash [OF assms(1)]
    by (fastforce simp: BRBloomFilterContainsData_def contains_loop_iff split: option.splits)
qed

section \<open>Serialization\<close>

definition bloom_enc :: "BRBloomFilter \<Rightarrow> bytes" where
  "bloom_enc f = varint_enc (of_nat (length (bf_filter f))) @ bf_filter f @
     UInt32SetLE (bf_hashFuncs f) @ UInt32SetLE (bf_tweak f) @ [bf_flags f]"

lemma serializes_bloom: "serializes (BRBloomFilterSerialize f) (bloom_enc f)"
proof -
  let ?g = "\<lambda>s. emit [bf_flags f] (emit (UInt32SetLE (bf_tweak f)) (emit (UInt32SetLE (bf_hashFuncs f))
      (emit (bf_filter f) (at_off (BRVarIntSet (of_nat (length (bf_filter f)))) s))))"
  have "appends ?g ((((varint_enc (of_nat (length (bf_filter f))) @ bf_filter f) @
      UInt32SetLE (bf_hashFuncs f)) @ UInt32SetLE (bf_tweak f)) @ [bf_flags f])"
    by (intro appends_comp appends_at_off appends_emit serializes_varint)
  then have "appends ?g (bloom_enc f)" by (simp add: bloom_enc_def)
  from appendsD [OF this, of _ "[]"] show ?thesis
    by (auto simp: serializes_def BRBloomFilterSerialize_def Let_def bloom_enc_def)
qed

text \<open>A filter as it is sent: the count of inserted elements stays with the sender.\<close>

definition bloom_sendable :: "BRBloomFilter \<Rightarrow> bool" where
  "bloom_sendable f \<longleftrightarrow> bloom_wf f \<and> bf_elemCount f = 0"

lemma bloom_parse_enc:
  assumes "length (bf_filter f) \<le> BLOOM_MAX_FILTER_LENGTH"
  shows "BRBloomFilterParse (bloom_enc f @ t) = Some (f\<lparr>bf_elemCount := 0\<rparr>)"
proof -
  let ?n = "length (bf_filter f)" and ?v = "varint_enc (of_nat (length (bf_filter f)))"
  have n: "unat (of_nat ?n :: u64) = ?n"
    using assms by (simp add: unat_of_nat BLOOM_MAX_FILTER_LENGTH_def)
  have v: "BRVarInt (bloom_enc f @ t) = (of_nat ?n, length ?v)"
    using varint_read [of "of_nat ?n"] by (simp add: bloom_enc_def)
  have d: "drop (length ?v) (bloom_enc f @ t) =
      bf_filter f @ UInt32SetLE (bf_hashFuncs f) @ UInt32SetLE (bf_tweak f) @ bf_flags f # t"
    "drop (length ?v + ?n) (bloom_enc f @ t) =
      UInt32SetLE (bf_hashFuncs f) @ UInt32SetLE (bf_tweak f) @ bf_flags f # t"
    "drop (length ?v + ?n + 4) (bloom_enc f @ t) = UInt32SetLE (bf_tweak f) @ bf_flags f # t"
    "(bloom_enc f @ t) ! (length ?v + ?n + 4 + 4) = bf_flags f"
    "length (bloom_enc f @ t) = length ?v + ?n + 9 + length t"
    by (simp_all add: bloom_enc_def nth_append)
  show ?thesis
    using n v assms d by (simp add: BRBloomFilterParse_def Let_def)
qed

interpretation bloom: codec BRBloomFilterSerialize bloom_enc bloom_sendable BRBloomFilterParse
  by unfold_locales (simp_all add: serializes_bloom bloom_parse_enc bloom_sendable_def bloom_wf_def)

section \<open>Properties\<close>

text \<open>The insertions of a sequence of items.\<close>

fun insert_all :: "BRBloomFilter \<Rightarrow> bytes list \<Rightarrow> BRBloomFilter option" where
  "insert_all f [] = Some f"
| "insert_all f (d # ds) =
     (case BRBloomFilterInsertData f (Some d) of None \<Rightarrow> None | Some f' \<Rightarrow> insert_all f' ds)"

lemma insert_all_ok:
  assumes "bf_filter f \<noteq> []"
  shows "\<exists>f'. insert_all f ds = Some f' \<and> bloom_le f f' \<and>
    (\<forall>d\<in>set ds. BRBloomFilterContainsData f' (Some d) = Some True)"
  using assms
proof (induction ds arbitrary: f)
  case (Cons d ds)
  obtain g where g: "BRBloomFilterInsertData f (Some d) = Some g" "bloom_le f g"
      "BRBloomFilterContainsData g (Some d) = Some True"
    using insert_ok [OF Cons.prems] by blast
  then have ne: "bf_filter g \<noteq> []" using Cons.prems by (auto simp: bloom_le_def)
  obtain f' where f': "insert_all g ds = Some f'" "bloom_le g f'"
      "\<forall>d\<in>set ds. BRBloomFilterContainsData f' (Some d) = Some True"
    using Cons.IH [OF ne] by blast
  then show ?case
    using g bloom_le_trans [OF g(2) f'(2)] contains_mono [OF f'(2) ne] by auto
qed simp

text \<open>
  C34: a filter made by \<open>BRBloomFilterNew\<close> has no false negatives: whatever items are inserted, the
  insertions succeed and afterwards the filter matches every one of them. The filter keeps a length
  between 1 and 36000 bytes.
\<close>

theorem bloom_no_false_negatives:
  "\<exists>f. insert_all (BRBloomFilterNew rateTiny len funcs tweak flags) ds = Some f \<and> bloom_wf f \<and>
     (\<forall>d\<in>set ds. BRBloomFilterContainsData f (Some d) = Some True)"
proof -
  define f0 where "f0 = BRBloomFilterNew rateTiny len funcs tweak flags"
  have wf: "bloom_wf f0"
    by (simp add: f0_def BRBloomFilterNew_def bloom_wf_def BLOOM_MAX_FILTER_LENGTH_def Let_def)
  then have "bf_filter f0 \<noteq> []" by (auto simp: bloom_wf_def)
  from insert_all_ok [OF this, of ds] wf show ?thesis
    by (auto simp: f0_def [symmetric] bloom_wf_def bloom_le_def)
qed

theorem bloom_no_false_negatives_witness:
  "\<exists>f. insert_all (BRBloomFilterNew False 3 (\<lambda>_. 11) 7 0) [[1, 2], [3]] = Some f \<and>
     BRBloomFilterContainsData f (Some [3]) = Some True"
  using bloom_no_false_negatives [of False 3 "\<lambda>_. 11" 7 0 "[[1, 2], [3]]"] by auto

text \<open>
  A serialized filter is parsed back with all its fields, whatever follows it in the message;
  the parsed filter therefore matches the same data.
\<close>

theorem bloom_round_trip:
  assumes "bloom_wf f" "length b = snd (BRBloomFilterSerialize f None)"
  shows "\<exists>b' f'. BRBloomFilterSerialize f (Some b) = (Some b', length b) \<and>
    BRBloomFilterParse (b' @ t) = Some f' \<and> f' = f\<lparr>bf_elemCount := 0\<rparr> \<and>
    (\<forall>d. BRBloomFilterContainsData f' d = BRBloomFilterContainsData f d)"
proof -
  have "BRBloomFilterSerialize f (Some b) = (Some (bloom_enc f), length b)"
    using serializes_bloom [of f] assms(2) by (simp add: serializes_def)
  moreover have "contains_loop (f\<lparr>bf_elemCount := 0\<rparr>) d is = contains_loop f d is" for d "is"
    by (induction "is") (auto simp: BRBloomFilterHash_def Let_def)
  ultimately show ?thesis
    using assms(1) bloom_parse_enc [of f t]
    by (auto simp: bloom_wf_def BRBloomFilterContainsData_def split: option.splits)
qed

theorem bloom_round_trip_witness:
  "BRBloomFilterParse ([2, 0xab, 0xcd, 11, 0, 0, 0, 7, 0, 0, 0, 1] @ [9]) =
     Some \<lparr>bf_filter = [0xab, 0xcd], bf_hashFuncs = 11, bf_elemCount = 0, bf_tweak = 7, bf_flags = 1\<rparr>"
proof -
  define f where "f = \<lparr>bf_filter = [0xab, 0xcd], bf_hashFuncs = 11, bf_elemCount = 3, bf_tweak = 7, bf_flags = 1\<rparr>"
  have "bloom_wf f" by (simp add: f_def bloom_wf_def BLOOM_MAX_FILTER_LENGTH_def)
  moreover have q: "snd (BRBloomFilterSerialize f None) = 12" by (simp add: f_def BRBloomFilterSerialize_def varint_enc_def)
  moreover have "BRBloomFilterSerialize f (Some (replicate 12 0)) =
      (Some [2, 0xab, 0xcd, 11, 0, 0, 0, 7, 0, 0, 0, 1], 12)"
    unfolding f_def by code_simp
  ultimately show ?thesis using bloom_round_trip [of f "replicate 12 0" "[9]"] by (simp add: f_def)
qed

text \<open>
  \<open>BRBloomFilterParse\<close> accepts a filter of length 0, with which every query that evaluates a
  hash divides by zero.
\<close>

theorem bloom_parse_empty_filter:
  assumes "n \<noteq> 0"
  shows "\<exists>f. BRBloomFilterParse (0 # UInt32SetLE n @ UInt32SetLE tweak @ [flags]) = Some f \<and>
    BRBloomFilterContainsData f (Some d) = None \<and> BRBloomFilterInsertData f (Some d) = None"
proof -
  define f where "f = \<lparr>bf_filter = [], bf_hashFuncs = n, bf_elemCount = 0, bf_tweak = tweak, bf_flags = flags\<rparr>"
  have "bloom_enc f = 0 # UInt32SetLE n @ UInt32SetLE tweak @ [flags]"
    by (simp add: bloom_enc_def f_def varint_enc_def)
  moreover have "[0..<unat n] = 0 # [1..<unat n]" using assms by (simp add: upt_rec unat_gt_0)
  ultimately show ?thesis
    using bloom_parse_enc [of f "[]"]
    by (auto simp: f_def BRBloomFilterContainsData_def BRBloomFilterInsertData_def BRBloomFilterHash_def)
qed

theorem bloom_parse_empty_filter_witness:
  "\<exists>f. BRBloomFilterParse [0, 1, 0, 0, 0, 0, 0, 0, 0, 0] = Some f \<and> BRBloomFilterContainsData f (Some [1]) = None"
  using bloom_parse_empty_filter [of 1 0 0 "[1]"] by (auto simp: UInt32SetLE_def)

end
