(* ===== verification/Reader.thy ===== *)
theory Reader
  imports BRAddress
begin

text \<open>
  The reads of the parsers \<open>BRTransactionParse\<close> and \<open>BRMerkleBlockParse\<close>: guarded reads of integers,
  of variable length integers and of byte arrays at a \<open>size_t\<close> offset, and what they give on the
  encodings of the other theories.
\<close>

text \<open>
  Offsets are \<open>size_t\<close> values that wrap, as the lengths on the wire are not bounded. A guarded read
  of \<open>n\<close> bytes: the guard is the code's \<open>off + n <= bufLen\<close>, and a read it lets through outside the
  buffer is undefined.
\<close>

definition guarded :: "bytes \<Rightarrow> u64 \<Rightarrow> nat \<Rightarrow> (bytes \<Rightarrow> 'a) \<Rightarrow> 'a \<Rightarrow> 'a option" where
  "guarded buf off n get zero =
     (if off + of_nat n \<le> of_nat (length buf) then
        (if unat off + n \<le> length buf then Some (get (drop (unat off) buf)) else None)
      else Some zero)"

definition varint_at :: "bytes \<Rightarrow> u64 \<Rightarrow> u64 \<times> u64" where
  "varint_at buf off = (case BRVarInt (drop (unat off) buf) of (v, n) \<Rightarrow> (v, of_nat n))"

text \<open>The \<open>sLen\<close> bytes at \<open>off\<close>, when the code copies them.\<close>

definition slice :: "bytes \<Rightarrow> u64 \<Rightarrow> u64 \<Rightarrow> bytes option" where
  "slice buf off sLen =
     (if unat off + unat sLen \<le> length buf then Some (take (unat sLen) (drop (unat off) buf)) else None)"

section \<open>Reads of encodings\<close>

text \<open>Buffers of a size that can exist.\<close>

definition sizable :: "bytes \<Rightarrow> bool" where
  "sizable buf \<longleftrightarrow> length buf < 2 ^ 63"

lemma u64_nat: "n < 2 ^ 64 \<Longrightarrow> unat (of_nat n :: u64) = n"
  by (simp add: unat_of_nat)

lemma u64_le: "m < 2 ^ 64 \<Longrightarrow> n < 2 ^ 64 \<Longrightarrow> (of_nat m :: u64) \<le> of_nat n \<longleftrightarrow> m \<le> n"
  by (simp add: word_le_nat_alt u64_nat)

lemma guarded_at:
  assumes "sizable buf" "buf = a @ e @ t" "n = length e"
  shows "guarded buf (of_nat (length a)) n get z = Some (get (e @ t))"
proof -
  have "length a + n \<le> length buf" "length a + n < 2 ^ 64" "length buf < 2 ^ 64" "length a < 2 ^ 64"
    using assms by (auto simp: sizable_def)
  then show ?thesis
    using assms(2) u64_le [of "length a + n" "length buf"] u64_nat [of "length a"] by (simp add: guarded_def)
qed

lemma varint_at_enc:
  assumes "sizable buf" "buf = a @ varint_enc v @ t"
  shows "varint_at buf (of_nat (length a)) = (v, of_nat (length (varint_enc v)))"
proof -
  have "unat (of_nat (length a) :: u64) = length a"
    using assms by (intro u64_nat) (auto simp: sizable_def)
  then show ?thesis using assms(2) varint_read [of v t] by (simp add: varint_at_def)
qed

lemma slice_at:
  assumes "sizable buf" "buf = a @ s @ t"
  shows "slice buf (of_nat (length a)) (of_nat (length s)) = Some s"
    and "(of_nat (length a) + of_nat (length s) :: u64) \<le> of_nat (length buf)"
proof -
  have n: "unat (of_nat (length a) :: u64) = length a" "unat (of_nat (length s) :: u64) = length s"
    using assms by (auto intro!: u64_nat simp: sizable_def)
  then show "slice buf (of_nat (length a)) (of_nat (length s)) = Some s"
    using assms(2) by (simp add: slice_def)
  show "(of_nat (length a) + of_nat (length s) :: u64) \<le> of_nat (length buf)"
    using assms u64_le [of "length a + length s" "length buf"] by (simp add: sizable_def)
qed

end
