(* ===== verification/BRSet.thy ===== *)
theory BRSet
  imports Prelude "HOL-Library.Monad_Syntax"
begin

text \<open>
  \<open>src/Modules/core/BRSet.c\<close>: the linear probed hash table.

  Items are pointers, which the model has as values of a type \<open>'p\<close>; a bucket is \<open>None\<close> when the
  pointer in it is null, and \<open>size\<close> is the length of the table. A result \<open>None\<close> of an operation
  says that the C function does not return: it probes forever, or it works on the table that
  \<open>_BRSetInit\<close> does not allocate when the requested capacity is beyond its list of sizes.
\<close>

definition tableSizes :: "nat list" where
  "tableSizes = [
    1, 3, 7, 13, 23, 37, 59, 97, 149, 227, 347, 523, 787, 1187, 1783, 2677, 4019, 6037, 9059, 13591,
    20389, 30593, 45887, 68863, 103307, 154981, 232487, 348739, 523129, 784697, 1177067, 1765609,
    2648419, 3972643, 5958971, 8938469, 13407707, 20111563, 30167359, 45251077, 67876637, 101814991,
    152722489, 229083739, 343625629, 515438447, 773157683, 1159736527, 1739604799, 2609407319, 3914111041]"

record 'p BRSet =
  table :: "'p option list"
  itemCount :: nat
  set_hash :: "'p \<Rightarrow> nat"
  set_eq :: "'p \<Rightarrow> 'p \<Rightarrow> bool"

abbreviation size_of :: "'p BRSet \<Rightarrow> nat" where "size_of st \<equiv> length (table st)"

section \<open>Operations\<close>

definition BRSetInit :: "('p \<Rightarrow> nat) \<Rightarrow> ('p \<Rightarrow> 'p \<Rightarrow> bool) \<Rightarrow> nat \<Rightarrow> 'p BRSet option" where
  "BRSetInit hash eq capacity =
     (let i = length (takeWhile (\<lambda>s. s < capacity) tableSizes)
      in if i + 1 < length tableSizes
         then Some \<lparr>table = replicate (tableSizes ! (i + 1)) None, itemCount = 0,
                    set_hash = hash, set_eq = eq\<rparr>
         else None)"

definition BRSetNew :: "('p \<Rightarrow> nat) \<Rightarrow> ('p \<Rightarrow> 'p \<Rightarrow> bool) \<Rightarrow> nat \<Rightarrow> 'p BRSet option" where
  "BRSetNew hash eq capacity = BRSetInit hash eq capacity"

text \<open>The probe loop shared by all operations: the bucket at which it stops.\<close>

partial_function (option) probe :: "'p BRSet \<Rightarrow> 'p \<Rightarrow> nat \<Rightarrow> nat option" where
  "probe st item i =
     (case table st ! i of
        None \<Rightarrow> Some i
      | Some t \<Rightarrow> if t = item \<or> set_eq st t item then Some i
                 else probe st item ((i + 1) mod size_of st))"

definition BRSetGet :: "'p BRSet \<Rightarrow> 'p \<Rightarrow> 'p option option" where
  "BRSetGet st item = do {
     i \<leftarrow> probe st item (set_hash st item mod size_of st);
     Some (table st ! i) }"

text \<open>
  \<open>BRSetAdd\<close>, \<open>_BRSetGrow\<close> and \<open>BRSetUnion\<close> call each other. The first argument bounds the
  nesting of rebuilds; two levels are enough, since the insertions of a rebuild never rebuild.
\<close>

fun set_add :: "nat \<Rightarrow> 'p BRSet \<Rightarrow> 'p \<Rightarrow> ('p BRSet \<times> 'p option) option" where
  "set_add 0 st item = None"
| "set_add (Suc n) st item = do {
     let size = size_of st;
     i \<leftarrow> probe st item (set_hash st item mod size);
     let t = table st ! i;
     let count = (if t = None then itemCount st + 1 else itemCount st);
     let st1 = st\<lparr>table := (table st)[i := Some item], itemCount := count\<rparr>;
     st2 \<leftarrow> (if count > ((size + 2) div 3) * 2
             then do {
               new0 \<leftarrow> BRSetInit (set_hash st) (set_eq st) size;
               new \<leftarrow> foldl (\<lambda>acc b. do {
                   s \<leftarrow> acc;
                   (case b of None \<Rightarrow> Some s | Some x \<Rightarrow> map_option fst (set_add n s x)) })
                 (Some new0) (table st1);
               Some (st1\<lparr>table := table new, itemCount := itemCount new\<rparr>) }
             else Some st1);
     Some (st2, t) }"

definition BRSetAdd :: "'p BRSet \<Rightarrow> 'p \<Rightarrow> ('p BRSet \<times> 'p option) option" where
  "BRSetAdd = set_add 2"

definition BRSetUnion :: "'p BRSet \<Rightarrow> 'p BRSet \<Rightarrow> 'p BRSet option" where
  "BRSetUnion st otherSet =
     foldl (\<lambda>acc b. do {
         s \<leftarrow> acc;
         (case b of None \<Rightarrow> Some s | Some x \<Rightarrow> map_option fst (BRSetAdd s x)) })
       (Some st) (table otherSet)"

definition BRSetGrow :: "'p BRSet \<Rightarrow> nat \<Rightarrow> 'p BRSet option" where
  "BRSetGrow st capacity = do {
     new0 \<leftarrow> BRSetInit (set_hash st) (set_eq st) capacity;
     new \<leftarrow> BRSetUnion new0 st;
     Some (st\<lparr>table := table new, itemCount := itemCount new\<rparr>) }"

text \<open>The clean-up loop of \<open>BRSetRemove\<close>.\<close>

partial_function (option) cleanup :: "nat \<Rightarrow> 'p BRSet \<Rightarrow> nat \<Rightarrow> 'p BRSet option" where
  "cleanup sz st i =
     (case table st ! i of
        None \<Rightarrow> Some st
      | Some t \<Rightarrow>
          Option.bind (BRSetAdd (st\<lparr>table := (table st)[i := None], itemCount := itemCount st - 1\<rparr>) t)
            (\<lambda>r. cleanup sz (fst r) ((i + 1) mod sz)))"

definition BRSetRemove :: "'p BRSet \<Rightarrow> 'p \<Rightarrow> ('p BRSet \<times> 'p option) option" where
  "BRSetRemove st item = do {
     let size = size_of st;
     i \<leftarrow> probe st item (set_hash st item mod size);
     let r = table st ! i;
     if r = None then Some (st, None)
     else do {
       let st1 = st\<lparr>table := (table st)[i := None], itemCount := itemCount st - 1\<rparr>;
       st2 \<leftarrow> cleanup size st1 ((i + 1) mod size);
       Some (st2, r) } }"

definition BRSetClear :: "'p BRSet \<Rightarrow> 'p BRSet" where
  "BRSetClear st = st\<lparr>table := replicate (size_of st) None, itemCount := 0\<rparr>"

definition BRSetCount :: "'p BRSet \<Rightarrow> nat" where
  "BRSetCount st = itemCount st"

definition BRSetContains :: "'p BRSet \<Rightarrow> 'p \<Rightarrow> bool option" where
  "BRSetContains st item = map_option (\<lambda>t. t \<noteq> None) (BRSetGet st item)"

fun intersects_loop :: "'p BRSet \<Rightarrow> 'p option list \<Rightarrow> bool option" where
  "intersects_loop st [] = Some False"
| "intersects_loop st (None # bs) = intersects_loop st bs"
| "intersects_loop st (Some t # bs) =
     (case BRSetGet st t of
        None \<Rightarrow> None
      | Some (Some _) \<Rightarrow> Some True
      | Some None \<Rightarrow> intersects_loop st bs)"

definition BRSetIntersects :: "'p BRSet \<Rightarrow> 'p BRSet \<Rightarrow> bool option" where
  "BRSetIntersects st otherSet = intersects_loop st (table otherSet)"

text \<open>The first item in the buckets from \<open>i\<close> on.\<close>

definition next_item :: "'p BRSet \<Rightarrow> nat \<Rightarrow> 'p option" where
  "next_item st i = (case dropWhile (\<lambda>b. b = None) (drop i (table st)) of [] \<Rightarrow> None | b # _ \<Rightarrow> b)"

definition BRSetIterate :: "'p BRSet \<Rightarrow> 'p option \<Rightarrow> 'p option option" where
  "BRSetIterate st previous =
     (case previous of
        None \<Rightarrow> Some (next_item st 0)
      | Some p \<Rightarrow> do {
          i \<leftarrow> probe st p (set_hash st p mod size_of st);
          Some (next_item st (i + 1)) })"

definition BRSetAll :: "'p BRSet \<Rightarrow> nat \<Rightarrow> 'p list" where
  "BRSetAll st count = take count (map the (filter (\<lambda>b. b \<noteq> None) (table st)))"

definition BRSetApply :: "'p BRSet \<Rightarrow> 's \<Rightarrow> ('s \<Rightarrow> 'p \<Rightarrow> 's) \<Rightarrow> 's" where
  "BRSetApply st info apply =
     foldl (\<lambda>s b. case b of None \<Rightarrow> s | Some t \<Rightarrow> apply s t) info (table st)"

definition BRSetMinus :: "'p BRSet \<Rightarrow> 'p BRSet \<Rightarrow> 'p BRSet option" where
  "BRSetMinus st otherSet =
     foldl (\<lambda>acc b. do {
         s \<leftarrow> acc;
         (case b of None \<Rightarrow> Some s | Some x \<Rightarrow> map_option fst (BRSetRemove s x)) })
       (Some st) (table otherSet)"

partial_function (option) intersect_loop :: "'p BRSet \<Rightarrow> 'p BRSet \<Rightarrow> nat \<Rightarrow> 'p BRSet option" where
  "intersect_loop st otherSet i =
     (if i < size_of st then
        case table st ! i of
          None \<Rightarrow> intersect_loop st otherSet (i + 1)
        | Some t \<Rightarrow>
            Option.bind (BRSetContains otherSet t) (\<lambda>c.
              if \<not> c then Option.bind (BRSetRemove st t) (\<lambda>r. intersect_loop (fst r) otherSet i)
              else intersect_loop st otherSet (i + 1))
      else Some st)"

definition BRSetIntersect :: "'p BRSet \<Rightarrow> 'p BRSet \<Rightarrow> 'p BRSet option" where
  "BRSetIntersect st otherSet = intersect_loop st otherSet 0"

section \<open>Cyclic positions\<close>

lemma slot_exists:
  assumes "i < n" "p < (n :: nat)"
  obtains e where "e < n" "(i + e) mod n = p"
proof
  show "(p + n - i) mod n < n" using assms by simp
  have "(i + (p + n - i) mod n) mod n = (i + (p + n - i)) mod n" by presburger
  also have "i + (p + n - i) = p + n" using assms by simp
  finally show "(i + (p + n - i) mod n) mod n = p" using assms by simp
qed

lemma slot_step: "((i + 1) mod n + k) mod n = (i + Suc k) mod (n :: nat)"
  by (simp add: mod_add_left_eq)

lemma slot_ne:
  assumes "i < n" "0 < k" "k < (n :: nat)"
  shows "(i + k) mod n \<noteq> i"
proof (cases "i + k < n")
  case False
  then have "(i + k) mod n = i + k - n" using assms by (simp add: mod_if)
  then show ?thesis using assms False by linarith
qed (use assms in simp)

section \<open>Tables\<close>

definition items :: "'p option list \<Rightarrow> 'p set" where
  "items T = {t. Some t \<in> set T}"

definition occ :: "'p option list \<Rightarrow> nat set" where
  "occ T = {j. j < length T \<and> T ! j \<noteq> None}"

text \<open>The buckets from the hash of \<open>t\<close> up to bucket \<open>j\<close> are taken, so a probe for \<open>t\<close> gets to \<open>j\<close>.\<close>

definition path_ok :: "('p \<Rightarrow> nat) \<Rightarrow> 'p option list \<Rightarrow> nat \<Rightarrow> 'p \<Rightarrow> bool" where
  "path_ok h T j t \<longleftrightarrow> (\<exists>d<length T. (h t + d) mod length T = j \<and>
     (\<forall>k<d. T ! ((h t + k) mod length T) \<noteq> None))"

text \<open>Bucket \<open>j\<close> is in the run of taken buckets that starts at \<open>i\<close>.\<close>

definition run :: "'p option list \<Rightarrow> nat \<Rightarrow> nat \<Rightarrow> bool" where
  "run T i j \<longleftrightarrow> (\<exists>e<length T. (i + e) mod length T = j \<and>
     (\<forall>k\<le>e. T ! ((i + k) mod length T) \<noteq> None))"

definition all_distinct :: "('p \<Rightarrow> 'p \<Rightarrow> bool) \<Rightarrow> 'p option list \<Rightarrow> bool" where
  "all_distinct eq T \<longleftrightarrow> (\<forall>i<length T. \<forall>j<length T. \<forall>s t.
     T ! i = Some s \<and> T ! j = Some t \<and> eq s t \<longrightarrow> i = j)"

definition table_ok :: "('p \<Rightarrow> nat) \<Rightarrow> ('p \<Rightarrow> 'p \<Rightarrow> bool) \<Rightarrow> 'p option list \<Rightarrow> bool" where
  "table_ok h eq T \<longleftrightarrow> all_distinct eq T \<and> (\<forall>j<length T. \<forall>t. T ! j = Some t \<longrightarrow> path_ok h T j t)"

lemma items_nth: "t \<in> items T \<longleftrightarrow> (\<exists>j<length T. T ! j = Some t)"
  by (auto simp: items_def in_set_conv_nth)

lemma finite_occ [simp]: "finite (occ T)"
  by (rule finite_subset [of _ "{..<length T}"]) (auto simp: occ_def)

lemma card_occ_less:
  assumes "card (occ T) < length T"
  obtains p where "p < length T" "T ! p = None"
proof -
  have "occ T \<noteq> {..<length T}"
  proof
    assume "occ T = {..<length T}"
    then have "card (occ T) = length T" by simp
    then show False using assms by simp
  qed
  moreover have "occ T \<subseteq> {..<length T}" by (auto simp: occ_def)
  ultimately obtain p where "p < length T" "p \<notin> occ T" by blast
  then show ?thesis using that by (auto simp: occ_def)
qed

lemma card_occ_update:
  assumes "i < length T"
  shows "card (occ (T[i := Some x])) = (if T ! i = None then card (occ T) + 1 else card (occ T))"
    and "card (occ (T[i := None])) = (if T ! i = None then card (occ T) else card (occ T) - 1)"
proof -
  have "occ (T[i := Some x]) = insert i (occ T)" "occ (T[i := None]) = occ T - {i}"
    using assms by (auto simp: occ_def nth_list_update)
  moreover have "i \<in> occ T \<longleftrightarrow> T ! i \<noteq> None" using assms by (simp add: occ_def)
  ultimately show "card (occ (T[i := Some x])) = (if T ! i = None then card (occ T) + 1 else card (occ T))"
    "card (occ (T[i := None])) = (if T ! i = None then card (occ T) else card (occ T) - 1)"
    by (simp_all add: insert_absorb)
qed

lemma first_free:
  assumes "card (occ T) < length T" "i < length T"
  obtains E where "E < length T" "T ! ((i + E) mod length T) = None"
    "\<forall>k<E. T ! ((i + k) mod length T) \<noteq> None"
proof -
  let ?P = "\<lambda>e. T ! ((i + e) mod length T) = None"
  obtain p where p: "p < length T" "T ! p = None" using assms(1) by (rule card_occ_less)
  obtain e where e: "e < length T" "(i + e) mod length T = p" using slot_exists [OF assms(2) p(1)] by blast
  then have "?P e" using p(2) by simp
  then have "?P (LEAST e. ?P e)" by (rule LeastI)
  moreover have "(LEAST e. ?P e) \<le> e" using \<open>?P e\<close> by (rule Least_le)
  then have "(LEAST e. ?P e) < length T" using e(1) by simp
  moreover have "\<forall>k<LEAST e. ?P e. T ! ((i + k) mod length T) \<noteq> None" by (intro allI impI not_less_Least)
  ultimately show ?thesis using that by blast
qed

lemma nth_clear: "i < length T \<Longrightarrow> T[i := None] ! j = Some t \<longleftrightarrow> j \<noteq> i \<and> T ! j = Some t"
  by (cases "j = i") auto

lemma distinct_clear: "all_distinct eq T \<Longrightarrow> i < length T \<Longrightarrow> all_distinct eq (T[i := None])"
  unfolding all_distinct_def by (simp add: nth_clear)

lemma items_clear:
  assumes "all_distinct eq T" "eq r r" "i < length T" "T ! i = Some r"
  shows "items (T[i := None]) = items T - {r}"
proof -
  have "(\<exists>j<length T. j \<noteq> i \<and> T ! j = Some t) \<longleftrightarrow> (\<exists>j<length T. T ! j = Some t) \<and> t \<noteq> r" for t
    using assms unfolding all_distinct_def by (metis option.inject)
  then show ?thesis using assms(3) by (auto simp: items_nth nth_clear)
qed

lemma occ_fill: "q < length T \<Longrightarrow> occ (T[q := Some t]) = insert q (occ T)"
  by (auto simp: occ_def nth_list_update)

lemma items_fill:
  assumes "q < length T" "T ! q = None"
  shows "items (T[q := Some t]) = insert t (items T)"
proof -
  have "(\<exists>j<length T. T[q := Some t] ! j = Some u) \<longleftrightarrow> u = t \<or> (\<exists>j<length T. T ! j = Some u)" for u
    using assms by (metis nth_list_update option.distinct(1) option.inject)
  then show ?thesis by (auto simp: items_nth)
qed

lemma distinct_fill:
  assumes "all_distinct eq T" "q < length T" "\<forall>u\<in>items T. \<not> eq u t \<and> \<not> eq t u"
  shows "all_distinct eq (T[q := Some t])"
  unfolding all_distinct_def
proof (intro allI impI, elim conjE)
  fix a b u v
  assume *: "a < length (T[q := Some t])" "b < length (T[q := Some t])"
    "T[q := Some t] ! a = Some u" "T[q := Some t] ! b = Some v" "eq u v"
  then have "a \<noteq> q \<Longrightarrow> T ! a = Some u \<and> u \<in> items T" "b \<noteq> q \<Longrightarrow> T ! b = Some v \<and> v \<in> items T"
    by (auto simp: items_nth)
  note old = this
  show "a = b"
  proof (cases "a = q \<or> b = q")
    case True
    then show ?thesis using old * assms(2,3) by (cases "a = q"; cases "b = q") auto
  next
    case False
    then have "T ! a = Some u" "T ! b = Some v" using old by auto
    then show ?thesis using assms(1) * unfolding all_distinct_def by simp
  qed
qed

lemma occ_clear: "i < length T \<Longrightarrow> occ (T[i := None]) \<subseteq> occ T"
  by (auto simp: occ_def nth_clear)

text \<open>Taking more buckets keeps the paths and runs.\<close>

lemma path_ok_fill: "path_ok h T j t \<Longrightarrow> q < length T \<Longrightarrow> path_ok h (T[q := Some x]) j t"
  by (auto simp: path_ok_def nth_list_update)

lemma run_fill: "run T i j \<Longrightarrow> q < length T \<Longrightarrow> run (T[q := Some x]) i j"
  by (auto simp: run_def) (metis nth_list_update_neq option.distinct(1) nth_list_update_eq)

text \<open>Emptying bucket \<open>i\<close> can break only the paths into the run that starts behind it.\<close>

lemma paths_after_clear:
  assumes i: "i < length T" and j: "j \<noteq> i" "T ! j = Some u" "j < length T"
    and ok: "path_ok h T j u \<or> run T i j"
  shows "path_ok h (T[i := None]) j u \<or> run (T[i := None]) ((i + 1) mod length T) j"
proof -
  let ?n = "length T"
  have run: "run (T[i := None]) ((i + 1) mod ?n) j"
    if e: "0 < e" "e < ?n" "(i + e) mod ?n = j" "\<forall>k. 0 < k \<and> k \<le> e \<longrightarrow> T ! ((i + k) mod ?n) \<noteq> None" for e
  proof -
    have "T[i := None] ! ((i + Suc k) mod ?n) \<noteq> None" if "k \<le> e - 1" for k
    proof -
      have "Suc k \<le> e" "Suc k < ?n" using that e(1,2) by auto
      then show ?thesis using e(4) [rule_format, of "Suc k"] slot_ne [OF i, of "Suc k"] by auto
    qed
    then have "\<forall>k\<le>e - 1. T[i := None] ! (((i + 1) mod ?n + k) mod ?n) \<noteq> None"
      unfolding slot_step by blast
    moreover have "((i + 1) mod ?n + (e - 1)) mod ?n = j"
      unfolding slot_step using e(1,3) by simp
    ultimately show ?thesis
      unfolding run_def length_list_update using e(1,2) by (intro exI [of _ "e - 1"]) auto
  qed
  from ok show ?thesis
  proof
    assume "run T i j"
    then obtain e where e: "e < ?n" "(i + e) mod ?n = j" "\<forall>k\<le>e. T ! ((i + k) mod ?n) \<noteq> None"
      by (auto simp: run_def)
    then have "0 < e" using j(1) i by (cases e) auto
    then show ?thesis using run [of e] e by blast
  next
    assume "path_ok h T j u"
    then obtain d where d: "d < ?n" "(h u + d) mod ?n = j" "\<forall>k<d. T ! ((h u + k) mod ?n) \<noteq> None"
      by (auto simp: path_ok_def)
    show ?thesis
    proof (cases "\<exists>k<d. (h u + k) mod ?n = i")
      case True
      then obtain k where k: "k < d" "(h u + k) mod ?n = i" by blast
      have shift: "(i + m) mod ?n = (h u + (k + m)) mod ?n" for m
        using k(2) by (metis add.assoc mod_add_left_eq)
      have "T ! ((i + m) mod ?n) \<noteq> None" if "0 < m" "m \<le> d - k" for m
        using that d(2,3) j(2) k(1) unfolding shift by (cases "m = d - k") auto
      moreover have "(i + (d - k)) mod ?n = j" unfolding shift using k(1) d(2) by simp
      ultimately show ?thesis using run [of "d - k"] k(1) d(1) by auto
    next
      case False
      then have "\<forall>k<d. T[i := None] ! ((h u + k) mod ?n) \<noteq> None" using d(3) by auto
      then show ?thesis using d(1,2) by (auto simp: path_ok_def)
    qed
  qed
qed

lemma run_None: "T ! i = None \<Longrightarrow> i < length T \<Longrightarrow> \<not> run T i j"
  by (auto simp: run_def)

section \<open>The laws of the hash and equality functions\<close>

text \<open>
  What \<open>BRSetNew\<close> asks of its two function arguments: equality is an equivalence, and \<^emph>\<open>any two
  items that are equal must also have identical hash values\<close>. The lemmas inside show that the
  operations refine those of a finite set of items without two equal ones.
\<close>

locale set_keys =
  fixes hash :: "'p \<Rightarrow> nat" and eq :: "'p \<Rightarrow> 'p \<Rightarrow> bool"
  assumes eq_refl: "eq x x"
    and eq_sym: "eq x y \<Longrightarrow> eq y x"
    and eq_trans: "eq x y \<Longrightarrow> eq y z \<Longrightarrow> eq x z"
    and eq_hash: "eq x y \<Longrightarrow> hash x = hash y"
begin

text \<open>A table of this set with a free bucket.\<close>

definition usable :: "'p BRSet \<Rightarrow> bool" where
  "usable st \<longleftrightarrow> set_hash st = hash \<and> set_eq st = eq \<and> card (occ (table st)) < size_of st"

definition stops :: "'p BRSet \<Rightarrow> 'p \<Rightarrow> nat \<Rightarrow> bool" where
  "stops st x j \<longleftrightarrow> (case table st ! j of None \<Rightarrow> True | Some t \<Rightarrow> eq t x)"

lemma probe_steps:
  assumes "set_eq st = eq" "i < size_of st" "stops st x ((i + d) mod size_of st)"
    "\<forall>k<d. \<not> stops st x ((i + k) mod size_of st)"
  shows "probe st x i = Some ((i + d) mod size_of st)"
  using assms(2-)
proof (induction d arbitrary: i)
  case 0
  then show ?case
    using assms(1) by (subst probe.simps) (auto simp: stops_def split: option.splits)
next
  case (Suc d)
  have "\<not> stops st x i" using Suc.prems(3) [rule_format, of 0] Suc.prems(1) by simp
  then have "probe st x i = probe st x ((i + 1) mod size_of st)"
    using assms(1) eq_refl by (subst probe.simps) (auto simp: stops_def split: option.splits)
  also have "\<dots> = Some (((i + 1) mod size_of st + d) mod size_of st)"
  proof (rule Suc.IH)
    show "(i + 1) mod size_of st < size_of st" using Suc.prems(1) by (intro mod_less_divisor) auto
    show "stops st x (((i + 1) mod size_of st + d) mod size_of st)"
      unfolding slot_step by (rule Suc.prems(2))
    show "\<forall>k<d. \<not> stops st x (((i + 1) mod size_of st + k) mod size_of st)"
      unfolding slot_step using Suc.prems(3) by blast
  qed
  finally show ?case unfolding slot_step .
qed

text \<open>
  Every probe ends: at the first bucket from the hash on that is free or holds an equal item.
\<close>

lemma probe_total:
  assumes "usable st"
  obtains d where "d < size_of st"
    "probe st x (hash x mod size_of st) = Some ((hash x + d) mod size_of st)"
    "stops st x ((hash x + d) mod size_of st)"
    "\<forall>k<d. \<not> stops st x ((hash x + k) mod size_of st)"
proof -
  let ?n = "size_of st"
  have n: "0 < ?n" using assms by (auto simp: usable_def)
  obtain p where p: "p < ?n" "table st ! p = None"
    using card_occ_less assms by (auto simp: usable_def)
  obtain e where e: "e < ?n" "(hash x mod ?n + e) mod ?n = p"
    using slot_exists [of "hash x mod ?n" ?n p] n p(1) by auto
  have eq: "(hash x mod ?n + k) mod ?n = (hash x + k) mod ?n" for k by (simp add: mod_add_left_eq)
  define d where "d = (LEAST d. stops st x ((hash x + d) mod ?n))"
  have s: "stops st x ((hash x + e) mod ?n)" using e(2) p(2) eq by (simp add: stops_def)
  then have "stops st x ((hash x + d) mod ?n)" unfolding d_def by (rule LeastI)
  moreover have "d < ?n" using Least_le [of "\<lambda>d. stops st x ((hash x + d) mod ?n)", OF s] e(1) d_def by simp
  moreover have "\<forall>k<d. \<not> stops st x ((hash x + k) mod ?n)" unfolding d_def by (auto dest: not_less_Least)
  ultimately show ?thesis
    using that probe_steps [of st "hash x mod ?n" x d] assms n
    unfolding eq by (auto simp: usable_def)
qed

definition set_ok :: "'p BRSet \<Rightarrow> bool" where
  "set_ok st \<longleftrightarrow> usable st \<and> table_ok hash eq (table st) \<and> itemCount st = card (occ (table st))"

text \<open>An equal item in the table is the one at which the probe stops.\<close>

lemma probe_finds:
  assumes ok: "set_ok st" and d: "d < size_of st" "stops st x ((hash x + d) mod size_of st)"
    "\<forall>k<d. \<not> stops st x ((hash x + k) mod size_of st)"
    and j: "j < size_of st" "table st ! j = Some t" "eq t x"
  shows "j = (hash x + d) mod size_of st"
proof -
  have "path_ok hash (table st) j t" using ok j(1,2) by (auto simp: set_ok_def table_ok_def)
  then obtain d' where d': "d' < size_of st" "(hash x + d') mod size_of st = j"
      "\<forall>k<d'. table st ! ((hash x + k) mod size_of st) \<noteq> None"
    using eq_hash [OF j(3)] by (auto simp: path_ok_def)
  have "stops st x ((hash x + d') mod size_of st)" using d'(2) j(2,3) by (simp add: stops_def)
  then have "d \<le> d'" using d(3) by (metis not_le)
  show ?thesis
  proof (cases "d = d'")
    case False
    then have lt: "d < d'" using \<open>d \<le> d'\<close> by simp
    let ?s = "(hash x + d) mod size_of st"
    obtain u where u: "table st ! ?s = Some u" using d'(3) lt by blast
    then have "eq u x" using d(2) by (simp add: stops_def)
    then have "eq u t" using eq_trans eq_sym j(3) by blast
    moreover have "?s < size_of st" using d(1) by (intro mod_less_divisor) auto
    ultimately show ?thesis
      using u j(1,2) ok unfolding set_ok_def table_ok_def all_distinct_def by metis
  qed (use d'(2) in simp)
qed

lemma get_spec:
  assumes "set_ok st"
  shows "\<exists>r. BRSetGet st x = Some r \<and> (\<forall>t. r = Some t \<longleftrightarrow> t \<in> items (table st) \<and> eq t x)"
proof -
  obtain d where d: "d < size_of st"
      "probe st x (hash x mod size_of st) = Some ((hash x + d) mod size_of st)"
      "stops st x ((hash x + d) mod size_of st)"
      "\<forall>k<d. \<not> stops st x ((hash x + k) mod size_of st)"
    using probe_total [of st x] assms by (auto simp: set_ok_def)
  let ?s = "(hash x + d) mod size_of st"
  have "BRSetGet st x = Some (table st ! ?s)"
    using d(2) assms by (simp add: BRSetGet_def set_ok_def usable_def)
  moreover have "table st ! ?s = Some t \<longleftrightarrow> t \<in> items (table st) \<and> eq t x" for t
  proof
    assume "table st ! ?s = Some t"
    moreover have "?s < size_of st" using d(1) by (intro mod_less_divisor) auto
    ultimately show "t \<in> items (table st) \<and> eq t x"
      using d(3) by (auto simp: items_nth stops_def)
  next
    assume "t \<in> items (table st) \<and> eq t x"
    then show "table st ! ?s = Some t"
      using probe_finds [OF assms d(1,3,4)] by (auto simp: items_nth)
  qed
  ultimately show ?thesis by blast
qed

text \<open>The item is stored in the bucket where its probe stops.\<close>

lemma store_ok:
  assumes ok: "set_ok st" and d: "d < size_of st" "stops st x ((hash x + d) mod size_of st)"
    "\<forall>k<d. \<not> stops st x ((hash x + k) mod size_of st)"
  defines "s \<equiv> (hash x + d) mod size_of st"
  shows "table_ok hash eq ((table st)[s := Some x])"
    and "items ((table st)[s := Some x]) = insert x {t \<in> items (table st). \<not> eq t x}"
    and "table st ! s = None \<longleftrightarrow> (\<forall>t\<in>items (table st). \<not> eq t x)"
proof -
  let ?T = "table st" and ?T' = "(table st)[s := Some x]"
  have s: "s < length ?T" unfolding s_def using d(1) by (intro mod_less_divisor) auto
  have only: "j = s" if "j < length ?T" "?T ! j = Some t" "eq t x" for j t
    unfolding s_def by (rule probe_finds [OF ok d that])
  have "path_ok hash ?T' s x"
  proof -
    have "?T ! ((hash x + k) mod length ?T) \<noteq> None" if "k < d" for k
      using d(3) that by (auto simp: stops_def split: option.splits)
    then have "path_ok hash ?T s x" using d(1) by (auto simp: path_ok_def s_def)
    then show ?thesis using s by (rule path_ok_fill)
  qed
  moreover have "path_ok hash ?T' j t" if "j < length ?T" "?T ! j = Some t" for j t
    using ok that s by (intro path_ok_fill) (auto simp: set_ok_def table_ok_def)
  ultimately have "\<forall>j<length ?T'. \<forall>t. ?T' ! j = Some t \<longrightarrow> path_ok hash ?T' j t"
    using s by (auto simp: nth_list_update)
  moreover have "all_distinct eq ?T'"
    unfolding all_distinct_def
  proof (intro allI impI, elim conjE)
    fix i j a b
    assume *: "i < length ?T'" "j < length ?T'" "?T' ! i = Some a" "?T' ! j = Some b" "eq a b"
    show "i = j"
    proof (cases "i = s \<or> j = s")
      case True
      then show ?thesis using * only eq_sym s by (auto simp: nth_list_update split: if_splits)
    next
      case False
      then have "?T ! i = Some a" "?T ! j = Some b" using * by auto
      then show ?thesis
        using * ok unfolding set_ok_def table_ok_def all_distinct_def by auto
    qed
  qed
  ultimately show "table_ok hash eq ?T'" by (simp add: table_ok_def)
  have old: "t \<in> items ?T \<and> \<not> eq t x \<longleftrightarrow> (\<exists>j<length ?T. j \<noteq> s \<and> ?T ! j = Some t)" for t
  proof
    assume "\<exists>j<length ?T. j \<noteq> s \<and> ?T ! j = Some t"
    then show "t \<in> items ?T \<and> \<not> eq t x" using only by (auto simp: items_nth)
  next
    assume t: "t \<in> items ?T \<and> \<not> eq t x"
    then obtain j where j: "j < length ?T" "?T ! j = Some t" by (auto simp: items_nth)
    have "j \<noteq> s" using t j(2) d(2) by (auto simp: s_def stops_def)
    then show "\<exists>j<length ?T. j \<noteq> s \<and> ?T ! j = Some t" using j by blast
  qed
  show "items ?T' = insert x {t \<in> items ?T. \<not> eq t x}"
  proof (intro set_eqI iffI)
    fix t assume "t \<in> items ?T'"
    then obtain j where "j < length ?T" "?T' ! j = Some t" by (auto simp: items_nth)
    then show "t \<in> insert x {t \<in> items ?T. \<not> eq t x}"
      using old [of t] by (cases "j = s") auto
  next
    fix t assume "t \<in> insert x {t \<in> items ?T. \<not> eq t x}"
    then consider "t = x" | j where "j < length ?T" "j \<noteq> s" "?T ! j = Some t" using old [of t] by auto
    then show "t \<in> items ?T'"
    proof cases
      case 1
      then show ?thesis using s by (auto simp: items_nth intro!: exI [of _ s])
    next
      case 2
      then show ?thesis by (auto simp: items_nth intro!: exI [of _ j])
    qed
  qed
  show "?T ! s = None \<longleftrightarrow> (\<forall>t\<in>items ?T. \<not> eq t x)"
  proof (cases "?T ! s")
    case None
    then show ?thesis using only by (auto simp: items_nth)
  next
    case (Some u)
    then have "eq u x" "u \<in> items ?T" using d(2) s by (auto simp: items_nth s_def [symmetric] stops_def)
    then show ?thesis using Some by auto
  qed
qed

text \<open>An insertion that stays within the load limit.\<close>

lemma add_store:
  assumes ok: "set_ok st" and lim: "itemCount st < (size_of st + 2) div 3 * 2"
    "(size_of st + 2) div 3 * 2 < size_of st"
  shows "\<exists>st' r. set_add (Suc n) st x = Some (st', r) \<and> set_ok st' \<and> size_of st' = size_of st \<and>
    items (table st') = insert x {t \<in> items (table st). \<not> eq t x} \<and>
    itemCount st' = (if r = None then itemCount st + 1 else itemCount st) \<and>
    (\<forall>t. r = Some t \<longleftrightarrow> t \<in> items (table st) \<and> eq t x)"
proof -
  obtain d where d: "d < size_of st"
      "probe st x (hash x mod size_of st) = Some ((hash x + d) mod size_of st)"
      "stops st x ((hash x + d) mod size_of st)"
      "\<forall>k<d. \<not> stops st x ((hash x + k) mod size_of st)"
    using probe_total [of st x] ok by (auto simp: set_ok_def)
  define s where "s = (hash x + d) mod size_of st"
  define st' where "st' = st\<lparr>table := (table st)[s := Some x],
      itemCount := if table st ! s = None then itemCount st + 1 else itemCount st\<rparr>"
  have s: "s < size_of st" unfolding s_def using d(1) by (intro mod_less_divisor) auto
  have h: "set_hash st = hash" "set_eq st = eq" "itemCount st = card (occ (table st))"
    using ok by (simp_all add: set_ok_def usable_def)
  note st = store_ok [OF ok d(1,3,4), folded s_def]
  have count: "itemCount st' = card (occ (table st'))"
    using card_occ_update(1) [OF s, of x] h(3) by (simp add: st'_def)
  have "itemCount st' \<le> (size_of st + 2) div 3 * 2" using lim(1) by (simp add: st'_def)
  then have "set_ok st'" using st(1) count h lim(2) by (simp add: set_ok_def usable_def st'_def)
  moreover have "set_add (Suc n) st x = Some (st', table st ! s)"
    using d(2) lim(1) h by (simp add: s_def [symmetric] st'_def Let_def)
  moreover have "table st ! s = Some t \<longleftrightarrow> t \<in> items (table st) \<and> eq t x" for t
  proof
    assume "table st ! s = Some t"
    then show "t \<in> items (table st) \<and> eq t x"
      using d(3) s by (auto simp: items_nth stops_def s_def [symmetric])
  next
    assume "t \<in> items (table st) \<and> eq t x"
    then show "table st ! s = Some t"
      using probe_finds [OF ok d(1,3,4), folded s_def] by (auto simp: items_nth)
  qed
  moreover have "items (table st') = insert x {t \<in> items (table st). \<not> eq t x}" "size_of st' = size_of st"
    using st(2) by (simp_all add: st'_def)
  ultimately show ?thesis by (auto simp: st'_def)
qed

text \<open>The insertions of a rebuild: no item of the old table is equal to another.\<close>

definition taken :: "'p option list \<Rightarrow> nat" where
  "taken bs = length (filter (\<lambda>b. b \<noteq> None) bs)"

lemma add_fold:
  assumes "set_ok st" "(size_of st + 2) div 3 * 2 < size_of st"
    "itemCount st + taken bs \<le> (size_of st + 2) div 3 * 2"
    "all_distinct eq bs" "\<forall>x\<in>items bs. \<forall>t\<in>items (table st). \<not> eq t x"
  shows "\<exists>st'. foldl (\<lambda>acc b. Option.bind acc (\<lambda>s.
        case b of None \<Rightarrow> Some s | Some x \<Rightarrow> map_option fst (set_add (Suc n) s x))) (Some st) bs = Some st' \<and>
    set_ok st' \<and> size_of st' = size_of st \<and> itemCount st' = itemCount st + taken bs \<and>
    items (table st') = items (table st) \<union> items bs"
  using assms
proof (induction bs arbitrary: st)
  case Nil
  then show ?case by (simp add: items_def taken_def)
next
  case (Cons b bs)
  have "(\<forall>i<length bs. \<forall>j<length bs. \<forall>s t. bs ! i = Some s \<and> bs ! j = Some t \<and> eq s t \<longrightarrow> i = j)"
  proof (intro allI impI, elim conjE)
    fix i j s t
    assume "i < length bs" "j < length bs" "bs ! i = Some s" "bs ! j = Some t" "eq s t"
    then show "i = j"
      using Cons.prems(4) [unfolded all_distinct_def, rule_format, of "Suc i" "Suc j" s t] by simp
  qed
  then have d: "all_distinct eq bs" by (simp add: all_distinct_def)
  show ?case
  proof (cases b)
    case None
    then show ?thesis
      using Cons.IH [of st] Cons.prems d by (simp add: items_def taken_def)
  next
    case (Some x)
    have fresh: "\<not> eq x y" if "y \<in> items bs" for y
    proof
      assume "eq x y"
      from that obtain j where "j < length bs" "bs ! j = Some y" by (auto simp: items_nth)
      then show False
        using Cons.prems(4) [unfolded all_distinct_def, rule_format, of 0 "Suc j" x y] Some \<open>eq x y\<close> by simp
    qed
    have new: "\<forall>t\<in>items (table st). \<not> eq t x" using Cons.prems(5) Some by (simp add: items_def)
    have "itemCount st < (size_of st + 2) div 3 * 2" using Cons.prems(3) Some by (simp add: taken_def)
    from add_store [OF Cons.prems(1) this Cons.prems(2), of n x]
    obtain st1 r where st1: "set_add (Suc n) st x = Some (st1, r)" "set_ok st1" "size_of st1 = size_of st"
        "items (table st1) = insert x {t \<in> items (table st). \<not> eq t x}"
        "itemCount st1 = (if r = None then itemCount st + 1 else itemCount st)"
        "\<forall>t. r = Some t \<longleftrightarrow> t \<in> items (table st) \<and> eq t x"
      by blast
    have r: "r = None" using st1(6) new by (cases r) auto
    have it: "items (table st1) = insert x (items (table st))" using st1(4) new by auto
    have "\<forall>y\<in>items bs. \<forall>t\<in>items (table st1). \<not> eq t y"
      using it fresh Cons.prems(5) by (auto simp: items_def)
    from Cons.IH [OF st1(2) _ _ d this]
    obtain st' where "foldl (\<lambda>acc b. Option.bind acc (\<lambda>s.
        case b of None \<Rightarrow> Some s | Some x \<Rightarrow> map_option fst (set_add (Suc n) s x))) (Some st1) bs = Some st'"
        "set_ok st'" "size_of st' = size_of st" "itemCount st' = itemCount st1 + taken bs"
        "items (table st') = items (table st1) \<union> items bs"
      using st1(3,5) r Cons.prems(2,3) Some by (auto simp: taken_def)
    then show ?thesis
      using st1(1,5) r it Some by (auto simp: items_def taken_def)
  qed
qed

end

section \<open>Table sizes\<close>

definition load_limit :: "nat \<Rightarrow> nat" where
  "load_limit n = (n + 2) div 3 * 2"

lemma table_sizes_facts:
  "list_all (\<lambda>s. load_limit s < s) (tl tableSizes)"
  "sorted_wrt (<) tableSizes"
  "list_all (\<lambda>k. load_limit (tableSizes ! k) + 1 \<le> load_limit (tableSizes ! (k + 1))) [1..<50]"
  "length tableSizes = 51" "load_limit (last tableSizes) > 1000000000"
  by (simp_all add: tableSizes_def load_limit_def upt_rec)

lemma init_next:
  assumes "k + 1 < length tableSizes"
  shows "BRSetInit h e (tableSizes ! k) =
    Some \<lparr>table = replicate (tableSizes ! (k + 1)) None, itemCount = 0, set_hash = h, set_eq = e\<rparr>"
proof -
  have "takeWhile (\<lambda>s. s < tableSizes ! k) tableSizes = take k tableSizes"
  proof (rule takeWhile_eq_take_P_nth)
    fix i assume "i < k" "i < length tableSizes"
    then show "tableSizes ! i < tableSizes ! k"
      using table_sizes_facts(2) assms by (auto simp: sorted_wrt_iff_nth_less)
  qed simp
  then show ?thesis using assms by (simp add: BRSetInit_def)
qed

context set_keys
begin

text \<open>
  The invariant of a set: its table has one of the listed sizes, its items are where a probe finds
  them, no two are equal, and the count is the number of items and within the load limit.
\<close>

definition BRSet_ok :: "'p BRSet \<Rightarrow> bool" where
  "BRSet_ok st \<longleftrightarrow> set_ok st \<and> size_of st \<in> set (tl tableSizes) \<and> itemCount st \<le> load_limit (size_of st)"

lemma limit_less: "BRSet_ok st \<Longrightarrow> load_limit (size_of st) < size_of st"
  using table_sizes_facts(1) by (auto simp: BRSet_ok_def list_all_iff)

lemma card_occ_items: "all_distinct eq T \<Longrightarrow> card (occ T) = card (items T)"
proof -
  assume d: "all_distinct eq T"
  have "items T = (\<lambda>j. the (T ! j)) ` occ T"
  proof (intro set_eqI iffI)
    fix t assume "t \<in> items T"
    then obtain j where "j < length T" "T ! j = Some t" by (auto simp: items_nth)
    then show "t \<in> (\<lambda>j. the (T ! j)) ` occ T" by (intro image_eqI [of _ _ j]) (auto simp: occ_def)
  qed (auto simp: items_nth occ_def)
  moreover have "inj_on (\<lambda>j. the (T ! j)) (occ T)"
    using d eq_refl by (auto simp: inj_on_def occ_def all_distinct_def)
  ultimately show ?thesis by (simp add: card_image)
qed

lemma count_items: "BRSet_ok st \<Longrightarrow> BRSetCount st = card (items (table st))"
  by (simp add: BRSet_ok_def set_ok_def table_ok_def card_occ_items BRSetCount_def)

lemma items_Nil [simp]: "items (replicate n None) = {}" "occ (replicate n None) = {}"
  by (auto simp: items_def occ_def)

lemma empty_ok:
  assumes "n \<in> set (tl tableSizes)"
  shows "BRSet_ok \<lparr>table = replicate n None, itemCount = 0, set_hash = hash, set_eq = eq\<rparr>"
proof -
  have "load_limit n < n" using table_sizes_facts(1) assms by (auto simp: list_all_iff)
  then show ?thesis
    using assms by (simp add: BRSet_ok_def set_ok_def usable_def table_ok_def all_distinct_def load_limit_def)
qed

lemma new_ok:
  assumes "capacity \<le> 1000000000"
  shows "\<exists>st. BRSetNew hash eq capacity = Some st \<and> BRSet_ok st \<and> items (table st) = {}"
proof -
  define i where "i = length (takeWhile (\<lambda>s. s < capacity) tableSizes)"
  have "i \<le> 47"
  proof (rule ccontr)
    assume "\<not> i \<le> 47"
    then have "tableSizes ! 47 < capacity"
      using nth_length_takeWhile set_takeWhileD takeWhile_nth [of 47 "\<lambda>s. s < capacity" tableSizes]
        nth_mem [of 47 "takeWhile (\<lambda>s. s < capacity) tableSizes"]
      by (metis i_def not_le_imp_less)
    then show False using assms by (simp add: tableSizes_def)
  qed
  then have "i + 1 < length tableSizes" using table_sizes_facts(4) by simp
  moreover from this have "tableSizes ! (i + 1) \<in> set (tl tableSizes)"
    by (simp add: nth_tl [symmetric] nth_mem)
  ultimately show ?thesis
    using empty_ok by (simp add: BRSetNew_def BRSetInit_def i_def Let_def)
qed

lemma taken_card: "taken bs = card (occ bs)"
  by (simp add: taken_def occ_def length_filter_conv_card)

lemma table_size_index:
  assumes "n \<in> set (tl tableSizes)"
  obtains k where "0 < k" "k < 51" "n = tableSizes ! k"
proof -
  obtain j where "j < 50" "tl tableSizes ! j = n"
    using assms table_sizes_facts(4) by (auto simp: in_set_conv_nth)
  then show ?thesis using that [of "Suc j"] table_sizes_facts(4) by (simp add: nth_tl)
qed

text \<open>There is a larger table for a set at its load limit.\<close>

lemma next_table:
  assumes "n \<in> set (tl tableSizes)" "load_limit n < 1000000000"
  obtains new0 where "BRSetInit hash eq n = Some new0" "BRSet_ok new0" "items (table new0) = {}"
    "itemCount new0 = 0" "load_limit n + 1 \<le> load_limit (size_of new0)"
proof -
  obtain k where k: "0 < k" "k < 51" "n = tableSizes ! k" using assms(1) by (rule table_size_index)
  have "k \<noteq> 50"
  proof
    assume "k = 50"
    then have "n = last tableSizes" using k(3) by (simp add: tableSizes_def)
    then show False using table_sizes_facts(5) assms(2) by simp
  qed
  then have k50: "k + 1 < length tableSizes" using k(2) table_sizes_facts(4) by simp
  then have "tableSizes ! (k + 1) \<in> set (tl tableSizes)" by (simp add: nth_tl [symmetric] nth_mem)
  moreover have "load_limit n + 1 \<le> load_limit (tableSizes ! (k + 1))"
    using table_sizes_facts(3) k \<open>k \<noteq> 50\<close> by (simp add: list_all_iff)
  ultimately show ?thesis
    using that [of "\<lparr>table = replicate (tableSizes ! (k + 1)) None, itemCount = 0, set_hash = hash, set_eq = eq\<rparr>"]
      init_next [OF k50, of hash eq] k(3) empty_ok [of "tableSizes ! (k + 1)"] by simp
qed

lemma rebuild_ok:
  assumes "table_ok hash eq T" "n \<in> set (tl tableSizes)" "load_limit n < 1000000000"
    "card (occ T) = load_limit n + 1"
  obtains new0 new where "BRSetInit hash eq n = Some new0"
    "foldl (\<lambda>acc b. Option.bind acc (\<lambda>s.
        case b of None \<Rightarrow> Some s | Some x \<Rightarrow> map_option fst (set_add (Suc 0) s x))) (Some new0) T = Some new"
    "BRSet_ok new" "items (table new) = items T"
proof -
  obtain new0 where new0: "BRSetInit hash eq n = Some new0" "BRSet_ok new0" "items (table new0) = {}"
      "itemCount new0 = 0" "load_limit n + 1 \<le> load_limit (size_of new0)"
    using assms(2,3) by (rule next_table)
  have "set_ok new0" "itemCount new0 + taken T \<le> load_limit (size_of new0)" "all_distinct eq T"
    using new0 assms(1,4) by (simp_all add: BRSet_ok_def taken_card table_ok_def)
  with add_fold [of new0 T 0, folded load_limit_def] limit_less [OF new0(2)] new0(3)
  obtain new where new: "foldl (\<lambda>acc b. Option.bind acc (\<lambda>s.
        case b of None \<Rightarrow> Some s | Some x \<Rightarrow> map_option fst (set_add (Suc 0) s x))) (Some new0) T = Some new"
      "set_ok new" "size_of new = size_of new0" "itemCount new = itemCount new0 + taken T"
      "items (table new) = items T"
    by auto
  moreover have "BRSet_ok new"
    using new(2-4) new0(2,4,5) assms(4) by (simp add: BRSet_ok_def taken_card)
  ultimately show ?thesis using that new0(1) by blast
qed

text \<open>
  \<open>BRSetAdd\<close> always returns on a set that satisfies the invariant, also when it rebuilds the table.
\<close>

lemma add_spec:
  assumes ok: "BRSet_ok st" and small: "itemCount st < 1000000000"
  shows "\<exists>st' r. BRSetAdd st x = Some (st', r) \<and> BRSet_ok st' \<and>
    items (table st') = insert x {t \<in> items (table st). \<not> eq t x} \<and>
    (\<forall>t. r = Some t \<longleftrightarrow> t \<in> items (table st) \<and> eq t x)"
proof -
  have sok: "set_ok st" using ok by (simp add: BRSet_ok_def)
  obtain d where d: "d < size_of st"
      "probe st x (hash x mod size_of st) = Some ((hash x + d) mod size_of st)"
      "stops st x ((hash x + d) mod size_of st)"
      "\<forall>k<d. \<not> stops st x ((hash x + k) mod size_of st)"
    using probe_total [of st x] sok by (auto simp: set_ok_def)
  define s where "s = (hash x + d) mod size_of st"
  have s: "s < size_of st" unfolding s_def using d(1) by (intro mod_less_divisor) auto
  note sto = store_ok [OF sok d(1,3,4), folded s_def]
  have h: "set_hash st = hash" "set_eq st = eq" "itemCount st = card (occ (table st))"
    using sok by (simp_all add: set_ok_def usable_def)
  define st1 where "st1 = st\<lparr>table := (table st)[s := Some x],
      itemCount := if table st ! s = None then itemCount st + 1 else itemCount st\<rparr>"
  have count: "itemCount st1 = card (occ (table st1))"
    using card_occ_update(1) [OF s, of x] h(3) by (simp add: st1_def)
  have r: "table st ! s = Some t \<longleftrightarrow> t \<in> items (table st) \<and> eq t x" for t
    using d(3) s probe_finds [OF sok d(1,3,4), folded s_def]
    by (auto simp: items_nth stops_def s_def [symmetric])
  show ?thesis
  proof (cases "itemCount st1 \<le> load_limit (size_of st)")
    case True
    then have "BRSetAdd st x = Some (st1, table st ! s)"
      using d(2) h by (simp add: BRSetAdd_def numeral_2_eq_2 s_def [symmetric] st1_def Let_def load_limit_def)
    moreover have "BRSet_ok st1"
      using sto(1) count ok h True limit_less [OF ok]
      by (simp add: BRSet_ok_def set_ok_def usable_def st1_def)
    ultimately show ?thesis using sto(2) r by (auto simp: st1_def)
  next
    case False
    then have full: "itemCount st = load_limit (size_of st)" "table st ! s = None"
      using ok by (auto simp: BRSet_ok_def st1_def split: if_splits)
    have "card (occ (table st1)) = load_limit (size_of st) + 1"
      using count full by (simp add: st1_def)
    moreover have "table_ok hash eq (table st1)" using sto(1) by (simp add: st1_def)
    ultimately obtain new0 new where new: "BRSetInit hash eq (size_of st) = Some new0"
        "foldl (\<lambda>acc b. Option.bind acc (\<lambda>s.
          case b of None \<Rightarrow> Some s | Some x \<Rightarrow> map_option fst (set_add (Suc 0) s x)))
          (Some new0) (table st1) = Some new"
        "BRSet_ok new" "items (table new) = items (table st1)"
      using rebuild_ok [of "table st1" "size_of st"] ok full(1) small by (auto simp: BRSet_ok_def)
    define st' where "st' = st1\<lparr>table := table new, itemCount := itemCount new\<rparr>"
    have "BRSetAdd st x = Some (st', None)"
      using d(2) full h new(1,2)
      by (simp add: BRSetAdd_def numeral_2_eq_2 s_def [symmetric] st1_def st'_def Let_def load_limit_def)
    moreover have "BRSet_ok st'"
      using new(3) h by (simp add: BRSet_ok_def set_ok_def usable_def st'_def st1_def)
    ultimately show ?thesis using sto(2) r full(2) new(4) by (auto simp: st'_def st1_def)
  qed
qed

text \<open>
  The clean-up loop. \<open>T0\<close> is the table before the removal of \<open>r\<close>; the loop is at bucket \<open>i\<close>, and
  the first free bucket of \<open>T0\<close> from there on is \<open>E\<close> steps ahead. Buckets only become free, so the
  loop ends there; each item is either found by its probe, or in the run the loop is still to visit.
\<close>

definition cleaning :: "'p option list \<Rightarrow> 'p \<Rightarrow> nat \<Rightarrow> 'p BRSet \<Rightarrow> nat \<Rightarrow> bool" where
  "cleaning T0 r E st i \<longleftrightarrow>
     set_hash st = hash \<and> set_eq st = eq \<and> size_of st = length T0 \<and> i < length T0 \<and> E < length T0 \<and>
     T0 ! ((i + E) mod length T0) = None \<and> occ (table st) \<subseteq> occ T0 \<and>
     (\<forall>k<E. T0 ! ((i + k) mod length T0) \<noteq> None \<and>
        table st ! ((i + k) mod length T0) = T0 ! ((i + k) mod length T0)) \<and>
     (\<forall>j<length T0. \<forall>t. table st ! j = Some t \<longrightarrow> path_ok hash (table st) j t \<or> run (table st) i j) \<and>
     all_distinct eq (table st) \<and> items (table st) = items T0 - {r} \<and>
     itemCount st = card (occ (table st)) \<and> itemCount st < load_limit (length T0)"

lemma cleaning_start:
  assumes ok: "BRSet_ok st" and s: "s < size_of st" "table st ! s = Some r"
  defines "st1 \<equiv> st\<lparr>table := (table st)[s := None], itemCount := itemCount st - 1\<rparr>"
  obtains E where "cleaning (table st) r E st1 ((s + 1) mod size_of st)"
proof -
  let ?T = "table st" and ?n = "size_of st" and ?i = "(s + 1) mod size_of st"
  have i: "?i < ?n" using s(1) by (intro mod_less_divisor) auto
  have sok: "set_ok st" using ok by (simp add: BRSet_ok_def)
  have card: "card (occ ?T) < ?n" "itemCount st = card (occ ?T)" "set_hash st = hash" "set_eq st = eq"
    "all_distinct eq ?T"
    using sok by (simp_all add: set_ok_def usable_def table_ok_def)
  then obtain E where E: "E < ?n" and at: "?T ! ((?i + E) mod ?n) = None"
      and before: "\<forall>k<E. ?T ! ((?i + k) mod ?n) \<noteq> None"
    using first_free [OF _ i] by blast
  have ns: "(?i + k) mod ?n \<noteq> s" if "k < E" for k
  proof -
    have "Suc k < ?n" using that E by simp
    then show ?thesis unfolding slot_step using slot_ne [OF s(1), of "Suc k"] by simp
  qed
  have occ1: "s \<in> occ ?T" using s by (simp add: occ_def)
  have "itemCount st1 = card (occ (table st1))" "itemCount st1 < load_limit ?n"
    using card_occ_update(2) [OF s(1)] s(2) card(2) ok occ1 card_gt_0_iff [of "occ ?T"]
    by (auto simp: st1_def BRSet_ok_def)
  moreover have "path_ok hash (table st1) j t \<or> run (table st1) ?i j"
    if "j < ?n" "table st1 ! j = Some t" for j t
  proof -
    have j: "j \<noteq> s" "?T ! j = Some t" using that s(1) by (auto simp: st1_def nth_clear)
    then have "path_ok hash ?T j t" using sok that(1) by (auto simp: set_ok_def table_ok_def)
    then show ?thesis using paths_after_clear [OF s(1) j that(1)] by (simp add: st1_def)
  qed
  moreover have "all_distinct eq (table st1)" "items (table st1) = items ?T - {r}" "occ (table st1) \<subseteq> occ ?T"
    using card(5) s eq_refl by (simp_all add: st1_def distinct_clear items_clear [of eq] occ_clear)
  moreover have "\<forall>k<E. table st1 ! ((?i + k) mod ?n) = ?T ! ((?i + k) mod ?n)"
    using not_sym [OF ns] by (simp add: st1_def)
  ultimately have "cleaning ?T r E st1 ?i"
    using at E before ns i card(3,4) by (simp add: cleaning_def st1_def)
  then show ?thesis by (rule that)
qed

text \<open>
  One turn of the loop: the item \<open>t\<close> of bucket \<open>i\<close> goes to the first free bucket on its probe
  path, which ends at \<open>i\<close>.
\<close>

lemma reinsert:
  assumes c: "cleaning T0 r E st i" and T0: "table_ok hash eq T0" "load_limit (length T0) < length T0"
    and E: "0 < E"
  obtains t q where "table st ! i = Some t" "q < length T0" "q \<in> occ T0" "(table st)[i := None] ! q = None"
    "path_ok hash ((table st)[i := None]) q t"
    "BRSetAdd (st\<lparr>table := (table st)[i := None], itemCount := itemCount st - 1\<rparr>) t =
       Some (st\<lparr>table := (table st)[i := None, q := Some t]\<rparr>, None)"
proof -
  let ?T = "table st" and ?n = "length T0" and ?T1 = "(table st)[i := None]"
  define st1 where "st1 = st\<lparr>table := ?T1, itemCount := itemCount st - 1\<rparr>"
  have i: "i < ?n" "length ?T = ?n" "set_hash st = hash" "set_eq st = eq" "occ ?T \<subseteq> occ T0"
    "itemCount st = card (occ ?T)" "itemCount st < load_limit ?n" "all_distinct eq ?T"
    using c by (simp_all add: cleaning_def)
  obtain t where t: "T0 ! i = Some t" "?T ! i = Some t"
    using c E i(1) unfolding cleaning_def by (metis add_0_right mod_less not_None_eq)
  have inocc: "i \<in> occ ?T" using t(2) i(1,2) by (simp add: occ_def)
  then have pos: "0 < itemCount st" using i(6) by (auto simp: card_gt_0_iff)
  have card1: "card (occ ?T1) = itemCount st - 1" using card_occ_update(2) [of i ?T] i t(2) by simp
  then have us: "usable st1" using i T0(2) by (simp add: usable_def st1_def)
  obtain d where d: "d < ?n"
      "probe st1 t (hash t mod ?n) = Some ((hash t + d) mod ?n)"
      "stops st1 t ((hash t + d) mod ?n)" "\<forall>k<d. \<not> stops st1 t ((hash t + k) mod ?n)"
    using probe_total [OF us, of t] i(2) by (auto simp: st1_def)
  define q where "q = (hash t + d) mod ?n"
  have q: "q < ?n" unfolding q_def using i(1) by (intro mod_less_divisor) auto
  have none: "?T1 ! q = None"
  proof (rule ccontr)
    assume "?T1 ! q \<noteq> None"
    then obtain u where "?T1 ! q = Some u" by blast
    then have "eq u t" "q \<noteq> i" "?T ! q = Some u"
      using d(3) i(1,2) by (auto simp: stops_def st1_def q_def [symmetric] nth_clear)
    then show False using i(1,2,8) q t(2) unfolding all_distinct_def by metis
  qed
  have taken: "?T1 ! ((hash t + k) mod ?n) \<noteq> None" if "k < d" for k
    using d(4) that by (auto simp: stops_def st1_def split: option.splits)
  then have path: "path_ok hash ?T1 q t" using d(1) i(2) by (auto simp: path_ok_def q_def)
  have "q \<in> occ T0"
  proof -
    obtain d0 where d0: "d0 < ?n" "(hash t + d0) mod ?n = i" "\<forall>k<d0. T0 ! ((hash t + k) mod ?n) \<noteq> None"
      using T0(1) t(1) i(1) by (auto simp: table_ok_def path_ok_def)
    have "d \<le> d0"
      using taken [of d0] d0(2) i(1,2) by (metis not_le nth_list_update_eq)
    then show ?thesis using d0 q t(1) i(1) by (cases "d = d0") (auto simp: occ_def q_def)
  qed
  moreover have "BRSetAdd st1 t = Some (st\<lparr>table := (table st)[i := None, q := Some t]\<rparr>, None)"
    using d(2) i(2,3,4,7) pos none
    by (simp add: BRSetAdd_def numeral_2_eq_2 st1_def q_def [symmetric] Let_def load_limit_def)
  ultimately show ?thesis using that t(2) q none path by (simp add: st1_def)
qed

lemma cleaning_step:
  assumes c: "cleaning T0 r E st i" and T0: "table_ok hash eq T0" "load_limit (length T0) < length T0"
    and E: "0 < E"
  shows "\<exists>t st'. table st ! i = Some t \<and>
    BRSetAdd (st\<lparr>table := (table st)[i := None], itemCount := itemCount st - 1\<rparr>) t = Some (st', None) \<and>
    cleaning T0 r (E - 1) st' ((i + 1) mod length T0)"
proof -
  let ?T = "table st" and ?n = "length T0" and ?T1 = "(table st)[i := None]"
  obtain t q where t: "?T ! i = Some t" and q: "q < ?n" "q \<in> occ T0" "?T1 ! q = None"
      "path_ok hash ?T1 q t"
      and add: "BRSetAdd (st\<lparr>table := ?T1, itemCount := itemCount st - 1\<rparr>) t =
        Some (st\<lparr>table := (table st)[i := None, q := Some t]\<rparr>, None)"
    using assms by (rule reinsert)
  define T2 where "T2 = ?T1[q := Some t]"
  have i: "i < ?n" "length ?T = ?n" "set_hash st = hash" "set_eq st = eq" "occ ?T \<subseteq> occ T0"
    "itemCount st = card (occ ?T)" "itemCount st < load_limit ?n" "all_distinct eq ?T" "E < ?n"
    "items ?T = items T0 - {r}" "T0 ! ((i + E) mod ?n) = None"
    and same: "\<And>k. k < E \<Longrightarrow> T0 ! ((i + k) mod ?n) \<noteq> None \<and> ?T ! ((i + k) mod ?n) = T0 ! ((i + k) mod ?n)"
    using c by (simp_all add: cleaning_def)
  have T2: "T2 ! j = Some u \<longleftrightarrow> (if j = q then u = t else j \<noteq> i \<and> ?T ! j = Some u)" for j u
    using q(1) i(1,2) by (auto simp: T2_def nth_clear)
  have card1: "card (occ ?T1) = itemCount st - 1" "0 < itemCount st"
    using card_occ_update(2) [of i ?T] i t card_gt_0_iff [of "occ ?T"] by (auto simp: occ_def)
  have "card (occ T2) = itemCount st"
    using card_occ_update(1) [of q ?T1 t] q(1,3) i(2) card1 by (simp add: T2_def)
  moreover have "occ T2 \<subseteq> occ T0"
    using i(1,2,5) q(1,2) occ_fill [of q ?T1 t] occ_clear [of i ?T] by (auto simp: T2_def)
  moreover have "T2 ! ((i + Suc k) mod ?n) = T0 ! ((i + Suc k) mod ?n)" if "k < E - 1" for k
  proof -
    have k: "Suc k < E" using that by simp
    have s: "(i + Suc k) mod ?n \<noteq> i" using k i(1,9) by (intro slot_ne) auto
    obtain u where u: "?T ! ((i + Suc k) mod ?n) = Some u" "T0 ! ((i + Suc k) mod ?n) = Some u"
      using same [OF k] by (metis not_None_eq)
    then have "(i + Suc k) mod ?n \<noteq> q" using q(3) s i(1,2) by auto
    then show ?thesis using u s T2 by simp
  qed
  moreover have "path_ok hash T2 j u \<or> run T2 ((i + 1) mod ?n) j" if "j < ?n" "T2 ! j = Some u" for j u
  proof (cases "j = q")
    case True
    then have "u = t" using that(2) T2 by simp
    then show ?thesis using True path_ok_fill [OF q(4), of q] q(1) i(2) by (simp add: T2_def)
  next
    case False
    then have j: "j \<noteq> i" "?T ! j = Some u" using that(2) T2 by simp_all
    then have "path_ok hash ?T j u \<or> run ?T i j" using c that(1) by (simp add: cleaning_def)
    then have "path_ok hash ?T1 j u \<or> run ?T1 ((i + 1) mod ?n) j"
      using paths_after_clear [of i ?T j u hash] i(1,2) j that(1) by simp
    then show ?thesis
      unfolding T2_def using path_ok_fill run_fill q(1) i(2) by (metis length_list_update)
  qed
  moreover have it1: "items ?T1 = items ?T - {t}" using i(1,2,8) t eq_refl by (simp add: items_clear [of eq])
  moreover have "t \<in> items ?T" using t i(1,2) by (auto simp: items_nth)
  then have "items T2 = items ?T" using items_fill [of q ?T1 t] it1 q(1,3) i(2) by (auto simp: T2_def)
  moreover have "all_distinct eq T2"
  proof -
    have "\<not> eq u t \<and> \<not> eq t u" if "u \<in> items ?T1" for u
    proof -
      obtain j where "j < ?n" "j \<noteq> i" "?T ! j = Some u" using \<open>u \<in> items ?T1\<close> i(1,2) by (auto simp: items_nth nth_clear)
      then show ?thesis using i(1,2,8) t eq_sym unfolding all_distinct_def by metis
    qed
    then show ?thesis
      unfolding T2_def using i(1,2,8) q(1) by (intro distinct_fill distinct_clear) auto
  qed
  moreover have "(i + 1) mod ?n < ?n" using i(1) by (intro mod_less_divisor) auto
  moreover have "((i + 1) mod ?n + (E - 1)) mod ?n = (i + E) mod ?n" unfolding slot_step using E by simp
  moreover have "T0 ! ((i + Suc k) mod ?n) \<noteq> None" if "k < E - 1" for k
    using same [of "Suc k"] that by (metis Suc_eq_plus1 less_diff_conv)
  moreover have "E - 1 < ?n" using i(9) by simp
  ultimately have "cleaning T0 r (E - 1) (st\<lparr>table := T2\<rparr>) ((i + 1) mod ?n)"
    using i same E unfolding cleaning_def slot_step by (simp add: T2_def)
  then show ?thesis using t add by (auto simp: T2_def)
qed

lemma cleanup_ok:
  assumes "cleaning T0 r E st i" "table_ok hash eq T0" "load_limit (length T0) < length T0"
  shows "\<exists>st'. cleanup (length T0) st i = Some st' \<and> set_ok st' \<and> size_of st' = length T0 \<and>
    items (table st') = items T0 - {r} \<and> itemCount st' < load_limit (length T0)"
  using assms(1)
proof (induction E arbitrary: st i)
  case 0
  then have "table st ! i = None" by (auto simp: cleaning_def occ_def)
  then show ?case
    using 0 assms(3) run_None [of "table st" i]
    by (subst cleanup.simps) (auto simp: cleaning_def set_ok_def usable_def table_ok_def)
next
  case (Suc E)
  obtain t st' where st': "table st ! i = Some t"
      "BRSetAdd (st\<lparr>table := (table st)[i := None], itemCount := itemCount st - 1\<rparr>) t = Some (st', None)"
      "cleaning T0 r E st' ((i + 1) mod length T0)"
    using cleaning_step [OF Suc.prems assms(2,3)] by auto
  then show ?case using Suc.IH [OF st'(3)] by (subst cleanup.simps) simp
qed

text \<open>\<open>BRSetRemove\<close> always returns, and removes the equal item if there is one.\<close>

lemma remove_spec:
  assumes ok: "BRSet_ok st"
  shows "\<exists>st' r. BRSetRemove st x = Some (st', r) \<and> BRSet_ok st' \<and>
    items (table st') = {t \<in> items (table st). \<not> eq t x} \<and>
    (\<forall>t. r = Some t \<longleftrightarrow> t \<in> items (table st) \<and> eq t x)"
proof -
  have sok: "set_ok st" using ok by (simp add: BRSet_ok_def)
  obtain d where d: "d < size_of st"
      "probe st x (hash x mod size_of st) = Some ((hash x + d) mod size_of st)"
      "stops st x ((hash x + d) mod size_of st)"
      "\<forall>k<d. \<not> stops st x ((hash x + k) mod size_of st)"
    using probe_total [of st x] sok by (auto simp: set_ok_def)
  define s where "s = (hash x + d) mod size_of st"
  have s: "s < size_of st" unfolding s_def using d(1) by (intro mod_less_divisor) auto
  have h: "set_hash st = hash" using sok by (simp add: set_ok_def usable_def)
  have r: "table st ! s = Some t \<longleftrightarrow> t \<in> items (table st) \<and> eq t x" for t
    using d(3) s probe_finds [OF sok d(1,3,4), folded s_def]
    by (auto simp: items_nth stops_def s_def [symmetric])
  show ?thesis
  proof (cases "table st ! s")
    case None
    moreover from this have "BRSetRemove st x = Some (st, None)"
      using d(2) h by (simp add: BRSetRemove_def s_def [symmetric] Let_def)
    ultimately show ?thesis using ok r by auto
  next
    case (Some y)
    define st1 where "st1 = st\<lparr>table := (table st)[s := None], itemCount := itemCount st - 1\<rparr>"
    obtain E where "cleaning (table st) y E st1 ((s + 1) mod size_of st)"
      using cleaning_start [OF ok s Some] by (auto simp: st1_def)
    then obtain st' where st': "cleanup (size_of st) st1 ((s + 1) mod size_of st) = Some st'" "set_ok st'"
        "size_of st' = size_of st" "items (table st') = items (table st) - {y}"
        "itemCount st' < load_limit (size_of st)"
      using cleanup_ok sok limit_less [OF ok] unfolding set_ok_def by blast
    have "BRSetRemove st x = Some (st', Some y)"
      using d(2) h Some st'(1) by (simp add: BRSetRemove_def s_def [symmetric] Let_def st1_def)
    moreover have "BRSet_ok st'" using st'(2,3,5) ok by (simp add: BRSet_ok_def)
    moreover have "items (table st) - {y} = {t \<in> items (table st). \<not> eq t x}"
    proof -
      have "y = t \<longleftrightarrow> t \<in> items (table st) \<and> eq t x" for t using r [of t] Some by simp
      then show ?thesis by (intro set_eqI) (simp, metis)
    qed
    ultimately show ?thesis using st'(4) r Some by auto
  qed
qed

end

section \<open>The contract of the set\<close>

text \<open>
  What the callers rely on: a state \<open>s\<close> stands for a set \<open>abs s\<close> of items, \<open>get\<close> gives the item equal
  to the argument, \<open>add\<close> replaces it and \<open>remove\<close> takes it out; both give the item that was there.
\<close>

locale item_set =
  fixes eq :: "'p \<Rightarrow> 'p \<Rightarrow> bool"
    and inv room :: "'s \<Rightarrow> bool"
    and abs :: "'s \<Rightarrow> 'p set"
    and get :: "'s \<Rightarrow> 'p \<Rightarrow> 'p option option"
    and add remove :: "'s \<Rightarrow> 'p \<Rightarrow> ('s \<times> 'p option) option"
  assumes equiv: "equivp eq"
    and get_law: "inv s \<Longrightarrow> \<exists>r. get s x = Some r \<and> (\<forall>t. r = Some t \<longleftrightarrow> t \<in> abs s \<and> eq t x)"
    and add_law: "inv s \<Longrightarrow> room s \<Longrightarrow> \<exists>s' r. add s x = Some (s', r) \<and> inv s' \<and>
      abs s' = insert x {t \<in> abs s. \<not> eq t x} \<and> (\<forall>t. r = Some t \<longleftrightarrow> t \<in> abs s \<and> eq t x)"
    and remove_law: "inv s \<Longrightarrow> \<exists>s' r. remove s x = Some (s', r) \<and> inv s' \<and>
      abs s' = {t \<in> abs s. \<not> eq t x} \<and> (\<forall>t. r = Some t \<longleftrightarrow> t \<in> abs s \<and> eq t x)"
begin

lemma eq_laws: "eq x x" "eq x y \<Longrightarrow> eq y x" "eq x y \<Longrightarrow> eq y z \<Longrightarrow> eq x z"
  using equiv by (auto intro: equivp_reflp equivp_symp equivp_transp)

lemma get_unique:
  assumes "inv s" "\<And>t. r = Some t \<longleftrightarrow> t \<in> abs s \<and> eq t x"
  shows "get s x = Some r"
proof -
  obtain r' where "get s x = Some r'" "\<And>t. r' = Some t \<longleftrightarrow> t \<in> abs s \<and> eq t x"
    using get_law [OF assms(1)] by blast
  moreover from this(2) have "r' = Some t \<longleftrightarrow> r = Some t" for t using assms(2) by simp
  then have "r' = r" by (metis not_Some_eq)
  ultimately show ?thesis by simp
qed

lemma get_after_add:
  assumes "inv s" "room s" "add s x = Some (s', r)"
  shows "get s' y = (if eq x y then Some (Some x) else get s y)"
proof -
  have s': "inv s'" "abs s' = insert x {t \<in> abs s. \<not> eq t x}"
    using add_law [OF assms(1,2), of x] assms(3) by auto
  show ?thesis
  proof (cases "eq x y")
    case True
    have "Some x = Some t \<longleftrightarrow> t \<in> abs s' \<and> eq t y" for t
      unfolding s'(2) using True eq_laws(2) [of x y] eq_laws(3) [of t y x] by auto
    then have "get s' y = Some (Some x)" by (rule get_unique [OF s'(1)])
    then show ?thesis using True by simp
  next
    case False
    obtain q where q: "get s y = Some q" "\<And>t. q = Some t \<longleftrightarrow> t \<in> abs s \<and> eq t y"
      using get_law [OF assms(1)] by blast
    have "q = Some t \<longleftrightarrow> t \<in> abs s' \<and> eq t y" for t
      unfolding s'(2) q(2) using False eq_laws(2) [of t x] eq_laws(3) [of x t y] by auto
    then have "get s' y = Some q" by (rule get_unique [OF s'(1)])
    then show ?thesis using False q(1) by simp
  qed
qed

lemma get_after_remove:
  assumes "inv s" "remove s x = Some (s', r)"
  shows "get s' y = (if eq x y then Some None else get s y)"
proof -
  have s': "inv s'" "abs s' = {t \<in> abs s. \<not> eq t x}"
    using remove_law [OF assms(1), of x] assms(2) by auto
  show ?thesis
  proof (cases "eq x y")
    case True
    have "None = Some t \<longleftrightarrow> t \<in> abs s' \<and> eq t y" for t
      unfolding s'(2) using True eq_laws(2) [of x y] eq_laws(3) [of t y x] by auto
    then have "get s' y = Some None" by (rule get_unique [OF s'(1)])
    then show ?thesis using True by simp
  next
    case False
    obtain q where q: "get s y = Some q" "\<And>t. q = Some t \<longleftrightarrow> t \<in> abs s \<and> eq t y"
      using get_law [OF assms(1)] by blast
    have "q = Some t \<longleftrightarrow> t \<in> abs s' \<and> eq t y" for t
      unfolding s'(2) q(2) using False eq_laws(2) [of t x] eq_laws(3) [of x t y] by auto
    then have "get s' y = Some q" by (rule get_unique [OF s'(1)])
    then show ?thesis using False q(1) by simp
  qed
qed

end

sublocale set_keys \<subseteq> hashed: item_set eq BRSet_ok "\<lambda>st. itemCount st < 1000000000"
    "\<lambda>st. items (table st)" BRSetGet BRSetAdd BRSetRemove
proof unfold_locales
  show "equivp eq" using eq_refl eq_sym eq_trans by (intro equivpI reflpI sympI transpI) metis+
next
  fix s x assume "BRSet_ok s"
  then show "\<exists>r. BRSetGet s x = Some r \<and> (\<forall>t. r = Some t \<longleftrightarrow> t \<in> items (table s) \<and> eq t x)"
    by (intro get_spec) (simp add: BRSet_ok_def)
qed (fact add_spec, fact remove_spec)

section \<open>Properties\<close>

text \<open>A sequence of calls on one set, with the item each call returns.\<close>

datatype 'p set_op = Add 'p | Remove 'p | Get 'p

fun set_step :: "'p BRSet \<Rightarrow> 'p set_op \<Rightarrow> ('p BRSet \<times> 'p option) option" where
  "set_step st (Add x) = BRSetAdd st x"
| "set_step st (Remove x) = BRSetRemove st x"
| "set_step st (Get x) = map_option (\<lambda>r. (st, r)) (BRSetGet st x)"

fun set_steps :: "'p BRSet \<Rightarrow> 'p set_op list \<Rightarrow> ('p BRSet \<times> 'p option list) option" where
  "set_steps st [] = Some (st, [])"
| "set_steps st (a # as) =
     (case set_step st a of
        None \<Rightarrow> None
      | Some (st', r) \<Rightarrow> map_option (\<lambda>(st'', rs). (st'', r # rs)) (set_steps st' as))"

text \<open>The same calls on a mathematical set of items.\<close>

fun spec_step :: "('p \<Rightarrow> 'p \<Rightarrow> bool) \<Rightarrow> 'p set \<Rightarrow> 'p set_op \<Rightarrow> 'p set" where
  "spec_step eq S (Add x) = insert x {t \<in> S. \<not> eq t x}"
| "spec_step eq S (Remove x) = {t \<in> S. \<not> eq t x}"
| "spec_step eq S (Get x) = S"

fun op_item :: "'p set_op \<Rightarrow> 'p" where
  "op_item (Add x) = x" | "op_item (Remove x) = x" | "op_item (Get x) = x"

fun spec_results :: "('p \<Rightarrow> 'p \<Rightarrow> bool) \<Rightarrow> 'p set \<Rightarrow> 'p set_op list \<Rightarrow> 'p option list \<Rightarrow> bool" where
  "spec_results eq S [] rs \<longleftrightarrow> rs = []"
| "spec_results eq S (a # as) rs \<longleftrightarrow>
     (case rs of
        [] \<Rightarrow> False
      | r # rs' \<Rightarrow> (\<forall>t. r = Some t \<longleftrightarrow> t \<in> S \<and> eq t (op_item a)) \<and> spec_results eq (spec_step eq S a) as rs')"

context set_keys
begin

lemma step_ok:
  assumes "BRSet_ok st" "itemCount st < 1000000000"
  shows "\<exists>st' r. set_step st a = Some (st', r) \<and> BRSet_ok st' \<and>
    items (table st') = spec_step eq (items (table st)) a \<and> itemCount st' \<le> itemCount st + 1 \<and>
    (\<forall>t. r = Some t \<longleftrightarrow> t \<in> items (table st) \<and> eq t (op_item a))"
proof -
  have "\<exists>st' r. set_step st a = Some (st', r) \<and> BRSet_ok st' \<and>
    items (table st') = spec_step eq (items (table st)) a \<and>
    (\<forall>t. r = Some t \<longleftrightarrow> t \<in> items (table st) \<and> eq t (op_item a))"
    using hashed.add_law [OF assms] hashed.remove_law [OF assms(1)] hashed.get_law [OF assms(1)] assms(1)
    by (cases a) auto
  then obtain st' r where st': "set_step st a = Some (st', r)" "BRSet_ok st'"
      "items (table st') = spec_step eq (items (table st)) a"
      "\<forall>t. r = Some t \<longleftrightarrow> t \<in> items (table st) \<and> eq t (op_item a)"
    by blast
  have fin: "finite (items (table st))"
  proof -
    have "items (table st) \<subseteq> (\<lambda>b. the b) ` set (table st)" by (force simp: items_def)
    then show ?thesis by (rule finite_subset) simp
  qed
  have "card (spec_step eq (items (table st)) a) \<le> card (insert (op_item a) (items (table st)))"
    using fin by (intro card_mono) (cases a; auto)+
  also have "\<dots> \<le> card (items (table st)) + 1" using fin by (simp add: card_insert_if)
  finally have "itemCount st' \<le> itemCount st + 1"
    using count_items [OF assms(1)] count_items [OF st'(2)] st'(3) by (simp add: BRSetCount_def)
  then show ?thesis using st' by blast
qed

lemma steps_ok:
  assumes "BRSet_ok st" "itemCount st + length as \<le> 1000000000"
  shows "\<exists>st' rs. set_steps st as = Some (st', rs) \<and> BRSet_ok st' \<and>
    items (table st') = foldl (spec_step eq) (items (table st)) as \<and> spec_results eq (items (table st)) as rs"
  using assms
proof (induction as arbitrary: st)
  case (Cons a as)
  have "itemCount st < 1000000000" using Cons.prems(2) by simp
  from step_ok [OF Cons.prems(1) this, of a]
  obtain st1 r where 1: "set_step st a = Some (st1, r)" "BRSet_ok st1"
      "items (table st1) = spec_step eq (items (table st)) a" "itemCount st1 \<le> itemCount st + 1"
      "\<forall>t. r = Some t \<longleftrightarrow> t \<in> items (table st) \<and> eq t (op_item a)"
    by blast
  from Cons.IH [OF 1(2)] 1(4) Cons.prems(2)
  obtain st' rs where "set_steps st1 as = Some (st', rs)" "BRSet_ok st'"
      "items (table st') = foldl (spec_step eq) (items (table st1)) as"
      "spec_results eq (items (table st1)) as rs"
    by auto
  then show ?case using 1 by auto
qed simp

end

text \<open>
  C2: a hash table made by \<open>BRSetNew\<close> behaves as a mathematical set of items. Every call of any
  sequence of up to \<open>10^9\<close> additions, removals and lookups returns (no probe runs forever, whatever
  the hash function, and rebuilds succeed), each result is the item of the set equal to the argument,
  if there is one, and the count is the number of items.
\<close>

theorem brset_refines_set:
  assumes "set_keys hash eq" "capacity \<le> 1000000000" "length ops \<le> 1000000000"
  shows "\<exists>st st' rs. BRSetNew hash eq capacity = Some st \<and> set_steps st ops = Some (st', rs) \<and>
    spec_results eq {} ops rs \<and> BRSetCount st' = card (foldl (spec_step eq) {} ops)"
proof -
  obtain st where st: "BRSetNew hash eq capacity = Some st" "set_keys.BRSet_ok hash eq st"
      "items (table st) = {}"
    using set_keys.new_ok [OF assms(1,2)] by blast
  have "itemCount st = 0"
    using set_keys.count_items [OF assms(1) st(2)] st(3) by (simp add: BRSetCount_def)
  then obtain st' rs where "set_steps st ops = Some (st', rs)" "set_keys.BRSet_ok hash eq st'"
      "items (table st') = foldl (spec_step eq) {} ops" "spec_results eq {} ops rs"
    using set_keys.steps_ok [OF assms(1) st(2), of ops] st(3) assms(3) by auto
  then show ?thesis using st(1) set_keys.count_items [OF assms(1)] by auto
qed

text \<open>Keys that all collide are no exception.\<close>

interpretation same_hash: set_keys "\<lambda>x :: nat. 5" "\<lambda>x y. x mod 10 = y mod 10"
  by unfold_locales simp_all

theorem brset_refines_set_witness:
  "\<exists>st st' rs. BRSetNew (\<lambda>x :: nat. 5) (\<lambda>x y. x mod 10 = y mod 10) 2 = Some st \<and>
     set_steps st [Add 1, Add 2, Add 11, Remove 2, Get 21] = Some (st', rs) \<and> BRSetCount st' = 1"
proof -
  have "foldl (spec_step (\<lambda>x y. x mod 10 = y mod 10)) {} [Add 1, Add 2, Add 11, Remove 2, Get (21 :: nat)] = {11}"
    by auto
  then show ?thesis
    using brset_refines_set [OF same_hash.set_keys_axioms, of 2 "[Add 1, Add 2, Add 11, Remove 2, Get 21]"]
    by auto
qed

end
