(* ===== verification/BRUInt256.thy ===== *)
theory BRUInt256
  imports BRInt
begin

text \<open>
  \<open>src/Modules/core/BRInt.h\<close>: comparison and arithmetic on \<open>UInt256\<close>, used for the difficulty
  targets of \<open>BRMerkleBlock.c\<close>.

  The members \<open>u32[8]\<close> and \<open>u64[4]\<close> of the C union are the little endian limbs of the number
  (\<open>limbs\<close>, with \<open>of_limbs\<close> for a union written limb by limb); the loops over limbs are
  recursions on these lists with the carry of the C code at its width. The lemmas show that the
  loops compute the arithmetic of \<open>256 word\<close>, and that \<open>divide\<close> does so only as long as the
  \<open>uint8_t\<close> result of \<open>bits\<close> does not overflow.
\<close>

section \<open>Limbs\<close>

primrec limbs :: "nat \<Rightarrow> 'b::len word \<Rightarrow> 'a::len word list" where
  "limbs 0 w = []"
| "limbs (Suc n) w = ucast w # limbs n (drop_bit LENGTH('a) w)"

fun limbs_val :: "'a::len word list \<Rightarrow> nat" where
  "limbs_val [] = 0"
| "limbs_val (x # xs) = unat x + 2 ^ LENGTH('a) * limbs_val xs"

definition of_limbs :: "'a::len word list \<Rightarrow> 'b::len word" where
  "of_limbs xs = word_of_nat (limbs_val xs)"

abbreviation u32s :: "UInt256 \<Rightarrow> u32 list" where "u32s \<equiv> limbs 8"
abbreviation u64s :: "UInt256 \<Rightarrow> u64 list" where "u64s \<equiv> limbs 4"

lemma length_limbs [simp]: "length (limbs n w) = n"
  by (induction n arbitrary: w) simp_all

lemma limbs_val_limbs:
  "limbs_val (limbs n w :: 'a::len word list) = unat w mod 2 ^ (LENGTH('a) * n)"
proof (induction n arbitrary: w)
  case (Suc n)
  have "unat (drop_bit LENGTH('a) w) = unat w div 2 ^ LENGTH('a)"
    by (rule unat_drop_bit_div)
  then show ?case
    using Suc.IH [of "drop_bit LENGTH('a) w"]
    by (simp add: unat_ucast_mod power_add mod_mult2_eq)
qed simp

lemma limbs_val_less: "limbs_val (xs :: 'a::len word list) < 2 ^ (LENGTH('a) * length xs)"
proof (induction xs)
  case (Cons x xs)
  let ?b = "2 ^ LENGTH('a) :: nat"
  have "limbs_val (x # xs) < ?b * Suc (limbs_val xs)" by simp
  also have "\<dots> \<le> ?b * 2 ^ (LENGTH('a) * length xs)" using Cons.IH by (intro mult_le_mono2) simp
  finally show ?case by (simp add: power_add)
qed simp

lemma unat_256: "unat (a :: UInt256) mod 2 ^ 256 = unat a"
proof -
  have "unat a < 2 ^ LENGTH(256)" by (rule unsigned_less)
  then show ?thesis by (simp del: power_numeral)
qed

lemma u32s_val [simp]: "limbs_val (u32s a) = unat a"
  using unat_256 [of a] by (simp add: limbs_val_limbs)

lemma u64s_val [simp]: "limbs_val (u64s a) = unat a"
  using unat_256 [of a] by (simp add: limbs_val_limbs)

lemma of_limbs_u32s [simp]: "of_limbs (u32s a) = a"
  by (simp add: of_limbs_def)

lemma of_limbs_u64s [simp]: "of_limbs (u64s a) = a"
  by (simp add: of_limbs_def)

text \<open>Lists of the same length with the same value are equal, most significant limb first.\<close>

lemma limbs_val_inject:
  "length xs = length ys \<Longrightarrow> limbs_val xs = limbs_val ys \<Longrightarrow> xs = (ys :: 'a::len word list)"
proof (induction xs ys rule: list_induct2)
  case (Cons x xs y ys)
  let ?b = "2 ^ LENGTH('a) :: nat"
  have eq: "unat x + ?b * limbs_val xs = unat y + ?b * limbs_val ys" using Cons.prems by simp
  have "(unat x + ?b * limbs_val xs) mod ?b = unat x" "(unat y + ?b * limbs_val ys) mod ?b = unat y"
    by (simp_all add: unsigned_less)
  then have xy: "x = y" using eq by (metis word_unat_eq_iff)
  then show ?case using eq Cons.IH by simp
qed simp

lemma unat_of_limbs:
  assumes "LENGTH('a) * length xs \<le> LENGTH('b)"
  shows "unat (of_limbs (xs :: 'a::len word list) :: 'b::len word) = limbs_val xs"
proof -
  have "limbs_val xs < 2 ^ (LENGTH('a) * length xs)" by (rule limbs_val_less)
  also have "(2::nat) ^ (LENGTH('a) * length xs) \<le> 2 ^ LENGTH('b)"
    using assms by (intro power_increasing) auto
  finally show ?thesis by (simp add: of_limbs_def unsigned_of_nat take_bit_nat_eq_self)
qed

lemma nth_limbs:
  "i < n \<Longrightarrow> (limbs n w :: 'a::len word list) ! i = ucast (drop_bit (LENGTH('a) * i) w)"
proof (induction n arbitrary: w i)
  case (Suc n)
  then show ?case by (cases i) (simp_all add: algebra_simps)
qed simp

lemma limbs_val_or:
  "limbs_val (x # xs) = (unat (x :: 'a::len word) OR push_bit LENGTH('a) (limbs_val xs))"
proof -
  have "unat x AND push_bit LENGTH('a) (limbs_val xs) = 0"
    by (rule bit_eqI) (auto simp: bit_simps dest: bit_imp_le_length)
  from disjunctive_add_eq_or [OF this] show ?thesis by (simp add: push_bit_eq_mult mult.commute)
qed

lemma bit_limbs_val:
  "bit (limbs_val (xs :: 'a::len word list)) n \<longleftrightarrow>
     n div LENGTH('a) < length xs \<and> bit (xs ! (n div LENGTH('a))) (n mod LENGTH('a))"
proof (induction xs arbitrary: n)
  case (Cons x xs)
  show ?case
  proof (cases "n < LENGTH('a)")
    case True
    then show ?thesis by (simp add: limbs_val_or bit_simps del: limbs_val.simps)
  next
    case False
    then obtain m where n: "n = m + LENGTH('a)" by (metis add.commute le_Suc_ex not_less)
    then have "\<not> bit x n" by (auto dest: bit_imp_le_length)
    moreover have "n div LENGTH('a) = Suc (m div LENGTH('a))"
      using n div_add_self2 [of "LENGTH('a)" m] by simp
    ultimately show ?thesis using n Cons.IH [of m]
      by (simp add: limbs_val_or bit_simps del: limbs_val.simps)
  qed
qed simp

lemma bit_of_limbs:
  "bit (of_limbs (xs :: 'a::len word list) :: 'b::len word) n \<longleftrightarrow> n < LENGTH('b) \<and>
     n div LENGTH('a) < length xs \<and> bit (xs ! (n div LENGTH('a))) (n mod LENGTH('a))"
  by (simp add: of_limbs_def bit_of_nat_iff bit_limbs_val)

section \<open>Comparison\<close>

definition UInt256Eq :: "UInt256 \<Rightarrow> UInt256 \<Rightarrow> bool" where
  "UInt256Eq a b \<longleftrightarrow> (let a = u64s a; b = u64s b in
     a ! 0 = b ! 0 \<and> a ! 1 = b ! 1 \<and> a ! 2 = b ! 2 \<and> a ! 3 = b ! 3)"

definition UInt256SupEq :: "UInt256 \<Rightarrow> UInt256 \<Rightarrow> bool" where
  "UInt256SupEq a b \<longleftrightarrow> (let a = u64s a; b = u64s b in
     a ! 3 > b ! 3 \<or> (a ! 3 = b ! 3 \<and> (a ! 2 > b ! 2 \<or>
       (a ! 2 = b ! 2 \<and> (a ! 1 > b ! 1 \<or> (a ! 1 = b ! 1 \<and> a ! 0 \<ge> b ! 0))))))"

definition UInt256IsZero :: "UInt256 \<Rightarrow> bool" where
  "UInt256IsZero u \<longleftrightarrow> (let u = u64s u in (u ! 0 OR u ! 1 OR u ! 2 OR u ! 3) = 0)"

definition UInt256Reverse :: "UInt256 \<Rightarrow> UInt256" where
  "UInt256Reverse u = word_of_le (map (\<lambda>i. le_of_word 32 u ! (31 - i)) [0..<32])"

lemma list4: "length xs = 4 \<Longrightarrow> xs = [xs ! 0, xs ! 1, xs ! 2, xs ! 3]"
  by (intro nth_equalityI) (auto simp: less_Suc_eq nth_Cons' numeral_eq_Suc)

lemma u64s_eq_iff: "u64s a = u64s b \<longleftrightarrow> a = b"
  by (metis of_limbs_u64s)

lemma UInt256Eq_iff [simp]: "UInt256Eq a b \<longleftrightarrow> a = b"
proof
  assume "UInt256Eq a b"
  then have "u64s a = u64s b"
    using list4 [of "u64s a"] list4 [of "u64s b"] by (simp add: UInt256Eq_def Let_def)
  then show "a = b" by (simp add: u64s_eq_iff)
qed (simp add: UInt256Eq_def)

lemma UInt256IsZero_iff [simp]: "UInt256IsZero u \<longleftrightarrow> u = 0"
proof
  assume "UInt256IsZero u"
  then have "u64s u ! 0 = 0 \<and> u64s u ! 1 = 0 \<and> u64s u ! 2 = 0 \<and> u64s u ! 3 = 0"
    by (simp add: UInt256IsZero_def Let_def or_eq_0_iff)
  then have "u64s u = [0, 0, 0, 0]" using list4 [of "u64s u"] by simp
  then have "limbs_val (u64s u) = 0" by simp
  then show "u = 0" by (simp add: unat_eq_zero)
qed (simp add: UInt256IsZero_def numeral_eq_Suc)

text \<open>Comparison of lists of limbs from the most significant end.\<close>

lemma limbs_val_snoc:
  "limbs_val (xs @ [x :: 'a::len word]) = limbs_val xs + 2 ^ (LENGTH('a) * length xs) * unat x"
  by (induction xs) (simp_all add: power_add algebra_simps)

lemma limbs_val_snoc_le:
  assumes "length xs = length ys"
  shows "limbs_val (ys @ [y]) \<le> limbs_val (xs @ [x :: 'a::len word]) \<longleftrightarrow>
    y < x \<or> x = y \<and> limbs_val ys \<le> limbs_val xs"
proof -
  let ?B = "2 ^ (LENGTH('a) * length xs) :: nat"
  have bx: "limbs_val xs < ?B" and by': "limbs_val ys < ?B"
    using limbs_val_less [of xs] limbs_val_less [of ys] assms by simp_all
  have step: "u + ?B * p < v + ?B * q" if "u < ?B" "p < q" for u v p q :: nat
  proof -
    have "?B * Suc p \<le> ?B * q" using that by (intro mult_le_mono2) simp
    then show ?thesis using that by simp
  qed
  consider "unat y < unat x" | "unat y = unat x" | "unat x < unat y" by linarith
  then show ?thesis
  proof cases
    case 1
    then show ?thesis using step [OF by' 1, of "limbs_val xs"] assms
      by (simp add: limbs_val_snoc word_less_nat_alt)
  next
    case 2
    then have "x = y" by (simp add: word_unat_eq_iff)
    then show ?thesis using assms by (simp add: limbs_val_snoc)
  next
    case 3
    then show ?thesis using step [OF bx 3, of "limbs_val ys"] assms
      by (auto simp: limbs_val_snoc word_less_nat_alt)
  qed
qed

lemma UInt256SupEq_iff [simp]: "UInt256SupEq a b \<longleftrightarrow> b \<le> a"
proof -
  let ?x = "u64s a" and ?y = "u64s b"
  have "b \<le> a \<longleftrightarrow> limbs_val ?y \<le> limbs_val ?x" by (simp add: word_le_nat_alt)
  also have "\<dots> \<longleftrightarrow> limbs_val ((([] @ [?y!0]) @ [?y!1]) @ [?y!2] @ [?y!3])
      \<le> limbs_val ((([] @ [?x!0]) @ [?x!1]) @ [?x!2] @ [?x!3])"
    using list4 [of ?x] list4 [of ?y] by simp
  also have "\<dots> \<longleftrightarrow> UInt256SupEq a b"
    unfolding append_assoc [symmetric]
    by (subst limbs_val_snoc_le, simp)+
      (auto simp: UInt256SupEq_def Let_def order_le_less)
  finally show ?thesis by simp
qed

section \<open>Bit length\<close>

text \<open>The two loops of \<open>bits\<close>; the result of the C function is a \<open>uint8_t\<close>.\<close>

primrec bits_in :: "u32 \<Rightarrow> nat \<Rightarrow> nat \<Rightarrow> nat" where
  "bits_in w pos 0 = 32 * pos + 1"
| "bits_in w pos (Suc b) =
     (if w AND push_bit (Suc b) 1 \<noteq> 0 then 32 * pos + Suc b + 1 else bits_in w pos b)"

primrec bits_from :: "u32 list \<Rightarrow> nat \<Rightarrow> nat" where
  "bits_from n 0 = 0"
| "bits_from n (Suc pos) = (if n ! pos \<noteq> 0 then bits_in (n ! pos) pos 31 else bits_from n pos)"

definition bits :: "UInt256 \<Rightarrow> u8" where
  "bits number = word_of_nat (bits_from (u32s number) 8)"

section \<open>Addition, subtraction, multiplication\<close>

fun add_limbs :: "u32 list \<Rightarrow> u32 list \<Rightarrow> u64 \<Rightarrow> u32 list" where
  "add_limbs (x # xs) (y # ys) carry =
     (let sum = ucast x + ucast y + carry in ucast sum # add_limbs xs ys (drop_bit 32 sum))"
| "add_limbs _ _ carry = []"

definition add :: "UInt256 \<Rightarrow> UInt256 \<Rightarrow> UInt256" where
  "add a b = of_limbs (add_limbs (u32s a) (u32s b) 0)"

definition addOne :: "UInt256 \<Rightarrow> UInt256" where
  "addOne a = add a (of_limbs ([1, 0, 0, 0] :: u64 list))"

definition neg :: "UInt256 \<Rightarrow> UInt256" where
  "neg a = of_limbs (map (\<lambda>x. NOT x) (u64s a))"

definition subtract :: "UInt256 \<Rightarrow> UInt256 \<Rightarrow> UInt256" where
  "subtract a b = add a (addOne (neg b))"

fun multiply_limbs :: "u32 list \<Rightarrow> u32 \<Rightarrow> u64 \<Rightarrow> u32 list" where
  "multiply_limbs (x # xs) b carry =
     (let n = carry + ucast b * ucast x in
      ucast (n AND 0xffffffff) # multiply_limbs xs b (drop_bit 32 n))"
| "multiply_limbs [] b carry = []"

definition multiplyThis32 :: "UInt256 \<Rightarrow> u32 \<Rightarrow> UInt256" where
  "multiplyThis32 a b = of_limbs (multiply_limbs (u32s a) b 0)"

section \<open>Shifts\<close>

definition shift_left_step :: "u64 list \<Rightarrow> nat \<Rightarrow> nat \<Rightarrow> u64 list \<Rightarrow> nat \<Rightarrow> u64 list" where
  "shift_left_step a k b r i = (let
     r = (if i + k + 1 < 4 \<and> b \<noteq> 0
          then r[i + k + 1 := r ! (i + k + 1) OR drop_bit (64 - b) (a ! i)] else r)
   in if i + k < 4 then r[i + k := r ! (i + k) OR push_bit b (a ! i)] else r)"

definition shiftLeft :: "UInt256 \<Rightarrow> u8 \<Rightarrow> UInt256" where
  "shiftLeft a bts = (let k = unat bts div 64; b = unat bts mod 64 in
     of_limbs (foldl (shift_left_step (u64s a) k b) [0, 0, 0, 0] [0, 1, 2, 3]))"

definition shift_right_step :: "u64 list \<Rightarrow> nat \<Rightarrow> nat \<Rightarrow> u64 list \<Rightarrow> nat \<Rightarrow> u64 list" where
  "shift_right_step a k b r i = (let
     r = (if i \<ge> k + 1 \<and> b \<noteq> 0
          then r[i - k - 1 := r ! (i - k - 1) OR push_bit (64 - b) (a ! i)] else r)
   in if i \<ge> k then r[i - k := r ! (i - k) OR drop_bit b (a ! i)] else r)"

definition shiftRight :: "UInt256 \<Rightarrow> u8 \<Rightarrow> UInt256" where
  "shiftRight a bts = (let k = unat bts div 64; b = unat bts mod 64 in
     of_limbs (foldl (shift_right_step (u64s a) k b) [0, 0, 0, 0] [0, 1, 2, 3]))"

section \<open>Division\<close>

definition set_quotient_bit :: "UInt256 \<Rightarrow> nat \<Rightarrow> UInt256" where
  "set_quotient_bit r shift =
     of_limbs ((u32s r)[shift div 32 := u32s r ! (shift div 32) OR push_bit (shift mod 32) 1])"

text \<open>
  The loop of \<open>divide\<close>, with the number of rounds left as first argument: \<open>shift\<close> goes from
  this number minus one down to 0. The result is the quotient.
\<close>

primrec divide_loop :: "nat \<Rightarrow> UInt256 \<Rightarrow> UInt256 \<Rightarrow> UInt256 \<Rightarrow> UInt256" where
  "divide_loop 0 num dv r = r"
| "divide_loop (Suc shift) num dv r =
     (if UInt256SupEq num dv
      then divide_loop shift (subtract num dv) (shiftRight dv 1) (set_quotient_bit r shift)
      else divide_loop shift num (shiftRight dv 1) r)"

text \<open>\<open>None\<close> is the failure of \<open>assert (div_bits != 0)\<close>.\<close>

definition divide :: "UInt256 \<Rightarrow> UInt256 \<Rightarrow> UInt256 option" where
  "divide a b = (let num_bits = unat (bits a); div_bits = unat (bits b) in
     if div_bits = 0 then None
     else if div_bits > num_bits then Some 0
     else let shift = num_bits - div_bits in
       Some (divide_loop (Suc shift) a (shiftLeft b (word_of_nat shift)) 0))"

section \<open>Compact targets\<close>

definition setCompact :: "u32 \<Rightarrow> UInt256" where
  "setCompact nCompact = (let
     nSize = sint nCompact div 2 ^ 24;
     nWord = ucast (nCompact AND 0x007fffff)
   in if nSize \<le> 3 then shiftRight nWord (word_of_int (8 * (3 - nSize)))
      else shiftLeft nWord (word_of_int (8 * (nSize - 3))))"

text \<open>\<open>None\<close> is the failure of an assertion.\<close>

definition getCompact :: "UInt256 \<Rightarrow> u32 option" where
  "getCompact number = (let
     nSize = (unat (bits number) + 7) div 8;
     nCompact = (if nSize \<le> 3 then push_bit (8 * (3 - nSize)) (u32s number ! 0)
       else u32s (shiftRight number (word_of_nat (8 * (nSize - 3)))) ! 0);
     (nCompact, nSize) = (if nCompact AND 0x00800000 \<noteq> 0 then (drop_bit 8 nCompact, nSize + 1)
       else (nCompact, nSize))
   in if nCompact AND NOT 0x007fffff \<noteq> 0 \<or> nSize \<ge> 256 then None
      else Some (nCompact OR push_bit 24 (word_of_nat nSize)))"

section \<open>The loops compute the arithmetic of words\<close>

lemma carry_split:
  fixes s :: u64
  shows "unat (ucast s :: u32) + 2 ^ 32 * unat (drop_bit 32 s) = unat s"
  using unat_drop_bit_div [of 32 s] by (simp add: unat_ucast_mod)

lemma unat_32: "unat (x :: u32) < 2 ^ 32"
  using unsigned_less [of x] by simp

lemma mod_power_32: "n mod 2 ^ (32 * length (x # xs)) = n mod (2 ^ 32 * 2 ^ (32 * length xs) :: nat)"
  by (simp add: power_add)

lemma limb_step:
  fixes s v m t :: nat
  assumes "l + B * c = s" "l < B" "v = (t + c) mod m"
  shows "l + B * v = (s + B * t) mod (B * m)"
proof -
  have "s + B * t = l + B * (t + c)" using assms(1) by (simp add: algebra_simps)
  moreover have "(l + B * (t + c)) mod (B * m) = l + B * ((t + c) mod m)"
    using assms(2) by (simp add: mod_mult2_eq)
  ultimately show ?thesis using assms(3) by simp
qed

lemma length_add_limbs [simp]:
  "length xs = length ys \<Longrightarrow> length (add_limbs xs ys c) = length xs"
  by (induction xs ys arbitrary: c rule: list_induct2) (simp_all add: Let_def)

lemma add_limbs_val:
  "length xs = length ys \<Longrightarrow> unat c \<le> 1 \<Longrightarrow>
   limbs_val (add_limbs xs ys c) = (limbs_val xs + limbs_val ys + unat c) mod 2 ^ (32 * length xs)"
proof (induction xs ys arbitrary: c rule: list_induct2)
  case (Cons x xs y ys)
  define s :: u64 where "s = ucast x + ucast y + c"
  have b: "unat x < 2 ^ 32" "unat y < 2 ^ 32"
    using unsigned_less [of x] unsigned_less [of y] by simp_all
  have s: "unat s = unat x + unat y + unat c"
    using b Cons.prems by (simp add: s_def unat_word_ariths unat_ucast_up)
  have "unat (drop_bit 32 s) \<le> 1"
    using b Cons.prems s carry_split [of s] by simp
  then have "limbs_val (add_limbs xs ys (drop_bit 32 s)) =
      ((limbs_val xs + limbs_val ys) + unat (drop_bit 32 s)) mod 2 ^ (32 * length xs)"
    using Cons.IH by simp
  note step = limb_step [OF carry_split [of s] _ this]
  have sum: "limbs_val (x # xs) + limbs_val (y # ys) + unat c =
      unat s + 2 ^ 32 * (limbs_val xs + limbs_val ys)"
    unfolding s limbs_val.simps by simp
  have res: "limbs_val (add_limbs (x # xs) (y # ys) c) =
      unat (ucast s :: u32) + 2 ^ 32 * limbs_val (add_limbs xs ys (drop_bit 32 s))"
    by (simp add: s_def Let_def)
  show ?case unfolding sum res mod_power_32 using step [OF unat_32] by assumption
qed simp

lemma add_word [simp]: "add a b = a + b"
  by (rule word_unat_eq_iff [THEN iffD2])
    (simp add: add_def unat_of_limbs add_limbs_val unat_word_ariths)

lemma neg_word [simp]: "neg a = NOT a"
  by (rule bit_word_eqI)
    (auto simp: neg_def bit_of_limbs nth_limbs bit_simps)

lemma of_limbs_one: "of_limbs ([1, 0, 0, 0] :: u64 list) = (1 :: UInt256)"
  by (simp add: of_limbs_def)

lemma subtract_word [simp]: "subtract a b = a - b"
  by (simp add: subtract_def addOne_def of_limbs_one minus_eq_not_plus_1 [symmetric])

lemma length_multiply_limbs [simp]: "length (multiply_limbs xs b c) = length xs"
  by (induction xs arbitrary: c) (simp_all add: Let_def)

lemma ucast_low_32: "(ucast (n AND 0xffffffff) :: u32) = ucast (n :: u64)"
proof -
  have m: "(0xffffffff :: u64) = mask 32" by (simp add: mask_eq_exp_minus_1)
  show ?thesis unfolding m by (intro bit_word_eqI) (simp add: bit_simps)
qed

lemma multiply_limbs_val:
  "unat c < 2 ^ 32 \<Longrightarrow>
   limbs_val (multiply_limbs xs b c) = (limbs_val xs * unat b + unat c) mod 2 ^ (32 * length xs)"
proof (induction xs arbitrary: c)
  case (Cons x xs)
  define n :: u64 where "n = c + ucast b * ucast x"
  have le: "unat b * unat x + unat c < 2 ^ 32 * 2 ^ 32"
  proof -
    have "unat b * unat x \<le> (2 ^ 32 - 1) * (2 ^ 32 - 1)"
      using unat_32 [of b] unat_32 [of x] by (intro mult_le_mono) simp_all
    then show ?thesis using Cons.prems by simp
  qed
  have n: "unat n = unat b * unat x + unat c"
    using le by (simp add: n_def unat_word_ariths unat_ucast_up mod_mult_left_eq)
  have "unat (drop_bit 32 n) < 2 ^ 32"
    using le n unat_drop_bit_div [of 32 n] by simp
  then have "limbs_val (multiply_limbs xs b (drop_bit 32 n)) =
      (limbs_val xs * unat b + unat (drop_bit 32 n)) mod 2 ^ (32 * length xs)"
    by (rule Cons.IH)
  note step = limb_step [OF carry_split [of n] _ this]
  have sum: "limbs_val (x # xs) * unat b + unat c = unat n + 2 ^ 32 * (limbs_val xs * unat b)"
    unfolding n limbs_val.simps by (simp add: distrib_right mult.commute [of "unat x"])
  have res: "limbs_val (multiply_limbs (x # xs) b c) =
      unat (ucast n :: u32) + 2 ^ 32 * limbs_val (multiply_limbs xs b (drop_bit 32 n))"
    by (simp add: n_def Let_def ucast_low_32)
  show ?case unfolding sum res mod_power_32 using step [OF unat_32] by assumption
qed simp

lemma multiplyThis32_word [simp]: "multiplyThis32 a b = a * ucast b"
  by (rule word_unat_eq_iff [THEN iffD2])
    (simp add: multiplyThis32_def unat_of_limbs multiply_limbs_val unat_word_ariths unat_ucast_up)

text \<open>The limbs after the shift loops.\<close>

lemma u8_limb_cases:
  obtains k b where "unat (s :: u8) div 64 = k" "unat s mod 64 = b" "unat s = 64 * k + b" "b < 64"
    "k = 0 \<or> k = 1 \<or> k = 2 \<or> k = 3"
proof -
  have "unat s div 64 < 4" using unat_byte [of s] by (simp add: less_mult_imp_div_less)
  then have "unat s div 64 = 0 \<or> unat s div 64 = 1 \<or> unat s div 64 = 2 \<or> unat s div 64 = 3"
    by linarith
  then show thesis using that [of "unat s div 64" "unat s mod 64"] by simp
qed

lemma shift_left_list:
  "b \<noteq> 0 \<Longrightarrow> foldl (shift_left_step a 0 b) [0, 0, 0, 0] [0, 1, 2, 3] =
     [push_bit b (a ! 0), push_bit b (a ! 1) OR drop_bit (64 - b) (a ! 0),
      push_bit b (a ! 2) OR drop_bit (64 - b) (a ! 1), push_bit b (a ! 3) OR drop_bit (64 - b) (a ! 2)]"
  "b \<noteq> 0 \<Longrightarrow> foldl (shift_left_step a 1 b) [0, 0, 0, 0] [0, 1, 2, 3] =
     [0, push_bit b (a ! 0), push_bit b (a ! 1) OR drop_bit (64 - b) (a ! 0),
      push_bit b (a ! 2) OR drop_bit (64 - b) (a ! 1)]"
  "b \<noteq> 0 \<Longrightarrow> foldl (shift_left_step a 2 b) [0, 0, 0, 0] [0, 1, 2, 3] =
     [0, 0, push_bit b (a ! 0), push_bit b (a ! 1) OR drop_bit (64 - b) (a ! 0)]"
  "b \<noteq> 0 \<Longrightarrow> foldl (shift_left_step a 3 b) [0, 0, 0, 0] [0, 1, 2, 3] = [0, 0, 0, push_bit b (a ! 0)]"
  "foldl (shift_left_step a 0 0) [0, 0, 0, 0] [0, 1, 2, 3] = [a ! 0, a ! 1, a ! 2, a ! 3]"
  "foldl (shift_left_step a 1 0) [0, 0, 0, 0] [0, 1, 2, 3] = [0, a ! 0, a ! 1, a ! 2]"
  "foldl (shift_left_step a 2 0) [0, 0, 0, 0] [0, 1, 2, 3] = [0, 0, a ! 0, a ! 1]"
  "foldl (shift_left_step a 3 0) [0, 0, 0, 0] [0, 1, 2, 3] = [0, 0, 0, a ! 0]"
  by (simp_all add: shift_left_step_def or.commute)

lemma shift_left_limbs:
  assumes "k = 0 \<or> k = 1 \<or> k = 2 \<or> k = 3" "q < 4"
  shows "foldl (shift_left_step a k b) [0, 0, 0, 0] [0, 1, 2, 3] ! q =
    (if k \<le> q then push_bit b (a ! (q - k)) else 0) OR
    (if k < q \<and> b \<noteq> 0 then drop_bit (64 - b) (a ! (q - k - 1)) else 0)"
proof -
  have q: "q = 0 \<or> q = 1 \<or> q = 2 \<or> q = 3" using assms(2) by linarith
  show ?thesis
  proof (cases "b = 0")
    case True
    show ?thesis using assms(1) q unfolding True
      by (elim disjE; hypsubst; unfold shift_left_list(5-8); simp)
  next
    case False
    show ?thesis using assms(1) q
      by (elim disjE; hypsubst; unfold shift_left_list(1-4) [OF False]; simp add: False)
  qed
qed

lemma length_shift_left_step [simp]: "length (shift_left_step a k b r i) = length r"
  by (simp add: shift_left_step_def Let_def)

lemma length_shift_right_step [simp]: "length (shift_right_step a k b r i) = length r"
  by (simp add: shift_right_step_def Let_def)

text \<open>Bit \<open>n\<close> of a number shifted by \<open>s\<close>, in terms of the limb and the bit in it.\<close>

lemma shift_index_left:
  fixes n s :: nat
  assumes "n = 64 * q + m" "m < 64" "s = 64 * k + b" "b < 64"
  shows "b \<le> m \<Longrightarrow> k \<le> q \<Longrightarrow> s \<le> n \<and> n - s = 64 * (q - k) + (m - b)"
    and "m < b \<Longrightarrow> k < q \<Longrightarrow> s \<le> n \<and> n - s = 64 * (q - k - 1) + (64 - b + m)"
    and "q < k \<Longrightarrow> n < s" and "m < b \<Longrightarrow> q \<le> k \<Longrightarrow> n < s"
  using assms by (auto simp: algebra_simps)

lemma shift_index_right:
  fixes n s :: nat
  assumes "n = 64 * q + m" "s = 64 * k + b"
  shows "s + n = 64 * (q + k) + (b + m)"
    and "64 \<le> b + m \<Longrightarrow> b < 64 \<Longrightarrow> s + n = 64 * (q + k + 1) + (m - (64 - b))"
  using assms by auto

lemma shiftLeft_word [simp]: "shiftLeft a s = push_bit (unat s) a"
proof (rule u8_limb_cases [of s])
  fix k b assume kb: "unat s div 64 = k" "unat s mod 64 = b" "unat s = 64 * k + b" "b < 64"
    and k: "k = 0 \<or> k = 1 \<or> k = 2 \<or> k = 3"
  show ?thesis
  proof (rule bit_word_eqI)
    fix n assume n: "n < LENGTH(256)"
    define q m where "q = n div 64" and "m = n mod 64"
    have nq: "n = 64 * q + m" "m < 64" "q < 4" using n by (auto simp: q_def m_def)
    have "shiftLeft a s =
        of_limbs (foldl (shift_left_step (u64s a) k b) [0, 0, 0, 0] [0, 1, 2, 3])"
      unfolding shiftLeft_def Let_def kb(1,2) ..
    then have "bit (shiftLeft a s) n \<longleftrightarrow>
        bit (foldl (shift_left_step (u64s a) k b) [0, 0, 0, 0] [0, 1, 2, 3] ! q) m"
      using n nq(3) unfolding q_def m_def by (simp add: bit_of_limbs)
    also have "\<dots> \<longleftrightarrow> bit (push_bit (unat s) a) n"
      unfolding shift_left_limbs [OF k nq(3)] using shift_index_left [OF nq(1,2) kb(3,4)]
        nq(2,3) kb(4) n
      by (cases "b \<le> m"; cases k q rule: linorder_cases)
        (auto simp: bit_simps nth_limbs)
    finally show "bit (shiftLeft a s) n = bit (push_bit (unat s) a) n" .
  qed
qed

lemma beyond_256: "256 \<le> n \<Longrightarrow> \<not> bit (a :: UInt256) n"
  by (auto dest: bit_imp_le_length)

lemma shift_right_list:
  "b \<noteq> 0 \<Longrightarrow> foldl (shift_right_step a 0 b) [0, 0, 0, 0] [0, 1, 2, 3] =
     [drop_bit b (a ! 0) OR push_bit (64 - b) (a ! 1), drop_bit b (a ! 1) OR push_bit (64 - b) (a ! 2),
      drop_bit b (a ! 2) OR push_bit (64 - b) (a ! 3), drop_bit b (a ! 3)]"
  "b \<noteq> 0 \<Longrightarrow> foldl (shift_right_step a 1 b) [0, 0, 0, 0] [0, 1, 2, 3] =
     [drop_bit b (a ! 1) OR push_bit (64 - b) (a ! 2), drop_bit b (a ! 2) OR push_bit (64 - b) (a ! 3),
      drop_bit b (a ! 3), 0]"
  "b \<noteq> 0 \<Longrightarrow> foldl (shift_right_step a 2 b) [0, 0, 0, 0] [0, 1, 2, 3] =
     [drop_bit b (a ! 2) OR push_bit (64 - b) (a ! 3), drop_bit b (a ! 3), 0, 0]"
  "b \<noteq> 0 \<Longrightarrow> foldl (shift_right_step a 3 b) [0, 0, 0, 0] [0, 1, 2, 3] = [drop_bit b (a ! 3), 0, 0, 0]"
  "foldl (shift_right_step a 0 0) [0, 0, 0, 0] [0, 1, 2, 3] = [a ! 0, a ! 1, a ! 2, a ! 3]"
  "foldl (shift_right_step a 1 0) [0, 0, 0, 0] [0, 1, 2, 3] = [a ! 1, a ! 2, a ! 3, 0]"
  "foldl (shift_right_step a 2 0) [0, 0, 0, 0] [0, 1, 2, 3] = [a ! 2, a ! 3, 0, 0]"
  "foldl (shift_right_step a 3 0) [0, 0, 0, 0] [0, 1, 2, 3] = [a ! 3, 0, 0, 0]"
  by (simp_all add: shift_right_step_def)

lemma shift_right_limbs:
  assumes "k = 0 \<or> k = 1 \<or> k = 2 \<or> k = 3" "q < 4"
  shows "foldl (shift_right_step a k b) [0, 0, 0, 0] [0, 1, 2, 3] ! q =
    (if q + k < 4 then drop_bit b (a ! (q + k)) else 0) OR
    (if q + k + 1 < 4 \<and> b \<noteq> 0 then push_bit (64 - b) (a ! (q + k + 1)) else 0)"
proof -
  have q: "q = 0 \<or> q = 1 \<or> q = 2 \<or> q = 3" using assms(2) by linarith
  show ?thesis
  proof (cases "b = 0")
    case True
    show ?thesis using assms(1) q unfolding True
      by (elim disjE; hypsubst; unfold shift_right_list(5-8); simp add: numeral_2_eq_2 numeral_3_eq_3)
  next
    case False
    show ?thesis using assms(1) q
      by (elim disjE; hypsubst; unfold shift_right_list(1-4) [OF False]; simp add: False numeral_2_eq_2 numeral_3_eq_3)
  qed
qed

lemma shiftRight_word [simp]: "shiftRight a s = drop_bit (unat s) a"
proof (rule u8_limb_cases [of s])
  fix k b assume kb: "unat s div 64 = k" "unat s mod 64 = b" "unat s = 64 * k + b" "b < 64"
    and k: "k = 0 \<or> k = 1 \<or> k = 2 \<or> k = 3"
  show ?thesis
  proof (rule bit_word_eqI)
    fix n assume n: "n < LENGTH(256)"
    define q m where "q = n div 64" and "m = n mod 64"
    have nq: "n = 64 * q + m" "m < 64" "q < 4" using n by (auto simp: q_def m_def)
    have "shiftRight a s =
        of_limbs (foldl (shift_right_step (u64s a) k b) [0, 0, 0, 0] [0, 1, 2, 3])"
      unfolding shiftRight_def Let_def kb(1,2) ..
    then have "bit (shiftRight a s) n \<longleftrightarrow>
        bit (foldl (shift_right_step (u64s a) k b) [0, 0, 0, 0] [0, 1, 2, 3] ! q) m"
      using n nq(3) unfolding q_def m_def by (simp add: bit_of_limbs)
    also have "\<dots> \<longleftrightarrow> bit a (unat s + n)"
    proof (cases "b + m < 64")
      case True
      then show ?thesis
        unfolding shift_right_limbs [OF k nq(3)] shift_index_right(1) [OF nq(1) kb(3)]
        by (auto simp: bit_simps nth_limbs beyond_256)
    next
      case False
      then have "unat s + n = 64 * (q + k + 1) + (m - (64 - b))"
        using shift_index_right(2) [OF nq(1) kb(3)] kb(4) by simp
      then show ?thesis
        unfolding shift_right_limbs [OF k nq(3)] using False nq(2) kb(4)
        by (auto simp: bit_simps nth_limbs beyond_256)
    qed
    finally show "bit (shiftRight a s) n = bit (drop_bit (unat s) a) n" by (simp add: bit_simps)
  qed
qed

section \<open>Bit length and division\<close>

text \<open>The number of bits of a natural number.\<close>

definition is_bitlen :: "nat \<Rightarrow> nat \<Rightarrow> bool" where
  "is_bitlen l n \<longleftrightarrow> n < 2 ^ l \<and> (l = 0 \<or> 2 ^ (l - 1) \<le> n)"

lemma top_bit:
  assumes "unat (w :: 'a::len word) < 2 ^ Suc n"
  shows "w AND push_bit n 1 \<noteq> 0 \<longleftrightarrow> 2 ^ n \<le> unat w"
proof -
  have "unat w div 2 ^ n < 2" using assms by (simp add: less_mult_imp_div_less mult.commute)
  then have "odd (unat w div 2 ^ n) \<longleftrightarrow> unat w div 2 ^ n \<noteq> 0"
    by (metis One_nat_def dvd_0_right less_2_cases odd_one)
  also have "\<dots> \<longleftrightarrow> 2 ^ n \<le> unat w" by (auto simp: div_eq_0_iff)
  finally have "bit (unat w) n \<longleftrightarrow> 2 ^ n \<le> unat w" by (simp add: bit_iff_odd)
  moreover have "bit (unat w) n \<longleftrightarrow> bit w n" by (simp add: bit_unsigned_iff)
  ultimately show ?thesis by (simp add: and_exp_eq_0_iff_not_bit)
qed

lemma bits_in_val:
  assumes "w \<noteq> 0" "unat w < 2 ^ Suc b"
  shows "\<exists>k. bits_in w pos b = 32 * pos + Suc k \<and> 2 ^ k \<le> unat w \<and> unat w < 2 ^ Suc k"
  using assms
proof (induction b)
  case 0
  then have "0 < unat w" by (simp add: unat_gt_0)
  then show ?case using 0 by (intro exI [of _ 0]) simp
next
  case (Suc b)
  show ?case
  proof (cases "2 ^ Suc b \<le> unat w")
    case True
    then show ?thesis using Suc.prems top_bit [OF Suc.prems(2)]
      by (intro exI [of _ "Suc b"]) simp
  next
    case False
    then show ?thesis using Suc.IH Suc.prems top_bit [OF Suc.prems(2)] by simp
  qed
qed

lemma bits_from_val:
  "n \<le> length xs \<Longrightarrow> is_bitlen (bits_from xs n) (limbs_val (take n xs))"
proof (induction n)
  case 0
  then show ?case by (simp add: is_bitlen_def)
next
  case (Suc n)
  have split: "limbs_val (take (Suc n) xs) = limbs_val (take n xs) + 2 ^ (32 * n) * unat (xs ! n)"
    using Suc.prems limbs_val_snoc [of "take n xs" "xs ! n"]
    by (simp add: take_Suc_conv_app_nth)
  show ?case
  proof (cases "xs ! n = 0")
    case True
    then show ?thesis using Suc split by simp
  next
    case False
    then obtain k where k: "bits_in (xs ! n) n 31 = 32 * n + Suc k"
        "2 ^ k \<le> unat (xs ! n)" "unat (xs ! n) < 2 ^ Suc k"
      using bits_in_val [of "xs ! n" 31 n] unat_32 [of "xs ! n"] by auto
    have "limbs_val (take n xs) < 2 ^ (32 * n)"
      using limbs_val_less [of "take n xs"] Suc.prems by simp
    moreover have "(2 :: nat) ^ (32 * n) * Suc (unat (xs ! n)) \<le> 2 ^ (32 * n) * 2 ^ Suc k"
      using k(3) by (intro mult_le_mono2) simp
    ultimately have "limbs_val (take (Suc n) xs) < 2 ^ (32 * n + Suc k)"
      unfolding split by (simp add: power_add)
    moreover have "(2 :: nat) ^ (32 * n) * 2 ^ k \<le> 2 ^ (32 * n) * unat (xs ! n)"
      using k(2) by (rule mult_le_mono2)
    then have "2 ^ (32 * n + k) \<le> limbs_val (take (Suc n) xs)"
      unfolding split power_add by (rule trans_le_add2)
    ultimately show ?thesis using k(1) False by (simp add: is_bitlen_def)
  qed
qed

lemma bits_from_unat: "is_bitlen (bits_from (u32s a) 8) (unat a)"
  using bits_from_val [of 8 "u32s a"] by simp

lemma is_bitlen_le:
  assumes "is_bitlen l n" "n < 2 ^ m"
  shows "l \<le> m"
proof (rule ccontr)
  assume l: "\<not> l \<le> m"
  then have "(2 :: nat) ^ m \<le> 2 ^ (l - 1)" by (intro power_increasing) auto
  moreover have "2 ^ (l - 1) \<le> n" using assms(1) l unfolding is_bitlen_def by simp
  ultimately show False using assms(2) by linarith
qed

lemma is_bitlen_less: "is_bitlen l n \<Longrightarrow> 2 ^ m \<le> n \<Longrightarrow> m < l"
  unfolding is_bitlen_def by (metis linorder_not_less less_le_trans le_less_trans
      power_increasing one_le_numeral order.irrefl)

lemma bits_small:
  assumes "unat a < 2 ^ 255"
  shows "is_bitlen (unat (bits a)) (unat a)"
proof -
  have "bits_from (u32s a) 8 \<le> 255" using is_bitlen_le [OF bits_from_unat assms] .
  then show ?thesis
    using bits_from_unat [of a]
    by (simp add: bits_def unsigned_of_nat take_bit_nat_eq_self del: bits_from.simps)
qed

lemma bits_large:
  assumes "2 ^ 255 \<le> unat a"
  shows "bits a = 0"
proof -
  have "unat a < 2 ^ 256" using unat_256 [of a] by (metis mod_less_divisor zero_less_power zero_less_numeral)
  then have "bits_from (u32s a) 8 = 256"
    using is_bitlen_le [OF bits_from_unat, of a 256] is_bitlen_less [OF bits_from_unat assms] by simp
  then show ?thesis by (simp add: bits_def del: bits_from.simps)
qed

text \<open>Setting a bit of the quotient that is still clear adds its power of two.\<close>

lemma set_quotient_bit_word:
  assumes "shift < 256"
  shows "set_quotient_bit r shift = r OR push_bit shift 1"
proof (rule bit_word_eqI)
  fix n assume n: "n < LENGTH(256)"
  have d: "shift div 32 < 8" using assms by simp
  have eq: "n = shift \<longleftrightarrow> n div 32 = shift div 32 \<and> n mod 32 = shift mod 32"
    by (metis div_mod_decomp)
  show "bit (set_quotient_bit r shift) n = bit (r OR push_bit shift 1) n"
    using n d eq
    by (auto simp: set_quotient_bit_def bit_of_limbs nth_list_update nth_limbs bit_simps)
qed

lemma set_quotient_bit_add:
  assumes "shift < 256" "2 ^ Suc shift dvd unat r"
  shows "unat (set_quotient_bit r shift) = unat r + 2 ^ shift"
proof -
  have "\<not> bit (unat r) shift"
    using assms(2) by (auto simp: bit_iff_odd dvd_def)
  then have "r AND push_bit shift 1 = 0" by (simp add: and_exp_eq_0_iff_not_bit bit_unsigned_iff)
  then have nat: "unat r AND push_bit shift 1 = 0"
    using \<open>\<not> bit (unat r) shift\<close> by (simp add: and_exp_eq_0_iff_not_bit)
  have "unat (r OR push_bit shift 1) = (unat r OR push_bit shift 1)"
    using assms(1) by (intro bit_eqI) (auto simp: bit_simps)
  then show ?thesis
    using disjunctive_add_eq_or [OF nat] assms(1) by (simp add: set_quotient_bit_word)
qed

text \<open>
  The invariant of the division loop before the round with a given \<open>shift\<close>: the divisor is
  shifted by it, the remainder is below twice the shifted divisor, the quotient has only bits
  above \<open>shift\<close>, and quotient and remainder together give the dividend.
\<close>

definition divide_inv :: "nat \<Rightarrow> nat \<Rightarrow> nat \<Rightarrow> UInt256 \<Rightarrow> UInt256 \<Rightarrow> UInt256 \<Rightarrow> bool" where
  "divide_inv rounds a b num dv r \<longleftrightarrow>
     unat num + b * unat r = a \<and> unat num < b * 2 ^ rounds \<and> 2 ^ rounds dvd unat r \<and>
     (0 < rounds \<longrightarrow> unat dv = b * 2 ^ (rounds - 1))"

lemma divide_inv_step:
  assumes "divide_inv (Suc shift) a b num dv r" "shift < 256"
  shows "divide_inv shift a b
     (if UInt256SupEq num dv then subtract num dv else num) (shiftRight dv 1)
     (if UInt256SupEq num dv then set_quotient_bit r shift else r)"
proof -
  have num: "unat num + b * unat r = a" "unat num < b * 2 ^ Suc shift" "2 ^ Suc shift dvd unat r"
    and dv: "unat dv = b * 2 ^ shift"
    using assms(1) by (auto simp: divide_inv_def)
  have dvd: "2 ^ shift dvd unat r" using num(3) by (rule power_le_dvd) simp
  have half: "unat (shiftRight dv 1) = b * 2 ^ (shift - 1)" if "0 < shift"
    using dv that unat_drop_bit_div [of 1 dv] by (cases shift) simp_all
  show ?thesis
  proof (cases "dv \<le> num")
    case True
    then have "unat (num - dv) = unat num - b * 2 ^ shift" "b * 2 ^ shift \<le> unat num"
      using dv by (simp_all add: unat_sub word_le_nat_alt)
    moreover have "unat (set_quotient_bit r shift) = unat r + 2 ^ shift"
      using set_quotient_bit_add [OF assms(2) num(3)] .
    ultimately show ?thesis
      using True num dvd half by (simp add: divide_inv_def distrib_left)
  next
    case False
    then have "unat num < b * 2 ^ shift" using dv by (simp add: word_less_nat_alt not_le)
    then show ?thesis using False num dvd half by (simp add: divide_inv_def)
  qed
qed

lemma divide_loop_correct:
  "divide_inv n a b num dv r \<Longrightarrow> n \<le> 256 \<Longrightarrow> 0 < b \<Longrightarrow> unat (divide_loop n num dv r) = a div b"
proof (induction n arbitrary: num dv r)
  case 0
  then have "unat num + b * unat r = a" "unat num < b" by (simp_all add: divide_inv_def)
  then show ?case using 0 by (metis add.commute div_less div_mult_self2 add_0 divide_loop.simps(1) not_gr0)
next
  case (Suc n)
  have "n < 256" using Suc.prems by simp
  then show ?case
    using Suc.IH [OF divide_inv_step [OF Suc.prems(1)]] Suc.prems by (simp split: if_splits)
qed

lemma bits_zero: "bits 0 = 0"
  by code_simp

lemma divide_word:
  assumes a: "unat a < 2 ^ 255" and b: "b \<noteq> 0" "unat b < 2 ^ 255"
  shows "divide a b = Some (a div b)"
proof -
  define na nb where "na = unat (bits a)" and "nb = unat (bits b)"
  have la: "is_bitlen na (unat a)" and lb: "is_bitlen nb (unat b)"
    using bits_small a b by (simp_all add: na_def nb_def)
  have b0: "0 < unat b" using b by (simp add: unat_gt_0)
  have nb: "nb \<noteq> 0" using lb b0 by (intro notI) (simp add: is_bitlen_def)
  show ?thesis
  proof (cases "nb > na")
    case True
    have "2 ^ na \<le> (2 :: nat) ^ (nb - 1)" using True by (intro power_increasing) auto
    moreover have "unat a < 2 ^ na" "2 ^ (nb - 1) \<le> unat b"
      using la lb nb by (simp_all add: is_bitlen_def)
    ultimately have "unat a < unat b" by linarith
    then have "a div b = 0" by (simp add: word_unat_eq_iff unat_div)
    then show ?thesis using True nb by (simp add: divide_def na_def nb_def)
  next
    case False
    define shift where "shift = na - nb"
    have na: "na \<le> 255" using is_bitlen_le [OF la a] .
    have "unat b * 2 ^ shift < 2 ^ nb * 2 ^ shift" using lb by (simp add: is_bitlen_def)
    also have "\<dots> = (2 :: nat) ^ na" using False by (simp add: shift_def power_add [symmetric])
    also have "\<dots> \<le> 2 ^ 255" using na by (intro power_increasing) simp_all
    finally have small: "unat b * 2 ^ shift < 2 ^ 255" .
    have "unat a < 2 ^ na" using la by (simp add: is_bitlen_def)
    also have "\<dots> = 2 ^ (nb - 1) * 2 ^ Suc shift"
      using False nb by (simp add: shift_def power_add [symmetric] del: power_Suc)
    also have "\<dots> \<le> unat b * 2 ^ Suc shift" using lb nb by (simp add: is_bitlen_def)
    finally have top: "unat a < unat b * 2 ^ Suc shift" .
    have s8: "unat (word_of_nat shift :: u8) = shift"
      using na by (simp add: shift_def unsigned_of_nat take_bit_nat_eq_self)
    have "unat (shiftLeft b (word_of_nat shift)) = unat b * 2 ^ shift"
      using small unat_push_bit_small [of b shift] by (simp add: s8)
    then have "divide_inv (Suc shift) (unat a) (unat b) a (shiftLeft b (word_of_nat shift)) 0"
      using top by (simp add: divide_inv_def)
    then have "unat (divide_loop (Suc shift) a (shiftLeft b (word_of_nat shift)) 0) = unat a div unat b"
      by (rule divide_loop_correct) (use na b0 in \<open>simp_all add: shift_def\<close>)
    then have "divide_loop (Suc shift) a (shiftLeft b (word_of_nat shift)) 0 = a div b"
      by (simp add: word_unat_eq_iff unat_div del: divide_loop.simps)
    then show ?thesis using False nb
      by (simp add: divide_def Let_def shift_def na_def nb_def del: divide_loop.simps)
  qed
qed

section \<open>Compact targets\<close>

text \<open>A compact target by its mantissa and its size, and the number it stands for.\<close>

definition compact_of :: "nat \<Rightarrow> nat \<Rightarrow> u32" where
  "compact_of m s = word_of_nat (m + s * 2 ^ 24)"

definition compact_val :: "nat \<Rightarrow> nat \<Rightarrow> nat" where
  "compact_val m s = (if s \<le> 3 then m div 256 ^ (3 - s) else m * 256 ^ (s - 3))"

lemma unat_compact_of: "m < 2 ^ 23 \<Longrightarrow> s \<le> 32 \<Longrightarrow> unat (compact_of m s) = m + s * 2 ^ 24"
  unfolding compact_of_def by (rule unat_of_nat_small) simp

lemma sint_compact_of:
  assumes "m < 2 ^ 23" "s \<le> 32"
  shows "sint (compact_of m s) div 2 ^ 24 = int s"
proof -
  have "sint (compact_of m s) = int (m + s * 2 ^ 24)"
    unfolding compact_of_def using assms by (intro sint_of_nat_small) simp
  then show ?thesis using assms(1) by simp
qed

lemma mantissa_compact_of:
  assumes "m < 2 ^ 23" "s \<le> 32"
  shows "unat (compact_of m s AND 0x007fffff) = m"
proof -
  have "(0x007fffff :: u32) = mask 23" by (simp add: mask_eq_exp_minus_1)
  then have "compact_of m s AND 0x007fffff = take_bit 23 (compact_of m s)"
    by (simp only: take_bit_eq_mask)
  then have "unat (compact_of m s AND 0x007fffff) = unat (compact_of m s) mod 2 ^ 23"
    by (metis take_bit_eq_mod unsigned_take_bit_eq)
  also have "\<dots> = (m + 2 ^ 23 * (2 * s)) mod 2 ^ 23"
    unfolding unat_compact_of [OF assms] by (simp add: mult.commute)
  also have "\<dots> = m" using assms(1) unfolding mod_mult_self2 by (rule mod_less)
  finally show ?thesis .
qed

lemma power_256: "(256 :: nat) ^ k = 2 ^ (8 * k)"
  by (simp add: power_mult)

lemma setCompact_val:
  assumes "m < 2 ^ 23" "s \<le> 32"
  shows "unat (setCompact (compact_of m s)) = compact_val m s"
proof -
  let ?w = "ucast (compact_of m s AND 0x007fffff) :: UInt256"
  have w: "unat ?w = m" using mantissa_compact_of [OF assms] by (simp add: unat_ucast_up)
  show ?thesis
  proof (cases "s \<le> 3")
    case True
    have "8 * (3 - int s) = int (8 * (3 - s))" using True by simp
    then have "unat (word_of_int (8 * (3 - int s)) :: u8) = 8 * (3 - s)"
      by (simp only: of_int_of_nat_eq) (simp add: unat_of_nat_small del: of_nat_mult of_nat_diff)
    then show ?thesis
      using True w sint_compact_of [OF assms] unat_drop_bit_div [of "8 * (3 - s)" ?w]
      by (simp add: setCompact_def compact_val_def power_256 Let_def)
  next
    case False
    have "8 * (int s - 3) = int (8 * (s - 3))" using False by simp
    then have s: "unat (word_of_int (8 * (int s - 3)) :: u8) = 8 * (s - 3)"
      using assms(2)
      by (simp only: of_int_of_nat_eq) (simp add: unat_of_nat_small del: of_nat_mult of_nat_diff)
    have "m * 2 ^ (8 * (s - 3)) < 2 ^ 23 * 2 ^ (8 * (s - 3))" using assms(1) by simp
    also have "\<dots> \<le> (2 :: nat) ^ (23 + 8 * 29)"
      unfolding power_add [symmetric] using assms(2) by (intro power_increasing) simp_all
    finally have "m * 2 ^ (8 * (s - 3)) < 2 ^ 256" by simp
    then have "unat (push_bit (8 * (s - 3)) ?w) = m * 2 ^ (8 * (s - 3))"
      using w unat_push_bit_small [of ?w "8 * (s - 3)"] by simp
    then show ?thesis
      using False s sint_compact_of [OF assms]
      by (simp add: setCompact_def compact_val_def power_256 Let_def)
  qed
qed

text \<open>
  What \<open>getCompact\<close> computes below \<open>2 ^ 255\<close>: the three most significant bytes, with the
  mantissa moved by a byte when its sign bit would be set.
\<close>

definition compact_size :: "nat \<Rightarrow> nat" where "compact_size l = (l + 7) div 8"

definition compact_top :: "nat \<Rightarrow> nat \<Rightarrow> nat" where
  "compact_top n s = (if s \<le> 3 then n * 256 ^ (3 - s) else n div 256 ^ (s - 3))"

lemma bitlen_size:
  assumes "is_bitlen l n" "s = compact_size l"
  shows "n < 256 ^ s"
proof -
  have "(2 :: nat) ^ l \<le> 2 ^ (8 * s)"
    using assms(2) by (intro power_increasing) (auto simp: compact_size_def)
  then show ?thesis using assms(1) unfolding is_bitlen_def power_256 by linarith
qed

lemma compact_top_less:
  assumes "is_bitlen l n" "s = compact_size l"
  shows "compact_top n s < 2 ^ 24"
proof (cases "s \<le> 3")
  case True
  have "n * 256 ^ (3 - s) < 256 ^ s * 256 ^ (3 - s)" using bitlen_size [OF assms] by simp
  also have "\<dots> = (256 :: nat) ^ 3" using True by (simp add: power_add [symmetric] del: power_numeral)
  finally show ?thesis using True by (simp add: compact_top_def)
next
  case False
  then have "(256 :: nat) ^ s = 256 ^ 3 * 256 ^ (s - 3)"
    by (simp add: power_add [symmetric] del: power_numeral)
  then have "n div 256 ^ (s - 3) < 256 ^ 3"
    using bitlen_size [OF assms] by (simp add: less_mult_imp_div_less)
  then show ?thesis using False by (simp add: compact_top_def)
qed

lemma compact_top_small:
  assumes "is_bitlen l n" "s = compact_size l" "l \<le> 255"
  shows "s \<le> 32" "s = 32 \<Longrightarrow> compact_top n s < 2 ^ 23"
proof -
  show "s \<le> 32" using assms(2,3) by (simp add: compact_size_def)
  assume s: "s = 32"
  have "(2 :: nat) ^ l \<le> 2 ^ 255" using assms(3) by (intro power_increasing) simp_all
  then have "n < 2 ^ 23 * 256 ^ 29" using assms(1) by (simp add: is_bitlen_def)
  then have "n div 256 ^ 29 < 2 ^ 23" by (rule less_mult_imp_div_less)
  then show "compact_top n s < 2 ^ 23" using s by (simp add: compact_top_def)
qed

lemma low_limb: "unat (u32s a ! 0) = unat a mod 2 ^ 32"
  by (simp add: nth_limbs unat_ucast_mod)

lemma compact_head:
  assumes "unat n < 2 ^ 255" "s = compact_size (unat (bits n))"
  shows "unat (if s \<le> 3 then push_bit (8 * (3 - s)) (u32s n ! 0)
       else u32s (shiftRight n (word_of_nat (8 * (s - 3)))) ! 0) = compact_top (unat n) s"
proof (cases "s \<le> 3")
  case True
  have lt: "compact_top (unat n) s < 2 ^ 24"
    using compact_top_less [OF bits_small [OF assms(1)] assms(2)] .
  have "unat n < 256 ^ s" by (rule bitlen_size [OF bits_small [OF assms(1)] assms(2)])
  also have "\<dots> \<le> (256 :: nat) ^ 3" using True by (intro power_increasing) simp_all
  finally have "unat (u32s n ! 0) = unat n" by (simp add: low_limb)
  then show ?thesis using True lt unat_push_bit_small [of "u32s n ! 0" "8 * (3 - s)"]
    by (simp add: compact_top_def power_256)
next
  case False
  have lt: "compact_top (unat n) s < 2 ^ 24"
    using compact_top_less [OF bits_small [OF assms(1)] assms(2)] .
  have "s \<le> 32"
    using compact_top_small(1) [OF bits_small [OF assms(1)] assms(2)]
      is_bitlen_le [OF bits_small [OF assms(1)] assms(1)] by simp
  then have "unat (word_of_nat (8 * (s - 3)) :: u8) = 8 * (s - 3)"
    by (intro unat_of_nat_small) simp
  then show ?thesis using False lt
    by (simp add: low_limb unat_drop_bit_div compact_top_def power_256
        del: of_nat_mult of_nat_diff)
qed

lemma low_bits_only:
  assumes "unat (x :: 'a::len word) < 2 ^ k"
  shows "x AND mask k = x"
  using assms by (metis take_bit_eq_mask take_bit_nat_eq_self unsigned_take_bit_eq word_unat_eq_iff)

lemma compact_finish:
  assumes "unat (x :: u32) < 2 ^ 23" "s \<le> 32"
  shows "x AND NOT 0x007fffff = 0" "x OR push_bit 24 (word_of_nat s) = compact_of (unat x) s"
proof -
  have m: "(0x007fffff :: u32) = mask 23" by (simp add: mask_eq_exp_minus_1)
  have x: "x AND mask 23 = x" using low_bits_only [OF assms(1)] .
  have "(x AND mask 23) AND NOT (mask 23) = 0" by (rule bit_word_eqI) (simp add: bit_simps)
  then show "x AND NOT 0x007fffff = 0" unfolding m x .
  have "(x AND mask 23) AND push_bit 24 (word_of_nat s) = 0"
    by (rule bit_word_eqI) (auto simp: bit_simps)
  then have "x AND push_bit 24 (word_of_nat s) = 0" unfolding x .
  from disjunctive_add_eq_or [OF this]
  show "x OR push_bit 24 (word_of_nat s) = compact_of (unat x) s"
    by (simp add: compact_of_def push_bit_eq_mult)
qed

lemma getCompact_val:
  assumes "unat n < 2 ^ 255"
  defines "s \<equiv> compact_size (unat (bits n))"
  defines "m \<equiv> compact_top (unat n) s"
  shows "getCompact n =
    Some (if 2 ^ 23 \<le> m then compact_of (m div 256) (s + 1) else compact_of m s)"
proof -
  let ?x = "if s \<le> 3 then push_bit (8 * (3 - s)) (u32s n ! 0)
    else u32s (shiftRight n (word_of_nat (8 * (s - 3)))) ! 0"
  note len = bits_small [OF assms(1)]
  have x: "unat ?x = m" unfolding m_def s_def by (rule compact_head [OF assms(1) refl])
  have m: "m < 2 ^ 24" unfolding m_def s_def by (rule compact_top_less [OF len refl])
  have s: "s \<le> 32" "s = 32 \<Longrightarrow> m < 2 ^ 23"
    using compact_top_small [OF len refl is_bitlen_le [OF len assms(1)]] by (simp_all add: s_def m_def)
  have sign: "?x AND 0x00800000 \<noteq> 0 \<longleftrightarrow> 2 ^ 23 \<le> m"
    using top_bit [of ?x 23] m unfolding x by simp
  have unf: "getCompact n = (let (c, s) = if ?x AND 0x00800000 \<noteq> 0 then (drop_bit 8 ?x, s + 1) else (?x, s)
      in if c AND NOT 0x007fffff \<noteq> 0 \<or> s \<ge> 256 then None
         else Some (c OR push_bit 24 (word_of_nat s)))"
    unfolding getCompact_def s_def compact_size_def Let_def ..
  show ?thesis
  proof (cases "2 ^ 23 \<le> m")
    case True
    have d: "unat (drop_bit 8 ?x) = m div 256" unfolding unat_drop_bit_div x by simp
    have "m div 256 < 2 ^ 23" using m by simp
    moreover have "s + 1 \<le> 32" using s True by (cases "s = 32") auto
    ultimately show ?thesis
      unfolding unf sign using True compact_finish [of "drop_bit 8 ?x" "s + 1"] unfolding d by simp
  next
    case False
    then show ?thesis
      unfolding unf sign using s(1) compact_finish [of ?x s] unfolding x by simp
  qed
qed

lemma size_lower:
  assumes "is_bitlen l n" "compact_size l = Suc k"
  shows "256 ^ k \<le> n"
proof -
  have "8 * k \<le> l - 1" "l \<noteq> 0" using assms(2) by (auto simp: compact_size_def)
  then have "(2 :: nat) ^ (8 * k) \<le> 2 ^ (l - 1)" by (intro power_increasing) auto
  then show ?thesis using assms(1) \<open>l \<noteq> 0\<close> unfolding is_bitlen_def power_256 by linarith
qed

lemma size_unique:
  assumes "is_bitlen l n" "256 ^ k \<le> n" "n < 256 ^ Suc k"
  shows "compact_size l = Suc k"
proof -
  have "8 * k < l" "l \<le> 8 * Suc k"
    using is_bitlen_less [OF assms(1)] is_bitlen_le [OF assms(1)] assms(2,3)
    by (simp_all only: power_256)
  then show ?thesis by (simp add: compact_size_def)
qed

text \<open>The precision of dropping the low bytes of a number.\<close>

lemma drop_bytes:
  fixes n :: nat
  assumes "k * p \<le> n" "0 < p"
  shows "n div p * p \<le> n" "k * (n - n div p * p) \<le> n"
proof -
  have "n - n div p * p = n mod p" by (simp add: minus_div_mult_eq_mod)
  moreover have "k * (n mod p) \<le> k * p" using assms(2) by (intro mult_le_mono2) simp
  ultimately show "k * (n - n div p * p) \<le> n" using assms(1) by (metis order_trans)
qed simp

lemma getCompact_precise:
  assumes "unat n < 2 ^ 255"
  defines "s \<equiv> compact_size (unat (bits n))"
  defines "m \<equiv> compact_top (unat n) s"
  defines "v \<equiv> if 2 ^ 23 \<le> m then compact_val (m div 256) (s + 1) else compact_val m s"
  shows "v \<le> unat n \<and> 2 ^ 15 * (unat n - v) \<le> unat n"
proof (cases "s < 3 \<or> s = 3 \<and> m < 2 ^ 23")
  case True
  then have "v = unat n"
  proof (cases "2 ^ 23 \<le> m")
    case t: True
    then obtain d where d: "3 - s = Suc d" "3 - (s + 1) = d" "s + 1 \<le> 3" using True
      by (metis Suc_diff_Suc Suc_eq_plus1 diff_Suc_Suc not_less Suc_leI numeral_3_eq_3)
    have "m div 256 = unat n * 256 ^ d" using d by (simp add: m_def compact_top_def)
    then show ?thesis using t d by (simp add: v_def compact_val_def)
  next
    case False
    then show ?thesis using True by (auto simp: v_def compact_val_def m_def compact_top_def)
  qed
  then show ?thesis by simp
next
  case False
  show ?thesis
  proof (cases "2 ^ 23 \<le> m")
    case True
    define q where "q = s - 3"
    have s: "s = q + 3" using False by (simp add: q_def)
    have m: "m = unat n div 256 ^ q" by (cases q) (simp_all add: m_def compact_top_def s)
    have "m div 256 = unat n div 256 ^ Suc q" unfolding m by (metis div_mult2_eq power_Suc2)
    then have v: "v = unat n div 256 ^ Suc q * 256 ^ Suc q"
      using True by (simp add: v_def compact_val_def s)
    have "2 ^ 23 * 256 ^ q \<le> unat n div 256 ^ q * 256 ^ q"
      using True unfolding m by (rule mult_le_mono1)
    also have "\<dots> \<le> unat n" by simp
    finally have "2 ^ 15 * 256 ^ Suc q \<le> unat n" by simp
    then show ?thesis unfolding v using drop_bytes by simp
  next
    case small: False
    then have s: "\<not> s \<le> 3" using False by auto
    then have "compact_size (unat (bits n)) = Suc (s - 1)" by (simp add: s_def)
    then have "256 ^ (s - 1) \<le> unat n" by (rule size_lower [OF bits_small [OF assms(1)]])
    moreover have "s - 1 = 2 + (s - 3)" using s by simp
    then have "(256 :: nat) ^ (s - 1) = 256 ^ 2 * 256 ^ (s - 3)" by (simp only: power_add)
    ultimately have "2 ^ 15 * 256 ^ (s - 3) \<le> unat n" by simp
    moreover have "v = unat n div 256 ^ (s - 3) * 256 ^ (s - 3)"
      using small s by (simp add: v_def compact_val_def m_def compact_top_def)
    ultimately show ?thesis using drop_bytes by simp
  qed
qed

section \<open>Properties\<close>

text \<open>
  The arithmetic of \<open>BRInt.h\<close> on its arrays of limbs is arithmetic modulo \<open>2 ^ 256\<close>: addition,
  subtraction, multiplication by a 32 bit number, the shifts by up to 255 bits, the complement and
  the comparison, for all operands.\<close>

theorem uint256_arithmetic:
  "add a b = a + b \<and> addOne a = a + 1 \<and> neg a = NOT a \<and> subtract a b = a - b \<and>
   multiplyThis32 a m = a * ucast m \<and> shiftLeft a s = push_bit (unat s) a \<and>
   shiftRight a s = drop_bit (unat s) a \<and> (UInt256SupEq a b \<longleftrightarrow> b \<le> a) \<and>
   (UInt256Eq a b \<longleftrightarrow> a = b) \<and> (UInt256IsZero a \<longleftrightarrow> a = 0)"
  by (simp add: addOne_def of_limbs_one)

text \<open>
  The result of \<open>bits\<close> is a \<open>uint8_t\<close>, in which a length of 256 bits is 0. From \<open>2 ^ 255\<close> on,
  \<open>divide\<close> returns 0 for every divisor below \<open>2 ^ 255\<close>, which is never the quotient, and a divisor
  of this size fails the assertion.\<close>

theorem divide_length_overflow:
  assumes "2 ^ 255 \<le> unat a" "b \<noteq> 0" "unat b < 2 ^ 255"
  shows "bits a = 0 \<and> divide a b = Some 0 \<and> a div b \<noteq> 0 \<and> divide b a = None"
proof -
  have "bits a = 0" by (rule bits_large [OF assms(1)])
  moreover have "unat (bits b) \<noteq> 0"
    using bits_small [OF assms(3)] assms(2)
    by (intro notI) (simp add: is_bitlen_def unat_eq_zero)
  moreover have "0 < unat a div unat b"
    using assms by (simp only: div_greater_zero_iff unat_gt_0) simp
  then have "a div b \<noteq> 0" by (metis unat_0 unat_div less_irrefl)
  ultimately show ?thesis by (simp add: divide_def)
qed

theorem divide_length_overflow_witness:
  "divide (2 ^ 255) 3 = Some 0 \<and> (2 ^ 255 :: UInt256) div 3 \<noteq> 0"
  using divide_length_overflow [of "2 ^ 255" 3] by simp

text \<open>
  C35: for every dividend and divisor, \<open>divide\<close> returns the quotient exactly of those below \<open>2 ^ 255\<close>.
  The result of \<open>bits\<close> is a \<open>uint8_t\<close>, in which a length of 256 bits is 0: a dividend of this
  length gives 0, and a divisor of this length fails the assertion, as the divisor 0 does.\<close>

theorem divide_correct:
  "divide a b =
     (if b = 0 \<or> 2 ^ 255 \<le> unat b then None
      else if 2 ^ 255 \<le> unat a then Some 0
      else Some (a div b))"
proof -
  have "bits b = 0" if "b = 0 \<or> 2 ^ 255 \<le> unat b"
    using that bits_large [of b] bits_zero by blast
  then have "divide a b = None" if "b = 0 \<or> 2 ^ 255 \<le> unat b"
    using that by (simp add: divide_def)
  moreover have "divide a b = Some 0" if "b \<noteq> 0" "unat b < 2 ^ 255" "2 ^ 255 \<le> unat a"
    using divide_length_overflow [OF that(3,1,2)] by simp
  ultimately show ?thesis using divide_word [of a b] by (simp add: not_le)
qed

text \<open>
  Below \<open>2 ^ 255\<close> no assertion of \<open>getCompact\<close> fails, and the compact target it returns stands
  for a number that is not larger and differs from the given one by at most its \<open>2 ^ 15\<close>th part.\<close>

theorem compact_precision:
  assumes "unat n < 2 ^ 255"
  shows "\<exists>c. getCompact n = Some c \<and> unat (setCompact c) \<le> unat n \<and>
    2 ^ 15 * (unat n - unat (setCompact c)) \<le> unat n"
proof -
  define s m where "s = compact_size (unat (bits n))" and "m = compact_top (unat n) s"
  note len = bits_small [OF assms]
  have m: "m < 2 ^ 24" unfolding m_def s_def by (rule compact_top_less [OF len refl])
  have s: "s \<le> 32" "s = 32 \<Longrightarrow> m < 2 ^ 23"
    using compact_top_small [OF len refl is_bitlen_le [OF len assms]] by (simp_all add: s_def m_def)
  show ?thesis
  proof (cases "2 ^ 23 \<le> m")
    case True
    have "s + 1 \<le> 32" using s True by (cases "s = 32") auto
    then have "unat (setCompact (compact_of (m div 256) (s + 1))) = compact_val (m div 256) (s + 1)"
      using m by (intro setCompact_val) simp_all
    then show ?thesis
      using True getCompact_val [OF assms] getCompact_precise [OF assms]
      by (simp add: s_def m_def)
  next
    case False
    then have "unat (setCompact (compact_of m s)) = compact_val m s"
      using s by (intro setCompact_val) simp_all
    then show ?thesis
      using False getCompact_val [OF assms] getCompact_precise [OF assms]
      by (simp add: s_def m_def)
  qed
qed

theorem compact_precision_witness:
  "\<exists>c. getCompact 0x123456789 = Some c \<and> unat (setCompact c) \<le> 0x123456789 \<and>
    2 ^ 15 * (0x123456789 - unat (setCompact c)) \<le> 0x123456789"
  using compact_precision [of "0x123456789"] by simp

text \<open>
  A target in normal form (mantissa of at least two bytes without the sign bit, size 3 to 32)
  survives \<open>setCompact\<close> and \<open>getCompact\<close>, and stands for mantissa times \<open>256 ^ (size - 3)\<close>.\<close>

theorem compact_round_trip:
  assumes "2 ^ 15 \<le> m" "m < 2 ^ 23" "3 \<le> s" "s \<le> 32"
  shows "unat (setCompact (compact_of m s)) = m * 256 ^ (s - 3) \<and>
    getCompact (setCompact (compact_of m s)) = Some (compact_of m s)"
proof -
  define n q where "n = setCompact (compact_of m s)" and "q = s - 3"
  have s: "s = q + 3" "q \<le> 29" using assms by (simp_all add: q_def)
  have n: "unat n = m * 256 ^ q"
    using setCompact_val [OF assms(2,4)] by (cases q) (simp_all add: n_def compact_val_def s)
  have "m * 256 ^ q < 2 ^ 23 * 256 ^ q" using assms(2) by simp
  also have "\<dots> \<le> (2 :: nat) ^ (23 + 8 * 29)"
    unfolding power_256 power_add [symmetric] using s(2) by (intro power_increasing) simp_all
  finally have small: "unat n < 2 ^ 255" by (simp add: n)
  note len = bits_small [OF small]
  have "getCompact n = Some (compact_of m s)"
  proof (cases "2 ^ 16 \<le> m")
    case True
    have "256 ^ 2 * 256 ^ q \<le> m * 256 ^ q" "m * 256 ^ q < 256 ^ 3 * 256 ^ q"
      using True assms(2) by simp_all
    then have "compact_size (unat (bits n)) = Suc (q + 2)"
      by (intro size_unique [OF len]) (simp_all add: n power_add)
    then have "compact_size (unat (bits n)) = s" by (simp add: s)
    moreover have "compact_top (unat n) s = m" by (cases q) (simp_all add: compact_top_def n s)
    ultimately show ?thesis using getCompact_val [OF small] assms(2) by simp
  next
    case False
    have "256 ^ 1 * 256 ^ q \<le> m * 256 ^ q" "m * 256 ^ q < 256 ^ 2 * 256 ^ q"
      using False assms(1) by simp_all
    then have "compact_size (unat (bits n)) = Suc (q + 1)"
      by (intro size_unique [OF len]) (simp_all add: n power_add)
    moreover have "compact_top (unat n) (Suc (q + 1)) = m * 256"
      by (cases q) (simp_all add: compact_top_def n numeral_2_eq_2 numeral_3_eq_3 mult.assoc)
    ultimately show ?thesis using getCompact_val [OF small] assms(1)
      by (simp add: s numeral_3_eq_3)
  qed
  then show ?thesis using n by (simp add: n_def q_def)
qed

theorem compact_round_trip_witness:
  "getCompact (setCompact (compact_of 0xffff 30)) = Some (compact_of 0xffff 30)"
  using compact_round_trip [of "0xffff" 30] by simp

end
