(* ===== verification/BRCipher.thy ===== *)
theory BRCipher
  imports BRHash
begin

text \<open>
  \<open>src/Modules/core/BRCrypto.c\<close>, keyed functions: HMAC, the HMAC random generator, Poly1305,
  ChaCha20 and their AEAD combination, PBKDF2 and scrypt.

  Arrays of \<open>uint32_t\<close> are lists of words; \<open>le32\<close> and \<open>le64\<close> are the identity on the little endian
  targets. A function pointer \<open>hash\<close> with its \<open>hashLen\<close> is a function on byte strings and a length.
  The cleaning of local variables at the end of each function has no effect on the results and is
  left out.
\<close>

section \<open>HMAC\<close>

definition xor_pad :: "u8 \<Rightarrow> bytes \<Rightarrow> bytes" where
  "xor_pad c k = map (\<lambda>b. b XOR c) k"

definition BRHMAC :: "(bytes \<Rightarrow> bytes) \<Rightarrow> nat \<Rightarrow> bytes \<Rightarrow> bytes \<Rightarrow> bytes" where
  "BRHMAC hash hashLen key data = (let
     blockLen = (if hashLen > 32 then 128 else 64);
     key = (if length key > blockLen then take hashLen (hash key) else key);
     kipad = xor_pad 0x36 (poke 0 key (replicate blockLen 0)) @ data;
     kopad = xor_pad 0x5c (poke 0 key (replicate blockLen 0)) @ hash kipad
   in hash kopad)"

text \<open>
  The random generator; the pair \<open>K\<close>, \<open>V\<close> is updated. Its output loop runs for the values of
  \<open>i\<close> with \<open>i*hashLen < outLen\<close>, and fills the output buffer piece by piece. A null \<open>seed\<close>, \<open>nonce\<close> or \<open>ps\<close> is \<open>None\<close>.
\<close>

definition opt_bytes :: "buffer \<Rightarrow> bytes" where
  "opt_bytes b = (case b of None \<Rightarrow> [] | Some x \<Rightarrow> x)"

primrec drbg_loop :: "(bytes \<Rightarrow> bytes) \<Rightarrow> nat \<Rightarrow> bytes \<Rightarrow> nat \<Rightarrow> bytes \<times> bytes \<Rightarrow> bytes \<times> bytes" where
  "drbg_loop hash hashLen K 0 s = s"
| "drbg_loop hash hashLen K (Suc i) s = (let
     (out, V) = drbg_loop hash hashLen K i s;
     V = BRHMAC hash hashLen K V;
     n = (if i * hashLen + hashLen \<le> length out then hashLen else length out mod hashLen)
   in (poke (i * hashLen) (take n V) out, V))"

definition BRHMACDRBG ::
  "bytes \<Rightarrow> bytes \<Rightarrow> bytes \<Rightarrow> (bytes \<Rightarrow> bytes) \<Rightarrow> nat \<Rightarrow> buffer \<Rightarrow> buffer \<Rightarrow> buffer \<Rightarrow> bytes \<times> bytes \<times> bytes"
where
  "BRHMACDRBG out K V hash hashLen seed nonce ps = (let
     fresh = (seed \<noteq> None \<or> nonce \<noteq> None \<or> ps \<noteq> None);
     extra = opt_bytes seed @ opt_bytes nonce @ opt_bytes ps;
     K = (if fresh then replicate hashLen 0 else K);
     V = (if fresh then replicate hashLen 1 else V);
     K = BRHMAC hash hashLen K (V @ 0 # extra);
     V = BRHMAC hash hashLen K V;
     K' = (if fresh then BRHMAC hash hashLen K (V @ 1 # extra) else K);
     V' = (if fresh then BRHMAC hash hashLen K' V else V);
     (out, V'') = drbg_loop hash hashLen K' ((length out + hashLen - 1) div hashLen) (out, V')
   in (out, K', V''))"

section \<open>Poly1305\<close>

type_synonym poly = "u32 \<times> u32 \<times> u32 \<times> u32 \<times> u32"

definition poly_mask :: u32 where "poly_mask = 0x03ffffff"

text \<open>The five limbs of 26 bits of four words, with the masks of the key or of a block.\<close>

definition poly_r :: "bytes \<Rightarrow> poly" where
  "poly_r key32 = (let t0 = x32 key32 0; t1 = x32 key32 1; t2 = x32 key32 2; t3 = x32 key32 3 in
     (t0 AND 0x03ffffff,
      (drop_bit 26 t0 OR push_bit 6 t1) AND 0x03ffff03,
      (drop_bit 20 t1 OR push_bit 12 t2) AND 0x03ffc0ff,
      (drop_bit 14 t2 OR push_bit 18 t3) AND 0x03f03fff,
      drop_bit 8 t3 AND 0x000fffff))"

text \<open>The 16 byte block at offset \<open>i\<close>: a short last one is padded with 1 and zeros.\<close>

definition poly_block :: "bytes \<Rightarrow> nat \<Rightarrow> bytes" where
  "poly_block data i = (if i + 16 > length data
     then (drop i data @ replicate (16 - (length data - i)) 0)[length data - i := 1]
     else take 16 (drop i data))"

definition poly_add :: "poly \<Rightarrow> bytes \<Rightarrow> bool \<Rightarrow> poly" where
  "poly_add h x full = (case h of (h0, h1, h2, h3, h4) \<Rightarrow>
     let t0 = x32 x 0; t1 = x32 x 1; t2 = x32 x 2; t3 = x32 x 3 in
     (h0 + (t0 AND poly_mask),
      h1 + ((drop_bit 26 t0 OR push_bit 6 t1) AND poly_mask),
      h2 + ((drop_bit 20 t1 OR push_bit 12 t2) AND poly_mask),
      h3 + ((drop_bit 14 t2 OR push_bit 18 t3) AND poly_mask),
      h4 + (drop_bit 8 t3 OR (if full then push_bit 24 1 else 0))))"

definition poly_mul :: "poly \<Rightarrow> poly \<Rightarrow> u64 \<times> u64 \<times> u64 \<times> u64 \<times> u64" where
  "poly_mul h r = (case h of (h0, h1, h2, h3, h4) \<Rightarrow> case r of (r0, r1, r2, r3, r4) \<Rightarrow>
     let m = (\<lambda>a b. (ucast a :: u64) * ucast b) in
     (m h0 r0 + m h1 r4 * 5 + m h2 r3 * 5 + m h3 r2 * 5 + m h4 r1 * 5,
      m h0 r1 + m h1 r0 + m h2 r4 * 5 + m h3 r3 * 5 + m h4 r2 * 5,
      m h0 r2 + m h1 r1 + m h2 r0 + m h3 r4 * 5 + m h4 r3 * 5,
      m h0 r3 + m h1 r2 + m h2 r1 + m h3 r0 + m h4 r4 * 5,
      m h0 r4 + m h1 r3 + m h2 r2 + m h3 r1 + m h4 r0))"

text \<open>The 26 low bits of a product limb, and its carry as a \<open>uint32_t\<close>.\<close>

definition low26 :: "u64 \<Rightarrow> u32" where "low26 d = ucast (d AND 0x03ffffff)"
definition carry26 :: "u64 \<Rightarrow> u32" where "carry26 d = ucast (drop_bit 26 d)"

definition poly_reduce :: "u64 \<times> u64 \<times> u64 \<times> u64 \<times> u64 \<Rightarrow> poly" where
  "poly_reduce d = (case d of (d0, d1, d2, d3, d4) \<Rightarrow> let
     d1 = d1 + ucast (carry26 d0); h1 = low26 d1;
     d2 = d2 + ucast (carry26 d1); h2 = low26 d2;
     d3 = d3 + ucast (carry26 d2); h3 = low26 d3;
     d4 = d4 + ucast (carry26 d3); h4 = low26 d4;
     h0 = low26 d0 + carry26 d4 * 5;
     h1 = h1 + drop_bit 26 h0; h0 = h0 AND poly_mask
   in (h0, h1, h2, h3, h4))"

function poly_loop :: "poly \<Rightarrow> bytes \<Rightarrow> nat \<Rightarrow> poly \<Rightarrow> poly" where
  "poly_loop r data i h =
     (if i < length data then
        poly_loop r data (i + 16)
          (poly_reduce (poly_mul (poly_add h (poly_block data i) (i + 16 \<le> length data)) r))
      else h)"
  by pat_completeness auto
termination by (relation "measure (\<lambda>(r, data, i, h). length data - i)") auto

declare poly_loop.simps [simp del]

definition poly_final :: "poly \<Rightarrow> bytes \<Rightarrow> poly" where
  "poly_final h key32 = (case h of (h0, h1, h2, h3, h4) \<Rightarrow> let
     h2 = h2 + drop_bit 26 h1; h1 = h1 AND poly_mask;
     h3 = h3 + drop_bit 26 h2; h2 = h2 AND poly_mask;
     h4 = h4 + drop_bit 26 h3; h3 = h3 AND poly_mask;
     h0 = h0 + drop_bit 26 h4 * 5; h4 = h4 AND poly_mask;
     h1 = h1 + drop_bit 26 h0; h0 = h0 AND poly_mask;
     t0 = h0 + 5; t1 = h1 + drop_bit 26 t0; t0 = t0 AND poly_mask;
     t2 = h2 + drop_bit 26 t1; t1 = t1 AND poly_mask;
     t3 = h3 + drop_bit 26 t2; t2 = t2 AND poly_mask;
     t4 = h4 + drop_bit 26 t3 - push_bit 26 1; t3 = t3 AND poly_mask;
     b = drop_bit 31 t4 - 1;
     h0 = (h0 AND NOT b) OR (t0 AND b); h1 = (h1 AND NOT b) OR (t1 AND b);
     h2 = (h2 AND NOT b) OR (t2 AND b); h3 = (h3 AND NOT b) OR (t3 AND b);
     h4 = (h4 AND NOT b) OR (t4 AND b);
     h0 = h0 OR push_bit 26 h1; h1 = drop_bit 6 h1 OR push_bit 20 h2;
     h2 = drop_bit 12 h2 OR push_bit 14 h3; h3 = drop_bit 18 h3 OR push_bit 8 h4;
     x = drop 16 key32;
     d0 = ucast h0 + ucast (x32 x 0) :: u64;
     d1 = ucast h1 + ucast (x32 x 1) + drop_bit 32 d0 :: u64;
     d2 = ucast h2 + ucast (x32 x 2) + drop_bit 32 d1 :: u64;
     d3 = ucast h3 + ucast (x32 x 3) + drop_bit 32 d2 :: u64
   in (ucast d0, ucast d1, ucast d2, ucast d3, h4))"

definition BRPoly1305Compress :: "poly \<Rightarrow> bytes \<Rightarrow> bytes \<Rightarrow> bool \<Rightarrow> poly" where
  "BRPoly1305Compress h key32 data final =
     (let h = poly_loop (poly_r key32) data 0 h in if final then poly_final h key32 else h)"

definition poly_bytes :: "poly \<Rightarrow> bytes" where
  "poly_bytes h = (case h of (h0, h1, h2, h3, h4) \<Rightarrow>
     UInt32SetLE h0 @ UInt32SetLE h1 @ UInt32SetLE h2 @ UInt32SetLE h3)"

definition BRPoly1305 :: "bytes \<Rightarrow> bytes \<Rightarrow> bytes" where
  "BRPoly1305 key32 data = poly_bytes (BRPoly1305Compress (0, 0, 0, 0, 0) key32 data True)"

section \<open>ChaCha20\<close>

definition qr :: "nat \<Rightarrow> nat \<Rightarrow> nat \<Rightarrow> nat \<Rightarrow> u32 list \<Rightarrow> u32 list" where
  "qr a b c d x = (let
     x = x[a := x ! a + x ! b]; x = x[d := rol32 (x ! d XOR x ! a) 16];
     x = x[c := x ! c + x ! d]; x = x[b := rol32 (x ! b XOR x ! c) 12];
     x = x[a := x ! a + x ! b]; x = x[d := rol32 (x ! d XOR x ! a) 8];
     x = x[c := x ! c + x ! d]
   in x[b := rol32 (x ! b XOR x ! c) 7])"

definition double_round :: "u32 list \<Rightarrow> u32 list" where
  "double_round x = qr 3 4 9 14 (qr 2 7 8 13 (qr 1 6 11 12 (qr 0 5 10 15
     (qr 3 7 11 15 (qr 2 6 10 14 (qr 1 5 9 13 (qr 0 4 8 12 x)))))))"

definition chacha_init :: "bytes \<Rightarrow> bytes \<Rightarrow> u64 \<Rightarrow> u32 list" where
  "chacha_init key32 iv8 counter =
     [0x61707865, 0x3320646e, 0x79622d32, 0x6b206574] @ map (x32 key32) [0..<8] @
     [ucast counter, ucast (drop_bit 32 counter)] @ map (x32 iv8) [0..<2]"

definition chacha_block :: "u32 list \<Rightarrow> bytes" where
  "chacha_block s = concat (map (\<lambda>(a, b). UInt32SetLE (a + b)) (zip s ((double_round ^^ 10) s)))"

definition chacha_next :: "u32 list \<Rightarrow> u32 list" where
  "chacha_next s = (let s = s[12 := s ! 12 + 1] in if s ! 12 = 0 then s[13 := s ! 13 + 1] else s)"

fun chacha_loop :: "u32 list \<Rightarrow> bytes \<Rightarrow> nat \<Rightarrow> bytes \<Rightarrow> bytes" where
  "chacha_loop s b i [] = []"
| "chacha_loop s b i (d # data) =
     (if i mod 64 = 0
      then (d XOR chacha_block s ! (i mod 64)) # chacha_loop (chacha_next s) (chacha_block s) (i + 1) data
      else (d XOR b ! (i mod 64)) # chacha_loop s b (i + 1) data)"

definition BRChacha20 :: "bytes \<Rightarrow> bytes \<Rightarrow> bytes \<Rightarrow> u64 \<Rightarrow> bytes" where
  "BRChacha20 key32 iv8 data counter = chacha_loop (chacha_init key32 iv8 counter) [] 0 data"

section \<open>Authenticated encryption\<close>

definition aead_counter :: "bytes \<Rightarrow> u64" where
  "aead_counter nonce12 = push_bit 32 (ucast (x32 nonce12 0))"

text \<open>The whole blocks of a string, then the rest padded with zeros.\<close>

definition poly_padded :: "poly \<Rightarrow> bytes \<Rightarrow> bytes \<Rightarrow> poly" where
  "poly_padded h macKey data = (let
     n = length data div 16 * 16;
     h = BRPoly1305Compress h macKey (take n data) False
   in if length data mod 16 \<noteq> 0
      then BRPoly1305Compress h macKey (drop n data @ replicate (16 - length data mod 16) 0) False
      else h)"

definition aead_mac :: "bytes \<Rightarrow> bytes \<Rightarrow> bytes \<Rightarrow> bytes \<Rightarrow> bytes" where
  "aead_mac key32 nonce12 ad text = (let
     macKey = BRChacha20 key32 (drop 4 nonce12) (replicate 32 0) (aead_counter nonce12);
     h = poly_padded (0, 0, 0, 0, 0) macKey ad;
     h = poly_padded h macKey text;
     h = BRPoly1305Compress h macKey (UInt64SetLE (of_nat (length ad)) @ UInt64SetLE (of_nat (length text))) True
   in poly_bytes h)"

definition BRChacha20Poly1305AEADEncrypt ::
  "buffer \<Rightarrow> bytes \<Rightarrow> bytes \<Rightarrow> bytes \<Rightarrow> bytes \<Rightarrow> buffer \<times> nat" where
  "BRChacha20Poly1305AEADEncrypt out key32 nonce12 data ad = (case out of
     None \<Rightarrow> (None, length data + 16)
   | Some b \<Rightarrow>
       if length b < length data + 16 \<or> length data div 64 \<ge> 0xffffffff then (Some b, 0)
       else let
         text = BRChacha20 key32 (drop 4 nonce12) data (aead_counter nonce12 + 1);
         tag = aead_mac key32 nonce12 ad text
       in (Some (poke (length data) tag (poke 0 text b)), length data + 16))"

definition BRChacha20Poly1305AEADDecrypt ::
  "buffer \<Rightarrow> bytes \<Rightarrow> bytes \<Rightarrow> bytes \<Rightarrow> bytes \<Rightarrow> buffer \<times> nat" where
  "BRChacha20Poly1305AEADDecrypt out key32 nonce12 data ad = (case out of
     None \<Rightarrow> (None, if length data < 16 then 0 else length data - 16)
   | Some b \<Rightarrow>
       if length data < 16 \<or> (length data - 16) div 64 \<ge> 0xffffffff \<or> length b + 16 < length data
       then (Some b, 0)
       else let
         outLen = length data - 16;
         h = aead_mac key32 nonce12 ad (take outLen data);
         mac = drop outLen data;
         d = (\<lambda>i. x32 mac i XOR x32 h i);
         outLen = (if (d 0 OR d 1 OR d 2 OR (if d 3 \<noteq> 0 then 1 else 0)) \<noteq> 0 then 0 else outLen)
       in (Some (poke 0 (BRChacha20 key32 (drop 4 nonce12) (take outLen data) (aead_counter nonce12 + 1)) b),
           outLen))"

section \<open>PBKDF2\<close>

primrec pbkdf2_rounds :: "(bytes \<Rightarrow> bytes) \<Rightarrow> nat \<Rightarrow> bytes \<Rightarrow> nat \<Rightarrow> bytes \<times> bytes \<Rightarrow> bytes \<times> bytes" where
  "pbkdf2_rounds hash hashLen pw 0 UT = UT"
| "pbkdf2_rounds hash hashLen pw (Suc n) UT =
     (let U = BRHMAC hash hashLen pw (fst UT)
      in pbkdf2_rounds hash hashLen pw n (U, map2 (\<lambda>t u. t XOR u) (snd UT) U))"

definition pbkdf2_block :: "(bytes \<Rightarrow> bytes) \<Rightarrow> nat \<Rightarrow> bytes \<Rightarrow> bytes \<Rightarrow> nat \<Rightarrow> u32 \<Rightarrow> bytes" where
  "pbkdf2_block hash hashLen pw salt rounds i =
     (let U = BRHMAC hash hashLen pw (salt @ UInt32SetLE (be32 (i + 1)))
      in snd (pbkdf2_rounds hash hashLen pw (rounds - 1) (U, U)))"

text \<open>The loop over the blocks of the derived key; \<open>i\<close> is a \<open>uint32_t\<close>.\<close>

primrec pbkdf2_loop :: "(u32 \<Rightarrow> bytes) \<Rightarrow> nat \<Rightarrow> nat \<Rightarrow> bytes \<Rightarrow> bytes" where
  "pbkdf2_loop block hashLen 0 dk = dk"
| "pbkdf2_loop block hashLen (Suc i) dk =
     (let dk = pbkdf2_loop block hashLen i dk;
          n = (if i * hashLen + hashLen \<le> length dk then hashLen else length dk mod hashLen)
      in poke (i * hashLen) (take n (block (of_nat i))) dk)"

definition BRPBKDF2 :: "nat \<Rightarrow> (bytes \<Rightarrow> bytes) \<Rightarrow> nat \<Rightarrow> bytes \<Rightarrow> bytes \<Rightarrow> nat \<Rightarrow> bytes" where
  "BRPBKDF2 dkLen hash hashLen pw salt rounds =
     pbkdf2_loop (pbkdf2_block hash hashLen pw salt rounds) hashLen
       ((dkLen + hashLen - 1) div hashLen) (replicate dkLen 0)"

section \<open>scrypt\<close>

definition salsa_op :: "nat \<Rightarrow> nat \<Rightarrow> nat \<Rightarrow> nat \<Rightarrow> u32 list \<Rightarrow> u32 list" where
  "salsa_op a b c k x = x[a := x ! a XOR rol32 (x ! b + x ! c) k]"

definition salsa_quarter :: "nat \<Rightarrow> nat \<Rightarrow> nat \<Rightarrow> nat \<Rightarrow> u32 list \<Rightarrow> u32 list" where
  "salsa_quarter a b c d x =
     salsa_op a d c 18 (salsa_op d c b 13 (salsa_op c b a 9 (salsa_op b a d 7 x)))"

definition salsa_double :: "u32 list \<Rightarrow> u32 list" where
  "salsa_double x =
     salsa_quarter 15 12 13 14 (salsa_quarter 10 11 8 9 (salsa_quarter 5 6 7 4 (salsa_quarter 0 1 2 3
     (salsa_quarter 15 3 7 11 (salsa_quarter 10 14 2 6 (salsa_quarter 5 9 13 1 (salsa_quarter 0 4 8 12 x)))))))"

definition salsa20_8 :: "u32 list \<Rightarrow> u32 list" where
  "salsa20_8 b = map2 (+) b ((salsa_double ^^ 4) b)"

definition xor_words :: "u32 list \<Rightarrow> u32 list \<Rightarrow> u32 list" where
  "xor_words = map2 (\<lambda>a b. a XOR b)"

text \<open>
  The arrays \<open>dest\<close>, \<open>src\<close> and \<open>b\<close> of \<open>uint64_t\<close> by their 32 bit words: \<open>src[i*8]\<close> is word \<open>16 * i\<close>.
\<close>

primrec blockmix_loop :: "u32 list \<Rightarrow> nat \<Rightarrow> nat \<Rightarrow> u32 list \<times> u32 list \<Rightarrow> u32 list \<times> u32 list" where
  "blockmix_loop src r 0 s = s"
| "blockmix_loop src r (Suc n) s = (let
     (dest, b) = blockmix_loop src r n s;
     i = 2 * n;
     b = salsa20_8 (xor_words b (take 16 (drop (16 * i) src)));
     dest = take (8 * i) dest @ b @ drop (8 * i + 16) dest;
     b = salsa20_8 (xor_words b (take 16 (drop (16 * i + 16) src)));
     dest = take (8 * i + 16 * r) dest @ b @ drop (8 * i + 16 * r + 16) dest
   in (dest, b))"

definition blockmix_salsa8 :: "u32 list \<Rightarrow> u32 list \<Rightarrow> nat \<Rightarrow> u32 list" where
  "blockmix_salsa8 dest src r = fst (blockmix_loop src r r (dest, take 16 (drop ((2 * r - 1) * 16) src)))"

text \<open>The index of the second loop: the low word of \<open>x[(2*r - 1)*8]\<close> masked by \<open>n - 1\<close>.\<close>

definition integerify :: "u32 list \<Rightarrow> nat \<Rightarrow> nat \<Rightarrow> nat" where
  "integerify x r n = unat ((ucast (x ! (16 * (2 * r - 1))) OR
     push_bit 32 (ucast (x ! (16 * (2 * r - 1) + 1)))) AND ((of_nat n :: u64) - 1))"

text \<open>The two loops over \<open>n\<close>, two steps at a time; \<open>v\<close> is the list of its blocks.\<close>

primrec fill_loop :: "nat \<Rightarrow> nat \<Rightarrow> u32 list \<times> u32 list \<times> u32 list list \<Rightarrow> u32 list \<times> u32 list \<times> u32 list list" where
  "fill_loop r 0 s = s"
| "fill_loop r (Suc k) s = (case s of (x, y, v) \<Rightarrow> let
     y = blockmix_salsa8 y x r; x' = blockmix_salsa8 x y r
   in fill_loop r k (x', y, v @ [x, y]))"

primrec mix_loop :: "u32 list list \<Rightarrow> nat \<Rightarrow> nat \<Rightarrow> nat \<Rightarrow> u32 list \<times> u32 list \<Rightarrow> u32 list \<times> u32 list" where
  "mix_loop v n r 0 s = s"
| "mix_loop v n r (Suc k) s = (case s of (x, y) \<Rightarrow> let
     x = xor_words x (v ! integerify x r n);
     y = blockmix_salsa8 y x r;
     y = xor_words y (v ! integerify y r n);
     x = blockmix_salsa8 x y r
   in mix_loop v n r k (x, y))"

definition scrypt_romix :: "nat \<Rightarrow> nat \<Rightarrow> u32 list \<Rightarrow> u32 list" where
  "scrypt_romix n r x = (let
     (x, y, v) = fill_loop r ((n + 1) div 2) (x, replicate (32 * r) 0, [])
   in fst (mix_loop v n r ((n + 1) div 2) (x, y)))"

definition words_of :: "bytes \<Rightarrow> u32 list" where
  "words_of b = map (x32 b) [0..<length b div 4]"

definition bytes_of :: "u32 list \<Rightarrow> bytes" where
  "bytes_of w = concat (map UInt32SetLE w)"

definition BRScrypt :: "nat \<Rightarrow> bytes \<Rightarrow> bytes \<Rightarrow> nat \<Rightarrow> nat \<Rightarrow> nat \<Rightarrow> bytes" where
  "BRScrypt dkLen pw salt n r p = (let
     b = words_of (BRPBKDF2 (128 * r * p) BRSHA256 32 pw salt 1);
     b = concat (map (\<lambda>i. scrypt_romix n r (take (32 * r) (drop (32 * r * i) b))) [0..<p])
   in BRPBKDF2 dkLen BRSHA256 32 pw (bytes_of b) 1)"

section \<open>The key stream\<close>

text \<open>The 64 bit counter in two words: the carry of \<open>s[12]++; if (s[12] == 0) s[13]++\<close>.\<close>

lemma counter_carry:
  fixes n q r B :: nat
  assumes "n = B * q + r" "r < B" "q < B"
  shows "(n + 1) mod (B * B) mod B = (r + 1) mod B"
    and "(n + 1) mod (B * B) div B = (if (r + 1) mod B = 0 then (q + 1) mod B else q)"
proof -
  have B: "0 < B" using assms(2) by simp
  have m: "(n + 1) mod B = (r + 1) mod B" using assms(1) by (metis add.assoc mod_mult_self4)
  then show "(n + 1) mod (B * B) mod B = (r + 1) mod B" by (simp add: mod_mult2_eq)
  have "(n + 1) mod (B * B) = B * ((n + 1) div B mod B) + (n + 1) mod B" by (rule mod_mult2_eq)
  then have d: "(n + 1) mod (B * B) div B = (n + 1) div B mod B" using B by simp
  show "(n + 1) mod (B * B) div B = (if (r + 1) mod B = 0 then (q + 1) mod B else q)"
  proof (cases "r + 1 = B")
    case True
    then have "n + 1 = B * (q + 1)" using assms(1) by simp
    then have "(n + 1) div B = q + 1" using B by (metis nonzero_mult_div_cancel_left not_gr0)
    then show ?thesis using d True by simp
  next
    case False
    then have r: "r + 1 < B" using assms(2) by simp
    have "n + 1 = B * q + (r + 1)" using assms(1) by simp
    then have "(n + 1) div B = q" using r B by (metis add_0_right div_less div_mult_self4 not_gr0)
    then show ?thesis using d r assms(3) by simp
  qed
qed

lemma counter_words:
  fixes c :: u64
  shows "(ucast c + 1 :: u32) = ucast (c + 1)"
    and "(if (ucast c + 1 :: u32) = 0 then ucast (drop_bit 32 c) + 1 else ucast (drop_bit 32 c) :: u32) =
      ucast (drop_bit 32 (c + 1))"
proof -
  let ?B = "2 ^ 32 :: nat"
  have c: "unat c < ?B * ?B" using unsigned_less [of c] by simp
  have n: "unat c = ?B * (unat c div ?B) + unat c mod ?B" by simp
  have q: "unat c div ?B < ?B" using c by (rule less_mult_imp_div_less)
  have r: "unat c mod ?B < ?B" by simp
  have lo: "unat (ucast c + 1 :: u32) = (unat c mod ?B + 1) mod ?B"
    by (simp add: unat_word_ariths unat_ucast_mod)
  have nx: "unat (c + 1) = (unat c + 1) mod (?B * ?B)" by (simp add: unat_word_ariths)
  have "unat (ucast (c + 1) :: u32) = unat (c + 1) mod ?B" by (simp add: unat_ucast_mod)
  then show "(ucast c + 1 :: u32) = ucast (c + 1)"
    unfolding word_unat_eq_iff lo nx counter_carry(1) [OF n r q] by simp
  have hi: "unat (ucast (drop_bit 32 w) :: u32) = unat w div ?B mod ?B" for w :: u64
    by (simp add: unat_ucast_mod unat_drop_bit_div)
  have "(ucast c + 1 :: u32) = 0 \<longleftrightarrow> (unat c mod ?B + 1) mod ?B = 0"
    unfolding word_unat_eq_iff lo by simp
  then show "(if (ucast c + 1 :: u32) = 0 then ucast (drop_bit 32 c) + 1 else ucast (drop_bit 32 c) :: u32) =
      ucast (drop_bit 32 (c + 1))"
    unfolding word_unat_eq_iff hi nx counter_carry(2) [OF n r q]
    using q unat_drop_bit_div [of 32 c] by (simp add: hi unat_word_ariths unat_ucast_mod)
qed

lemma chacha_next_init:
  "chacha_next (chacha_init key32 iv8 c) = chacha_init key32 iv8 (c + 1)"
  using counter_words [of c]
  by (simp add: chacha_next_def chacha_init_def Let_def nth_append list_update_append split: if_splits)

text \<open>The state of the loop at byte \<open>i\<close>.\<close>

definition stream_state :: "bytes \<Rightarrow> bytes \<Rightarrow> u64 \<Rightarrow> nat \<Rightarrow> u32 list \<Rightarrow> bytes \<Rightarrow> bool" where
  "stream_state key32 iv8 c i s b \<longleftrightarrow> (let st = chacha_init key32 iv8 (c + of_nat (i div 64)) in
     if i mod 64 = 0 then s = st else s = chacha_next st \<and> b = chacha_block st)"

lemma stream_state_next:
  assumes "stream_state key32 iv8 c i s b"
  shows "stream_state key32 iv8 c (i + 1)
    (if i mod 64 = 0 then chacha_next s else s) (if i mod 64 = 0 then chacha_block s else b)"
proof (cases "(i + 1) mod 64 = 0")
  case True
  then have "(i + 1) div 64 = i div 64 + 1" "i mod 64 \<noteq> 0"
    by (auto simp: div_Suc mod_Suc split: if_splits)
  then show ?thesis using assms True by (simp add: stream_state_def Let_def chacha_next_init ac_simps)
next
  case False
  then have "(i + 1) div 64 = i div 64" by (simp add: div_Suc)
  then show ?thesis using assms False by (auto simp: stream_state_def Let_def split: if_splits)
qed

lemma chacha_loop_nth:
  assumes "stream_state key32 iv8 c i s b" "j < length data"
  shows "chacha_loop s b i data ! j = data ! j XOR
    chacha_block (chacha_init key32 iv8 (c + of_nat ((i + j) div 64))) ! ((i + j) mod 64)"
  using assms
proof (induction data arbitrary: i s b j)
  case (Cons d data)
  show ?case
  proof (cases j)
    case 0
    then show ?thesis using Cons.prems(1) by (auto simp: stream_state_def Let_def)
  next
    case (Suc k)
    then show ?thesis
      using Cons.IH [OF stream_state_next [OF Cons.prems(1)], of k] Cons.prems(2) by (simp split: if_splits)
  qed
qed simp

lemma length_chacha_loop [simp]: "length (chacha_loop s b i data) = length data"
  by (induction data arbitrary: s b i) simp_all

lemma length_chacha [simp]: "length (BRChacha20 key32 iv8 data c) = length data"
  by (simp add: BRChacha20_def)

lemma chacha_nth:
  assumes "j < length data"
  shows "BRChacha20 key32 iv8 data c ! j = data ! j XOR
    chacha_block (chacha_init key32 iv8 (c + of_nat (j div 64))) ! (j mod 64)"
proof -
  have "stream_state key32 iv8 c 0 (chacha_init key32 iv8 c) []" by (simp add: stream_state_def)
  from chacha_loop_nth [OF this assms] show ?thesis by (simp add: BRChacha20_def)
qed

lemma chacha_involution: "BRChacha20 key32 iv8 (BRChacha20 key32 iv8 data c) c = data"
  by (rule nth_equalityI) (simp_all add: chacha_nth xor.assoc)

section \<open>Authenticated encryption\<close>

lemma length_poly_bytes [simp]: "length (poly_bytes h) = 16"
  by (simp add: poly_bytes_def split: prod.splits)

lemma length_aead_mac [simp]: "length (aead_mac key32 nonce12 ad text) = 16"
  by (simp add: aead_mac_def Let_def)

lemma xor_eq_0_iff: "a XOR b = 0 \<longleftrightarrow> a = (b :: 'a::len word)"
  by (metis xor.assoc xor.right_neutral xor_self_eq xor.left_neutral)

lemma x32_inject:
  assumes "length a = 16" "length b = 16" "x32 a 0 = x32 b 0" "x32 a 1 = x32 b 1" "x32 a 2 = x32 b 2" "x32 a 3 = x32 b 3"
  shows "a = b"
proof -
  have eq: "take 4 (drop (4 * i) a) = take 4 (drop (4 * i) b)" if "x32 a i = x32 b i" "i < 4" for i
    using that assms(1,2) uint_set_get(2) [of "drop (4 * i) a"] uint_set_get(2) [of "drop (4 * i) b"]
    by (simp add: x32_def)
  have split: "c = take 4 (drop 0 c) @ take 4 (drop 4 c) @ take 4 (drop 8 c) @ take 4 (drop 12 c)"
    if "length c = 16" for c :: bytes
    using that append_take_drop_id [of 4 c] append_take_drop_id [of 4 "drop 4 c"]
      append_take_drop_id [of 4 "drop 8 c"] by simp
  show ?thesis
    using split [OF assms(1)] split [OF assms(2)] eq [of 0] eq [of 1] eq [of 2] eq [of 3] assms(3-) by simp
qed

text \<open>The comparison of the tags, with the precedence of \<open>!=\<close> over \<open>|\<close> in C.\<close>

lemma tag_compare:
  assumes "length mac = 16" "length h = 16"
  shows "((x32 mac 0 XOR x32 h 0) OR (x32 mac 1 XOR x32 h 1) OR (x32 mac 2 XOR x32 h 2) OR
    (if x32 mac 3 XOR x32 h 3 \<noteq> 0 then 1 else 0)) \<noteq> 0 \<longleftrightarrow> mac \<noteq> h"
  using x32_inject [OF assms] by (auto simp: or_eq_0_iff xor_eq_0_iff)

lemma decrypt_eq:
  assumes "16 \<le> length data" "(length data - 16) div 64 < 0xffffffff" "length data \<le> length b + 16"
  defines "n \<equiv> length data - 16"
  shows "BRChacha20Poly1305AEADDecrypt (Some b) key32 nonce12 data ad =
    (if drop n data = aead_mac key32 nonce12 ad (take n data)
     then (Some (poke 0 (BRChacha20 key32 (drop 4 nonce12) (take n data) (aead_counter nonce12 + 1)) b), n)
     else (Some b, 0))"
proof -
  have "length (drop n data) = 16" using assms by simp
  note cmp = tag_compare [OF this length_aead_mac]
  show ?thesis
    using assms cmp [of key32 nonce12 ad "take n data"]
    by (simp add: BRChacha20Poly1305AEADDecrypt_def Let_def not_less not_le poke_def BRChacha20_def)
qed

lemma encrypt_eq:
  fixes data b key32 nonce12 :: bytes
  assumes "length data + 16 \<le> length b" "length data div 64 < 0xffffffff"
  defines "ct \<equiv> BRChacha20 key32 (drop 4 nonce12) data (aead_counter nonce12 + 1)"
  shows "BRChacha20Poly1305AEADEncrypt (Some b) key32 nonce12 data ad =
    (Some (ct @ aead_mac key32 nonce12 ad ct @ drop (length data + 16) b), length data + 16)"
  using assms
  by (simp add: BRChacha20Poly1305AEADEncrypt_def Let_def poke_def add.commute)

section \<open>Derived keys\<close>

text \<open>The blocks of RFC 8018: the exclusive or of the first \<open>rounds\<close> iterates of the keyed hash.\<close>

primrec pbkdf2_U :: "(bytes \<Rightarrow> bytes) \<Rightarrow> bytes \<Rightarrow> nat \<Rightarrow> bytes" where
  "pbkdf2_U mac_fn u 0 = mac_fn u"
| "pbkdf2_U mac_fn u (Suc k) = mac_fn (pbkdf2_U mac_fn u k)"

primrec pbkdf2_T :: "(bytes \<Rightarrow> bytes) \<Rightarrow> bytes \<Rightarrow> nat \<Rightarrow> bytes" where
  "pbkdf2_T mac_fn u 0 = pbkdf2_U mac_fn u 0"
| "pbkdf2_T mac_fn u (Suc k) = map2 (\<lambda>t v. t XOR v) (pbkdf2_T mac_fn u k) (pbkdf2_U mac_fn u (Suc k))"

definition pbkdf2_spec :: "(bytes \<Rightarrow> bytes) \<Rightarrow> nat \<Rightarrow> nat \<Rightarrow> bytes \<Rightarrow> nat \<Rightarrow> bytes" where
  "pbkdf2_spec mac_fn hashLen dkLen salt rounds =
     take dkLen (concat (map (\<lambda>i. pbkdf2_T mac_fn (salt @ UInt32SetBE (of_nat i)) (rounds - 1))
       [1..<Suc ((dkLen + hashLen - 1) div hashLen)]))"

lemma pbkdf2_rounds_eq:
  "pbkdf2_rounds hash hashLen pw n (pbkdf2_U (BRHMAC hash hashLen pw) u k, pbkdf2_T (BRHMAC hash hashLen pw) u k) =
    (pbkdf2_U (BRHMAC hash hashLen pw) u (k + n), pbkdf2_T (BRHMAC hash hashLen pw) u (k + n))"
proof (induction n arbitrary: k)
  case (Suc n)
  show ?case using Suc.IH [of "Suc k"] by (simp add: Let_def)
qed simp

lemma pbkdf2_block_eq:
  "pbkdf2_block hash hashLen pw salt rounds i =
    pbkdf2_T (BRHMAC hash hashLen pw) (salt @ UInt32SetBE (i + 1)) (rounds - 1)"
  using pbkdf2_rounds_eq [of hash hashLen pw "rounds - 1" "salt @ UInt32SetBE (i + 1)" 0]
  by (simp add: pbkdf2_block_def Let_def set_be32)

lemma pbkdf2_loop_prefix:
  assumes "\<And>i. length (block i) = hashLen" "i * hashLen \<le> length dk"
  shows "pbkdf2_loop block hashLen i dk =
    concat (map (\<lambda>k. block (of_nat k)) [0..<i]) @ drop (i * hashLen) dk"
  using assms(2)
proof (induction i)
  case (Suc i)
  let ?c = "concat (map (\<lambda>k. block (of_nat k)) [0..<i])"
  have len: "length ?c = i * hashLen" using assms(1) by (simp add: length_concat comp_def sum_list_triv)
  have IH: "pbkdf2_loop block hashLen i dk = ?c @ drop (i * hashLen) dk" using Suc by simp
  have "i * hashLen + hashLen \<le> length dk" using Suc.prems by simp
  then show ?case
    using Suc.prems IH len assms(1) poke_append [of ?c "block (of_nat i)" "drop (i * hashLen) dk"]
    by (simp add: Let_def add.commute)
qed simp

lemma pbkdf2_loop_all:
  assumes "\<And>i. length (block i) = hashLen" "0 < hashLen"
  shows "pbkdf2_loop block hashLen ((length dk + hashLen - 1) div hashLen) dk =
    take (length dk) (concat (map (\<lambda>k. block (of_nat k)) [0..<(length dk + hashLen - 1) div hashLen]))"
proof -
  define q m where "q = length dk div hashLen" and "m = length dk mod hashLen"
  have dk: "length dk = q * hashLen + m" "m < hashLen" using assms(2) by (simp_all add: q_def m_def)
  let ?c = "concat (map (\<lambda>k. block (of_nat k)) [0..<q])"
  have len: "length ?c = q * hashLen" using assms(1) by (simp add: length_concat comp_def sum_list_triv)
  have pre: "pbkdf2_loop block hashLen q dk = ?c @ drop (q * hashLen) dk"
    using dk(1) by (intro pbkdf2_loop_prefix assms(1)) simp
  show ?thesis
  proof (cases "m = 0")
    case True
    then have "length dk + hashLen - 1 = q * hashLen + (hashLen - 1)" using dk assms(2) by simp
    then have "(length dk + hashLen - 1) div hashLen = q"
      using assms(2) div_mult_self3 [of hashLen q "hashLen - 1"] by (simp only:) simp
    then show ?thesis using pre len dk True by simp
  next
    case False
    have "length dk + hashLen - 1 = (q + 1) * hashLen + (m - 1)" using dk False by simp
    then have n: "(length dk + hashLen - 1) div hashLen = Suc q"
      using dk(2) assms(2) div_mult_self3 [of hashLen "q + 1" "m - 1"] by (simp only:) simp
    have "take m (block (of_nat q)) @ drop m (drop (q * hashLen) dk) = take m (block (of_nat q))"
      using dk(1) by simp
    then show ?thesis
      unfolding n using pre len dk assms(1) poke_append [of ?c "take m (block (of_nat q))" "drop (q * hashLen) dk"]
      by (simp add: Let_def)
  qed
qed

lemma length_pbkdf2_T:
  assumes "\<And>x. length (mac_fn x) = hashLen"
  shows "length (pbkdf2_T mac_fn u k) = hashLen"
proof -
  have "length (pbkdf2_U mac_fn u j) = hashLen" for j using assms by (cases j) simp_all
  then show ?thesis using assms by (induction k) simp_all
qed

lemma pbkdf2_eq:
  assumes "\<And>x. length (hash x) = hashLen" "0 < hashLen"
  shows "BRPBKDF2 dkLen hash hashLen pw salt rounds =
    pbkdf2_spec (BRHMAC hash hashLen pw) hashLen dkLen salt rounds"
proof -
  let ?mac_fn = "BRHMAC hash hashLen pw"
  let ?n = "(dkLen + hashLen - 1) div hashLen"
  have mac_fn: "length (?mac_fn x) = hashLen" for x using assms(1) by (simp add: BRHMAC_def Let_def)
  have "length (pbkdf2_block hash hashLen pw salt rounds i) = hashLen" for i
    unfolding pbkdf2_block_eq by (rule length_pbkdf2_T) (rule mac_fn)
  from pbkdf2_loop_all [OF this assms(2), where dk = "replicate dkLen 0"]
  have "BRPBKDF2 dkLen hash hashLen pw salt rounds =
      take dkLen (concat (map (\<lambda>k. pbkdf2_block hash hashLen pw salt rounds (of_nat k)) [0..<?n]))"
    by (simp add: BRPBKDF2_def)
  also have "map (\<lambda>k. pbkdf2_block hash hashLen pw salt rounds (of_nat k)) [0..<?n] =
      map (\<lambda>i. pbkdf2_T ?mac_fn (salt @ UInt32SetBE (of_nat i)) (rounds - 1)) [1..<Suc ?n]"
    unfolding pbkdf2_block_eq map_Suc_upt [symmetric] One_nat_def by (simp add: comp_def add.commute)
  finally show ?thesis by (simp add: pbkdf2_spec_def)
qed

lemma length_pbkdf2:
  assumes "\<And>x. length (hash x) = hashLen" "0 < hashLen"
  shows "length (BRPBKDF2 dkLen hash hashLen pw salt rounds) = dkLen"
proof -
  let ?n = "(dkLen + hashLen - 1) div hashLen"
  have "length (BRHMAC hash hashLen pw x) = hashLen" for x using assms(1) by (simp add: BRHMAC_def Let_def)
  then have "length (pbkdf2_T (BRHMAC hash hashLen pw) s k) = hashLen" for s k by (rule length_pbkdf2_T)
  then have "length (concat (map (\<lambda>i. pbkdf2_T (BRHMAC hash hashLen pw) (salt @ UInt32SetBE (of_nat i)) (rounds - 1))
      [1..<Suc ?n])) = ?n * hashLen"
    by (simp add: length_concat comp_def sum_list_triv)
  moreover have "dkLen \<le> ?n * hashLen"
  proof -
    have "dkLen + hashLen - 1 < ?n * hashLen + hashLen"
      using assms(2) dividend_less_div_times [of hashLen "dkLen + hashLen - 1"] by (simp add: add.commute)
    then show ?thesis using assms(2) by linarith
  qed
  ultimately show ?thesis using pbkdf2_eq [OF assms] by (simp add: pbkdf2_spec_def)
qed

section \<open>scrypt\<close>

text \<open>
  RFC 7914: \<open>BlockMix\<close> on a list of 64 byte blocks with the even results before the odd ones, and
  \<open>ROMix\<close> one step at a time.
\<close>

primrec mix_chain :: "u32 list \<Rightarrow> u32 list list \<Rightarrow> u32 list list" where
  "mix_chain b [] = []"
| "mix_chain b (s # ss) = (let b = salsa20_8 (xor_words b s) in b # mix_chain b ss)"

definition BlockMix :: "u32 list \<Rightarrow> u32 list" where
  "BlockMix x = (let
     bs = chunks 16 x;
     ys = mix_chain (last bs) bs;
     evens = map (\<lambda>i. ys ! (2 * i)) [0..<length ys div 2];
     odds = map (\<lambda>i. ys ! (2 * i + 1)) [0..<length ys div 2]
   in concat (evens @ odds))"

primrec ROMix_fill :: "nat \<Rightarrow> u32 list \<Rightarrow> u32 list list" where
  "ROMix_fill 0 x = []"
| "ROMix_fill (Suc n) x = x # ROMix_fill n (BlockMix x)"

primrec ROMix_mix :: "u32 list list \<Rightarrow> nat \<Rightarrow> u32 list \<Rightarrow> u32 list" where
  "ROMix_mix v 0 x = x"
| "ROMix_mix v (Suc k) x = ROMix_mix v k
     (BlockMix (xor_words x (v ! (unat (x ! (length x - 16)) mod length v))))"

definition ROMix :: "nat \<Rightarrow> u32 list \<Rightarrow> u32 list" where
  "ROMix n x = ROMix_mix (ROMix_fill n x) n ((BlockMix ^^ n) x)"

lemma length_salsa_op [simp]: "length (salsa_op a b c k x) = length x"
  by (simp add: salsa_op_def)

lemma length_salsa_double [simp]: "length (salsa_double x) = length x"
  by (simp add: salsa_double_def salsa_quarter_def)

lemma length_salsa20_8 [simp]: "length (salsa20_8 x) = length x"
proof -
  have "length ((salsa_double ^^ k) x) = length x" for k by (induction k) simp_all
  then show ?thesis by (simp add: salsa20_8_def)
qed

lemma length_xor_words [simp]: "length (xor_words a b) = min (length a) (length b)"
  by (simp add: xor_words_def)

lemma length_mix_chain [simp]: "length (mix_chain b ss) = length ss"
  by (induction ss arbitrary: b) (simp_all add: Let_def)

lemma mix_chain_nth:
  "k < length ss \<Longrightarrow> mix_chain b ss ! k =
     salsa20_8 (xor_words (if k = 0 then b else mix_chain b ss ! (k - 1)) (ss ! k))"
proof (induction ss arbitrary: b k)
  case (Cons s ss)
  show ?case
  proof (cases k)
    case 0
    then show ?thesis by (simp add: Let_def)
  next
    case (Suc j)
    then show ?thesis
      using Cons.IH [of j "salsa20_8 (xor_words b s)"] Cons.prems by (cases j) (simp_all add: Let_def)
  qed
qed simp

lemma length_chunks: "0 < B \<Longrightarrow> length (chunks B xs) = length xs div B"
proof (induction B xs rule: chunks.induct)
  case (1 B xs)
  show ?case
  proof (cases "length xs < B")
    case False
    then show ?thesis using 1 by (subst chunks.simps) (simp add: le_div_geq)
  qed simp
qed

lemma nth_chunks: "0 < B \<Longrightarrow> k < length xs div B \<Longrightarrow> chunks B xs ! k = take B (drop (B * k) xs)"
proof (induction B xs arbitrary: k rule: chunks.induct)
  case (1 B xs)
  then have ge: "\<not> length xs < B" by (metis div_less not_less0)
  then have unf: "chunks B xs = take B xs # chunks B (drop B xs)"
    using 1(2) by (subst chunks.simps) simp
  show ?case
  proof (cases k)
    case (Suc j)
    then have "j < length (drop B xs) div B" using 1(2,3) ge by (simp add: le_div_geq)
    then show ?thesis
      using 1(1) [of j] 1(2) ge unf Suc by (simp add: add.commute)
  qed (simp add: unf)
qed

lemma mix_chain_block:
  assumes "length b = 16" "\<forall>s\<in>set ss. length s = 16" "k < length ss"
  shows "length (mix_chain b ss ! k) = 16"
  using assms(3)
proof (induction k)
  case 0
  then show ?case using assms by (subst mix_chain_nth) (auto simp: nth_mem)
next
  case (Suc k)
  then show ?case using assms by (subst mix_chain_nth) (auto simp: nth_mem)
qed

lemma length_pieces:
  assumes "\<forall>i<n. length (f i) = B"
  shows "length (concat (map f [0..<n])) = B * n"
  using assms by (induction n) simp_all

lemma overwrite_mid:
  "k = length a \<Longrightarrow> take k (a @ t) @ y @ drop (k + 16) (a @ t) = a @ y @ drop 16 t"
  by simp

text \<open>The loop of \<open>_blockmix_salsa8\<close> after \<open>n\<close> of its \<open>r\<close> rounds.\<close>

lemma blockmix_loop_eq:
  fixes r n :: nat
  assumes src: "length src = 32 * r" and dest: "length dest = 32 * r" and n: "n \<le> r" and r: "0 < r"
  defines "bs \<equiv> chunks 16 src"
  defines "ys \<equiv> mix_chain (last bs) bs"
  shows "blockmix_loop src r n (dest, last bs) =
    (concat (map (\<lambda>i. ys ! (2 * i)) [0..<n]) @ drop (16 * n) (take (16 * r) dest) @
     concat (map (\<lambda>i. ys ! (2 * i + 1)) [0..<n]) @ drop (16 * r + 16 * n) dest,
     if n = 0 then last bs else ys ! (2 * n - 1))"
  using n
proof (induction n)
  case 0
  then show ?case by simp
next
  case (Suc n)
  have lbs: "length bs = 2 * r" using src by (simp add: bs_def length_chunks)
  then have "bs \<noteq> []" using r by auto
  have nthbs: "bs ! k = take 16 (drop (16 * k) src)" if "k < 2 * r" for k
    using that src by (simp add: bs_def nth_chunks)
  have blk: "\<forall>s\<in>set bs. length s = 16" using nthbs lbs src by (auto simp: in_set_conv_nth)
  have "length (last bs) = 16" using blk \<open>bs \<noteq> []\<close> by simp
  then have ylen: "length (ys ! k) = 16" if "k < 2 * r" for k
    using mix_chain_block [OF _ blk] that lbs by (simp add: ys_def)
  have ynth: "ys ! k = salsa20_8 (xor_words (if k = 0 then last bs else ys ! (k - 1)) (bs ! k))"
    if "k < 2 * r" for k
    using that lbs mix_chain_nth [of k bs "last bs"] by (simp add: ys_def)
  let ?E = "concat (map (\<lambda>i. ys ! (2 * i)) [0..<n])" and ?O = "concat (map (\<lambda>i. ys ! (2 * i + 1)) [0..<n])"
  let ?b = "if n = 0 then last bs else ys ! (2 * n - 1)"
  have lE: "length ?E = 16 * n" and lO: "length ?O = 16 * n"
    using Suc.prems ylen by (auto intro!: length_pieces)
  have b1: "salsa20_8 (xor_words ?b (take 16 (drop (16 * (2 * n)) src))) = ys ! (2 * n)"
    using ynth [of "2 * n"] nthbs [of "2 * n"] Suc.prems by simp
  have b2: "salsa20_8 (xor_words (ys ! (2 * n)) (take 16 (drop (16 * (2 * n) + 16) src))) = ys ! (2 * n + 1)"
    using ynth [of "2 * n + 1"] nthbs [of "2 * n + 1"] Suc.prems by (simp add: add.commute)
  let ?D = "?E @ drop (16 * n) (take (16 * r) dest) @ ?O @ drop (16 * r + 16 * n) dest"
  have IH: "blockmix_loop src r n (dest, last bs) = (?D, ?b)" using Suc by simp
  have w1: "take (8 * (2 * n)) ?D @ ys ! (2 * n) @ drop (8 * (2 * n) + 16) ?D =
      (?E @ ys ! (2 * n)) @ drop (16 * Suc n) (take (16 * r) dest) @ ?O @ drop (16 * r + 16 * n) dest"
    using lE Suc.prems dest by (simp add: drop_append add.commute)
  let ?E' = "concat (map (\<lambda>i. ys ! (2 * i)) [0..<Suc n])"
  let ?M = "drop (16 * Suc n) (take (16 * r) dest)" and ?T = "drop (16 * r + 16 * n) dest"
  have E': "?E @ ys ! (2 * n) = ?E'" by simp
  have lE': "length ?E' = 16 * Suc n" using lE ylen [of "2 * n"] Suc.prems by simp
  have lM: "length (?E' @ ?M @ ?O) = 16 * r + 16 * n" using lE' lO Suc.prems dest by simp
  have w2: "take (8 * (2 * n) + 16 * r) (?E' @ ?M @ ?O @ ?T) @ ys ! (2 * n + 1) @
      drop (8 * (2 * n) + 16 * r + 16) (?E' @ ?M @ ?O @ ?T) =
      ?E' @ ?M @ (?O @ ys ! (2 * n + 1)) @ drop (16 * r + 16 * Suc n) dest"
  proof -
    have k: "8 * (2 * n) + 16 * r = length (?E' @ ?M @ ?O)" using lM by simp
    have dT: "drop 16 ?T = drop (16 * r + 16 * Suc n) dest" by (simp add: ac_simps)
    show ?thesis
      using overwrite_mid [OF k, of ?T "ys ! (2 * n + 1)"] unfolding dT append_assoc .
  qed
  have O': "?O @ ys ! (2 * n + 1) = concat (map (\<lambda>i. ys ! (2 * i + 1)) [0..<Suc n])" by simp
  have step: "blockmix_loop src r (Suc n) (dest, last bs) =
      (?E' @ ?M @ (?O @ ys ! (2 * n + 1)) @ drop (16 * r + 16 * Suc n) dest, ys ! (2 * n + 1))"
    unfolding blockmix_loop.simps IH Let_def split b1 b2 w1 [unfolded E' append_assoc] w2 E' append_assoc ..
  show ?case unfolding step O' by simp
qed

lemma blockmix_eq:
  assumes "length src = 32 * r" "length dest = 32 * r" "0 < r"
  shows "blockmix_salsa8 dest src r = BlockMix src"
proof -
  have l: "length (chunks 16 src) = 2 * r" using assms(1) by (simp add: length_chunks)
  then have "chunks 16 src \<noteq> []" using assms(3) by auto
  then have "last (chunks 16 src) = take 16 (drop ((2 * r - 1) * 16) src)"
    using l assms(1,3) by (simp add: last_conv_nth nth_chunks mult.commute)
  then show ?thesis
    using blockmix_loop_eq [OF assms(1,2) order_refl assms(3)] assms l
    by (simp add: blockmix_salsa8_def BlockMix_def Let_def)
qed

lemma length_BlockMix:
  assumes "length x = 32 * r" "0 < r"
  shows "length (BlockMix x) = 32 * r"
proof -
  have l: "length (chunks 16 x) = 2 * r" using assms(1) by (simp add: length_chunks)
  have blk: "\<forall>s\<in>set (chunks 16 x). length s = 16"
    using l assms(1) by (auto simp: in_set_conv_nth nth_chunks)
  have "chunks 16 x \<noteq> []" using l assms(2) by auto
  then have y: "length (mix_chain (last (chunks 16 x)) (chunks 16 x) ! k) = 16" if "k < 2 * r" for k
    using mix_chain_block [OF _ blk, of "last (chunks 16 x)" k] blk that l by simp
  show ?thesis
    unfolding BlockMix_def Let_def concat_append length_append
    using y l by (subst length_pieces [where B = 16], simp, subst length_pieces [where B = 16]) simp_all
qed

lemma ROMix_fill_add: "ROMix_fill (m + n) x = ROMix_fill m x @ ROMix_fill n ((BlockMix ^^ m) x)"
  by (induction m arbitrary: x) (simp_all add: funpow_swap1)

lemma length_ROMix_fill [simp]: "length (ROMix_fill n x) = n"
  by (induction n arbitrary: x) simp_all

lemma ROMix_fill_blocks:
  "length x = 32 * r \<Longrightarrow> 0 < r \<Longrightarrow> s \<in> set (ROMix_fill n x) \<Longrightarrow> length s = 32 * r"
proof (induction n arbitrary: x)
  case (Suc n)
  then show ?case using Suc.IH [OF length_BlockMix] by auto
qed simp

lemma fill_loop_eq:
  assumes "length x = 32 * r" "length y = 32 * r" "0 < r"
  shows "\<exists>y'. length y' = 32 * r \<and>
    fill_loop r k (x, y, v) = ((BlockMix ^^ (2 * k)) x, y', v @ ROMix_fill (2 * k) x)"
  using assms(1,2)
proof (induction k arbitrary: x y v)
  case (Suc k)
  let ?y = "BlockMix x"
  have ly: "length ?y = 32 * r" "length (BlockMix ?y) = 32 * r"
    using Suc.prems assms(3) by (simp_all add: length_BlockMix)
  have "blockmix_salsa8 y x r = ?y" "blockmix_salsa8 x ?y r = BlockMix ?y"
    using Suc.prems ly(1) assms(3) by (simp_all add: blockmix_eq)
  then show ?case
    using Suc.IH [OF ly(2,1), of "v @ [x, ?y]"] by (simp add: funpow_swap1 Let_def)
qed simp

lemma integerify_eq:
  assumes "n = 2 ^ e" "e \<le> 32" "length x = 32 * r" "0 < r"
  shows "integerify x r n = unat (x ! (length x - 16)) mod n"
proof -
  have i: "16 * (2 * r - 1) = length x - 16" using assms(3,4) by simp
  have m: "(of_nat n :: u64) - 1 = mask e" using assms(1) by (simp add: mask_eq_exp_minus_1)
  have "(ucast a OR push_bit 32 (ucast b)) AND mask e = take_bit e (ucast a :: u64)" for a b :: u32
    using assms(2) by (intro bit_word_eqI) (auto simp: bit_simps)
  then have "integerify x r n = unat (take_bit e (ucast (x ! (length x - 16)) :: u64))"
    unfolding integerify_def i m by simp
  also have "\<dots> = take_bit e (unat (ucast (x ! (length x - 16)) :: u64))" by (rule unsigned_take_bit_eq)
  finally show ?thesis using assms(1) by (simp add: take_bit_eq_mod unat_ucast_up)
qed

lemma mix_loop_eq:
  assumes n: "n = 2 ^ e" "e \<le> 32" "length v = n" and v: "\<forall>s\<in>set v. length s = 32 * r"
    and r: "0 < r" and "length x = 32 * r" "length y = 32 * r"
  shows "fst (mix_loop v n r k (x, y)) = ROMix_mix v (2 * k) x"
  using assms(6,7)
proof (induction k arbitrary: x y)
  case (Suc k)
  let ?j = "\<lambda>x. unat (x ! (length x - 16)) mod length v"
  have j: "length (v ! ?j z) = 32 * r" for z :: "u32 list" using n v by simp
  define x1 where "x1 = xor_words x (v ! ?j x)"
  have x1: "length x1 = 32 * r" using Suc.prems j [of x] by (simp add: x1_def)
  define y1 where "y1 = BlockMix x1"
  have y1: "length y1 = 32 * r" "blockmix_salsa8 y x1 r = y1"
    using x1 Suc.prems r by (simp_all add: y1_def length_BlockMix blockmix_eq)
  define y2 where "y2 = xor_words y1 (v ! ?j y1)"
  have y2: "length y2 = 32 * r" using y1(1) j [of y1] by (simp add: y2_def)
  have x2: "blockmix_salsa8 x1 y2 r = BlockMix y2" "length (BlockMix y2) = 32 * r"
    using x1 y2 r by (simp_all add: length_BlockMix blockmix_eq)
  have i1: "xor_words x (v ! integerify x r n) = x1" and i2: "xor_words y1 (v ! integerify y1 r n) = y2"
    using integerify_eq [OF n(1,2) Suc.prems(1) r] integerify_eq [OF n(1,2) y1(1) r] n(3)
    by (simp_all add: x1_def y2_def)
  have "mix_loop v n r (Suc k) (x, y) = mix_loop v n r k (BlockMix y2, y2)"
    unfolding mix_loop.simps split Let_def i1 y1(2) i2 x2(1) ..
  then show ?case
    using Suc.IH [OF x2(2) y2] by (simp add: x1_def y1_def y2_def)
qed simp

lemma scrypt_romix_eq:
  assumes "n = 2 ^ e" "1 \<le> e" "e \<le> 32" "length x = 32 * r" "0 < r"
  shows "scrypt_romix n r x = ROMix n x"
proof -
  have n: "2 * ((n + 1) div 2) = n" using assms(1,2) by (cases e) simp_all
  obtain y' where y': "length y' = 32 * r"
      "fill_loop r ((n + 1) div 2) (x, replicate (32 * r) 0, []) = ((BlockMix ^^ n) x, y', ROMix_fill n x)"
    using fill_loop_eq [OF assms(4) _ assms(5), of "replicate (32 * r) 0" "(n + 1) div 2" "[]"] n by auto
  have "length ((BlockMix ^^ k) x) = 32 * r" for k
    using assms(4,5) by (induction k) (simp_all add: length_BlockMix)
  then have "fst (mix_loop (ROMix_fill n x) n r ((n + 1) div 2) ((BlockMix ^^ n) x, y')) =
      ROMix_mix (ROMix_fill n x) n ((BlockMix ^^ n) x)"
    using mix_loop_eq [OF assms(1,3), of "ROMix_fill n x" r "(BlockMix ^^ n) x" y' "(n + 1) div 2"]
      ROMix_fill_blocks [OF assms(4,5)] y'(1) n assms(5) by simp
  then show ?thesis using y'(2) by (simp add: scrypt_romix_def ROMix_def)
qed

section \<open>Properties\<close>

text \<open>
  C36: \<open>BRChacha20\<close> is the stream cypher of its reference: byte \<open>j\<close> is combined with byte \<open>j mod 64\<close> of
  the block for the 64 bit counter \<open>c + j div 64\<close>, although the code keeps the counter in two
  words, and the cypher is its own inverse.\<close>

theorem chacha20_keystream:
  "(\<forall>j<length data. BRChacha20 key32 iv8 data c ! j = data ! j XOR
     chacha_block (chacha_init key32 iv8 (c + of_nat (j div 64))) ! (j mod 64)) \<and>
   BRChacha20 key32 iv8 (BRChacha20 key32 iv8 data c) c = data"
  by (simp add: chacha_nth chacha_involution)

theorem chacha20_keystream_witness:
  "BRChacha20 [] [] [7, 8, 9] 5 ! 2 = 9 XOR chacha_block (chacha_init [] [] 5) ! 2"
  using chacha20_keystream [of "[7, 8, 9]" "[]" "[]" 5, THEN conjunct1, THEN spec, of 2] by simp

text \<open>
  C37: \<open>BRChacha20Poly1305AEADDecrypt\<close> gives back the data that \<open>BRChacha20Poly1305AEADEncrypt\<close>
  encrypted with the same key, nonce and associated data, and writes nothing behind it.\<close>

theorem aead_round_trip:
  assumes "BRChacha20Poly1305AEADEncrypt (Some b) key32 nonce12 data ad = (Some b', n)" "n \<noteq> 0"
    "length data \<le> length out"
  shows "n = length data + 16 \<and> length b' = length b \<and>
    BRChacha20Poly1305AEADDecrypt (Some out) key32 nonce12 (take n b') ad =
      (Some (data @ drop (length data) out), length data)"
proof -
  have ok: "length data + 16 \<le> length b" "length data div 64 < 0xffffffff"
    using assms(1,2) by (auto simp: BRChacha20Poly1305AEADEncrypt_def split: if_splits)
  define ct where "ct = BRChacha20 key32 (drop 4 nonce12) data (aead_counter nonce12 + 1)"
  have ct: "length ct = length data" by (simp add: ct_def)
  have b': "b' = ct @ aead_mac key32 nonce12 ad ct @ drop (length data + 16) b" "n = length data + 16"
    using assms(1) encrypt_eq [OF ok, of key32 nonce12 ad] by (auto simp: ct_def)
  then have d: "take n b' = ct @ aead_mac key32 nonce12 ad ct" using ct by simp
  have "BRChacha20 key32 (drop 4 nonce12) ct (aead_counter nonce12 + 1) = data"
    by (simp add: ct_def chacha_involution)
  then have "BRChacha20Poly1305AEADDecrypt (Some out) key32 nonce12 (take n b') ad =
      (Some (data @ drop (length data) out), length data)"
    unfolding d using decrypt_eq [of "ct @ aead_mac key32 nonce12 ad ct" out key32 nonce12 ad] ct ok assms(3)
    by simp
  then show ?thesis using b' ct ok by simp
qed

theorem aead_round_trip_witness:
  "\<exists>b'. BRChacha20Poly1305AEADDecrypt (Some [0, 0]) [1] [2] (take 18 b') [3] = (Some [8, 9], 2)"
proof -
  obtain b' where "BRChacha20Poly1305AEADEncrypt (Some (replicate 20 0)) [1] [2] [8, 9] [3] = (Some b', 18)"
    using encrypt_eq [of "[8, 9]" "replicate 20 0" "[1]" "[2]" "[3]"] by auto
  from aead_round_trip [OF this, of "[0, 0]"] show ?thesis
    by (intro exI [of _ b']) (simp add: numeral_2_eq_2)
qed

text \<open>
  \<open>BRChacha20Poly1305AEADDecrypt\<close> returns a length other than 0 only for data whose last 16
  bytes are the authenticator of the bytes before it and of the associated data; everything else
  leaves the output buffer as it was. The comparison \<open>a | b | c | d != 0\<close> of the code, which C
  reads as \<open>a | b | c | (d != 0)\<close>, still compares all four words.\<close>

theorem aead_accepts_only_authentic:
  assumes "BRChacha20Poly1305AEADDecrypt (Some out) key32 nonce12 data ad = (Some out', n)"
  shows "(n \<noteq> 0 \<longrightarrow> n + 16 = length data \<and> drop n data = aead_mac key32 nonce12 ad (take n data)) \<and>
    (n = 0 \<longrightarrow> out' = out)"
proof (cases "length data < 16 \<or> (length data - 16) div 64 \<ge> 0xffffffff \<or> length out + 16 < length data")
  case True
  then show ?thesis using assms by (auto simp: BRChacha20Poly1305AEADDecrypt_def)
next
  case False
  then show ?thesis
    using assms decrypt_eq [of data out key32 nonce12 ad]
    by (auto simp: not_less not_le BRChacha20_def split: if_splits)
qed

theorem aead_accepts_only_authentic_witness:
  "\<exists>ct. length ct = 2 \<and> (let data = ct @ aead_mac [1] [2] [3] ct in
     2 + 16 = length data \<and> drop 2 data = aead_mac [1] [2] [3] (take 2 data))"
proof -
  define ct where "ct = BRChacha20 [1] (drop 4 [2]) [8, 9] (aead_counter [2] + 1)"
  have ct: "length ct = 2" by (simp add: ct_def)
  then have "BRChacha20Poly1305AEADDecrypt (Some [0, 0]) [1] [2] (ct @ aead_mac [1] [2] [3] ct) [3] =
      (Some (poke 0 (BRChacha20 [1] (drop 4 [2]) ct (aead_counter [2] + 1)) [0, 0]), 2)"
    using decrypt_eq [of "ct @ aead_mac [1] [2] [3] ct" "[0, 0]" "[1]" "[2]" "[3]"] by simp
  from aead_accepts_only_authentic [OF this] show ?thesis
    using ct by (intro exI [of _ ct]) (simp add: Let_def)
qed

text \<open>
  \<open>BRPBKDF2\<close> fills the key with the function of RFC 8018: the concatenation of the blocks
  \<open>T1, T2, ...\<close>, each the exclusive or of the iterates of the keyed hash, cut to \<open>dkLen\<close> bytes, for
  every hash function with results of \<open>hashLen\<close> bytes and every length of the key.\<close>

theorem pbkdf2_correct:
  assumes "\<And>x. length (hash x) = hashLen" "0 < hashLen"
  shows "BRPBKDF2 dkLen hash hashLen pw salt rounds =
    pbkdf2_spec (BRHMAC hash hashLen pw) hashLen dkLen salt rounds"
  using assms by (rule pbkdf2_eq)

theorem pbkdf2_correct_witness:
  "BRPBKDF2 70 BRSHA512 64 [1] [2] 2048 = pbkdf2_spec (BRHMAC BRSHA512 64 [1]) 64 70 [2] 2048"
  using pbkdf2_correct [of BRSHA512 64 70 "[1]" "[2]" 2048] by simp



end
