(* ===== verification/BRMerkleBlock.thy ===== *)
theory BRMerkleBlock
  imports Reader BRSet BRUInt256 BRCipher "HOL-Library.Multiset"
begin

text \<open>
  \<open>src/Modules/core/BRMerkleBlock.c\<close>: block headers with a partial merkle tree, their validation
  and the difficulty target.

  The pointers \<open>hashes\<close> and \<open>flags\<close> are \<open>None\<close> when null, and the list of what was allocated
  otherwise; the counts are separate members that need not agree with it. A result \<open>None\<close> of an
  operation stands for undefined behaviour, a failed assertion or a computation that does not end.
  \<open>timetravel10_hash\<close> is vendored code and a parameter of \<open>BRMerkleBlockParse\<close>.

  The second part of the theory describes the encoding of a partial merkle tree by BIP 37 and shows
  that the two recursions of the code decode it.
\<close>

record BRMerkleBlock =
  blockHash :: UInt256
  powHash :: UInt256
  mb_version :: u32
  prevBlock :: UInt256
  merkleRoot :: UInt256
  mb_timestamp :: u32
  target :: u32
  nonce :: u32
  totalTx :: u32
  hashes :: "UInt256 list option"
  hashesCount :: u64
  flags :: buffer
  flagsLen :: u64
  height :: u32

definition BLOCK_UNKNOWN_HEIGHT :: u32 where "BLOCK_UNKNOWN_HEIGHT = 0x7fffffff"
definition DGW_PAST_BLOCKS :: nat where "DGW_PAST_BLOCKS = 180"
definition DGW_START_BLOCK :: u32 where "DGW_START_BLOCK = 338778"
definition DGW_TARGET_TIMESPAN :: nat where "DGW_TARGET_TIMESPAN = 60"
definition MAX_PROOF_OF_WORK :: u32 where "MAX_PROOF_OF_WORK = 0x1e00ffff"

section \<open>Logarithm\<close>

text \<open>The argument is an \<open>int\<close>; the shift of a negative one never reaches 0.\<close>

partial_function (option) log2_loop :: "int \<Rightarrow> nat \<Rightarrow> nat option" where
  "log2_loop x r = (let x = drop_bit 1 x in if x \<noteq> 0 then log2_loop x (r + 1) else Some r)"

declare log2_loop.simps [code]

definition ceil_log2 :: "int \<Rightarrow> nat option" where
  "ceil_log2 x = log2_loop x (if x AND (x - 1) \<noteq> 0 then 1 else 0)"

section \<open>The order of the hash functions\<close>

definition swap8 :: "nat \<Rightarrow> nat \<Rightarrow> u8 list \<Rightarrow> u8 list" where
  "swap8 i j n = n[i := n ! j, j := n ! i]"

definition initPerm :: "nat \<Rightarrow> u8 list" where
  "initPerm cnt = map of_nat [0..<cnt]"

primrec perm_tail :: "u8 list \<Rightarrow> nat \<Rightarrow> nat" where
  "perm_tail n 0 = 0"
| "perm_tail n (Suc i) = (if n ! i \<ge> n ! Suc i then perm_tail n i else Suc i)"

primrec perm_pivot :: "u8 list \<Rightarrow> nat \<Rightarrow> nat \<Rightarrow> nat" where
  "perm_pivot n tail 0 = 0"
| "perm_pivot n tail (Suc j) =
     (if Suc j > tail \<and> n ! Suc j \<le> n ! (tail - 1) then perm_pivot n tail j else Suc j)"

function perm_reverse :: "nat \<Rightarrow> nat \<Rightarrow> u8 list \<Rightarrow> u8 list" where
  "perm_reverse i j n = (if i < j then perm_reverse (i + 1) (j - 1) (swap8 i j n) else n)"
  by pat_completeness auto
termination by (relation "measure (\<lambda>(i, j, n). j - i)") auto

declare perm_reverse.simps [simp del]

definition nextPerm :: "u8 list \<Rightarrow> nat \<Rightarrow> u8 list \<times> bool" where
  "nextPerm n cnt = (if cnt \<le> 1 then (n, False) else let
     tail = perm_tail n (cnt - 1);
     n = (if tail > 0 then swap8 (tail - 1) (perm_pivot n tail (cnt - 1)) n else n)
   in (perm_reverse tail (cnt - 1) n, tail \<noteq> 0))"

definition HASH_FUNC_COUNT :: nat where "HASH_FUNC_COUNT = 10"

definition getAlgoString :: "nat \<Rightarrow> bytes" where
  "getAlgoString sq = (let
     algoList = ((\<lambda>n. fst (nextPerm n HASH_FUNC_COUNT)) ^^ sq) (initPerm HASH_FUNC_COUNT)
   in map (\<lambda>a. if a \<ge> 10 then 0x41 + (a - 10) else 0x30 + a) algoList @ [0])"

definition getCurrentAlgoSeq :: "u32 \<Rightarrow> u32" where
  "getCurrentAlgoSeq ntime = (ntime - 1492973331) mod 40320"

definition get_travel_order :: "u32 \<Rightarrow> bytes" where
  "get_travel_order ntime = getAlgoString (unat (getCurrentAlgoSeq ntime))"

section \<open>Blocks\<close>

definition BRMerkleBlockNew :: BRMerkleBlock where
  "BRMerkleBlockNew = \<lparr>blockHash = 0, powHash = 0, mb_version = 0, prevBlock = 0, merkleRoot = 0,
     mb_timestamp = 0, target = 0, nonce = 0, totalTx = 0, hashes = None, hashesCount = 0,
     flags = None, flagsLen = 0, height = BLOCK_UNKNOWN_HEIGHT\<rparr>"

text \<open>
  \<open>malloc(len)\<close> and a copy from the buffer, when the guard \<open>off + len <= bufLen\<close> lets it through;
  an allocation of \<open>2 ^ 63\<close> bytes or more fails. The outer \<open>None\<close> is a copy from outside the buffer.
\<close>

definition copy_array :: "bytes \<Rightarrow> u64 \<Rightarrow> u64 \<Rightarrow> bytes option option" where
  "copy_array buf off len =
     (if off + len \<le> of_nat (length buf) \<and> unat len < 2 ^ 63
      then (case slice buf off len of None \<Rightarrow> None | Some s \<Rightarrow> Some (Some s))
      else Some None)"

definition hash_array :: "bytes \<Rightarrow> UInt256 list" where
  "hash_array s = map (\<lambda>i. UInt256Get (drop (32 * i) s)) [0..<length s div 32]"

text \<open>
  \<open>address\<close> is the address of the member \<open>timestamp\<close>: the code compares the pointer, not the
  number, with the time of the change of the hash function.
\<close>

definition block_hash :: "(bytes \<Rightarrow> UInt256) \<Rightarrow> u64 \<Rightarrow> bytes \<Rightarrow> UInt256" where
  "block_hash timetravel10_hash address header =
     (if address \<ge> 1493124696 then timetravel10_hash header
      else UInt256Get (BRScrypt 32 header header 1024 1 1))"

definition BRMerkleBlockParse ::
  "(bytes \<Rightarrow> UInt256) \<Rightarrow> u64 \<Rightarrow> bytes \<Rightarrow> BRMerkleBlock option option" where
  "BRMerkleBlockParse timetravel10_hash address buf =
     (if 80 \<le> length buf then do {
        let block = BRMerkleBlockNew\<lparr>
          mb_version := UInt32GetLE buf,
          prevBlock := UInt256Get (drop 4 buf),
          merkleRoot := UInt256Get (drop 36 buf),
          mb_timestamp := UInt32GetLE (drop 68 buf),
          target := UInt32GetLE (drop 72 buf),
          nonce := UInt32GetLE (drop 76 buf)\<rparr>;
        block \<leftarrow>
          (if (80 :: u64) + 4 \<le> of_nat (length buf) then do {
             let total = UInt32GetLE (drop 80 buf);
             let off = 84;
             let (hcount, len) = varint_at buf off;
             let off = off + len;
             let len = hcount * 32;
             hs \<leftarrow> copy_array buf off len;
             let off = off + len;
             let (fLen, len) = varint_at buf off;
             let off = off + len;
             fs \<leftarrow> copy_array buf off fLen;
             Some (block\<lparr>totalTx := total, hashesCount := hcount, hashes := map_option hash_array hs,
                          flagsLen := fLen, flags := fs\<rparr>) }
           else Some block);
        Some (Some (block\<lparr>blockHash := block_hash timetravel10_hash address (take 80 buf)\<rparr>)) }
      else Some None)"

text \<open>The unguarded stores of the serializer; a null array leaves its place in the buffer as it is.\<close>

definition store :: "bytes \<Rightarrow> buffer \<times> nat \<Rightarrow> buffer \<times> nat" where
  "store bs s = (case s of (None, off) \<Rightarrow> (None, off + length bs)
     | (Some b, off) \<Rightarrow> (Some (poke off bs b), off + length bs))"

definition store_array :: "buffer \<Rightarrow> nat \<Rightarrow> buffer \<times> nat \<Rightarrow> (buffer \<times> nat) option" where
  "store_array a n s = (case a of
     None \<Rightarrow> Some (fst s, snd s + n)
   | Some bs \<Rightarrow> if n \<le> length bs then Some (store (take n bs) s) else None)"

definition BRMerkleBlockSerialize :: "BRMerkleBlock \<Rightarrow> buffer \<Rightarrow> (buffer \<times> nat) option" where
  "BRMerkleBlockSerialize block buf = (let
     len = (80 :: u64) + (if totalTx block > 0 then
       4 + of_nat (BRVarIntSize (hashesCount block)) + hashesCount block * 32 +
       of_nat (BRVarIntSize (flagsLen block)) + flagsLen block else 0)
   in case buf of
     None \<Rightarrow> Some (None, unat len)
   | Some b \<Rightarrow>
       if len \<le> of_nat (length b) then do {
         let s = store (UInt32SetLE (nonce block)) (store (UInt32SetLE (target block))
           (store (UInt32SetLE (mb_timestamp block)) (store (UInt256Set (merkleRoot block))
           (store (UInt256Set (prevBlock block)) (store (UInt32SetLE (mb_version block)) (Some b, 0))))));
         s \<leftarrow> (if totalTx block > 0 then do {
           let s = store (UInt32SetLE (totalTx block)) s;
           let s = at_off (BRVarIntSet (hashesCount block)) s;
           s \<leftarrow> store_array (map_option (\<lambda>hs. concat (map UInt256Set hs)) (hashes block))
             (unat (hashesCount block * 32)) s;
           let s = at_off (BRVarIntSet (flagsLen block)) s;
           store_array (flags block) (unat (flagsLen block)) s }
          else Some s);
         Some (fst s, unat len) }
       else Some (Some b, 0))"

section \<open>The partial merkle tree\<close>

text \<open>The bit at \<open>flagIdx\<close> and the hash at \<open>hashIdx\<close>; outside of what was allocated they are undefined.\<close>

definition flag_at :: "BRMerkleBlock \<Rightarrow> u64 \<Rightarrow> bool option" where
  "flag_at block i = (case flags block of None \<Rightarrow> None | Some fs \<Rightarrow>
     if unat (i div 8) < length fs
     then Some (fs ! unat (i div 8) AND push_bit (unat (i mod 8)) 1 \<noteq> 0) else None)"

definition hash_at :: "BRMerkleBlock \<Rightarrow> u64 \<Rightarrow> UInt256 option" where
  "hash_at block i = (case hashes block of None \<Rightarrow> None | Some hs \<Rightarrow>
     if unat i < length hs then Some (hs ! unat i) else None)"

definition tree_depth :: "BRMerkleBlock \<Rightarrow> nat option" where
  "tree_depth block = ceil_log2 (sint (totalTx block))"

partial_function (option) BRMerkleBlockTxHashesR ::
  "BRMerkleBlock \<Rightarrow> u64 \<Rightarrow> UInt256 list option \<times> u64 \<Rightarrow> u64 \<Rightarrow> u64 \<Rightarrow> nat \<Rightarrow>
   ((UInt256 list option \<times> u64) \<times> u64 \<times> u64) option" where
  "BRMerkleBlockTxHashesR block cap out hashIdx flagIdx depth =
     (if flagIdx div 8 < flagsLen block \<and> hashIdx < hashesCount block then do {
        flag \<leftarrow> flag_at block flagIdx;
        let flagIdx = flagIdx + 1;
        leaf \<leftarrow> (if flag then do { d \<leftarrow> tree_depth block; Some (depth = d) } else Some True);
        if leaf then
          (if flag \<and> snd out < cap then do {
             txs \<leftarrow> (case fst out of None \<Rightarrow> Some None
               | Some a \<Rightarrow> do { h \<leftarrow> hash_at block hashIdx; Some (Some (a[unat (snd out) := h])) });
             Some ((txs, snd out + 1), hashIdx + 1, flagIdx) }
           else Some (out, hashIdx + 1, flagIdx))
        else do {
          (out, hashIdx, flagIdx) \<leftarrow> BRMerkleBlockTxHashesR block cap out hashIdx flagIdx (depth + 1);
          BRMerkleBlockTxHashesR block cap out hashIdx flagIdx (depth + 1) } }
      else Some (out, hashIdx, flagIdx))"

declare BRMerkleBlockTxHashesR.simps [code]

definition BRMerkleBlockTxHashes ::
  "BRMerkleBlock \<Rightarrow> UInt256 list option \<Rightarrow> (UInt256 list option \<times> nat) option" where
  "BRMerkleBlockTxHashes block txHashes = do {
     let cap = (case txHashes of None \<Rightarrow> - 1 | Some a \<Rightarrow> of_nat (length a));
     (out, _) \<leftarrow> BRMerkleBlockTxHashesR block cap (txHashes, 0) 0 0 0;
     Some (fst out, unat (snd out)) }"

definition BRMerkleBlockSetTxHashes :: "BRMerkleBlock \<Rightarrow> UInt256 list \<Rightarrow> bytes \<Rightarrow> BRMerkleBlock" where
  "BRMerkleBlockSetTxHashes block hs fs =
     block\<lparr>hashes := (if length hs > 0 then Some hs else None),
           flags := (if length fs > 0 then Some fs else None)\<rparr>"

definition node_hash :: "UInt256 \<Rightarrow> UInt256 \<Rightarrow> UInt256" where
  "node_hash a b = UInt256Get (BRSHA256_2 (UInt256Set a @ UInt256Set b))"

partial_function (option) BRMerkleBlockRootR ::
  "BRMerkleBlock \<Rightarrow> u64 \<Rightarrow> u64 \<Rightarrow> nat \<Rightarrow> (UInt256 \<times> u64 \<times> u64) option" where
  "BRMerkleBlockRootR block hashIdx flagIdx depth =
     (if flagIdx div 8 < flagsLen block \<and> hashIdx < hashesCount block then do {
        flag \<leftarrow> flag_at block flagIdx;
        let flagIdx = flagIdx + 1;
        inner \<leftarrow> (if flag then do { d \<leftarrow> tree_depth block; Some (depth \<noteq> d) } else Some False);
        if inner then do {
          (h0, hashIdx, flagIdx) \<leftarrow> BRMerkleBlockRootR block hashIdx flagIdx (depth + 1);
          (h1, hashIdx, flagIdx) \<leftarrow> BRMerkleBlockRootR block hashIdx flagIdx (depth + 1);
          if \<not> UInt256IsZero h0 \<and> \<not> UInt256Eq h0 h1
          then Some (node_hash h0 (if UInt256IsZero h1 then h0 else h1), hashIdx, flagIdx)
          else Some (0, - 1, flagIdx) }
        else do { md \<leftarrow> hash_at block hashIdx; Some (md, hashIdx + 1, flagIdx) } }
      else Some (0, hashIdx, flagIdx))"

declare BRMerkleBlockRootR.simps [code]

text \<open>
  The proof of work loop: the comparison that would reject a block is commented out, so it can only
  stop early. Storing the target outside of the 32 bytes of \<open>t\<close> is undefined.
\<close>

primrec pow_loop :: "bool \<Rightarrow> bytes \<Rightarrow> bytes \<Rightarrow> nat \<Rightarrow> bool" where
  "pow_loop r h t 0 = r"
| "pow_loop r h t (Suc i) = (if \<not> r then r else if h ! i < t ! i then r else pow_loop r h t i)"

definition BRMerkleBlockIsValid :: "BRMerkleBlock \<Rightarrow> u32 \<Rightarrow> bool option" where
  "BRMerkleBlockIsValid block currentTime = do {
     let size = drop_bit 24 (target block);
     let trg = target block AND 0x00ffffff;
     (root, _) \<leftarrow> BRMerkleBlockRootR block 0 0 0;
     let r = \<not> (totalTx block > 0 \<and> \<not> UInt256Eq root (merkleRoot block));
     t \<leftarrow> (if size > 3
       then (if unat size - 3 + 4 \<le> 32
             then Some (poke (unat size - 3) (UInt32SetLE trg) (replicate 32 0)) else None)
       else Some (poke 0 (UInt32SetLE (drop_bit ((3 - unat size) * 8) trg)) (replicate 32 0)));
     Some (pow_loop r (UInt256Set (blockHash block)) t 32) }"

text \<open>A search of the hashes, \<open>None\<close> when it reads outside of what was allocated.\<close>

primrec tx_hash_loop :: "BRMerkleBlock \<Rightarrow> UInt256 \<Rightarrow> nat \<Rightarrow> nat \<Rightarrow> bool option" where
  "tx_hash_loop block txHash i 0 = Some False"
| "tx_hash_loop block txHash i (Suc n) = do {
     h \<leftarrow> hash_at block (of_nat i);
     if UInt256Eq h txHash then Some True else tx_hash_loop block txHash (Suc i) n }"

definition BRMerkleBlockContainsTxHash :: "BRMerkleBlock \<Rightarrow> UInt256 \<Rightarrow> bool option" where
  "BRMerkleBlockContainsTxHash block txHash =
     (if UInt256IsZero txHash then None else tx_hash_loop block txHash 0 (unat (hashesCount block)))"

definition BRMerkleBlockHash :: "BRMerkleBlock \<Rightarrow> nat" where
  "BRMerkleBlockHash block = unat (u32s (blockHash block) ! 0)"

definition BRMerkleBlockEq :: "BRMerkleBlock \<Rightarrow> BRMerkleBlock \<Rightarrow> bool" where
  "BRMerkleBlockEq block otherBlock \<longleftrightarrow>
     block = otherBlock \<or> UInt256Eq (blockHash block) (blockHash otherBlock)"

text \<open>The hash and equality of blocks satisfy what a \<open>BRSet\<close> of them asks.\<close>

interpretation block_set: set_keys BRMerkleBlockHash BRMerkleBlockEq
  by unfold_locales (auto simp: BRMerkleBlockEq_def BRMerkleBlockHash_def)

section \<open>The difficulty target\<close>

text \<open>
  A table of blocks is the map from their hashes to the blocks: the code looks blocks up by hash only, and
  \<open>block_set\<close> is why a \<open>BRSet\<close> of blocks behaves as such a map.
\<close>

type_synonym block_table = "UInt256 \<rightharpoonup> BRMerkleBlock"

text \<open>
  The loop over the past blocks, with the count, the sum of the targets, the time span (an
  \<open>int32_t\<close>) and the last time (an \<open>int64_t\<close>, never negative).
\<close>

partial_function (option) dgw_loop ::
  "block_table \<Rightarrow> BRMerkleBlock option \<Rightarrow> nat \<Rightarrow> UInt256 \<Rightarrow> u32 \<Rightarrow> nat \<Rightarrow> (nat \<times> UInt256 \<times> u32) option"
where
  "dgw_loop blockSet currentBlock blockCount sumTargets nActualTimespan lastBlockTime =
     (case currentBlock of
        None \<Rightarrow> Some (blockCount, sumTargets, nActualTimespan)
      | Some b \<Rightarrow>
          if height b > 0 \<and> blockCount \<le> DGW_PAST_BLOCKS then do {
            let currentTarget = setCompact (target b);
            let sumTargets = (if blockCount = 1 then add currentTarget currentTarget
                              else add sumTargets currentTarget);
            let nActualTimespan = (if lastBlockTime > 0
              then word_of_int (sint nActualTimespan + (int lastBlockTime - int (unat (mb_timestamp b))))
              else nActualTimespan);
            dgw_loop blockSet (blockSet (prevBlock b)) (blockCount + 1) sumTargets nActualTimespan (unat (mb_timestamp b)) }
          else Some (blockCount, sumTargets, nActualTimespan))"

definition DarkGravityWaveTargetV3 :: "BRMerkleBlock \<Rightarrow> block_table \<Rightarrow> u32 option" where
  "DarkGravityWaveTargetV3 previous blockSet = do {
     let previousBlock = blockSet (blockHash previous);
     if (case previousBlock of None \<Rightarrow> True | Some p \<Rightarrow> height p = 0 \<or> height p < DGW_START_BLOCK)
     then Some MAX_PROOF_OF_WORK
     else do {
       (blockCount, sumTargets, nActualTimespan) \<leftarrow> dgw_loop blockSet previousBlock 1 0 0 0;
       darkTarget \<leftarrow> divide sumTargets (of_nat blockCount);
       let nTargetTimespan = (of_nat ((blockCount - 1) * DGW_TARGET_TIMESPAN) :: u32);
       let nActualTimespan = (if nActualTimespan <s word_of_int (sint nTargetTimespan div 3)
         then word_of_int (sint nTargetTimespan div 3) else nActualTimespan);
       let nActualTimespan = (if nTargetTimespan * 3 <s nActualTimespan
         then nTargetTimespan * 3 else nActualTimespan);
       darkTarget \<leftarrow> divide (multiplyThis32 darkTarget nActualTimespan) (ucast nTargetTimespan);
       compact \<leftarrow> getCompact darkTarget;
       Some (if compact > MAX_PROOF_OF_WORK then MAX_PROOF_OF_WORK else compact) } }"

text \<open>The check of a block; the static variable \<open>pastCount\<close> is passed along.\<close>

definition BRMerkleBlockVerifyDifficulty ::
  "BRMerkleBlock \<Rightarrow> BRMerkleBlock \<Rightarrow> block_table \<Rightarrow> nat \<Rightarrow> (bool \<times> nat) option" where
  "BRMerkleBlockVerifyDifficulty block previous blocks pastCount = do {
     let r = \<not> (\<not> UInt256Eq (prevBlock block) (blockHash previous) \<or> height block \<noteq> height previous + 1);
     if height block \<ge> DGW_START_BLOCK then do {
       dgwTarget \<leftarrow> DarkGravityWaveTargetV3 previous blocks;
       let diff = sint (target block - dgwTarget);
       if pastCount < DGW_PAST_BLOCKS
       then Some (if height block = 338778 then target block = 0x1b07cf3a else r, pastCount + 1)
       else if diff = - (2 ^ 31) then None
       else Some (abs diff < 2, pastCount + 1) }
     else Some (r, pastCount) }"

section \<open>The depth of the tree\<close>

text \<open>The depth of a tree with \<open>n\<close> leaves: the least \<open>h\<close> with \<open>n \<le> 2 ^ h\<close>.\<close>

definition is_depth :: "nat \<Rightarrow> nat \<Rightarrow> bool" where
  "is_depth n h \<longleftrightarrow> n \<le> 2 ^ h \<and> (h = 0 \<or> 2 ^ (h - 1) < n)"

lemma log2_loop_nat:
  "2 ^ k \<le> n \<Longrightarrow> n < 2 ^ Suc k \<Longrightarrow> log2_loop (int n) r = Some (r + k)"
proof (induction k arbitrary: n r)
  case 0
  then have "n = 1" by simp
  then show ?case by (subst log2_loop.simps) simp
next
  case (Suc k)
  have "drop_bit 1 (int n) = int (n div 2)" by (simp add: drop_bit_eq_div zdiv_int)
  moreover have "2 ^ k \<le> n div 2" "n div 2 < 2 ^ Suc k" using Suc.prems by auto
  moreover from this(1) have "n div 2 \<noteq> 0" by (metis not_one_le_zero order_trans one_le_power one_le_numeral)
  ultimately show ?case
    using Suc.IH [of "n div 2" "r + 1"] by (subst log2_loop.simps) (simp add: Let_def)
qed

lemma log2_loop_neg:
  assumes "log2_loop x r = Some y"
  shows "0 \<le> x"
proof (rule log2_loop.raw_induct [where P = "\<lambda>x r y. 0 \<le> x" and xa = "(x, r)" and y = y, unfolded prod.case])
  show "log2_loop x r = Some y" by (rule assms)
next
  fix f :: "int \<Rightarrow> nat \<Rightarrow> nat option" and x r y
  assume IH: "\<And>x r y. f x r = Some y \<Longrightarrow> 0 \<le> x"
    and eq: "(let x = drop_bit 1 x in if x \<noteq> 0 then f x (r + 1) else Some r) = Some y"
  show "0 \<le> x"
  proof (rule ccontr)
    assume "\<not> 0 \<le> x"
    then have "drop_bit 1 x < 0" by (simp add: drop_bit_eq_div)
    then have "drop_bit 1 x \<noteq> 0" "\<not> 0 \<le> drop_bit 1 x" by linarith+
    then show False using IH [of "drop_bit 1 x" "r + 1" y] eq unfolding Let_def by presburger
  qed
qed

lemma top_bit_nat: "2 ^ k \<le> m \<Longrightarrow> m < 2 ^ Suc k \<Longrightarrow> bit (m :: nat) k"
  using div_nat_eqI [of "2 ^ k" 1 m] by (simp add: bit_iff_odd)

lemma pow2_mask:
  assumes "2 ^ k \<le> n" "n < 2 ^ Suc k"
  shows "(int n AND (int n - 1)) \<noteq> 0 \<longleftrightarrow> n \<noteq> 2 ^ k"
proof
  assume "(int n AND (int n - 1)) \<noteq> 0"
  moreover have "int (2 ^ k) AND (int (2 ^ k) - 1) = 0"
    by (simp add: mask_eq_exp_minus_1 [symmetric] and_exp_eq_0_iff_not_bit bit_mask_iff and.commute)
  ultimately show "n \<noteq> 2 ^ k" by auto
next
  assume "n \<noteq> 2 ^ k"
  then have lt: "2 ^ k \<le> n - 1" "n - 1 < 2 ^ Suc k" using assms by auto
  have "bit (n - 1) k" "bit n k"
    using top_bit_nat lt assms by blast+
  then have "bit (int n AND int (n - 1)) k" unfolding bit_and_iff bit_of_nat_iff_bit by simp
  moreover have "int n - 1 = int (n - 1)" using assms by (cases n) simp_all
  ultimately have "bit (int n AND (int n - 1)) k" by (simp only:)
  then show "(int n AND (int n - 1)) \<noteq> 0" by auto
qed

lemma ceil_log2_eq:
  assumes "0 < n"
  shows "\<exists>h. ceil_log2 (int n) = Some h \<and> is_depth n h"
proof -
  obtain k where k: "2 ^ k \<le> n" "n < 2 ^ Suc k"
    using ex_power_ivl1 [of 2 n] assms by auto
  show ?thesis
  proof (cases "n = 2 ^ k")
    case True
    then have "ceil_log2 (int n) = Some k"
      using pow2_mask [OF k] log2_loop_nat [OF k, of 0] by (simp add: ceil_log2_def)
    moreover have "is_depth n k" using True by (cases k) (simp_all add: is_depth_def)
    ultimately show ?thesis by blast
  next
    case False
    then have "ceil_log2 (int n) = Some (Suc k)"
      using pow2_mask [OF k] log2_loop_nat [OF k, of 1] by (simp add: ceil_log2_def)
    moreover have "is_depth n (Suc k)" using False k by (simp add: is_depth_def)
    ultimately show ?thesis by blast
  qed
qed

lemma is_depth_unique: "is_depth n h \<Longrightarrow> is_depth n h' \<Longrightarrow> h = h'"
proof (induction h h' rule: linorder_wlog)
  case (le a b)
  show ?case
  proof (rule ccontr)
    assume "a \<noteq> b"
    then have "(2 :: nat) ^ a \<le> 2 ^ (b - 1)" using le(1) by (intro power_increasing) auto
    moreover have "n \<le> 2 ^ a" "2 ^ (b - 1) < n" using le \<open>a \<noteq> b\<close> by (simp_all add: is_depth_def)
    ultimately show False by linarith
  qed
qed simp

lemma tree_depth_nat:
  assumes "0 < unat (totalTx block)" "unat (totalTx block) < 2 ^ 31" "is_depth (unat (totalTx block)) h"
  shows "tree_depth block = Some h"
proof -
  have "sint (totalTx block) = int (unat (totalTx block))"
    using sint_of_nat_small [of "unat (totalTx block)", where 'a = 32] assms(2) by simp
  then show ?thesis
    using ceil_log2_eq [OF assms(1)] is_depth_unique [OF assms(3)] by (auto simp: tree_depth_def)
qed

lemma tree_depth_hangs: "2 ^ 31 \<le> unat (totalTx block) \<Longrightarrow> tree_depth block = None"
proof -
  assume big: "2 ^ 31 \<le> unat (totalTx block)"
  have "unat (totalTx block) < 2 ^ Suc 31" using unsigned_less [of "totalTx block"] by simp
  then have "bit (totalTx block) 31"
    using top_bit_nat [OF big] by (simp add: bit_unsigned_iff)
  then have "sint (totalTx block) < 0" using bit_last_iff [of "totalTx block"] by simp
  then show ?thesis using log2_loop_neg by (fastforce simp: tree_depth_def ceil_log2_def)
qed

section \<open>The encoding of BIP 37\<close>

text \<open>
  A block by the hashes of its transactions, each with a mark for the matched ones. A subtree of
  height \<open>h\<close> covers up to \<open>2 ^ h\<close> of them: its left child the first \<open>2 ^ (h - 1)\<close>, its right child the
  rest, if there is any. \<open>merkle\<close> is the hash of its root, with the left child twice when there is
  no right one; \<open>tree_flags\<close> and \<open>tree_hashes\<close> are what BIP 37 stores in depth first order.
\<close>

type_synonym leaves = "(UInt256 \<times> bool) list"

definition matches :: "leaves \<Rightarrow> bool" where "matches xs \<longleftrightarrow> list_ex snd xs"

primrec merkle :: "nat \<Rightarrow> leaves \<Rightarrow> UInt256" where
  "merkle 0 xs = fst (hd xs)"
| "merkle (Suc h) xs = (let l = merkle h (take (2 ^ h) xs) in
     node_hash l (if 2 ^ h < length xs then merkle h (drop (2 ^ h) xs) else l))"

primrec tree_flags :: "nat \<Rightarrow> leaves \<Rightarrow> bool list" where
  "tree_flags 0 xs = [snd (hd xs)]"
| "tree_flags (Suc h) xs = (if matches xs
     then True # tree_flags h (take (2 ^ h) xs) @ (if 2 ^ h < length xs then tree_flags h (drop (2 ^ h) xs) else [])
     else [False])"

primrec tree_hashes :: "nat \<Rightarrow> leaves \<Rightarrow> UInt256 list" where
  "tree_hashes 0 xs = [fst (hd xs)]"
| "tree_hashes (Suc h) xs = (if matches xs
     then tree_hashes h (take (2 ^ h) xs) @ (if 2 ^ h < length xs then tree_hashes h (drop (2 ^ h) xs) else [])
     else [merkle (Suc h) xs])"

text \<open>
  No explored node has two equal children or a child with the hash 0: the trees that the defence
  against CVE-2012-2459 does not reject.
\<close>

primrec tree_ok :: "nat \<Rightarrow> leaves \<Rightarrow> bool" where
  "tree_ok 0 xs \<longleftrightarrow> True"
| "tree_ok (Suc h) xs \<longleftrightarrow> (matches xs \<longrightarrow> (let l = take (2 ^ h) xs; r = drop (2 ^ h) xs in
     merkle h l \<noteq> 0 \<and> tree_ok h l \<and>
     (2 ^ h < length xs \<longrightarrow> merkle h r \<noteq> 0 \<and> merkle h r \<noteq> merkle h l \<and> tree_ok h r)))"

text \<open>The flags of a block from bit \<open>i\<close> on, and its hashes from \<open>j\<close> on.\<close>

definition flags_are :: "BRMerkleBlock \<Rightarrow> nat \<Rightarrow> bool list \<Rightarrow> bool" where
  "flags_are block i F \<longleftrightarrow> (\<forall>k<length F. (of_nat (i + k) :: u64) div 8 < flagsLen block \<and>
     flag_at block (of_nat (i + k)) = Some (F ! k))"

definition hashes_are :: "BRMerkleBlock \<Rightarrow> nat \<Rightarrow> UInt256 list \<Rightarrow> bool" where
  "hashes_are block j H \<longleftrightarrow> (\<forall>k<length H. (of_nat (j + k) :: u64) < hashesCount block \<and>
     hash_at block (of_nat (j + k)) = Some (H ! k))"

lemma flags_are_append:
  "flags_are block i (F @ G) \<longleftrightarrow> flags_are block i F \<and> flags_are block (i + length F) G"
proof
  assume *: "flags_are block i (F @ G)"
  have "flags_are block i F" using * by (fastforce simp: flags_are_def nth_append)
  moreover have "flags_are block (i + length F) G"
    unfolding flags_are_def
  proof safe
    fix k assume "k < length G"
    then show "(of_nat (i + length F + k) :: u64) div 8 < flagsLen block"
        "flag_at block (of_nat (i + length F + k)) = Some (G ! k)"
      using * [unfolded flags_are_def, rule_format, of "length F + k"] by (simp_all add: nth_append add.assoc)
  qed
  ultimately show "flags_are block i F \<and> flags_are block (i + length F) G" by simp
next
  assume *: "flags_are block i F \<and> flags_are block (i + length F) G"
  show "flags_are block i (F @ G)"
    unfolding flags_are_def
  proof safe
    fix k assume k: "k < length (F @ G)"
    show "(of_nat (i + k) :: u64) div 8 < flagsLen block" "flag_at block (of_nat (i + k)) = Some ((F @ G) ! k)"
      using * [unfolded flags_are_def, THEN conjunct1, rule_format, of k]
        * [unfolded flags_are_def, THEN conjunct2, rule_format, of "k - length F"] k
      by (cases "k < length F"; simp add: nth_append add.assoc)+
  qed
qed

lemma hashes_are_append:
  "hashes_are block j (H @ K) \<Longrightarrow> hashes_are block j H \<and> hashes_are block (j + length H) K"
proof -
  assume *: "hashes_are block j (H @ K)"
  have "hashes_are block j H" using * by (fastforce simp: hashes_are_def nth_append)
  moreover have "hashes_are block (j + length H) K"
    unfolding hashes_are_def
  proof safe
    fix k assume "k < length K"
    then show "(of_nat (j + length H + k) :: u64) < hashesCount block"
        "hash_at block (of_nat (j + length H + k)) = Some (K ! k)"
      using * [unfolded hashes_are_def, rule_format, of "length H + k"] by (simp_all add: nth_append add.assoc)
  qed
  ultimately show ?thesis by simp
qed

lemma tree_flags_hd: "xs \<noteq> [] \<Longrightarrow> length xs \<le> 2 ^ h \<Longrightarrow> tree_flags h xs \<noteq> [] \<and> hd (tree_flags h xs) = matches xs"
  by (cases h; cases xs) (auto simp: matches_def)

lemma tree_hashes_ne: "tree_hashes h xs \<noteq> []"
  by (induction h arbitrary: xs) simp_all

lemma unmatched_leaf:
  "\<not> matches xs \<Longrightarrow> xs \<noteq> [] \<Longrightarrow> tree_flags h xs = [False] \<and> tree_hashes h xs = [merkle h xs]"
  by (cases h; cases xs) (auto simp: matches_def)

lemma flags_areD:
  assumes "flags_are block i (f # F)"
  shows "(of_nat i :: u64) div 8 < flagsLen block" "flag_at block (of_nat i) = Some f"
    "flags_are block (Suc i) F"
  using assms flags_are_append [of block i "[f]" F] by (auto simp: flags_are_def)

lemma hashes_areD:
  assumes "hashes_are block j H" "H \<noteq> []"
  shows "(of_nat j :: u64) < hashesCount block" "hash_at block (of_nat j) = Some (hd H)"
  using assms unfolding hashes_are_def by (auto simp: hd_conv_nth dest: spec [of _ 0])

text \<open>A node with a matched leaf below it: what is stored for it and for its children.\<close>

lemma explored_node:
  assumes "matches xs" "xs \<noteq> []" "length xs \<le> 2 ^ Suc h"
    "flags_are block i (tree_flags (Suc h) xs)" "hashes_are block j (tree_hashes (Suc h) xs)"
  defines "l \<equiv> take (2 ^ h) xs" and "r \<equiv> drop (2 ^ h) xs"
  defines "Fl \<equiv> tree_flags h l" and "Hl \<equiv> tree_hashes h l"
  defines "Fr \<equiv> if 2 ^ h < length xs then tree_flags h r else []"
    and "Hr \<equiv> if 2 ^ h < length xs then tree_hashes h r else []"
  shows "tree_flags (Suc h) xs = True # Fl @ Fr" "tree_hashes (Suc h) xs = Hl @ Hr"
    "(of_nat i :: u64) div 8 < flagsLen block" "flag_at block (of_nat i) = Some True"
    "flags_are block (Suc i) Fl" "flags_are block (Suc i + length Fl) Fr"
    "hashes_are block j Hl" "hashes_are block (j + length Hl) Hr" "(of_nat j :: u64) < hashesCount block"
    "l \<noteq> []" "length l \<le> 2 ^ h"
proof -
  show F: "tree_flags (Suc h) xs = True # Fl @ Fr" and H: "tree_hashes (Suc h) xs = Hl @ Hr"
    using assms(1) by (simp_all add: Fl_def Fr_def Hl_def Hr_def l_def r_def)
  show "(of_nat i :: u64) div 8 < flagsLen block" "flag_at block (of_nat i) = Some True"
      "flags_are block (Suc i) Fl" "flags_are block (Suc i + length Fl) Fr"
    using flags_areD [of block i True "Fl @ Fr"] assms(4) unfolding F flags_are_append by blast+
  show "hashes_are block j Hl" "hashes_are block (j + length Hl) Hr"
    using assms(5) hashes_are_append unfolding H by blast+
  show "(of_nat j :: u64) < hashesCount block" using hashes_areD(1) [OF assms(5) tree_hashes_ne] .
  show "l \<noteq> []" "length l \<le> 2 ^ h" using assms(2) by (auto simp: l_def)
qed

text \<open>
  The recursion for the root on a subtree of height \<open>h\<close>. A subtree that is not full is at the
  right edge of the tree, and its hashes are the last ones of the block.
\<close>

lemma root_decodes:
  assumes d: "tree_depth block = Some d"
  shows "depth + h = d \<Longrightarrow> xs \<noteq> [] \<Longrightarrow> length xs \<le> 2 ^ h \<Longrightarrow>
    flags_are block i (tree_flags h xs) \<Longrightarrow> hashes_are block j (tree_hashes h xs) \<Longrightarrow> tree_ok h xs \<Longrightarrow>
    (length xs < 2 ^ h \<Longrightarrow> hashesCount block = of_nat (j + length (tree_hashes h xs))) \<Longrightarrow>
    BRMerkleBlockRootR block (of_nat j) (of_nat i) depth =
      Some (merkle h xs, of_nat (j + length (tree_hashes h xs)), of_nat (i + length (tree_flags h xs)))"
proof (induction h arbitrary: xs i j depth)
  case 0
  have "hashes_are block j [fst (hd xs)]" "flags_are block i (snd (hd xs) # [])" using 0 by simp_all
  then show ?case
    using flags_areD [of block i "snd (hd xs)" "[]"] hashes_areD [of block j "[fst (hd xs)]"] d 0(1)
    by (subst BRMerkleBlockRootR.simps) (simp add: add.commute)
next
  case (Suc h)
  show ?case
  proof (cases "matches xs")
    case False
    then have "flags_are block i (False # [])" "hashes_are block j [merkle (Suc h) xs]"
      using Suc.prems by simp_all
    then show ?thesis
      using False flags_areD [of block i False "[]"] hashes_areD [of block j "[merkle (Suc h) xs]"]
      by (subst BRMerkleBlockRootR.simps) (simp add: add.commute)
  next
    case True
    define l r Fl Hl Fr Hr where
      defs: "l = take (2 ^ h) xs" "r = drop (2 ^ h) xs" "Fl = tree_flags h l" "Hl = tree_hashes h l"
        "Fr = (if 2 ^ h < length xs then tree_flags h r else [])"
        "Hr = (if 2 ^ h < length xs then tree_hashes h r else [])"
    note node = explored_node [OF True Suc.prems(2-5), folded defs(1,2), folded defs(3,4), folded defs(5,6)]
    have ok: "merkle h l \<noteq> 0" "tree_ok h l"
        "2 ^ h < length xs \<Longrightarrow> merkle h r \<noteq> 0 \<and> merkle h r \<noteq> merkle h l \<and> tree_ok h r"
      using Suc.prems(6) True by (auto simp: defs Let_def)
    have L: "BRMerkleBlockRootR block (of_nat j) (of_nat (Suc i)) (Suc depth) =
        Some (merkle h l, of_nat (j + length Hl), of_nat (Suc i + length Fl))"
      unfolding defs(3,4)
    proof (rule Suc.IH)
      assume "length l < 2 ^ h"
      then have "length xs < 2 ^ Suc h" "Hr = []" by (auto simp: defs)
      then show "hashesCount block = of_nat (j + length (tree_hashes h l))"
        using Suc.prems(7) unfolding node(2) by (simp add: defs)
    qed (use node ok Suc.prems(1) in \<open>simp_all add: defs(3,4)\<close>)
    have R: "BRMerkleBlockRootR block (of_nat (j + length Hl)) (of_nat (Suc i + length Fl)) (Suc depth) =
        Some (if 2 ^ h < length xs then merkle h r else 0, of_nat (j + length Hl + length Hr),
          of_nat (Suc i + length Fl + length Fr))"
    proof (cases "2 ^ h < length xs")
      case True
      then have "r \<noteq> []" "length r \<le> 2 ^ h" using Suc.prems(3) by (auto simp: defs(2))
      moreover have "hashesCount block = of_nat (j + length Hl + length (tree_hashes h r))" if "length r < 2 ^ h"
        using that Suc.prems(7) True unfolding node(2) by (simp add: defs(2,6) add.assoc)
      ultimately show ?thesis
        using True Suc.IH [of "Suc depth" r "Suc i + length Fl" "j + length Hl"] Suc.prems(1) node ok(3)
        by (simp add: defs(5,6))
    next
      case False
      have "length xs < 2 ^ Suc h" by (rule le_less_trans [of _ "2 ^ h"]) (use False in simp_all)
      then have "hashesCount block = of_nat (j + length Hl)"
        using False Suc.prems(7) unfolding node(2) by (simp add: defs(6))
      then show ?thesis using False by (subst BRMerkleBlockRootR.simps) (simp add: defs(5,6))
    qed
    have m: "merkle (Suc h) xs = node_hash (merkle h l) (if 2 ^ h < length xs then merkle h r else merkle h l)"
      by (simp add: defs Let_def)
    show ?thesis
      using node(3-) d Suc.prems(1) ok L R unfolding m node(1,2)
      by (subst BRMerkleBlockRootR.simps) (auto simp: ac_simps)
  qed
qed

text \<open>The matched hashes, and the array with them at \<open>idx\<close>.\<close>

definition matched :: "leaves \<Rightarrow> UInt256 list" where
  "matched xs = map fst (filter snd xs)"

definition place :: "UInt256 list \<Rightarrow> nat \<Rightarrow> UInt256 list option \<Rightarrow> UInt256 list option" where
  "place M idx = map_option (\<lambda>a. take idx a @ M @ drop (idx + length M) a)"

definition room :: "nat \<Rightarrow> nat \<Rightarrow> u64 \<Rightarrow> UInt256 list option \<Rightarrow> bool" where
  "room idx n cap out \<longleftrightarrow> idx + n \<le> unat cap \<and> (case out of None \<Rightarrow> True | Some a \<Rightarrow> unat cap = length a)"

lemma place_Nil [simp]: "place [] idx out = out"
  by (cases out) (simp_all add: place_def)

lemma matched_unmatched: "\<not> matches xs \<Longrightarrow> matched xs = []"
  by (auto simp: matches_def matched_def list_ex_iff filter_empty_conv)

lemma matched_split: "matched (take k xs) @ matched (drop k xs) = matched xs"
  by (metis append_take_drop_id filter_append map_append matched_def)

lemma place_place:
  "room idx (length M + length N) cap out \<Longrightarrow> place N (idx + length M) (place M idx out) = place (M @ N) idx out"
  by (cases out) (simp_all add: place_def room_def ac_simps)

lemma room_place: "room idx (length M + n) cap out \<Longrightarrow> room (idx + length M) n cap (place M idx out)"
  by (cases out) (auto simp: place_def room_def)

lemma tx_hashes_decodes:
  assumes d: "tree_depth block = Some d"
  shows "depth + h = d \<Longrightarrow> xs \<noteq> [] \<Longrightarrow> length xs \<le> 2 ^ h \<Longrightarrow>
    flags_are block i (tree_flags h xs) \<Longrightarrow> hashes_are block j (tree_hashes h xs) \<Longrightarrow>
    room idx (length (matched xs)) cap out \<Longrightarrow>
    (length xs < 2 ^ h \<Longrightarrow> hashesCount block = of_nat (j + length (tree_hashes h xs))) \<Longrightarrow>
    BRMerkleBlockTxHashesR block cap (out, of_nat idx) (of_nat j) (of_nat i) depth =
      Some ((place (matched xs) idx out, of_nat (idx + length (matched xs))),
        of_nat (j + length (tree_hashes h xs)), of_nat (i + length (tree_flags h xs)))"
proof (induction h arbitrary: xs i j depth idx out)
  case 0
  obtain x m where xs: "xs = [(x, m)]" using 0 by (cases xs) (auto simp: le_Suc_eq)
  have "hashes_are block j [x]" "flags_are block i (m # [])" using 0 xs by simp_all
  note facts = flags_areD [OF this(2)] hashes_areD [OF this(1)]
  show ?case
  proof (cases m)
    case True
    have "idx < unat cap" using 0(6) True by (simp add: room_def xs matched_def)
    then have "unat (of_nat idx :: u64) = idx" "(of_nat idx :: u64) < cap"
      using u64_nat [of idx] unsigned_less [of cap, where 'a = nat] by (simp_all add: word_less_nat_alt)
    then show ?thesis
      using facts d 0(1,6) True xs
      by (subst BRMerkleBlockTxHashesR.simps)
        (auto simp: ac_simps matched_def place_def room_def upd_conv_take_nth_drop split: option.splits)
  next
    case False
    then show ?thesis
      using facts xs
      by (subst BRMerkleBlockTxHashesR.simps) (auto simp: ac_simps matched_def split: option.splits)
  qed
next
  case (Suc h)
  show ?case
  proof (cases "matches xs")
    case False
    then have "flags_are block i (False # [])" "hashes_are block j [merkle (Suc h) xs]"
      using Suc.prems by simp_all
    then show ?thesis
      using False flags_areD [of block i False "[]"] hashes_areD [of block j "[merkle (Suc h) xs]"]
      by (subst BRMerkleBlockTxHashesR.simps)
        (auto simp: ac_simps matched_unmatched split: option.splits)
  next
    case True
    define l r Fl Hl Fr Hr where
      defs: "l = take (2 ^ h) xs" "r = drop (2 ^ h) xs" "Fl = tree_flags h l" "Hl = tree_hashes h l"
        "Fr = (if 2 ^ h < length xs then tree_flags h r else [])"
        "Hr = (if 2 ^ h < length xs then tree_hashes h r else [])"
    note node = explored_node [OF True Suc.prems(2-5), folded defs(1,2), folded defs(3,4), folded defs(5,6)]
    have M: "matched xs = matched l @ matched r" by (simp add: defs matched_split)
    have rm: "room idx (length (matched l) + length (matched r)) cap out" using Suc.prems(6) by (simp add: M)
    let ?out = "place (matched l) idx out"
    have L: "BRMerkleBlockTxHashesR block cap (out, of_nat idx) (of_nat j) (of_nat (Suc i)) (Suc depth) =
        Some ((?out, of_nat (idx + length (matched l))), of_nat (j + length Hl), of_nat (Suc i + length Fl))"
      unfolding defs(3,4)
    proof (rule Suc.IH)
      assume "length l < 2 ^ h"
      then have "length xs < 2 ^ Suc h" "Hr = []" by (auto simp: defs)
      then show "hashesCount block = of_nat (j + length (tree_hashes h l))"
        using Suc.prems(7) unfolding node(2) by (simp add: defs)
    qed (use node rm Suc.prems(1) in \<open>auto simp: defs(3,4) room_def\<close>)
    have R: "BRMerkleBlockTxHashesR block cap (?out, of_nat (idx + length (matched l)))
        (of_nat (j + length Hl)) (of_nat (Suc i + length Fl)) (Suc depth) =
        Some ((place (matched xs) idx out, of_nat (idx + length (matched xs))),
          of_nat (j + length Hl + length Hr), of_nat (Suc i + length Fl + length Fr))"
    proof (cases "2 ^ h < length xs")
      case True
      then have "r \<noteq> []" "length r \<le> 2 ^ h" using Suc.prems(3) by (auto simp: defs(2))
      moreover have "hashesCount block = of_nat (j + length Hl + length (tree_hashes h r))" if "length r < 2 ^ h"
        using that Suc.prems(7) True unfolding node(2) by (simp add: defs(2,6) add.assoc)
      ultimately show ?thesis
        using True Suc.IH [of "Suc depth" r "Suc i + length Fl" "j + length Hl" "idx + length (matched l)" ?out]
          Suc.prems(1) node room_place [OF rm] place_place [OF rm] M
        by (simp add: defs(5,6) add.assoc)
    next
      case False
      have "length xs < 2 ^ Suc h" by (rule le_less_trans [of _ "2 ^ h"]) (use False in simp_all)
      then have "hashesCount block = of_nat (j + length Hl)"
        using False Suc.prems(7) unfolding node(2) by (simp add: defs(6))
      moreover have "matched xs = matched l" using False by (simp add: defs)
      ultimately show ?thesis
        using False by (subst BRMerkleBlockTxHashesR.simps) (simp add: defs(5,6))
    qed
    show ?thesis
      using node(3-) d Suc.prems(1) L R unfolding node(1,2)
      by (subst BRMerkleBlockTxHashesR.simps) (auto simp: ac_simps)
  qed
qed

text \<open>The flag bits packed into bytes, and a block with the encoding of its leaves.\<close>

definition pack :: "bool list \<Rightarrow> bytes" where
  "pack F = map (\<lambda>j. horner_sum of_bool 2 (take 8 (drop (8 * j) F))) [0..<(length F + 7) div 8]"

fun depth_of :: "nat \<Rightarrow> nat" where
  "depth_of n = (if n \<le> 1 then 0 else Suc (depth_of ((n + 1) div 2)))"

declare depth_of.simps [simp del]

definition partial_block :: "BRMerkleBlock \<Rightarrow> leaves \<Rightarrow> BRMerkleBlock" where
  "partial_block b xs = (let d = depth_of (length xs); fs = pack (tree_flags d xs); hs = tree_hashes d xs in
     b\<lparr>totalTx := of_nat (length xs), hashes := Some hs, hashesCount := of_nat (length hs),
       flags := Some fs, flagsLen := of_nat (length fs)\<rparr>)"

lemma is_depth_of: "0 < n \<Longrightarrow> is_depth n (depth_of n)"
proof (induction n rule: depth_of.induct)
  case (1 n)
  show ?case
  proof (cases "n \<le> 1")
    case True
    then show ?thesis using 1(2) by (subst depth_of.simps) (simp add: is_depth_def)
  next
    case False
    let ?m = "(n + 1) div 2"
    have IH: "is_depth ?m (depth_of ?m)" using 1(1) False by simp
    have le: "n \<le> 2 * 2 ^ depth_of ?m" using IH unfolding is_depth_def by linarith
    have "2 ^ depth_of ?m < n"
    proof (cases "depth_of ?m")
      case 0
      then show ?thesis using False by simp
    next
      case (Suc k)
      then have "2 ^ k < ?m" using IH by (simp add: is_depth_def)
      then have "2 * 2 ^ k < n" by linarith
      then show ?thesis using Suc by simp
    qed
    then show ?thesis using False le by (subst depth_of.simps) (simp add: is_depth_def)
  qed
qed

lemma length_pack [simp]: "length (pack F) = (length F + 7) div 8"
  by (simp add: pack_def)

lemma bit_pack:
  assumes "k < length F"
  shows "bit (pack F ! (k div 8)) (k mod 8) = F ! k"
proof -
  have "k div 8 < (length F + 7) div 8" using assms by simp
  moreover have k: "8 * (k div 8) + k mod 8 = k" by simp
  moreover have "k mod 8 < length F - 8 * (k div 8)" using assms k by linarith
  ultimately show ?thesis
    using assms by (simp add: pack_def bit_horner_sum_bit_word_iff)
qed

lemma length_tree_hashes: "xs \<noteq> [] \<Longrightarrow> length (tree_hashes h xs) \<le> length xs"
proof (induction h arbitrary: xs)
  case 0
  then show ?case by (cases xs) simp_all
next
  case (Suc h)
  have "length (tree_hashes h (take (2 ^ h) xs)) \<le> length (take (2 ^ h) xs)" using Suc.IH [of "take (2 ^ h) xs"] Suc.prems by simp
  moreover have "length (tree_hashes h (drop (2 ^ h) xs)) \<le> length (drop (2 ^ h) xs)" if "2 ^ h < length xs"
    using Suc.IH [of "drop (2 ^ h) xs"] that by simp
  ultimately show ?case using Suc.prems by (cases xs) (auto simp: Suc_leI)
qed

lemma length_tree_flags: "length (tree_flags h xs) < 2 ^ Suc h"
proof (induction h arbitrary: xs)
  case (Suc h)
  show ?case using Suc.IH [of "take (2 ^ h) xs"] Suc.IH [of "drop (2 ^ h) xs"] by (auto simp: not_le)
qed simp

lemma partial_block_arrays:
  fixes b :: BRMerkleBlock and xs :: leaves
  assumes "xs \<noteq> []" "length xs < 2 ^ 31"
  defines "d \<equiv> depth_of (length xs)" and "block \<equiv> partial_block b xs"
  shows "tree_depth block = Some d" "flags_are block 0 (tree_flags d xs)"
    "hashes_are block 0 (tree_hashes d xs)" "hashesCount block = of_nat (length (tree_hashes d xs))"
    "length xs \<le> 2 ^ d" "length (tree_hashes d xs) < 2 ^ 31"
proof -
  have dep: "is_depth (length xs) d" unfolding d_def using assms(1) by (intro is_depth_of) simp
  have tot: "unat (totalTx block) = length xs"
    using assms(2) by (simp add: block_def partial_block_def Let_def unat_of_nat_small)
  show "tree_depth block = Some d" using tree_depth_nat [of block d] tot dep assms(1,2) by simp
  show "hashesCount block = of_nat (length (tree_hashes d xs))"
    by (simp add: block_def partial_block_def Let_def d_def)
  show "length xs \<le> 2 ^ d" using dep by (simp add: is_depth_def)
  have lh: "length (tree_hashes d xs) < 2 ^ 31" using length_tree_hashes [OF assms(1), of d] assms(2) by simp
  then show "length (tree_hashes d xs) < 2 ^ 31" .
  have hn: "unat (of_nat k :: u64) = k" if "k < 2 ^ 31" for k using that by (intro u64_nat) simp
  show "hashes_are block 0 (tree_hashes d xs)"
    using lh hn by (auto simp: hashes_are_def hash_at_def block_def partial_block_def Let_def d_def
        word_less_nat_alt)
  have "d \<le> 31"
  proof (rule ccontr)
    assume "\<not> d \<le> 31"
    then have "(2 :: nat) ^ 31 \<le> 2 ^ (d - 1)" by (intro power_increasing) auto
    then show False using dep assms(2) \<open>\<not> d \<le> 31\<close> by (auto simp: is_depth_def)
  qed
  then have "(2 :: nat) ^ Suc d \<le> 2 ^ 32" by (intro power_increasing) auto
  then have lf: "length (tree_flags d xs) < 2 ^ 32" using length_tree_flags [of d xs] by linarith
  show "flags_are block 0 (tree_flags d xs)"
    unfolding flags_are_def
  proof safe
    fix k assume k: "k < length (tree_flags d xs)"
    have n: "unat (of_nat k div 8 :: u64) = k div 8" "unat (of_nat k mod 8 :: u64) = k mod 8"
      using k lf u64_nat [of k] by (simp_all add: unat_div unat_mod)
    have lt: "k div 8 < (length (tree_flags d xs) + 7) div 8" using k by linarith
    moreover have "unat (of_nat ((length (tree_flags d xs) + 7) div 8) :: u64) = (length (tree_flags d xs) + 7) div 8"
      using lf by (intro u64_nat) simp
    ultimately show "(of_nat (0 + k) :: u64) div 8 < flagsLen block"
      using n by (simp add: block_def partial_block_def Let_def d_def word_less_nat_alt)
    show "flag_at block (of_nat (0 + k)) = Some (tree_flags d xs ! k)"
      using n lt bit_pack [OF k]
      by (simp add: flag_at_def block_def partial_block_def Let_def d_def and_exp_eq_0_iff_not_bit)
  qed
qed

section \<open>Validity\<close>

lemma pow_loop_id [simp]: "pow_loop r h t n = r"
  by (induction n) (cases r; simp)+

text \<open>What the check of a block really depends on.\<close>

lemma is_valid_eq:
  assumes "BRMerkleBlockRootR block 0 0 0 = Some (root, i, j)" "unat (drop_bit 24 (target block)) < 32"
  shows "BRMerkleBlockIsValid block currentTime = Some (totalTx block = 0 \<or> root = merkleRoot block)"
  using assms by (auto simp: BRMerkleBlockIsValid_def word_less_nat_alt Let_def unat_eq_zero)

lemma is_valid_overflow:
  assumes "32 \<le> unat (drop_bit 24 (target block))"
  shows "BRMerkleBlockIsValid block currentTime = None"
  using assms by (auto simp: BRMerkleBlockIsValid_def word_less_nat_alt Let_def split: Option.bind_splits)

section \<open>Termination\<close>

text \<open>The allocated arrays have the lengths that the counts say.\<close>

definition arrays_ok :: "BRMerkleBlock \<Rightarrow> bool" where
  "arrays_ok block \<longleftrightarrow>
     (\<exists>hs fs. hashes block = Some hs \<and> length hs = unat (hashesCount block) \<and>
       flags block = Some fs \<and> length fs = unat (flagsLen block))"

lemma arrays_okD:
  assumes "arrays_ok block"
  shows "i div 8 < flagsLen block \<Longrightarrow> \<exists>f. flag_at block i = Some f"
    and "j < hashesCount block \<Longrightarrow> \<exists>h. hash_at block j = Some h"
  using assms by (auto simp: arrays_ok_def flag_at_def hash_at_def word_less_nat_alt)

lemma root_returns:
  assumes ok: "arrays_ok block" and d: "tree_depth block = Some d"
  shows "depth + n = d \<Longrightarrow> \<exists>r. BRMerkleBlockRootR block j i depth = Some r"
proof (induction n arbitrary: i j depth)
  case 0
  show ?case
    using arrays_okD [OF ok, of i] arrays_okD(2) [OF ok, of j] d 0
    by (subst BRMerkleBlockRootR.simps) (auto simp: Let_def)
next
  case (Suc n)
  show ?case
  proof (cases "i div 8 < flagsLen block \<and> j < hashesCount block")
    case True
    obtain f h where fh: "flag_at block i = Some f" "hash_at block j = Some h"
      using arrays_okD [OF ok] True by blast
    have IH: "\<exists>r. BRMerkleBlockRootR block j' i' (depth + 1) = Some r" for i' j'
      using Suc.IH [of "depth + 1"] Suc.prems by simp
    obtain h0 j0 i0 where L: "BRMerkleBlockRootR block j (i + 1) (depth + 1) = Some (h0, j0, i0)"
      using IH by (metis prod_cases3)
    obtain h1 j1 i1 where R: "BRMerkleBlockRootR block j0 i0 (depth + 1) = Some (h1, j1, i1)"
      using IH by (metis prod_cases3)
    show ?thesis
      using True fh d Suc.prems L R by (subst BRMerkleBlockRootR.simps) (auto simp: Let_def)
  next
    case False
    then show ?thesis by (subst BRMerkleBlockRootR.simps) auto
  qed
qed

lemma tx_hashes_return:
  assumes ok: "arrays_ok block" and d: "tree_depth block = Some d"
  shows "depth + n = d \<Longrightarrow> \<exists>r. BRMerkleBlockTxHashesR block cap out j i depth = Some r"
proof (induction n arbitrary: i j depth out)
  case 0
  show ?case
    using arrays_okD [OF ok, of i] arrays_okD(2) [OF ok, of j] d 0
    by (subst BRMerkleBlockTxHashesR.simps) (auto simp: Let_def split: option.splits)
next
  case (Suc n)
  show ?case
  proof (cases "i div 8 < flagsLen block \<and> j < hashesCount block")
    case True
    obtain f h where fh: "flag_at block i = Some f" "hash_at block j = Some h"
      using arrays_okD [OF ok] True by blast
    have IH: "\<exists>r. BRMerkleBlockTxHashesR block cap out' j' i' (depth + 1) = Some r" for i' j' out'
      using Suc.IH [of "depth + 1"] Suc.prems by simp
    obtain o0 j0 i0 where L: "BRMerkleBlockTxHashesR block cap out j (i + 1) (depth + 1) = Some (o0, j0, i0)"
      using IH by (metis prod_cases3)
    show ?thesis
      using True fh d Suc.prems L IH [of o0 j0 i0]
      by (subst BRMerkleBlockTxHashesR.simps) (auto simp: Let_def split: option.splits)
  next
    case False
    then show ?thesis by (subst BRMerkleBlockTxHashesR.simps) auto
  qed
qed

section \<open>Properties of the merkle tree\<close>

text \<open>
  C32: take a nonempty list of fewer than \<open>2 ^ 31\<close> transactions, some of them matched, in whose tree no
  explored node has equal children or a child with the hash 0, and the partial merkle tree of BIP 37
  for it. \<open>BRMerkleBlockIsValid\<close> accepts it in a block whose target size is below 32 exactly when the
  header has the root of the full tree, and \<open>BRMerkleBlockTxHashes\<close> gives the matched transactions,
  in their order, in both passes. On the right edge of the tree the recursion of the code runs into
  the end of the hashes and takes the missing right child for the left one.\<close>

theorem merkle_block_decodes:
  fixes b :: BRMerkleBlock and xs :: leaves
  defines "d \<equiv> depth_of (length xs)"
  assumes "xs \<noteq> []" "length xs < 2 ^ 31" "tree_ok d xs"
    "unat (drop_bit 24 (target b)) < 32" "length a = length (matched xs)"
  shows "BRMerkleBlockIsValid (partial_block b xs) currentTime = Some (merkleRoot b = merkle d xs) \<and>
    BRMerkleBlockTxHashes (partial_block b xs) None = Some (None, length (matched xs)) \<and>
    BRMerkleBlockTxHashes (partial_block b xs) (Some a) = Some (Some (matched xs), length (matched xs))"
proof -
  note blk = partial_block_arrays(1-4) [OF assms(2,3), where b = b, folded d_def]
    partial_block_arrays(5,6) [OF assms(2,3), folded d_def]
  let ?block = "partial_block b xs"
  have M: "length (matched xs) < 2 ^ 31"
    using le_less_trans [OF length_filter_le assms(3)] by (simp add: matched_def)
  have "BRMerkleBlockRootR ?block (of_nat 0) (of_nat 0) 0 = Some (merkle d xs, of_nat (0 + length (tree_hashes d xs)),
      of_nat (0 + length (tree_flags d xs)))"
    using blk assms(2,4) by (intro root_decodes [OF blk(1)]) simp_all
  moreover have "totalTx ?block \<noteq> 0"
    using assms(2,3) by (simp add: partial_block_def Let_def word_of_nat_eq_0_iff) (auto dest: dvd_imp_le)
  ultimately have "BRMerkleBlockIsValid ?block currentTime = Some (merkleRoot b = merkle d xs)"
    using is_valid_eq [of ?block] assms(5) by (auto simp: partial_block_def Let_def)
  moreover have "BRMerkleBlockTxHashesR ?block cap (out, of_nat 0) (of_nat 0) (of_nat 0) 0 =
      Some ((place (matched xs) 0 out, of_nat (0 + length (matched xs))),
        of_nat (0 + length (tree_hashes d xs)), of_nat (0 + length (tree_flags d xs)))"
    if "room 0 (length (matched xs)) cap out" for cap out
    using blk assms(2) that by (intro tx_hashes_decodes [OF blk(1)]) simp_all
  moreover have "room 0 (length (matched xs)) (- 1) None" "room 0 (length (matched xs)) (of_nat (length a)) (Some a)"
    using M assms(6) u64_nat [of "length a"]
    by (simp_all add: room_def unsigned_minus_1_eq_mask mask_eq_exp_minus_1)
  moreover have "unat (of_nat (length (matched xs)) :: u64) = length (matched xs)"
    using M by (intro u64_nat) simp
  ultimately show ?thesis using assms(6) by (simp add: BRMerkleBlockTxHashes_def place_def)
qed

theorem merkle_block_decodes_witness:
  "BRMerkleBlockIsValid (partial_block BRMerkleBlockNew [(7, False), (9, True)]) 0 = Some (node_hash 7 9 = 0) \<and>
   BRMerkleBlockTxHashes (partial_block BRMerkleBlockNew [(7, False), (9, True)]) (Some [0]) = Some (Some [9], 1)"
proof -
  let ?xs = "[(7, False), (9, True)] :: leaves"
  have d: "depth_of (length ?xs) = 1" by (simp add: depth_of.simps)
  show ?thesis
    using merkle_block_decodes [of ?xs BRMerkleBlockNew "[0]" 0]
    unfolding d by (auto simp: BRMerkleBlockNew_def matched_def numeral_2_eq_2 [symmetric])
qed

text \<open>The steps of the two recursions, for concrete blocks.\<close>

lemma root_stop:
  "\<not> (i div 8 < flagsLen block \<and> j < hashesCount block) \<Longrightarrow> BRMerkleBlockRootR block j i depth = Some (0, j, i)"
  by (subst BRMerkleBlockRootR.simps) auto

lemma root_leaf:
  assumes "i div 8 < flagsLen block" "j < hashesCount block" "flag_at block i = Some f"
    "f \<Longrightarrow> tree_depth block = Some depth" "hash_at block j = Some h"
  shows "BRMerkleBlockRootR block j i depth = Some (h, j + 1, i + 1)"
  using assms by (subst BRMerkleBlockRootR.simps) (auto simp: Let_def)

lemma root_inner:
  assumes "i div 8 < flagsLen block" "j < hashesCount block" "flag_at block i = Some True"
    "tree_depth block = Some d" "depth \<noteq> d"
    "BRMerkleBlockRootR block j (i + 1) (depth + 1) = Some (h0, j0, i0)"
    "BRMerkleBlockRootR block j0 i0 (depth + 1) = Some (h1, j1, i1)"
  shows "BRMerkleBlockRootR block j i depth =
    Some (if h0 \<noteq> 0 \<and> h0 \<noteq> h1 then (node_hash h0 (if h1 = 0 then h0 else h1), j1, i1) else (0, - 1, i1))"
  using assms by (subst BRMerkleBlockRootR.simps) (auto simp: Let_def)

lemma hashes_stop:
  "\<not> (i div 8 < flagsLen block \<and> j < hashesCount block) \<Longrightarrow>
   BRMerkleBlockTxHashesR block cap out j i depth = Some (out, j, i)"
  by (subst BRMerkleBlockTxHashesR.simps) auto

lemma hashes_skip:
  assumes "i div 8 < flagsLen block" "j < hashesCount block" "flag_at block i = Some False"
  shows "BRMerkleBlockTxHashesR block cap out j i depth = Some (out, j + 1, i + 1)"
  using assms by (subst BRMerkleBlockTxHashesR.simps) (auto simp: Let_def)

lemma hashes_leaf:
  assumes "i div 8 < flagsLen block" "j < hashesCount block" "flag_at block i = Some True"
    "tree_depth block = Some depth" "hash_at block j = Some h" "idx < cap"
  shows "BRMerkleBlockTxHashesR block cap (Some a, idx) j i depth =
    Some ((Some (a[unat idx := h]), idx + 1), j + 1, i + 1)"
  using assms by (subst BRMerkleBlockTxHashesR.simps) (auto simp: Let_def)

lemma hashes_inner:
  assumes "i div 8 < flagsLen block" "j < hashesCount block" "flag_at block i = Some True"
    "tree_depth block = Some d" "depth \<noteq> d"
    "BRMerkleBlockTxHashesR block cap out j (i + 1) (depth + 1) = Some (out0, j0, i0)"
    "BRMerkleBlockTxHashesR block cap out0 j0 i0 (depth + 1) = Some res"
  shows "BRMerkleBlockTxHashesR block cap out j i depth = Some res"
  using assms by (subst BRMerkleBlockTxHashesR.simps) (auto simp: Let_def)

text \<open>A block of three transactions, and a forgery of it for an arbitrary hash \<open>X\<close>.\<close>

definition honest :: "BRMerkleBlock \<Rightarrow> UInt256 \<Rightarrow> UInt256 \<Rightarrow> UInt256 \<Rightarrow> BRMerkleBlock" where
  "honest b x1 x2 x3 = partial_block b [(x1, False), (x2, False), (x3, True)]"

definition forged :: "BRMerkleBlock \<Rightarrow> UInt256 \<Rightarrow> UInt256 \<Rightarrow> UInt256 \<Rightarrow> UInt256 \<Rightarrow> BRMerkleBlock" where
  "forged b x1 x2 x3 X =
     b\<lparr>totalTx := 5, hashes := Some [node_hash x1 x2, x3, X, X], hashesCount := 4,
       flags := Some [0x75], flagsLen := 1\<rparr>"

lemma depth_5: "tree_depth (forged b x1 x2 x3 X) = Some 3"
  by (rule tree_depth_nat) (simp_all add: forged_def is_depth_def)

lemma depth_3: "depth_of 3 = 2"
  by (simp add: depth_of.simps)

lemma honest_fields:
  "tree_depth (honest b x1 x2 x3) = Some 2" "totalTx (honest b x1 x2 x3) = 3"
  "hashes (honest b x1 x2 x3) = Some [node_hash x1 x2, x3]" "hashesCount (honest b x1 x2 x3) = 2"
  "flags (honest b x1 x2 x3) = Some [0xd]" "flagsLen (honest b x1 x2 x3) = 1"
  "merkleRoot (honest b x1 x2 x3) = merkleRoot b" "target (honest b x1 x2 x3) = target b"
  "blockHash (honest b x1 x2 x3) = blockHash b"
proof -
  have 3: "length [(x1, False), (x2, False), (x3, True)] = 3" by simp
  have F: "tree_flags 2 [(x1, False), (x2, False), (x3, True)] = [True, False, True, True]"
    and H: "tree_hashes 2 [(x1, False), (x2, False), (x3, True)] = [node_hash x1 x2, x3]"
    by (simp_all add: numeral_2_eq_2 matches_def Let_def)
  have P: "pack [True, False, True, True] = [0xd]" by (simp add: pack_def)
  show tot: "totalTx (honest b x1 x2 x3) = 3" by (simp add: honest_def partial_block_def Let_def)
  show "tree_depth (honest b x1 x2 x3) = Some 2"
    by (rule tree_depth_nat) (simp_all add: tot is_depth_def)
  show "hashes (honest b x1 x2 x3) = Some [node_hash x1 x2, x3]" "hashesCount (honest b x1 x2 x3) = 2"
    "flags (honest b x1 x2 x3) = Some [0xd]" "flagsLen (honest b x1 x2 x3) = 1"
    unfolding honest_def partial_block_def 3 depth_3 F H P Let_def by simp_all
qed (simp_all add: honest_def partial_block_def Let_def)

lemma honest_bits:
  "flag_at (honest b x1 x2 x3) 0 = Some True" "flag_at (honest b x1 x2 x3) 1 = Some False"
  "flag_at (honest b x1 x2 x3) 2 = Some True" "flag_at (honest b x1 x2 x3) 3 = Some True"
  "hash_at (honest b x1 x2 x3) 0 = Some (node_hash x1 x2)" "hash_at (honest b x1 x2 x3) 1 = Some x3"
  by (simp_all add: flag_at_def hash_at_def honest_fields)

lemma forged_bits:
  "flag_at (forged b x1 x2 x3 X) 0 = Some True" "flag_at (forged b x1 x2 x3 X) 1 = Some False"
  "flag_at (forged b x1 x2 x3 X) 2 = Some True" "flag_at (forged b x1 x2 x3 X) 3 = Some False"
  "flag_at (forged b x1 x2 x3 X) 4 = Some True" "flag_at (forged b x1 x2 x3 X) 5 = Some True"
  "flag_at (forged b x1 x2 x3 X) 6 = Some True"
  "hash_at (forged b x1 x2 x3 X) 0 = Some (node_hash x1 x2)" "hash_at (forged b x1 x2 x3 X) 1 = Some x3"
  "hash_at (forged b x1 x2 x3 X) 2 = Some X" "hash_at (forged b x1 x2 x3 X) 3 = Some X"
  "flagsLen (forged b x1 x2 x3 X) = 1" "hashesCount (forged b x1 x2 x3 X) = 4"
  by (simp_all add: flag_at_def hash_at_def forged_def)

lemma honest_root:
  "\<exists>i j. BRMerkleBlockRootR (honest b x1 x2 x3) 0 0 0 =
    Some (let m = (if x3 = 0 then 0 else node_hash x3 x3); l = node_hash x1 x2
          in if l \<noteq> 0 \<and> l \<noteq> m then node_hash l (if m = 0 then l else m) else 0, i, j)"
proof -
  let ?b = "honest b x1 x2 x3"
  have l: "BRMerkleBlockRootR ?b 0 1 1 = Some (node_hash x1 x2, 1, 2)"
    using root_leaf [of 1 ?b 0 False 1 "node_hash x1 x2"] by (simp add: honest_fields honest_bits)
  have t: "BRMerkleBlockRootR ?b 1 3 2 = Some (x3, 2, 4)"
    using root_leaf [of 3 ?b 1 True 2 x3] by (simp add: honest_fields honest_bits)
  have s: "BRMerkleBlockRootR ?b 2 4 2 = Some (0, 2, 4)"
    using root_stop [of 4 ?b 2 2] by (simp add: honest_fields)
  have r: "BRMerkleBlockRootR ?b 1 2 1 =
      Some (if x3 \<noteq> 0 then (node_hash x3 x3, 2, 4) else (0, - 1, 4))"
    using root_inner [of 2 ?b 1 2 1 x3 2 4 0 2 4, unfolded one_add_one] t s
    by (simp add: honest_fields honest_bits)
  show ?thesis
    using root_inner [of 0 ?b 0 2 0 "node_hash x1 x2" 1 2 "if x3 = 0 then 0 else node_hash x3 x3"
        "if x3 = 0 then - 1 else 2" 4] l r
    by (auto simp: honest_fields honest_bits Let_def)
qed

lemma forged_root:
  "\<exists>i j. BRMerkleBlockRootR (forged b x1 x2 x3 X) 0 0 0 =
    Some (let m = (if x3 = 0 then 0 else node_hash x3 x3); l = node_hash x1 x2
          in if l \<noteq> 0 \<and> l \<noteq> m then node_hash l (if m = 0 then l else m) else 0, i, j)"
proof -
  let ?b = "forged b x1 x2 x3 X"
  have l: "BRMerkleBlockRootR ?b 0 1 1 = Some (node_hash x1 x2, 1, 2)"
    using root_leaf [of 1 ?b 0 False 1 "node_hash x1 x2"] by (simp add: forged_bits)
  have t: "BRMerkleBlockRootR ?b 1 3 2 = Some (x3, 2, 4)"
    using root_leaf [of 3 ?b 1 False 2 x3] by (simp add: forged_bits)
  have "BRMerkleBlockRootR ?b 2 5 3 = Some (X, 3, 6)" "BRMerkleBlockRootR ?b 3 6 3 = Some (X, 4, 7)"
    using root_leaf [of 5 ?b 2 True 3 X] root_leaf [of 6 ?b 3 True 3 X]
    by (simp_all add: forged_bits depth_5)
  then have s: "BRMerkleBlockRootR ?b 2 4 2 = Some (0, - 1, 7)"
    using root_inner [of 4 ?b 2 3 2 X 3 6 X 4 7] by (simp add: forged_bits depth_5)
  have r: "BRMerkleBlockRootR ?b 1 2 1 =
      Some (if x3 \<noteq> 0 then (node_hash x3 x3, - 1, 7) else (0, - 1, 7))"
    using root_inner [of 2 ?b 1 3 1 x3 2 4 0 "- 1" 7, unfolded one_add_one] t s
    by (simp add: forged_bits depth_5)
  show ?thesis
    using root_inner [of 0 ?b 0 3 0 "node_hash x1 x2" 1 2 "if x3 = 0 then 0 else node_hash x3 x3" "- 1" 7] l r
    by (auto simp: forged_bits depth_5 Let_def)
qed

lemma forged_hashes:
  "BRMerkleBlockTxHashes (forged b x1 x2 x3 X) (Some [a1, a2]) = Some (Some [X, X], 2)"
proof -
  let ?b = "forged b x1 x2 x3 X"
  have "BRMerkleBlockTxHashesR ?b 2 (Some [a1, a2], 0) 2 5 3 = Some ((Some [X, a2], 1), 3, 6)"
      "BRMerkleBlockTxHashesR ?b 2 (Some [X, a2], 1) 3 6 3 = Some ((Some [X, X], 2), 4, 7)"
    using hashes_leaf [of 5 ?b 2 3 X 0 2 "[a1, a2]"] hashes_leaf [of 6 ?b 3 3 X 1 2 "[X, a2]"]
    by (simp_all add: forged_bits depth_5)
  then have s: "BRMerkleBlockTxHashesR ?b 2 (Some [a1, a2], 0) 2 4 2 = Some ((Some [X, X], 2), 4, 7)"
    using hashes_inner [of 4 ?b 2 3 2 2 "(Some [a1, a2], 0)"] by (simp add: forged_bits depth_5)
  have "BRMerkleBlockTxHashesR ?b 2 (Some [a1, a2], 0) 1 3 2 = Some ((Some [a1, a2], 0), 2, 4)"
      "BRMerkleBlockTxHashesR ?b 2 (Some [a1, a2], 0) 0 1 1 = Some ((Some [a1, a2], 0), 1, 2)"
    using hashes_skip [of 3 ?b 1 2 "(Some [a1, a2], 0)" 2] hashes_skip [of 1 ?b 0 2 "(Some [a1, a2], 0)" 1]
    by (simp_all add: forged_bits)
  moreover from this s have "BRMerkleBlockTxHashesR ?b 2 (Some [a1, a2], 0) 1 2 1 = Some ((Some [X, X], 2), 4, 7)"
    using hashes_inner [of 2 ?b 1 3 1 2 "(Some [a1, a2], 0)", unfolded one_add_one]
    by (simp add: forged_bits depth_5)
  ultimately have "BRMerkleBlockTxHashesR ?b 2 (Some [a1, a2], 0) 0 0 0 = Some ((Some [X, X], 2), 4, 7)"
    using hashes_inner [of 0 ?b 0 3 0 2 "(Some [a1, a2], 0)"] by (simp add: forged_bits depth_5)
  then show ?thesis by (simp add: BRMerkleBlockTxHashes_def numeral_2_eq_2 [symmetric])
qed

text \<open>
  C33: the defence against CVE-2012-2459 gives the hash 0 to a rejected subtree, and its parent takes
  the hash 0 of a right child for a missing child. So the partial tree of a block with three
  transactions can be extended, by a rejected subtree in the place of the missing child, to one
  that claims an arbitrary hash \<open>X\<close> to be a transaction of the block: the forged block is valid
  whenever the honest one is, for every header, and \<open>BRMerkleBlockTxHashes\<close> returns \<open>X\<close> for it.\<close>

theorem merkle_forged_inclusion:
  "BRMerkleBlockIsValid (forged b x1 x2 x3 X) now = BRMerkleBlockIsValid (honest b x1 x2 x3) now \<and>
   merkleRoot (forged b x1 x2 x3 X) = merkleRoot (honest b x1 x2 x3) \<and>
   BRMerkleBlockTxHashes (forged b x1 x2 x3 X) (Some [a1, a2]) = Some (Some [X, X], 2)"
proof -
  obtain i j i' j' R where
    "BRMerkleBlockRootR (forged b x1 x2 x3 X) 0 0 0 = Some (R, i, j)"
    "BRMerkleBlockRootR (honest b x1 x2 x3) 0 0 0 = Some (R, i', j')"
    using honest_root [of b x1 x2 x3] forged_root [of b x1 x2 x3 X] by blast
  then have "BRMerkleBlockIsValid (forged b x1 x2 x3 X) now = BRMerkleBlockIsValid (honest b x1 x2 x3) now"
    unfolding BRMerkleBlockIsValid_def by (simp add: honest_fields) (simp add: forged_def)
  then show ?thesis using forged_hashes by (simp add: honest_fields) (simp add: forged_def)
qed

lemma root_ignores_header:
  assumes d: "tree_depth block = Some d"
  shows "depth + n = d \<Longrightarrow>
    BRMerkleBlockRootR (block\<lparr>blockHash := h, mb_timestamp := ts\<rparr>) j i depth = BRMerkleBlockRootR block j i depth"
proof (induction n arbitrary: i j depth)
  case 0
  have eq: "tree_depth (block\<lparr>blockHash := h, mb_timestamp := ts\<rparr>) = Some d" using d by (simp add: tree_depth_def)
  show ?case using d eq 0
    by (subst (1 2) BRMerkleBlockRootR.simps)
      (auto simp: Let_def flag_at_def hash_at_def split: Option.bind_splits option.splits)
next
  case (Suc n)
  let ?b = "block\<lparr>blockHash := h, mb_timestamp := ts\<rparr>"
  have eq: "tree_depth ?b = tree_depth block" "flag_at ?b = flag_at block" "hash_at ?b = hash_at block"
    "flagsLen ?b = flagsLen block" "hashesCount ?b = hashesCount block"
    by (simp_all add: tree_depth_def flag_at_def hash_at_def fun_eq_iff)
  have IH: "BRMerkleBlockRootR (block\<lparr>blockHash := h, mb_timestamp := ts\<rparr>) j' i' (depth + 1) =
      BRMerkleBlockRootR block j' i' (depth + 1)" for i' j'
    using Suc.IH [of "depth + 1"] Suc.prems by simp
  show ?case
    by (subst (1 2) BRMerkleBlockRootR.simps)
      (simp only: IH eq)
qed

lemma depth_defined: "unat (totalTx block) < 2 ^ 31 \<Longrightarrow> \<exists>d. tree_depth block = Some d"
proof (cases "unat (totalTx block) = 0")
  case True
  then have "totalTx block = 0" by (simp add: unat_eq_zero)
  then show ?thesis by (auto simp: tree_depth_def ceil_log2_def log2_loop.simps)
next
  case False
  then show "unat (totalTx block) < 2 ^ 31 \<Longrightarrow> ?thesis"
    using tree_depth_nat [OF _ _ is_depth_of] by blast
qed

text \<open>
  Both walks over the tree end and stay inside the arrays, for every content of the flags and
  hashes, when the arrays have the announced lengths and \<open>totalTx\<close> is below \<open>2 ^ 31\<close>.\<close>

theorem merkle_walks_return:
  assumes "arrays_ok block" "unat (totalTx block) < 2 ^ 31" "unat (drop_bit 24 (target block)) < 32"
  shows "(\<exists>v. BRMerkleBlockIsValid block now = Some v) \<and> (\<exists>r. BRMerkleBlockTxHashes block out = Some r)"
proof -
  obtain d where d: "tree_depth block = Some d" using depth_defined [OF assms(2)] by blast
  obtain root i j where "BRMerkleBlockRootR block 0 0 0 = Some (root, i, j)"
    using root_returns [OF assms(1) d, of 0 d 0 0] by auto
  moreover obtain o' k where "BRMerkleBlockTxHashesR block
      (case out of None \<Rightarrow> - 1 | Some a \<Rightarrow> of_nat (length a)) (out, 0) 0 0 0 = Some (o', k)"
    using tx_hashes_return [OF assms(1) d, of 0 d] by fastforce
  ultimately show ?thesis
    using is_valid_eq [OF _ assms(3)] by (auto simp: BRMerkleBlockTxHashes_def Let_def)
qed

theorem merkle_walks_return_witness:
  "\<exists>v. BRMerkleBlockIsValid (BRMerkleBlockNew\<lparr>totalTx := 9, hashes := Some [1, 2], hashesCount := 2,
     flags := Some [0xff], flagsLen := 1\<rparr>) 0 = Some v"
  using merkle_walks_return [of "BRMerkleBlockNew\<lparr>totalTx := 9, hashes := Some [1, 2], hashesCount := 2,
     flags := Some [0xff], flagsLen := 1\<rparr>" 0 None]
  by (simp add: arrays_ok_def BRMerkleBlockNew_def)

text \<open>
  From \<open>2 ^ 31\<close> on, the number of transactions is negative for \<open>_ceil_log2\<close>, whose loop then
  never ends: a block from a peer whose first flag is set makes \<open>BRMerkleBlockIsValid\<close> run forever.\<close>

theorem merkle_count_hangs:
  assumes "2 ^ 31 \<le> unat (totalTx block)" "flag_at block 0 = Some True" "0 < flagsLen block" "0 < hashesCount block"
  shows "ceil_log2 (sint (totalTx block)) = None \<and> BRMerkleBlockIsValid block now = None"
proof -
  have d: "tree_depth block = None" by (rule tree_depth_hangs [OF assms(1)])
  then have "BRMerkleBlockRootR block 0 0 0 = None"
    using assms(2-) by (subst BRMerkleBlockRootR.simps) (simp add: Let_def)
  then show ?thesis using d by (simp add: BRMerkleBlockIsValid_def tree_depth_def Let_def)
qed

theorem merkle_count_hangs_witness:
  "BRMerkleBlockIsValid (BRMerkleBlockNew\<lparr>totalTx := 0x80000000, hashes := Some [1], hashesCount := 1,
     flags := Some [1], flagsLen := 1\<rparr>) 0 = None"
  using merkle_count_hangs [of "BRMerkleBlockNew\<lparr>totalTx := 0x80000000, hashes := Some [1], hashesCount := 1,
     flags := Some [1], flagsLen := 1\<rparr>" 0]
  by (simp add: BRMerkleBlockNew_def flag_at_def)

text \<open>
  Contrary to its description, \<open>BRMerkleBlockIsValid\<close> checks neither the proof of work nor the
  time: its result is the same for every block hash, every timestamp and every current time.\<close>

theorem is_valid_ignores_pow:
  assumes "arrays_ok block" "unat (totalTx block) < 2 ^ 31" "unat (drop_bit 24 (target block)) < 32"
  shows "\<exists>v. \<forall>h ts now. BRMerkleBlockIsValid (block\<lparr>blockHash := h, mb_timestamp := ts\<rparr>) now = Some v"
proof -
  obtain d where d: "tree_depth block = Some d" using depth_defined [OF assms(2)] by blast
  obtain root i j where "BRMerkleBlockRootR block 0 0 0 = Some (root, i, j)"
    using root_returns [OF assms(1) d, of 0 d 0 0] by auto
  then have "BRMerkleBlockRootR (block\<lparr>blockHash := h, mb_timestamp := ts\<rparr>) 0 0 0 = Some (root, i, j)" for h ts
    using root_ignores_header [OF d, of 0 d] by simp
  then show ?thesis using is_valid_eq assms(3) by (intro exI) (auto)
qed

theorem is_valid_ignores_pow_witness:
  "\<exists>v. \<forall>h ts now. BRMerkleBlockIsValid ((BRMerkleBlockNew\<lparr>totalTx := 1, hashes := Some [1], hashesCount := 1,
     flags := Some [1], flagsLen := 1, target := 0x1e00ffff\<rparr>)\<lparr>blockHash := h, mb_timestamp := ts\<rparr>) now = Some v"
  by (rule is_valid_ignores_pow) (simp_all add: arrays_ok_def BRMerkleBlockNew_def)

text \<open>
  The target is written to the 32 bytes \<open>t\<close> at an offset from the header, without a check: for
  a size of 32 or more, which a header from a peer can have, the store runs over the end of \<open>t\<close>
  on the stack.\<close>

theorem is_valid_stack_write:
  assumes "32 \<le> unat (drop_bit 24 (target block))"
  shows "BRMerkleBlockIsValid block now = None"
  using assms by (rule is_valid_overflow)

theorem is_valid_stack_write_witness:
  "BRMerkleBlockIsValid (BRMerkleBlockNew\<lparr>target := 0x207fffff\<rparr>) 0 = None"
  by (rule is_valid_stack_write) simp

end
