(* ===== verification/Bits.thy ===== *)
theory Bits
  imports Prelude
begin

text \<open>
  Byte strings as strings of bits, the most significant bit of each byte first. An encoding that
  regroups bits (eleven to a word of a phrase) is compared with the data it encodes bit by bit.
\<close>

definition byte_bit :: "bytes \<Rightarrow> nat \<Rightarrow> bool" where
  "byte_bit bs p \<longleftrightarrow> bit (bs ! (p div 8)) (7 - p mod 8)"

lemma digit_div_mod:
  fixes m :: nat
  assumes "q < m"
  shows "(m * k + q) div m = k" "(m * k + q) mod m = q"
  using assms by simp_all

lemma byte_bit_drop: "k \<le> length b \<Longrightarrow> byte_bit (drop k b) p = byte_bit b (8 * k + p)"
  by (simp add: byte_bit_def)

lemma bit_unat: "bit (unat (w :: 'a::len word)) n = bit w n"
  by (auto simp: bit_unsigned_iff dest: bit_imp_le_length)

lemma bytes_eq_bits:
  assumes "length xs = length ys" "\<And>p. p < 8 * length xs \<Longrightarrow> byte_bit xs p = byte_bit ys p"
  shows "xs = ys"
proof (rule nth_equalityI)
  fix i assume i: "i < length xs"
  show "xs ! i = ys ! i"
  proof (rule bit_word_eqI)
    fix n assume "n < LENGTH(8)"
    then have n: "n < 8" by simp
    have "(8 * i + (7 - n)) div 8 = i" "(8 * i + (7 - n)) mod 8 = 7 - n"
      by (rule digit_div_mod, simp)+
    moreover have "8 * i + (7 - n) < 8 * length xs" using i n by linarith
    ultimately show "bit (xs ! i) n = bit (ys ! i) n"
      using assms(2) [of "8 * i + (7 - n)"] n by (simp add: byte_bit_def)
  qed
qed (rule assms(1))

end
