(* ===== verification/BRBIP39Mnemonic.thy ===== *)
theory BRBIP39Mnemonic
  imports BRCipher Bits
begin

text \<open>
  \<open>src/Modules/core/BRBIP39Mnemonic.c\<close>: mnemonic phrases of BIP 39.

  The word list is a parameter, as in the code. C strings are lists of characters without the
  terminator; an outer \<open>None\<close> is a failed assertion. The lemmas compare the bits of the phrase
  with the bits of the data and its checksum: both are read from the most significant bit on,
  eleven bits to a word and eight to a byte.
\<close>

definition BIP39_WORDLIST_COUNT :: nat where "BIP39_WORDLIST_COUNT = 2048"

section \<open>Encoding\<close>

text \<open>The number of word \<open>i\<close>, from the bytes of the data followed by their hash.\<close>

definition word_number :: "bytes \<Rightarrow> nat \<Rightarrow> nat" where
  "word_number buf i =
     unat (drop_bit (32 - (11 + (i * 11) mod 8)) (UInt32GetBE (drop (i * 11 div 8) buf))) mod BIP39_WORDLIST_COUNT"

text \<open>\<open>strncpy(&b[off], s, bLen - off)\<close>, which fills the buffer with zeros.\<close>

definition strncpy_at :: "nat \<Rightarrow> bytes \<Rightarrow> bytes \<Rightarrow> bytes" where
  "strncpy_at off s b = take off b @ take (length b - off) (s @ replicate (length b) 0)"

definition encode_word :: "bytes list \<Rightarrow> bytes \<Rightarrow> buffer \<times> nat \<Rightarrow> nat \<Rightarrow> buffer \<times> nat" where
  "encode_word wordList buf s i = (case s of (phrase, len) \<Rightarrow> let
     word = wordList ! word_number buf i;
     phrase = (if i > 0 then map_option (\<lambda>p. if len < length p then p[len := 0x20] else p) phrase else phrase);
     len = (if i > 0 then len + 1 else len)
   in (map_option (\<lambda>p. if len < length p then strncpy_at len word p else p) phrase, len + length word))"

definition BRBIP39Encode :: "bytes list \<Rightarrow> bytes \<Rightarrow> buffer \<Rightarrow> (buffer \<times> nat) option" where
  "BRBIP39Encode wordList data phrase =
     (if length data = 0 \<or> length data mod 4 \<noteq> 0 then None
      else case foldl (encode_word wordList (data @ BRSHA256 data)) (phrase, 0) [0..<length data * 3 div 4] of
        (phrase, len) \<Rightarrow>
          Some (phrase, if (case phrase of None \<Rightarrow> True | Some p \<Rightarrow> len + 1 \<le> length p) then len + 1 else 0))"

section \<open>Decoding\<close>

definition word_matches :: "bytes \<Rightarrow> bytes \<Rightarrow> bool" where
  "word_matches word w \<longleftrightarrow> take (length w) word = w \<and> (length word = length w \<or> word ! length w = 0x20)"

definition word_index :: "bytes list \<Rightarrow> bytes \<Rightarrow> nat option" where
  "word_index wordList word = find (\<lambda>i. word_matches word (wordList ! i)) [0..<BIP39_WORDLIST_COUNT]"

text \<open>The string after the next space.\<close>

definition next_word :: "bytes \<Rightarrow> bytes option" where
  "next_word word = (case dropWhile (\<lambda>c. c \<noteq> 0x20) word of [] \<Rightarrow> None | _ # r \<Rightarrow> Some r)"

text \<open>The loop over the words: their numbers and the pointer at which it stops.\<close>

fun phrase_words :: "bytes list \<Rightarrow> nat \<Rightarrow> bytes option \<Rightarrow> nat list \<times> bytes option" where
  "phrase_words wordList 0 word = ([], word)"
| "phrase_words wordList (Suc n) word = (case word of
     None \<Rightarrow> ([], None)
   | Some w \<Rightarrow>
       if w = [] then ([], Some w)
       else case word_index wordList w of
         None \<Rightarrow> ([], Some w)
       | Some i \<Rightarrow> (case phrase_words wordList n (next_word w) of (idx, word) \<Rightarrow> (i # idx, word)))"

definition phrase_byte :: "nat list \<Rightarrow> nat \<Rightarrow> u8" where
  "phrase_byte idx i = (let
     x = (of_nat (idx ! (i * 8 div 11)) :: u32);
     y = (if i * 8 div 11 + 1 < length idx then of_nat (idx ! (i * 8 div 11 + 1)) else 0)
   in ucast (drop_bit ((i * 8 div 11 + 2) * 11 - (i + 1) * 8) (x * of_nat BIP39_WORDLIST_COUNT + y) AND 0xff))"

definition BRBIP39Decode :: "bytes list \<Rightarrow> bytes \<Rightarrow> buffer \<Rightarrow> buffer \<times> nat" where
  "BRBIP39Decode wordList phrase data = (case phrase_words wordList 24 (Some phrase) of (idx, word) \<Rightarrow> let
     n = length idx;
     buf = map (phrase_byte idx) [0..<(n * 11 + 7) div 8];
     b = (if buf = [] then 0 else last buf);
     r = (if n mod 3 = 0 \<and> (word = None \<or> word = Some []) then
            (if drop_bit (8 - n div 3) b = drop_bit (8 - n div 3) (BRSHA256 (take (n * 4 div 3) buf) ! 0)
             then n * 4 div 3 else 0)
          else 0)
   in case data of
        None \<Rightarrow> (None, r)
      | Some d \<Rightarrow> if r \<le> length d then (Some (poke 0 (take r buf) d), r) else (Some d, 0))"

definition BRBIP39PhraseIsValid :: "bytes list \<Rightarrow> bytes \<Rightarrow> bool" where
  "BRBIP39PhraseIsValid wordList phrase \<longleftrightarrow> snd (BRBIP39Decode wordList phrase None) > 0"

definition MNEMONIC_SALT :: bytes where
  "MNEMONIC_SALT = map of_char ''mnemonic''"

definition BRBIP39DeriveKey :: "bytes \<Rightarrow> bytes option \<Rightarrow> bytes" where
  "BRBIP39DeriveKey phrase passphrase =
     BRPBKDF2 64 BRSHA512 64 phrase
       (MNEMONIC_SALT @ (case passphrase of None \<Rightarrow> [] | Some p \<Rightarrow> p)) 2048"

section \<open>Bits\<close>

text \<open>Bit \<open>p\<close> of a list of word numbers, the most significant one first.\<close>

definition index_bit :: "nat list \<Rightarrow> nat \<Rightarrow> bool" where
  "index_bit idx p \<longleftrightarrow> bit (idx ! (p div 11)) (10 - p mod 11)"

lemma bit_UInt32GetBE:
  assumes "4 \<le> length b" "n < 32"
  shows "bit (UInt32GetBE b) n = byte_bit b (31 - n)"
proof -
  define a where "a = n div 8"
  define c where "c = n mod 8"
  have n: "n = 8 * a + c" "a < 4" "c < 8" using assms(2) by (auto simp: a_def c_def)
  then have "31 - n = 8 * (3 - a) + (7 - c)" by simp
  then have "(31 - n) div 8 = 3 - a" "(31 - n) mod 8 = 7 - c"
    using digit_div_mod [of "7 - c" 8 "3 - a"] by simp_all
  then have "(31 - n) div 8 = 3 - a" "7 - (31 - n) mod 8 = c" using n by simp_all
  then show ?thesis using assms by (simp add: uint_get_be bit_word_of_le byte_bit_def rev_nth
      flip: a_def c_def) (use n in \<open>simp add: rev_nth\<close>)
qed

lemma bit_nat_mod: "bit ((m :: nat) mod 2048) n \<longleftrightarrow> n < 11 \<and> bit m n"
  using bit_take_bit_iff [of 11 m n] by (simp add: take_bit_eq_mod)

lemma word_number_bit:
  assumes "q < 11" "i * 11 div 8 + 4 \<le> length buf"
  shows "bit (word_number buf i) (10 - q) = byte_bit buf (11 * i + q)"
proof -
  define r where "r = (i * 11) mod 8"
  have r: "r < 8" by (simp add: r_def)
  have "bit (word_number buf i) (10 - q) = bit (UInt32GetBE (drop (i * 11 div 8) buf)) (32 - (11 + r) + (10 - q))"
    by (simp add: word_number_def BIP39_WORDLIST_COUNT_def bit_nat_mod bit_unat bit_drop_bit_eq flip: r_def) linarith
  also have "32 - (11 + r) + (10 - q) = 31 - (q + r)" using assms r by simp
  also have "bit (UInt32GetBE (drop (i * 11 div 8) buf)) (31 - (q + r)) = byte_bit (drop (i * 11 div 8) buf) (q + r)"
    using assms r by (subst bit_UInt32GetBE) auto
  also have "\<dots> = byte_bit buf (8 * (i * 11 div 8) + r + q)"
    using assms by (simp add: byte_bit_drop ac_simps)
  also have "8 * (i * 11 div 8) + r = 11 * i" by (simp add: r_def mult.commute)
  finally show ?thesis .
qed

lemma word_number_less: "word_number buf i < 2048"
  by (simp add: word_number_def BIP39_WORDLIST_COUNT_def)

lemma bit_less_2048: "(m :: nat) < 2048 \<Longrightarrow> bit m n \<Longrightarrow> n < 11"
  using bit_nat_mod [of m n] by simp

lemma bit_pair:
  assumes "x < 2048" "y < 2048" "n < 22"
  shows "bit ((of_nat x :: u32) * 2048 + of_nat y) n = (if n < 11 then bit y n else bit x (n - 11))"
proof -
  have "(of_nat x :: u32) * 2048 + of_nat y = of_nat (x * 2048 + y)" by simp
  then have "bit ((of_nat x :: u32) * 2048 + of_nat y) n = bit (x * 2048 + y) n"
    using assms unat_of_nat_small [of "x * 2048 + y", where 'a = 32]
      bit_unat [of "of_nat (x * 2048 + y) :: u32" n] by simp
  also have "x * 2048 + y = push_bit 11 x OR y"
  proof -
    have "push_bit 11 x AND y = 0"
      by (rule bit_eqI) (use assms in \<open>auto simp: bit_simps dest: bit_less_2048\<close>)
    then have "push_bit 11 x + y = push_bit 11 x OR y" by (simp add: disjunctive_add_eq_or)
    then show ?thesis by (simp add: push_bit_eq_mult)
  qed
  also have "bit (push_bit 11 x OR y) n = (if n < 11 then bit y n else bit x (n - 11))"
    using assms bit_less_2048 [of y n] by (auto simp: bit_simps)
  finally show ?thesis .
qed

lemma phrase_byte_bit:
  assumes "\<forall>x\<in>set idx. x < 2048" "i * 8 div 11 < length idx" "q < 8"
  shows "bit (phrase_byte idx i) (7 - q) \<longleftrightarrow>
    8 * i + q < 11 * length idx \<and> index_bit idx (8 * i + q)"
proof -
  define k where "k = i * 8 div 11"
  define y where "y = (if k + 1 < length idx then idx ! (k + 1) else 0)"
  define p where "p = 8 * i + q - 11 * k"
  have k: "11 * k \<le> 8 * i" "8 * i < 11 * k + 11" unfolding k_def by simp_all
  have xy: "idx ! k < 2048" "y < 2048" using assms by (auto simp: k_def y_def)
  have s: "(k + 2) * 11 - (i + 1) * 8 + (7 - q) = 21 - p" "p < 18"
    using assms k unfolding p_def by auto
  have "(if k + 1 < length idx then of_nat (idx ! (k + 1)) else 0 :: u32) = of_nat y" by (simp add: y_def)
  then have "bit (phrase_byte idx i) (7 - q) \<longleftrightarrow> 7 - q < 8 \<and> bit ((of_nat (idx ! k) :: u32) * 2048 + of_nat y) (21 - p)"
    unfolding phrase_byte_def Let_def BIP39_WORDLIST_COUNT_def k_def [symmetric] using s(1)
    by (simp add: bit_simps del: mult_Suc add_Suc_right)
  also have "\<dots> = (if 21 - p < 11 then bit y (21 - p) else bit (idx ! k) (10 - p))"
    using xy s by (subst bit_pair) auto
  also have "\<dots> \<longleftrightarrow> 8 * i + q < 11 * length idx \<and> index_bit idx (8 * i + q)"
  proof (cases "p < 11")
    case True
    moreover have "8 * i + q = 11 * k + p" using k by (simp add: p_def)
    ultimately have "(8 * i + q) div 11 = k" "(8 * i + q) mod 11 = p" by (simp_all only: digit_div_mod)
    moreover have "8 * i + q < 11 * length idx"
      using assms(2) True k unfolding p_def k_def [symmetric] by linarith
    moreover have "\<not> 21 - p < 11" using True by linarith
    ultimately show ?thesis by (simp add: index_bit_def)
  next
    case False
    then have "8 * i + q = 11 * (k + 1) + (p - 11)" using k by (simp add: p_def)
    moreover have "p - 11 < 11" using s by simp
    ultimately have d: "(8 * i + q) div 11 = k + 1" "(8 * i + q) mod 11 = p - 11"
      by (simp_all only: digit_div_mod)
    then have "8 * i + q < 11 * length idx \<longleftrightarrow> k + 1 < length idx" by linarith
    moreover have "10 - (p - 11) = 21 - p" "21 - p < 11" using False by simp_all
    ultimately show ?thesis using d by (simp add: index_bit_def y_def)
  qed
  finally show ?thesis .
qed

section \<open>The bits of data and phrase\<close>

text \<open>The numbers of the words of the data.\<close>

definition word_numbers :: "bytes \<Rightarrow> nat list" where
  "word_numbers data = map (word_number (data @ BRSHA256 data)) [0..<length data * 3 div 4]"

definition phrase_bytes :: "nat list \<Rightarrow> bytes" where
  "phrase_bytes idx = map (phrase_byte idx) [0..<(length idx * 11 + 7) div 8]"

text \<open>Data that has a phrase: 4 to 32 bytes, a multiple of 4.\<close>

definition mnemonic_data :: "bytes \<Rightarrow> bool" where
  "mnemonic_data data \<longleftrightarrow> 0 < length data \<and> length data \<le> 32 \<and> 4 dvd length data"

lemma mnemonic_dataE:
  assumes "mnemonic_data data"
  obtains m where "length data = 4 * m" "0 < m" "m \<le> 8"
proof -
  obtain m where m: "length data = 4 * m" using assms by (auto simp: mnemonic_data_def)
  then have "0 < m" "m \<le> 8" using assms unfolding mnemonic_data_def by linarith+
  with m show ?thesis by (rule that)
qed

lemma indices_eq_bits:
  assumes "length xs = length ys" "\<forall>x\<in>set xs. x < 2048" "\<forall>y\<in>set ys. y < 2048"
    and "\<And>p. p < 11 * length xs \<Longrightarrow> index_bit xs p = index_bit ys p"
  shows "xs = ys"
proof (rule nth_equalityI)
  fix i assume i: "i < length xs"
  show "xs ! i = ys ! i"
  proof (rule bit_eqI)
    fix n
    show "bit (xs ! i) n = bit (ys ! i) n"
    proof (cases "n < 11")
      case True
      then have "(11 * i + (10 - n)) div 11 = i" "(11 * i + (10 - n)) mod 11 = 10 - n"
        using digit_div_mod [of "10 - n" 11 i] by simp_all
      moreover have "11 * i + (10 - n) < 11 * length xs" using i True by linarith
      ultimately show ?thesis
        using assms(4) [of "11 * i + (10 - n)"] True by (simp add: index_bit_def)
    next
      case False
      have "xs ! i < 2048" "ys ! i < 2048" using assms(1-3) i by simp_all
      then show ?thesis using False bit_less_2048 by blast
    qed
  qed
qed (rule assms(1))

lemma word_numbers_bit:
  assumes "length data = 4 * m" "m \<le> 8" "p < 33 * m"
  shows "index_bit (word_numbers data) p = byte_bit (data @ BRSHA256 data) p"
proof -
  define i where "i = p div 11"
  define q where "q = p mod 11"
  have p: "p = 11 * i + q" "q < 11" by (simp_all add: i_def q_def)
  have i: "i < 3 * m" using assms p by linarith
  have "index_bit (word_numbers data) p = bit (word_number (data @ BRSHA256 data) i) (10 - q)"
    using i assms(1) by (simp add: index_bit_def word_numbers_def flip: i_def q_def)
  also have "\<dots> = byte_bit (data @ BRSHA256 data) p"
    using i assms p by (subst word_number_bit) auto
  finally show ?thesis .
qed

lemma phrase_bytes_bit:
  assumes "length idx = 3 * m" "\<forall>x\<in>set idx. x < 2048" "p < 33 * m"
  shows "byte_bit (phrase_bytes idx) p = index_bit idx p"
proof -
  define i where "i = p div 8"
  define q where "q = p mod 8"
  have p: "p = 8 * i + q" "q < 8" by (simp_all add: i_def q_def)
  then have "i < (length idx * 11 + 7) div 8" "i * 8 div 11 < length idx" using assms by linarith+
  then show ?thesis
    using phrase_byte_bit [OF assms(2), of i q] p assms
    by (simp add: byte_bit_def phrase_bytes_def flip: i_def q_def)
qed

lemma checksum_bits:
  assumes "m \<le> 8"
  shows "drop_bit (8 - m) b = drop_bit (8 - m) (c :: u8) \<longleftrightarrow> (\<forall>q<m. bit b (7 - q) = bit c (7 - q))"
proof
  assume e: "drop_bit (8 - m) b = drop_bit (8 - m) c"
  show "\<forall>q<m. bit b (7 - q) = bit c (7 - q)"
  proof (intro allI impI)
    fix q assume "q < m"
    then have "8 - m + (m - 1 - q) = 7 - q" using assms by simp
    then show "bit b (7 - q) = bit c (7 - q)"
      using arg_cong [OF e, of "\<lambda>w. bit w (m - 1 - q)"] by (simp add: bit_drop_bit_eq)
  qed
next
  assume h: "\<forall>q<m. bit b (7 - q) = bit c (7 - q)"
  show "drop_bit (8 - m) b = drop_bit (8 - m) c"
  proof (rule bit_word_eqI)
    fix n assume "n < LENGTH(8)"
    have "bit b (8 - m + n) = bit c (8 - m + n)"
    proof (cases "n < m")
      case True
      then have "8 - m + n = 7 - (m - 1 - n)" "m - 1 - n < m" using assms by simp_all
      then show ?thesis using h by metis
    next
      case False
      then show ?thesis using assms by (auto dest!: bit_imp_le_length)
    qed
    then show "bit (drop_bit (8 - m) b) n = bit (drop_bit (8 - m) c) n" by (simp add: bit_drop_bit_eq)
  qed
qed

section \<open>The words of a phrase\<close>

text \<open>What the code expects of a word list.\<close>

definition wordlist_ok :: "bytes list \<Rightarrow> bool" where
  "wordlist_ok wordList \<longleftrightarrow> length wordList = BIP39_WORDLIST_COUNT \<and> distinct wordList \<and>
     (\<forall>w\<in>set wordList. w \<noteq> [] \<and> 0 \<notin> set w \<and> 0x20 \<notin> set w)"

fun join_words :: "bytes list \<Rightarrow> bytes" where
  "join_words [] = []"
| "join_words [w] = w"
| "join_words (w # ws) = w @ 0x20 # join_words ws"

definition mnemonic :: "bytes list \<Rightarrow> nat list \<Rightarrow> bytes" where
  "mnemonic wordList idx = join_words (map ((!) wordList) idx)"

lemma word_matches_iff:
  assumes "0x20 \<notin> set v"
  shows "word_matches w v \<longleftrightarrow> takeWhile (\<lambda>c. c \<noteq> 0x20) w = v"
proof
  assume m: "word_matches w v"
  then have w: "w = v @ drop (length v) w"
    unfolding word_matches_def by (metis append_take_drop_id)
  have "drop (length v) w = [] \<or> hd (drop (length v) w) = 0x20"
    using m unfolding word_matches_def by (cases "length v < length w") (auto simp: hd_drop_conv_nth)
  moreover have "\<forall>c\<in>set v. c \<noteq> 0x20" using assms by auto
  ultimately show "takeWhile (\<lambda>c. c \<noteq> 0x20) w = v"
    by (subst w, cases "drop (length v) w") (auto simp: takeWhile_append2)
next
  assume h: "takeWhile (\<lambda>c. c \<noteq> 0x20) w = v"
  then have "take (length v) w = v" by (metis takeWhile_eq_take)
  moreover have "length w = length v \<or> w ! length v = 0x20"
    using h nth_length_takeWhile [of "\<lambda>c. c \<noteq> 0x20" w] length_takeWhile_le [of "\<lambda>c. c \<noteq> 0x20" w]
    by (metis le_neq_implies_less)
  ultimately show "word_matches w v" by (simp add: word_matches_def)
qed

lemma word_index_iff:
  assumes "wordlist_ok wl"
  shows "word_index wl w = Some i \<longleftrightarrow> i < length wl \<and> wl ! i = takeWhile (\<lambda>c. c \<noteq> 0x20) w"
proof -
  have len: "length wl = 2048" "distinct wl"
    using assms by (simp_all add: wordlist_ok_def BIP39_WORDLIST_COUNT_def)
  have m: "word_matches w (wl ! j) \<longleftrightarrow> wl ! j = takeWhile (\<lambda>c. c \<noteq> 0x20) w" if "j < 2048" for j
    using assms that len(1) word_matches_iff [of "wl ! j" w] by (auto simp: wordlist_ok_def)
  have f: "find P [0..<n] = Some i \<longleftrightarrow> i < n \<and> P i \<and> (\<forall>j<i. \<not> P j)" for P and n i :: nat
    by (auto simp: find_Some_iff)
  show ?thesis
  proof
    assume "word_index wl w = Some i"
    then show "i < length wl \<and> wl ! i = takeWhile (\<lambda>c. c \<noteq> 0x20) w"
      unfolding word_index_def f BIP39_WORDLIST_COUNT_def using m [of i] len by simp
  next
    assume i: "i < length wl \<and> wl ! i = takeWhile (\<lambda>c. c \<noteq> 0x20) w"
    then have "\<not> word_matches w (wl ! j)" if "j < i" for j
      using m [of j] that len nth_eq_iff_index_eq [OF len(2), of i j] by auto
    then show "word_index wl w = Some i"
      unfolding word_index_def f BIP39_WORDLIST_COUNT_def using i m [of i] len by simp
  qed
qed

lemma word_index_none:
  assumes "wordlist_ok wl" "word_index wl w = None"
  shows "takeWhile (\<lambda>c. c \<noteq> 0x20) w \<notin> set wl"
proof
  assume "takeWhile (\<lambda>c. c \<noteq> 0x20) w \<in> set wl"
  then obtain i where "i < length wl" "wl ! i = takeWhile (\<lambda>c. c \<noteq> 0x20) w" by (auto simp: in_set_conv_nth)
  then show False using word_index_iff [OF assms(1), of w i] assms(2) by simp
qed

lemma next_word_append:
  assumes "0x20 \<notin> set v"
  shows "next_word (v @ 0x20 # r) = Some r" "next_word v = None"
    "takeWhile (\<lambda>c. c \<noteq> 0x20) (v @ 0x20 # r) = v" "takeWhile (\<lambda>c. c \<noteq> 0x20) v = v"
proof -
  have "\<forall>c\<in>set v. c \<noteq> 0x20" using assms by auto
  then have "dropWhile (\<lambda>c. c \<noteq> 0x20) (v @ 0x20 # r) = 0x20 # r" "dropWhile (\<lambda>c. c \<noteq> 0x20) v = []"
    "takeWhile (\<lambda>c. c \<noteq> 0x20) (v @ 0x20 # r) = v" "takeWhile (\<lambda>c. c \<noteq> 0x20) v = v"
    by (induction v) simp_all
  then show "next_word (v @ 0x20 # r) = Some r" "next_word v = None"
    "takeWhile (\<lambda>c. c \<noteq> 0x20) (v @ 0x20 # r) = v" "takeWhile (\<lambda>c. c \<noteq> 0x20) v = v"
    by (simp_all only: next_word_def list.case)
qed

lemma next_word_cases:
  "(next_word w = None \<and> w = takeWhile (\<lambda>c. c \<noteq> 0x20) w) \<or>
   (\<exists>r. next_word w = Some r \<and> w = takeWhile (\<lambda>c. c \<noteq> 0x20) w @ 0x20 # r)"
proof (cases "dropWhile (\<lambda>c. c \<noteq> 0x20) w")
  case Nil
  then have "takeWhile (\<lambda>c. c \<noteq> 0x20) w = w" by (metis append_Nil2 takeWhile_dropWhile_id)
  then show ?thesis unfolding next_word_def Nil by (simp only: list.case) simp
next
  case (Cons c r)
  then have "c = 0x20" using hd_dropWhile [of "\<lambda>c. c \<noteq> 0x20" w] by simp
  then have "takeWhile (\<lambda>c. c \<noteq> 0x20) w @ 0x20 # r = w"
    using takeWhile_dropWhile_id [of "\<lambda>c. c \<noteq> 0x20" w] unfolding Cons by simp
  note this [symmetric]
  then show ?thesis unfolding next_word_def Cons list.case by (intro disjI2 exI conjI) (rule refl)
qed

text \<open>
  The loop reads every phrase of the list back, and what it reads to the end is such a phrase;
  a last space makes no difference.
\<close>

lemma mnemonic_Cons:
  "mnemonic wl (i # js) = (if js = [] then wl ! i else wl ! i @ 0x20 # mnemonic wl js)"
  by (cases js) (simp_all add: mnemonic_def)

lemma phrase_words_mnemonic:
  assumes "wordlist_ok wl" "\<forall>i\<in>set idx. i < 2048" "idx \<noteq> []" "length idx \<le> n"
  shows "phrase_words wl n (Some (mnemonic wl idx @ (if sp then [0x20] else []))) =
    (idx, if sp then Some [] else None)"
  using assms(2-)
proof (induction idx arbitrary: n)
  case (Cons i js)
  then obtain k where n: "n = Suc k" "length js \<le> k" by (cases n) auto
  define v where "v = wl ! i"
  have v: "v \<noteq> []" "0x20 \<notin> set v" "i < length wl"
    using Cons.prems assms(1) by (auto simp: v_def wordlist_ok_def BIP39_WORDLIST_COUNT_def)
  have ix: "word_index wl w = Some i" if "takeWhile (\<lambda>c. c \<noteq> 0x20) w = v" for w
    using that v word_index_iff [OF assms(1)] by (simp add: v_def)
  show ?case
  proof (cases "js = []")
    case True
    show ?thesis
    proof (cases sp)
      case True
      then show ?thesis
        using \<open>js = []\<close> v ix [of "v @ [0x20]"] next_word_append(1,3) [OF v(2), of "[]"]
        by (cases k) (simp_all add: mnemonic_Cons n flip: v_def)
    next
      case False
      then show ?thesis
        using \<open>js = []\<close> v ix [of v] next_word_append [OF v(2)]
        by (cases k) (simp_all add: mnemonic_Cons n flip: v_def)
    qed
  next
    case False
    then have "mnemonic wl (i # js) @ (if sp then [0x20] else []) =
        v @ 0x20 # (mnemonic wl js @ (if sp then [0x20] else []))"
      by (simp add: mnemonic_Cons flip: v_def)
    moreover have "phrase_words wl k (Some (mnemonic wl js @ (if sp then [0x20] else []))) =
        (js, if sp then Some [] else None)"
      using Cons.IH [of k] Cons.prems False n by simp
    ultimately show ?thesis
      using ix v(1) next_word_append(1,3) [OF v(2)]
      by (simp only: n phrase_words.simps) simp
  qed
qed simp

lemma phrase_words_complete:
  assumes "wordlist_ok wl" "phrase_words wl n (Some p) = (idx, r)" "r = None \<or> r = Some []"
  shows "(\<forall>i\<in>set idx. i < 2048) \<and> length idx \<le> n \<and>
    (p = mnemonic wl idx \<or> (idx \<noteq> [] \<and> p = mnemonic wl idx @ [0x20]))"
  using assms(2-)
proof (induction n arbitrary: p idx)
  case 0
  then show ?case by (auto simp: mnemonic_def)
next
  case (Suc n)
  show ?case
  proof (cases "p = []")
    case True
    then show ?thesis using Suc.prems by (auto simp: mnemonic_def)
  next
    case False
    then obtain i where i: "word_index wl p = Some i"
      using Suc.prems by (cases "word_index wl p") auto
    then have wi: "i < 2048" "wl ! i = takeWhile (\<lambda>c. c \<noteq> 0x20) p"
      using word_index_iff [OF assms(1)] assms(1) by (auto simp: wordlist_ok_def BIP39_WORDLIST_COUNT_def)
    obtain js where js: "phrase_words wl n (next_word p) = (js, r)" "idx = i # js"
      using Suc.prems(1) False i by (cases "phrase_words wl n (next_word p)") simp
    from next_word_cases [of p] show ?thesis
    proof (elim disjE exE conjE)
      assume 1: "next_word p = None" "p = takeWhile (\<lambda>c. c \<noteq> 0x20) p"
      then have "js = []" using js by (cases n) auto
      then show ?thesis using wi 1(2) [symmetric] unfolding js(2) mnemonic_Cons by simp
    next
      fix q assume 2: "next_word p = Some q" "p = takeWhile (\<lambda>c. c \<noteq> 0x20) p @ 0x20 # q"
      have "(\<forall>i\<in>set js. i < 2048) \<and> length js \<le> n \<and>
          (q = mnemonic wl js \<or> (js \<noteq> [] \<and> q = mnemonic wl js @ [0x20]))"
        using Suc.IH [of q js] js 2(1) Suc.prems(2) by simp
      then have "(\<forall>i\<in>set js. i < 2048) \<and> length js \<le> n"
        "q = mnemonic wl js \<or> (js \<noteq> [] \<and> q = mnemonic wl js @ [0x20])" by blast+
      moreover have "q = []" if "js = []" using calculation(2) that by (simp add: mnemonic_def)
      ultimately show ?thesis using wi(1) 2(2) [folded wi(2)] unfolding js(2) mnemonic_Cons
        by (cases "js = []") auto
    qed
  qed
qed

section \<open>Encoding and decoding\<close>

lemma mnemonic_snoc:
  "mnemonic wl (js @ [i]) = (if js = [] then wl ! i else mnemonic wl js @ 0x20 # wl ! i)"
  by (induction js) (auto simp: mnemonic_Cons)

lemma encode_word_next:
  assumes "0 < n" "length (wl ! word_number buf n) < k"
  shows "encode_word wl buf (Some (x @ replicate k 0), length x) n =
    (Some (x @ 0x20 # wl ! word_number buf n @ replicate (k - 1 - length (wl ! word_number buf n)) 0),
      length x + 1 + length (wl ! word_number buf n))"
proof -
  obtain j where j: "k = Suc j" using assms(2) by (cases k) auto
  then have "(x @ replicate k 0)[length x := 0x20] = x @ 0x20 # replicate j (0 :: u8)"
    by (simp add: list_update_append)
  then show ?thesis using assms j by (auto simp: encode_word_def strncpy_at_def Let_def simp del: replicate_Suc)
qed

lemma encode_words:
  fixes wl :: "bytes list" and buf :: bytes
  defines "m \<equiv> \<lambda>n. mnemonic wl (map (word_number buf) [0..<n])"
  shows "foldl (encode_word wl buf) (None, 0) [0..<n] = (None, length (m n))"
    and "length (m n) \<le> length b \<Longrightarrow>
      foldl (encode_word wl buf) (Some b, 0) [0..<n] =
        (Some (m n @ (if n = 0 then b else replicate (length b - length (m n)) 0)), length (m n))"
proof -
  have m: "m 0 = []" "m (Suc n) = (if n = 0 then wl ! word_number buf n else m n @ 0x20 # wl ! word_number buf n)" for n
    by (auto simp: m_def mnemonic_snoc) (simp add: mnemonic_def)
  show "foldl (encode_word wl buf) (None, 0) [0..<n] = (None, length (m n))"
    by (induction n) (auto simp: m encode_word_def)
  show "length (m n) \<le> length b \<Longrightarrow>
      foldl (encode_word wl buf) (Some b, 0) [0..<n] =
        (Some (m n @ (if n = 0 then b else replicate (length b - length (m n)) 0)), length (m n))"
  proof (induction n)
    case (Suc n)
    define w where "w = wl ! word_number buf n"
    show ?case
    proof (cases "n = 0")
      case True
      then show ?thesis using Suc.prems by (cases "b = []") (simp_all add: m encode_word_def strncpy_at_def Let_def flip: w_def)
    next
      case False
      have "foldl (encode_word wl buf) (Some b, 0) [0..<Suc n] =
          encode_word wl buf (Some (m n @ replicate (length b - length (m n)) 0), length (m n)) n"
        using Suc False by (simp add: m)
      then show ?thesis
        using encode_word_next [of n wl buf "length b - length (m n)" "m n"] Suc.prems False
        by (simp add: m)
    qed
  qed (simp add: m)
qed

lemma phrase_bytes_inverse:
  assumes "mnemonic_data data"
  shows "take (length data) (phrase_bytes (word_numbers data)) = data"
proof -
  obtain m where m: "length data = 4 * m" "0 < m" "m \<le> 8" using assms by (rule mnemonic_dataE)
  have len: "length (word_numbers data) = 3 * m" using m by (simp add: word_numbers_def)
  have lt: "\<forall>x\<in>set (word_numbers data). x < 2048" by (auto simp: word_numbers_def word_number_less)
  have pb: "4 * m \<le> length (phrase_bytes (word_numbers data))" by (simp add: phrase_bytes_def len)
  show ?thesis
  proof (rule bytes_eq_bits)
    fix p assume "p < 8 * length (take (length data) (phrase_bytes (word_numbers data)))"
    then have p: "p < 32 * m" using m pb by simp
    then have "p div 8 < 4 * m" by linarith
    then have "byte_bit (take (length data) (phrase_bytes (word_numbers data))) p =
        byte_bit (phrase_bytes (word_numbers data)) p"
      using m by (simp add: byte_bit_def)
    also have "\<dots> = byte_bit (data @ BRSHA256 data) p"
      using phrase_bytes_bit [OF len lt] word_numbers_bit [OF m(1,3)] p by simp
    also have "\<dots> = byte_bit data p" using \<open>p div 8 < 4 * m\<close> m by (simp add: byte_bit_def nth_append)
    finally show "byte_bit (take (length data) (phrase_bytes (word_numbers data))) p = byte_bit data p" .
  qed (use pb m in simp)
qed

text \<open>The checksum test of the decoder: the words are the ones of the decoded data.\<close>

lemma checksum_iff:
  assumes "length idx = 3 * m" "0 < m" "m \<le> 8" "\<forall>x\<in>set idx. x < 2048"
  defines "buf \<equiv> phrase_bytes idx"
  shows "drop_bit (8 - m) (last buf) = drop_bit (8 - m) (BRSHA256 (take (4 * m) buf) ! 0) \<longleftrightarrow>
    idx = word_numbers (take (4 * m) buf)"
proof -
  define data where "data = take (4 * m) buf"
  have "(33 * m + 7) div 8 = 4 * m + 1" using assms(2,3) by linarith
  then have len: "length buf = 4 * m + 1" by (simp add: buf_def phrase_bytes_def assms(1))
  then have ld: "length data = 4 * m" by (simp add: data_def)
  have wn: "length (word_numbers data) = 3 * m" "\<forall>x\<in>set (word_numbers data). x < 2048"
    using ld by (auto simp: word_numbers_def word_number_less)
  have bits: "byte_bit buf (32 * m + q) = bit (last buf) (7 - q)"
      "byte_bit (data @ BRSHA256 data) (32 * m + q) = bit (BRSHA256 data ! 0) (7 - q)" if "q < m" for q
  proof -
    have "(32 * m + q) div 8 = 4 * m" "(32 * m + q) mod 8 = q" 
      using that assms(3) digit_div_mod [of q 8 "4 * m"] by simp_all
    moreover have "last buf = buf ! (4 * m)" using len last_conv_nth [of buf] by (cases "buf = []") auto
    ultimately show "byte_bit buf (32 * m + q) = bit (last buf) (7 - q)"
      "byte_bit (data @ BRSHA256 data) (32 * m + q) = bit (BRSHA256 data ! 0) (7 - q)"
      using ld by (simp_all add: byte_bit_def nth_append)
  qed
  have low: "byte_bit buf p = byte_bit (data @ BRSHA256 data) p" if "p < 32 * m" for p
  proof -
    have "p div 8 < 4 * m" using that by linarith
    then show ?thesis using ld by (simp add: byte_bit_def nth_append data_def)
  qed
  have "drop_bit (8 - m) (last buf) = drop_bit (8 - m) (BRSHA256 data ! 0) \<longleftrightarrow>
      (\<forall>q<m. byte_bit buf (32 * m + q) = byte_bit (data @ BRSHA256 data) (32 * m + q))"
    using checksum_bits [OF assms(3)] bits by simp
  also have "\<dots> \<longleftrightarrow> (\<forall>p<33 * m. byte_bit buf p = byte_bit (data @ BRSHA256 data) p)"
  proof
    assume h: "\<forall>q<m. byte_bit buf (32 * m + q) = byte_bit (data @ BRSHA256 data) (32 * m + q)"
    have "byte_bit buf p = byte_bit (data @ BRSHA256 data) p" if p: "p < 33 * m" for p
      using low [of p] h [rule_format, of "p - 32 * m"] p by (cases "p < 32 * m") simp_all
    then show "\<forall>p<33 * m. byte_bit buf p = byte_bit (data @ BRSHA256 data) p" by simp
  qed simp
  also have "\<dots> \<longleftrightarrow> (\<forall>p<33 * m. index_bit idx p = index_bit (word_numbers data) p)"
    using phrase_bytes_bit [OF assms(1,4)] word_numbers_bit [OF ld assms(3)] by (simp add: buf_def)
  also have "\<dots> \<longleftrightarrow> idx = word_numbers data"
    using indices_eq_bits [of idx "word_numbers data"] assms(1,4) wn by auto
  finally show ?thesis by (simp add: data_def)
qed

lemma decode_complete:
  assumes "phrase_words wl 24 (Some p) = (idx, r)" "r = None \<or> r = Some []"
    and "length idx = 3 * m" "m \<le> 8" "\<forall>x\<in>set idx. x < 2048"
  shows "BRBIP39Decode wl p d = (let
      buf = phrase_bytes idx;
      n = (if idx = word_numbers (take (4 * m) buf) then 4 * m else 0)
    in case d of None \<Rightarrow> (None, n)
       | Some d \<Rightarrow> if n \<le> length d then (Some (poke 0 (take n buf) d), n) else (Some d, 0))"
proof (cases "m = 0")
  case True
  then show ?thesis using assms by (auto simp: BRBIP39Decode_def phrase_bytes_def word_numbers_def split: option.splits)
next
  case False
  then have "phrase_bytes idx \<noteq> []" using assms(3) by (simp add: phrase_bytes_def)
  moreover have "length idx * 4 div 3 = 4 * m" "length idx mod 3 = 0" "length idx div 3 = m"
    using assms(3) by simp_all
  ultimately show ?thesis
    using assms(1,2) checksum_iff [OF assms(3) _ assms(4,5)] False
    unfolding BRBIP39Decode_def Let_def phrase_bytes_def [symmetric]
    by (cases d) simp_all
qed

text \<open>The phrase that \<open>BRBIP39Encode\<close> writes.\<close>

lemma encode_writes:
  assumes "mnemonic_data data" "length (mnemonic wl (word_numbers data)) < length b"
  shows "BRBIP39Encode wl data (Some b) =
      Some (Some (mnemonic wl (word_numbers data) @
        replicate (length b - length (mnemonic wl (word_numbers data))) 0),
        length (mnemonic wl (word_numbers data)) + 1)"
    "BRBIP39Encode wl data None = Some (None, length (mnemonic wl (word_numbers data)) + 1)"
proof -
  obtain m where m: "length data = 4 * m" "0 < m" "m \<le> 8" using assms(1) by (rule mnemonic_dataE)
  have "data \<noteq> []" using m by auto
  then show "BRBIP39Encode wl data (Some b) =
      Some (Some (mnemonic wl (word_numbers data) @
        replicate (length b - length (mnemonic wl (word_numbers data))) 0),
        length (mnemonic wl (word_numbers data)) + 1)"
    "BRBIP39Encode wl data None = Some (None, length (mnemonic wl (word_numbers data)) + 1)"
    using assms(2) m encode_words [of wl "data @ BRSHA256 data" "3 * m"]
    by (simp_all add: BRBIP39Encode_def word_numbers_def)
qed

text \<open>
  A concrete word list: word \<open>i\<close> is written with eleven letters, one for each bit of \<open>i\<close>.
\<close>

definition bit_word :: "nat \<Rightarrow> bytes" where
  "bit_word i = map (\<lambda>j. if bit i j then 0x62 else 0x61) [0..<11]"

definition bit_words :: "bytes list" where
  "bit_words = map bit_word [0..<2048]"

lemma bit_words_ok: "wordlist_ok bit_words"
proof -
  have "inj_on bit_word {0..<2048}"
  proof (rule inj_onI)
    fix x y assume h: "x \<in> {0..<2048}" "y \<in> {0..<2048}" "bit_word x = bit_word y"
    show "x = y"
    proof (rule bit_eqI)
      fix n
      have "n < 11 \<Longrightarrow> bit x n = bit y n"
        using arg_cong [OF h(3), of "\<lambda>w. w ! n"] by (auto simp: bit_word_def split: if_splits)
      then show "bit x n = bit y n" using h(1,2) bit_less_2048 by (metis atLeastLessThan_iff)
    qed
  qed
  then have "distinct bit_words" by (simp add: bit_words_def distinct_map)
  moreover have "\<forall>w\<in>set bit_words. w \<noteq> [] \<and> 0 \<notin> set w \<and> 0x20 \<notin> set w"
    by (auto simp: bit_words_def bit_word_def)
  ultimately show ?thesis by (simp add: wordlist_ok_def bit_words_def BIP39_WORDLIST_COUNT_def)
qed

section \<open>Properties\<close>

lemma word_numbers_ok:
  assumes "mnemonic_data data"
  obtains m where "length data = 4 * m" "0 < m" "m \<le> 8" "length (word_numbers data) = 3 * m"
    "\<forall>x\<in>set (word_numbers data). x < 2048" "word_numbers data \<noteq> []"
proof (rule mnemonic_dataE [OF assms])
  fix m assume m: "length data = 4 * m" "0 < m" "m \<le> 8"
  then have l: "length (word_numbers data) = 3 * m" by (simp add: word_numbers_def)
  moreover have "\<forall>x\<in>set (word_numbers data). x < 2048" by (auto simp: word_numbers_def word_number_less)
  moreover have "word_numbers data \<noteq> []" using l m by auto
  ultimately show thesis using m that by blast
qed

lemma mnemonic_no_nul:
  assumes "wordlist_ok wl" "\<forall>x\<in>set idx. x < 2048"
  shows "0 \<notin> set (mnemonic wl idx)"
  using assms(2)
proof (induction idx)
  case (Cons i js)
  then have "0 \<notin> set (wl ! i)" using assms(1) by (auto simp: wordlist_ok_def BIP39_WORDLIST_COUNT_def)
  then show ?case using Cons by (auto simp: mnemonic_Cons)
qed (simp add: mnemonic_def)

lemma decode_mnemonic:
  assumes "wordlist_ok wl" "mnemonic_data data"
  shows "BRBIP39Decode wl (mnemonic wl (word_numbers data) @ (if sp then [0x20] else [])) d =
    (case d of None \<Rightarrow> (None, length data)
     | Some d \<Rightarrow> if length data \<le> length d then (Some (data @ drop (length data) d), length data) else (Some d, 0))"
proof -
  obtain m where m: "length data = 4 * m" "0 < m" "m \<le> 8" "length (word_numbers data) = 3 * m"
    "\<forall>x\<in>set (word_numbers data). x < 2048" "word_numbers data \<noteq> []"
    using assms(2) by (rule word_numbers_ok)
  have "phrase_words wl 24 (Some (mnemonic wl (word_numbers data) @ (if sp then [0x20] else []))) =
      (word_numbers data, if sp then Some [] else None)"
    using assms(1) m by (intro phrase_words_mnemonic) auto
  moreover have "take (4 * m) (phrase_bytes (word_numbers data)) = data"
    using phrase_bytes_inverse [OF assms(2)] m(1) by simp
  ultimately show ?thesis
    using decode_complete [OF _ _ m(4,3,5)] m(1) by (cases d) (auto simp: Let_def)
qed

lemma cstr_mnemonic:
  assumes "wordlist_ok wl" "mnemonic_data data" "0 < k"
  shows "cstr (mnemonic wl (word_numbers data) @ replicate k 0) = mnemonic wl (word_numbers data)"
proof -
  obtain j where "k = Suc j" using assms(3) by (cases k) auto
  moreover have "0 \<notin> set (mnemonic wl (word_numbers data))"
    using mnemonic_no_nul [OF assms(1)] word_numbers_ok [OF assms(2)] by metis
  ultimately show ?thesis by simp
qed

text \<open>
  C18: the phrase that \<open>BRBIP39Encode\<close> writes, into a buffer of the size it announced or a longer
  one, is decoded to the same data by \<open>BRBIP39Decode\<close>: for data of up to 32 bytes and any word
  list of 2048 different words without spaces.
\<close>

theorem mnemonic_round_trip:
  assumes "wordlist_ok wl" "mnemonic_data data" "BRBIP39Encode wl data None = Some (None, n)"
    and "n \<le> length b" "length data \<le> length d"
  shows "\<exists>b'. BRBIP39Encode wl data (Some b) = Some (Some b', n) \<and>
    BRBIP39Decode wl (cstr b') (Some d) = (Some (data @ drop (length data) d), length data)"
proof -
  let ?p = "mnemonic wl (word_numbers data)"
  have n: "n = length ?p + 1"
    using encode_writes(2) [OF assms(2), of wl "replicate (length ?p + 1) 0"] assms(3) by simp
  have "BRBIP39Encode wl data (Some b) = Some (Some (?p @ replicate (length b - length ?p) 0), n)"
    using encode_writes(1) [OF assms(2), of wl b] assms(4) n by simp
  moreover have "cstr (?p @ replicate (length b - length ?p) 0) = ?p"
    using cstr_mnemonic [OF assms(1,2)] assms(4) n by simp
  ultimately show ?thesis
    using decode_mnemonic [OF assms(1,2), of False "Some d"] assms(5) by simp
qed

theorem mnemonic_round_trip_witness:
  "\<exists>b'. BRBIP39Encode bit_words (replicate 16 7) (Some (replicate 144 1)) = Some (Some b', 144) \<and>
    BRBIP39Decode bit_words (cstr b') (Some (replicate 17 2)) = (Some (replicate 16 7 @ [2]), 16)"
proof -
  have d: "mnemonic_data (replicate 16 7)" by (simp add: mnemonic_data_def)
  have "length (mnemonic bit_words idx) = 12 * length idx - 1" if "\<forall>i\<in>set idx. i < 2048" for idx
    using that
  proof (induction idx)
    case (Cons i js)
    then have "length (bit_words ! i) = 11" by (simp add: bit_words_def bit_word_def)
    then show ?case using Cons by (cases js) (simp_all add: mnemonic_Cons)
  qed (simp add: mnemonic_def)
  then have "length (mnemonic bit_words (word_numbers (replicate 16 7))) = 143"
    using word_number_less by (auto simp: word_numbers_def)
  then have "BRBIP39Encode bit_words (replicate 16 7) None = Some (None, 144)"
    using encode_writes(2) [OF d, of bit_words "replicate 144 0"] by simp
  from mnemonic_round_trip [OF bit_words_ok d this, of "replicate 144 1" "replicate 17 2"]
  show ?thesis by simp
qed

text \<open>
  C19: \<open>BRBIP39PhraseIsValid\<close> accepts exactly the phrases that \<open>BRBIP39Encode\<close> writes for 4 to 32
  bytes of data, and these with one space after them: a wrong word, a wrong checksum, a wrong
  number of words or another separator is refused.
\<close>

theorem mnemonic_valid_iff:
  assumes "wordlist_ok wl"
  shows "BRBIP39PhraseIsValid wl p \<longleftrightarrow>
    (\<exists>data b n. mnemonic_data data \<and> BRBIP39Encode wl data None = Some (None, n) \<and>
       BRBIP39Encode wl data (Some (replicate n 0)) = Some (Some b, n) \<and>
       (p = cstr b \<or> p = cstr b @ [0x20]))"
proof
  assume v: "BRBIP39PhraseIsValid wl p"
  obtain idx r where w: "phrase_words wl 24 (Some p) = (idx, r)" by fastforce
  have r: "r = None \<or> r = Some []" "length idx mod 3 = 0"
    using v w unfolding BRBIP39PhraseIsValid_def BRBIP39Decode_def Let_def by (auto split: if_splits)
  then obtain m where m: "length idx = 3 * m" by auto
  have i: "\<forall>i\<in>set idx. i < 2048" "length idx \<le> 24" "p = mnemonic wl idx \<or> p = mnemonic wl idx @ [0x20]"
    using phrase_words_complete [OF assms w r(1)] by auto
  define data where "data = take (4 * m) (phrase_bytes idx)"
  have "snd (BRBIP39Decode wl p None) = (if idx = word_numbers data then 4 * m else 0)"
    using decode_complete [OF w r(1) m _ i(1), of None] i(2) m by (simp add: Let_def data_def)
  then have idx: "idx = word_numbers data" "0 < m"
    using v by (simp_all add: BRBIP39PhraseIsValid_def split: if_splits)
  have "length data = 4 * m" using m by (simp add: data_def phrase_bytes_def)
  then have d: "mnemonic_data data" using idx(2) i(2) m by (simp add: mnemonic_data_def)
  show "\<exists>data b n. mnemonic_data data \<and> BRBIP39Encode wl data None = Some (None, n) \<and>
       BRBIP39Encode wl data (Some (replicate n 0)) = Some (Some b, n) \<and>
       (p = cstr b \<or> p = cstr b @ [0x20])"
    using encode_writes [OF d, of wl "replicate (length (mnemonic wl idx) + 1) 0"]
      cstr_mnemonic [OF assms d, of 1] i(3) d idx(1) by - (rule exI [of _ data], auto)
next
  assume "\<exists>data b n. mnemonic_data data \<and> BRBIP39Encode wl data None = Some (None, n) \<and>
       BRBIP39Encode wl data (Some (replicate n 0)) = Some (Some b, n) \<and>
       (p = cstr b \<or> p = cstr b @ [0x20])"
  then obtain data b n where d: "mnemonic_data data" and n: "BRBIP39Encode wl data None = Some (None, n)" and
    e: "BRBIP39Encode wl data (Some (replicate n 0)) = Some (Some b, n)" and p: "p = cstr b \<or> p = cstr b @ [0x20]"
    by blast
  have "n = length (mnemonic wl (word_numbers data)) + 1"
    using encode_writes(2) [OF d, of wl "replicate (length (mnemonic wl (word_numbers data)) + 1) 0"] n by simp
  then have "cstr b = mnemonic wl (word_numbers data)"
    using encode_writes(1) [OF d, of wl "replicate n 0"] e cstr_mnemonic [OF assms d, of 1] by simp
  then show "BRBIP39PhraseIsValid wl p"
    using p decode_mnemonic [OF assms d, of False None] decode_mnemonic [OF assms d, of True None] d
    by (auto simp: BRBIP39PhraseIsValid_def mnemonic_data_def)
qed

theorem mnemonic_valid_iff_witness:
  "wordlist_ok bit_words \<and> (BRBIP39PhraseIsValid bit_words [0x20] \<longleftrightarrow>
    (\<exists>data b n. mnemonic_data data \<and> BRBIP39Encode bit_words data None = Some (None, n) \<and>
       BRBIP39Encode bit_words data (Some (replicate n 0)) = Some (Some b, n) \<and>
       ([0x20] = cstr b \<or> [0x20] = cstr b @ [0x20])))"
  using mnemonic_valid_iff [OF bit_words_ok] bit_words_ok by blast

end
