(* ===== verification/BRTransaction.thy ===== *)
theory BRTransaction
  imports Reader BRSet "HOL-Library.Multiset"
begin

text \<open>
  \<open>src/Modules/core/BRTransaction.c\<close>: transactions, their serialization and the data that is signed.

  An allocated byte array with its length is a list, a null one is \<open>None\<close>; the \<open>char[36]\<close> address is
  the string in it. The members \<open>message\<close> and \<open>messageLen\<close> of an input are never read and are left
  out, but the pointer \<open>signature\<close> has a third state: \<open>BRTransactionAddInput\<close> initialises the struct
  by position with a list that was not extended for these two members, so the number \<open>sequence\<close>
  ends up in the pointer. The index \<open>SIZE_MAX\<close> is \<open>None\<close>. A result \<open>None\<close> of an operation other than
  the signature ones stands for undefined behaviour: a read outside the buffer, a copy of a length
  beyond the buffer, or \<open>free\<close> of a pointer that was not allocated.
\<close>

datatype signature = SigNull | SigAlloc bytes | SigStray u32

record BRTxInput =
  in_txHash :: UInt256
  in_index :: u32
  in_address :: bytes
  in_amount :: u64
  in_script :: buffer
  in_signature :: signature
  in_sequence :: u32

record BRTxOutput =
  out_address :: bytes
  out_amount :: u64
  out_script :: buffer

record BRTransaction =
  txHash :: UInt256
  tx_version :: u32
  inputs :: "BRTxInput list"
  outputs :: "BRTxOutput list"
  lockTime :: u32
  blockHeight :: u32
  tx_timestamp :: u32

definition TX_UNCONFIRMED :: u32 where "TX_UNCONFIRMED = 0x7fffffff"
definition TX_FEE_PER_KB :: u64 where "TX_FEE_PER_KB = 10000"
definition TX_MAX_SIZE :: nat where "TX_MAX_SIZE = 100000"
definition TX_INPUT_SIZE :: nat where "TX_INPUT_SIZE = 148"
definition TX_OUTPUT_SIZE :: nat where "TX_OUTPUT_SIZE = 34"
definition TX_MIN_OUTPUT_AMOUNT :: u64 where
  "TX_MIN_OUTPUT_AMOUNT = TX_FEE_PER_KB * 3 * (34 + 148) div 1000"

text \<open>The signature bytes; the stray pointer has the length 0.\<close>

primrec sig_bytes :: "signature \<Rightarrow> bytes" where
  "sig_bytes SigNull = []"
| "sig_bytes (SigAlloc b) = b"
| "sig_bytes (SigStray _) = []"

definition script_bytes :: "buffer \<Rightarrow> bytes" where
  "script_bytes s = (case s of None \<Rightarrow> [] | Some b \<Rightarrow> b)"

section \<open>Random numbers\<close>

text \<open>
  \<open>BRRand\<close> draws from the values that \<open>rand()\<close> will give, \<open>None\<close> when it does not end on them; the
  seeding is left out. \<open>BR_RAND_MAX\<close> is \<open>0x7fffffff\<close>.
\<close>

fun rand_loop :: "u32 \<Rightarrow> u32 list \<Rightarrow> (u32 \<times> u32 list) option" where
  "rand_loop upperBound [] = None"
| "rand_loop upperBound (r # rs) =
     (if r < ((0xffffffff - upperBound * 2) + 1) mod upperBound then rand_loop upperBound rs
      else Some (r mod upperBound, rs))"

definition BRRand :: "u32 \<Rightarrow> u32 list \<Rightarrow> (u32 \<times> u32 list) option" where
  "BRRand upperBound rs =
     (let u = (if upperBound = 0 \<or> upperBound > 0x7fffffff then 0x7fffffff else upperBound)
      in rand_loop u rs)"

section \<open>Inputs and outputs\<close>

text \<open>The 36 characters of an address member after a call that writes to it.\<close>

definition address_of :: "(buffer \<Rightarrow> buffer \<times> nat) \<Rightarrow> bytes" where
  "address_of f = cstr (script_bytes (fst (f (Some (replicate 36 0)))))"

text \<open>The script allocated for an address, with the two calls of \<open>BRAddressScriptPubKey\<close>.\<close>

definition script_for :: "bool \<Rightarrow> bytes \<Rightarrow> bytes" where
  "script_for testnet address =
     script_bytes (fst (BRAddressScriptPubKey testnet address
       (Some (replicate (snd (BRAddressScriptPubKey testnet address None)) 0))))"

definition BRTxInputSetAddress :: "bool \<Rightarrow> bytes option \<Rightarrow> BRTxInput \<Rightarrow> BRTxInput" where
  "BRTxInputSetAddress testnet address inp =
     (case address of
        None \<Rightarrow> inp\<lparr>in_script := None, in_address := []\<rparr>
      | Some a \<Rightarrow> inp\<lparr>in_script := Some (script_for testnet a), in_address := take 35 a\<rparr>)"

definition BRTxInputSetScript :: "bool \<Rightarrow> buffer \<Rightarrow> BRTxInput \<Rightarrow> BRTxInput" where
  "BRTxInputSetScript testnet script inp =
     (case script of
        None \<Rightarrow> inp\<lparr>in_script := None, in_address := []\<rparr>
      | Some s \<Rightarrow> inp\<lparr>in_script := Some s,
                     in_address := address_of (BRAddressFromScriptPubKey testnet s)\<rparr>)"

definition BRTxInputSetSignature :: "bool \<Rightarrow> buffer \<Rightarrow> BRTxInput \<Rightarrow> BRTxInput option" where
  "BRTxInputSetSignature testnet sig inp =
     (case in_signature inp of
        SigStray _ \<Rightarrow> None
      | _ \<Rightarrow> Some (case sig of
          None \<Rightarrow> inp\<lparr>in_signature := SigNull\<rparr>
        | Some s \<Rightarrow>
            inp\<lparr>in_signature := SigAlloc s,
                in_address := (if in_address inp = [] then address_of (BRAddressFromScriptSig testnet s)
                               else in_address inp)\<rparr>))"

definition BRTxInputData :: "BRTxInput \<Rightarrow> bytes \<Rightarrow> buffer \<Rightarrow> buffer \<times> nat" where
  "BRTxInputData inp sig data =
     serial_result (emit (UInt32SetLE (in_sequence inp))
       ((if in_amount inp \<noteq> 0 then emit (UInt64SetLE (in_amount inp)) else (\<lambda>s. s))
       (emit sig
       (at_off (BRVarIntSet (of_nat (length sig)))
       (emit (UInt32SetLE (in_index inp))
       (emit (UInt256Set (in_txHash inp)) (data, 0)))))))"

definition BRTxOutputSetAddress :: "bool \<Rightarrow> bytes option \<Rightarrow> BRTxOutput \<Rightarrow> BRTxOutput" where
  "BRTxOutputSetAddress testnet address out =
     (case address of
        None \<Rightarrow> out\<lparr>out_script := None, out_address := []\<rparr>
      | Some a \<Rightarrow> out\<lparr>out_script := Some (script_for testnet a), out_address := take 35 a\<rparr>)"

definition BRTxOutputSetScript :: "bool \<Rightarrow> buffer \<Rightarrow> BRTxOutput \<Rightarrow> BRTxOutput" where
  "BRTxOutputSetScript testnet script out =
     (case script of
        None \<Rightarrow> out\<lparr>out_script := None, out_address := []\<rparr>
      | Some s \<Rightarrow> out\<lparr>out_script := Some s,
                     out_address := address_of (BRAddressFromScriptPubKey testnet s)\<rparr>)"

section \<open>Serialization\<close>

definition output_step :: "buffer \<times> nat \<Rightarrow> BRTxOutput \<Rightarrow> buffer \<times> nat" where
  "output_step s out =
     emit (script_bytes (out_script out))
       (at_off (BRVarIntSet (of_nat (length (script_bytes (out_script out)))))
         (emit (UInt64SetLE (out_amount out)) s))"

definition BRTransactionOutputData :: "BRTransaction \<Rightarrow> nat option \<Rightarrow> buffer \<Rightarrow> buffer \<times> nat" where
  "BRTransactionOutputData tx index data =
     (let outs = (case index of
          None \<Rightarrow> outputs tx
        | Some i \<Rightarrow> if i < length (outputs tx) then [outputs tx ! i] else [])
      in serial_result (foldl output_step (data, 0) outs))"

definition SIGHASH_ALL :: u32 where "SIGHASH_ALL = 1"
definition SIGHASH_NONE :: u32 where "SIGHASH_NONE = 2"
definition SIGHASH_SINGLE :: u32 where "SIGHASH_SINGLE = 3"
definition SIGHASH_FORKID :: u32 where "SIGHASH_FORKID = 0x40"
definition SIGHASH_ANYONECANPAY :: u32 where "SIGHASH_ANYONECANPAY = 0x80"

text \<open>The bytes \<open>_BRTransactionOutputData\<close> gives in two passes, as it is used for hashing.\<close>

definition output_bytes :: "BRTransaction \<Rightarrow> nat option \<Rightarrow> bytes" where
  "output_bytes tx index =
     (case BRTransactionOutputData tx index
        (Some (replicate (snd (BRTransactionOutputData tx index None)) 0)) of
        (b, n) \<Rightarrow> take n (script_bytes b))"

definition BRTransactionWitnessData :: "BRTransaction \<Rightarrow> nat option \<Rightarrow> u32 \<Rightarrow> buffer \<Rightarrow> buffer \<times> nat" where
  "BRTransactionWitnessData tx index hashType data =
     (case index of
        None \<Rightarrow> (data, 0)
      | Some i \<Rightarrow>
          if i \<ge> length (inputs tx) then (data, 0)
          else
            let anyoneCanPay = (hashType AND SIGHASH_ANYONECANPAY \<noteq> 0);
                sigHash = hashType AND 0x1f;
                prevouts = concat (map (\<lambda>inp. UInt256Set (in_txHash inp) @ UInt32SetLE (in_index inp)) (inputs tx));
                sequences = concat (map (\<lambda>inp. UInt32SetLE (in_sequence inp)) (inputs tx));
                inp = inputs tx ! i
            in serial_result (emit (UInt32SetLE hashType) (emit (UInt32SetLE (lockTime tx))
                 (emit (if sigHash \<noteq> SIGHASH_SINGLE \<and> sigHash \<noteq> SIGHASH_NONE
                        then BRSHA256_2 (output_bytes tx None)
                        else if sigHash = SIGHASH_SINGLE \<and> i < length (outputs tx)
                        then BRSHA256_2 (output_bytes tx (Some i))
                        else UInt256Set 0)
                 (at_off (BRTxInputData inp (script_bytes (in_script inp)))
                 (emit (if \<not> anyoneCanPay \<and> sigHash \<noteq> SIGHASH_SINGLE \<and> sigHash \<noteq> SIGHASH_NONE
                        then BRSHA256_2 sequences else UInt256Set 0)
                 (emit (if \<not> anyoneCanPay then BRSHA256_2 prevouts else UInt256Set 0)
                 (emit (UInt32SetLE (tx_version tx)) (data, 0)))))))))"

text \<open>The copy \<open>input\<close> of input \<open>i\<close> with its changed members, and the bytes written as its scriptSig.\<close>

definition data_input :: "BRTransaction \<Rightarrow> nat option \<Rightarrow> u32 \<Rightarrow> nat \<Rightarrow> BRTxInput \<times> bytes" where
  "data_input tx index sigHash i =
     (let inp = inputs tx ! i in
      if index = Some i \<or> (index = None \<and> in_signature inp = SigNull) then
        (if index = Some i then inp\<lparr>in_amount := 0\<rparr> else inp, script_bytes (in_script inp))
      else if index \<noteq> None then
        (inp\<lparr>in_amount := 0,
             in_sequence := (if sigHash = SIGHASH_NONE \<or> sigHash = SIGHASH_SINGLE then 0 else in_sequence inp)\<rparr>, [])
      else (inp\<lparr>in_amount := 0\<rparr>, sig_bytes (in_signature inp)))"

definition BRTransactionData :: "BRTransaction \<Rightarrow> nat option \<Rightarrow> u32 \<Rightarrow> buffer \<Rightarrow> buffer \<times> nat" where
  "BRTransactionData tx index hashType data =
     (let anyoneCanPay = (hashType AND SIGHASH_ANYONECANPAY \<noteq> 0);
          sigHash = hashType AND 0x1f;
          inCount = length (inputs tx);
          outCount = length (outputs tx)
      in
      if hashType AND SIGHASH_FORKID \<noteq> 0 then BRTransactionWitnessData tx index hashType data
      else if anyoneCanPay \<and> (case index of None \<Rightarrow> True | Some i \<Rightarrow> i \<ge> inCount) then (data, 0)
      else
        let s1 = emit (UInt32SetLE (tx_version tx)) (data, 0);
            s2 = (if \<not> anyoneCanPay then
                    foldl (\<lambda>s i. case data_input tx index sigHash i of
                        (inp, sig) \<Rightarrow> at_off (BRTxInputData inp sig) s)
                      (at_off (BRVarIntSet (of_nat inCount)) s1) [0..<inCount]
                  else
                    let inp = inputs tx ! the index
                    in at_off (BRTxInputData (inp\<lparr>in_amount := 0\<rparr>) (script_bytes (in_script inp)))
                         (at_off (BRVarIntSet 1) s1));
            s3 = (if sigHash \<noteq> SIGHASH_SINGLE \<and> sigHash \<noteq> SIGHASH_NONE then
                    at_off (BRTransactionOutputData tx None) (at_off (BRVarIntSet (of_nat outCount)) s2)
                  else if sigHash = SIGHASH_SINGLE \<and> (case index of None \<Rightarrow> False | Some i \<Rightarrow> i < outCount) then
                    at_off (BRTransactionOutputData tx index)
                      (foldl (\<lambda>s i. at_off (BRVarIntSet 0) (emit (UInt64SetLE (- 1)) s))
                        (at_off (BRVarIntSet (of_nat (the index) + 1)) s2) [0..<the index])
                  else at_off (BRVarIntSet 0) s2);
            s4 = emit (UInt32SetLE (lockTime tx)) s3;
            s5 = (if index \<noteq> None then emit (UInt32SetLE hashType) s4 else s4)
        in serial_result s5)"

definition BRTransactionSerialize :: "BRTransaction \<Rightarrow> buffer \<Rightarrow> buffer \<times> nat" where
  "BRTransactionSerialize tx buf = BRTransactionData tx None SIGHASH_ALL buf"

section \<open>Construction\<close>

definition BRTransactionNew :: BRTransaction where
  "BRTransactionNew = \<lparr>txHash = 0, tx_version = 1, inputs = [], outputs = [], lockTime = 0,
     blockHeight = TX_UNCONFIRMED, tx_timestamp = 0\<rparr>"

text \<open>
  The initialiser \<open>{ txHash, index, "", amount, NULL, 0, NULL, 0, sequence }\<close> fills the members in
  the order of the declaration: the last three are \<open>message\<close>, \<open>messageLen\<close> and \<open>signature\<close>.
\<close>

definition new_input :: "UInt256 \<Rightarrow> u32 \<Rightarrow> u64 \<Rightarrow> u32 \<Rightarrow> BRTxInput" where
  "new_input hash index amount sequence =
     \<lparr>in_txHash = hash, in_index = index, in_address = [], in_amount = amount, in_script = None,
      in_signature = (if sequence = 0 then SigNull else SigStray sequence), in_sequence = 0\<rparr>"

text \<open>The hash of the spent transaction is not zero, or an assertion fails.\<close>

definition BRTransactionAddInput ::
  "bool \<Rightarrow> BRTransaction \<Rightarrow> UInt256 \<Rightarrow> u32 \<Rightarrow> u64 \<Rightarrow> buffer \<Rightarrow> buffer \<Rightarrow> u32 \<Rightarrow> BRTransaction option" where
  "BRTransactionAddInput testnet tx hash index amount script sig sequence = (if hash = 0 then None else do {
     let inp0 = new_input hash index amount sequence;
     let inp1 = (if script \<noteq> None then BRTxInputSetScript testnet script inp0 else inp0);
     inp2 \<leftarrow> (if sig \<noteq> None then BRTxInputSetSignature testnet sig inp1 else Some inp1);
     Some (tx\<lparr>inputs := inputs tx @ [inp2]\<rparr>) })"

definition BRTransactionAddOutput :: "bool \<Rightarrow> BRTransaction \<Rightarrow> u64 \<Rightarrow> buffer \<Rightarrow> BRTransaction" where
  "BRTransactionAddOutput testnet tx amount script =
     tx\<lparr>outputs := outputs tx @
       [BRTxOutputSetScript testnet script \<lparr>out_address = [], out_amount = amount, out_script = None\<rparr>]\<rparr>"

text \<open>The pointer passed on for a signature; a stray one has the length 0.\<close>

definition sig_arg :: "signature \<Rightarrow> buffer" where
  "sig_arg s = (case s of SigNull \<Rightarrow> None | SigAlloc b \<Rightarrow> Some b | SigStray _ \<Rightarrow> Some [])"

definition BRTransactionCopy :: "bool \<Rightarrow> BRTransaction \<Rightarrow> BRTransaction option" where
  "BRTransactionCopy testnet tx = do {
     cpy \<leftarrow> foldl (\<lambda>acc inp. do {
         c \<leftarrow> acc;
         BRTransactionAddInput testnet c (in_txHash inp) (in_index inp) (in_amount inp) (in_script inp)
           (sig_arg (in_signature inp)) (in_sequence inp) })
       (Some (tx\<lparr>inputs := [], outputs := []\<rparr>)) (inputs tx);
     Some (foldl (\<lambda>c out. BRTransactionAddOutput testnet c (out_amount out) (out_script out)) cpy (outputs tx)) }"

section \<open>Parsing\<close>

definition zero_input :: BRTxInput where
  "zero_input = \<lparr>in_txHash = 0, in_index = 0, in_address = [], in_amount = 0, in_script = None,
     in_signature = SigNull, in_sequence = 0\<rparr>"

definition zero_output :: BRTxOutput where
  "zero_output = \<lparr>out_address = [], out_amount = 0, out_script = None\<rparr>"

definition parse_input :: "bool \<Rightarrow> bytes \<Rightarrow> u64 \<Rightarrow> (BRTxInput \<times> bool \<times> u64) option" where
  "parse_input testnet buf off = do {
     hash \<leftarrow> guarded buf off 32 UInt256Get 0;
     let off = off + 32;
     index \<leftarrow> guarded buf off 4 UInt32GetLE 0;
     let off = off + 4;
     let (sLen, len) = varint_at buf off;
     let off = off + len;
     let inp = zero_input\<lparr>in_txHash := hash, in_index := index\<rparr>;
     let fits = (off + sLen \<le> of_nat (length buf));
     let known = (fits \<and> unat sLen \<le> MAX_SCRIPT_LENGTH \<and>
       (case slice buf off sLen of None \<Rightarrow> False | Some s \<Rightarrow> snd (BRAddressFromScriptPubKey testnet s None) > 0));
     (inp, off) \<leftarrow>
       (if known then do {
          s \<leftarrow> slice buf off sLen;
          amount \<leftarrow> guarded buf (off + sLen) 8 UInt64GetLE 0;
          Some ((BRTxInputSetScript testnet (Some s) inp)\<lparr>in_amount := amount\<rparr>, off + 8) }
        else if fits then do {
          s \<leftarrow> slice buf off sLen;
          inp \<leftarrow> BRTxInputSetSignature testnet (Some s) inp;
          Some (inp, off) }
        else Some (inp, off));
     let off = off + sLen;
     sequence \<leftarrow> guarded buf off 4 UInt32GetLE 0;
     Some (inp\<lparr>in_sequence := sequence\<rparr>, \<not> known, off + 4) }"

text \<open>The input loop; entries it does not reach stay zero.\<close>

fun parse_inputs :: "bool \<Rightarrow> bytes \<Rightarrow> nat \<Rightarrow> u64 \<Rightarrow> (BRTxInput list \<times> bool \<times> u64) option" where
  "parse_inputs testnet buf 0 off = Some ([], True, off)"
| "parse_inputs testnet buf (Suc n) off =
     (if off \<le> of_nat (length buf) then do {
        (inp, signed, off') \<leftarrow> parse_input testnet buf off;
        (inps, signed', off'') \<leftarrow> parse_inputs testnet buf n off';
        Some (inp # inps, signed \<and> signed', off'') }
      else Some (replicate (Suc n) zero_input, True, off))"

definition parse_output :: "bool \<Rightarrow> bytes \<Rightarrow> u64 \<Rightarrow> (BRTxOutput \<times> u64) option" where
  "parse_output testnet buf off = do {
     amount \<leftarrow> guarded buf off 8 UInt64GetLE 0;
     let off = off + 8;
     let (sLen, len) = varint_at buf off;
     let off = off + len;
     let out = zero_output\<lparr>out_amount := amount\<rparr>;
     out \<leftarrow> (if off + sLen \<le> of_nat (length buf) then do {
               s \<leftarrow> slice buf off sLen;
               Some (BRTxOutputSetScript testnet (Some s) out) }
             else Some out);
     Some (out, off + sLen) }"

fun parse_outputs :: "bool \<Rightarrow> bytes \<Rightarrow> nat \<Rightarrow> u64 \<Rightarrow> (BRTxOutput list \<times> u64) option" where
  "parse_outputs testnet buf 0 off = Some ([], off)"
| "parse_outputs testnet buf (Suc n) off =
     (if off \<le> of_nat (length buf) then do {
        (out, off') \<leftarrow> parse_output testnet buf off;
        (outs, off'') \<leftarrow> parse_outputs testnet buf n off';
        Some (out # outs, off'') }
      else Some (replicate (Suc n) zero_output, off))"

definition BRTransactionParse :: "bool \<Rightarrow> bytes \<Rightarrow> BRTransaction option option" where
  "BRTransactionParse testnet buf = do {
     version \<leftarrow> guarded buf 0 4 UInt32GetLE 0;
     let off = 4;
     let (inCount, len) = varint_at buf off;
     let off = off + len;
     (inps, isSigned, off) \<leftarrow> parse_inputs testnet buf (unat inCount) off;
     let (outCount, len) = varint_at buf off;
     let off = off + len;
     (outs, off) \<leftarrow> parse_outputs testnet buf (unat outCount) off;
     lock \<leftarrow> guarded buf off 4 UInt32GetLE 0;
     let off = off + 4;
     let tx = BRTransactionNew\<lparr>tx_version := version, inputs := inps, outputs := outs, lockTime := lock\<rparr>;
     if inCount = 0 \<or> off > of_nat (length buf) then Some None
     else if isSigned then Some (Some (tx\<lparr>txHash := UInt256Get (BRSHA256_2 (take (unat off) buf))\<rparr>))
     else Some (Some tx) }"

section \<open>Other operations\<close>

text \<open>Fisher-Yates with the numbers \<open>BRRand\<close> gives.\<close>

fun shuffle_loop :: "'a list \<Rightarrow> nat list \<Rightarrow> u32 list \<Rightarrow> ('a list \<times> u32 list) option" where
  "shuffle_loop xs [] rs = Some (xs, rs)"
| "shuffle_loop xs (i # is) rs = do {
     (r, rs') \<leftarrow> BRRand (of_nat (length xs) - of_nat i) rs;
     let j = unat (of_nat i + r);
     shuffle_loop (if j \<noteq> i then xs[i := xs ! j, j := xs ! i] else xs) is rs' }"

definition BRTransactionShuffleOutputs :: "BRTransaction \<Rightarrow> u32 list \<Rightarrow> (BRTransaction \<times> u32 list) option" where
  "BRTransactionShuffleOutputs tx rs = do {
     (outs, rs') \<leftarrow> shuffle_loop (outputs tx) [0..<length (outputs tx) - 1] rs;
     Some (tx\<lparr>outputs := outs\<rparr>, rs') }"

definition BRTransactionSize :: "BRTransaction \<Rightarrow> nat" where
  "BRTransactionSize tx =
     8 + BRVarIntSize (of_nat (length (inputs tx))) + BRVarIntSize (of_nat (length (outputs tx))) +
     sum_list (map (\<lambda>inp.
       if in_signature inp \<noteq> SigNull then
         let sigLen = length (sig_bytes (in_signature inp))
         in 32 + 4 + BRVarIntSize (of_nat sigLen) + sigLen + 4
       else TX_INPUT_SIZE) (inputs tx)) +
     sum_list (map (\<lambda>out.
       let scriptLen = length (script_bytes (out_script out))
       in 8 + BRVarIntSize (of_nat scriptLen) + scriptLen) (outputs tx))"

definition BRTransactionStandardFee :: "BRTransaction \<Rightarrow> u64" where
  "BRTransactionStandardFee tx = of_nat ((BRTransactionSize tx + 999) div 1000) * TX_FEE_PER_KB"

definition BRTransactionIsSigned :: "BRTransaction \<Rightarrow> bool" where
  "BRTransactionIsSigned tx = list_all (\<lambda>inp. in_signature inp \<noteq> SigNull) (inputs tx)"

definition BRTransactionHash :: "BRTransaction \<Rightarrow> nat" where
  "BRTransactionHash tx = unat (ucast (txHash tx) :: u32)"

definition BRTransactionEq :: "BRTransaction \<Rightarrow> BRTransaction \<Rightarrow> bool" where
  "BRTransactionEq tx otherTx \<longleftrightarrow> tx = otherTx \<or> txHash tx = txHash otherTx"

text \<open>The hash and equality of transactions satisfy what a \<open>BRSet\<close> of them asks.\<close>

interpretation tx_set: set_keys BRTransactionHash BRTransactionEq
  by unfold_locales (auto simp: BRTransactionEq_def BRTransactionHash_def)

section \<open>Signing\<close>

text \<open>
  The keys are abstract here: \<open>keyAddress\<close>, \<open>keyPubKey\<close> and \<open>keySign\<close> are what \<open>BRKeyAddress\<close> (the
  empty string when it fails), \<open>BRKeyPubKey\<close> and \<open>BRKeySign\<close> give.
\<close>

definition sign_data :: "BRTransaction \<Rightarrow> nat option \<Rightarrow> u32 \<Rightarrow> bytes" where
  "sign_data tx index hashType =
     (case BRTransactionData tx index hashType
        (Some (replicate (snd (BRTransactionData tx index hashType None)) 0)) of
        (b, n) \<Rightarrow> take n (script_bytes b))"

definition script_sig :: "bytes \<Rightarrow> bytes option \<Rightarrow> bytes" where
  "script_sig sig pubKey =
     (let pk = (case pubKey of None \<Rightarrow> [] | Some p \<Rightarrow> p);
          s1 = BRScriptPushData sig (Some (replicate (1 + 73 + 1 + length pk) 0));
          s2 = (case pubKey of None \<Rightarrow> s1 | Some p \<Rightarrow> at_off (BRScriptPushData p) s1)
      in take (snd s2) (script_bytes (fst s2)))"

definition sign_input ::
  "bool \<Rightarrow> ('k \<Rightarrow> bytes) \<Rightarrow> ('k \<Rightarrow> bytes) \<Rightarrow> ('k \<Rightarrow> UInt256 \<Rightarrow> bytes) \<Rightarrow> u32 \<Rightarrow> 'k list \<Rightarrow>
   BRTransaction \<Rightarrow> nat \<Rightarrow> BRTransaction option" where
  "sign_input testnet keyAddress keyPubKey keySign forkId keys tx i =
     (let inp = inputs tx ! i;
          script = script_bytes (in_script inp)
      in case BRAddressFromScriptPubKey testnet script (Some (replicate 36 0)) of
           (b, n) \<Rightarrow>
             if n = 0 then Some tx
             else case find (\<lambda>k. BRAddressEq (keyAddress k) (cstr (script_bytes b))) keys of
               None \<Rightarrow> Some tx
             | Some k \<Rightarrow> do {
                 let (elems, elemsCount) = BRScriptElements (Some (snd (BRScriptElements None script))) script;
                 let md = UInt256Get (BRSHA256_2 (sign_data tx (Some i) (forkId OR SIGHASH_ALL)));
                 let sig = keySign k md @ [ucast (forkId OR SIGHASH_ALL)];
                 let sc = (if elemsCount \<ge> 2 \<and> script ! (elems ! (elemsCount - 2)) = OP_EQUALVERIFY
                           then script_sig sig (Some (keyPubKey k)) else script_sig sig None);
                 inp' \<leftarrow> BRTxInputSetSignature testnet (Some sc) inp;
                 Some (tx\<lparr>inputs := (inputs tx)[i := inp']\<rparr>) })"

definition BRTransactionSign ::
  "bool \<Rightarrow> ('k \<Rightarrow> bytes) \<Rightarrow> ('k \<Rightarrow> bytes) \<Rightarrow> ('k \<Rightarrow> UInt256 \<Rightarrow> bytes) \<Rightarrow> BRTransaction \<Rightarrow> u32 \<Rightarrow> 'k list \<Rightarrow>
   (BRTransaction \<times> bool) option" where
  "BRTransactionSign testnet keyAddress keyPubKey keySign tx forkId keys = do {
     tx' \<leftarrow> foldl (\<lambda>acc i. do {
         t \<leftarrow> acc;
         sign_input testnet keyAddress keyPubKey keySign forkId keys t i })
       (Some tx) [0..<length (inputs tx)];
     if BRTransactionIsSigned tx'
     then Some (tx'\<lparr>txHash := UInt256Get (BRSHA256_2 (sign_data tx' None 0))\<rparr>, True)
     else Some (tx', False) }"

section \<open>The encoding of a transaction\<close>

definition input_enc :: "BRTxInput \<Rightarrow> bytes \<Rightarrow> bytes" where
  "input_enc inp sig = UInt256Set (in_txHash inp) @ UInt32SetLE (in_index inp) @
     varint_enc (of_nat (length sig)) @ sig @
     (if in_amount inp \<noteq> 0 then UInt64SetLE (in_amount inp) else []) @ UInt32SetLE (in_sequence inp)"

definition output_enc :: "BRTxOutput \<Rightarrow> bytes" where
  "output_enc out = UInt64SetLE (out_amount out) @
     varint_enc (of_nat (length (script_bytes (out_script out)))) @ script_bytes (out_script out)"

lemma serializes_input: "serializes (BRTxInputData inp sig) (input_enc inp sig)"
proof -
  let ?am = "if in_amount inp \<noteq> 0 then UInt64SetLE (in_amount inp) else []"
  have am: "appends (if in_amount inp \<noteq> 0 then emit (UInt64SetLE (in_amount inp)) else (\<lambda>s. s)) ?am"
    by (auto intro: appends_emit appends_id)
  have "appends (\<lambda>s. emit (UInt32SetLE (in_sequence inp))
       ((if in_amount inp \<noteq> 0 then emit (UInt64SetLE (in_amount inp)) else (\<lambda>s. s))
       (emit sig (at_off (BRVarIntSet (of_nat (length sig)))
       (emit (UInt32SetLE (in_index inp)) (emit (UInt256Set (in_txHash inp)) s))))))
     (((((UInt256Set (in_txHash inp) @ UInt32SetLE (in_index inp)) @ varint_enc (of_nat (length sig))) @
       sig) @ ?am) @ UInt32SetLE (in_sequence inp))"
    by (intro appends_comp am appends_emit appends_at_off serializes_varint)
  from serializes_run [OF this] show ?thesis
    unfolding BRTxInputData_def [abs_def] input_enc_def by simp
qed

lemma appends_output: "appends (\<lambda>s. output_step s out) (output_enc out)"
proof -
  have "appends (\<lambda>s. output_step s out) ((UInt64SetLE (out_amount out) @
      varint_enc (of_nat (length (script_bytes (out_script out))))) @ script_bytes (out_script out))"
    unfolding output_step_def by (intro appends_comp appends_emit appends_at_off serializes_varint)
  then show ?thesis by (simp add: output_enc_def)
qed

lemma serializes_outputs:
  "serializes (BRTransactionOutputData tx None) (concat (map output_enc (outputs tx)))"
  using serializes_run [OF appends_foldl [of "outputs tx" output_step output_enc, OF appends_output]]
  unfolding BRTransactionOutputData_def [abs_def] by simp

text \<open>The inputs as they are written for \<open>SIGHASH_ALL\<close>, for the whole transaction or one index.\<close>

definition inputs_enc :: "BRTransaction \<Rightarrow> nat option \<Rightarrow> u32 \<Rightarrow> bytes" where
  "inputs_enc tx index sigHash =
     concat (map (\<lambda>i. case data_input tx index sigHash i of (inp, sig) \<Rightarrow> input_enc inp sig) [0..<length (inputs tx)])"

definition tx_enc :: "BRTransaction \<Rightarrow> bytes" where
  "tx_enc tx = UInt32SetLE (tx_version tx) @ varint_enc (of_nat (length (inputs tx))) @ inputs_enc tx None SIGHASH_ALL @
     varint_enc (of_nat (length (outputs tx))) @ concat (map output_enc (outputs tx)) @ UInt32SetLE (lockTime tx)"

lemma appends_inputs:
  "appends (\<lambda>s. foldl (\<lambda>s i. case data_input tx index h i of (inp, sig) \<Rightarrow> at_off (BRTxInputData inp sig) s)
     s [0..<length (inputs tx)]) (inputs_enc tx index h)"
  unfolding inputs_enc_def
  by (rule appends_foldl) (auto intro: appends_at_off serializes_input split: prod.splits)

lemma serializes_data_all:
  assumes "hashType AND SIGHASH_FORKID = 0" "hashType AND SIGHASH_ANYONECANPAY = 0"
    "hashType AND 0x1f \<noteq> SIGHASH_SINGLE" "hashType AND 0x1f \<noteq> SIGHASH_NONE"
  shows "serializes (BRTransactionData tx index hashType)
    (UInt32SetLE (tx_version tx) @ varint_enc (of_nat (length (inputs tx))) @ inputs_enc tx index (hashType AND 0x1f) @
     varint_enc (of_nat (length (outputs tx))) @ concat (map output_enc (outputs tx)) @ UInt32SetLE (lockTime tx) @
     (if index \<noteq> None then UInt32SetLE hashType else []))"
proof -
  have tail: "appends (if index \<noteq> None then emit (UInt32SetLE hashType) else (\<lambda>s. s))
      (if index \<noteq> None then UInt32SetLE hashType else [])"
    by (auto intro: appends_emit appends_id)
  note s1 = appends_comp [OF appends_emit [of "UInt32SetLE (tx_version tx)"]
      appends_at_off [OF serializes_varint [of "of_nat (length (inputs tx))"]]]
  note s2 = appends_comp [OF s1 appends_inputs [of tx index "hashType AND 0x1f"]]
  note s3 = appends_comp [OF s2 appends_at_off [OF serializes_varint [of "of_nat (length (outputs tx))"]]]
  note s4 = appends_comp [OF s3 appends_at_off [OF serializes_outputs [of tx]]]
  note s5 = appends_comp [OF s4 appends_emit [of "UInt32SetLE (lockTime tx)"]]
  from serializes_run [OF appends_comp [OF s5 tail]] show ?thesis
    using assms unfolding BRTransactionData_def [abs_def]
    by (cases "index = None") (simp_all add: Let_def)
qed

lemma serializes_tx: "serializes (BRTransactionSerialize tx) (tx_enc tx)"
  using serializes_data_all [of SIGHASH_ALL tx None]
  unfolding BRTransactionSerialize_def [abs_def] tx_enc_def
  by (simp add: SIGHASH_ALL_def SIGHASH_FORKID_def SIGHASH_ANYONECANPAY_def SIGHASH_SINGLE_def SIGHASH_NONE_def)

interpretation tx_writer: writer BRTransactionSerialize tx_enc "\<lambda>_. True"
  by unfold_locales (rule serializes_tx)

section \<open>Parsing what was written\<close>

text \<open>
  An input as the parser builds it: signed, with a scriptSig that is not itself a known scriptPubKey,
  or unsigned, with a known scriptPubKey and an amount. The other way round an amount of 0 would not
  be written.
\<close>

definition parsed_input :: "bool \<Rightarrow> BRTxInput \<Rightarrow> bool" where
  "parsed_input testnet inp \<longleftrightarrow>
     (case in_signature inp of
        SigAlloc s \<Rightarrow> in_script inp = None \<and> in_amount inp = 0 \<and>
          snd (BRAddressFromScriptPubKey testnet s None) = 0 \<and>
          in_address inp = address_of (BRAddressFromScriptSig testnet s)
      | SigNull \<Rightarrow>
          (case in_script inp of
             None \<Rightarrow> False
           | Some s \<Rightarrow> in_amount inp \<noteq> 0 \<and> snd (BRAddressFromScriptPubKey testnet s None) > 0 \<and>
               in_address inp = address_of (BRAddressFromScriptPubKey testnet s))
      | SigStray _ \<Rightarrow> False)"

definition is_signed_input :: "BRTxInput \<Rightarrow> bool" where
  "is_signed_input inp \<longleftrightarrow> in_signature inp \<noteq> SigNull"

text \<open>The scriptSig or scriptPubKey that an input carries on the wire.\<close>

definition wire_script :: "BRTxInput \<Rightarrow> bytes" where
  "wire_script inp = (if in_signature inp = SigNull then script_bytes (in_script inp) else sig_bytes (in_signature inp))"

lemma known_small: "snd (BRAddressFromScriptPubKey testnet s None) > 0 \<Longrightarrow> length s \<le> MAX_SCRIPT_LENGTH"
  by (auto simp: BRAddressFromScriptPubKey_def split: if_splits)

lemma parse_input_enc:
  assumes ok: "parsed_input testnet inp" and sz: "sizable buf"
    and buf: "buf = a @ input_enc inp (wire_script inp) @ t"
  shows "parse_input testnet buf (of_nat (length a)) =
    Some (inp, is_signed_input inp, of_nat (length (a @ input_enc inp (wire_script inp))))"
proof -
  define s where "s = wire_script inp"
  define v where "v = varint_enc (of_nat (length s))"
  define am where "am = (if in_amount inp \<noteq> 0 then UInt64SetLE (in_amount inp) else [])"
  let ?h = "UInt256Set (in_txHash inp)" and ?i = "UInt32SetLE (in_index inp)" and ?q = "UInt32SetLE (in_sequence inp)"
  have b: "buf = a @ ?h @ (?i @ v @ s @ am @ ?q @ t)" "buf = (a @ ?h) @ ?i @ (v @ s @ am @ ?q @ t)"
    "buf = (a @ ?h @ ?i) @ v @ (s @ am @ ?q @ t)" "buf = (a @ ?h @ ?i @ v) @ s @ (am @ ?q @ t)"
    "buf = (a @ ?h @ ?i @ v @ s) @ am @ (?q @ t)" "buf = (a @ ?h @ ?i @ v @ s @ am) @ ?q @ t"
    using buf by (simp_all add: input_enc_def s_def v_def am_def)
  have r: "guarded buf (of_nat (length a)) 32 UInt256Get 0 = Some (in_txHash inp)"
    "guarded buf (of_nat (length a) + 32) 4 UInt32GetLE 0 = Some (in_index inp)"
    "varint_at buf (of_nat (length a) + 32 + 4) = (of_nat (length s), of_nat (length v))"
    "guarded buf (of_nat (length a) + 32 + 4 + of_nat (length v) + of_nat (length s) + of_nat (length am)) 4 UInt32GetLE 0
      = Some (in_sequence inp)"
    "slice buf (of_nat (length a) + 32 + 4 + of_nat (length v)) (of_nat (length s)) = Some s"
    "of_nat (length a) + 32 + 4 + of_nat (length v) + of_nat (length s) \<le> (of_nat (length buf) :: u64)"
    using guarded_at [OF sz b(1), of 32 UInt256Get 0] guarded_at [OF sz b(2), of 4 UInt32GetLE 0]
      varint_at_enc [OF sz b(3) [unfolded v_def]] guarded_at [OF sz b(6), of 4 UInt32GetLE 0] slice_at [OF sz b(4)]
    by (simp_all add: add.assoc v_def [symmetric])
  have len: "unat (of_nat (length s) :: u64) = length s"
    using sz b(4) by (intro u64_nat) (auto simp: sizable_def)
  show ?thesis
  proof (cases "in_signature inp")
    case SigNull
    then obtain sc where sc: "in_script inp = Some sc" "in_amount inp \<noteq> 0"
        "snd (BRAddressFromScriptPubKey testnet sc None) > 0"
        "in_address inp = address_of (BRAddressFromScriptPubKey testnet sc)" "s = sc"
      using ok by (auto simp: parsed_input_def s_def wire_script_def script_bytes_def split: option.splits)
    have "guarded buf (of_nat (length a) + 32 + 4 + of_nat (length v) + of_nat (length s)) 8 UInt64GetLE 0
        = Some (in_amount inp)"
      using guarded_at [OF sz b(5), of 8 UInt64GetLE 0] sc(2) by (simp add: add.assoc am_def)
    then have "parse_input testnet buf (of_nat (length a)) = Some (inp, False,
        of_nat (length a) + 32 + 4 + of_nat (length v) + 8 + of_nat (length s) + 4)"
      using r len sc SigNull known_small [OF sc(3)]
      by (simp add: parse_input_def Let_def BRTxInputSetScript_def zero_input_def am_def ac_simps)
    then show ?thesis
      using SigNull sc(2) unfolding is_signed_input_def input_enc_def s_def [symmetric]
      by (simp add: v_def am_def ac_simps)
  next
    case (SigAlloc sg)
    then have sg: "in_script inp = None" "in_amount inp = 0" "snd (BRAddressFromScriptPubKey testnet s None) = 0"
        "in_address inp = address_of (BRAddressFromScriptSig testnet s)" "s = sg"
      using ok by (auto simp: parsed_input_def s_def wire_script_def)
    then have "parse_input testnet buf (of_nat (length a)) = Some (inp, True,
        of_nat (length a) + 32 + 4 + of_nat (length v) + of_nat (length s) + 4)"
      using r len SigAlloc
      by (simp add: parse_input_def Let_def BRTxInputSetSignature_def zero_input_def am_def ac_simps)
    then show ?thesis
      using SigAlloc sg(2) unfolding is_signed_input_def input_enc_def s_def [symmetric]
      by (simp add: v_def am_def ac_simps)
  next
    case (SigStray x)
    then show ?thesis using ok by (simp add: parsed_input_def)
  qed
qed

lemma parse_inputs_enc:
  assumes "\<forall>inp\<in>set inps. parsed_input testnet inp" "sizable buf"
    "buf = a @ concat (map (\<lambda>inp. input_enc inp (wire_script inp)) inps) @ t"
  shows "parse_inputs testnet buf (length inps) (of_nat (length a)) =
    Some (inps, list_all is_signed_input inps,
      of_nat (length (a @ concat (map (\<lambda>inp. input_enc inp (wire_script inp)) inps))))"
  using assms(1,3)
proof (induction inps arbitrary: a)
  case (Cons inp inps)
  let ?e = "input_enc inp (wire_script inp)"
  have le: "(of_nat (length a) :: u64) \<le> of_nat (length buf)"
    using assms(2) Cons.prems(2) by (subst u64_le) (auto simp: sizable_def)
  have 1: "parse_input testnet buf (of_nat (length a)) = Some (inp, is_signed_input inp, of_nat (length (a @ ?e)))"
    using Cons.prems by (intro parse_input_enc [OF _ assms(2)]) auto
  have 2: "parse_inputs testnet buf (length inps) (of_nat (length (a @ ?e))) =
    Some (inps, list_all is_signed_input inps,
      of_nat (length ((a @ ?e) @ concat (map (\<lambda>inp. input_enc inp (wire_script inp)) inps))))"
    using Cons.prems by (intro Cons.IH) auto
  show ?case using le 1 2 by simp
qed simp

definition parsed_output :: "bool \<Rightarrow> BRTxOutput \<Rightarrow> bool" where
  "parsed_output testnet out \<longleftrightarrow>
     (case out_script out of
        None \<Rightarrow> False
      | Some s \<Rightarrow> out_address out = address_of (BRAddressFromScriptPubKey testnet s))"

lemma parse_output_enc:
  assumes "parsed_output testnet out" and sz: "sizable buf" and buf: "buf = a @ output_enc out @ t"
  shows "parse_output testnet buf (of_nat (length a)) = Some (out, of_nat (length (a @ output_enc out)))"
proof -
  obtain s where s: "out_script out = Some s" "out_address out = address_of (BRAddressFromScriptPubKey testnet s)"
    using assms(1) by (auto simp: parsed_output_def split: option.splits)
  define v where "v = varint_enc (of_nat (length s))"
  let ?m = "UInt64SetLE (out_amount out)"
  have b: "buf = a @ ?m @ (v @ s @ t)" "buf = (a @ ?m) @ v @ (s @ t)" "buf = (a @ ?m @ v) @ s @ t"
    using buf s by (simp_all add: output_enc_def v_def script_bytes_def)
  have "guarded buf (of_nat (length a)) 8 UInt64GetLE 0 = Some (out_amount out)"
    "varint_at buf (of_nat (length a) + 8) = (of_nat (length s), of_nat (length v))"
    "slice buf (of_nat (length a) + 8 + of_nat (length v)) (of_nat (length s)) = Some s"
    "of_nat (length a) + 8 + of_nat (length v) + of_nat (length s) \<le> (of_nat (length buf) :: u64)"
    using guarded_at [OF sz b(1), of 8 UInt64GetLE 0] varint_at_enc [OF sz b(2) [unfolded v_def]]
      slice_at [OF sz b(3)]
    by (simp_all add: add.assoc v_def [symmetric])
  then show ?thesis
    using s by (simp add: parse_output_def Let_def BRTxOutputSetScript_def zero_output_def output_enc_def
        script_bytes_def v_def [symmetric] add.assoc)
qed

lemma parse_outputs_enc:
  assumes "\<forall>out\<in>set outs. parsed_output testnet out" "sizable buf" "buf = a @ concat (map output_enc outs) @ t"
  shows "parse_outputs testnet buf (length outs) (of_nat (length a)) =
    Some (outs, of_nat (length (a @ concat (map output_enc outs))))"
  using assms(1,3)
proof (induction outs arbitrary: a)
  case (Cons out outs)
  have le: "(of_nat (length a) :: u64) \<le> of_nat (length buf)"
    using assms(2) Cons.prems(2) by (subst u64_le) (auto simp: sizable_def)
  have 1: "parse_output testnet buf (of_nat (length a)) = Some (out, of_nat (length (a @ output_enc out)))"
    using Cons.prems by (intro parse_output_enc [OF _ assms(2)]) auto
  have 2: "parse_outputs testnet buf (length outs) (of_nat (length (a @ output_enc out))) =
    Some (outs, of_nat (length ((a @ output_enc out) @ concat (map output_enc outs))))"
    using Cons.prems by (intro Cons.IH) auto
  show ?case using le 1 2 by simp
qed simp

text \<open>
  A transaction as the parser builds it: its inputs and outputs are, it has an input, it is
  unconfirmed, and its hash is that of its encoding when all inputs are signed.
\<close>

definition parsed_tx :: "bool \<Rightarrow> BRTransaction \<Rightarrow> bool" where
  "parsed_tx testnet tx \<longleftrightarrow> inputs tx \<noteq> [] \<and> (\<forall>inp\<in>set (inputs tx). parsed_input testnet inp) \<and>
     (\<forall>out\<in>set (outputs tx). parsed_output testnet out) \<and>
     blockHeight tx = TX_UNCONFIRMED \<and> tx_timestamp tx = 0 \<and> sizable (tx_enc tx) \<and>
     txHash tx = (if BRTransactionIsSigned tx then UInt256Get (BRSHA256_2 (tx_enc tx)) else 0)"

lemma inputs_enc_wire:
  assumes "\<forall>inp\<in>set (inputs tx). parsed_input testnet inp"
  shows "inputs_enc tx None h = concat (map (\<lambda>inp. input_enc inp (wire_script inp)) (inputs tx))"
proof -
  have "(case data_input tx None h i of (inp, sig) \<Rightarrow> input_enc inp sig) =
      input_enc (inputs tx ! i) (wire_script (inputs tx ! i))" if "i < length (inputs tx)" for i
  proof -
    have "parsed_input testnet (inputs tx ! i)" using assms nth_mem [OF that] by blast
    then have "in_signature (inputs tx ! i) \<noteq> SigNull \<Longrightarrow> in_amount (inputs tx ! i) = 0"
      by (cases "in_signature (inputs tx ! i)") (auto simp: parsed_input_def)
    then show ?thesis by (auto simp: data_input_def wire_script_def Let_def input_enc_def)
  qed
  then have "map (\<lambda>i. case data_input tx None h i of (inp, sig) \<Rightarrow> input_enc inp sig) [0..<length (inputs tx)] =
      map (\<lambda>inp. input_enc inp (wire_script inp)) (inputs tx)"
    by (intro nth_equalityI) simp_all
  then show ?thesis by (simp add: inputs_enc_def)
qed

lemma length_inputs_le: "length inps \<le> length (concat (map (\<lambda>inp. input_enc inp (w inp)) inps))"
  by (induction inps) (auto simp: input_enc_def)

lemma length_outputs_le: "length outs \<le> length (concat (map output_enc outs))"
  by (induction outs) (auto simp: output_enc_def)

lemma parse_tx_enc:
  assumes ok: "parsed_tx testnet tx" and sz: "sizable (tx_enc tx @ t)"
  shows "BRTransactionParse testnet (tx_enc tx @ t) = Some (Some tx)"
proof -
  define buf where "buf = tx_enc tx @ t"
  define ie where "ie = concat (map (\<lambda>inp. input_enc inp (wire_script inp)) (inputs tx))"
  define oe where "oe = concat (map output_enc (outputs tx))"
  define n where "n = varint_enc (of_nat (length (inputs tx)))"
  define m where "m = varint_enc (of_nat (length (outputs tx)))"
  let ?v = "UInt32SetLE (tx_version tx)" and ?l = "UInt32SetLE (lockTime tx)"
  have sz': "sizable buf" using sz by (simp add: buf_def)
  have enc: "tx_enc tx = ?v @ n @ ie @ m @ oe @ ?l"
    using ok inputs_enc_wire [of tx testnet SIGHASH_ALL]
    by (simp add: tx_enc_def parsed_tx_def ie_def oe_def n_def m_def)
  then have b: "buf = [] @ ?v @ (n @ ie @ m @ oe @ ?l @ t)" "buf = ?v @ n @ (ie @ m @ oe @ ?l @ t)"
    "buf = (?v @ n) @ ie @ (m @ oe @ ?l @ t)" "buf = (?v @ n @ ie) @ m @ (oe @ ?l @ t)"
    "buf = (?v @ n @ ie @ m) @ oe @ (?l @ t)" "buf = (?v @ n @ ie @ m @ oe) @ ?l @ t"
    by (simp_all add: buf_def)
  have le: "length (inputs tx) < 2 ^ 64" "length (outputs tx) < 2 ^ 64"
    using sz' b(3,5) length_inputs_le [of "inputs tx" wire_script] length_outputs_le [of "outputs tx"]
    by (auto simp: sizable_def ie_def oe_def)
  then have cnt: "unat (of_nat (length (inputs tx)) :: u64) = length (inputs tx)"
    "unat (of_nat (length (outputs tx)) :: u64) = length (outputs tx)"
    using u64_nat by auto
  have "unat (of_nat (length (inputs tx)) :: u64) \<noteq> 0" using cnt(1) ok by (simp add: parsed_tx_def)
  then have nz: "(of_nat (length (inputs tx)) :: u64) \<noteq> 0" by auto
  have r: "guarded buf 0 4 UInt32GetLE 0 = Some (tx_version tx)"
    "varint_at buf 4 = (of_nat (length (inputs tx)), of_nat (length n))"
    "parse_inputs testnet buf (length (inputs tx)) (4 + of_nat (length n)) =
       Some (inputs tx, list_all is_signed_input (inputs tx), 4 + of_nat (length n) + of_nat (length ie))"
    "varint_at buf (4 + of_nat (length n) + of_nat (length ie)) = (of_nat (length (outputs tx)), of_nat (length m))"
    "parse_outputs testnet buf (length (outputs tx)) (4 + of_nat (length n) + of_nat (length ie) + of_nat (length m)) =
       Some (outputs tx, 4 + of_nat (length n) + of_nat (length ie) + of_nat (length m) + of_nat (length oe))"
    "guarded buf (4 + of_nat (length n) + of_nat (length ie) + of_nat (length m) + of_nat (length oe)) 4 UInt32GetLE 0 =
       Some (lockTime tx)"
    using guarded_at [OF sz' b(1), of 4 UInt32GetLE 0] varint_at_enc [OF sz' b(2) [unfolded n_def]]
      parse_inputs_enc [OF _ sz' b(3) [unfolded ie_def], of testnet] varint_at_enc [OF sz' b(4) [unfolded m_def]]
      parse_outputs_enc [OF _ sz' b(5) [unfolded oe_def], of testnet] guarded_at [OF sz' b(6), of 4 UInt32GetLE 0] ok
    by (simp_all add: add.assoc n_def [symmetric] m_def [symmetric] ie_def [symmetric] oe_def [symmetric] parsed_tx_def)
  have off: "4 + of_nat (length n) + of_nat (length ie) + of_nat (length m) + of_nat (length oe) + 4 =
      (of_nat (length (tx_enc tx)) :: u64)"
    by (simp add: enc ac_simps)
  have "length (tx_enc tx) \<le> length buf" "length buf < 2 ^ 64"
    using sz' by (auto simp: buf_def sizable_def)
  then have "(of_nat (length (tx_enc tx)) :: u64) \<le> of_nat (length buf)"
      "unat (of_nat (length (tx_enc tx)) :: u64) = length (tx_enc tx)"
    by (simp_all add: u64_le u64_nat)
  moreover from this(2) have "take (unat (of_nat (length (tx_enc tx)) :: u64)) buf = tx_enc tx"
    by (simp add: buf_def)
  moreover have "list_all is_signed_input (inputs tx) = BRTransactionIsSigned tx"
    by (simp add: BRTransactionIsSigned_def is_signed_input_def list_all_iff)
  ultimately have "BRTransactionParse testnet buf = Some (Some tx)"
    using r cnt nz off ok
    by (simp add: BRTransactionParse_def parsed_tx_def BRTransactionNew_def not_less Let_def
        BRTransaction.equality)
  then show ?thesis by (simp add: buf_def)
qed

section \<open>Properties\<close>

text \<open>
  What an input has to be for the wire: with a signature that is not itself a known scriptPubKey, or
  without one, with a known scriptPubKey and an amount; an amount of 0 would not be written.
\<close>

definition wire_input :: "bool \<Rightarrow> BRTxInput \<Rightarrow> bool" where
  "wire_input testnet inp \<longleftrightarrow>
     (if in_signature inp \<noteq> SigNull then snd (BRAddressFromScriptPubKey testnet (sig_bytes (in_signature inp)) None) = 0
      else in_script inp \<noteq> None \<and> in_amount inp \<noteq> 0 \<and>
        snd (BRAddressFromScriptPubKey testnet (script_bytes (in_script inp)) None) > 0)"

text \<open>
  What comes back: the addresses are those of the scripts, a signed input has neither its script nor
  its amount any more, the transaction is unconfirmed, and its hash is that of \<open>data\<close> when it is signed.
\<close>

definition received_input :: "bool \<Rightarrow> BRTxInput \<Rightarrow> BRTxInput" where
  "received_input testnet inp = (if in_signature inp = SigNull
     then inp\<lparr>in_address := address_of (BRAddressFromScriptPubKey testnet (script_bytes (in_script inp)))\<rparr>
     else inp\<lparr>in_address := address_of (BRAddressFromScriptSig testnet (sig_bytes (in_signature inp))),
       in_amount := 0, in_script := None, in_signature := SigAlloc (sig_bytes (in_signature inp))\<rparr>)"

definition received_output :: "bool \<Rightarrow> BRTxOutput \<Rightarrow> BRTxOutput" where
  "received_output testnet out = (let s = script_bytes (out_script out) in
     out\<lparr>out_address := address_of (BRAddressFromScriptPubKey testnet s), out_script := Some s\<rparr>)"

definition received_tx :: "bool \<Rightarrow> bytes \<Rightarrow> BRTransaction \<Rightarrow> BRTransaction" where
  "received_tx testnet data tx =
     \<lparr>txHash = (if BRTransactionIsSigned tx then UInt256Get (BRSHA256_2 data) else 0), tx_version = tx_version tx,
      inputs = map (received_input testnet) (inputs tx), outputs = map (received_output testnet) (outputs tx),
      lockTime = lockTime tx, blockHeight = TX_UNCONFIRMED, tx_timestamp = 0\<rparr>"

lemma received_signed: "BRTransactionIsSigned (received_tx testnet data tx) = BRTransactionIsSigned tx"
proof -
  have "in_signature (received_input testnet inp) \<noteq> SigNull \<longleftrightarrow> in_signature inp \<noteq> SigNull" for inp
    by (simp add: received_input_def)
  then show ?thesis by (simp add: BRTransactionIsSigned_def received_tx_def list.pred_map comp_def)
qed

lemma received_enc: "tx_enc (received_tx testnet data tx) = tx_enc tx"
proof -
  have "(case data_input (received_tx testnet data tx) None h i of (inp, sig) \<Rightarrow> input_enc inp sig) =
      (case data_input tx None h i of (inp, sig) \<Rightarrow> input_enc inp sig)" if "i < length (inputs tx)" for h i
    using that
    by (simp add: data_input_def received_tx_def received_input_def Let_def input_enc_def sig_bytes_def)
  then have "inputs_enc (received_tx testnet data tx) None h = inputs_enc tx None h" for h
    unfolding inputs_enc_def by (intro arg_cong [of _ _ concat] map_cong) (simp_all add: received_tx_def)
  moreover have "output_enc (received_output testnet out) = output_enc out" for out
    by (simp add: output_enc_def received_output_def script_bytes_def Let_def)
  then have "map output_enc (outputs (received_tx testnet data tx)) = map output_enc (outputs tx)"
    by (simp add: received_tx_def)
  moreover have "tx_version (received_tx testnet data tx) = tx_version tx" "lockTime (received_tx testnet data tx) = lockTime tx"
    "length (inputs (received_tx testnet data tx)) = length (inputs tx)"
    "length (outputs (received_tx testnet data tx)) = length (outputs tx)"
    by (simp_all add: received_tx_def)
  ultimately show ?thesis unfolding tx_enc_def by (simp only:)
qed

lemma received_parsed:
  assumes "inputs tx \<noteq> []" "list_all (wire_input testnet) (inputs tx)" "sizable (tx_enc tx)"
  shows "parsed_tx testnet (received_tx testnet (tx_enc tx) tx)"
proof -
  have "parsed_input testnet (received_input testnet inp)" if "wire_input testnet inp" for inp
    using that
    by (auto simp: wire_input_def received_input_def parsed_input_def script_bytes_def split: option.splits if_splits)
  moreover have "parsed_output testnet (received_output testnet out)" for out
    by (simp add: parsed_output_def received_output_def Let_def)
  ultimately show ?thesis
    using assms received_signed [of testnet "tx_enc tx" tx] received_enc [of testnet "tx_enc tx" tx]
    by (auto simp: parsed_tx_def list_all_iff received_tx_def)
qed


text \<open>A transaction with one unsigned and one signed input, and one output.\<close>

definition sample_tx :: BRTransaction where
  "sample_tx =
     \<lparr>txHash = 0, tx_version = 1,
      inputs =
        [\<lparr>in_txHash = 7, in_index = 1, in_address = address_of (BRAddressFromScriptPubKey False (p2pkh (replicate 20 5))),
          in_amount = 5000, in_script = Some (p2pkh (replicate 20 5)), in_signature = SigNull, in_sequence = 0xffffffff\<rparr>,
         \<lparr>in_txHash = 8, in_index = 0, in_address = address_of (BRAddressFromScriptSig False [1, 9]),
          in_amount = 0, in_script = None, in_signature = SigAlloc [1, 9], in_sequence = 3\<rparr>],
      outputs = [\<lparr>out_address = address_of (BRAddressFromScriptPubKey False [0]), out_amount = 4000, out_script = Some [0]\<rparr>],
      lockTime = 0, blockHeight = TX_UNCONFIRMED, tx_timestamp = 0\<rparr>"

lemma not_an_address: "snd (BRAddressFromScriptPubKey False [1, 9] None) = 0"
  by code_simp

lemma sample_tx_parsed: "parsed_tx False sample_tx"
proof -
  have "snd (BRAddressFromScriptPubKey False (p2pkh (replicate 20 5)) None) > 0"
    using from_p2pkh [of "replicate 20 5" False None] check_writer.size_query by simp
  then show ?thesis
    using not_an_address
    by (simp add: parsed_tx_def sample_tx_def parsed_input_def parsed_output_def sizable_def tx_enc_def
        inputs_enc_def data_input_def input_enc_def output_enc_def varint_enc_def script_bytes_def
        BRTransactionIsSigned_def p2pkh_def upt_rec)
qed

text \<open>The same with a script and an amount kept for the signed input, in a confirmed block.\<close>

definition kept_tx :: BRTransaction where
  "kept_tx = sample_tx\<lparr>inputs := map (\<lambda>inp. inp\<lparr>in_amount := 5000, in_script := Some (p2pkh (replicate 20 5))\<rparr>)
     (inputs sample_tx), blockHeight := 100, tx_timestamp := 7\<rparr>"

lemma kept_tx_wire: "inputs kept_tx \<noteq> []" "list_all (wire_input False) (inputs kept_tx)"
  using not_an_address from_p2pkh [of "replicate 20 5" False None] check_writer.size_query
  by (simp_all add: kept_tx_def sample_tx_def wire_input_def script_bytes_def sig_bytes_def)

lemma kept_tx_size: "length (tx_enc kept_tx) < 2 ^ 63"
  by (simp add: kept_tx_def sample_tx_def tx_enc_def inputs_enc_def data_input_def input_enc_def output_enc_def varint_enc_def
      script_bytes_def sig_bytes_def p2pkh_def upt_rec)


lemma length_input_enc:
  "in_amount inp = 0 \<Longrightarrow> length (input_enc inp s) = 32 + 4 + length (varint_enc (of_nat (length s))) + length s + 4"
  by (simp add: input_enc_def)

lemma length_inputs_enc:
  assumes "BRTransactionIsSigned tx"
  shows "length (inputs_enc tx None h) = sum_list (map (\<lambda>inp. if in_signature inp \<noteq> SigNull then
         let sigLen = length (sig_bytes (in_signature inp))
         in 32 + 4 + BRVarIntSize (of_nat sigLen) + sigLen + 4
       else TX_INPUT_SIZE) (inputs tx))"
proof -
  have "length (case data_input tx None h i of (inp, sig) \<Rightarrow> input_enc inp sig) =
      (let sigLen = length (sig_bytes (in_signature (inputs tx ! i)))
       in 32 + 4 + BRVarIntSize (of_nat sigLen) + sigLen + 4)"
    and "in_signature (inputs tx ! i) \<noteq> SigNull" if "i < length (inputs tx)" for i
    using assms that by (auto simp: BRTransactionIsSigned_def list_all_length data_input_def length_input_enc Let_def)
  then have "map (\<lambda>i. length (case data_input tx None h i of (inp, sig) \<Rightarrow> input_enc inp sig)) [0..<length (inputs tx)] =
      map (\<lambda>inp. if in_signature inp \<noteq> SigNull then
         let sigLen = length (sig_bytes (in_signature inp))
         in 32 + 4 + BRVarIntSize (of_nat sigLen) + sigLen + 4
       else TX_INPUT_SIZE) (inputs tx)"
    by (intro nth_equalityI) simp_all
  then show ?thesis by (simp add: inputs_enc_def length_concat comp_def)
qed

text \<open>
  For a transaction whose inputs all have a signature, \<open>BRTransactionSize\<close> is the number of bytes
  that \<open>BRTransactionSerialize\<close> writes.
\<close>

theorem transaction_size_exact:
  assumes "BRTransactionIsSigned tx"
  shows "BRTransactionSerialize tx None = (None, BRTransactionSize tx)"
  using tx_writer.size_query [of tx] length_inputs_enc [OF assms]
  by (simp add: tx_enc_def BRTransactionSize_def length_concat output_enc_def comp_def Let_def add.assoc)

theorem transaction_size_exact_witness:
  "BRTransactionSerialize (sample_tx\<lparr>inputs := tl (inputs sample_tx)\<rparr>) None =
    (None, BRTransactionSize (sample_tx\<lparr>inputs := tl (inputs sample_tx)\<rparr>))"
  by (rule transaction_size_exact) (simp add: BRTransactionIsSigned_def sample_tx_def)

text \<open>
  C20: the bytes hashed for the signature of input \<open>i\<close> under \<open>SIGHASH_ALL\<close>: all inputs, each with an
  empty script except input \<open>i\<close>, which has the script of the output it spends, all outputs, the lock
  time and the hash type. Amounts are not part of them.
\<close>

theorem sighash_all_preimage:
  assumes "i < length (inputs tx)"
  shows "sign_data tx (Some i) SIGHASH_ALL =
    UInt32SetLE (tx_version tx) @ varint_enc (of_nat (length (inputs tx))) @
    concat (map (\<lambda>j. input_enc ((inputs tx ! j)\<lparr>in_amount := 0\<rparr>)
      (if j = i then script_bytes (in_script (inputs tx ! i)) else [])) [0..<length (inputs tx)]) @
    varint_enc (of_nat (length (outputs tx))) @ concat (map output_enc (outputs tx)) @
    UInt32SetLE (lockTime tx) @ UInt32SetLE SIGHASH_ALL"
proof -
  let ?h = "SIGHASH_ALL"
  have h: "?h AND SIGHASH_FORKID = 0" "?h AND SIGHASH_ANYONECANPAY = 0" "?h AND 0x1f \<noteq> SIGHASH_SINGLE"
    "?h AND 0x1f \<noteq> SIGHASH_NONE"
    by (simp_all add: SIGHASH_ALL_def SIGHASH_FORKID_def SIGHASH_ANYONECANPAY_def SIGHASH_SINGLE_def SIGHASH_NONE_def)
  have "(case data_input tx (Some i) (?h AND 0x1f) j of (inp, sig) \<Rightarrow> input_enc inp sig) =
      input_enc ((inputs tx ! j)\<lparr>in_amount := 0\<rparr>) (if j = i then script_bytes (in_script (inputs tx ! i)) else [])" for j
    using h by (auto simp: data_input_def Let_def)
  then have ie: "inputs_enc tx (Some i) (?h AND 0x1f) =
      concat (map (\<lambda>j. input_enc ((inputs tx ! j)\<lparr>in_amount := 0\<rparr>)
        (if j = i then script_bytes (in_script (inputs tx ! i)) else [])) [0..<length (inputs tx)])"
    by (simp add: inputs_enc_def)
  show ?thesis
    using serializes_data_all [OF h, of tx "Some i"] unfolding ie
    by (simp add: sign_data_def serializes_def script_bytes_def)
qed

theorem sighash_all_preimage_witness:
  "length (sign_data sample_tx (Some 1) SIGHASH_ALL) = 106"
proof -
  have "1 < length (inputs sample_tx)" by (simp add: sample_tx_def)
  from sighash_all_preimage [OF this] show ?thesis
    by (simp add: sample_tx_def input_enc_def output_enc_def varint_enc_def script_bytes_def upt_rec)
qed

text \<open>
  An input added without a signature and with a sequence number other than 0, which is how the
  wallet adds its inputs, is taken for signed, is written with an empty scriptSig and the sequence
  number 0, and setting its signature frees a pointer that was never allocated.
\<close>

theorem add_input_stray_signature:
  assumes "sequence \<noteq> 0" "BRTransactionAddInput testnet tx hash index amount (Some script) None sequence = Some tx'"
  shows "\<exists>inp. inputs tx' = inputs tx @ [inp] \<and> in_sequence inp = 0 \<and>
    BRTransactionIsSigned tx' = BRTransactionIsSigned tx \<and> sig_bytes (in_signature inp) = [] \<and>
    BRTxInputSetSignature testnet (Some sig) inp = None"
  using assms
  by (auto simp: BRTransactionAddInput_def new_input_def BRTxInputSetScript_def BRTransactionIsSigned_def
      BRTxInputSetSignature_def split: if_splits)

theorem add_input_stray_signature_witness:
  "\<exists>tx' inp. BRTransactionAddInput False BRTransactionNew 7 0 5000 (Some (p2pkh (replicate 20 5))) None 0xffffffff = Some tx' \<and>
     inputs tx' = [inp] \<and> in_sequence inp = 0 \<and> BRTransactionIsSigned tx'"
proof -
  obtain tx' where tx': "BRTransactionAddInput False BRTransactionNew 7 0 5000 (Some (p2pkh (replicate 20 5))) None
      0xffffffff = Some tx'"
    by (simp add: BRTransactionAddInput_def)
  from add_input_stray_signature [OF _ this] show ?thesis
    using tx' by (auto simp: BRTransactionNew_def BRTransactionIsSigned_def)
qed

text \<open>
  \<open>BRTransactionCopy\<close> of a transaction with a signed input whose sequence number is not 0 has
  undefined behaviour: the copy frees a stray pointer.
\<close>

theorem copy_signed_undefined:
  assumes "inp \<in> set (inputs tx)" "in_signature inp = SigAlloc s" "in_sequence inp \<noteq> 0"
  shows "BRTransactionCopy testnet tx = None"
proof -
  let ?f = "\<lambda>acc inp. do {
         c \<leftarrow> acc;
         BRTransactionAddInput testnet c (in_txHash inp) (in_index inp) (in_amount inp) (in_script inp)
           (sig_arg (in_signature inp)) (in_sequence inp) }"
  have none: "foldl ?f None inps = None" for inps by (induction inps) auto
  have step: "?f acc inp = None" for acc
    using assms(2,3) by (cases acc) (auto simp: BRTransactionAddInput_def new_input_def sig_arg_def
        BRTxInputSetSignature_def BRTxInputSetScript_def Let_def)
  obtain xs ys where "inputs tx = xs @ inp # ys" using assms(1) by (auto simp: in_set_conv_decomp)
  then have "foldl ?f acc (inputs tx) = None" for acc using none step by simp
  then show ?thesis by (simp add: BRTransactionCopy_def)
qed

theorem copy_signed_undefined_witness: "BRTransactionCopy False sample_tx = None"
  by (rule copy_signed_undefined [of "inputs sample_tx ! 1" _ "[1, 9]"]) (simp_all add: sample_tx_def)

text \<open>
  C39: the bounds checks of \<open>BRTransactionParse\<close> wrap around: for every buffer that starts with a
  version, one input and a script length of \<open>2^64 - 46\<close>, the sum \<open>off + sLen\<close> is 4, so the
  parser copies \<open>2^64 - 46\<close> bytes from the buffer.
\<close>

theorem parse_length_wraps:
  assumes "length hash = 32" "length idx = 4" "sizable t"
  shows "BRTransactionParse testnet (UInt32SetLE version @ [1] @ hash @ idx @ [0xff] @ UInt64SetLE (- 46) @ t) = None"
proof -
  define buf where "buf = UInt32SetLE version @ [1] @ hash @ idx @ [0xff] @ UInt64SetLE (- 46) @ t"
  have len: "length buf = 50 + length t" using assms by (simp add: buf_def)
  have 1: "varint_at buf 4 = (1, 1)"
    by (simp add: varint_at_def buf_def BRVarInt_def)
  have "drop 41 buf = varint_enc (- 46) @ t" using assms by (simp add: buf_def varint_enc_def)
  then have 2: "varint_at buf 41 = (- 46, 9)"
    using varint_read [of "- 46" t] by (simp add: varint_at_def varint_enc_def)
  have L: "unat (of_nat (length buf) :: u64) = 50 + length t"
    using assms(3) len by (subst u64_nat) (auto simp: sizable_def)
  have le: "(k :: u64) \<le> of_nat (length buf)" if "unat k \<le> 50" for k
    using that L by (simp add: word_le_nat_alt)
  have "slice buf 50 (- 46) = None" using len assms(3) by (simp add: slice_def sizable_def)
  moreover have "guarded buf 5 32 UInt256Get 0 = Some (UInt256Get (drop 5 buf))"
    "guarded buf 37 4 UInt32GetLE 0 = Some (UInt32GetLE (drop 37 buf))"
    "guarded buf 0 4 UInt32GetLE 0 = Some (UInt32GetLE buf)"
    using le len by (simp_all add: guarded_def)
  ultimately have "parse_input testnet buf 5 = None"
    using 2 le by (simp add: parse_input_def Let_def MAX_SCRIPT_LENGTH_def)
  then have "BRTransactionParse testnet buf = None"
    using 1 le \<open>guarded buf 0 4 UInt32GetLE 0 = _\<close> by (simp add: BRTransactionParse_def)
  then show ?thesis by (simp add: buf_def)
qed

theorem parse_length_wraps_witness:
  "BRTransactionParse False (UInt32SetLE 1 @ [1] @ replicate 32 7 @ replicate 4 0 @ [0xff] @ UInt64SetLE (- 46) @ [0]) = None"
  by (rule parse_length_wraps) (simp_all add: sizable_def)

lemma u32_nat: "n < 2 ^ 32 \<Longrightarrow> unat (of_nat n :: u32) = n"
  by (simp add: unat_of_nat)

text \<open>The random numbers are below their bound.\<close>

lemma rand_loop_less: "rand_loop u rs = Some (x, rs') \<Longrightarrow> u \<noteq> 0 \<Longrightarrow> x < u"
  by (induction u rs rule: rand_loop.induct) (auto simp: word_mod_less_divisor word_gt_0 split: if_splits)

lemma BRRand_less:
  assumes "BRRand u rs = Some (x, rs')" "u \<noteq> 0" "u \<le> 0x7fffffff"
  shows "x < u"
  using assms rand_loop_less [of u rs x rs'] by (simp add: BRRand_def not_less [symmetric])

lemma shuffle_loop_mset:
  assumes "shuffle_loop xs is rs = Some (ys, rs')" "\<forall>i\<in>set is. i < length xs" "length xs \<le> 0x7fffffff"
  shows "mset ys = mset xs"
  using assms
proof (induction "is" arbitrary: xs rs)
  case (Cons i "is")
  obtain r rs1 where r: "BRRand (of_nat (length xs) - of_nat i) rs = Some (r, rs1)"
      and rest: "shuffle_loop (if unat (of_nat i + r) \<noteq> i
        then xs[i := xs ! unat (of_nat i + r), unat (of_nat i + r) := xs ! i] else xs) is rs1 = Some (ys, rs')"
    using Cons.prems(1) by (auto simp: bind_eq_Some_conv Let_def split: prod.splits)
  define j where "j = unat (of_nat i + r)"
  define xs1 where "xs1 = (if j \<noteq> i then xs[i := xs ! j, j := xs ! i] else xs)"
  have i: "i < length xs" using Cons.prems(2) by simp
  have d: "(of_nat (length xs) - of_nat i :: u32) = of_nat (length xs - i)" using i by simp
  have u: "unat (of_nat (length xs - i) :: u32) = length xs - i" "unat (of_nat i :: u32) = i"
    using Cons.prems(3) i by (intro u32_nat; simp)+
  have "(of_nat (length xs - i) :: u32) \<noteq> 0" using u(1) i by (metis diff_is_0_eq not_le unat_0)
  moreover have "(of_nat (length xs - i) :: u32) \<le> 0x7fffffff"
    using u(1) Cons.prems(3) by (simp add: word_le_nat_alt)
  ultimately have "r < of_nat (length xs - i)" using BRRand_less r d by metis
  then have lt: "unat r < length xs - i" using u(1) by (simp add: word_less_nat_alt)
  then have "unat (of_nat i + r) = i + unat r"
    using u(2) i Cons.prems(3) by (subst unat_word_ariths) simp
  then have j: "j < length xs" using lt by (simp add: j_def)
  have m: "mset xs1 = mset xs" using i j by (auto simp: xs1_def mset_swap)
  have "mset ys = mset xs1"
    using Cons.IH [of xs1 rs1] rest Cons.prems(2,3) by (auto simp: xs1_def j_def)
  then show ?case using m by simp
qed simp

text \<open>
  Shuffling the outputs permutes them and changes nothing else, whatever the random numbers.
\<close>

theorem shuffle_permutes_outputs:
  assumes "BRTransactionShuffleOutputs tx rs = Some (tx', rs')" "length (outputs tx) \<le> 0x7fffffff"
  shows "mset (outputs tx') = mset (outputs tx) \<and> tx' = tx\<lparr>outputs := outputs tx'\<rparr>"
  using assms shuffle_loop_mset [of "outputs tx" "[0..<length (outputs tx) - 1]" rs "outputs tx'" rs']
  by (auto simp: BRTransactionShuffleOutputs_def bind_eq_Some_conv less_diff_conv)

theorem shuffle_permutes_outputs_witness:
  "mset (outputs (sample_tx\<lparr>outputs := [zero_output\<lparr>out_amount := 2\<rparr>, zero_output]\<rparr>)) =
   mset (outputs (sample_tx\<lparr>outputs := [zero_output, zero_output\<lparr>out_amount := 2\<rparr>]\<rparr>))"
proof -
  have "BRTransactionShuffleOutputs (sample_tx\<lparr>outputs := [zero_output, zero_output\<lparr>out_amount := 2\<rparr>]\<rparr>) [7] =
      Some (sample_tx\<lparr>outputs := [zero_output\<lparr>out_amount := 2\<rparr>, zero_output]\<rparr>, [])"
    by (simp add: BRTransactionShuffleOutputs_def BRRand_def Let_def)
  from shuffle_permutes_outputs [OF this] show ?thesis by simp
qed

text \<open>The steps of a serializer on a buffer of a given length, which may be too short.\<close>

definition at_pos :: "nat \<Rightarrow> buffer \<times> nat \<Rightarrow> nat \<Rightarrow> bool" where
  "at_pos n s off \<longleftrightarrow> (\<exists>b. s = (Some b, off) \<and> length b = n)"

lemma at_pos_emit: "at_pos n s off \<Longrightarrow> at_pos n (emit bs s) (off + length bs)"
  by (auto simp: at_pos_def emit_def)

lemma at_pos_call:
  assumes "at_pos n s off" "off \<le> n"
    "\<And>b. length b = n - off \<Longrightarrow> \<exists>b'. f (Some b) = (Some b', k) \<and> length b' = n - off"
  shows "at_pos n (at_off f s) (off + k)"
proof -
  obtain b where b: "s = (Some b, off)" "length b = n" using assms(1) by (auto simp: at_pos_def)
  obtain b' where "f (Some (drop off b)) = (Some b', k)" "length b' = n - off"
    using assms(3) [of "drop off b"] b(2) by auto
  then show ?thesis using b assms(2) by (auto simp: at_pos_def at_off_def)
qed

lemma varint_call: "\<exists>b' k. BRVarIntSet v (Some b) = (Some b', k) \<and> length b' = length b"
  by (simp add: varint_set_eq)

lemma at_pos_varint:
  assumes "at_pos n s off"
  shows "\<exists>off' \<ge> off. at_pos n (at_off (BRVarIntSet v) s) off'"
proof -
  obtain b where b: "s = (Some b, off)" "length b = n" using assms by (auto simp: at_pos_def)
  obtain b' k where "BRVarIntSet v (Some (drop off b)) = (Some b', k)" "length b' = n - off"
    using varint_call [of v "drop off b"] b(2) by auto
  then have "at_pos n (at_off (BRVarIntSet v) s) (off + k) \<or> n < off"
    using b by (auto simp: at_pos_def at_off_def)
  moreover have "BRVarIntSet v (Some []) = (Some [], 0)"
    using varint_size_bounds(1) [of v] by (simp add: varint_set_eq)
  then have "n < off \<Longrightarrow> at_pos n (at_off (BRVarIntSet v) s) off"
    using b by (auto simp: at_pos_def at_off_def)
  ultimately show ?thesis by (metis le_add1 order_refl)
qed

lemma at_pos_start: "at_pos (length b) (Some b, 0) 0"
  by (simp add: at_pos_def)

lemma at_pos_result:
  "at_pos n s off \<Longrightarrow> n < off \<Longrightarrow> \<exists>b'. serial_result s = (Some b', 0) \<and> length b' = n"
  by (auto simp: at_pos_def serial_result_def)

lemma input_too_short:
  assumes "length b < 40"
  shows "\<exists>b'. BRTxInputData inp sig (Some b) = (Some b', 0) \<and> length b' = length b"
proof -
  have "at_pos (length b) (emit (UInt32SetLE (in_index inp)) (emit (UInt256Set (in_txHash inp)) (Some b, 0))) 36"
    using at_pos_emit [OF at_pos_emit [OF at_pos_start [of b], of "UInt256Set (in_txHash inp)"],
        of "UInt32SetLE (in_index inp)"] by simp
  then obtain off where o1: "36 \<le> off" "at_pos (length b) (at_off (BRVarIntSet (of_nat (length sig)))
      (emit (UInt32SetLE (in_index inp)) (emit (UInt256Set (in_txHash inp)) (Some b, 0)))) off" (is "at_pos _ ?s off")
    using at_pos_varint by blast
  have amount: "\<exists>off' \<ge> off. at_pos n ((if in_amount inp \<noteq> 0 then emit (UInt64SetLE (in_amount inp)) else (\<lambda>s. s)) s) off'"
    if "at_pos n s off" for n s off
    using that at_pos_emit [OF that, of "UInt64SetLE (in_amount inp)"]
    by (cases "in_amount inp = 0") (simp_all, metis order_refl, metis le_add1)
  obtain off' where o2: "off \<le> off'" "at_pos (length b) ((if in_amount inp \<noteq> 0 then emit (UInt64SetLE (in_amount inp)) else (\<lambda>s. s))
      (emit sig ?s)) off'" (is "at_pos _ ?t off'")
    using amount [OF at_pos_emit [OF o1(2), of sig]] by (metis add_leD1)
  from at_pos_result [OF at_pos_emit [OF o2(2), of "UInt32SetLE (in_sequence inp)"]] show ?thesis
    using assms o1(1) o2(1) by (simp add: BRTxInputData_def)
qed

lemma output_step_pos:
  "at_pos n s off \<Longrightarrow> \<exists>off' \<ge> off + 8. at_pos n (output_step s out) off'"
proof -
  assume s: "at_pos n s off"
  obtain off1 where "off + 8 \<le> off1" "at_pos n (at_off (BRVarIntSet (of_nat (length (script_bytes (out_script out)))))
      (emit (UInt64SetLE (out_amount out)) s)) off1"
    using at_pos_varint [OF at_pos_emit [OF s, of "UInt64SetLE (out_amount out)"]] by auto
  from at_pos_emit [OF this(2), of "script_bytes (out_script out)"] this(1) show ?thesis
    unfolding output_step_def by (metis le_add1 order_trans)
qed

lemma outputs_pos: "at_pos n s off \<Longrightarrow> \<exists>off' \<ge> off. at_pos n (foldl output_step s outs) off'"
proof (induction outs arbitrary: s off)
  case (Cons out outs)
  obtain off1 where "off + 8 \<le> off1" "at_pos n (output_step s out) off1"
    using output_step_pos [OF Cons.prems] by blast
  then show ?case using Cons.IH [of "output_step s out" off1] by (metis add_leD1 foldl_Cons order_trans)
qed auto

lemma outputs_too_short:
  assumes "length b < 8" "outputs tx \<noteq> []"
  shows "\<exists>b'. BRTransactionOutputData tx None (Some b) = (Some b', 0) \<and> length b' = length b"
proof -
  obtain out outs where o: "outputs tx = out # outs" using assms(2) by (cases "outputs tx") auto
  obtain off where "8 \<le> off" "at_pos (length b) (output_step (Some b, 0) out) off"
    using output_step_pos [OF at_pos_start, of b out] by auto
  moreover then obtain off' where "off \<le> off'" "at_pos (length b) (foldl output_step (output_step (Some b, 0) out) outs) off'"
    using outputs_pos by blast
  ultimately show ?thesis
    using at_pos_result [of "length b" _ off'] o assms(1) by (simp add: BRTransactionOutputData_def)
qed

text \<open>
  \<open>BRTransactionSerialize\<close> does not always return 0 for a buffer that is too small: a nested writer
  that has no room returns 0, its part is then skipped, and for a buffer of 10 bytes the result is 10
  for every transaction with up to 252 inputs and outputs, though the encoding needs more.
\<close>

theorem serialize_short_buffer:
  assumes "outputs tx \<noteq> []" "length (inputs tx) < 253" "length (outputs tx) < 253" "length b = 10"
  shows "snd (BRTransactionSerialize tx (Some b)) = 10 \<and> snd (BRTransactionSerialize tx None) > 10"
proof -
  have v: "\<exists>b'. BRVarIntSet (of_nat m) (Some b) = (Some b', 1) \<and> length b' = k"
    if "m < 253" "length b = k" "0 < k" for m k b
    using that by (auto simp: varint_set_eq varint_enc_def word_less_nat_alt unat_of_nat Suc_le_eq)
  let ?s1 = "emit (UInt32SetLE (tx_version tx)) (Some b, 0)"
  let ?s2 = "at_off (BRVarIntSet (of_nat (length (inputs tx)))) ?s1"
  let ?in = "\<lambda>s i. case data_input tx None (SIGHASH_ALL AND 0x1f) i of (inp, sig) \<Rightarrow> at_off (BRTxInputData inp sig) s"
  have "at_pos 10 ?s1 4" using at_pos_emit [OF at_pos_start [of b], of "UInt32SetLE (tx_version tx)"] assms(4) by simp
  then have "at_pos 10 ?s2 (4 + 1)" by (rule at_pos_call) (simp, rule v [OF assms(2)], simp_all)
  then have s2: "at_pos 10 ?s2 5" by simp
  have step: "at_pos 10 (?in s i) 5" if "at_pos 10 s 5" for s i
  proof -
    define inp sig where "inp = fst (data_input tx None (SIGHASH_ALL AND 0x1f) i)"
      and "sig = snd (data_input tx None (SIGHASH_ALL AND 0x1f) i)"
    have *: "\<exists>b'. BRTxInputData inp sig (Some b) = (Some b', 0) \<and> length b' = 10 - 5" if "length b = 10 - 5" for b
      using input_too_short [of b inp sig] that by simp
    have "at_pos 10 (at_off (BRTxInputData inp sig) s) (5 + 0)"
      using \<open>at_pos 10 s 5\<close> by (rule at_pos_call) (simp, rule *)
    then show ?thesis by (simp add: split_beta inp_def sig_def)
  qed
  have s3: "at_pos 10 (foldl ?in s is) 5" if "at_pos 10 s 5" for s "is"
    using that
  proof (induction "is" arbitrary: s)
    case (Cons i "is")
    then show ?case using step [OF Cons.prems, of i] by (simp only: foldl_Cons)
  qed simp
  let ?s3 = "foldl ?in ?s2 [0..<length (inputs tx)]"
  let ?s4 = "at_off (BRVarIntSet (of_nat (length (outputs tx)))) ?s3"
  have "at_pos 10 ?s4 (5 + 1)" using s3 [OF s2] by (rule at_pos_call) (simp, rule v [OF assms(3)], simp_all)
  then have "at_pos 10 ?s4 6" by simp
  then have "at_pos 10 (at_off (BRTransactionOutputData tx None) ?s4) 6"
  proof -
    have *: "\<exists>b'. BRTransactionOutputData tx None (Some b) = (Some b', 0) \<and> length b' = 10 - 6" if "length b = 10 - 6" for b
      using outputs_too_short [of b tx] that assms(1) by simp
    have "at_pos 10 (at_off (BRTransactionOutputData tx None) ?s4) (6 + 0)"
      using \<open>at_pos 10 ?s4 6\<close> by (rule at_pos_call) (simp, rule *)
    then show ?thesis by simp
  qed
  from at_pos_emit [OF this, of "UInt32SetLE (lockTime tx)"]
  have "snd (serial_result (emit (UInt32SetLE (lockTime tx)) (at_off (BRTransactionOutputData tx None) ?s4))) = 10"
    by (auto simp: at_pos_def serial_result_def)
  moreover have "length (tx_enc tx) > 10"
    using assms(1) varint_size_bounds(1)
    by (cases "outputs tx") (auto simp: tx_enc_def output_enc_def Suc_le_eq trans_less_add1 trans_less_add2)
  ultimately show ?thesis
    using tx_writer.size_query [of tx]
    by (simp add: BRTransactionSerialize_def BRTransactionData_def Let_def SIGHASH_ALL_def SIGHASH_FORKID_def
        SIGHASH_ANYONECANPAY_def SIGHASH_SINGLE_def SIGHASH_NONE_def)
qed

theorem serialize_short_buffer_witness: "snd (BRTransactionSerialize sample_tx (Some (replicate 10 0))) = 10"
  using serialize_short_buffer [of sample_tx "replicate 10 0"] by (simp add: sample_tx_def)

end
