(* ===== verification/BRPeer.thy ===== *)
theory BRPeer
  imports Complex_Main BRMerkleBlock BRTransaction
begin

text \<open>
  \<open>src/Modules/core/BRPeer.c\<close> and \<open>BRPeer.h\<close>: the connection to one node of the network. This theory
  has the state of a connection, the messages it sends and the handlers of the messages it
  receives; the thread that reads them from the socket is in \<open>PeerThread\<close>.

  What a connection does to its surroundings is the list \<open>events\<close> of its state: each message
  that was written to the socket and each call of a callback, in their order. The surroundings are
  a \<open>peer_env\<close>: the clock, the outcome of writes to the socket, and for each callback what it does to
  the connection, since callbacks call the functions of this theory again. A null callback is one that
  does nothing. Times in seconds are rational numbers, \<open>DBL_MAX\<close> is \<open>None\<close>. The set
  \<open>knownTxHashSet\<close> of pointers into \<open>knownTxHashes\<close> is a set of hashes, and \<open>env_moved\<close> says whether
  the array moves when it grows to a length. Messages to the log and \<open>host\<close> are not modelled. A handler
  gives \<open>None\<close> when it reads outside of the message or calls a function that has no result, and
  otherwise the new state and whether the message was accepted.
\<close>

section \<open>State\<close>

definition SERVICES_NODE_NETWORK :: u64 where "SERVICES_NODE_NETWORK = 0x01"
definition HEADER_LENGTH :: nat where "HEADER_LENGTH = 24"
definition MAX_MSG_LENGTH :: nat where "MAX_MSG_LENGTH = 0x02000000"
definition MAX_GETDATA_HASHES :: nat where "MAX_GETDATA_HASHES = 50000"
definition ENABLED_SERVICES :: u64 where "ENABLED_SERVICES = 0"
definition PROTOCOL_VERSION :: u32 where "PROTOCOL_VERSION = 80000"
definition MIN_PROTO_VERSION :: u32 where "MIN_PROTO_VERSION = 80000"
definition LOCAL_HOST :: UInt128 where
  "LOCAL_HOST = UInt128Get [0, 0, 0, 0, 0, 0, 0, 0, 0, 0, 0xff, 0xff, 0x7f, 0x00, 0x00, 0x01]"
definition CONNECT_TIMEOUT :: rat where "CONNECT_TIMEOUT = 3"
definition MESSAGE_TIMEOUT :: rat where "MESSAGE_TIMEOUT = 10"
definition BLOCK_MAX_TIME_DRIFT :: u32 where "BLOCK_MAX_TIME_DRIFT = 2 * 60 * 60"

definition MAGIC_NUMBER :: "bool \<Rightarrow> u32" where
  "MAGIC_NUMBER testnet = (if testnet then 0x544e5652 else 0xd9b4bef9)"

definition STANDARD_PORT :: "bool \<Rightarrow> u16" where
  "STANDARD_PORT testnet = (if testnet then 18768 else 8555)"

definition USER_AGENT :: bytes where "USER_AGENT = map of_char ''/btxwallet:0.6.2/''"

definition MSG_VERSION :: bytes where "MSG_VERSION = map of_char ''version''"
definition MSG_VERACK :: bytes where "MSG_VERACK = map of_char ''verack''"
definition MSG_ADDR :: bytes where "MSG_ADDR = map of_char ''addr''"
definition MSG_INV :: bytes where "MSG_INV = map of_char ''inv''"
definition MSG_GETDATA :: bytes where "MSG_GETDATA = map of_char ''getdata''"
definition MSG_NOTFOUND :: bytes where "MSG_NOTFOUND = map of_char ''notfound''"
definition MSG_GETBLOCKS :: bytes where "MSG_GETBLOCKS = map of_char ''getblocks''"
definition MSG_GETHEADERS :: bytes where "MSG_GETHEADERS = map of_char ''getheaders''"
definition MSG_TX :: bytes where "MSG_TX = map of_char ''tx''"
definition MSG_HEADERS :: bytes where "MSG_HEADERS = map of_char ''headers''"
definition MSG_GETADDR :: bytes where "MSG_GETADDR = map of_char ''getaddr''"
definition MSG_MEMPOOL :: bytes where "MSG_MEMPOOL = map of_char ''mempool''"
definition MSG_PING :: bytes where "MSG_PING = map of_char ''ping''"
definition MSG_PONG :: bytes where "MSG_PONG = map of_char ''pong''"
definition MSG_FILTERLOAD :: bytes where "MSG_FILTERLOAD = map of_char ''filterload''"
definition MSG_MERKLEBLOCK :: bytes where "MSG_MERKLEBLOCK = map of_char ''merkleblock''"
definition MSG_REJECT :: bytes where "MSG_REJECT = map of_char ''reject''"
definition MSG_FEEFILTER :: bytes where "MSG_FEEFILTER = map of_char ''feefilter''"

lemmas msg_defs = MSG_VERSION_def MSG_VERACK_def MSG_ADDR_def MSG_INV_def MSG_GETDATA_def
  MSG_NOTFOUND_def MSG_GETBLOCKS_def MSG_GETHEADERS_def MSG_TX_def MSG_HEADERS_def MSG_GETADDR_def
  MSG_MEMPOOL_def MSG_PING_def MSG_PONG_def MSG_FILTERLOAD_def MSG_MERKLEBLOCK_def MSG_REJECT_def
  MSG_FEEFILTER_def

definition inv_tx :: u32 where "inv_tx = 1"
definition inv_block :: u32 where "inv_block = 2"
definition inv_filtered_block :: u32 where "inv_filtered_block = 3"

datatype BRPeerStatus = BRPeerStatusDisconnected | BRPeerStatusConnecting | BRPeerStatusConnected

record BRPeer =
  p_address :: UInt128
  p_port :: u16
  p_services :: u64
  p_timestamp :: u64
  p_flags :: u8

definition BR_PEER_NONE :: BRPeer where
  "BR_PEER_NONE = \<lparr>p_address = 0, p_port = 0, p_services = 0, p_timestamp = 0, p_flags = 0\<rparr>"

text \<open>A function pointer with its \<open>info\<close>, \<open>None\<close> for a null pointer.\<close>

type_synonym callback = "nat option"

datatype peer_event =
    Sent bytes bytes
  | Connected
  | Disconnected int
  | RelayedPeers "BRPeer list"
  | RelayedTx BRTransaction
  | RequestedTx UInt256
  | HasTx UInt256
  | RejectedTx UInt256 u8
  | RelayedBlock BRMerkleBlock
  | Notfound "UInt256 list" "UInt256 list"
  | SetFeePerKb u64
  | Called nat bool

record BRPeerContext =
  peer :: BRPeer
  status :: BRPeerStatus
  waitingForNetwork :: bool
  needsFilterUpdate :: bool
  ctx_nonce :: u64
  ctx_feePerKb :: u64
  useragent :: bytes
  ctx_version :: u32
  lastblock :: u32
  earliestKeyTime :: u32
  currentBlockHeight :: u32
  startTime :: rat
  pingTime :: "rat option"
  disconnectTime :: "rat option"
  mempoolTime :: "rat option"
  sentVerack :: bool
  gotVerack :: bool
  sentGetaddr :: bool
  sentFilter :: bool
  sentGetdata :: bool
  sentMempool :: bool
  sentGetblocks :: bool
  lastBlockHash :: UInt256
  currentBlock :: "BRMerkleBlock option"
  currentBlockTxHashes :: "UInt256 list"
  knownBlockHashes :: "UInt256 list"
  knownTxHashes :: "UInt256 list"
  knownTxHashSet :: "UInt256 set"
  socket :: int
  pongCallback :: "callback list"
  mempoolCallback :: callback
  events :: "peer_event list"

record peer_env =
  env_testnet :: bool
  env_pow :: "bytes \<Rightarrow> UInt256"
  env_address :: u64
  env_now :: rat
  env_time :: u64
  env_moved :: "nat \<Rightarrow> bool"
  env_sends :: "BRPeerContext \<Rightarrow> bytes \<Rightarrow> bool"
  env_call :: "peer_event \<Rightarrow> BRPeerContext \<Rightarrow> BRPeerContext"
  env_requestedTx :: "BRPeerContext \<Rightarrow> UInt256 \<Rightarrow> BRTransaction option"

definition BRPeerNew :: BRPeerContext where
  "BRPeerNew = \<lparr>peer = BR_PEER_NONE, status = BRPeerStatusDisconnected, waitingForNetwork = False,
     needsFilterUpdate = False, ctx_nonce = 0, ctx_feePerKb = 0, useragent = [], ctx_version = 0,
     lastblock = 0, earliestKeyTime = 0, currentBlockHeight = 0, startTime = 0, pingTime = None,
     disconnectTime = None, mempoolTime = None, sentVerack = False, gotVerack = False,
     sentGetaddr = False, sentFilter = False, sentGetdata = False, sentMempool = False,
     sentGetblocks = False, lastBlockHash = 0, currentBlock = None, currentBlockTxHashes = [],
     knownBlockHashes = [], knownTxHashes = [], knownTxHashSet = {}, socket = - 1,
     pongCallback = [], mempoolCallback = None, events = []\<rparr>"

definition BRPeerHash :: "BRPeer \<Rightarrow> nat" where
  "BRPeerHash p = (let address = (ucast (drop_bit 96 (p_address p)) :: u32); port = (ucast (p_port p) :: u32)
   in unat ((((0x811C9dc5 XOR address) * 0x01000193) XOR port) * 0x01000193))"

definition BRPeerEq :: "BRPeer \<Rightarrow> BRPeer \<Rightarrow> bool" where
  "BRPeerEq p otherPeer \<longleftrightarrow>
     p = otherPeer \<or> (p_address p = p_address otherPeer \<and> p_port p = p_port otherPeer)"

interpretation peer_set: set_keys BRPeerHash BRPeerEq
  by unfold_locales (auto simp: BRPeerEq_def BRPeerHash_def)

definition BRPeerIsIPv4 :: "BRPeer \<Rightarrow> bool" where
  "BRPeerIsIPv4 p \<longleftrightarrow> (ucast (p_address p) :: u64) = 0 \<and> (ucast (drop_bit 64 (p_address p)) :: u16) = 0 \<and>
     (ucast (drop_bit 80 (p_address p)) :: u16) = 0xffff"

section \<open>Sending\<close>

definition log_event :: "peer_event \<Rightarrow> BRPeerContext \<Rightarrow> BRPeerContext" where
  "log_event e ctx = ctx\<lparr>events := events ctx @ [e]\<rparr>"

text \<open>The call of a callback.\<close>

definition call :: "peer_env \<Rightarrow> peer_event \<Rightarrow> BRPeerContext \<Rightarrow> BRPeerContext" where
  "call E e ctx = env_call E e (log_event e ctx)"

definition BRPeerDisconnect :: "BRPeerContext \<Rightarrow> BRPeerContext" where
  "BRPeerDisconnect ctx = (if socket ctx \<ge> 0 then ctx\<lparr>socket := - 1\<rparr> else ctx)"

definition message_frame :: "bool \<Rightarrow> bytes \<Rightarrow> bytes \<Rightarrow> bytes" where
  "message_frame testnet type msg = UInt32SetLE (MAGIC_NUMBER testnet) @ take 12 (type @ replicate 12 0) @
     UInt32SetLE (of_nat (length msg)) @ take 4 (BRSHA256_2 msg) @ msg"

definition BRPeerSendMessage :: "peer_env \<Rightarrow> BRPeerContext \<Rightarrow> bytes \<Rightarrow> bytes \<Rightarrow> BRPeerContext" where
  "BRPeerSendMessage E ctx msg type =
     (if length msg > MAX_MSG_LENGTH then ctx
      else if socket ctx \<ge> 0 \<and> env_sends E ctx (message_frame (env_testnet E) type msg)
      then log_event (Sent type msg) ctx
      else BRPeerDisconnect ctx)"

text \<open>The nonce is a parameter, two results of \<open>BRRand\<close>.\<close>

definition BRPeerSendVersionMessage :: "peer_env \<Rightarrow> u64 \<Rightarrow> BRPeerContext \<Rightarrow> BRPeerContext" where
  "BRPeerSendVersionMessage E n ctx =
     BRPeerSendMessage E (ctx\<lparr>ctx_nonce := n\<rparr>)
       (UInt32SetLE PROTOCOL_VERSION @ UInt64SetLE ENABLED_SERVICES @ UInt64SetLE (env_time E) @
        UInt64SetLE (p_services (peer ctx)) @ UInt128Set (p_address (peer ctx)) @ UInt16SetBE (p_port (peer ctx)) @
        UInt64SetLE ENABLED_SERVICES @ UInt128Set LOCAL_HOST @ UInt16SetBE (STANDARD_PORT (env_testnet E)) @
        UInt64SetLE n @ the (fst (BRVarIntSet (of_nat (length USER_AGENT)) (Some (replicate 1 0)))) @
        USER_AGENT @ UInt32SetLE 0 @ [0]) MSG_VERSION"

definition BRPeerSendVerackMessage :: "peer_env \<Rightarrow> BRPeerContext \<Rightarrow> BRPeerContext" where
  "BRPeerSendVerackMessage E ctx = (BRPeerSendMessage E ctx [] MSG_VERACK)\<lparr>sentVerack := True\<rparr>"

definition varint_bytes :: "u64 \<Rightarrow> bytes" where
  "varint_bytes n = the (fst (BRVarIntSet n (Some (replicate (BRVarIntSize n) 0))))"

lemma varint_bytes_eq: "varint_bytes n = varint_enc n"
  using varint.two_pass [of "replicate (BRVarIntSize n) 0" n] by (simp add: varint_bytes_def varint.size_query)

definition BRPeerSendAddr :: "peer_env \<Rightarrow> BRPeerContext \<Rightarrow> BRPeerContext" where
  "BRPeerSendAddr E ctx = BRPeerSendMessage E ctx (varint_bytes 0) MSG_ADDR"

definition BRPeerSendFilterload :: "peer_env \<Rightarrow> BRPeerContext \<Rightarrow> bytes \<Rightarrow> BRPeerContext" where
  "BRPeerSendFilterload E ctx flt =
     BRPeerSendMessage E (ctx\<lparr>sentFilter := True, sentMempool := False\<rparr>) flt MSG_FILTERLOAD"

definition add_known_hash :: "peer_env \<Rightarrow> BRPeerContext \<Rightarrow> UInt256 \<Rightarrow> BRPeerContext" where
  "add_known_hash E ctx h =
     (if h \<in> knownTxHashSet ctx then ctx
      else let known = knownTxHashes ctx @ [h] in
        if env_moved E (length known) then ctx\<lparr>knownTxHashes := known, knownTxHashSet := set known\<rparr>
        else ctx\<lparr>knownTxHashes := known, knownTxHashSet := insert h (knownTxHashSet ctx)\<rparr>)"

definition BRPeerAddKnownTxHashes :: "peer_env \<Rightarrow> BRPeerContext \<Rightarrow> UInt256 list \<Rightarrow> BRPeerContext" where
  "BRPeerAddKnownTxHashes E ctx txHashes = foldl (add_known_hash E) ctx txHashes"

definition BRPeerSendMempool :: "peer_env \<Rightarrow> BRPeerContext \<Rightarrow> UInt256 list \<Rightarrow> callback \<Rightarrow> BRPeerContext" where
  "BRPeerSendMempool E ctx knownHashes completionCallback = (let
     sent = sentMempool ctx;
     ctx = ctx\<lparr>sentMempool := True\<rparr>
   in if \<not> sent \<and> mempoolCallback ctx = None then
        let ctx = BRPeerAddKnownTxHashes E ctx knownHashes;
            ctx = (if completionCallback \<noteq> None
                   then ctx\<lparr>mempoolTime := Some (env_now E + 10), mempoolCallback := completionCallback\<rparr> else ctx)
        in BRPeerSendMessage E ctx [] MSG_MEMPOOL
      else case completionCallback of None \<Rightarrow> ctx | Some c \<Rightarrow> call E (Called c False) ctx)"

definition locators_message :: "UInt256 list \<Rightarrow> UInt256 \<Rightarrow> bytes" where
  "locators_message locators hashStop = UInt32SetLE PROTOCOL_VERSION @ varint_bytes (of_nat (length locators)) @
     concat (map UInt256Set locators) @ UInt256Set hashStop"

definition BRPeerSendGetheaders :: "peer_env \<Rightarrow> BRPeerContext \<Rightarrow> UInt256 list \<Rightarrow> UInt256 \<Rightarrow> BRPeerContext" where
  "BRPeerSendGetheaders E ctx locators hashStop =
     (if length locators > 0 then BRPeerSendMessage E ctx (locators_message locators hashStop) MSG_GETHEADERS else ctx)"

definition BRPeerSendGetblocks :: "peer_env \<Rightarrow> BRPeerContext \<Rightarrow> UInt256 list \<Rightarrow> UInt256 \<Rightarrow> BRPeerContext" where
  "BRPeerSendGetblocks E ctx locators hashStop =
     (if length locators > 0 then BRPeerSendMessage E ctx (locators_message locators hashStop) MSG_GETBLOCKS else ctx)"

text \<open>The items of \<open>inv\<close>, \<open>getdata\<close> and \<open>notfound\<close> messages.\<close>

definition inv_items :: "(u32 \<times> UInt256) list \<Rightarrow> bytes" where
  "inv_items its = varint_bytes (of_nat (length its)) @
     concat (map (\<lambda>(t, h). UInt32SetLE t @ UInt256Set h) its)"

definition BRPeerSendInv :: "peer_env \<Rightarrow> BRPeerContext \<Rightarrow> UInt256 list \<Rightarrow> BRPeerContext" where
  "BRPeerSendInv E ctx txHashes = (let
     knownCount = length (knownTxHashes ctx);
     ctx = BRPeerAddKnownTxHashes E ctx txHashes;
     new = drop knownCount (knownTxHashes ctx)
   in if length new > 0 then BRPeerSendMessage E ctx (inv_items (map (Pair inv_tx) new)) MSG_INV else ctx)"

definition BRPeerSendGetdata :: "peer_env \<Rightarrow> BRPeerContext \<Rightarrow> UInt256 list \<Rightarrow> UInt256 list \<Rightarrow> BRPeerContext" where
  "BRPeerSendGetdata E ctx txHashes blockHashes = (let n = length txHashes + length blockHashes in
     if n > MAX_GETDATA_HASHES then ctx
     else if n > 0 then
       BRPeerSendMessage E (ctx\<lparr>sentGetdata := True\<rparr>)
         (inv_items (map (Pair inv_tx) txHashes @ map (Pair inv_filtered_block) blockHashes)) MSG_GETDATA
     else ctx)"

definition BRPeerSendGetaddr :: "peer_env \<Rightarrow> BRPeerContext \<Rightarrow> BRPeerContext" where
  "BRPeerSendGetaddr E ctx = BRPeerSendMessage E (ctx\<lparr>sentGetaddr := True\<rparr>) [] MSG_GETADDR"

definition BRPeerSendPing :: "peer_env \<Rightarrow> BRPeerContext \<Rightarrow> callback \<Rightarrow> BRPeerContext" where
  "BRPeerSendPing E ctx c = BRPeerSendMessage E
     (ctx\<lparr>startTime := env_now E, pongCallback := pongCallback ctx @ [c]\<rparr>) (UInt64SetLE (ctx_nonce ctx)) MSG_PING"

text \<open>The blocks from the last occurrence of \<open>fromBlock\<close> on.\<close>

definition blocks_from :: "UInt256 \<Rightarrow> UInt256 list \<Rightarrow> UInt256 list option" where
  "blocks_from fromBlock known = (let
     tail = takeWhile (\<lambda>h. h \<noteq> fromBlock) (rev known); i = length known - length tail
   in if i > 0 then Some (drop (i - 1) known) else None)"

definition BRPeerRerequestBlocks :: "peer_env \<Rightarrow> BRPeerContext \<Rightarrow> UInt256 \<Rightarrow> BRPeerContext" where
  "BRPeerRerequestBlocks E ctx fromBlock = (case blocks_from fromBlock (knownBlockHashes ctx) of
     None \<Rightarrow> ctx
   | Some known \<Rightarrow> BRPeerSendGetdata E (ctx\<lparr>knownBlockHashes := known\<rparr>) [] known)"

section \<open>Receiving\<close>

text \<open>A read of \<open>n\<close> bytes of the message at a \<open>size_t\<close> offset.\<close>

definition peek :: "bytes \<Rightarrow> u64 \<Rightarrow> nat \<Rightarrow> (bytes \<Rightarrow> 'a) \<Rightarrow> 'a option" where
  "peek msg off n get = (if unat off + n \<le> length msg then Some (get (drop (unat off) msg)) else None)"

text \<open>The count of items of \<open>n\<close> bytes with the offset behind it; \<open>None\<close> when the message is too short.\<close>

definition item_count :: "bytes \<Rightarrow> u64 \<Rightarrow> (u64 \<times> u64) option" where
  "item_count msg n = (case BRVarInt msg of (cnt, len) \<Rightarrow> let off = of_nat len in
     if off = 0 \<or> off + cnt * n > of_nat (length msg) then None else Some (cnt, off))"

definition BRPeerDidConnect :: "peer_env \<Rightarrow> BRPeerContext \<Rightarrow> BRPeerContext" where
  "BRPeerDidConnect E ctx =
     (if status ctx = BRPeerStatusConnecting \<and> sentVerack ctx \<and> gotVerack ctx
      then call E Connected (ctx\<lparr>disconnectTime := None, status := BRPeerStatusConnected\<rparr>) else ctx)"

definition BRPeerAcceptVersionMessage :: "peer_env \<Rightarrow> BRPeerContext \<Rightarrow> bytes \<Rightarrow> (BRPeerContext \<times> bool) option" where
  "BRPeerAcceptVersionMessage E ctx msg =
     (if 85 > length msg then Some (ctx, False)
      else do {
        let ctx = ctx\<lparr>ctx_version := UInt32GetLE msg,
          peer := (peer ctx)\<lparr>p_services := UInt64GetLE (drop 4 msg), p_timestamp := UInt64GetLE (drop 12 msg)\<rparr>\<rparr>;
        let (strLen, len) = varint_at msg 80;
        let off = 80 + len;
        if off + strLen + 4 > of_nat (length msg) then Some (ctx, False)
        else if ctx_version ctx < MIN_PROTO_VERSION then Some (ctx, False)
        else do {
          agent \<leftarrow> slice msg off strLen;
          height \<leftarrow> peek msg (off + strLen) 4 UInt32GetLE;
          Some (BRPeerSendVerackMessage E (ctx\<lparr>useragent := agent @ [0], lastblock := height\<rparr>), True) } })"

definition BRPeerAcceptVerackMessage :: "peer_env \<Rightarrow> BRPeerContext \<Rightarrow> bytes \<Rightarrow> (BRPeerContext \<times> bool) option" where
  "BRPeerAcceptVerackMessage E ctx msg = Some
     (if gotVerack ctx then ctx
      else BRPeerDidConnect E (ctx\<lparr>pingTime := Some (env_now E - startTime ctx), startTime := 0, gotVerack := True\<rparr>),
      True)"

text \<open>The member \<open>flags\<close> of a relayed address is not set by the code.\<close>

definition addr_item :: "peer_env \<Rightarrow> bytes \<Rightarrow> u64 \<Rightarrow> nat \<Rightarrow> BRPeer option" where
  "addr_item E msg off i = do {
     let off = off + 30 * of_nat i;
     t \<leftarrow> peek msg off 4 UInt32GetLE;
     s \<leftarrow> peek msg (off + 4) 8 UInt64GetLE;
     a \<leftarrow> peek msg (off + 12) 16 UInt128Get;
     p \<leftarrow> peek msg (off + 28) 2 UInt16GetBE;
     Some \<lparr>p_address = a, p_port = p, p_services = s, p_timestamp = ucast t, p_flags = 0\<rparr> }"

definition addr_time :: "peer_env \<Rightarrow> BRPeer \<Rightarrow> BRPeer" where
  "addr_time E p = (let
     t = (if p_timestamp p > env_time E + 10 * 60 \<or> p_timestamp p = 0 then env_time E - 5 * 24 * 60 * 60 else p_timestamp p)
   in p\<lparr>p_timestamp := t - 2 * 60 * 60\<rparr>)"

fun option_list :: "'a option list \<Rightarrow> 'a list option" where
  "option_list [] = Some []"
| "option_list (x # xs) = do { y \<leftarrow> x; ys \<leftarrow> option_list xs; Some (y # ys) }"

definition BRPeerAcceptAddrMessage :: "peer_env \<Rightarrow> BRPeerContext \<Rightarrow> bytes \<Rightarrow> (BRPeerContext \<times> bool) option" where
  "BRPeerAcceptAddrMessage E ctx msg = (case item_count msg 30 of
     None \<Rightarrow> Some (ctx, False)
   | Some (cnt, off) \<Rightarrow>
       if unat cnt > 1000 then Some (ctx, True)
       else if sentGetaddr ctx then do {
         ps \<leftarrow> option_list (map (addr_item E msg off) [0..<unat cnt]);
         let ps = map (addr_time E) (filter (\<lambda>p. p_services p AND SERVICES_NODE_NETWORK \<noteq> 0 \<and> BRPeerIsIPv4 p) ps);
         Some (if length ps > 0 then call E (RelayedPeers ps) ctx else ctx, True) }
       else Some (ctx, True))"

text \<open>The type and hash of item \<open>i\<close>.\<close>

definition inv_item :: "bytes \<Rightarrow> u64 \<Rightarrow> nat \<Rightarrow> (u32 \<times> UInt256) option" where
  "inv_item msg off i = do {
     let off = off + 36 * of_nat i;
     t \<leftarrow> peek msg off 4 UInt32GetLE;
     h \<leftarrow> peek msg (off + 4) 32 UInt256Get;
     Some (t, h) }"

definition inv_list :: "bytes \<Rightarrow> u64 \<Rightarrow> u64 \<Rightarrow> (u32 \<times> UInt256) list option" where
  "inv_list msg off cnt = option_list (map (inv_item msg off) [0..<unat cnt])"

definition of_types :: "u32 set \<Rightarrow> (u32 \<times> UInt256) list \<Rightarrow> UInt256 list" where
  "of_types ts its = map snd (filter (\<lambda>(t, h). t \<in> ts) its)"

function trim_known :: "UInt256 list \<Rightarrow> UInt256 list" where
  "trim_known known =
     (if length known > MAX_GETDATA_HASHES then trim_known (drop (length known div 3) known) else known)"
  by pat_completeness auto
termination by (relation "measure length") (auto simp: MAX_GETDATA_HASHES_def)

declare trim_known.simps [simp del]

text \<open>The transactions of an \<open>inv\<close>: a known one is reported, the unknown ones are collected.\<close>

fun inv_txs :: "peer_env \<Rightarrow> BRPeerContext \<Rightarrow> UInt256 list \<Rightarrow> BRPeerContext \<times> UInt256 list" where
  "inv_txs E ctx [] = (ctx, [])"
| "inv_txs E ctx (h # hs) =
     (if h \<in> knownTxHashSet ctx then inv_txs E (call E (HasTx h) ctx) hs
      else case inv_txs E ctx hs of (ctx, new) \<Rightarrow> (ctx, h # new))"

definition inv_mempool :: "peer_env \<Rightarrow> BRPeerContext \<Rightarrow> BRPeerContext" where
  "inv_mempool E ctx = (BRPeerSendPing E ctx (mempoolCallback ctx))\<lparr>mempoolCallback := None, mempoolTime := None\<rparr>"

text \<open>The blocks of an \<open>inv\<close>: they are remembered, and the ones to request are left.\<close>

definition inv_blocks :: "BRPeerContext \<Rightarrow> UInt256 list \<Rightarrow> BRPeerContext \<times> UInt256 list" where
  "inv_blocks ctx blocks = (let
     blocks = (if \<not> sentFilter ctx \<and> \<not> sentGetblocks ctx then [] else blocks);
     blocks = (if length blocks = 1 \<and> lastBlockHash ctx = blocks ! 0 then [] else blocks);
     ctx = (if length blocks = 1 then ctx\<lparr>lastBlockHash := blocks ! 0\<rparr> else ctx)
   in (ctx\<lparr>knownBlockHashes := trim_known (knownBlockHashes ctx @ blocks)\<rparr>,
       if needsFilterUpdate ctx then [] else blocks))"

definition inv_request :: "peer_env \<Rightarrow> BRPeerContext \<Rightarrow> UInt256 list \<Rightarrow> UInt256 list \<Rightarrow> BRPeerContext" where
  "inv_request E ctx new blocks = (let
     ctx = (if length new > 0 \<or> length blocks > 0 then BRPeerSendGetdata E ctx new blocks else ctx)
   in if length blocks \<ge> 500 then BRPeerSendGetblocks E ctx [last blocks, hd blocks] 0 else ctx)"

definition accept_inv :: "peer_env \<Rightarrow> BRPeerContext \<Rightarrow> UInt256 list \<Rightarrow> UInt256 list \<Rightarrow> BRPeerContext" where
  "accept_inv E ctx txs blocks = (let
     (ctx, blocks) = inv_blocks ctx blocks;
     (ctx, new) = inv_txs E ctx txs;
     ctx = inv_request E (BRPeerAddKnownTxHashes E ctx new) new blocks
   in if length txs > 0 \<and> mempoolCallback ctx \<noteq> None then inv_mempool E ctx else ctx)"

definition BRPeerAcceptInvMessage :: "peer_env \<Rightarrow> BRPeerContext \<Rightarrow> bytes \<Rightarrow> (BRPeerContext \<times> bool) option" where
  "BRPeerAcceptInvMessage E ctx msg = (case item_count msg 36 of
     None \<Rightarrow> Some (ctx, False)
   | Some (cnt, off) \<Rightarrow>
       if unat cnt > MAX_GETDATA_HASHES then Some (ctx, True)
       else do {
         its \<leftarrow> inv_list msg off cnt;
         let txs = of_types {inv_tx} its;
         let blocks = of_types {inv_block} its;
         if length txs > 0 \<and> \<not> sentFilter ctx \<and> \<not> sentMempool ctx \<and> \<not> sentGetblocks ctx then Some (ctx, False)
         else if length txs > 10000 then Some (ctx, False)
         else if currentBlockHeight ctx > 0 \<and> length blocks > 2 \<and> length blocks < 500 \<and>
             unat (currentBlockHeight ctx) + length (knownBlockHashes ctx) + length blocks < unat (lastblock ctx)
         then Some (ctx, False)
         else Some (accept_inv E ctx txs blocks, True) })"

text \<open>A transaction of the current block has arrived.\<close>

definition rm_block_tx :: "'a \<Rightarrow> 'a list \<Rightarrow> 'a list" where
  "rm_block_tx x xs = rev (remove1 x (rev xs))"

definition block_tx_arrived :: "peer_env \<Rightarrow> BRPeerContext \<Rightarrow> UInt256 \<Rightarrow> BRPeerContext" where
  "block_tx_arrived E ctx h = (case currentBlock ctx of
     None \<Rightarrow> ctx
   | Some block \<Rightarrow> let
       ctx = ctx\<lparr>currentBlockTxHashes := rm_block_tx h (currentBlockTxHashes ctx)\<rparr>
     in if currentBlockTxHashes ctx = [] then call E (RelayedBlock block) (ctx\<lparr>currentBlock := None\<rparr>) else ctx)"

definition BRPeerAcceptTxMessage :: "peer_env \<Rightarrow> BRPeerContext \<Rightarrow> bytes \<Rightarrow> (BRPeerContext \<times> bool) option" where
  "BRPeerAcceptTxMessage E ctx msg = do {
     tx \<leftarrow> BRTransactionParse (env_testnet E) msg;
     Some (case tx of
         None \<Rightarrow> (ctx, False)
       | Some tx \<Rightarrow>
           if \<not> sentFilter ctx \<and> \<not> sentGetdata ctx then (ctx, False)
           else (block_tx_arrived E (call E (RelayedTx tx) ctx) (txHash tx), True)) }"

text \<open>The headers: the time of header \<open>i\<close>, the hash of its 80 bytes, and the first of the next ones that is not old.\<close>

definition header_time :: "bytes \<Rightarrow> u64 \<Rightarrow> u64 \<Rightarrow> u32 option" where
  "header_time msg off i = peek msg (off + 81 * i + 68) 4 UInt32GetLE"

definition header_hash :: "bytes \<Rightarrow> u64 \<Rightarrow> u64 \<Rightarrow> UInt256 option" where
  "header_hash msg off i = peek msg (off + 81 * i) 80 (\<lambda>b. UInt256Get (BRSHA256_2 (take 80 b)))"

definition near_key_time :: "BRPeerContext \<Rightarrow> u32 \<Rightarrow> bool" where
  "near_key_time ctx t \<longleftrightarrow> t + 7 * 24 * 60 * 60 + BLOCK_MAX_TIME_DRIFT \<ge> earliestKeyTime ctx"

fun header_scan :: "BRPeerContext \<Rightarrow> bytes \<Rightarrow> u64 \<Rightarrow> nat \<Rightarrow> u64 \<Rightarrow> u64 option" where
  "header_scan ctx msg off 0 i = Some i"
| "header_scan ctx msg off (Suc n) i = do {
     t \<leftarrow> header_time msg off i;
     if t > 0 \<and> \<not> near_key_time ctx t then header_scan ctx msg off n (i + 1) else Some i }"

fun header_blocks :: "peer_env \<Rightarrow> BRPeerContext \<Rightarrow> bytes \<Rightarrow> u64 \<Rightarrow> nat \<Rightarrow> u64 \<Rightarrow> (BRPeerContext \<times> bool) option" where
  "header_blocks E ctx msg off 0 i = Some (ctx, True)"
| "header_blocks E ctx msg off (Suc n) i = do {
     h \<leftarrow> peek msg (off + 81 * i) 81 (take 81);
     b \<leftarrow> BRMerkleBlockParse (env_pow E) (env_address E) h;
     b \<leftarrow> b;
     ok \<leftarrow> BRMerkleBlockIsValid b (ucast (env_time E));
     if \<not> ok then Some (ctx, False) else header_blocks E (call E (RelayedBlock b) ctx) msg off n (i + 1) }"

definition BRPeerAcceptHeadersMessage :: "peer_env \<Rightarrow> BRPeerContext \<Rightarrow> bytes \<Rightarrow> (BRPeerContext \<times> bool) option" where
  "BRPeerAcceptHeadersMessage E ctx msg = (case item_count msg 81 of
     None \<Rightarrow> Some (ctx, False)
   | Some (cnt, off) \<Rightarrow> do {
       t \<leftarrow> (if cnt > 0 then header_time msg off (cnt - 1) else Some 0);
       let recent = (t > 0 \<and> near_key_time ctx t);
       if cnt \<ge> 2000 \<or> recent then do {
         newest \<leftarrow> header_hash msg off (cnt - 1);
         first \<leftarrow> header_hash msg off 0;
         ctx \<leftarrow> (if recent then do {
             i \<leftarrow> header_scan ctx msg off (unat cnt - 1) 1;
             h \<leftarrow> header_hash msg off (i - 1);
             Some (BRPeerSendGetblocks E ctx [h, first] 0) }
           else Some (BRPeerSendGetheaders E ctx [newest, first] 0));
         header_blocks E ctx msg off (unat cnt) 0 }
       else Some (ctx, False) })"

definition BRPeerAcceptGetaddrMessage :: "peer_env \<Rightarrow> BRPeerContext \<Rightarrow> bytes \<Rightarrow> (BRPeerContext \<times> bool) option" where
  "BRPeerAcceptGetaddrMessage E ctx msg = Some (BRPeerSendAddr E ctx, True)"

text \<open>What is sent for a transaction, and the items of a \<open>getdata\<close> one after the other.\<close>

definition tx_message :: "BRTransaction \<Rightarrow> bytes" where
  "tx_message tx = (case BRTransactionSerialize tx (Some (replicate (snd (BRTransactionSerialize tx None)) 0)) of
     (b, n) \<Rightarrow> take n (the b))"

fun getdata_items :: "peer_env \<Rightarrow> BRPeerContext \<Rightarrow> (u32 \<times> UInt256) list \<Rightarrow> BRPeerContext \<times> (u32 \<times> UInt256) list" where
  "getdata_items E ctx [] = (ctx, [])"
| "getdata_items E ctx ((t, h) # its) = (let
     tx = (if t = inv_tx then env_requestedTx E ctx h else None);
     ctx = (if t = inv_tx then call E (RequestedTx h) ctx else ctx)
   in case tx of
        Some tx \<Rightarrow>
          if BRTransactionSize tx < TX_MAX_SIZE then getdata_items E (BRPeerSendMessage E ctx (tx_message tx) MSG_TX) its
          else (case getdata_items E ctx its of (ctx, missing) \<Rightarrow> (ctx, (t, h) # missing))
      | None \<Rightarrow> (case getdata_items E ctx its of (ctx, missing) \<Rightarrow> (ctx, (t, h) # missing)))"

definition BRPeerAcceptGetdataMessage :: "peer_env \<Rightarrow> BRPeerContext \<Rightarrow> bytes \<Rightarrow> (BRPeerContext \<times> bool) option" where
  "BRPeerAcceptGetdataMessage E ctx msg = (case item_count msg 36 of
     None \<Rightarrow> Some (ctx, False)
   | Some (cnt, off) \<Rightarrow>
       if unat cnt > MAX_GETDATA_HASHES then Some (ctx, True)
       else do {
         its \<leftarrow> inv_list msg off cnt;
         Some (case getdata_items E ctx its of (ctx, missing) \<Rightarrow>
           (if missing = [] then ctx else BRPeerSendMessage E ctx (inv_items missing) MSG_NOTFOUND, True)) })"

definition BRPeerAcceptNotfoundMessage :: "peer_env \<Rightarrow> BRPeerContext \<Rightarrow> bytes \<Rightarrow> (BRPeerContext \<times> bool) option" where
  "BRPeerAcceptNotfoundMessage E ctx msg = (case item_count msg 36 of
     None \<Rightarrow> Some (ctx, False)
   | Some (cnt, off) \<Rightarrow>
       if unat cnt > MAX_GETDATA_HASHES then Some (ctx, True)
       else do {
         its \<leftarrow> inv_list msg off cnt;
         Some (call E (Notfound (of_types {inv_tx} its) (of_types {inv_filtered_block, inv_block} its)) ctx, True) })"

definition BRPeerAcceptPingMessage :: "peer_env \<Rightarrow> BRPeerContext \<Rightarrow> bytes \<Rightarrow> (BRPeerContext \<times> bool) option" where
  "BRPeerAcceptPingMessage E ctx msg = Some
     (if 8 > length msg then (ctx, False) else (BRPeerSendMessage E ctx msg MSG_PONG, True))"

text \<open>The call of a callback of the caller, when it is not null.\<close>

definition call_opt :: "peer_env \<Rightarrow> callback \<Rightarrow> bool \<Rightarrow> BRPeerContext \<Rightarrow> BRPeerContext" where
  "call_opt E c success ctx = (case c of None \<Rightarrow> ctx | Some c \<Rightarrow> call E (Called c success) ctx)"

definition BRPeerAcceptPongMessage :: "peer_env \<Rightarrow> BRPeerContext \<Rightarrow> bytes \<Rightarrow> (BRPeerContext \<times> bool) option" where
  "BRPeerAcceptPongMessage E ctx msg = Some
     (if 8 > length msg then (ctx, False)
      else if UInt64GetLE msg \<noteq> ctx_nonce ctx then (ctx, False)
      else case pongCallback ctx of
        [] \<Rightarrow> (ctx, False)
      | c # cs \<Rightarrow> let
          ctx = (if startTime ctx > 1
                 then ctx\<lparr>pingTime := map_option (\<lambda>p. p / 2 + (env_now E - startTime ctx) / 2) (pingTime ctx), startTime := 0\<rparr>
                 else ctx)
        in (call_opt E c True (ctx\<lparr>pongCallback := cs\<rparr>), True))"

text \<open>The matched transactions of a block, as its two calls of \<open>BRMerkleBlockTxHashes\<close> find them.\<close>

definition block_tx_hashes :: "BRMerkleBlock \<Rightarrow> UInt256 list option" where
  "block_tx_hashes block = do {
     (_, n) \<leftarrow> BRMerkleBlockTxHashes block None;
     (hs, n) \<leftarrow> BRMerkleBlockTxHashes block (Some (replicate n 0));
     Some (take n (the hs)) }"

definition BRPeerAcceptMerkleblockMessage :: "peer_env \<Rightarrow> BRPeerContext \<Rightarrow> bytes \<Rightarrow> (BRPeerContext \<times> bool) option" where
  "BRPeerAcceptMerkleblockMessage E ctx msg = do {
     b \<leftarrow> BRMerkleBlockParse (env_pow E) (env_address E) msg;
     case b of
       None \<Rightarrow> Some (ctx, False)
     | Some block \<Rightarrow> do {
         ok \<leftarrow> BRMerkleBlockIsValid block (ucast (env_time E));
         if \<not> ok then Some (ctx, False)
         else if \<not> sentFilter ctx \<and> \<not> sentGetdata ctx then Some (ctx, False)
         else do {
           hs \<leftarrow> block_tx_hashes block;
           let ctx = ctx\<lparr>currentBlockTxHashes := currentBlockTxHashes ctx @
             filter (\<lambda>h. h \<notin> knownTxHashSet ctx) (rev hs)\<rparr>;
           Some (if length (currentBlockTxHashes ctx) > 0 then ctx\<lparr>currentBlock := Some block\<rparr>
                 else call E (RelayedBlock block) ctx, True) } } }"

text \<open>
  The rejection: \<open>hashLen\<close> is 0 in both cases. The strings \<open>type\<close> and \<open>reason\<close> are only logged;
  \<open>readable\<close> says that what \<open>strncpy\<close> reads for them lies in the message.
\<close>

definition readable :: "bytes \<Rightarrow> u64 \<Rightarrow> u64 \<Rightarrow> bool" where
  "readable msg off strLen \<longleftrightarrow> unat off \<le> length msg \<and>
     (0 \<in> set (drop (unat off) msg) \<or> unat off + (if strLen < 0x1000 then unat strLen else 0xfff) \<le> length msg)"

definition BRPeerAcceptRejectMessage :: "peer_env \<Rightarrow> BRPeerContext \<Rightarrow> bytes \<Rightarrow> (BRPeerContext \<times> bool) option" where
  "BRPeerAcceptRejectMessage E ctx msg = (case BRVarInt msg of (strLen, len) \<Rightarrow> let off = of_nat len in
     if off + strLen + 1 > of_nat (length msg) then Some (ctx, False)
     else if \<not> readable msg off strLen then None
     else do {
       let off = off + strLen;
       code \<leftarrow> peek msg off 1 (\<lambda>b. b ! 0);
       let off = off + 1;
       let (strLen, len) = varint_at msg off;
       let off = off + len;
       let hashLen = (0 :: u64);
       if off + strLen + hashLen > of_nat (length msg) then Some (ctx, False)
       else if \<not> readable msg off strLen then None
       else do {
         let off = off + strLen;
         txHash \<leftarrow> (if hashLen = 32 then peek msg off 32 UInt256Get else Some 0);
         Some (if txHash \<noteq> 0 then call E (RejectedTx txHash code) ctx else ctx, True) } })"

definition BRPeerAcceptFeeFilterMessage :: "peer_env \<Rightarrow> BRPeerContext \<Rightarrow> bytes \<Rightarrow> (BRPeerContext \<times> bool) option" where
  "BRPeerAcceptFeeFilterMessage E ctx msg = Some
     (if 8 > length msg then (ctx, False)
      else (call E (SetFeePerKb (UInt64GetLE msg)) (ctx\<lparr>ctx_feePerKb := UInt64GetLE msg\<rparr>), True))"

definition BRPeerAcceptMessage :: "peer_env \<Rightarrow> BRPeerContext \<Rightarrow> bytes \<Rightarrow> bytes \<Rightarrow> (BRPeerContext \<times> bool) option" where
  "BRPeerAcceptMessage E ctx msg type =
     (if currentBlock ctx \<noteq> None \<and> type \<noteq> MSG_TX
      then Some (ctx\<lparr>currentBlockTxHashes := [], currentBlock := None\<rparr>, False)
      else if type = MSG_VERSION then BRPeerAcceptVersionMessage E ctx msg
      else if type = MSG_VERACK then BRPeerAcceptVerackMessage E ctx msg
      else if type = MSG_ADDR then BRPeerAcceptAddrMessage E ctx msg
      else if type = MSG_INV then BRPeerAcceptInvMessage E ctx msg
      else if type = MSG_TX then BRPeerAcceptTxMessage E ctx msg
      else if type = MSG_HEADERS then BRPeerAcceptHeadersMessage E ctx msg
      else if type = MSG_GETADDR then BRPeerAcceptGetaddrMessage E ctx msg
      else if type = MSG_GETDATA then BRPeerAcceptGetdataMessage E ctx msg
      else if type = MSG_NOTFOUND then BRPeerAcceptNotfoundMessage E ctx msg
      else if type = MSG_PING then BRPeerAcceptPingMessage E ctx msg
      else if type = MSG_PONG then BRPeerAcceptPongMessage E ctx msg
      else if type = MSG_MERKLEBLOCK then BRPeerAcceptMerkleblockMessage E ctx msg
      else if type = MSG_REJECT then BRPeerAcceptRejectMessage E ctx msg
      else if type = MSG_FEEFILTER then BRPeerAcceptFeeFilterMessage E ctx msg
      else Some (ctx, True))"

section \<open>Connecting\<close>

definition BRPeerSetEarliestKeyTime :: "BRPeerContext \<Rightarrow> u32 \<Rightarrow> BRPeerContext" where
  "BRPeerSetEarliestKeyTime ctx t = ctx\<lparr>earliestKeyTime := t\<rparr>"

definition BRPeerSetCurrentBlockHeight :: "BRPeerContext \<Rightarrow> u32 \<Rightarrow> BRPeerContext" where
  "BRPeerSetCurrentBlockHeight ctx h = ctx\<lparr>currentBlockHeight := h\<rparr>"

definition BRPeerConnectStatus :: "BRPeerContext \<Rightarrow> BRPeerStatus" where
  "BRPeerConnectStatus ctx = status ctx"

text \<open>\<open>reachable\<close> is what the callback says of the network, \<open>created\<close> whether the thread could be started.\<close>

definition BRPeerConnect :: "peer_env \<Rightarrow> bool \<Rightarrow> bool \<Rightarrow> BRPeerContext \<Rightarrow> BRPeerContext" where
  "BRPeerConnect E reachable created ctx =
     (if status ctx = BRPeerStatusDisconnected \<or> waitingForNetwork ctx then
        let ctx = ctx\<lparr>status := BRPeerStatusConnecting\<rparr> in
        if \<not> reachable then ctx\<lparr>waitingForNetwork := True\<rparr>
        else let ctx = ctx\<lparr>waitingForNetwork := False, disconnectTime := Some (env_now E + CONNECT_TIMEOUT)\<rparr>
             in if created then ctx else ctx\<lparr>status := BRPeerStatusDisconnected\<rparr>
      else ctx)"

definition BRPeerScheduleDisconnect :: "peer_env \<Rightarrow> BRPeerContext \<Rightarrow> rat \<Rightarrow> BRPeerContext" where
  "BRPeerScheduleDisconnect E ctx seconds =
     ctx\<lparr>disconnectTime := (if seconds < 0 then None else Some (env_now E + seconds))\<rparr>"

definition BRPeerSetNeedsFilterUpdate :: "BRPeerContext \<Rightarrow> bool \<Rightarrow> BRPeerContext" where
  "BRPeerSetNeedsFilterUpdate ctx b = ctx\<lparr>needsFilterUpdate := b\<rparr>"

definition BRPeerVersion :: "BRPeerContext \<Rightarrow> u32" where "BRPeerVersion ctx = ctx_version ctx"
definition BRPeerUserAgent :: "BRPeerContext \<Rightarrow> bytes" where "BRPeerUserAgent ctx = useragent ctx"
definition BRPeerLastBlock :: "BRPeerContext \<Rightarrow> u32" where "BRPeerLastBlock ctx = lastblock ctx"
definition BRPeerPingTime :: "BRPeerContext \<Rightarrow> rat option" where "BRPeerPingTime ctx = pingTime ctx"
definition BRPeerFeePerKb :: "BRPeerContext \<Rightarrow> u64" where "BRPeerFeePerKb ctx = ctx_feePerKb ctx"

end
