(* ===== verification/PeerThread.thy ===== *)
theory PeerThread
  imports BRPeer
begin

text \<open>
  The thread of a connection, \<open>_peerThreadRoutine\<close> of \<open>src/Modules/core/BRPeer.c\<close>: it reads messages
  from the socket and gives them to \<open>BRPeerAcceptMessage\<close>.

  The socket is a list of what the calls of \<open>read\<close> find, each with the time after the call; a
  \<open>read\<close> that asks for fewer bytes than have arrived leaves the rest. \<open>Shut\<close> is a call of
  \<open>BRPeerDisconnect\<close> by another thread while this one reads. Every loop of the thread ends when the list
  does: it is then blocked in \<open>read\<close>, which is the outcome \<open>Blocked\<close>.
\<close>

datatype read_result = Got bytes | WouldBlock | Closed | ReadError int | Shut

type_synonym input = "(read_result \<times> rat) list"

definition ECONNRESET :: int where "ECONNRESET = 54"
definition ETIMEDOUT :: int where "ETIMEDOUT = 60"
definition EPROTO :: int where "EPROTO = 100"

text \<open>A \<open>read\<close> of at most \<open>k\<close> bytes, from the first entry of the input.\<close>

fun read_some :: "nat \<Rightarrow> read_result \<times> rat \<Rightarrow> input \<Rightarrow> bytes \<times> int option \<times> input" where
  "read_some k (Got bs, t) input =
     (if bs = [] then ([], Some ECONNRESET, input)
      else (take k bs, None, if length bs \<le> k then input else (Got (drop k bs), t) # input))"
| "read_some k (WouldBlock, t) input = ([], None, input)"
| "read_some k (Closed, t) input = ([], Some ECONNRESET, input)"
| "read_some k (ReadError e, t) input = ([], Some e, input)"
| "read_some k (Shut, t) input = ([], Some ECONNRESET, input)"

definition at_time :: "peer_env \<Rightarrow> rat \<Rightarrow> peer_env" where
  "at_time E t = E\<lparr>env_now := t\<rparr>"

text \<open>The search for the magic number, one byte at a time.\<close>

fun find_magic :: "bool \<Rightarrow> bytes \<Rightarrow> bytes" where
  "find_magic testnet (b # bs) =
     (if 4 \<le> length (b # bs) \<and> UInt32GetLE (b # bs) \<noteq> MAGIC_NUMBER testnet then find_magic testnet bs else b # bs)"
| "find_magic testnet [] = []"

definition mempool_timeout :: "peer_env \<Rightarrow> BRPeerContext \<Rightarrow> BRPeerContext" where
  "mempool_timeout E ctx = (case mempoolTime ctx of
     None \<Rightarrow> ctx
   | Some m \<Rightarrow> if env_now E \<ge> m
       then (BRPeerSendPing E ctx (mempoolCallback ctx))\<lparr>mempoolCallback := None, mempoolTime := None\<rparr> else ctx)"

definition timed_out :: "rat \<Rightarrow> rat option \<Rightarrow> bool" where
  "timed_out t limit \<longleftrightarrow> (case limit of None \<Rightarrow> False | Some l \<Rightarrow> t \<ge> l)"

datatype 'a outcome = Blocked BRPeerContext | Error int BRPeerContext input | Read 'a BRPeerContext rat input

text \<open>The measure of the loops: what is left to read.\<close>

fun input_size :: "input \<Rightarrow> nat" where
  "input_size [] = 0"
| "input_size ((Got bs, t) # input) = 1 + length bs + input_size input"
| "input_size ((_, t) # input) = 1 + input_size input"

lemma input_size_Cons: "input_size (r # input) = 1 + (case fst r of Got bs \<Rightarrow> length bs | _ \<Rightarrow> 0) + input_size input"
  by (cases r; cases "fst r") auto

lemma read_some_size:
  assumes "(bs, e, input') = read_some k r input" "0 < k"
  shows "input_size input' < input_size (r # input)"
  using assms by (cases "(k, r, input)" rule: read_some.cases) (auto split: if_splits)

text \<open>The loop that reads the header; \<open>t\<close> is the variable \<open>time\<close>.\<close>

function header_loop :: "peer_env \<Rightarrow> BRPeerContext \<Rightarrow> bytes \<Rightarrow> rat \<Rightarrow> input \<Rightarrow> bytes outcome" where
  "header_loop E ctx hdr t input =
     (if socket ctx < 0 \<or> length hdr \<ge> HEADER_LENGTH then Read hdr ctx t input
      else case input of
        [] \<Rightarrow> Blocked ctx
      | r # input \<Rightarrow> (case read_some (HEADER_LENGTH - length hdr) r input of (bs, e, input) \<Rightarrow> let
          ctx = (if fst r = Shut then BRPeerDisconnect ctx else ctx);
          e = (if e = None \<and> timed_out (snd r) (disconnectTime ctx) then Some ETIMEDOUT else e);
          ctx = (if e = None then mempool_timeout (at_time E (snd r)) ctx else ctx)
        in case e of
             Some e \<Rightarrow> Error e ctx input
           | None \<Rightarrow> header_loop E ctx (find_magic (env_testnet E) (hdr @ bs)) (snd r) input))"
  by pat_completeness auto
termination
  by (relation "measure (\<lambda>(E, ctx, hdr, t, input). input_size input)")
    (auto simp: HEADER_LENGTH_def dest!: read_some_size)

declare header_loop.simps [simp del]

function payload_loop :: "BRPeerContext \<Rightarrow> bytes \<Rightarrow> nat \<Rightarrow> rat \<Rightarrow> rat \<Rightarrow> input \<Rightarrow> bytes outcome" where
  "payload_loop ctx payload msgLen msgTimeout t input =
     (if socket ctx < 0 \<or> length payload \<ge> msgLen then Read payload ctx t input
      else case input of
        [] \<Rightarrow> Blocked ctx
      | r # input \<Rightarrow> (case read_some (msgLen - length payload) r input of (bs, e, input) \<Rightarrow> let
          ctx = (if fst r = Shut then BRPeerDisconnect ctx else ctx);
          msgTimeout = (if bs \<noteq> [] then snd r + MESSAGE_TIMEOUT else msgTimeout);
          e = (if e = None \<and> snd r \<ge> msgTimeout then Some ETIMEDOUT else e)
        in case e of
             Some e \<Rightarrow> Error e ctx input
           | None \<Rightarrow> payload_loop ctx (payload @ bs) msgLen msgTimeout (snd r) input))"
  by pat_completeness auto
termination
  by (relation "measure (\<lambda>(ctx, payload, msgLen, msgTimeout, t, input). input_size input)")
    (auto dest!: read_some_size)

declare payload_loop.simps [simp del]

text \<open>One turn of the outer loop: a message, what is wrong with it, and its handler.\<close>

datatype turn = Waiting BRPeerContext | Failed int BRPeerContext input | Done BRPeerContext rat input | Undefined

definition message_turn ::
  "peer_env \<Rightarrow> BRPeerContext \<Rightarrow> bytes \<Rightarrow> rat \<Rightarrow> input \<Rightarrow> turn" where
  "message_turn E ctx hdr t input = (let
     type = cstr (take 12 (drop 4 hdr));
     msgLen = UInt32GetLE (drop 16 hdr);
     checksum = UInt32GetLE (drop 20 hdr)
   in if unat msgLen > MAX_MSG_LENGTH then Failed EPROTO ctx input
      else case payload_loop ctx [] (unat msgLen) (t + MESSAGE_TIMEOUT) t input of
        Blocked ctx \<Rightarrow> Waiting ctx
      | Error e ctx input \<Rightarrow> Failed e ctx input
      | Read payload ctx t input \<Rightarrow>
          if length payload = unat msgLen then
            (if UInt32GetLE (BRSHA256_2 payload) \<noteq> checksum then Failed EPROTO ctx input
             else case BRPeerAcceptMessage (at_time E t) ctx payload type of
               None \<Rightarrow> Undefined
             | Some (ctx, r) \<Rightarrow> if r then Done ctx t input else Failed EPROTO ctx input)
          else Done ctx t input)"

text \<open>
  The test of \<open>header[15]\<close> is made even when the socket was closed before the header was complete; a
  byte that was not read in this turn is the one of the last turn, which passed the test.
\<close>

definition receive :: "peer_env \<Rightarrow> BRPeerContext \<Rightarrow> rat \<Rightarrow> input \<Rightarrow> turn" where
  "receive E ctx t input = (case header_loop E ctx [] t input of
     Blocked ctx \<Rightarrow> Waiting ctx
   | Error e ctx input \<Rightarrow> Failed e ctx input
   | Read hdr ctx t input \<Rightarrow>
       if 15 < length hdr \<and> hdr ! 15 \<noteq> 0 then Failed EPROTO ctx input
       else if length hdr = HEADER_LENGTH then message_turn E ctx hdr t input
       else Done ctx t input)"

text \<open>The outer loop, for at most \<open>n\<close> turns.\<close>

fun receive_loop :: "nat \<Rightarrow> peer_env \<Rightarrow> BRPeerContext \<Rightarrow> rat \<Rightarrow> input \<Rightarrow> turn" where
  "receive_loop 0 E ctx t input = Done ctx t input"
| "receive_loop (Suc n) E ctx t input =
     (if socket ctx < 0 then Done ctx t input
      else case receive E ctx t input of Done ctx t input \<Rightarrow> receive_loop n E ctx t input | other \<Rightarrow> other)"

text \<open>The end of the thread: all waiting callbacks are told that they failed.\<close>

partial_function (option) fail_pongs :: "peer_env \<Rightarrow> BRPeerContext \<Rightarrow> BRPeerContext option" where
  "fail_pongs E ctx = (case pongCallback ctx of
     [] \<Rightarrow> Some ctx
   | c # cs \<Rightarrow> fail_pongs E (call_opt E c False (ctx\<lparr>pongCallback := cs\<rparr>)))"

declare fail_pongs.simps [code]

definition thread_end :: "peer_env \<Rightarrow> int \<Rightarrow> BRPeerContext \<Rightarrow> BRPeerContext option" where
  "thread_end E e ctx = do {
     ctx \<leftarrow> fail_pongs E (ctx\<lparr>socket := - 1, status := BRPeerStatusDisconnected\<rparr>);
     let ctx = call_opt E (mempoolCallback ctx) False ctx;
     Some (call E (Disconnected e) (ctx\<lparr>mempoolCallback := None\<rparr>)) }"

definition thread_start :: "peer_env \<Rightarrow> u64 \<Rightarrow> BRPeerContext \<Rightarrow> BRPeerContext" where
  "thread_start E n ctx = BRPeerSendVersionMessage E n (ctx\<lparr>startTime := env_now E\<rparr>)"

text \<open>
  The routine with the outcome of \<open>_BRPeerOpenSocket\<close>, the number of an open socket or an error.
\<close>

definition peerThreadRoutine ::
  "peer_env \<Rightarrow> int + int \<Rightarrow> u64 \<Rightarrow> nat \<Rightarrow> BRPeerContext \<Rightarrow> input \<Rightarrow> turn" where
  "peerThreadRoutine E opened n turns ctx input = (let
     finish = (\<lambda>E e ctx. case thread_end E e ctx of None \<Rightarrow> Undefined | Some ctx \<Rightarrow> Failed e ctx input)
   in case opened of
     Inl e \<Rightarrow> finish E e ctx
   | Inr s \<Rightarrow> (case receive_loop turns E (thread_start E n (ctx\<lparr>socket := s\<rparr>)) 0 input of
       Done ctx t input \<Rightarrow> if socket ctx < 0 then finish (at_time E t) 0 ctx else Done ctx t input
     | Failed e ctx input \<Rightarrow> finish E e ctx
     | other \<Rightarrow> other))"

section \<open>Framing\<close>

text \<open>Pieces of a byte stream, all of which have arrived at time \<open>T\<close>.\<close>

definition pieces :: "rat \<Rightarrow> bytes list \<Rightarrow> input" where
  "pieces T cs = map (\<lambda>c. (Got c, T)) cs"

lemma read_some_pieces:
  assumes "0 < k" "c \<noteq> []" "[] \<notin> set cs"
  obtains cs' where "read_some k (Got c, T) (pieces T cs) = (take k c, None, pieces T cs')"
    "drop k c @ concat cs = concat cs'" "[] \<notin> set cs'" "length cs' \<le> Suc (length cs)"
    "length c \<le> k \<longrightarrow> cs' = cs"
proof (cases "length c \<le> k")
  case True
  then show thesis using assms that [of cs] by (simp add: pieces_def)
next
  case False
  then show thesis using assms that [of "drop k c # cs"] by (simp add: pieces_def)
qed

lemma find_magic_id:
  assumes "length hdr < 4 \<or> UInt32GetLE hdr = MAGIC_NUMBER testnet"
  shows "find_magic testnet hdr = hdr"
  using assms by (cases hdr) auto

lemma UInt32GetLE_take: "4 \<le> n \<Longrightarrow> 4 \<le> length b \<Longrightarrow> UInt32GetLE (take n b) = UInt32GetLE b"
  by (simp add: UInt32GetLE_def)

text \<open>A header that starts with the magic number is read whole, whatever the pieces.\<close>

lemma header_loop_reads:
  assumes "hdr @ concat cs = H @ rest" "length H = HEADER_LENGTH" "length hdr \<le> HEADER_LENGTH"
    and "UInt32GetLE H = MAGIC_NUMBER (env_testnet E)" "[] \<notin> set cs"
    and "socket ctx \<ge> 0" "\<not> timed_out T (disconnectTime ctx)" "\<not> timed_out T (mempoolTime ctx)"
    and "hdr = [] \<or> t = T"
  shows "\<exists>cs'. header_loop E ctx hdr t (pieces T cs) = Read H ctx T (pieces T cs') \<and>
    concat cs' = rest \<and> [] \<notin> set cs'"
  using assms(1,3,5,9)
proof (induction "input_size (pieces T cs)" arbitrary: hdr cs t rule: less_induct)
  case less
  show ?case
  proof (cases "length hdr = HEADER_LENGTH")
    case True
    then have "hdr = H" "concat cs = rest" using less.prems(1) assms(2) by simp_all
    moreover have "t = T" using less.prems(4) True by (auto simp: HEADER_LENGTH_def)
    ultimately show ?thesis using True less.prems(3)
      by (subst header_loop.simps) auto
  next
    case False
    then have lt: "length hdr < 24" using less.prems(2) by (simp add: HEADER_LENGTH_def)
    have "cs \<noteq> []"
      using arg_cong [OF less.prems(1), of length] assms(2) lt by (auto simp: HEADER_LENGTH_def)
    then obtain c ds where cs: "cs = c # ds" by (cases cs) auto
    then have c: "c \<noteq> []" "[] \<notin> set ds" using less.prems(3) by auto
    obtain cs' where r: "read_some (24 - length hdr) (Got c, T) (pieces T ds) = (take (24 - length hdr) c, None, pieces T cs')"
      "drop (24 - length hdr) c @ concat ds = concat cs'" "[] \<notin> set cs'"
      using lt c by (rule_tac read_some_pieces [of "24 - length hdr" c ds T]) auto
    define hdr' where "hdr' = hdr @ take (24 - length hdr) c"
    have eq: "hdr' @ concat cs' = H @ rest"
      using less.prems(1) r(2) by (simp add: hdr'_def cs flip: r(2)) (metis append.assoc append_take_drop_id)
    have len: "length hdr' \<le> 24" using lt by (simp add: hdr'_def)
    have h: "hdr' = take (length hdr') H"
      using eq len assms(2) by (metis HEADER_LENGTH_def append_eq_append_conv_if append_take_drop_id take_all_iff nle_le)
    then have "length hdr' < 4 \<or> UInt32GetLE hdr' = MAGIC_NUMBER (env_testnet E)"
      using UInt32GetLE_take [of "length hdr'" H] assms(2,4) by (cases "length hdr' < 4") (simp_all add: HEADER_LENGTH_def)
    then have m: "find_magic (env_testnet E) hdr' = hdr'" by (rule find_magic_id)
    have "input_size (pieces T cs') < input_size (pieces T cs)"
      using read_some_size [OF r(1) [symmetric]] lt by (simp add: cs pieces_def)
    then obtain cs'' where "header_loop E ctx hdr' T (pieces T cs') = Read H ctx T (pieces T cs'')"
      "concat cs'' = rest" "[] \<notin> set cs''"
      using less.hyps [of cs' hdr' T] eq len r(3) by (auto simp: HEADER_LENGTH_def)
    moreover have "header_loop E ctx hdr t (pieces T cs) = header_loop E ctx hdr' T (pieces T cs')"
      using lt assms(6-8) r(1) m
      by (subst header_loop.simps) (auto simp: cs pieces_def HEADER_LENGTH_def timed_out_def
          mempool_timeout_def at_time_def hdr'_def split: option.splits)
    ultimately show ?thesis by auto
  qed
qed

lemma payload_loop_reads:
  assumes "payload @ concat cs = P @ rest" "length payload \<le> length P" "[] \<notin> set cs"
    and "socket ctx \<ge> 0" "T < limit"
  shows "\<exists>cs'. payload_loop ctx payload (length P) limit T (pieces T cs) = Read P ctx T (pieces T cs') \<and>
    concat cs' = rest \<and> [] \<notin> set cs'"
  using assms(1-3,5)
proof (induction "input_size (pieces T cs)" arbitrary: payload cs limit rule: less_induct)
  case less
  show ?case
  proof (cases "length payload = length P")
    case True
    then have "payload = P" "concat cs = rest" using less.prems(1) by simp_all
    then show ?thesis using True less.prems(3) by (subst payload_loop.simps) auto
  next
    case False
    let ?k = "length P - length payload"
    have lt: "length payload < length P" using less.prems(2) False by simp
    have "cs \<noteq> []" using arg_cong [OF less.prems(1), of length] lt by auto
    then obtain c ds where cs: "cs = c # ds" by (cases cs) auto
    then have c: "c \<noteq> []" "[] \<notin> set ds" using less.prems(3) by auto
    obtain cs' where r: "read_some ?k (Got c, T) (pieces T ds) = (take ?k c, None, pieces T cs')"
      "drop ?k c @ concat ds = concat cs'" "[] \<notin> set cs'"
      using lt c by (rule_tac read_some_pieces [of ?k c ds T]) auto
    have eq: "(payload @ take ?k c) @ concat cs' = P @ rest"
      using less.prems(1) by (simp add: cs flip: r(2)) (metis append.assoc append_take_drop_id)
    have "input_size (pieces T cs') < input_size (pieces T cs)"
      using read_some_size [OF r(1) [symmetric]] lt by (simp add: cs pieces_def)
    moreover have "T < T + MESSAGE_TIMEOUT" by (simp add: MESSAGE_TIMEOUT_def)
    moreover have "length (payload @ take ?k c) \<le> length P" using lt by simp
    ultimately obtain cs'' where
      "payload_loop ctx (payload @ take ?k c) (length P) (T + MESSAGE_TIMEOUT) T (pieces T cs') = Read P ctx T (pieces T cs'')"
      "concat cs'' = rest" "[] \<notin> set cs''"
      using less.hyps [of cs' "payload @ take ?k c" "T + MESSAGE_TIMEOUT"] eq r(3) by auto
    moreover have "payload_loop ctx payload (length P) limit T (pieces T cs) =
        payload_loop ctx (payload @ take ?k c) (length P) (T + MESSAGE_TIMEOUT) T (pieces T cs')"
      using lt assms(4) r(1) c(1)
      by (subst payload_loop.simps) (auto simp: cs pieces_def MESSAGE_TIMEOUT_def)
    ultimately show ?thesis by auto
  qed
qed

text \<open>Messages that \<open>BRPeerSendMessage\<close> sends.\<close>

definition sendable :: "bytes \<times> bytes \<Rightarrow> bool" where
  "sendable m \<longleftrightarrow> length (fst m) < 12 \<and> 0 \<notin> set (fst m) \<and> length (snd m) \<le> MAX_MSG_LENGTH"

definition stream :: "bool \<Rightarrow> (bytes \<times> bytes) list \<Rightarrow> bytes" where
  "stream testnet ms = concat (map (\<lambda>(type, msg). message_frame testnet type msg) ms)"

definition frame_header :: "bool \<Rightarrow> bytes \<Rightarrow> bytes \<Rightarrow> bytes" where
  "frame_header testnet type msg = UInt32SetLE (MAGIC_NUMBER testnet) @ take 12 (type @ replicate 12 0) @
     UInt32SetLE (of_nat (length msg)) @ take 4 (BRSHA256_2 msg)"

lemma frame_header_fields:
  fixes testnet :: bool and type msg :: bytes
  assumes "sendable (type, msg)"
  defines "H \<equiv> frame_header testnet type msg"
  shows "length H = HEADER_LENGTH" "UInt32GetLE H = MAGIC_NUMBER testnet" "H ! 15 = 0"
    "cstr (take 12 (drop 4 H)) = type" "unat (UInt32GetLE (drop 16 H)) = length msg"
    "UInt32GetLE (drop 20 H) = UInt32GetLE (BRSHA256_2 msg)"
proof -
  define f where "f = take 12 (type @ replicate 12 0)"
  have ty: "length type < 12" "0 \<notin> set type" "length msg \<le> MAX_MSG_LENGTH" using assms(1) by (auto simp: sendable_def)
  then have f: "length f = 12" "f = type @ replicate (12 - length type) 0" by (simp_all add: f_def)
  have H: "H = UInt32SetLE (MAGIC_NUMBER testnet) @ f @ UInt32SetLE (of_nat (length msg)) @ take 4 (BRSHA256_2 msg)"
    by (simp add: H_def frame_header_def f_def)
  show "length H = HEADER_LENGTH" "UInt32GetLE H = MAGIC_NUMBER testnet"
    using f(1) by (simp_all add: H HEADER_LENGTH_def)
  have "H ! 15 = f ! 11" using f(1) by (simp add: H nth_append)
  also have "\<dots> = 0" using ty(1) by (simp add: f(2) nth_append)
  finally show "H ! 15 = 0" .
  have "take 12 (drop 4 H) = f" using f(1) by (simp add: H)
  moreover have "replicate (12 - length type) (0 :: u8) = 0 # replicate (11 - length type) 0"
    using ty(1) by (simp add: Suc_diff_le less_eq_Suc_le flip: replicate_Suc)
  ultimately show "cstr (take 12 (drop 4 H)) = type" using ty(2) by (simp add: f(2))
  have "drop 16 H = UInt32SetLE (of_nat (length msg)) @ take 4 (BRSHA256_2 msg)" using f(1) by (simp add: H)
  then show "unat (UInt32GetLE (drop 16 H)) = length msg"
    using ty(3) by (simp add: unat_of_nat_small MAX_MSG_LENGTH_def)
  have "drop 20 H = take 4 (BRSHA256_2 msg)" using f(1) by (simp add: H)
  then show "UInt32GetLE (drop 20 H) = UInt32GetLE (BRSHA256_2 msg)" by (simp add: UInt32GetLE_take)
qed

lemma receive_frame:
  assumes "concat cs = message_frame (env_testnet E) type msg @ rest" "[] \<notin> set cs" "sendable (type, msg)"
    and "socket ctx \<ge> 0" "\<not> timed_out T (disconnectTime ctx)" "\<not> timed_out T (mempoolTime ctx)"
    and "env_now E = T" "BRPeerAcceptMessage E ctx msg type = Some (ctx', True)"
  shows "\<exists>cs'. receive E ctx t (pieces T cs) = Done ctx' T (pieces T cs') \<and> concat cs' = rest \<and> [] \<notin> set cs'"
proof -
  define H where "H = frame_header (env_testnet E) type msg"
  note H = frame_header_fields [OF assms(3), where testnet = "env_testnet E", folded H_def]
  have "[] @ concat cs = H @ (msg @ rest)" using assms(1) by (simp add: H_def frame_header_def message_frame_def)
  from header_loop_reads [OF this H(1) _ H(2) assms(2,4,5,6)]
  obtain ds where ds: "header_loop E ctx [] t (pieces T cs) = Read H ctx T (pieces T ds)"
    "concat ds = msg @ rest" "[] \<notin> set ds" by auto
  have "[] @ concat ds = msg @ rest" using ds(2) by simp
  from payload_loop_reads [OF this _ ds(3) assms(4), of T "T + MESSAGE_TIMEOUT"]
  obtain cs' where cs': "payload_loop ctx [] (length msg) (T + MESSAGE_TIMEOUT) T (pieces T ds) = Read msg ctx T (pieces T cs')"
    "concat cs' = rest" "[] \<notin> set cs'" by (auto simp: MESSAGE_TIMEOUT_def)
  have "at_time E T = E" using assms(7) by (simp add: at_time_def)
  moreover have "length msg \<le> MAX_MSG_LENGTH" using assms(3) by (simp add: sendable_def)
  ultimately have "receive E ctx t (pieces T cs) = Done ctx' T (pieces T cs')"
    using H ds(1) cs'(1) assms(8) by (simp add: receive_def message_turn_def HEADER_LENGTH_def)
  then show ?thesis using cs'(2,3) by blast
qed

text \<open>The handlers accept the messages one after the other, without a time limit that has passed.\<close>

inductive accepts :: "peer_env \<Rightarrow> BRPeerContext \<Rightarrow> (bytes \<times> bytes) list \<Rightarrow> BRPeerContext \<Rightarrow> bool" for E where
  accepts_Nil: "accepts E ctx [] ctx"
| accepts_Cons: "socket ctx \<ge> 0 \<Longrightarrow> \<not> timed_out (env_now E) (disconnectTime ctx) \<Longrightarrow>
    \<not> timed_out (env_now E) (mempoolTime ctx) \<Longrightarrow> BRPeerAcceptMessage E ctx msg type = Some (ctx1, True) \<Longrightarrow>
    accepts E ctx1 ms ctx' \<Longrightarrow> accepts E ctx ((type, msg) # ms) ctx'"

text \<open>
  C11: the thread takes a stream of messages, as \<open>BRPeerSendMessage\<close> frames them, apart again, however
  the stream arrives in pieces: it hands exactly these messages to \<open>BRPeerAcceptMessage\<close>, in their order.
\<close>

theorem message_stream_received:
  assumes "accepts E ctx ms ctx'" "\<forall>m\<in>set ms. sendable m" "ms \<noteq> []"
    and "concat cs = stream (env_testnet E) ms" "[] \<notin> set cs"
  shows "receive_loop (length ms) E ctx t (map (\<lambda>c. (Got c, env_now E)) cs) = Done ctx' (env_now E) []"
proof -
  have "\<exists>t'. receive_loop (length ms) E ctx t (pieces (env_now E) cs) = Done ctx' t' [] \<and> (ms \<noteq> [] \<longrightarrow> t' = env_now E)"
    using assms(1,2,4,5)
  proof (induction arbitrary: cs t)
    case (accepts_Nil ctx)
    then have "cs = []" by (cases cs) (auto simp: stream_def)
    then show ?case by (simp add: pieces_def)
  next
    case (accepts_Cons ctx msg type ctx1 ms ctx')
    have "concat cs = message_frame (env_testnet E) type msg @ stream (env_testnet E) ms"
      using accepts_Cons.prems(2) by (simp add: stream_def)
    from receive_frame [OF this accepts_Cons.prems(3) _ accepts_Cons.hyps(1-3) refl accepts_Cons.hyps(4)]
    obtain ds where ds: "receive E ctx t (pieces (env_now E) cs) = Done ctx1 (env_now E) (pieces (env_now E) ds)"
      "concat ds = stream (env_testnet E) ms" "[] \<notin> set ds" using accepts_Cons.prems(1) by auto
    then show ?case using accepts_Cons.IH [of ds "env_now E"] accepts_Cons.prems(1) accepts_Cons.hyps(1,5)
      by (cases ms) (auto elim: accepts.cases)
  qed
  then show ?thesis using assms(3) by (auto simp: pieces_def)
qed

text \<open>Surroundings in which every write succeeds and the callbacks leave the connection alone.\<close>

definition quiet_env :: peer_env where
  "quiet_env = \<lparr>env_testnet = False, env_pow = (\<lambda>_. 0), env_address = 0, env_now = 100, env_time = 1500000000,
     env_moved = (\<lambda>_. False), env_sends = (\<lambda>_ _. True), env_call = (\<lambda>_ ctx. ctx),
     env_requestedTx = (\<lambda>_ _. None)\<rparr>"

definition open_peer :: BRPeerContext where
  "open_peer = BRPeerNew\<lparr>socket := 3, status := BRPeerStatusConnecting\<rparr>"

lemma stream_nonempty: "ms \<noteq> [] \<Longrightarrow> stream testnet ms \<noteq> []"
  by (cases ms) (auto simp: stream_def message_frame_def UInt32SetLE_def)

theorem message_stream_received_witness:
  "receive_loop 2 quiet_env open_peer 0
     [(Got (stream False [(MSG_PING, replicate 8 7), (MSG_GETADDR, [])]), 100)] =
   Done (open_peer\<lparr>events := [Sent MSG_PONG (replicate 8 7), Sent MSG_ADDR [0]]\<rparr>) 100 []"
proof -
  let ?ms = "[(MSG_PING, replicate 8 7), (MSG_GETADDR, [])]"
  have v: "varint_bytes 0 = [0]" by (simp add: varint_bytes_eq varint_enc_def)
  have "BRPeerAcceptMessage quiet_env open_peer (replicate 8 7) MSG_PING =
      Some (open_peer\<lparr>events := [Sent MSG_PONG (replicate 8 7)]\<rparr>, True)"
    by (simp add: BRPeerAcceptMessage_def msg_defs BRPeerAcceptPingMessage_def BRPeerSendMessage_def
        MAX_MSG_LENGTH_def quiet_env_def open_peer_def BRPeerNew_def log_event_def)
  moreover have "BRPeerAcceptMessage quiet_env (open_peer\<lparr>events := [Sent MSG_PONG (replicate 8 7)]\<rparr>) [] MSG_GETADDR =
      Some (open_peer\<lparr>events := [Sent MSG_PONG (replicate 8 7), Sent MSG_ADDR [0]]\<rparr>, True)"
    by (simp add: BRPeerAcceptMessage_def msg_defs BRPeerAcceptGetaddrMessage_def BRPeerSendAddr_def
        BRPeerSendMessage_def MAX_MSG_LENGTH_def quiet_env_def open_peer_def BRPeerNew_def log_event_def v)
  ultimately have "accepts quiet_env open_peer ?ms
      (open_peer\<lparr>events := [Sent MSG_PONG (replicate 8 7), Sent MSG_ADDR [0]]\<rparr>)"
    by (auto intro!: accepts.intros simp: open_peer_def BRPeerNew_def timed_out_def)
  moreover have "\<forall>m\<in>set ?ms. sendable m" by (simp add: sendable_def msg_defs MAX_MSG_LENGTH_def)
  moreover have "env_now quiet_env = 100" "env_testnet quiet_env = False" by (simp_all add: quiet_env_def)
  ultimately show ?thesis
    using message_stream_received [of quiet_env open_peer ?ms _ "[stream False ?ms]" 0] stream_nonempty [of ?ms False]
    by (simp add: numeral_2_eq_2 del: receive_loop.simps)
qed

end
