(* ===== verification/PeerProperties.thy ===== *)
theory PeerProperties
  imports PeerThread
begin

text \<open>
  What the handlers of a connection keep and do. Callbacks of the owner of a connection call its public
  functions; \<open>peer_op\<close> is one such call, and \<open>calls_peer E\<close> says of the surroundings that their callbacks
  change the connection in no other way. Under this condition the handlers keep the invariant
  \<open>peer_ok\<close>.
\<close>

section \<open>What the functions leave alone\<close>

text \<open>The state without the socket and the events, which are all that a write changes.\<close>

definition core :: "BRPeerContext \<Rightarrow> BRPeerContext" where
  "core ctx = ctx\<lparr>socket := 0, events := []\<rparr>"

lemma core_eqD:
  assumes "core ctx' = core ctx"
  shows "status ctx' = status ctx" "sentVerack ctx' = sentVerack ctx" "gotVerack ctx' = gotVerack ctx"
    "knownTxHashes ctx' = knownTxHashes ctx" "knownTxHashSet ctx' = knownTxHashSet ctx"
    "currentBlock ctx' = currentBlock ctx" "currentBlockTxHashes ctx' = currentBlockTxHashes ctx"
    "knownBlockHashes ctx' = knownBlockHashes ctx" "pongCallback ctx' = pongCallback ctx"
    "mempoolCallback ctx' = mempoolCallback ctx"
  using assms by (cases ctx; cases ctx'; simp add: core_def)+

lemma core_disconnect [simp]: "core (BRPeerDisconnect ctx) = core ctx"
  by (simp add: core_def BRPeerDisconnect_def)

lemma core_send [simp]: "core (BRPeerSendMessage E ctx msg type) = core ctx"
  by (simp add: BRPeerSendMessage_def log_event_def core_def BRPeerDisconnect_def)

lemma core_log [simp]: "core (log_event e ctx) = core ctx"
  by (simp add: log_event_def core_def)

lemmas send_core = core_eqD [OF core_send] core_eqD [OF core_log] core_eqD [OF core_disconnect]

declare send_core [simp]

text \<open>The blocks that were relayed.\<close>

fun relayed_blocks :: "peer_event list \<Rightarrow> BRMerkleBlock list" where
  "relayed_blocks [] = []"
| "relayed_blocks (RelayedBlock b # es) = b # relayed_blocks es"
| "relayed_blocks (_ # es) = relayed_blocks es"

lemma relayed_append [simp]: "relayed_blocks (es @ es') = relayed_blocks es @ relayed_blocks es'"
  by (induction es rule: relayed_blocks.induct) auto

lemma relayed_send [simp]:
  "relayed_blocks (events (BRPeerSendMessage E ctx msg type)) = relayed_blocks (events ctx)"
  by (simp add: BRPeerSendMessage_def log_event_def BRPeerDisconnect_def)

section \<open>The public functions\<close>

text \<open>
  A call of a public function. A request for the pool that is refused calls back at once: what the
  callback does are further calls.
\<close>

inductive peer_op :: "BRPeerContext \<Rightarrow> BRPeerContext \<Rightarrow> bool" where
  "peer_op ctx (BRPeerSendMessage E ctx msg type)"
| "peer_op ctx (BRPeerSendFilterload E ctx flt)"
| "\<not> sentMempool ctx \<Longrightarrow> mempoolCallback ctx = None \<Longrightarrow> peer_op ctx (BRPeerSendMempool E ctx hs c)"
| "peer_op ctx (ctx\<lparr>sentMempool := True\<rparr>)"
| "peer_op ctx (log_event (Called c False) (ctx\<lparr>sentMempool := True\<rparr>))"
| "peer_op ctx (BRPeerSendGetheaders E ctx hs stop)"
| "peer_op ctx (BRPeerSendGetblocks E ctx hs stop)"
| "peer_op ctx (BRPeerSendInv E ctx hs)"
| "peer_op ctx (BRPeerSendGetdata E ctx hs bs)"
| "peer_op ctx (BRPeerSendGetaddr E ctx)"
| "peer_op ctx (BRPeerSendPing E ctx c)"
| "peer_op ctx (BRPeerRerequestBlocks E ctx h)"
| "peer_op ctx (BRPeerDisconnect ctx)"
| "peer_op ctx (BRPeerScheduleDisconnect E ctx s)"
| "peer_op ctx (BRPeerSetNeedsFilterUpdate ctx b)"
| "peer_op ctx (BRPeerSetEarliestKeyTime ctx t)"
| "peer_op ctx (BRPeerSetCurrentBlockHeight ctx h)"
| "peer_op ctx (BRPeerConnect E reachable created ctx)"

definition calls_peer :: "peer_env \<Rightarrow> bool" where
  "calls_peer E \<longleftrightarrow> (\<forall>e ctx. peer_op\<^sup>*\<^sup>* ctx (env_call E e ctx))"

text \<open>What these calls keep: the current block and the blocks relayed.\<close>

definition block_part :: "BRPeerContext \<Rightarrow> BRMerkleBlock option \<times> UInt256 list \<times> BRMerkleBlock list" where
  "block_part ctx = (currentBlock ctx, currentBlockTxHashes ctx, relayed_blocks (events ctx))"

lemma block_part_send [simp]: "block_part (BRPeerSendMessage E ctx msg type) = block_part ctx"
  by (simp add: block_part_def)

lemma add_known_hash_eq:
  "add_known_hash E ctx h = ctx\<lparr>knownTxHashes := knownTxHashes (add_known_hash E ctx h),
     knownTxHashSet := knownTxHashSet (add_known_hash E ctx h)\<rparr>"
  by (simp add: add_known_hash_def Let_def)

lemma add_known_only:
  "\<exists>known S. BRPeerAddKnownTxHashes E ctx hs = ctx\<lparr>knownTxHashes := known, knownTxHashSet := S\<rparr>"
  unfolding BRPeerAddKnownTxHashes_def
proof (induction hs arbitrary: ctx)
  case Nil
  show ?case by (rule exI [of _ "knownTxHashes ctx"], rule exI [of _ "knownTxHashSet ctx"]) simp
next
  case (Cons h hs)
  obtain known S where "foldl (add_known_hash E) (add_known_hash E ctx h) hs =
      (add_known_hash E ctx h)\<lparr>knownTxHashes := known, knownTxHashSet := S\<rparr>"
    using Cons [of "add_known_hash E ctx h"] by blast
  also have "\<dots> = ctx\<lparr>knownTxHashes := known, knownTxHashSet := S\<rparr>"
    by (subst add_known_hash_eq) simp
  finally show ?case by auto
qed

lemma add_known_fields [simp]:
  "block_part (BRPeerAddKnownTxHashes E ctx hs) = block_part ctx"
  "status (BRPeerAddKnownTxHashes E ctx hs) = status ctx"
  "events (BRPeerAddKnownTxHashes E ctx hs) = events ctx"
  "socket (BRPeerAddKnownTxHashes E ctx hs) = socket ctx"
  "sentVerack (BRPeerAddKnownTxHashes E ctx hs) = sentVerack ctx"
  "gotVerack (BRPeerAddKnownTxHashes E ctx hs) = gotVerack ctx"
  "knownBlockHashes (BRPeerAddKnownTxHashes E ctx hs) = knownBlockHashes ctx"
  "currentBlock (BRPeerAddKnownTxHashes E ctx hs) = currentBlock ctx"
  "currentBlockTxHashes (BRPeerAddKnownTxHashes E ctx hs) = currentBlockTxHashes ctx"
  using add_known_only [of E ctx hs] by (auto simp: block_part_def)

lemma peer_op_block_part: "peer_op ctx ctx' \<Longrightarrow> block_part ctx' = block_part ctx"
  by (induction rule: peer_op.induct)
    (auto simp: BRPeerSendFilterload_def BRPeerSendMempool_def BRPeerSendGetheaders_def BRPeerSendGetblocks_def
      BRPeerSendInv_def BRPeerSendGetdata_def BRPeerSendGetaddr_def BRPeerSendPing_def BRPeerRerequestBlocks_def
      BRPeerDisconnect_def BRPeerScheduleDisconnect_def BRPeerSetNeedsFilterUpdate_def
      BRPeerSetEarliestKeyTime_def BRPeerSetCurrentBlockHeight_def BRPeerConnect_def log_event_def
      Let_def block_part_def split: option.splits)

section \<open>The invariant\<close>

definition peer_ok :: "BRPeerContext \<Rightarrow> bool" where
  "peer_ok ctx \<longleftrightarrow>
     (status ctx = BRPeerStatusConnected \<longrightarrow> sentVerack ctx \<and> gotVerack ctx) \<and>
     knownTxHashSet ctx = set (knownTxHashes ctx) \<and> distinct (knownTxHashes ctx) \<and>
     (currentBlock ctx = None \<longleftrightarrow> currentBlockTxHashes ctx = []) \<and>
     length (knownBlockHashes ctx) \<le> MAX_GETDATA_HASHES"

lemma peer_ok_core:
  assumes "core ctx' = core ctx"
  shows "peer_ok ctx' = peer_ok ctx"
  unfolding peer_ok_def core_eqD [OF assms] by (rule refl)

lemma peer_ok_send [simp]:
  "peer_ok (BRPeerSendMessage E ctx msg type) = peer_ok ctx" "peer_ok (log_event e ctx) = peer_ok ctx"
  "peer_ok (BRPeerDisconnect ctx) = peer_ok ctx"
  by (rule peer_ok_core, simp)+

lemma peer_ok_add_known:
  assumes "peer_ok ctx"
  shows "peer_ok (BRPeerAddKnownTxHashes E ctx hs)"
  unfolding BRPeerAddKnownTxHashes_def using assms
  by (induction hs arbitrary: ctx) (auto simp: peer_ok_def add_known_hash_def Let_def)

lemma add_known_set:
  assumes "peer_ok ctx"
  shows "knownTxHashSet (BRPeerAddKnownTxHashes E ctx hs) = knownTxHashSet ctx \<union> set hs"
  unfolding BRPeerAddKnownTxHashes_def using assms
proof (induction hs arbitrary: ctx)
  case (Cons h hs)
  have "peer_ok (add_known_hash E ctx h)"
    using peer_ok_add_known [OF Cons.prems, of E "[h]"] by (simp add: BRPeerAddKnownTxHashes_def)
  then show ?case using Cons by (auto simp: add_known_hash_def Let_def peer_ok_def)
qed simp

lemma blocks_from_length: "blocks_from h known = Some ks \<Longrightarrow> length ks \<le> length known"
  by (auto simp: blocks_from_def Let_def split: if_splits)

lemma peer_op_ok: "peer_op ctx ctx' \<Longrightarrow> peer_ok ctx \<Longrightarrow> peer_ok ctx'"
proof (induction rule: peer_op.induct)
  case (3 ctx E hs c)
  then have "peer_ok (BRPeerAddKnownTxHashes E (ctx\<lparr>sentMempool := True\<rparr>) hs)"
    by (intro peer_ok_add_known) (simp add: peer_ok_def)
  then show ?case using 3 by (simp add: BRPeerSendMempool_def Let_def) (simp add: peer_ok_def)
next
  case (12 ctx E h)
  then show ?case
    by (auto simp: BRPeerRerequestBlocks_def BRPeerSendGetdata_def Let_def peer_ok_def split: option.splits
        dest!: blocks_from_length)
qed (auto simp: BRPeerSendFilterload_def BRPeerSendGetheaders_def BRPeerSendGetblocks_def BRPeerSendInv_def
      BRPeerSendGetdata_def BRPeerSendGetaddr_def BRPeerSendPing_def BRPeerScheduleDisconnect_def
      BRPeerSetNeedsFilterUpdate_def BRPeerSetEarliestKeyTime_def BRPeerSetCurrentBlockHeight_def
      BRPeerConnect_def Let_def peer_ok_add_known, (simp add: peer_ok_def)+)

lemma peer_ops_ok:
  assumes "peer_op\<^sup>*\<^sup>* ctx ctx'"
  shows "peer_ok ctx \<Longrightarrow> peer_ok ctx'" "block_part ctx' = block_part ctx"
  using assms by (induction rule: rtranclp_induct) (auto simp: peer_op_ok peer_op_block_part)

lemma call_ok: "calls_peer E \<Longrightarrow> peer_ok ctx \<Longrightarrow> peer_ok (call E e ctx)"
  unfolding call_def calls_peer_def by (metis peer_ok_send(2) peer_ops_ok(1))

lemma call_block_part: "calls_peer E \<Longrightarrow> block_part (call E e ctx) = block_part (log_event e ctx)"
  unfolding call_def by (rule peer_ops_ok(2)) (simp add: calls_peer_def)

lemma call_opt_ok: "calls_peer E \<Longrightarrow> peer_ok ctx \<Longrightarrow> peer_ok (call_opt E c s ctx)"
  by (auto simp: call_opt_def call_ok split: option.splits)

lemma peer_ok_updates [simp]:
  "peer_ok (ctx\<lparr>ctx_version := v\<rparr>) = peer_ok ctx" "peer_ok (ctx\<lparr>peer := p\<rparr>) = peer_ok ctx"
  "peer_ok (ctx\<lparr>useragent := u\<rparr>) = peer_ok ctx" "peer_ok (ctx\<lparr>lastblock := h\<rparr>) = peer_ok ctx"
  "peer_ok (ctx\<lparr>pingTime := q\<rparr>) = peer_ok ctx" "peer_ok (ctx\<lparr>startTime := s\<rparr>) = peer_ok ctx"
  "peer_ok (ctx\<lparr>mempoolCallback := c\<rparr>) = peer_ok ctx" "peer_ok (ctx\<lparr>mempoolTime := d\<rparr>) = peer_ok ctx"
  "peer_ok (ctx\<lparr>pongCallback := cs\<rparr>) = peer_ok ctx" "peer_ok (ctx\<lparr>ctx_feePerKb := f\<rparr>) = peer_ok ctx"
  "peer_ok (ctx\<lparr>lastBlockHash := l\<rparr>) = peer_ok ctx" "peer_ok (ctx\<lparr>sentGetdata := b\<rparr>) = peer_ok ctx"
  "peer_ok (ctx\<lparr>socket := k\<rparr>) = peer_ok ctx" "peer_ok (ctx\<lparr>ctx_nonce := n\<rparr>) = peer_ok ctx"
  "peer_ok (ctx\<lparr>disconnectTime := d\<rparr>) = peer_ok ctx"
  by (simp_all add: peer_ok_def)

lemma trim_known_length: "length (trim_known known) \<le> MAX_GETDATA_HASHES"
  by (induction known rule: trim_known.induct) (subst trim_known.simps, simp)

lemma inv_txs_ok: "calls_peer E \<Longrightarrow> peer_ok ctx \<Longrightarrow> inv_txs E ctx hs = (ctx', new) \<Longrightarrow> peer_ok ctx'"
  by (induction E ctx hs arbitrary: new rule: inv_txs.induct)
    (auto simp: call_ok split: if_splits prod.splits)

lemma send_getdata_ok [simp]: "peer_ok (BRPeerSendGetdata E ctx hs bs) = peer_ok ctx"
  by (simp add: BRPeerSendGetdata_def Let_def)

lemma send_locators_ok [simp]:
  "peer_ok (BRPeerSendGetblocks E ctx hs stop) = peer_ok ctx"
  "peer_ok (BRPeerSendGetheaders E ctx hs stop) = peer_ok ctx"
  by (simp_all add: BRPeerSendGetblocks_def BRPeerSendGetheaders_def)

lemma send_ping_ok [simp]: "peer_ok (BRPeerSendPing E ctx c) = peer_ok ctx"
  by (simp add: BRPeerSendPing_def)

lemma inv_blocks_ok: "peer_ok ctx \<Longrightarrow> peer_ok (fst (inv_blocks ctx bs))"
  using trim_known_length by (auto simp: inv_blocks_def Let_def peer_ok_def)

lemma inv_request_ok [simp]: "peer_ok (inv_request E ctx new bs) = peer_ok ctx"
  by (simp add: inv_request_def Let_def)

lemma accept_inv_ok:
  assumes "calls_peer E" "peer_ok ctx"
  shows "peer_ok (accept_inv E ctx txs blocks)"
proof -
  obtain ctx1 bs ctx2 new where s: "inv_blocks ctx blocks = (ctx1, bs)" "inv_txs E ctx1 txs = (ctx2, new)"
    by fastforce
  have "peer_ok ctx2" using inv_txs_ok [OF assms(1) _ s(2)] inv_blocks_ok [OF assms(2), of blocks] s(1) by simp
  then have "peer_ok (inv_request E (BRPeerAddKnownTxHashes E ctx2 new) new bs)" by (simp add: peer_ok_add_known)
  then show ?thesis by (simp add: accept_inv_def s Let_def inv_mempool_def)
qed

lemma did_connect_ok: "calls_peer E \<Longrightarrow> peer_ok ctx \<Longrightarrow> peer_ok (BRPeerDidConnect E ctx)"
  by (auto simp: BRPeerDidConnect_def intro!: call_ok) (simp add: peer_ok_def)

lemma block_tx_arrived_ok:
  assumes "calls_peer E" "peer_ok ctx"
  shows "peer_ok (block_tx_arrived E ctx h)"
  using assms(2) by (auto simp: block_tx_arrived_def Let_def peer_ok_def split: option.splits intro!: call_ok [OF assms(1), unfolded peer_ok_def])

lemma getdata_items_ok: "calls_peer E \<Longrightarrow> peer_ok ctx \<Longrightarrow> peer_ok (fst (getdata_items E ctx its))"
proof (induction its arbitrary: ctx)
  case (Cons it its)
  obtain t h where it: "it = (t, h)" by fastforce
  define ctx1 where "ctx1 = (if t = inv_tx then call E (RequestedTx h) ctx else ctx)"
  have "peer_ok ctx1" using Cons.prems by (simp add: ctx1_def call_ok)
  then show ?case
    using Cons.IH [of ctx1] Cons.IH [of "BRPeerSendMessage E ctx1 m ty" for m ty] Cons.prems(1)
    by (simp only: it getdata_items.simps Let_def ctx1_def [symmetric] case_prod_beta split: option.split) simp
qed simp

lemma header_blocks_ok:
  "calls_peer E \<Longrightarrow> peer_ok ctx \<Longrightarrow> header_blocks E ctx msg off n i = Some (ctx', r) \<Longrightarrow> peer_ok ctx'"
  by (induction E ctx msg off n i rule: header_blocks.induct)
    (auto simp: call_ok bind_eq_Some_conv split: if_splits)

lemma accept_merkleblock_cases:
  assumes "BRPeerAcceptMerkleblockMessage E ctx msg = Some (ctx', r)"
  obtains "ctx' = ctx" "\<not> r"
  | block hs where "BRMerkleBlockParse (env_pow E) (env_address E) msg = Some (Some block)"
      "BRMerkleBlockIsValid block (ucast (env_time E)) = Some True" "sentFilter ctx \<or> sentGetdata ctx"
      "block_tx_hashes block = Some hs" "r"
      "ctx' = (let c = ctx\<lparr>currentBlockTxHashes := currentBlockTxHashes ctx @
             filter (\<lambda>h. h \<notin> knownTxHashSet ctx) (rev hs)\<rparr>
           in if length (currentBlockTxHashes c) > 0 then c\<lparr>currentBlock := Some block\<rparr>
              else call E (RelayedBlock block) c)"
proof -
  obtain b where b: "BRMerkleBlockParse (env_pow E) (env_address E) msg = Some b"
    using assms unfolding BRPeerAcceptMerkleblockMessage_def by (auto simp: bind_eq_Some_conv)
  show thesis
  proof (cases b)
    case None
    then show thesis using that(1) assms b by (simp add: BRPeerAcceptMerkleblockMessage_def)
  next
    case (Some block)
    obtain ok where ok: "BRMerkleBlockIsValid block (ucast (env_time E)) = Some ok"
      using assms b Some unfolding BRPeerAcceptMerkleblockMessage_def by (auto simp: bind_eq_Some_conv)
    show thesis
    proof (cases "ok \<and> (sentFilter ctx \<or> sentGetdata ctx)")
      case False
      then show thesis using that(1) assms b Some ok
        by (auto simp: BRPeerAcceptMerkleblockMessage_def split: if_split_asm)
    next
      case True
      then obtain hs where "block_tx_hashes block = Some hs"
        using assms b Some ok unfolding BRPeerAcceptMerkleblockMessage_def by (auto simp: bind_eq_Some_conv)
      moreover have "\<not> (\<not> sentFilter ctx \<and> \<not> sentGetdata ctx)" using True by simp
      ultimately show thesis using that(2) [of block hs] assms b Some ok True
        unfolding BRPeerAcceptMerkleblockMessage_def Let_def by (simp only: if_False) simp
    qed
  qed
qed

lemma accept_merkleblock_ok:
  assumes "calls_peer E" "peer_ok ctx" "currentBlock ctx = None"
    and "BRPeerAcceptMerkleblockMessage E ctx msg = Some (ctx', r)"
  shows "peer_ok ctx'"
  using assms(4)
proof (cases rule: accept_merkleblock_cases)
  case (2 block hs)
  have e: "currentBlockTxHashes ctx = []" using assms(2,3) by (simp add: peer_ok_def)
  have "peer_ok (ctx\<lparr>currentBlockTxHashes := []\<rparr>)" using assms(2,3) by (simp add: peer_ok_def)
  note call_ok [OF assms(1) this]
  moreover have "peer_ok (ctx\<lparr>currentBlockTxHashes := h # hs, currentBlock := Some b\<rparr>)" for h hs b
    using assms(2) by (simp add: peer_ok_def)
  ultimately show ?thesis
    using 2(6) e by (cases "filter (\<lambda>h. h \<notin> knownTxHashSet ctx) (rev hs)") (simp_all add: Let_def)
qed (use assms(2) in simp)

text \<open>A rejection changes nothing.\<close>

lemma accept_reject_same: "BRPeerAcceptRejectMessage E ctx msg = Some (ctx', r) \<Longrightarrow> ctx' = ctx"
  by (auto simp: BRPeerAcceptRejectMessage_def bind_eq_Some_conv Let_def case_prod_beta split: if_splits)

text \<open>Every handler keeps the invariant.\<close>

lemma accept_ok:
  assumes "calls_peer E" "peer_ok ctx"
  shows "BRPeerAcceptVersionMessage E ctx msg = Some (ctx', r) \<Longrightarrow> peer_ok ctx'"
    "BRPeerAcceptVerackMessage E ctx msg = Some (ctx', r) \<Longrightarrow> peer_ok ctx'"
    "BRPeerAcceptAddrMessage E ctx msg = Some (ctx', r) \<Longrightarrow> peer_ok ctx'"
    "BRPeerAcceptInvMessage E ctx msg = Some (ctx', r) \<Longrightarrow> peer_ok ctx'"
    "BRPeerAcceptTxMessage E ctx msg = Some (ctx', r) \<Longrightarrow> peer_ok ctx'"
    "BRPeerAcceptHeadersMessage E ctx msg = Some (ctx', r) \<Longrightarrow> peer_ok ctx'"
    "BRPeerAcceptGetaddrMessage E ctx msg = Some (ctx', r) \<Longrightarrow> peer_ok ctx'"
    "BRPeerAcceptGetdataMessage E ctx msg = Some (ctx', r) \<Longrightarrow> peer_ok ctx'"
    "BRPeerAcceptNotfoundMessage E ctx msg = Some (ctx', r) \<Longrightarrow> peer_ok ctx'"
    "BRPeerAcceptPingMessage E ctx msg = Some (ctx', r) \<Longrightarrow> peer_ok ctx'"
    "BRPeerAcceptPongMessage E ctx msg = Some (ctx', r) \<Longrightarrow> peer_ok ctx'"
    "BRPeerAcceptRejectMessage E ctx msg = Some (ctx', r) \<Longrightarrow> peer_ok ctx'"
    "BRPeerAcceptFeeFilterMessage E ctx msg = Some (ctx', r) \<Longrightarrow> peer_ok ctx'"
proof -
  have v: "peer_ok (c\<lparr>sentVerack := True\<rparr>)" if "peer_ok c" for c using that by (simp add: peer_ok_def)
  have g: "peer_ok (c\<lparr>gotVerack := True\<rparr>)" if "peer_ok c" for c using that by (simp add: peer_ok_def)
  note c = call_ok [OF assms(1)] did_connect_ok [OF assms(1)] accept_inv_ok [OF assms(1)]
    block_tx_arrived_ok [OF assms(1)] call_opt_ok [OF assms(1)]
  show "BRPeerAcceptVersionMessage E ctx msg = Some (ctx', r) \<Longrightarrow> peer_ok ctx'"
    using assms(2) by (auto simp: BRPeerAcceptVersionMessage_def BRPeerSendVerackMessage_def bind_eq_Some_conv Let_def
        split: if_splits prod.splits intro!: v)
  show "BRPeerAcceptVerackMessage E ctx msg = Some (ctx', r) \<Longrightarrow> peer_ok ctx'"
    using assms(2) by (auto simp: BRPeerAcceptVerackMessage_def intro!: c g)
  show "BRPeerAcceptAddrMessage E ctx msg = Some (ctx', r) \<Longrightarrow> peer_ok ctx'"
    using assms(2) by (auto simp: BRPeerAcceptAddrMessage_def bind_eq_Some_conv Let_def c split: option.splits if_splits)
  show "BRPeerAcceptInvMessage E ctx msg = Some (ctx', r) \<Longrightarrow> peer_ok ctx'"
    using assms(2) by (auto simp: BRPeerAcceptInvMessage_def bind_eq_Some_conv Let_def c split: option.splits if_splits)
  show "BRPeerAcceptTxMessage E ctx msg = Some (ctx', r) \<Longrightarrow> peer_ok ctx'"
    using assms(2) by (auto simp: BRPeerAcceptTxMessage_def bind_eq_Some_conv c split: option.splits if_splits)
  show "BRPeerAcceptHeadersMessage E ctx msg = Some (ctx', r) \<Longrightarrow> peer_ok ctx'"
    using assms(2) by (auto simp: BRPeerAcceptHeadersMessage_def bind_eq_Some_conv Let_def split: option.splits if_splits
        elim!: header_blocks_ok [OF assms(1), rotated])
  show "BRPeerAcceptGetaddrMessage E ctx msg = Some (ctx', r) \<Longrightarrow> peer_ok ctx'"
    using assms(2) by (auto simp: BRPeerAcceptGetaddrMessage_def BRPeerSendAddr_def)
  show "BRPeerAcceptGetdataMessage E ctx msg = Some (ctx', r) \<Longrightarrow> peer_ok ctx'"
    using assms(2) by (auto simp: BRPeerAcceptGetdataMessage_def bind_eq_Some_conv case_prod_beta
        getdata_items_ok [OF assms(1)] split: option.splits if_splits)
  show "BRPeerAcceptNotfoundMessage E ctx msg = Some (ctx', r) \<Longrightarrow> peer_ok ctx'"
    using assms(2) by (auto simp: BRPeerAcceptNotfoundMessage_def bind_eq_Some_conv c split: option.splits if_splits)
  show "BRPeerAcceptPingMessage E ctx msg = Some (ctx', r) \<Longrightarrow> peer_ok ctx'"
    using assms(2) by (auto simp: BRPeerAcceptPingMessage_def split: if_splits)
  show "BRPeerAcceptPongMessage E ctx msg = Some (ctx', r) \<Longrightarrow> peer_ok ctx'"
    using assms(2) by (auto simp: BRPeerAcceptPongMessage_def Let_def c split: if_splits list.splits)
  show "BRPeerAcceptRejectMessage E ctx msg = Some (ctx', r) \<Longrightarrow> peer_ok ctx'"
    using assms(2) accept_reject_same by metis
  show "BRPeerAcceptFeeFilterMessage E ctx msg = Some (ctx', r) \<Longrightarrow> peer_ok ctx'"
    using assms(2) by (auto simp: BRPeerAcceptFeeFilterMessage_def c split: if_splits)
qed

lemma if_Some_cases:
  "(if P then x else y) = Some z \<Longrightarrow> (P \<Longrightarrow> x = Some z \<Longrightarrow> Q) \<Longrightarrow> (\<not> P \<Longrightarrow> y = Some z \<Longrightarrow> Q) \<Longrightarrow> Q"
  by (simp split: if_splits)

lemma accept_message_ok:
  assumes "calls_peer E" "peer_ok ctx" "BRPeerAcceptMessage E ctx msg type = Some (ctx', r)"
  shows "peer_ok ctx'"
proof (cases "currentBlock ctx \<noteq> None \<and> type \<noteq> MSG_TX")
  case True
  then show ?thesis using assms(2,3) by (auto simp: BRPeerAcceptMessage_def peer_ok_def)
next
  case False
  have m: "BRPeerAcceptMerkleblockMessage E ctx msg = Some (ctx', r) \<Longrightarrow> type = MSG_MERKLEBLOCK \<Longrightarrow> peer_ok ctx'"
    using accept_merkleblock_ok [OF assms(1,2)] False by (simp add: msg_defs)
  show ?thesis
    using assms(3) unfolding BRPeerAcceptMessage_def if_not_P [OF False]
    by (elim if_Some_cases) (erule accept_ok [OF assms(1,2)] | erule (1) m | use assms(2) in simp)+
qed

lemma mempool_timeout_ok: "peer_ok ctx \<Longrightarrow> peer_ok (mempool_timeout E ctx)"
  by (simp add: mempool_timeout_def split: option.splits)

lemma fail_pongs_ok:
  assumes "calls_peer E" "fail_pongs E ctx = Some ctx'" "peer_ok ctx"
  shows "peer_ok ctx'"
proof -
  have "calls_peer E \<longrightarrow> peer_ok ctx \<longrightarrow> peer_ok ctx'"
  proof (rule fail_pongs.raw_induct [where P = "\<lambda>E c c'. calls_peer E \<longrightarrow> peer_ok c \<longrightarrow> peer_ok c'", OF _ assms(2)])
    fix fp E c c'
    assume "\<And>E c c'. fp E c = Some c' \<Longrightarrow> calls_peer E \<longrightarrow> peer_ok c \<longrightarrow> peer_ok c'"
      and "(case pongCallback c of [] \<Rightarrow> Some c | x # cs \<Rightarrow> fp E (call_opt E x False (c\<lparr>pongCallback := cs\<rparr>))) = Some c'"
    then show "calls_peer E \<longrightarrow> peer_ok c \<longrightarrow> peer_ok c'"
      by (cases "pongCallback c") (simp, metis call_opt_ok list.simps(5) peer_ok_updates(9))
  qed
  then show ?thesis using assms(1,3) by simp
qed

lemma thread_end_ok:
  assumes "calls_peer E" "thread_end E e ctx = Some ctx'" "peer_ok ctx"
  shows "peer_ok ctx'"
proof -
  have "peer_ok (ctx\<lparr>socket := - 1, status := BRPeerStatusDisconnected\<rparr>)" using assms(3) by (simp add: peer_ok_def)
  then show ?thesis
    using assms(2) fail_pongs_ok [OF assms(1)]
    by (auto simp: thread_end_def bind_eq_Some_conv Let_def intro!: call_ok [OF assms(1)] call_opt_ok [OF assms(1)])
qed

section \<open>Reachable states\<close>

text \<open>
  What happens to a connection: its owner calls a public function, its thread starts, handles a message,
  waits for the pool no longer, or ends.
\<close>

inductive peer_reachable :: "BRPeerContext \<Rightarrow> bool" where
  new: "peer_reachable (BRPeerNew\<lparr>peer := p\<rparr>)"
| public: "peer_reachable ctx \<Longrightarrow> peer_op ctx ctx' \<Longrightarrow> peer_reachable ctx'"
| mempool: "peer_reachable ctx \<Longrightarrow> calls_peer E \<Longrightarrow> peer_reachable (BRPeerSendMempool E ctx hs c)"
| start: "peer_reachable ctx \<Longrightarrow> peer_reachable (thread_start E n (ctx\<lparr>socket := s\<rparr>))"
| accept: "peer_reachable ctx \<Longrightarrow> calls_peer E \<Longrightarrow> BRPeerAcceptMessage E ctx msg type = Some (ctx', r) \<Longrightarrow>
    peer_reachable ctx'"
| timeout: "peer_reachable ctx \<Longrightarrow> peer_reachable (mempool_timeout E ctx)"
| finish: "peer_reachable ctx \<Longrightarrow> calls_peer E \<Longrightarrow> thread_end E e ctx = Some ctx' \<Longrightarrow> peer_reachable ctx'"

lemma send_mempool_ok:
  assumes "calls_peer E" "peer_ok ctx"
  shows "peer_ok (BRPeerSendMempool E ctx hs c)"
proof (cases "\<not> sentMempool ctx \<and> mempoolCallback ctx = None")
  case True
  then show ?thesis using peer_op_ok assms(2) by (blast intro: peer_op.intros(3))
next
  case False
  have "peer_ok (ctx\<lparr>sentMempool := True\<rparr>)" using assms(2) by (simp add: peer_ok_def)
  then show ?thesis using False call_ok [OF assms(1)]
    by (auto simp: BRPeerSendMempool_def Let_def split: option.splits)
qed

lemma peer_reachable_ok: "peer_reachable ctx \<Longrightarrow> peer_ok ctx"
proof (induction rule: peer_reachable.induct)
  case (new p)
  show ?case by (simp add: peer_ok_def BRPeerNew_def)
next
  case (start ctx E n s)
  then show ?case by (simp add: thread_start_def BRPeerSendVersionMessage_def)
qed (auto simp: peer_op_ok send_mempool_ok mempool_timeout_ok intro: accept_message_ok thread_end_ok)

text \<open>
  C9: in every state that a connection reaches, whatever messages it gets and whatever its
  callbacks call: it is connected only after both veracks, the known transactions are different and their
  set agrees with the list, it waits for transactions of a block exactly while it holds a block, and it
  remembers at most 50000 blocks.
\<close>

theorem peer_invariant:
  assumes "peer_reachable ctx"
  shows "(BRPeerConnectStatus ctx = BRPeerStatusConnected \<longrightarrow> sentVerack ctx \<and> gotVerack ctx) \<and>
    knownTxHashSet ctx = set (knownTxHashes ctx) \<and> distinct (knownTxHashes ctx) \<and>
    (currentBlock ctx = None \<longleftrightarrow> currentBlockTxHashes ctx = []) \<and>
    length (knownBlockHashes ctx) \<le> MAX_GETDATA_HASHES"
  using peer_reachable_ok [OF assms] by (simp add: peer_ok_def BRPeerConnectStatus_def)

text \<open>A connection that has sent the hashes of two transactions.\<close>

definition sample_peer :: BRPeerContext where
  "sample_peer = BRPeerSendInv quiet_env BRPeerNew [5, 5, 7]"

theorem peer_invariant_witness:
  "knownTxHashes sample_peer = [5, 7] \<and>
   knownTxHashSet sample_peer = set (knownTxHashes sample_peer) \<and> distinct (knownTxHashes sample_peer) \<and>
   (currentBlock sample_peer = None \<longleftrightarrow> currentBlockTxHashes sample_peer = []) \<and>
   length (knownBlockHashes sample_peer) \<le> MAX_GETDATA_HASHES"
proof -
  have "BRPeerNew\<lparr>peer := BR_PEER_NONE\<rparr> = BRPeerNew" by (simp add: BRPeerNew_def)
  then have "peer_reachable sample_peer"
    unfolding sample_peer_def by (metis peer_reachable.new peer_reachable.public peer_op.intros(8))
  moreover have "knownTxHashes sample_peer = [5, 7]"
    by (simp add: sample_peer_def BRPeerSendInv_def BRPeerAddKnownTxHashes_def add_known_hash_def quiet_env_def
        BRPeerNew_def Let_def)
  ultimately show ?thesis using peer_invariant by simp
qed

section \<open>Blocks and their transactions\<close>

lemma block_part_eqD:
  assumes "block_part ctx' = block_part ctx"
  shows "currentBlock ctx' = currentBlock ctx" "currentBlockTxHashes ctx' = currentBlockTxHashes ctx"
    "relayed_blocks (events ctx') = relayed_blocks (events ctx)"
  using assms by (simp_all add: block_part_def)

lemma rm_block_tx_mset: "mset (rm_block_tx x xs) = mset xs - {#x#}"
  by (simp add: rm_block_tx_def)

text \<open>One transaction of the current block.\<close>

lemma accept_tx_waiting:
  assumes "calls_peer E" "BRPeerAcceptTxMessage E ctx msg = Some (ctx', True)"
    and "BRTransactionParse (env_testnet E) msg = Some (Some tx)"
    and "currentBlock ctx = Some block" "mset (currentBlockTxHashes ctx) = add_mset (txHash tx) hs"
  shows "if hs = {#} then currentBlock ctx' = None \<and> currentBlockTxHashes ctx' = [] \<and>
      relayed_blocks (events ctx') = relayed_blocks (events ctx) @ [block]
    else currentBlock ctx' = Some block \<and> mset (currentBlockTxHashes ctx') = hs \<and>
      relayed_blocks (events ctx') = relayed_blocks (events ctx)"
proof -
  define c where "c = call E (RelayedTx tx) ctx"
  have "block_part c = block_part ctx"
    using call_block_part [OF assms(1), of "RelayedTx tx" ctx] by (simp add: c_def block_part_def log_event_def)
  note c = block_part_eqD [OF this]
  have ctx': "ctx' = block_tx_arrived E c (txHash tx)"
    using assms(2,3) by (simp add: BRPeerAcceptTxMessage_def c_def split: if_splits)
  let ?r = "rm_block_tx (txHash tx) (currentBlockTxHashes c)"
  have m: "mset ?r = hs" using assms(5) c(2) by (simp add: rm_block_tx_mset)
  show ?thesis
  proof (cases "hs = {#}")
    case True
    then have "?r = []" using m by simp
    then have "ctx' = call E (RelayedBlock block) (c\<lparr>currentBlockTxHashes := [], currentBlock := None\<rparr>)"
      using ctx' assms(4) c(1) by (simp add: block_tx_arrived_def Let_def)
    then have "block_part ctx' = block_part (log_event (RelayedBlock block) (c\<lparr>currentBlockTxHashes := [], currentBlock := None\<rparr>))"
      by (simp add: call_block_part [OF assms(1)])
    then show ?thesis using True c(3) by (simp add: block_part_def log_event_def)
  next
    case False
    then have "?r \<noteq> []" using m by auto
    then have "ctx' = c\<lparr>currentBlockTxHashes := ?r\<rparr>"
      using ctx' assms(4) c(1) by (simp add: block_tx_arrived_def Let_def)
    then show ?thesis using False m c assms(4) by simp
  qed
qed

text \<open>Messages that are all accepted.\<close>

fun accept_all :: "peer_env \<Rightarrow> BRPeerContext \<Rightarrow> (bytes \<times> bytes) list \<Rightarrow> BRPeerContext option" where
  "accept_all E ctx [] = Some ctx"
| "accept_all E ctx ((type, msg) # ms) = do {
     (ctx, ok) \<leftarrow> BRPeerAcceptMessage E ctx msg type;
     if ok then accept_all E ctx ms else None }"

lemma accept_tx_message: "BRPeerAcceptMessage E ctx msg MSG_TX = BRPeerAcceptTxMessage E ctx msg"
  by (simp add: BRPeerAcceptMessage_def msg_defs)

lemma block_waits:
  assumes "calls_peer E" "list_all2 (\<lambda>m tx. BRTransactionParse (env_testnet E) m = Some (Some tx)) ms txs"
    and "currentBlock ctx = Some block" "mset (currentBlockTxHashes ctx) = mset (map txHash txs)" "txs \<noteq> []"
    and "k \<le> length ms" "accept_all E ctx (map (Pair MSG_TX) (take k ms)) = Some ctx'"
  shows "relayed_blocks (events ctx') = relayed_blocks (events ctx) @ (if k = length ms then [block] else [])"
  using assms(2-)
proof (induction ms txs arbitrary: ctx k rule: list_all2_induct)
  case (Cons m ms tx txs)
  show ?case
  proof (cases k)
    case 0
    then show ?thesis using Cons.prems by simp
  next
    case (Suc j)
    obtain ctx1 where a: "BRPeerAcceptTxMessage E ctx m = Some (ctx1, True)"
      "accept_all E ctx1 (map (Pair MSG_TX) (take j ms)) = Some ctx'"
      using Cons.prems(5) Suc by (auto simp: accept_tx_message bind_eq_Some_conv split: if_splits)
    note w = accept_tx_waiting [OF assms(1) a(1) Cons.hyps(1) Cons.prems(1), of "mset (map txHash txs)"]
    show ?thesis
    proof (cases "txs = []")
      case True
      then have "ms = []" using Cons.hyps(2) by simp
      then show ?thesis using w a(2) Cons.prems(2) True Suc Cons.prems(4) by simp
    next
      case False
      then show ?thesis
        using w Cons.IH [of ctx1 j] a(2) Cons.prems(2,4) Suc by simp
    qed
  qed
qed simp

text \<open>
  C10: a block whose matched transactions are not all known is not relayed before they have come: it is
  relayed with the last of them, whatever their order, and once only; a block without unknown transactions is
  relayed at once.
\<close>

theorem block_relayed_with_transactions:
  assumes "peer_reachable ctx" "calls_peer E" "currentBlock ctx = None"
    and "BRPeerAcceptMessage E ctx msg MSG_MERKLEBLOCK = Some (ctx1, True)"
    and "BRMerkleBlockParse (env_pow E) (env_address E) msg = Some (Some block)" "block_tx_hashes block = Some hs"
    and "list_all2 (\<lambda>m tx. BRTransactionParse (env_testnet E) m = Some (Some tx)) ms txs"
    and "mset (map txHash txs) = mset (filter (\<lambda>h. h \<notin> knownTxHashSet ctx) hs)"
    and "k \<le> length ms" "accept_all E ctx1 (map (Pair MSG_TX) (take k ms)) = Some ctx'"
  shows "relayed_blocks (events ctx') = relayed_blocks (events ctx) @ (if k = length ms then [block] else [])"
proof -
  have e: "currentBlockTxHashes ctx = []" using peer_reachable_ok [OF assms(1)] assms(3) by (simp add: peer_ok_def)
  have "BRPeerAcceptMerkleblockMessage E ctx msg = Some (ctx1, True)"
    using assms(3,4) by (simp add: BRPeerAcceptMessage_def msg_defs)
  then have c1: "ctx1 = (let c = ctx\<lparr>currentBlockTxHashes := filter (\<lambda>h. h \<notin> knownTxHashSet ctx) (rev hs)\<rparr>
      in if length (currentBlockTxHashes c) > 0 then c\<lparr>currentBlock := Some block\<rparr> else call E (RelayedBlock block) c)"
    by (cases rule: accept_merkleblock_cases) (use assms(5,6) e in \<open>simp_all add: Let_def\<close>)
  show ?thesis
  proof (cases "txs = []")
    case True
    then have f: "filter (\<lambda>h. h \<notin> knownTxHashSet ctx) hs = []" "ms = []" using assms(7,8) by simp_all
    then have "ctx1 = call E (RelayedBlock block) (ctx\<lparr>currentBlockTxHashes := []\<rparr>)"
      using c1 by (simp add: rev_filter [symmetric])
    then have "block_part ctx1 = block_part (log_event (RelayedBlock block) (ctx\<lparr>currentBlockTxHashes := []\<rparr>))"
      by (simp add: call_block_part [OF assms(2)])
    then show ?thesis using f(2) assms(9,10) by (simp add: block_part_def log_event_def)
  next
    case False
    then have ne: "filter (\<lambda>h. h \<notin> knownTxHashSet ctx) (rev hs) \<noteq> []"
      using assms(8) by (metis mset_map mset_zero_iff image_mset_is_empty_iff mset_rev rev_filter)
    then have "ctx1 = ctx\<lparr>currentBlockTxHashes := filter (\<lambda>h. h \<notin> knownTxHashSet ctx) (rev hs), currentBlock := Some block\<rparr>"
      using c1 by simp
    then show ?thesis
      using block_waits [OF assms(2,7) _ _ False assms(9,10), of block] assms(8) by (simp add: rev_filter [symmetric])
  qed
qed

text \<open>A block with one transaction, the one of \<open>sample_tx\<close>, and a connection that has loaded a filter.\<close>

definition sample_block_msg :: bytes where
  "sample_block_msg = replicate 80 0 @ [1, 0, 0, 0, 1] @ replicate 32 0 @ [1, 1]"

definition sample_block :: BRMerkleBlock where
  "sample_block = BRMerkleBlockNew\<lparr>totalTx := 1, hashes := Some [0], hashesCount := 1, flags := Some [1], flagsLen := 1,
     blockHash := block_hash (\<lambda>_. 0) 0 (replicate 80 0)\<rparr>"

definition filter_peer :: BRPeerContext where
  "filter_peer = BRPeerSendFilterload quiet_env BRPeerNew []"

lemma quiet_calls: "calls_peer quiet_env"
  by (simp add: calls_peer_def quiet_env_def)

lemma filter_peer_reachable: "peer_reachable filter_peer"
proof -
  have "BRPeerNew\<lparr>peer := BR_PEER_NONE\<rparr> = BRPeerNew" by (simp add: BRPeerNew_def)
  then show ?thesis unfolding filter_peer_def by (metis peer_reachable.new peer_reachable.public peer_op.intros(2))
qed

lemma sample_block_parse: "BRMerkleBlockParse (\<lambda>_. 0) 0 sample_block_msg = Some (Some sample_block)"
proof -
  have z: "UInt256Get (replicate n 0 @ t) = 0" if "32 \<le> n" for n t
  proof -
    have "take 32 (replicate n (0 :: u8) @ t) = UInt256Set 0"
      using that by (simp add: UInt256Set_def le_of_word_def map_replicate_const min_absorb1)
    then show ?thesis using uint_get_set0(7) [of 0] by (simp add: UInt256Get_def)
  qed
  have z4: "UInt32GetLE (replicate n 0 @ t) = 0" if "4 \<le> n" for n t
    using that by (simp add: UInt32GetLE_def nth_append)
  have "varint_at sample_block_msg 84 = (1, 1)" "varint_at sample_block_msg 117 = (1, 1)"
    by (simp_all add: varint_at_def BRVarInt_def sample_block_msg_def)
  moreover have "copy_array sample_block_msg 85 32 = Some (Some (replicate 32 0))"
    "copy_array sample_block_msg 118 1 = Some (Some [1])"
    by (simp_all add: copy_array_def slice_def sample_block_msg_def word_le_nat_alt)
  moreover have "hash_array (replicate 32 0) = [0]" using z [of 32 "[]"] by (simp add: hash_array_def)
  moreover have "UInt32GetLE sample_block_msg = 0" "UInt256Get (drop 4 sample_block_msg) = 0"
    "UInt256Get (drop 36 sample_block_msg) = 0" "UInt32GetLE (drop 68 sample_block_msg) = 0"
    "UInt32GetLE (drop 72 sample_block_msg) = 0" "UInt32GetLE (drop 76 sample_block_msg) = 0"
    "UInt32GetLE (drop 80 sample_block_msg) = 1" "length sample_block_msg = 119"
    "take 80 sample_block_msg = replicate 80 0"
    using z z4 by (simp_all add: sample_block_msg_def) (simp add: UInt32GetLE_def)
  ultimately show ?thesis
    by (simp add: BRMerkleBlockParse_def sample_block_def BRMerkleBlockNew_def word_le_nat_alt)
qed

lemma sample_block_valid:
  "BRMerkleBlockIsValid sample_block now = Some True" "block_tx_hashes sample_block = Some [0]"
proof -
  have "ceil_log2 1 = Some 0" by (subst ceil_log2_def, subst log2_loop.simps) simp
  then have d: "tree_depth sample_block = Some 0" by (simp add: tree_depth_def sample_block_def)
  have f: "flag_at sample_block 0 = Some True" "hash_at sample_block 0 = Some 0"
    by (simp_all add: sample_block_def flag_at_def hash_at_def)
  have b: "flagsLen sample_block = 1" "hashesCount sample_block = 1" by (simp_all add: sample_block_def)
  have "BRMerkleBlockRootR sample_block 0 0 0 = Some (0, 1, 1)"
    by (subst BRMerkleBlockRootR.simps) (simp add: d f b)
  then show "BRMerkleBlockIsValid sample_block now = Some True"
    by (simp add: BRMerkleBlockIsValid_def sample_block_def BRMerkleBlockNew_def UInt256Eq_def)
  have "BRMerkleBlockTxHashesR sample_block cap out 0 0 0 =
      (if snd out < cap then Some ((map_option (\<lambda>a. a[unat (snd out) := 0]) (fst out), snd out + 1), 1, 1)
       else Some (out, 1, 1))" for cap out
    by (subst BRMerkleBlockTxHashesR.simps) (simp add: d f b split: option.splits)
  moreover have "(0 :: u64) < - 1" by code_simp
  ultimately show "block_tx_hashes sample_block = Some [0]"
    by (simp add: block_tx_hashes_def BRMerkleBlockTxHashes_def)
qed

theorem block_relayed_with_transactions_witness:
  "\<exists>ctx1 ctx'. BRPeerAcceptMessage quiet_env filter_peer sample_block_msg MSG_MERKLEBLOCK = Some (ctx1, True) \<and>
     accept_all quiet_env ctx1 [(MSG_TX, tx_enc sample_tx)] = Some ctx' \<and>
     relayed_blocks (events ctx') = relayed_blocks (events filter_peer) @ [sample_block]"
proof -
  have fp: "currentBlock filter_peer = None" "knownTxHashSet filter_peer = {}" "sentFilter filter_peer"
    "currentBlockTxHashes filter_peer = []"
    by (simp_all add: filter_peer_def BRPeerSendFilterload_def BRPeerSendMessage_def MAX_MSG_LENGTH_def
        BRPeerNew_def BRPeerDisconnect_def)
  have env: "env_pow quiet_env = (\<lambda>_. 0)" "env_address quiet_env = 0" "env_testnet quiet_env = False"
    by (simp_all add: quiet_env_def)
  define ctx1 where "ctx1 = filter_peer\<lparr>currentBlockTxHashes := [0], currentBlock := Some sample_block\<rparr>"
  have a: "BRPeerAcceptMessage quiet_env filter_peer sample_block_msg MSG_MERKLEBLOCK = Some (ctx1, True)"
    using fp by (simp add: BRPeerAcceptMessage_def msg_defs BRPeerAcceptMerkleblockMessage_def env
        sample_block_parse sample_block_valid ctx1_def)
  have p: "BRTransactionParse False (tx_enc sample_tx) = Some (Some sample_tx)"
    using parse_tx_enc [OF sample_tx_parsed, of "[]"] sample_tx_parsed by (simp add: parsed_tx_def sizable_def)
  have "sentFilter ctx1" using fp by (simp add: ctx1_def)
  then obtain ctx' where a': "accept_all quiet_env ctx1 [(MSG_TX, tx_enc sample_tx)] = Some ctx'"
    using p by (simp add: accept_tx_message BRPeerAcceptTxMessage_def env)
  have "relayed_blocks (events ctx') = relayed_blocks (events filter_peer) @ (if 1 = length [tx_enc sample_tx] then [sample_block] else [])"
  proof (rule block_relayed_with_transactions [OF filter_peer_reachable quiet_calls fp(1) a, of sample_block "[0]"])
    show "list_all2 (\<lambda>m tx. BRTransactionParse (env_testnet quiet_env) m = Some (Some tx)) [tx_enc sample_tx] [sample_tx]"
      using p env by simp
    show "mset (map txHash [sample_tx]) = mset (filter (\<lambda>h. h \<notin> knownTxHashSet filter_peer) [0])"
      using fp by (simp add: sample_tx_def)
    show "accept_all quiet_env ctx1 (map (Pair MSG_TX) (take 1 [tx_enc sample_tx])) = Some ctx'" using a' by simp
  qed (simp_all add: env sample_block_parse sample_block_valid)
  then show ?thesis using a a' by simp
qed

section \<open>Malformed messages\<close>

lemma BRVarInt_len: "0 < snd (BRVarInt msg)" "snd (BRVarInt msg) \<le> 9"
  by (simp_all add: BRVarInt_def Let_def)

text \<open>The items of an accepted count lie in the message.\<close>

lemma item_count_inside:
  assumes "item_count msg n = Some (cnt, off)" "unat cnt \<le> 50000" "unat n \<le> 1000"
  shows "unat off + unat n * unat cnt \<le> length msg" "unat off \<le> 9"
proof -
  have off: "off = of_nat (snd (BRVarInt msg))" "off + cnt * n \<le> of_nat (length msg)"
    using assms(1) by (auto simp: item_count_def Let_def case_prod_beta split: if_splits)
  then show u: "unat off \<le> 9" using BRVarInt_len [of msg] by (simp add: unat_of_nat)
  have p: "unat cnt * unat n \<le> 50000 * 1000" using assms(2,3) by (intro mult_mono) auto
  then have "unat (cnt * n) = unat cnt * unat n" by (simp add: unat_word_ariths)
  then have "unat (off + cnt * n) = unat off + unat cnt * unat n" using p u by (simp add: unat_word_ariths)
  moreover have "unat (of_nat (length msg) :: u64) \<le> length msg" by (simp add: unat_of_nat)
  ultimately show "unat off + unat n * unat cnt \<le> length msg"
    using off(2) by (simp add: word_le_nat_alt mult.commute)
qed

lemma peek_inside: "unat off + n \<le> length msg \<Longrightarrow> \<exists>x. peek msg off n get = Some x"
  by (simp add: peek_def)

lemma option_list_some: "\<forall>x\<in>set xs. x \<noteq> None \<Longrightarrow> \<exists>ys. option_list xs = Some ys"
  by (induction xs) auto

lemma item_offset:
  assumes "unat off \<le> 9" "i < 50000" "n \<le> 1000" "j \<le> 1000"
  shows "unat (off + of_nat n * of_nat i + of_nat j :: u64) = unat off + n * i + j"
proof -
  have "n * i \<le> 1000 * 50000" using assms by (intro mult_mono) auto
  then have "unat (of_nat (n * i + j) :: u64) = n * i + j" using assms by (intro u64_nat) simp
  moreover have "unat (off + of_nat (n * i + j)) = unat off + unat (of_nat (n * i + j) :: u64)"
    using calculation \<open>n * i \<le> 1000 * 50000\<close> assms by (simp add: unat_word_ariths)
  ultimately show ?thesis by (simp add: add.assoc)
qed

lemma inv_list_some:
  assumes "item_count msg 36 = Some (cnt, off)" "unat cnt \<le> MAX_GETDATA_HASHES"
  shows "\<exists>its. inv_list msg off cnt = Some its"
proof -
  note s = item_count_inside [OF assms(1) assms(2) [unfolded MAX_GETDATA_HASHES_def]]
  have "inv_item msg off i \<noteq> None" if "i < unat cnt" for i
  proof -
    have i: "i < 50000" "36 * i + 36 \<le> 36 * unat cnt" using that assms(2) by (simp_all add: MAX_GETDATA_HASHES_def)
    have "unat (off + 36 * of_nat i) = unat off + 36 * i" "unat (off + 36 * of_nat i + 4) = unat off + 36 * i + 4"
      using item_offset [of off i 36 0] item_offset [of off i 36 4] s(2) i by simp_all
    then show ?thesis
      using peek_inside [of "off + 36 * of_nat i" 4 msg UInt32GetLE] peek_inside [of "off + 36 * of_nat i + 4" 32 msg UInt256Get] s(1) i
      by (auto simp: inv_item_def)
  qed
  then show ?thesis unfolding inv_list_def by (intro option_list_some) auto
qed

lemma addr_items_some:
  assumes "item_count msg 30 = Some (cnt, off)" "unat cnt \<le> 1000"
  shows "\<exists>ps. option_list (map (addr_item E msg off) [0..<unat cnt]) = Some ps"
proof -
  have s: "unat off + 30 * unat cnt \<le> length msg" "unat off \<le> 9"
    using item_count_inside [OF assms(1)] assms(2) by simp_all
  have "addr_item E msg off i \<noteq> None" if "i < unat cnt" for i
  proof -
    have i: "i < 50000" "30 * i + 30 \<le> 30 * unat cnt" using that assms(2) by simp_all
    have "unat (off + 30 * of_nat i) = unat off + 30 * i" "unat (off + 30 * of_nat i + 4) = unat off + 30 * i + 4"
      "unat (off + 30 * of_nat i + 12) = unat off + 30 * i + 12" "unat (off + 30 * of_nat i + 28) = unat off + 30 * i + 28"
      using item_offset [of off i 30 0] item_offset [of off i 30 4] item_offset [of off i 30 12] item_offset [of off i 30 28]
        s(2) i by simp_all
    then show ?thesis
      using peek_inside [of "off + 30 * of_nat i" 4 msg UInt32GetLE] peek_inside [of "off + 30 * of_nat i + 4" 8 msg UInt64GetLE]
        peek_inside [of "off + 30 * of_nat i + 12" 16 msg UInt128Get] peek_inside [of "off + 30 * of_nat i + 28" 2 msg UInt16GetBE] s(1) i
      by (auto simp: addr_item_def)
  qed
  then show ?thesis by (intro option_list_some) auto
qed

text \<open>
  C16: the handlers of \<open>addr\<close>, \<open>inv\<close>, \<open>getdata\<close> and \<open>notfound\<close> messages never read outside of the
  message, whatever count it announces: a count for which the length check wraps around is above the limits
  they test next. The handlers of messages without a count do not either.
\<close>

theorem counted_messages_safe:
  "\<forall>type\<in>{MSG_VERACK, MSG_ADDR, MSG_INV, MSG_GETADDR, MSG_GETDATA, MSG_NOTFOUND, MSG_PING, MSG_PONG, MSG_FEEFILTER}.
     BRPeerAcceptMessage E ctx msg type \<noteq> None"
proof -
  have i: "inv_list msg off cnt \<noteq> None" if "item_count msg 36 = Some (cnt, off)" "\<not> MAX_GETDATA_HASHES < unat cnt" for cnt off
    using inv_list_some [OF that(1)] that(2) by simp
  have a: "option_list (map (addr_item E msg off) [0..<unat cnt]) \<noteq> None"
    if "item_count msg 30 = Some (cnt, off)" "\<not> 1000 < unat cnt" for cnt off
    using addr_items_some [OF that(1)] that(2) by simp
  have "BRPeerAcceptInvMessage E ctx msg \<noteq> None"
    using i by (intro notI) (auto simp: BRPeerAcceptInvMessage_def Let_def bind_eq_None_conv split: option.splits if_splits)
  moreover have "BRPeerAcceptGetdataMessage E ctx msg \<noteq> None" "BRPeerAcceptNotfoundMessage E ctx msg \<noteq> None"
    using i by (intro notI; auto simp: BRPeerAcceptGetdataMessage_def BRPeerAcceptNotfoundMessage_def
        bind_eq_None_conv split: option.splits if_splits)+
  moreover have "BRPeerAcceptAddrMessage E ctx msg \<noteq> None"
    using a by (intro notI) (auto simp: BRPeerAcceptAddrMessage_def Let_def bind_eq_None_conv split: option.splits if_splits)
  ultimately show ?thesis
    by (simp add: BRPeerAcceptMessage_def msg_defs BRPeerAcceptVerackMessage_def BRPeerAcceptGetaddrMessage_def
        BRPeerAcceptPingMessage_def BRPeerAcceptPongMessage_def BRPeerAcceptFeeFilterMessage_def del: not_None_eq)
qed

theorem counted_messages_safe_witness:
  "BRPeerAcceptMessage quiet_env filter_peer (0xff # replicate 7 0 @ [0x40]) MSG_INV \<noteq> None"
  using counted_messages_safe [of quiet_env filter_peer "0xff # replicate 7 0 @ [0x40]"] by blast

text \<open>
  C17: the length checks of two handlers wrap around. A \<open>headers\<close> message of ten bytes that announces
  the inverse of 81 modulo \<open>2 ^ 64\<close> headers, and a \<open>version\<close> message of 93 bytes with a user agent of
  \<open>2 ^ 64 - 93\<close> bytes, pass them: the handlers read outside of the message, for every state of the
  connection.
\<close>

theorem length_checks_wrap:
  "BRPeerAcceptHeadersMessage E ctx (0xff # UInt64SetLE 0x2c3f35ba781948b1 @ [0]) = None \<and>
   BRPeerAcceptVersionMessage E ctx
     (UInt32SetLE MIN_PROTO_VERSION @ replicate 76 0 @ 0xff # UInt64SetLE (- 93) @ replicate 4 0) = None"
proof
  let ?h = "0xff # UInt64SetLE 0x2c3f35ba781948b1 @ [0]"
  have "item_count ?h 81 = Some (0x2c3f35ba781948b1, 9)" by (simp add: item_count_def BRVarInt_def)
  moreover have "header_time ?h 9 (0x2c3f35ba781948b1 - 1) = None" by (simp add: header_time_def peek_def)
  ultimately show "BRPeerAcceptHeadersMessage E ctx ?h = None"
    by (simp add: BRPeerAcceptHeadersMessage_def)
  let ?v = "UInt32SetLE MIN_PROTO_VERSION @ replicate 76 0 @ 0xff # UInt64SetLE (- 93) @ replicate 4 0"
  have "varint_at ?v 80 = (- 93, 9)" by (simp add: varint_at_def BRVarInt_def)
  moreover have "slice ?v 89 (- 93) = None" by (simp add: slice_def)
  ultimately show "BRPeerAcceptVersionMessage E ctx ?v = None"
    by (simp add: BRPeerAcceptVersionMessage_def)
qed

text \<open>
  No message makes the connection report a rejected transaction. The handler of \<open>reject\<close> messages,
  which has the code to do it, sets the length of the transaction hash to 0 instead of 32: it leaves the state
  and the events of the connection as they are.
\<close>

theorem reject_never_reported:
  assumes "BRPeerAcceptMessage E ctx msg MSG_REJECT = Some (ctx', True)"
  shows "ctx' = ctx"
  using assms accept_reject_same by (auto simp: BRPeerAcceptMessage_def msg_defs split: if_splits)

theorem reject_never_reported_witness:
  "\<exists>ctx'. BRPeerAcceptMessage quiet_env filter_peer
       ([2, 0x74, 0x78, 0x10, 0] @ UInt256Set 7) MSG_REJECT = Some (ctx', True) \<and> ctx' = filter_peer"
proof -
  have "currentBlock filter_peer = None"
    by (simp add: filter_peer_def BRPeerSendFilterload_def BRPeerSendMessage_def MAX_MSG_LENGTH_def
        BRPeerNew_def BRPeerDisconnect_def)
  then obtain ctx' where "BRPeerAcceptMessage quiet_env filter_peer
      ([2, 0x74, 0x78, 0x10, 0] @ UInt256Set 7) MSG_REJECT = Some (ctx', True)"
    by (simp add: BRPeerAcceptMessage_def msg_defs BRPeerAcceptRejectMessage_def BRVarInt_def readable_def peek_def
        varint_at_def word_le_nat_alt word_less_nat_alt)
  then show ?thesis using reject_never_reported by blast
qed

section \<open>Two connections\<close>

lemma drop_concat_map:
  assumes "\<And>x. length (f x) = n" "i < length xs"
  shows "drop (n * i) (concat (map f xs)) = f (xs ! i) @ concat (map f (drop (Suc i) xs))"
  using assms(2)
proof (induction xs arbitrary: i)
  case (Cons x xs)
  show ?case
  proof (cases i)
    case (Suc j)
    then have "drop (n * i) (concat (map f (x # xs))) = drop (n * j) (concat (map f xs))" by (simp add: assms(1))
    then show ?thesis using Cons Suc by simp
  qed simp
qed simp

lemma length_concat_map: "(\<And>x. length (f x) = n) \<Longrightarrow> length (concat (map f xs)) = n * length xs"
  by (induction xs) auto

lemma option_list_map_Some: "(\<And>i. i < n \<Longrightarrow> f i = Some (g i)) \<Longrightarrow> option_list (map f [0..<n]) = Some (map g [0..<n])"
proof (induction n arbitrary: f g)
  case (Suc n)
  have "[0..<Suc n] = 0 # map Suc [0..<n]" by (metis map_Suc_upt upt_conv_Cons zero_less_Suc)
  moreover have "option_list (map (f \<circ> Suc) [0..<n]) = Some (map (g \<circ> Suc) [0..<n])"
    using Suc.prems by (intro Suc.IH) simp
  ultimately show ?case using Suc.prems [of 0] by (simp del: upt_Suc)
qed simp

text \<open>The items of a message are read back.\<close>

lemma inv_items_read:
  assumes "length its \<le> MAX_GETDATA_HASHES"
  shows "item_count (inv_items its) 36 = Some (of_nat (length its), of_nat (length (varint_enc (of_nat (length its)))))"
    "inv_list (inv_items its) (of_nat (length (varint_enc (of_nat (length its))))) (of_nat (length its)) = Some its"
proof -
  define f where "f = (\<lambda>p :: u32 \<times> UInt256. UInt32SetLE (fst p) @ UInt256Set (snd p))"
  define v where "v = varint_enc (of_nat (length its))"
  have fl: "length (f x) = 36" for x by (simp add: f_def)
  have e: "inv_items its = v @ concat (map f its)" by (simp add: inv_items_def varint_bytes_eq v_def f_def case_prod_unfold)
  have n: "length its \<le> 50000" "unat (of_nat (length its) :: u64) = length its"
    using assms by (simp_all add: MAX_GETDATA_HASHES_def unat_of_nat_small)
  have v: "0 < length v" "length v \<le> 9" using varint_size_bounds by (simp_all add: v_def)
  have len: "length (inv_items its) = length v + 36 * length its" using e length_concat_map [of f 36 its] fl by simp
  have lu: "(of_nat (length v) + of_nat (length its) * 36 :: u64) = of_nat (length (inv_items its))" using len by simp
  have "unat (of_nat (length v) :: u64) = length v" using v by (intro u64_nat) simp
  then have "(of_nat (length v) :: u64) \<noteq> 0" using v(1) by auto
  then show "item_count (inv_items its) 36 = Some (of_nat (length its), of_nat (length (varint_enc (of_nat (length its)))))"
    using varint_read [of "of_nat (length its)" "concat (map f its)"] lu
    by (simp add: item_count_def e flip: v_def)
  have item: "inv_item (inv_items its) (of_nat (length v)) i = Some (its ! i)" if "i < length its" for i
  proof -
    have u: "unat (of_nat (length v) + 36 * of_nat i :: u64) = length v + 36 * i"
      "unat (of_nat (length v) + 36 * of_nat i + 4 :: u64) = length v + 36 * i + 4"
      using item_offset [of "of_nat (length v)" i 36 0] item_offset [of "of_nat (length v)" i 36 4] v n that
        u64_nat [of "length v"] by simp_all
    have d: "drop (length v + 36 * i) (inv_items its) = f (its ! i) @ concat (map f (drop (Suc i) its))"
      using e drop_concat_map [of f 36 i its] fl that by simp
    have d4: "drop (length v + 36 * i + 4) (inv_items its) = UInt256Set (snd (its ! i)) @ concat (map f (drop (Suc i) its))"
      using arg_cong [OF d, of "drop 4"] by (simp add: f_def add.commute)
    have "36 * i + 36 \<le> 36 * length its" using that by simp
    then show ?thesis using d d4 len unfolding inv_item_def peek_def Let_def u by (simp add: f_def)
  qed
  show "inv_list (inv_items its) (of_nat (length (varint_enc (of_nat (length its))))) (of_nat (length its)) = Some its"
    using option_list_map_Some [of "length its" "inv_item (inv_items its) (of_nat (length v))" "(!) its"] item n
    by (simp add: inv_list_def map_nth flip: v_def)
qed

text \<open>Surroundings in which writes succeed and the callbacks leave the connection alone.\<close>

definition quiet :: "peer_env \<Rightarrow> bool" where
  "quiet E \<longleftrightarrow> (\<forall>ctx f. env_sends E ctx f) \<and> (\<forall>e ctx. env_call E e ctx = ctx)"

lemma quiet_send:
  "quiet E \<Longrightarrow> socket ctx \<ge> 0 \<Longrightarrow> length msg \<le> MAX_MSG_LENGTH \<Longrightarrow>
    BRPeerSendMessage E ctx msg type = log_event (Sent type msg) ctx"
  by (simp add: BRPeerSendMessage_def quiet_def)

lemma quiet_call: "quiet E \<Longrightarrow> call E e ctx = log_event e ctx"
  by (simp add: call_def quiet_def)

lemma tx_message_eq: "tx_message tx = tx_enc tx"
  using tx_writer.two_pass [of "replicate (snd (BRTransactionSerialize tx None)) 0" tx]
  by (simp add: tx_message_def tx_writer.size_query)

text \<open>A message with one item.\<close>

lemma length_inv_items_1: "length (inv_items [it]) = 37"
  by (cases it) (simp add: inv_items_def varint_bytes_eq varint_enc_def)

lemma one_item:
  "item_count (inv_items [it]) 36 = Some (1, of_nat (length (varint_enc 1)))"
  "inv_list (inv_items [it]) (of_nat (length (varint_enc 1))) 1 = Some [it]"
  using inv_items_read [of "[it]"] by (simp_all add: MAX_GETDATA_HASHES_def)

lemma send_new_inv:
  assumes "quiet E" "socket ctx \<ge> 0" "h \<notin> knownTxHashSet ctx"
  shows "\<exists>ctx'. BRPeerSendInv E ctx [h] = ctx' \<and> events ctx' = events ctx @ [Sent MSG_INV (inv_items [(inv_tx, h)])] \<and>
    socket ctx' = socket ctx \<and> currentBlock ctx' = currentBlock ctx"
proof -
  define c where "c = add_known_hash E ctx h"
  have c: "knownTxHashes c = knownTxHashes ctx @ [h]" "events c = events ctx" "socket c = socket ctx"
    "currentBlock c = currentBlock ctx"
    using assms(3) by (simp_all add: c_def add_known_hash_def Let_def)
  have "BRPeerSendInv E ctx [h] = log_event (Sent MSG_INV (inv_items [(inv_tx, h)])) c"
    using c quiet_send [OF assms(1), of c] assms(2) length_inv_items_1
    by (simp add: BRPeerSendInv_def BRPeerAddKnownTxHashes_def Let_def MAX_MSG_LENGTH_def flip: c_def)
  then show ?thesis using c by (simp add: log_event_def)
qed

lemma accept_new_inv:
  assumes "quiet E" "socket ctx \<ge> 0" "h \<notin> knownTxHashSet ctx" "sentFilter ctx" "currentBlock ctx = None"
    and "mempoolCallback ctx = None"
  shows "\<exists>ctx'. BRPeerAcceptMessage E ctx (inv_items [(inv_tx, h)]) MSG_INV = Some (ctx', True) \<and>
    events ctx' = events ctx @ [Sent MSG_GETDATA (inv_items [(inv_tx, h)])] \<and>
    sentFilter ctx' \<and> currentBlock ctx' = None \<and> socket ctx' = socket ctx"
proof -
  define c where "c = add_known_hash E (ctx\<lparr>knownBlockHashes := trim_known (knownBlockHashes ctx)\<rparr>) h"
  have c: "events c = events ctx" "socket c = socket ctx" "sentFilter c" "currentBlock c = None" "mempoolCallback c = None"
    using assms(3-) by (simp_all add: c_def add_known_hash_def Let_def)
  have b: "inv_blocks ctx [] = (ctx\<lparr>knownBlockHashes := trim_known (knownBlockHashes ctx)\<rparr>, [])"
    by (simp add: inv_blocks_def Let_def)
  have "accept_inv E ctx [h] [] = log_event (Sent MSG_GETDATA (inv_items [(inv_tx, h)])) (c\<lparr>sentGetdata := True\<rparr>)"
    using c quiet_send [OF assms(1), of "c\<lparr>sentGetdata := True\<rparr>"] assms(2,3) length_inv_items_1
    by (simp add: accept_inv_def b inv_request_def BRPeerAddKnownTxHashes_def BRPeerSendGetdata_def
        MAX_GETDATA_HASHES_def MAX_MSG_LENGTH_def log_event_def flip: c_def)
  moreover have "BRPeerAcceptMessage E ctx (inv_items [(inv_tx, h)]) MSG_INV = Some (accept_inv E ctx [h] [], True)"
    using assms(4,5) by (simp add: BRPeerAcceptMessage_def msg_defs BRPeerAcceptInvMessage_def one_item of_types_def
        MAX_GETDATA_HASHES_def inv_tx_def inv_block_def)
  ultimately show ?thesis using c by (simp add: log_event_def)
qed

lemma accept_getdata:
  assumes "quiet E" "socket ctx \<ge> 0" "currentBlock ctx = None" "env_requestedTx E ctx h = Some tx"
    and "BRTransactionSize tx < TX_MAX_SIZE" "length (tx_enc tx) \<le> MAX_MSG_LENGTH"
  shows "BRPeerAcceptMessage E ctx (inv_items [(inv_tx, h)]) MSG_GETDATA =
    Some (ctx\<lparr>events := events ctx @ [RequestedTx h, Sent MSG_TX (tx_enc tx)]\<rparr>, True)"
  using assms quiet_send [OF assms(1), of "log_event (RequestedTx h) ctx" "tx_enc tx" MSG_TX]
  by (simp add: BRPeerAcceptMessage_def msg_defs BRPeerAcceptGetdataMessage_def one_item MAX_GETDATA_HASHES_def
      quiet_call tx_message_eq log_event_def)



end
