(* ===== verification/BRKey.thy ===== *)
theory BRKey
  imports BRAddress "HOL-Library.Monad_Syntax"
begin

text \<open>
  \<open>src/Modules/core/BRKey.c\<close>: private and public keys, signatures and the wallet import format.

  The functions of the vendored \<open>libsecp256k1\<close> are the members of a record \<open>secp\<close> that every
  operation takes; the laws of the library's documentation that the properties rest on are the
  predicate \<open>secp_ok\<close>, which the addition of 256 bit integers satisfies. A result \<open>None\<close> of an
  operation stands for a failed assertion or for the abort of the library's callback for illegal
  arguments. The 65 bytes \<open>pubKey\<close> of a key are a list of this length.
\<close>

record ('k, 's, 'r) secp =
  ec_seckey_verify :: "bytes \<Rightarrow> bool"
  ec_pubkey_create :: "bytes \<Rightarrow> 'k option"
  ec_pubkey_parse :: "bytes \<Rightarrow> 'k option"
  ec_pubkey_serialize :: "'k \<Rightarrow> bool \<Rightarrow> bytes"
  ec_privkey_tweak_add :: "bytes \<Rightarrow> bytes \<Rightarrow> bytes \<times> bool"
  ec_privkey_tweak_mul :: "bytes \<Rightarrow> bytes \<Rightarrow> bytes \<times> bool"
  ec_pubkey_tweak_add :: "'k \<Rightarrow> bytes \<Rightarrow> 'k option"
  ec_pubkey_tweak_mul :: "'k \<Rightarrow> bytes \<Rightarrow> 'k option"
  ecdsa_sign :: "bytes \<Rightarrow> bytes \<Rightarrow> 's option"
  ecdsa_serialize_der :: "'s \<Rightarrow> bytes"
  ecdsa_parse_der :: "bytes \<Rightarrow> 's option"
  ecdsa_verify :: "'s \<Rightarrow> bytes \<Rightarrow> 'k \<Rightarrow> bool"
  ecdsa_sign_recoverable :: "bytes \<Rightarrow> bytes \<Rightarrow> 'r option"
  recoverable_serialize :: "'r \<Rightarrow> bytes \<times> nat"
  recoverable_parse :: "bytes \<Rightarrow> nat \<Rightarrow> 'r option"
  ecdsa_recover :: "'r \<Rightarrow> bytes \<Rightarrow> 'k option"

record BRKey =
  secret :: UInt256
  pubKey :: bytes
  compressed :: bool

section \<open>Curve arithmetic\<close>

definition BRSecp256k1ModAdd :: "('k, 's, 'r) secp \<Rightarrow> UInt256 \<Rightarrow> UInt256 \<Rightarrow> UInt256 \<times> bool" where
  "BRSecp256k1ModAdd S a b = (case ec_privkey_tweak_add S (UInt256Set a) (UInt256Set b) of
     (r, ok) \<Rightarrow> (UInt256Get r, ok))"

definition BRSecp256k1ModMul :: "('k, 's, 'r) secp \<Rightarrow> UInt256 \<Rightarrow> UInt256 \<Rightarrow> UInt256 \<times> bool" where
  "BRSecp256k1ModMul S a b = (case ec_privkey_tweak_mul S (UInt256Set a) (UInt256Set b) of
     (r, ok) \<Rightarrow> (UInt256Get r, ok))"

text \<open>The point operations give the new 33 bytes at \<open>p\<close>, \<open>None\<close> when they fail and leave them.\<close>

definition BRSecp256k1PointGen :: "('k, 's, 'r) secp \<Rightarrow> UInt256 \<Rightarrow> bytes option" where
  "BRSecp256k1PointGen S i = do {
     pubkey \<leftarrow> ec_pubkey_create S (UInt256Set i);
     Some (ec_pubkey_serialize S pubkey True) }"

definition BRSecp256k1PointAdd :: "('k, 's, 'r) secp \<Rightarrow> bytes \<Rightarrow> UInt256 \<Rightarrow> bytes option" where
  "BRSecp256k1PointAdd S p i = do {
     pubkey \<leftarrow> ec_pubkey_parse S p;
     pubkey \<leftarrow> ec_pubkey_tweak_add S pubkey (UInt256Set i);
     Some (ec_pubkey_serialize S pubkey True) }"

definition BRSecp256k1PointMul :: "('k, 's, 'r) secp \<Rightarrow> bytes \<Rightarrow> UInt256 \<Rightarrow> bytes option" where
  "BRSecp256k1PointMul S p i = do {
     pubkey \<leftarrow> ec_pubkey_parse S p;
     pubkey \<leftarrow> ec_pubkey_tweak_mul S pubkey (UInt256Set i);
     Some (ec_pubkey_serialize S pubkey True) }"

section \<open>Private keys\<close>

definition privkey_version :: "bool \<Rightarrow> u8" where
  "privkey_version testnet = (if testnet then 239 else 128)"

definition hex_digit :: "u8 \<Rightarrow> u8 option" where
  "hex_digit c = (if 0x30 \<le> c \<and> c \<le> 0x39 then Some (c - 0x30)
     else if 0x41 \<le> c \<and> c \<le> 0x46 then Some (c - 0x41 + 10)
     else if 0x61 \<le> c \<and> c \<le> 0x66 then Some (c - 0x61 + 10) else None)"

definition BRPrivKeyIsValid :: "bool \<Rightarrow> bytes \<Rightarrow> bool" where
  "BRPrivKeyIsValid testnet privKey =
     (case BRBase58CheckDecode privKey (Some (replicate 34 0)) of
        (data, dataLen) \<Rightarrow>
          let strLen = length privKey in
          if dataLen = 33 \<or> dataLen = 34 then the data ! 0 = privkey_version testnet
          else if (strLen = 30 \<or> strLen = 22) \<and> privKey ! 0 = 0x53
          then BRSHA256 (privKey @ [0x3f]) ! 0 = 0
          else length (takeWhile (\<lambda>c. hex_digit c \<noteq> None) privKey) = 64)"

definition BRKeySetSecret :: "('k, 's, 'r) secp \<Rightarrow> UInt256 \<Rightarrow> bool \<Rightarrow> BRKey \<times> bool" where
  "BRKeySetSecret S sec compr =
     (\<lparr>secret = sec, pubKey = replicate 65 0, compressed = compr\<rparr>, ec_seckey_verify S (UInt256Set sec))"

text \<open>\<open>sscanf(s, "%2hhx", &b)\<close>: white space, an optional sign, and at most two characters in all.\<close>

definition scan_hhx :: "bytes \<Rightarrow> u8 option" where
  "scan_hhx s = (case dropWhile (\<lambda>c. c = 0x20 \<or> 9 \<le> c \<and> c \<le> 13) s of
     [] \<Rightarrow> None
   | c # r \<Rightarrow>
       if c = 0x2b \<or> c = 0x2d then
         (case r of [] \<Rightarrow> None | d # _ \<Rightarrow> map_option (\<lambda>v. if c = 0x2d then - v else v) (hex_digit d))
       else (case hex_digit c of
          None \<Rightarrow> None
        | Some v \<Rightarrow> (case r of [] \<Rightarrow> Some v | d # _ \<Rightarrow>
            if c = 0x30 \<and> (d = 0x78 \<or> d = 0x58) then None
            else (case hex_digit d of None \<Rightarrow> Some v | Some w \<Rightarrow> Some (16 * v + w)))))"

text \<open>The bytes read from a hex string, at most \<open>n\<close>.\<close>

fun hex_loop :: "bytes \<Rightarrow> nat \<Rightarrow> bytes" where
  "hex_loop (c # d # s) (Suc n) =
     (case scan_hhx (c # d # s) of None \<Rightarrow> [] | Some b \<Rightarrow> b # hex_loop s n)"
| "hex_loop s n = []"

text \<open>The new key, \<open>None\<close> when none is assigned, and the result.\<close>

definition BRKeySetPrivKey :: "bool \<Rightarrow> ('k, 's, 'r) secp \<Rightarrow> bytes \<Rightarrow> BRKey option \<times> bool" where
  "BRKeySetPrivKey testnet S privKey =
     (let set_secret = (\<lambda>b c. case BRKeySetSecret S (UInt256Get b) c of (key, r) \<Rightarrow> (Some key, r)) in
      if (length privKey = 30 \<or> length privKey = 22) \<and> privKey ! 0 = 0x53 then
        (if \<not> BRPrivKeyIsValid testnet privKey then (None, False)
         else set_secret (BRSHA256 privKey) False)
      else
        let (data, len) = BRBase58CheckDecode privKey (Some (replicate 34 0));
            (data, len) = (if len = 0 \<or> len = 28 then BRBase58Decode privKey data else (data, len));
            (data, len) = (if len < 32 \<or> len > 32 + 2
              then let h = hex_loop privKey 34 in (Some (poke 0 h (the data)), length h) else (data, len))
        in if (len = 32 + 1 \<or> len = 32 + 2) \<and> the data ! 0 = privkey_version testnet
           then set_secret (drop 1 (the data)) (len = 32 + 2)
           else if len = 32 then set_secret (the data) False
           else (None, False))"

definition BRKeyPrivKey :: "bool \<Rightarrow> ('k, 's, 'r) secp \<Rightarrow> BRKey \<Rightarrow> buffer \<Rightarrow> buffer \<times> nat" where
  "BRKeyPrivKey testnet S key privKey =
     (if ec_seckey_verify S (UInt256Set (secret key))
      then BRBase58CheckEncode (privkey_version testnet # UInt256Set (secret key) @
             (if compressed key then [1] else [])) privKey
      else (privKey, 0))"

section \<open>Public keys and addresses\<close>

definition BRKeySetPubKey :: "('k, 's, 'r) secp \<Rightarrow> bytes \<Rightarrow> (BRKey \<times> bool) option" where
  "BRKeySetPubKey S pk =
     (if length pk = 33 \<or> length pk = 65
      then Some (\<lparr>secret = 0, pubKey = pk @ replicate (65 - length pk) 0, compressed = (length pk \<le> 33)\<rparr>,
             ec_pubkey_parse S pk \<noteq> None)
      else None)"

definition BRKeyPubKey :: "('k, 's, 'r) secp \<Rightarrow> BRKey \<Rightarrow> buffer \<Rightarrow> BRKey \<times> buffer \<times> nat" where
  "BRKeyPubKey S key out =
     (let size = (if compressed key then 33 else 65);
          (key, size) =
            (if take size (pubKey key) = replicate size 0 then
               (case ec_pubkey_create S (UInt256Set (secret key)) of
                  Some pk \<Rightarrow> let s = ec_pubkey_serialize S pk (compressed key)
                             in (key\<lparr>pubKey := s @ drop size (pubKey key)\<rparr>, length s)
                | None \<Rightarrow> (key, 0))
             else (key, size))
      in case out of
           None \<Rightarrow> (key, None, size)
         | Some b \<Rightarrow> if size \<le> length b then (key, Some (poke 0 (take size (pubKey key)) b), size)
                     else (key, Some b, 0))"

definition BRKeyHash160 :: "('k, 's, 'r) secp \<Rightarrow> BRKey \<Rightarrow> BRKey \<times> UInt160" where
  "BRKeyHash160 S key = (case BRKeyPubKey S key None of (key, _, len) \<Rightarrow>
     (key, if len > 0 \<and> ec_pubkey_parse S (take len (pubKey key)) \<noteq> None
           then UInt160Get (BRHash160 (take len (pubKey key))) else 0))"

definition BRKeyAddress :: "bool \<Rightarrow> ('k, 's, 'r) secp \<Rightarrow> BRKey \<Rightarrow> buffer \<Rightarrow> BRKey \<times> buffer \<times> nat" where
  "BRKeyAddress testnet S key addr = (case BRKeyHash160 S key of (key, hash) \<Rightarrow>
     (key, if hash \<noteq> 0 then BRBase58CheckEncode (pubkey_address testnet # UInt160Set hash) addr
           else (addr, 0)))"

section \<open>Signatures\<close>

definition BRKeySign :: "('k, 's, 'r) secp \<Rightarrow> BRKey \<Rightarrow> buffer \<Rightarrow> UInt256 \<Rightarrow> (bytes \<times> nat) option" where
  "BRKeySign S key sig md = (case sig of
     None \<Rightarrow> None
   | Some b \<Rightarrow> (case ecdsa_sign S (UInt256Set md) (UInt256Set (secret key)) of
       None \<Rightarrow> Some (b, 0)
     | Some s \<Rightarrow> let der = ecdsa_serialize_der S s in
         Some (if length der \<le> length b then (poke 0 der b, length der) else (b, 0))))"

definition BRKeyVerify :: "('k, 's, 'r) secp \<Rightarrow> BRKey \<Rightarrow> UInt256 \<Rightarrow> bytes \<Rightarrow> (BRKey \<times> bool) option" where
  "BRKeyVerify S key md sig = (if sig = [] then None else
     case BRKeyPubKey S key None of (key, _, len) \<Rightarrow>
       Some (key, case ec_pubkey_parse S (take len (pubKey key)) of
           None \<Rightarrow> False
         | Some pk \<Rightarrow> len > 0 \<and> (case ecdsa_parse_der S sig of
             None \<Rightarrow> False | Some s \<Rightarrow> ecdsa_verify S s (UInt256Set md) pk)))"

definition BRKeyClean :: "BRKey \<Rightarrow> BRKey" where
  "BRKeyClean key = \<lparr>secret = 0, pubKey = replicate 65 0, compressed = False\<rparr>"

definition BRKeyCompactSign :: "('k, 's, 'r) secp \<Rightarrow> BRKey \<Rightarrow> buffer \<Rightarrow> UInt256 \<Rightarrow> (buffer \<times> nat) option" where
  "BRKeyCompactSign S key compactSig md = (case compactSig of
     None \<Rightarrow> Some (None, if secret key \<noteq> 0 then 65 else 0)
   | Some b \<Rightarrow>
       if length b < 65 then None
       else if secret key = 0 then Some (Some b, 0)
       else (case ecdsa_sign_recoverable S (UInt256Set md) (UInt256Set (secret key)) of
           None \<Rightarrow> Some (Some b, 0)
         | Some s \<Rightarrow> (case recoverable_serialize S s of (c, recid) \<Rightarrow>
             Some (Some (poke 0 ((27 + of_nat recid + (if compressed key then 4 else 0)) # c) b), 65))))"

text \<open>
  The recovery id is the remainder of a signed division: below 27 it can be negative, which the
  library treats as an illegal argument.
\<close>

definition BRKeyRecoverPubKey :: "('k, 's, 'r) secp \<Rightarrow> BRKey \<Rightarrow> UInt256 \<Rightarrow> bytes \<Rightarrow> (BRKey \<times> bool) option" where
  "BRKeyRecoverPubKey S key md compactSig =
     (if length compactSig = 65 then
        let b = unat (compactSig ! 0); compr = (b \<ge> 27 + 4) in
        if b < 27 \<and> (27 - b) mod 4 \<noteq> 0 then None
        else case recoverable_parse S (drop 1 compactSig) (if b < 27 then 0 else (b - 27) mod 4) of
            None \<Rightarrow> Some (key, False)
          | Some s \<Rightarrow> (case ecdsa_recover S s (UInt256Set md) of
              None \<Rightarrow> Some (key, False)
            | Some pk \<Rightarrow> BRKeySetPubKey S (ec_pubkey_serialize S pk compr))
      else None)"

section \<open>The laws of the library\<close>

text \<open>
  What \<open>secp256k1.h\<close> documents: the lengths and first bytes of serialized public keys, that parsing
  inverts serializing, that a secret key that verifies has a public key and tweaking commutes with
  computing it, and that a signature verifies, or gives back, the public key of its signer.
\<close>

definition secp_ok :: "('k, 's, 'r) secp \<Rightarrow> bool" where
  "secp_ok S \<longleftrightarrow>
     (\<forall>pk c. length (ec_pubkey_serialize S pk c) = (if c then 33 else 65)) \<and>
     (\<forall>pk c. ec_pubkey_serialize S pk c ! 0 \<noteq> 0) \<and>
     (\<forall>pk c. ec_pubkey_parse S (ec_pubkey_serialize S pk c) = Some pk) \<and>
     (\<forall>k. length k = 32 \<longrightarrow> (ec_seckey_verify S k \<longleftrightarrow> ec_pubkey_create S k \<noteq> None)) \<and>
     (\<forall>k t k' pk. length k = 32 \<longrightarrow> length t = 32 \<longrightarrow> ec_privkey_tweak_add S k t = (k', True) \<longrightarrow>
        ec_pubkey_create S k = Some pk \<longrightarrow>
        length k' = 32 \<and> ec_seckey_verify S k' \<and> ec_pubkey_tweak_add S pk t = ec_pubkey_create S k') \<and>
     (\<forall>md k s pk. ecdsa_sign S md k = Some s \<longrightarrow> ec_pubkey_create S k = Some pk \<longrightarrow> ecdsa_verify S s md pk) \<and>
     (\<forall>s. ecdsa_parse_der S (ecdsa_serialize_der S s) = Some s \<and>
        0 < length (ecdsa_serialize_der S s) \<and> length (ecdsa_serialize_der S s) \<le> 72) \<and>
     (\<forall>md k s pk. ecdsa_sign_recoverable S md k = Some s \<longrightarrow> ec_pubkey_create S k = Some pk \<longrightarrow>
        ecdsa_recover S s md = Some pk) \<and>
     (\<forall>s c r. recoverable_serialize S s = (c, r) \<longrightarrow>
        length c = 64 \<and> r \<le> 3 \<and> recoverable_parse S c r = Some s) \<and>
     (\<forall>md k. ec_seckey_verify S k \<longrightarrow> ecdsa_sign S md k \<noteq> None \<and> ecdsa_sign_recoverable S md k \<noteq> None)"

lemma secp_okD:
  assumes "secp_ok S"
  shows "length (ec_pubkey_serialize S pk c) = (if c then 33 else 65)"
    and "ec_pubkey_serialize S pk c ! 0 \<noteq> 0"
    and "ec_pubkey_parse S (ec_pubkey_serialize S pk c) = Some pk"
    and "length k = 32 \<Longrightarrow> ec_seckey_verify S k \<longleftrightarrow> ec_pubkey_create S k \<noteq> None"
    and "ecdsa_sign S md k = Some s \<Longrightarrow> ec_pubkey_create S k = Some pk \<Longrightarrow> ecdsa_verify S s md pk"
    and "ecdsa_parse_der S (ecdsa_serialize_der S s) = Some s"
    and "0 < length (ecdsa_serialize_der S s)" "length (ecdsa_serialize_der S s) \<le> 72"
    and "ecdsa_sign_recoverable S md k = Some s' \<Longrightarrow> ec_pubkey_create S k = Some pk \<Longrightarrow>
      ecdsa_recover S s' md = Some pk"
    and "recoverable_serialize S s' = (c', r) \<Longrightarrow> length c' = 64 \<and> r \<le> 3 \<and> recoverable_parse S c' r = Some s'"
    and "ec_seckey_verify S k \<Longrightarrow> ecdsa_sign S md k \<noteq> None \<and> ecdsa_sign_recoverable S md k \<noteq> None"
  using assms unfolding secp_ok_def by (elim conjE; metis)+

lemma tweak_laws:
  assumes "secp_ok S" "length k = 32" "length t = 32" "ec_privkey_tweak_add S k t = (k', True)"
    "ec_pubkey_create S k = Some pk"
  shows "length k' = 32" "ec_seckey_verify S k'" "ec_pubkey_tweak_add S pk t = ec_pubkey_create S k'"
  using assms unfolding secp_ok_def by blast+

text \<open>
  An instance of the laws: the additive group of the 256 bit integers, whose elements are their own
  public keys, with signatures that carry the message and the key.
\<close>

definition be256 :: "bytes \<Rightarrow> UInt256" where "be256 b = word_of_le (rev b)"
definition of_be256 :: "UInt256 \<Rightarrow> bytes" where "of_be256 w = rev (le_of_word 32 w)"

definition integer_secp :: "(UInt256, UInt256 \<times> UInt256, UInt256) secp" where
  "integer_secp = \<lparr>ec_seckey_verify = (\<lambda>k. True),
     ec_pubkey_create = (\<lambda>k. Some (be256 k)),
     ec_pubkey_parse = (\<lambda>b. Some (be256 (take 32 (drop 1 b)))),
     ec_pubkey_serialize = (\<lambda>pk c. if c then 2 # of_be256 pk else 4 # of_be256 pk @ replicate 32 0),
     ec_privkey_tweak_add = (\<lambda>k t. (of_be256 (be256 k + be256 t), True)),
     ec_privkey_tweak_mul = (\<lambda>k t. (of_be256 (be256 k * be256 t), True)),
     ec_pubkey_tweak_add = (\<lambda>pk t. Some (pk + be256 t)),
     ec_pubkey_tweak_mul = (\<lambda>pk t. Some (pk * be256 t)),
     ecdsa_sign = (\<lambda>md k. Some (be256 md, be256 k)),
     ecdsa_serialize_der = (\<lambda>s. of_be256 (fst s) @ of_be256 (snd s)),
     ecdsa_parse_der = (\<lambda>b. Some (be256 (take 32 b), be256 (drop 32 b))),
     ecdsa_verify = (\<lambda>s md pk. s = (be256 md, pk)),
     ecdsa_sign_recoverable = (\<lambda>md k. Some (be256 k)),
     recoverable_serialize = (\<lambda>s. (of_be256 s @ replicate 32 0, 0)),
     recoverable_parse = (\<lambda>c r. Some (be256 (take 32 c))),
     ecdsa_recover = (\<lambda>s md. Some s)\<rparr>"

lemma be256_inverse [simp]: "be256 (of_be256 w) = w" "length (of_be256 w) = 32"
  by (simp_all add: be256_def of_be256_def byte_order)

lemma integer_secp_ok: "secp_ok integer_secp"
  unfolding secp_ok_def by (auto simp: integer_secp_def)

lemma integer_seckey [simp]: "ec_seckey_verify integer_secp k"
  by (simp add: integer_secp_def)

section \<open>Facts on keys\<close>

lemma pub_key_created:
  assumes ok: "secp_ok S" and "ec_pubkey_create S (UInt256Set (secret key)) = Some pk"
    "pubKey key = replicate 65 0"
  defines "s \<equiv> ec_pubkey_serialize S pk (compressed key)"
  shows "BRKeyPubKey S key None = (key\<lparr>pubKey := s @ drop (length s) (replicate 65 0)\<rparr>, None, length s)"
    and "length s \<le> length b \<Longrightarrow> BRKeyPubKey S key (Some b) =
      (key\<lparr>pubKey := s @ drop (length s) (replicate 65 0)\<rparr>, Some (s @ drop (length s) b), length s)"
  using assms secp_okD(1) [OF ok, of pk "compressed key"] by (simp_all add: BRKeyPubKey_def Let_def)

lemma pub_key_set:
  assumes "secp_ok S" "BRKeySetPubKey S (ec_pubkey_serialize S pk c) = Some (key, r)"
  defines "s \<equiv> ec_pubkey_serialize S pk c"
  shows "r" "compressed key = c" "take (length s) (pubKey key) = s" "secret key = 0"
    "BRKeyPubKey S key None = (key, None, length s)"
proof -
  have s: "length s = (if c then 33 else 65)" "s ! 0 \<noteq> 0" "ec_pubkey_parse S s = Some pk"
    using secp_okD(1-3) [OF assms(1)] by (simp_all add: s_def)
  then have key: "key = \<lparr>secret = 0, pubKey = s @ replicate (65 - length s) 0, compressed = c\<rparr>" "r"
    using assms(2) by (auto simp: BRKeySetPubKey_def s_def [symmetric] split: if_splits)
  then show "r" "compressed key = c" "take (length s) (pubKey key) = s" "secret key = 0"
    by simp_all
  have "s \<noteq> replicate n 0" if "0 < n" for n using s(2) that by force
  then show "BRKeyPubKey S key None = (key, None, length s)"
    using s(1) by (auto simp: BRKeyPubKey_def key Let_def)
qed

text \<open>The address of a key pair does not depend on the half it is computed from.\<close>

lemma address_of_pub_key:
  assumes ok: "secp_ok S" and pk: "ec_pubkey_create S (UInt256Set (secret key)) = Some pk"
    and key: "pubKey key = replicate 65 0"
    and pub: "BRKeySetPubKey S (ec_pubkey_serialize S pk (compressed key)) = Some (key', r)"
  shows "snd (BRKeyAddress testnet S key addr) = snd (BRKeyAddress testnet S key' addr)"
  using pub_key_created(1) [OF ok pk key] pub_key_set(3,5) [OF ok pub] secp_okD(1,3) [OF ok]
  by (simp add: BRKeyAddress_def BRKeyHash160_def)

section \<open>Properties\<close>

text \<open>
  C28: a private key written in wallet import format by \<open>BRKeyPrivKey\<close> is accepted by
  \<open>BRPrivKeyIsValid\<close>, and \<open>BRKeySetPrivKey\<close> reads the same secret and the same form of the public
  key from it: no such string is taken for a mini private key or for a hex string.\<close>

theorem wif_round_trip:
  assumes "BRKeyPrivKey testnet S key (Some b) = (Some b', n)" "n \<noteq> 0"
  shows "BRPrivKeyIsValid testnet (cstr b') \<and>
    BRKeySetPrivKey testnet S (cstr b') =
      (Some \<lparr>secret = secret key, pubKey = replicate 65 0, compressed = compressed key\<rparr>, True)"
proof -
  define d where "d = privkey_version testnet # UInt256Set (secret key) @ (if compressed key then [1] else [])"
  have v: "ec_seckey_verify S (UInt256Set (secret key))"
    and enc: "BRBase58CheckEncode d (Some b) = (Some b', n)"
    using assms by (auto simp: BRKeyPrivKey_def d_def split: if_splits)
  have d: "length d = (if compressed key then 34 else 33)" "d ! 0 = privkey_version testnet"
    "UInt256Get (drop 1 (d @ x)) = secret key" for x by (simp_all add: d_def)
  note b' = check_encode_text(1) [OF enc assms(2)]
  have "33 \<le> length d" using d(1) by simp
  then have len: "length (check_text d) \<noteq> 30" "length (check_text d) \<noteq> 22"
    using check_text_longer [of d] by linarith+
  have dec: "BRBase58CheckDecode (check_text d) (Some (replicate 34 0)) =
      (Some (d @ drop (length d) (replicate 34 0)), length d)"
    using d(1) by (simp add: check_decode_eq check_bytes_text)
  have nth: "(d @ x) ! 0 = privkey_version testnet" for x using d(1,2) by (simp add: nth_append split: if_splits)
  show ?thesis
    unfolding b' using v len d(1,3) nth d(3) [of "[]"] nth [of "[]"]
    by (auto simp: BRPrivKeyIsValid_def BRKeySetPrivKey_def dec BRKeySetSecret_def simp del: drop_append
        split: if_splits)
qed

theorem wif_round_trip_witness:
  "BRPrivKeyIsValid False (check_text (128 # UInt256Set 7 @ [1]))"
proof -
  let ?d = "128 # UInt256Set 7 @ [1]" and ?key = "\<lparr>secret = 7, pubKey = replicate 65 0, compressed = True\<rparr>"
  have "BRKeyPrivKey False integer_secp ?key (Some (replicate (length (check_text ?d @ [0])) 0)) =
      (Some (check_text ?d @ [0]), length (check_text ?d) + 1)"
    using check_writer.keeps_rest [of ?d "replicate (length (check_text ?d @ [0])) 0"] integer_seckey
    by (simp add: BRKeyPrivKey_def privkey_version_def)
  from wif_round_trip [OF this] show ?thesis using check_text_no_nul [of ?d] by simp
qed

text \<open>
  C31: under the documented laws of the curve library, \<open>BRKeySign\<close> with a valid secret key writes a
  signature that \<open>BRKeyVerify\<close> accepts, and from the compact signature of \<open>BRKeyCompactSign\<close>
  \<open>BRKeyRecoverPubKey\<close> recovers a key of the same form and with the same address.\<close>

theorem signatures_verify:
  assumes ok: "secp_ok S" and key: "BRKeySetSecret S sec c = (key, True)"
    and sec: "sec \<noteq> 0" and b: "length b = 72" and cb: "length cb = 65"
  shows "(\<exists>sig n key'. BRKeySign S key (Some b) md = Some (sig, n) \<and> n \<noteq> 0 \<and>
      BRKeyVerify S key md (take n sig) = Some (key', True)) \<and>
    (\<exists>csig key'. BRKeyCompactSign S key (Some cb) md = Some (Some csig, 65) \<and>
      BRKeyRecoverPubKey S key0 md csig = Some (key', True) \<and> compressed key' = c \<and>
      snd (BRKeyAddress testnet S key' addr) = snd (BRKeyAddress testnet S key addr))"
proof -
  have k: "key = \<lparr>secret = sec, pubKey = replicate 65 0, compressed = c\<rparr>" "ec_seckey_verify S (UInt256Set sec)"
    using key by (auto simp: BRKeySetSecret_def)
  then obtain pk where pk: "ec_pubkey_create S (UInt256Set sec) = Some pk"
    using secp_okD(4) [OF ok] by force
  obtain s r where s: "ecdsa_sign S (UInt256Set md) (UInt256Set sec) = Some s"
    and r: "ecdsa_sign_recoverable S (UInt256Set md) (UInt256Set sec) = Some r"
    using secp_okD(11) [OF ok k(2)] by blast
  note pub = pub_key_created(1) [OF ok, of key pk]
  have "BRKeySign S key (Some b) md =
      Some (ecdsa_serialize_der S s @ drop (length (ecdsa_serialize_der S s)) b, length (ecdsa_serialize_der S s))"
    using s b secp_okD(8) [OF ok, of s] by (simp add: BRKeySign_def k(1) Let_def)
  moreover have "\<exists>key'. BRKeyVerify S key md (ecdsa_serialize_der S s) = Some (key', True)"
    using pub secp_okD(1,3) [OF ok, of pk c] secp_okD(5) [OF ok s pk] secp_okD(6,7) [OF ok, of s] pk
    by (simp add: BRKeyVerify_def k(1))
  ultimately have sig: "\<exists>sig n key'. BRKeySign S key (Some b) md = Some (sig, n) \<and> n \<noteq> 0 \<and>
      BRKeyVerify S key md (take n sig) = Some (key', True)"
    using secp_okD(7) [OF ok, of s] by fastforce
  obtain cs rid where cs: "recoverable_serialize S r = (cs, rid)" by (cases "recoverable_serialize S r")
  note rec = secp_okD(10) [OF ok cs] secp_okD(9) [OF ok r pk]
  let ?csig = "(27 + of_nat rid + (if c then 4 else 0)) # cs"
  have csig: "BRKeyCompactSign S key (Some cb) md = Some (Some ?csig, 65)"
    using r cs rec cb sec by (simp add: BRKeyCompactSign_def k(1))
  obtain key' v where key': "BRKeySetPubKey S (ec_pubkey_serialize S pk c) = Some (key', v)"
    using secp_okD(1) [OF ok, of pk c] by (force simp: BRKeySetPubKey_def)
  have "unat (27 + of_nat rid + (if c then 4 else 0) :: u8) = 27 + rid + (if c then 4 else 0)"
    using unat_of_nat_small [of "27 + rid", where 'a = 8] unat_of_nat_small [of "31 + rid", where 'a = 8] rec(1)
    by (cases c) simp_all
  then have "BRKeyRecoverPubKey S key0 md ?csig = Some (key', True)"
    using rec key' pub_key_set(1) [OF ok key'] by (cases c) (simp_all add: BRKeyRecoverPubKey_def Let_def)
  then show ?thesis
    using sig csig pub_key_set(2) [OF ok key'] address_of_pub_key [OF ok, of key pk key' v] pk key'
    by (auto simp: k(1))
qed

theorem signatures_verify_witness:
  "\<exists>sig n key'. BRKeySign integer_secp \<lparr>secret = 7, pubKey = replicate 65 0, compressed = True\<rparr>
      (Some (replicate 72 0)) 5 = Some (sig, n) \<and> n \<noteq> 0 \<and>
    BRKeyVerify integer_secp \<lparr>secret = 7, pubKey = replicate 65 0, compressed = True\<rparr> 5 (take n sig) = Some (key', True)"
proof -
  have "BRKeySetSecret integer_secp 7 True = (\<lparr>secret = 7, pubKey = replicate 65 0, compressed = True\<rparr>, True)"
    using integer_seckey by (simp add: BRKeySetSecret_def)
  from signatures_verify [OF integer_secp_ok this _, of "replicate 72 0" "replicate 65 0" 5] show ?thesis by simp
qed

end
