(* ===== verification/BRBIP32Sequence.thy ===== *)
theory BRBIP32Sequence
  imports BRKey BRCipher
begin

text \<open>
  \<open>src/Modules/core/BRBIP32Sequence.c\<close> and \<open>src/Modules/core/BIP44Sequence.c\<close>: the derivation of
  chains of keys from a seed.

  A null seed is only allowed with the length 0, so the seed is a byte string. A result \<open>None\<close> of an
  operation stands for the use of a buffer that was never written, a read of a variable argument
  that was not passed, or a failed assertion. The arguments \<open>...\<close> are a list.
\<close>

definition BIP32_HARD :: u32 where "BIP32_HARD = 0x80000000"
definition SEQUENCE_GAP_LIMIT_EXTERNAL :: nat where "SEQUENCE_GAP_LIMIT_EXTERNAL = 10"
definition SEQUENCE_GAP_LIMIT_INTERNAL :: nat where "SEQUENCE_GAP_LIMIT_INTERNAL = 5"
definition SEQUENCE_EXTERNAL_CHAIN :: u32 where "SEQUENCE_EXTERNAL_CHAIN = 0"
definition SEQUENCE_INTERNAL_CHAIN :: u32 where "SEQUENCE_INTERNAL_CHAIN = 1"

record BRMasterPubKey =
  fingerPrint :: u32
  chainCode :: UInt256
  mpk_pubKey :: bytes

definition BR_MASTER_PUBKEY_NONE :: BRMasterPubKey where
  "BR_MASTER_PUBKEY_NONE = \<lparr>fingerPrint = 0, chainCode = 0, mpk_pubKey = replicate 33 0\<rparr>"

section \<open>Child keys\<close>

text \<open>
  The 33 bytes that are hashed for a child of a private key; the point of an invalid key leaves
  them undefined.
\<close>

definition priv_data :: "('k, 's, 'r) secp \<Rightarrow> UInt256 \<Rightarrow> u32 \<Rightarrow> bytes option" where
  "priv_data S k i = (if i AND BIP32_HARD \<noteq> 0 then Some (0 # UInt256Set k) else BRSecp256k1PointGen S k)"

definition child_hmac :: "UInt256 \<Rightarrow> bytes \<Rightarrow> u32 \<Rightarrow> bytes" where
  "child_hmac c p i = BRHMAC BRSHA512 64 (UInt256Set c) (p @ UInt32SetBE i)"

definition CKDpriv :: "('k, 's, 'r) secp \<Rightarrow> UInt256 \<times> UInt256 \<Rightarrow> u32 \<Rightarrow> (UInt256 \<times> UInt256) option" where
  "CKDpriv S kc i = (case kc of (k, c) \<Rightarrow> do {
     p \<leftarrow> priv_data S k i;
     let I = child_hmac c p i;
     let (k, _) = BRSecp256k1ModAdd S k (UInt256Get I);
     Some (k, UInt256Get (drop 32 I)) })"

definition CKDpub :: "('k, 's, 'r) secp \<Rightarrow> bytes \<times> UInt256 \<Rightarrow> u32 \<Rightarrow> bytes \<times> UInt256" where
  "CKDpub S Kc i = (case Kc of (K, c) \<Rightarrow>
     if i AND BIP32_HARD \<noteq> BIP32_HARD then
       let I = child_hmac c K i
       in (case BRSecp256k1PointAdd S K (UInt256Get I) of None \<Rightarrow> K | Some K' \<Rightarrow> K', UInt256Get (drop 32 I))
     else (K, c))"

text \<open>The secret and the chain code from the seed, under the key \<open>Bitcoin seed\<close>.\<close>

definition BIP32_SEED_KEY :: bytes where
  "BIP32_SEED_KEY = [0x42, 0x69, 0x74, 0x63, 0x6f, 0x69, 0x6e, 0x20, 0x73, 0x65, 0x65, 0x64]"

definition seed_key :: "bytes \<Rightarrow> UInt256 \<times> UInt256" where
  "seed_key seed = (let I = BRHMAC BRSHA512 64 BIP32_SEED_KEY seed in (UInt256Get I, UInt256Get (drop 32 I)))"

section \<open>BIP 32\<close>

definition BRBIP32MasterPubKey :: "('k, 's, 'r) secp \<Rightarrow> bytes \<Rightarrow> BRMasterPubKey option" where
  "BRBIP32MasterPubKey S seed = do {
     let (sec, chain) = seed_key seed;
     let (key, _) = BRKeySetSecret S sec True;
     let fp = ucast (snd (BRKeyHash160 S key));
     (sec, chain) \<leftarrow> CKDpriv S (sec, chain) (0 OR BIP32_HARD);
     let (key, _) = BRKeySetSecret S sec True;
     let (_, pk, _) = BRKeyPubKey S key (Some (replicate 33 0));
     Some \<lparr>fingerPrint = fp, chainCode = chain, mpk_pubKey = the pk\<rparr> }"

definition BRBIP32PubKey ::
  "('k, 's, 'r) secp \<Rightarrow> buffer \<Rightarrow> BRMasterPubKey \<Rightarrow> u32 \<Rightarrow> u32 \<Rightarrow> (buffer \<times> nat) option" where
  "BRBIP32PubKey S pk mpk chain index =
     (if mpk = BR_MASTER_PUBKEY_NONE then None
      else Some (case pk of
          None \<Rightarrow> (None, 33)
        | Some b \<Rightarrow>
            if 33 \<le> length b then
              (Some (poke 0 (fst (CKDpub S (CKDpub S (mpk_pubKey mpk, chainCode mpk) chain) index)) b), 33)
            else (Some b, 0)))"

text \<open>\<open>depth\<close> variable arguments are read, whether they were passed or not.\<close>

fun path_loop :: "('k, 's, 'r) secp \<Rightarrow> nat \<Rightarrow> u32 list \<Rightarrow> UInt256 \<times> UInt256 \<Rightarrow> (UInt256 \<times> UInt256) option" where
  "path_loop S 0 vlist kc = Some kc"
| "path_loop S (Suc n) [] kc = None"
| "path_loop S (Suc n) (i # vlist) kc = do { kc \<leftarrow> CKDpriv S kc i; path_loop S n vlist kc }"

definition BRBIP32vPrivKeyPath :: "('k, 's, 'r) secp \<Rightarrow> bytes \<Rightarrow> nat \<Rightarrow> u32 list \<Rightarrow> BRKey option" where
  "BRBIP32vPrivKeyPath S seed depth vlist = do {
     (sec, _) \<leftarrow> path_loop S depth vlist (seed_key seed);
     Some (fst (BRKeySetSecret S sec True)) }"

definition BRBIP32PrivKeyPath :: "('k, 's, 'r) secp \<Rightarrow> bytes \<Rightarrow> nat \<Rightarrow> u32 list \<Rightarrow> BRKey option" where
  "BRBIP32PrivKeyPath S seed depth args = BRBIP32vPrivKeyPath S seed depth args"

definition BRBIP32PrivKey :: "('k, 's, 'r) secp \<Rightarrow> bytes \<Rightarrow> u32 \<Rightarrow> u32 \<Rightarrow> BRKey option" where
  "BRBIP32PrivKey S seed chain index = BRBIP32PrivKeyPath S seed 3 [0 OR BIP32_HARD, chain, index]"

definition list_key :: "('k, 's, 'r) secp \<Rightarrow> UInt256 \<times> UInt256 \<Rightarrow> u32 \<Rightarrow> BRKey option" where
  "list_key S kc i = map_option (\<lambda>(s, c). fst (BRKeySetSecret S s True)) (CKDpriv S kc i)"

definition BRBIP32PrivKeyList :: "('k, 's, 'r) secp \<Rightarrow> bytes \<Rightarrow> u32 \<Rightarrow> u32 list \<Rightarrow> BRKey list option" where
  "BRBIP32PrivKeyList S seed chain indexes =
     (if indexes = [] then Some [] else do {
        kc \<leftarrow> CKDpriv S (seed_key seed) (0 OR BIP32_HARD);
        kc \<leftarrow> CKDpriv S kc chain;
        those (map (list_key S kc) indexes) })"

definition BRBIP32APIAuthKey :: "('k, 's, 'r) secp \<Rightarrow> bytes \<Rightarrow> BRKey option" where
  "BRBIP32APIAuthKey S seed = BRBIP32PrivKeyPath S seed 2 [1 OR BIP32_HARD, 0]"

definition BRBIP32BitIDKey :: "('k, 's, 'r) secp \<Rightarrow> bytes \<Rightarrow> u32 \<Rightarrow> bytes \<Rightarrow> BRKey option" where
  "BRBIP32BitIDKey S seed index uri =
     (let hash = BRSHA256 (UInt32SetLE index @ uri); w = (\<lambda>j. UInt32GetLE (drop (4 * j) hash) OR BIP32_HARD)
      in BRBIP32PrivKeyPath S seed 5 [13 OR BIP32_HARD, w 0, w 1, w 2, w 3])"

text \<open>The serialization of master keys is not implemented.\<close>

definition BRBIP32SerializeMasterPrivKey :: "buffer \<Rightarrow> bytes \<Rightarrow> buffer \<times> nat" where
  "BRBIP32SerializeMasterPrivKey str seed = (str, 0)"

definition BRBIP32ParseMasterPrivKey :: "buffer \<Rightarrow> bytes \<Rightarrow> buffer \<times> nat" where
  "BRBIP32ParseMasterPrivKey seed str = (seed, 0)"

definition BRBIP32SerializeMasterPubKey :: "buffer \<Rightarrow> BRMasterPubKey \<Rightarrow> buffer \<times> nat" where
  "BRBIP32SerializeMasterPubKey str mpk = (str, 0)"

definition BRBIP32ParseMasterPubKey :: "bytes \<Rightarrow> BRMasterPubKey" where
  "BRBIP32ParseMasterPubKey str = BR_MASTER_PUBKEY_NONE"

section \<open>BIP 44\<close>

definition BIP44_PURPOSE :: u32 where "BIP44_PURPOSE = 44"
definition BIP44_BTX_COINTYPE :: u32 where "BIP44_BTX_COINTYPE = 175"
definition BIP44_DEFAULT_ACCOUNT :: u32 where "BIP44_DEFAULT_ACCOUNT = 0"
definition BIP44_CHANGE :: u32 where "BIP44_CHANGE = 0"

definition BIP44MasterPubKey :: "('k, 's, 'r) secp \<Rightarrow> bytes \<Rightarrow> u32 \<Rightarrow> u32 \<Rightarrow> BRMasterPubKey option" where
  "BIP44MasterPubKey S seed account coinType = do {
     kc \<leftarrow> CKDpriv S (seed_key seed) (BIP44_PURPOSE OR BIP32_HARD);
     kc \<leftarrow> CKDpriv S kc (coinType OR BIP32_HARD);
     (sec, chain) \<leftarrow> CKDpriv S kc (account OR BIP32_HARD);
     let (key, _) = BRKeySetSecret S sec True;
     let fp = ucast (snd (BRKeyHash160 S key));
     let (key, _) = BRKeySetSecret S sec True;
     let (_, pk, _) = BRKeyPubKey S key (Some (replicate 33 0));
     Some \<lparr>fingerPrint = fp, chainCode = chain, mpk_pubKey = the pk\<rparr> }"

definition BIP44PubKey ::
  "('k, 's, 'r) secp \<Rightarrow> buffer \<Rightarrow> BRMasterPubKey \<Rightarrow> u32 \<Rightarrow> u32 \<Rightarrow> (buffer \<times> nat) option" where
  "BIP44PubKey S pk mpk chain index =
     (if mpk = BR_MASTER_PUBKEY_NONE then None
      else Some (case pk of
          None \<Rightarrow> (None, 33)
        | Some b \<Rightarrow>
            if 33 \<le> length b then
              (Some (poke 0 (fst (CKDpub S (CKDpub S (mpk_pubKey mpk, chainCode mpk) chain) index)) b), 33)
            else (Some b, 0)))"

definition BIP44PrivKeyList :: "('k, 's, 'r) secp \<Rightarrow> bytes \<Rightarrow> u32 \<Rightarrow> u32 list \<Rightarrow> BRKey list option" where
  "BIP44PrivKeyList S seed coinType indexes =
     (if indexes = [] then Some [] else do {
        kc \<leftarrow> CKDpriv S (seed_key seed) (BIP44_PURPOSE OR BIP32_HARD);
        kc \<leftarrow> CKDpriv S kc (BIP44_BTX_COINTYPE OR BIP32_HARD);
        kc \<leftarrow> CKDpriv S kc (BIP44_CHANGE OR BIP32_HARD);
        those (map (\<lambda>i. do { sc \<leftarrow> CKDpriv S kc BIP44_CHANGE; list_key S sc i }) indexes) })"

definition BIP44AddrKey :: "('k, 's, 'r) secp \<Rightarrow> bytes \<Rightarrow> BRKey option" where
  "BIP44AddrKey S seed = BRBIP32PrivKeyPath S seed 5
     [BIP44_PURPOSE OR BIP32_HARD, BIP44_BTX_COINTYPE OR BIP32_HARD, BIP44_DEFAULT_ACCOUNT OR BIP32_HARD]"

section \<open>The two derivations agree\<close>

text \<open>The tweak of a child key succeeds, which the code does not check.\<close>

definition tweak_ok :: "('k, 's, 'r) secp \<Rightarrow> UInt256 \<times> UInt256 \<Rightarrow> u32 \<Rightarrow> bool" where
  "tweak_ok S kc i = (case kc of (k, c) \<Rightarrow> case priv_data S k i of None \<Rightarrow> False
     | Some p \<Rightarrow> snd (BRSecp256k1ModAdd S k (UInt256Get (child_hmac c p i))))"

fun valid_path :: "('k, 's, 'r) secp \<Rightarrow> UInt256 \<times> UInt256 \<Rightarrow> u32 list \<Rightarrow> bool" where
  "valid_path S kc [] = ec_seckey_verify S (UInt256Set (fst kc))"
| "valid_path S kc (i # is) =
     (ec_seckey_verify S (UInt256Set (fst kc)) \<and> tweak_ok S kc i \<and>
      (case CKDpriv S kc i of None \<Rightarrow> False | Some kc' \<Rightarrow> valid_path S kc' is))"

lemma and_exp: "(i :: 'a::len word) AND 2 ^ n = (if bit i n then 2 ^ n else 0)"
  by (rule bit_word_eqI) (auto simp: bit_simps)

lemma hard_bit: "i AND BIP32_HARD = 0 \<longleftrightarrow> i AND BIP32_HARD \<noteq> BIP32_HARD"
proof -
  have H: "BIP32_HARD = 2 ^ 31" "BIP32_HARD \<noteq> 0" by (simp_all add: BIP32_HARD_def)
  show ?thesis using H(2) and_exp [of i 31] unfolding H(1) by auto
qed

lemma child_pub:
  assumes ok: "secp_ok S" and pk: "ec_pubkey_create S (UInt256Set k) = Some pk"
    and i: "i AND BIP32_HARD = 0" and t: "tweak_ok S (k, c) i"
  shows "\<exists>k' c' pk'. CKDpriv S (k, c) i = Some (k', c') \<and> ec_pubkey_create S (UInt256Set k') = Some pk' \<and>
    CKDpub S (ec_pubkey_serialize S pk True, c) i = (ec_pubkey_serialize S pk' True, c')"
proof -
  define I where "I = child_hmac c (ec_pubkey_serialize S pk True) i"
  have p: "priv_data S k i = Some (ec_pubkey_serialize S pk True)"
    using i pk by (simp add: priv_data_def BRSecp256k1PointGen_def)
  obtain r where r: "ec_privkey_tweak_add S (UInt256Set k) (UInt256Set (UInt256Get I)) = (r, True)"
    using t p by (auto simp: tweak_ok_def BRSecp256k1ModAdd_def I_def split: prod.splits)
  note laws = tweak_laws [OF ok _ _ r pk, simplified]
  obtain pk' where pk': "ec_pubkey_create S r = Some pk'"
    using laws(1,2) secp_okD(4) [OF ok] by force
  have rr: "UInt256Set (UInt256Get r) = r" using uint_set_get(6) [of r] laws(1) by simp
  have "CKDpriv S (k, c) i = Some (UInt256Get r, UInt256Get (drop 32 I))"
    by (simp add: CKDpriv_def p BRSecp256k1ModAdd_def I_def [symmetric] r Let_def)
  moreover have "CKDpub S (ec_pubkey_serialize S pk True, c) i =
      (ec_pubkey_serialize S pk' True, UInt256Get (drop 32 I))"
    using i laws(3) pk' secp_okD(3) [OF ok, of pk True]
    by (simp add: CKDpub_def hard_bit BRSecp256k1PointAdd_def I_def [symmetric] Let_def)
  ultimately show ?thesis using pk' rr by auto
qed

lemma master_pub:
  assumes ok: "secp_ok S" and v: "valid_path S (seed_key seed) (BIP32_HARD # is)"
  obtains k c pk mpk where "CKDpriv S (seed_key seed) BIP32_HARD = Some (k, c)" "valid_path S (k, c) is"
    "ec_pubkey_create S (UInt256Set k) = Some pk" "BRBIP32MasterPubKey S seed = Some mpk"
    "chainCode mpk = c" "mpk_pubKey mpk = ec_pubkey_serialize S pk True"
proof -
  obtain k c where kc: "CKDpriv S (seed_key seed) BIP32_HARD = Some (k, c)" "valid_path S (k, c) is"
    using v by (auto split: option.splits)
  then have "ec_seckey_verify S (UInt256Set k)" by (cases "is") auto
  then obtain pk where pk: "ec_pubkey_create S (UInt256Set k) = Some pk"
    using secp_okD(4) [OF ok, of "UInt256Set k"] by auto
  obtain sec ch where s: "seed_key seed = (sec, ch)" by (cases "seed_key seed")
  define key where "key = \<lparr>secret = k, pubKey = replicate 65 0, compressed = True\<rparr>"
  obtain key' where "BRKeyPubKey S key (Some (replicate 33 0)) = (key', Some (ec_pubkey_serialize S pk True), 33)"
    using pub_key_created(2) [OF ok, of key pk "replicate 33 0"] pk secp_okD(1) [OF ok, of pk True]
    by (simp add: key_def)
  then obtain mpk where "BRBIP32MasterPubKey S seed = Some mpk" "chainCode mpk = c"
      "mpk_pubKey mpk = ec_pubkey_serialize S pk True"
    using kc(1) by (auto simp: BRBIP32MasterPubKey_def s BRKeySetSecret_def key_def Let_def)
  then show ?thesis using that kc pk by blast
qed

text \<open>The two derivations of a pair of keys.\<close>

lemma derived_pair:
  assumes ok: "secp_ok S" and path: "valid_path S (seed_key seed) [BIP32_HARD, chain, index]"
    and ci: "chain AND BIP32_HARD = 0" "index AND BIP32_HARD = 0"
  obtains mpk k pk where "BRBIP32MasterPubKey S seed = Some mpk" "mpk \<noteq> BR_MASTER_PUBKEY_NONE"
    "length (mpk_pubKey mpk) = 33" "ec_pubkey_create S (UInt256Set k) = Some pk"
    "BRBIP32PrivKey S seed chain index = Some \<lparr>secret = k, pubKey = replicate 65 0, compressed = True\<rparr>"
    "BRBIP32PrivKeyList S seed chain [index] = Some [\<lparr>secret = k, pubKey = replicate 65 0, compressed = True\<rparr>]"
    "fst (CKDpub S (CKDpub S (mpk_pubKey mpk, chainCode mpk) chain) index) = ec_pubkey_serialize S pk True"
proof -
  obtain k c pk mpk where m: "CKDpriv S (seed_key seed) BIP32_HARD = Some (k, c)"
    "valid_path S (k, c) [chain, index]" "ec_pubkey_create S (UInt256Set k) = Some pk"
    "BRBIP32MasterPubKey S seed = Some mpk" "chainCode mpk = c" "mpk_pubKey mpk = ec_pubkey_serialize S pk True"
    by (rule master_pub [OF ok path])
  have t: "tweak_ok S (k, c) chain" using m(2) by simp
  obtain k1 c1 pk1 where 1: "CKDpriv S (k, c) chain = Some (k1, c1)"
    "ec_pubkey_create S (UInt256Set k1) = Some pk1"
    "CKDpub S (ec_pubkey_serialize S pk True, c) chain = (ec_pubkey_serialize S pk1 True, c1)"
    using child_pub [OF ok m(3) ci(1) t] by blast
  have t: "tweak_ok S (k1, c1) index" using m(2) 1(1) by simp
  obtain k2 c2 pk2 where 2: "CKDpriv S (k1, c1) index = Some (k2, c2)"
    "ec_pubkey_create S (UInt256Set k2) = Some pk2"
    "CKDpub S (ec_pubkey_serialize S pk1 True, c1) index = (ec_pubkey_serialize S pk2 True, c2)"
    using child_pub [OF ok 1(2) ci(2) t] by blast
  have "ec_pubkey_serialize S pk True \<noteq> replicate 33 0"
    using secp_okD(2) [OF ok, of pk True] by (metis nth_replicate zero_less_numeral)
  then have "mpk \<noteq> BR_MASTER_PUBKEY_NONE" using m(6) by (auto simp: BR_MASTER_PUBKEY_NONE_def)
  moreover have "length (mpk_pubKey mpk) = 33" using m(6) secp_okD(1) [OF ok] by simp
  ultimately show ?thesis
    using that [of mpk k2 pk2] m(1,4,5,6) 1(1,3) 2
    by (simp add: BRBIP32PrivKey_def BRBIP32PrivKeyPath_def BRBIP32vPrivKeyPath_def
        numeral_3_eq_3 BRKeySetSecret_def BRBIP32PrivKeyList_def list_key_def)
qed

section \<open>Properties\<close>

text \<open>
  C23: the public derivation, which the wallet uses for its addresses, and the private one, which it
  uses to sign, agree: for every chain and index that are not hardened, \<open>BRBIP32PubKey\<close> of the
  master public key gives the public key of \<open>BRBIP32PrivKey\<close> of the seed, with the same address,
  as long as none of the tweaks on the way fails.\<close>

theorem bip32_public_derivation:
  assumes ok: "secp_ok S" and path: "valid_path S (seed_key seed) [BIP32_HARD, chain, index]"
    and ci: "chain AND BIP32_HARD = 0" "index AND BIP32_HARD = 0"
  shows "\<exists>mpk key pk key'. BRBIP32MasterPubKey S seed = Some mpk \<and>
    BRBIP32PrivKey S seed chain index = Some key \<and>
    BRBIP32PubKey S (Some (replicate 33 0)) mpk chain index = Some (Some pk, 33) \<and>
    snd (BRKeyPubKey S key (Some (replicate 33 0))) = (Some pk, 33) \<and>
    BRKeySetPubKey S pk = Some (key', True) \<and>
    snd (BRKeyAddress testnet S key' addr) = snd (BRKeyAddress testnet S key addr)"
proof -
  obtain mpk k pk where p: "BRBIP32MasterPubKey S seed = Some mpk" "mpk \<noteq> BR_MASTER_PUBKEY_NONE"
    "length (mpk_pubKey mpk) = 33" "ec_pubkey_create S (UInt256Set k) = Some pk"
    "BRBIP32PrivKey S seed chain index = Some \<lparr>secret = k, pubKey = replicate 65 0, compressed = True\<rparr>"
    "fst (CKDpub S (CKDpub S (mpk_pubKey mpk, chainCode mpk) chain) index) = ec_pubkey_serialize S pk True"
    by (rule derived_pair [OF ok path ci])
  define key where "key = \<lparr>secret = k, pubKey = replicate 65 0, compressed = True\<rparr>"
  have len: "length (ec_pubkey_serialize S pk True) = 33" using secp_okD(1) [OF ok] by simp
  then have "BRBIP32PubKey S (Some (replicate 33 0)) mpk chain index = Some (Some (ec_pubkey_serialize S pk True), 33)"
    using p by (simp add: BRBIP32PubKey_def)
  moreover have "snd (BRKeyPubKey S key (Some (replicate 33 0))) = (Some (ec_pubkey_serialize S pk True), 33)"
    using pub_key_created(2) [OF ok, of key pk "replicate 33 0"] p(4) len by (simp add: key_def)
  moreover obtain key' r where key': "BRKeySetPubKey S (ec_pubkey_serialize S pk True) = Some (key', r)"
    using len by (force simp: BRKeySetPubKey_def)
  moreover have "snd (BRKeyAddress testnet S key addr) = snd (BRKeyAddress testnet S key' addr)"
    using address_of_pub_key [OF ok, of key pk key' r] p(4) key' by (simp add: key_def)
  ultimately show ?thesis using p(1,5) pub_key_set(1) [OF ok key'] by (auto simp: key_def)
qed

theorem bip32_public_derivation_witness:
  "\<exists>mpk key pk. BRBIP32MasterPubKey integer_secp [1, 2, 3] = Some mpk \<and>
    BRBIP32PrivKey integer_secp [1, 2, 3] 1 4 = Some key \<and>
    BRBIP32PubKey integer_secp (Some (replicate 33 0)) mpk 1 4 = Some (Some pk, 33) \<and>
    snd (BRKeyPubKey integer_secp key (Some (replicate 33 0))) = (Some pk, 33)"
proof -
  have "\<exists>kc'. CKDpriv integer_secp kc i = Some kc' \<and> tweak_ok integer_secp kc i" for kc i
    by (cases kc) (auto simp: CKDpriv_def tweak_ok_def priv_data_def BRSecp256k1PointGen_def
        BRSecp256k1ModAdd_def Let_def integer_secp_def)
  then have "valid_path integer_secp (seed_key [1, 2, 3]) [BIP32_HARD, 1, 4]"
    by (simp split: option.splits) (metis option.distinct(1))
  from bip32_public_derivation [OF integer_secp_ok this] show ?thesis
    by (simp add: BIP32_HARD_def) blast
qed

text \<open>
  \<open>BIP44AddrKey\<close> announces a path of five indexes and passes three: for every seed the
  derivation reads arguments that were not passed.\<close>

theorem bip44_addr_key_undefined: "BIP44AddrKey S seed = None"
proof -
  have "path_loop S 5 [i, j, k] kc = None" for i j k kc
    by (simp add: eval_nat_numeral split: Option.bind_splits)
  then show ?thesis by (simp add: BIP44AddrKey_def BRBIP32PrivKeyPath_def BRBIP32vPrivKeyPath_def)
qed

end
