(* ===== verification/BRWallet.thy ===== *)
theory BRWallet
  imports BRTransaction BRBIP32Sequence
begin

text \<open>
  \<open>src/Modules/core/BRWallet.c\<close>: the wallet.

  The transactions that the wallet owns are objects reached through pointers from \<open>allTx\<close> and
  \<open>transactions\<close>, which \<open>BRWalletUpdateTransactions\<close> changes in place. The model keeps each of them
  once, in the map \<open>allTx\<close> under its hash, and a pointer is this hash; two objects with the same hash
  are never both in the wallet. The other \<open>BRSet\<close>s are sets of their keys; \<open>spentOutputs\<close> holds
  inputs, which the code reads as the \<open>BRUTXO\<close> they start with. The callbacks are the events that an
  operation returns. The lock is left out: the operations are those of one thread.

  A result \<open>None\<close> of an operation stands for a null or dangling pointer that is followed, an index
  outside of its array, a failed assertion, or a recursion that does not end. Arguments shared by
  many operations are the compile time switch \<open>testnet\<close>, the curve library \<open>S\<close>, the current time
  \<open>now\<close>, the values \<open>rs\<close> that \<open>rand()\<close> will give, and \<open>moved\<close>, which says whether growing an address
  chain moved it in memory.
\<close>

record BRUTXO =
  utxo_hash :: UInt256
  utxo_n :: u32

record BRWallet =
  balance :: u64
  totalSent :: u64
  totalReceived :: u64
  feePerKb :: u64
  balanceHist :: "u64 list"
  w_blockHeight :: u32
  utxos :: "BRUTXO list"
  transactions :: "UInt256 list"
  masterPubKey :: BRMasterPubKey
  internalChain :: "bytes list"
  externalChain :: "bytes list"
  allTx :: "UInt256 \<rightharpoonup> BRTransaction"
  invalidTx :: "UInt256 set"
  pendingTx :: "UInt256 set"
  spentOutputs :: "BRUTXO set"
  usedAddrs :: "bytes set"
  allAddrs :: "bytes set"

datatype wallet_event =
    BalanceChanged u64
  | TxAdded UInt256
  | TxUpdated "UInt256 list" u32 u32
  | TxDeleted UInt256 bool bool

definition DEFAULT_FEE_PER_KB :: u64 where "DEFAULT_FEE_PER_KB = (5000 * 1000 + 99) div 100"
definition MIN_FEE_PER_KB :: u64 where "MIN_FEE_PER_KB = (TX_FEE_PER_KB * 1000 + 190) div 191"
definition TX_MAX_LOCK_HEIGHT :: u32 where "TX_MAX_LOCK_HEIGHT = 500000000"
definition TXIN_SEQUENCE :: u32 where "TXIN_SEQUENCE = 0xffffffff"

definition BRUTXOHash :: "BRUTXO \<Rightarrow> nat" where
  "BRUTXOHash utxo = unat ((ucast (utxo_hash utxo) XOR utxo_n utxo) * 0x01000193)"

definition BRUTXOEq :: "BRUTXO \<Rightarrow> BRUTXO \<Rightarrow> bool" where
  "BRUTXOEq utxo otherUtxo \<longleftrightarrow> utxo = otherUtxo \<or>
     (utxo_hash utxo = utxo_hash otherUtxo \<and> utxo_n utxo = utxo_n otherUtxo)"

text \<open>The hash and equality of unspent outputs satisfy what a \<open>BRSet\<close> of them asks.\<close>

interpretation utxo_set: set_keys BRUTXOHash BRUTXOEq
  by unfold_locales (auto simp: BRUTXOEq_def BRUTXOHash_def)

section \<open>The order of the transactions\<close>

definition txFee :: "u64 \<Rightarrow> u64 \<Rightarrow> u64" where
  "txFee perKb sz = (let
     standardFee = (sz * TX_FEE_PER_KB) div 1000;
     fee = (((sz * perKb div 1000) + 99) div 100) * 100
   in if fee > standardFee then fee else standardFee)"

text \<open>The index \<open>SIZE_MAX\<close> is \<open>None\<close>.\<close>

definition txChainIndex :: "BRTransaction \<Rightarrow> bytes list \<Rightarrow> nat option" where
  "txChainIndex tx addrChain =
     find (\<lambda>i. list_ex (\<lambda>out. BRAddressEq (out_address out) (addrChain ! i)) (outputs tx))
       (rev [0..<length addrChain])"

definition spends :: "BRTransaction \<Rightarrow> BRTransaction \<Rightarrow> bool" where
  "spends tx1 tx2 = list_ex (\<lambda>inp. in_txHash inp = txHash tx2) (inputs tx1)"

text \<open>
  What the first three tests of \<open>_BRWalletTxIsAscending\<close> say, \<open>None\<close> when it goes on to the inputs of
  \<open>tx1\<close>; and its recursion over them, one input after the other.
\<close>

definition ascending_test :: "BRTransaction \<Rightarrow> BRTransaction \<Rightarrow> bool option" where
  "ascending_test tx1 tx2 =
     (if blockHeight tx1 > blockHeight tx2 then Some True
      else if blockHeight tx1 < blockHeight tx2 then Some False
      else if spends tx1 tx2 then Some True
      else if spends tx2 tx1 then Some False
      else None)"

partial_function (option) ascending_any :: "BRWallet \<Rightarrow> UInt256 list \<Rightarrow> BRTransaction \<Rightarrow> bool option" where
  "ascending_any wallet hs tx2 = (case hs of
     [] \<Rightarrow> Some False
   | h # hs \<Rightarrow> (case allTx wallet h of
       None \<Rightarrow> ascending_any wallet hs tx2
     | Some t \<Rightarrow> (case ascending_test t tx2 of
         Some r \<Rightarrow> if r then Some True else ascending_any wallet hs tx2
       | None \<Rightarrow> Option.bind (ascending_any wallet (map in_txHash (inputs t)) tx2) (\<lambda>r.
           if r then Some True else ascending_any wallet hs tx2))))"

declare ascending_any.simps [code]

definition BRWalletTxIsAscending :: "BRWallet \<Rightarrow> BRTransaction \<Rightarrow> BRTransaction \<Rightarrow> bool option" where
  "BRWalletTxIsAscending wallet tx1 tx2 = (case ascending_test tx1 tx2 of
     Some r \<Rightarrow> Some r
   | None \<Rightarrow> ascending_any wallet (map in_txHash (inputs tx1)) tx2)"

definition BRWalletTxCompare :: "BRWallet \<Rightarrow> BRTransaction \<Rightarrow> BRTransaction \<Rightarrow> int option" where
  "BRWalletTxCompare wallet tx1 tx2 = do {
     a \<leftarrow> BRWalletTxIsAscending wallet tx1 tx2;
     if a then Some 1 else do {
       b \<leftarrow> BRWalletTxIsAscending wallet tx2 tx1;
       if b then Some (- 1) else do {
         let i = txChainIndex tx1 (internalChain wallet);
         let j = txChainIndex tx2 (if i = None then externalChain wallet else internalChain wallet);
         let i = (if i = None \<and> j \<noteq> None then txChainIndex tx1 (externalChain wallet) else i);
         Some (case (i, j) of
             (Some m, Some n) \<Rightarrow> if m \<noteq> n then (if m > n then 1 else - 1) else 0
           | _ \<Rightarrow> 0) } } }"

text \<open>The insertion loop, on the transactions from the last to the first.\<close>

fun insert_tx_loop :: "BRWallet \<Rightarrow> UInt256 list \<Rightarrow> UInt256 \<Rightarrow> BRTransaction \<Rightarrow> UInt256 list option" where
  "insert_tx_loop wallet [] h tx = Some [h]"
| "insert_tx_loop wallet (t # ts) h tx = do {
     t' \<leftarrow> allTx wallet t;
     c \<leftarrow> BRWalletTxCompare wallet t' tx;
     if c > 0 then do { ts \<leftarrow> insert_tx_loop wallet ts h tx; Some (t # ts) }
     else Some (h # t # ts) }"

definition BRWalletInsertTx :: "BRWallet \<Rightarrow> UInt256 \<Rightarrow> BRWallet option" where
  "BRWalletInsertTx wallet h = do {
     tx \<leftarrow> allTx wallet h;
     ts \<leftarrow> insert_tx_loop wallet (rev (transactions wallet)) h tx;
     Some (wallet\<lparr>transactions := rev ts\<rparr>) }"

text \<open>The output that an input spends, when the transaction is known.\<close>

definition prev_output :: "BRWallet \<Rightarrow> BRTxInput \<Rightarrow> BRTxOutput option" where
  "prev_output wallet inp = (case allTx wallet (in_txHash inp) of
     None \<Rightarrow> None
   | Some t \<Rightarrow> if unat (in_index inp) < length (outputs t) then Some (outputs t ! unat (in_index inp)) else None)"

definition wallet_output :: "BRWallet \<Rightarrow> BRTxOutput \<Rightarrow> bool" where
  "wallet_output wallet out \<longleftrightarrow> out_address out \<in> allAddrs wallet"

definition BRWalletContainsTx :: "BRWallet \<Rightarrow> BRTransaction \<Rightarrow> bool" where
  "BRWalletContainsTx wallet tx \<longleftrightarrow> list_ex (wallet_output wallet) (outputs tx) \<or>
     list_ex (\<lambda>inp. case prev_output wallet inp of None \<Rightarrow> False | Some out \<Rightarrow> wallet_output wallet out) (inputs tx)"

section \<open>The balance\<close>

definition utxo_of :: "BRTxInput \<Rightarrow> BRUTXO" where
  "utxo_of inp = \<lparr>utxo_hash = in_txHash inp, utxo_n = in_index inp\<rparr>"

definition lock_pending :: "u32 \<Rightarrow> int \<Rightarrow> BRTransaction \<Rightarrow> BRTxInput \<Rightarrow> bool" where
  "lock_pending bh now tx inp \<longleftrightarrow>
     in_sequence inp < 0xffffffff - 1 \<or>
     (in_sequence inp < 0xffffffff \<and> lockTime tx < TX_MAX_LOCK_HEIGHT \<and> lockTime tx > bh + 1) \<or>
     (in_sequence inp < 0xffffffff \<and> int (unat (lockTime tx)) > now)"

definition tx_invalid :: "BRWallet \<Rightarrow> BRTransaction \<Rightarrow> bool" where
  "tx_invalid wallet tx \<longleftrightarrow> blockHeight tx = TX_UNCONFIRMED \<and>
     list_ex (\<lambda>inp. utxo_of inp \<in> spentOutputs wallet \<or> in_txHash inp \<in> invalidTx wallet) (inputs tx)"

definition tx_pending :: "int \<Rightarrow> BRWallet \<Rightarrow> BRTransaction \<Rightarrow> bool" where
  "tx_pending now wallet tx \<longleftrightarrow> blockHeight tx = TX_UNCONFIRMED \<and>
     (BRTransactionSize tx > TX_MAX_SIZE \<or>
      list_ex (\<lambda>out. out_amount out < TX_MIN_OUTPUT_AMOUNT) (outputs tx) \<or>
      list_ex (\<lambda>inp. lock_pending (w_blockHeight wallet) now tx inp \<or> in_txHash inp \<in> pendingTx wallet) (inputs tx))"

text \<open>One output of a transaction: a used address, and a new unspent output when it is the wallet's.\<close>

definition output_added :: "BRTransaction \<Rightarrow> BRWallet \<times> u64 \<Rightarrow> nat \<Rightarrow> BRWallet \<times> u64" where
  "output_added tx s j = (case s of (wallet, bal) \<Rightarrow>
     let out = outputs tx ! j in
     if out_address out \<noteq> [] then
       let wallet = wallet\<lparr>usedAddrs := insert (out_address out) (usedAddrs wallet)\<rparr> in
       if wallet_output wallet out
       then (wallet\<lparr>utxos := utxos wallet @ [\<lparr>utxo_hash = txHash tx, utxo_n = of_nat j\<rparr>]\<rparr>, bal + out_amount out)
       else (wallet, bal)
     else s)"

definition utxo_output :: "BRWallet \<Rightarrow> BRUTXO \<Rightarrow> BRTxOutput option" where
  "utxo_output wallet u = (case allTx wallet (utxo_hash u) of
     None \<Rightarrow> None
   | Some t \<Rightarrow> if unat (utxo_n u) < length (outputs t) then Some (outputs t ! unat (utxo_n u)) else None)"

text \<open>The loop over the unspent outputs, from the last to the first.\<close>

fun spend_loop :: "BRWallet \<Rightarrow> BRUTXO list \<Rightarrow> u64 \<Rightarrow> (BRUTXO list \<times> u64) option" where
  "spend_loop wallet [] bal = Some ([], bal)"
| "spend_loop wallet (u # us) bal = do {
     (us, bal) \<leftarrow> spend_loop wallet us bal;
     if u \<notin> spentOutputs wallet then Some (u # us, bal)
     else do { out \<leftarrow> utxo_output wallet u; Some (us, bal - out_amount out) } }"

definition balance_step :: "int \<Rightarrow> BRWallet \<times> u64 \<times> u64 \<Rightarrow> UInt256 \<Rightarrow> (BRWallet \<times> u64 \<times> u64) option" where
  "balance_step now s h = (case s of (wallet, bal, prev) \<Rightarrow> do {
     tx \<leftarrow> allTx wallet h;
     if tx_invalid wallet tx
     then Some (wallet\<lparr>invalidTx := insert h (invalidTx wallet), balanceHist := balanceHist wallet @ [bal]\<rparr>, bal, prev)
     else do {
       let wallet = wallet\<lparr>spentOutputs := spentOutputs wallet \<union> utxo_of ` set (inputs tx)\<rparr>;
       if tx_pending now wallet tx
       then Some (wallet\<lparr>pendingTx := insert h (pendingTx wallet), balanceHist := balanceHist wallet @ [bal]\<rparr>, bal, prev)
       else do {
         let (wallet, bal) = foldl (output_added tx) (wallet, bal) [0..<length (outputs tx)];
         (us, bal) \<leftarrow> spend_loop wallet (utxos wallet) bal;
         Some (wallet\<lparr>utxos := us,
             totalReceived := (if prev < bal then totalReceived wallet + (bal - prev) else totalReceived wallet),
             totalSent := (if bal < prev then totalSent wallet + (prev - bal) else totalSent wallet),
             balanceHist := balanceHist wallet @ [bal]\<rparr>, bal, bal) } } })"

fun balance_loop :: "int \<Rightarrow> BRWallet \<times> u64 \<times> u64 \<Rightarrow> UInt256 list \<Rightarrow> (BRWallet \<times> u64 \<times> u64) option" where
  "balance_loop now s [] = Some s"
| "balance_loop now s (h # hs) = do { s \<leftarrow> balance_step now s h; balance_loop now s hs }"

definition balance_start :: "BRWallet \<Rightarrow> BRWallet" where
  "balance_start wallet = wallet\<lparr>utxos := [], balanceHist := [], spentOutputs := {}, invalidTx := {},
     pendingTx := {}, usedAddrs := {}, totalSent := 0, totalReceived := 0\<rparr>"

definition BRWalletUpdateBalance :: "int \<Rightarrow> BRWallet \<Rightarrow> BRWallet option" where
  "BRWalletUpdateBalance now wallet = do {
     (wallet, bal, _) \<leftarrow> balance_loop now (balance_start wallet, 0, 0) (transactions wallet);
     if length (balanceHist wallet) = length (transactions wallet)
     then Some (wallet\<lparr>balance := bal\<rparr>) else None }"

section \<open>Addresses\<close>

text \<open>
  The address of a key in a chain: the inner \<open>None\<close> says that the loop of \<open>BRWalletUnusedAddrs\<close>
  breaks.
\<close>

definition chain_address ::
  "bool \<Rightarrow> ('k, 's, 'r) secp \<Rightarrow> BRMasterPubKey \<Rightarrow> u32 \<Rightarrow> nat \<Rightarrow> bytes option option" where
  "chain_address testnet S mpk chain cnt = do {
     (_, n) \<leftarrow> BRBIP32PubKey S None mpk chain (of_nat cnt);
     (pk, len) \<leftarrow> BRBIP32PubKey S (Some (replicate n 0)) mpk chain (of_nat cnt);
     (key, ok) \<leftarrow> BRKeySetPubKey S (take len (the pk));
     Some (if \<not> ok then None
           else case BRKeyAddress testnet S key (Some (replicate 36 0)) of (_, addr, r) \<Rightarrow>
             if r = 0 \<or> BRAddressEq (cstr (the addr)) [] then None else Some (cstr (the addr))) }"

text \<open>The loop that generates addresses, up to a gap of \<open>gapLimit\<close> unused ones after position \<open>i\<close>.\<close>

partial_function (option) address_loop ::
  "bool \<Rightarrow> ('k, 's, 'r) secp \<Rightarrow> BRWallet \<Rightarrow> u32 \<Rightarrow> nat \<Rightarrow> nat \<Rightarrow> bytes list \<Rightarrow> (nat \<times> bytes list) option" where
  "address_loop testnet S wallet chain gapLimit i addrChain =
     (if i + gapLimit > length addrChain then
        Option.bind (chain_address testnet S (masterPubKey wallet) chain (length addrChain)) (\<lambda>a.
          case a of
            None \<Rightarrow> Some (i, addrChain)
          | Some addr \<Rightarrow> address_loop testnet S wallet chain gapLimit
              (if addr \<in> usedAddrs wallet then length addrChain + 1 else i) (addrChain @ [addr]))
      else Some (i, addrChain))"

declare address_loop.simps [code]

text \<open>The addresses written to \<open>addrs\<close>, as if it was not null.\<close>

definition BRWalletUnusedAddrs ::
  "bool \<Rightarrow> ('k, 's, 'r) secp \<Rightarrow> bool \<Rightarrow> BRWallet \<Rightarrow> nat \<Rightarrow> bool \<Rightarrow> (BRWallet \<times> bytes list) option" where
  "BRWalletUnusedAddrs testnet S moved wallet gapLimit internal = (if gapLimit = 0 then None else do {
     let chain = (if internal then SEQUENCE_INTERNAL_CHAIN else SEQUENCE_EXTERNAL_CHAIN);
     let old = (if internal then internalChain wallet else externalChain wallet);
     let i = length old - length (takeWhile (\<lambda>a. a \<notin> usedAddrs wallet) (rev old));
     (i, addrChain) \<leftarrow> address_loop testnet S wallet chain gapLimit i old;
     let written = (if i + gapLimit \<le> length addrChain then take gapLimit (drop i addrChain) else []);
     let wallet = (if internal then wallet\<lparr>internalChain := addrChain\<rparr> else wallet\<lparr>externalChain := addrChain\<rparr>);
     let known = (if \<not> moved then allAddrs wallet \<union> set (drop (length old) addrChain)
                  else set (internalChain wallet) \<union> set (externalChain wallet));
     Some (wallet\<lparr>allAddrs := known\<rparr>, written) })"

definition BRWalletReceiveAddress ::
  "bool \<Rightarrow> ('k, 's, 'r) secp \<Rightarrow> bool \<Rightarrow> BRWallet \<Rightarrow> (BRWallet \<times> bytes) option" where
  "BRWalletReceiveAddress testnet S moved wallet = do {
     (wallet, addrs) \<leftarrow> BRWalletUnusedAddrs testnet S moved wallet 1 False;
     Some (wallet, case addrs of [] \<Rightarrow> [] | a # _ \<Rightarrow> a) }"

section \<open>Construction\<close>

definition wallet_calloc :: "BRMasterPubKey \<Rightarrow> BRWallet" where
  "wallet_calloc mpk = \<lparr>balance = 0, totalSent = 0, totalReceived = 0, feePerKb = DEFAULT_FEE_PER_KB,
     balanceHist = [], w_blockHeight = 0, utxos = [], transactions = [], masterPubKey = mpk,
     internalChain = [], externalChain = [], allTx = Map.empty, invalidTx = {}, pendingTx = {},
     spentOutputs = {}, usedAddrs = {}, allAddrs = {}\<rparr>"

fun load_loop :: "BRWallet \<Rightarrow> BRTransaction list \<Rightarrow> BRWallet option" where
  "load_loop wallet [] = Some wallet"
| "load_loop wallet (tx # txs) =
     (if \<not> BRTransactionIsSigned tx \<or> allTx wallet (txHash tx) \<noteq> None then load_loop wallet txs
      else do {
        let wallet = wallet\<lparr>allTx := (allTx wallet)(txHash tx \<mapsto> tx)\<rparr>;
        wallet \<leftarrow> BRWalletInsertTx wallet (txHash tx);
        let used = set (filter (\<lambda>a. a \<noteq> []) (map out_address (outputs tx)));
        load_loop (wallet\<lparr>usedAddrs := usedAddrs wallet \<union> used\<rparr>) txs })"

text \<open>The inner \<open>None\<close> is the null pointer for transactions of another wallet.\<close>

definition BRWalletNew ::
  "bool \<Rightarrow> ('k, 's, 'r) secp \<Rightarrow> bool \<Rightarrow> int \<Rightarrow> BRTransaction list \<Rightarrow> BRMasterPubKey \<Rightarrow> BRWallet option option" where
  "BRWalletNew testnet S moved now txs mpk = do {
     wallet \<leftarrow> load_loop (wallet_calloc mpk) txs;
     (wallet, _) \<leftarrow> BRWalletUnusedAddrs testnet S moved wallet SEQUENCE_GAP_LIMIT_EXTERNAL False;
     (wallet, _) \<leftarrow> BRWalletUnusedAddrs testnet S moved wallet SEQUENCE_GAP_LIMIT_INTERNAL True;
     wallet \<leftarrow> BRWalletUpdateBalance now wallet;
     Some (case txs of
         [] \<Rightarrow> Some wallet
       | tx # _ \<Rightarrow> if BRWalletContainsTx wallet tx then Some wallet else None) }"

section \<open>Queries\<close>

definition BRWalletBalance :: "BRWallet \<Rightarrow> u64" where "BRWalletBalance wallet = balance wallet"
definition BRWalletTotalSent :: "BRWallet \<Rightarrow> u64" where "BRWalletTotalSent wallet = totalSent wallet"
definition BRWalletTotalReceived :: "BRWallet \<Rightarrow> u64" where "BRWalletTotalReceived wallet = totalReceived wallet"
definition BRWalletFeePerKb :: "BRWallet \<Rightarrow> u64" where "BRWalletFeePerKb wallet = feePerKb wallet"

definition BRWalletSetFeePerKb :: "BRWallet \<Rightarrow> u64 \<Rightarrow> BRWallet" where
  "BRWalletSetFeePerKb wallet perKb = wallet\<lparr>feePerKb := perKb\<rparr>"

text \<open>An array of the caller is its capacity, \<open>None\<close> when null; what is written and the result.\<close>

definition BRWalletUTXOs :: "BRWallet \<Rightarrow> nat option \<Rightarrow> BRUTXO list \<times> nat" where
  "BRWalletUTXOs wallet us = (case us of
     None \<Rightarrow> ([], length (utxos wallet))
   | Some n \<Rightarrow> let n = min n (length (utxos wallet)) in (take n (utxos wallet), n))"

definition BRWalletTransactions :: "BRWallet \<Rightarrow> nat option \<Rightarrow> UInt256 list \<times> nat" where
  "BRWalletTransactions wallet txs = (case txs of
     None \<Rightarrow> ([], length (transactions wallet))
   | Some n \<Rightarrow> let n = min n (length (transactions wallet)) in (take n (transactions wallet), n))"

text \<open>The transactions at the end of the list whose height is at least \<open>bh\<close>, newest first.\<close>

definition tail_from :: "BRWallet \<Rightarrow> (u32 \<Rightarrow> bool) \<Rightarrow> UInt256 list" where
  "tail_from wallet P =
     takeWhile (\<lambda>h. case allTx wallet h of None \<Rightarrow> False | Some tx \<Rightarrow> P (blockHeight tx)) (rev (transactions wallet))"

definition BRWalletTxUnconfirmedBefore :: "BRWallet \<Rightarrow> nat option \<Rightarrow> u32 \<Rightarrow> UInt256 list \<times> nat" where
  "BRWalletTxUnconfirmedBefore wallet txs bh = (let
     ts = rev (tail_from wallet (\<lambda>b. b \<ge> bh)) in
   case txs of None \<Rightarrow> ([], length ts) | Some n \<Rightarrow> let n = min n (length ts) in (take n ts, n))"

definition BRWalletAllAddrs :: "BRWallet \<Rightarrow> nat option \<Rightarrow> bytes list \<times> nat" where
  "BRWalletAllAddrs wallet addrs = (let i = internalChain wallet; e = externalChain wallet in case addrs of
     None \<Rightarrow> ([], length i + length e)
   | Some n \<Rightarrow> let a = min n (length i); b = min (n - a) (length e) in (take a i @ take b e, a + b))"

definition BRWalletContainsAddress :: "BRWallet \<Rightarrow> bytes \<Rightarrow> bool" where
  "BRWalletContainsAddress wallet addr \<longleftrightarrow> addr \<in> allAddrs wallet"

definition BRWalletAddressIsUsed :: "BRWallet \<Rightarrow> bytes \<Rightarrow> bool" where
  "BRWalletAddressIsUsed wallet addr \<longleftrightarrow> addr \<in> usedAddrs wallet"

definition BRWalletContainsTransaction :: "BRWallet \<Rightarrow> BRTransaction \<Rightarrow> bool" where
  "BRWalletContainsTransaction wallet tx = BRWalletContainsTx wallet tx"

definition BRWalletTransactionForHash :: "BRWallet \<Rightarrow> UInt256 \<Rightarrow> BRTransaction option option" where
  "BRWalletTransactionForHash wallet h = (if h = 0 then None else Some (allTx wallet h))"

text \<open>
  The validity of a transaction without its inputs' transactions, and the recursion over those, for
  a list of hashes one after the other.
\<close>

definition valid_here :: "BRWallet \<Rightarrow> BRTransaction \<Rightarrow> bool" where
  "valid_here wallet tx =
     (if allTx wallet (txHash tx) = None
      then list_all (\<lambda>inp. utxo_of inp \<notin> spentOutputs wallet) (inputs tx)
      else txHash tx \<notin> invalidTx wallet)"

partial_function (option) valid_all :: "BRWallet \<Rightarrow> UInt256 list \<Rightarrow> bool option" where
  "valid_all wallet hs = (case hs of
     [] \<Rightarrow> Some True
   | h # hs \<Rightarrow> Option.bind (BRWalletTransactionForHash wallet h) (\<lambda>t. case t of
       None \<Rightarrow> valid_all wallet hs
     | Some t \<Rightarrow>
         if \<not> BRTransactionIsSigned t then None
         else if blockHeight t \<noteq> TX_UNCONFIRMED then valid_all wallet hs
         else if \<not> valid_here wallet t then Some False
         else Option.bind (valid_all wallet (map in_txHash (inputs t))) (\<lambda>r.
           if r then valid_all wallet hs else Some False)))"

declare valid_all.simps [code]

definition BRWalletTransactionIsValid :: "BRWallet \<Rightarrow> BRTransaction \<Rightarrow> bool option" where
  "BRWalletTransactionIsValid wallet tx =
     (if \<not> BRTransactionIsSigned tx then None
      else if blockHeight tx \<noteq> TX_UNCONFIRMED then Some True
      else if \<not> valid_here wallet tx then Some False
      else valid_all wallet (map in_txHash (inputs tx)))"

definition pending_here :: "int \<Rightarrow> BRWallet \<Rightarrow> BRTransaction \<Rightarrow> bool" where
  "pending_here now wallet tx \<longleftrightarrow> BRTransactionSize tx > TX_MAX_SIZE \<or>
     list_ex (lock_pending (w_blockHeight wallet) now tx) (inputs tx) \<or>
     list_ex (\<lambda>out. out_amount out < TX_MIN_OUTPUT_AMOUNT) (outputs tx)"

partial_function (option) pending_any :: "int \<Rightarrow> BRWallet \<Rightarrow> UInt256 list \<Rightarrow> bool option" where
  "pending_any now wallet hs = (case hs of
     [] \<Rightarrow> Some False
   | h # hs \<Rightarrow> Option.bind (BRWalletTransactionForHash wallet h) (\<lambda>t. case t of
       None \<Rightarrow> pending_any now wallet hs
     | Some t \<Rightarrow>
         if \<not> BRTransactionIsSigned t then None
         else if blockHeight t \<noteq> TX_UNCONFIRMED then pending_any now wallet hs
         else if pending_here now wallet t then Some True
         else Option.bind (pending_any now wallet (map in_txHash (inputs t))) (\<lambda>r.
           if r then Some True else pending_any now wallet hs)))"

declare pending_any.simps [code]

definition BRWalletTransactionIsPending :: "int \<Rightarrow> BRWallet \<Rightarrow> BRTransaction \<Rightarrow> bool option" where
  "BRWalletTransactionIsPending now wallet tx =
     (if \<not> BRTransactionIsSigned tx then None
      else if blockHeight tx \<noteq> TX_UNCONFIRMED then Some False
      else if pending_here now wallet tx then Some True
      else pending_any now wallet (map in_txHash (inputs tx)))"

definition verified_here :: "int \<Rightarrow> BRWallet \<Rightarrow> BRTransaction \<Rightarrow> bool option" where
  "verified_here now wallet tx = (if tx_timestamp tx = 0 then Some False else do {
     v \<leftarrow> BRWalletTransactionIsValid wallet tx;
     if \<not> v then Some False else map_option Not (BRWalletTransactionIsPending now wallet tx) })"

partial_function (option) verified_all :: "int \<Rightarrow> BRWallet \<Rightarrow> UInt256 list \<Rightarrow> bool option" where
  "verified_all now wallet hs = (case hs of
     [] \<Rightarrow> Some True
   | h # hs \<Rightarrow> Option.bind (BRWalletTransactionForHash wallet h) (\<lambda>t. case t of
       None \<Rightarrow> verified_all now wallet hs
     | Some t \<Rightarrow>
         if \<not> BRTransactionIsSigned t then None
         else if blockHeight t \<noteq> TX_UNCONFIRMED then verified_all now wallet hs
         else Option.bind (verified_here now wallet t) (\<lambda>v.
           if \<not> v then Some False
           else Option.bind (verified_all now wallet (map in_txHash (inputs t))) (\<lambda>r.
             if r then verified_all now wallet hs else Some False))))"

declare verified_all.simps [code]

definition BRWalletTransactionIsVerified :: "int \<Rightarrow> BRWallet \<Rightarrow> BRTransaction \<Rightarrow> bool option" where
  "BRWalletTransactionIsVerified now wallet tx =
     (if \<not> BRTransactionIsSigned tx then None
      else if blockHeight tx \<noteq> TX_UNCONFIRMED then Some True
      else do {
        v \<leftarrow> verified_here now wallet tx;
        if \<not> v then Some False else verified_all now wallet (map in_txHash (inputs tx)) })"

definition BRWalletAmountReceivedFromTx :: "BRWallet \<Rightarrow> BRTransaction \<Rightarrow> u64" where
  "BRWalletAmountReceivedFromTx wallet tx = sum_list (map out_amount (filter (wallet_output wallet) (outputs tx)))"

definition BRWalletAmountSentByTx :: "BRWallet \<Rightarrow> BRTransaction \<Rightarrow> u64" where
  "BRWalletAmountSentByTx wallet tx = sum_list (map (\<lambda>inp. case prev_output wallet inp of
       None \<Rightarrow> 0 | Some out \<Rightarrow> if wallet_output wallet out then out_amount out else 0) (inputs tx))"

fun fee_inputs :: "BRWallet \<Rightarrow> BRTxInput list \<Rightarrow> u64 \<Rightarrow> u64" where
  "fee_inputs wallet [] amount = amount"
| "fee_inputs wallet (inp # inps) amount =
     (if amount = - 1 then amount
      else fee_inputs wallet inps (case prev_output wallet inp of None \<Rightarrow> - 1 | Some out \<Rightarrow> amount + out_amount out))"

fun fee_outputs :: "BRTxOutput list \<Rightarrow> u64 \<Rightarrow> u64" where
  "fee_outputs [] amount = amount"
| "fee_outputs (out # outs) amount = (if amount = - 1 then amount else fee_outputs outs (amount - out_amount out))"

definition BRWalletFeeForTx :: "BRWallet \<Rightarrow> BRTransaction \<Rightarrow> u64" where
  "BRWalletFeeForTx wallet tx = fee_outputs (outputs tx) (fee_inputs wallet (inputs tx) 0)"

definition BRWalletBalanceAfterTx :: "BRWallet \<Rightarrow> BRTransaction \<Rightarrow> u64 option" where
  "BRWalletBalanceAfterTx wallet tx =
     (if \<not> BRTransactionIsSigned tx then None
      else case find (\<lambda>i. transactions wallet ! i = txHash tx) (rev [0..<length (transactions wallet)]) of
          None \<Rightarrow> Some (balance wallet)
        | Some i \<Rightarrow> if i < length (balanceHist wallet) then Some (balanceHist wallet ! i) else None)"

definition BRWalletFeeForTxSize :: "BRWallet \<Rightarrow> nat \<Rightarrow> u64" where
  "BRWalletFeeForTxSize wallet sz = txFee (feePerKb wallet) (of_nat sz)"

definition BRWalletMinOutputAmount :: "BRWallet \<Rightarrow> u64" where
  "BRWalletMinOutputAmount wallet = (let
     amount = (TX_MIN_OUTPUT_AMOUNT * feePerKb wallet + MIN_FEE_PER_KB - 1) div MIN_FEE_PER_KB
   in if amount > TX_MIN_OUTPUT_AMOUNT then amount else TX_MIN_OUTPUT_AMOUNT)"

definition BRWalletMaxOutputAmount :: "BRWallet \<Rightarrow> u64" where
  "BRWalletMaxOutputAmount wallet = (let
     outs = List.map_filter (utxo_output wallet) (utxos wallet);
     amount = sum_list (map out_amount outs);
     inCount = length outs;
     txSize = 8 + BRVarIntSize (of_nat inCount) + TX_INPUT_SIZE * inCount + BRVarIntSize 2 + TX_OUTPUT_SIZE * 2;
     fee = txFee (feePerKb wallet) (of_nat txSize)
   in if amount > fee then amount - fee else 0)"

section \<open>New transactions\<close>

text \<open>
  The loop over the unspent outputs: the transaction with the inputs added so far, the balance and
  the fee, and whether the transaction has become too large.
\<close>

fun create_loop ::
  "bool \<Rightarrow> BRWallet \<Rightarrow> u64 \<Rightarrow> u64 \<Rightarrow> BRUTXO list \<Rightarrow> BRTransaction \<Rightarrow> u64 \<Rightarrow> u64 \<Rightarrow>
   (bool \<times> BRTransaction \<times> u64 \<times> u64) option" where
  "create_loop testnet wallet amount minAmount [] tx bal fee = Some (False, tx, bal, fee)"
| "create_loop testnet wallet amount minAmount (u # us) tx bal fee = (case utxo_output wallet u of
     None \<Rightarrow> create_loop testnet wallet amount minAmount us tx bal fee
   | Some out \<Rightarrow> do {
       tx \<leftarrow> BRTransactionAddInput testnet tx (utxo_hash u) (utxo_n u) (out_amount out) (out_script out) None TXIN_SEQUENCE;
       let sz = BRTransactionSize tx + TX_OUTPUT_SIZE;
       if sz > TX_MAX_SIZE then Some (True, tx, bal, fee)
       else do {
         let bal = bal + out_amount out;
         let fee = txFee (feePerKb wallet) (of_nat sz);
         let fee = (if balance wallet > amount + fee then fee + (balance wallet - (amount + fee)) mod 100 else fee);
         if bal = amount + fee \<or> bal \<ge> amount + fee + minAmount then Some (False, tx, bal, fee)
         else create_loop testnet wallet amount minAmount us tx bal fee } })"

definition tx_for_outputs :: "bool \<Rightarrow> BRTxOutput list \<Rightarrow> BRTransaction" where
  "tx_for_outputs testnet outs =
     foldl (\<lambda>tx out. BRTransactionAddOutput testnet tx (out_amount out) (out_script out)) BRTransactionNew outs"

text \<open>The change output; without an unused address its script is empty.\<close>

definition add_change ::
  "bool \<Rightarrow> ('k, 's, 'r) secp \<Rightarrow> bool \<Rightarrow> BRWallet \<Rightarrow> u32 list \<Rightarrow> BRTransaction \<Rightarrow> u64 \<Rightarrow>
   (BRWallet \<times> BRTransaction \<times> u32 list) option" where
  "add_change testnet S moved wallet rs tx amount = do {
     (wallet, addrs) \<leftarrow> BRWalletUnusedAddrs testnet S moved wallet 1 True;
     let addr = (case addrs of [] \<Rightarrow> [] | a # _ \<Rightarrow> a);
     let tx = BRTransactionAddOutput testnet tx amount (Some (script_for testnet addr));
     (tx, rs) \<leftarrow> BRTransactionShuffleOutputs tx rs;
     Some (wallet, tx, rs) }"

text \<open>The outputs of the smaller transaction that is tried when one becomes too large.\<close>

definition smaller_outputs :: "BRTxOutput list \<Rightarrow> u64 \<Rightarrow> u64 \<Rightarrow> u64 \<Rightarrow> u64 \<Rightarrow> BRTxOutput list" where
  "smaller_outputs outs amount fee minAmount bal = (let lst = last outs in
     if out_amount lst > amount + fee + minAmount - bal
     then butlast outs @ [lst\<lparr>out_amount := out_amount lst - (amount + fee - bal)\<rparr>]
     else butlast outs)"

partial_function (option) BRWalletCreateTxForOutputs ::
  "bool \<Rightarrow> ('k, 's, 'r) secp \<Rightarrow> bool \<Rightarrow> BRWallet \<Rightarrow> u32 list \<Rightarrow> BRTxOutput list \<Rightarrow>
   (BRWallet \<times> BRTransaction option \<times> u32 list) option" where
  "BRWalletCreateTxForOutputs testnet S moved wallet rs outs =
     (if outs = [] \<or> list_ex (\<lambda>out. script_bytes (out_script out) = []) outs then None
      else
        let transaction = tx_for_outputs testnet outs;
            amount = sum_list (map out_amount outs);
            minAmount = BRWalletMinOutputAmount wallet;
            fee = txFee (feePerKb wallet) (of_nat (BRTransactionSize transaction + TX_OUTPUT_SIZE))
        in case create_loop testnet wallet amount minAmount (utxos wallet) transaction 0 fee of
             None \<Rightarrow> None
           | Some (tooLarge, transaction, bal, fee) \<Rightarrow>
               if tooLarge then
                 (if balance wallet < amount + txFee (feePerKb wallet)
                       (of_nat (10 + length (utxos wallet) * TX_INPUT_SIZE + (length outs + 1) * TX_OUTPUT_SIZE))
                  then Some (wallet, None, rs)
                  else BRWalletCreateTxForOutputs testnet S moved wallet rs
                         (smaller_outputs outs amount fee minAmount bal))
               else if bal < amount + fee then Some (wallet, None, rs)
               else if bal - (amount + fee) > minAmount then
                 (case add_change testnet S moved wallet rs transaction (bal - (amount + fee)) of
                    None \<Rightarrow> None
                  | Some (wallet, tx, rs) \<Rightarrow> Some (wallet, Some tx, rs))
               else Some (wallet, Some transaction, rs))"

declare BRWalletCreateTxForOutputs.simps [code]

definition BRWalletCreateTransaction ::
  "bool \<Rightarrow> ('k, 's, 'r) secp \<Rightarrow> bool \<Rightarrow> BRWallet \<Rightarrow> u32 list \<Rightarrow> u64 \<Rightarrow> bytes \<Rightarrow>
   (BRWallet \<times> BRTransaction option \<times> u32 list) option" where
  "BRWalletCreateTransaction testnet S moved wallet rs amount addr =
     (if amount > 0 \<and> BRAddressIsValid testnet addr
      then BRWalletCreateTxForOutputs testnet S moved wallet rs
             [BRTxOutputSetAddress testnet (Some addr) \<lparr>out_address = [], out_amount = amount, out_script = None\<rparr>]
      else None)"

definition dummyScript :: bytes where
  "dummyScript = [OP_DUP, OP_HASH160, 20] @ replicate 20 0 @ [OP_EQUALVERIFY, OP_CHECKSIG]"

definition BRWalletFeeForTxAmount ::
  "bool \<Rightarrow> ('k, 's, 'r) secp \<Rightarrow> bool \<Rightarrow> BRWallet \<Rightarrow> u32 list \<Rightarrow> u64 \<Rightarrow> (BRWallet \<times> u64 \<times> u32 list) option" where
  "BRWalletFeeForTxAmount testnet S moved wallet rs amount = (if amount = 0 then None else do {
     let m = BRWalletMaxOutputAmount wallet;
     let out = BRTxOutputSetScript testnet (Some dummyScript)
       \<lparr>out_address = [], out_amount = (if amount < m then amount else m), out_script = None\<rparr>;
     (wallet, tx, rs) \<leftarrow> BRWalletCreateTxForOutputs testnet S moved wallet rs [out];
     Some (wallet, case tx of None \<Rightarrow> 0 | Some t \<Rightarrow> BRWalletFeeForTx wallet t, rs) })"

section \<open>Signing\<close>

text \<open>The chain positions of the inputs' addresses, the last position of a chain first.\<close>

definition chain_positions :: "bytes list \<Rightarrow> BRTransaction \<Rightarrow> u32 list" where
  "chain_positions addrChain tx = concat (map (\<lambda>inp.
     map of_nat (filter (\<lambda>j. BRAddressEq (in_address inp) (addrChain ! j)) (rev [0..<length addrChain]))) (inputs tx))"

text \<open>What \<open>BRTransactionSign\<close> gets from a key: its address, public key and signature.\<close>

definition key_address :: "bool \<Rightarrow> ('k, 's, 'r) secp \<Rightarrow> BRKey \<Rightarrow> bytes" where
  "key_address testnet S key = (case BRKeyAddress testnet S key (Some (replicate 36 0)) of
     (_, addr, r) \<Rightarrow> if r = 0 then [] else cstr (the addr))"

definition key_pub_key :: "('k, 's, 'r) secp \<Rightarrow> BRKey \<Rightarrow> bytes" where
  "key_pub_key S key = (case BRKeyPubKey S key (Some (replicate 65 0)) of (_, b, n) \<Rightarrow> take n (the b))"

definition key_sign :: "('k, 's, 'r) secp \<Rightarrow> BRKey \<Rightarrow> UInt256 \<Rightarrow> bytes" where
  "key_sign S key md = (case BRKeySign S key (Some (replicate 72 0)) md of
     None \<Rightarrow> [] | Some (b, n) \<Rightarrow> take n b)"

text \<open>The result \<open>- 1\<close> is the missing seed. The arrays of positions have one place per input.\<close>

definition BRWalletSignTransaction ::
  "bool \<Rightarrow> ('k, 's, 'r) secp \<Rightarrow> BRWallet \<Rightarrow> BRTransaction \<Rightarrow> u32 \<Rightarrow> buffer \<Rightarrow> (BRTransaction \<times> int) option" where
  "BRWalletSignTransaction testnet S wallet tx forkId seed = do {
     let internalIdx = chain_positions (internalChain wallet) tx;
     let externalIdx = chain_positions (externalChain wallet) tx;
     if length internalIdx > length (inputs tx) \<or> length externalIdx > length (inputs tx) then None
     else case seed of
         None \<Rightarrow> Some (tx, - 1)
       | Some seed \<Rightarrow> do {
           ks1 \<leftarrow> BRBIP32PrivKeyList S seed SEQUENCE_INTERNAL_CHAIN internalIdx;
           ks2 \<leftarrow> BRBIP32PrivKeyList S seed SEQUENCE_EXTERNAL_CHAIN externalIdx;
           (tx, r) \<leftarrow> BRTransactionSign testnet (key_address testnet S) (key_pub_key S) (key_sign S) tx forkId (ks1 @ ks2);
           Some (tx, if r then 1 else 0) } }"

section \<open>Registered transactions\<close>

definition BRWalletRegisterTransaction ::
  "bool \<Rightarrow> ('k, 's, 'r) secp \<Rightarrow> bool \<Rightarrow> int \<Rightarrow> BRWallet \<Rightarrow> BRTransaction \<Rightarrow>
   (BRWallet \<times> bool \<times> wallet_event list) option" where
  "BRWalletRegisterTransaction testnet S moved now wallet tx =
     (if \<not> BRTransactionIsSigned tx then None
      else if allTx wallet (txHash tx) \<noteq> None then Some (wallet, True, [])
      else if BRWalletContainsTx wallet tx then do {
        let wallet = wallet\<lparr>allTx := (allTx wallet)(txHash tx \<mapsto> tx)\<rparr>;
        wallet \<leftarrow> BRWalletInsertTx wallet (txHash tx);
        wallet \<leftarrow> BRWalletUpdateBalance now wallet;
        (wallet, _) \<leftarrow> BRWalletUnusedAddrs testnet S moved wallet SEQUENCE_GAP_LIMIT_EXTERNAL False;
        (wallet, _) \<leftarrow> BRWalletUnusedAddrs testnet S moved wallet SEQUENCE_GAP_LIMIT_INTERNAL True;
        Some (wallet, True, [BalanceChanged (balance wallet), TxAdded (txHash tx)]) }
      else Some (if blockHeight tx = TX_UNCONFIRMED
          then wallet\<lparr>allTx := (allTx wallet)(txHash tx \<mapsto> tx)\<rparr> else wallet, False, []))"

text \<open>The transactions that spend an output of \<open>tx\<close>, from the last one on; \<open>None\<close> for a dangling pointer.\<close>

fun dependents :: "BRWallet \<Rightarrow> BRTransaction \<Rightarrow> UInt256 \<Rightarrow> UInt256 list \<Rightarrow> UInt256 list option" where
  "dependents wallet tx h [] = Some []"
| "dependents wallet tx h (p # ps) = do {
     t \<leftarrow> allTx wallet p;
     if blockHeight t < blockHeight tx then Some []
     else if BRTransactionEq tx t then dependents wallet tx h ps
     else do {
       ds \<leftarrow> dependents wallet tx h ps;
       Some (if list_ex (\<lambda>inp. in_txHash inp = h) (inputs t) then txHash t # ds else ds) } }"

text \<open>The last occurrence of a transaction is taken out of the list.\<close>

definition remove_last :: "UInt256 \<Rightarrow> UInt256 list \<Rightarrow> UInt256 list" where
  "remove_last h ts = rev (remove1 h (rev ts))"

definition all_inputs_confirmed :: "BRWallet \<Rightarrow> BRTransaction \<Rightarrow> bool option" where
  "all_inputs_confirmed wallet tx =
     foldr (\<lambda>inp acc. case BRWalletTransactionForHash wallet (in_txHash inp) of
         None \<Rightarrow> None
       | Some (Some t) \<Rightarrow> if blockHeight t \<noteq> TX_UNCONFIRMED then acc else Some False
       | Some None \<Rightarrow> Some False) (inputs tx) (Some True)"

definition remove_one :: "int \<Rightarrow> BRWallet \<Rightarrow> UInt256 \<Rightarrow> BRTransaction \<Rightarrow> (BRWallet \<times> wallet_event list) option" where
  "remove_one now wallet h tx = do {
     wallet \<leftarrow> BRWalletUpdateBalance now (wallet\<lparr>transactions := remove_last h (transactions wallet)\<rparr>);
     valid \<leftarrow> (if BRWalletAmountSentByTx wallet tx > 0 then BRWalletTransactionIsValid wallet tx else Some False);
     rescan \<leftarrow> (if valid then all_inputs_confirmed wallet tx else Some False);
     Some (wallet, [BalanceChanged (balance wallet), TxDeleted h valid rescan]) }"

text \<open>
  The removals of a list of hashes, one after the other: a transaction with dependents is replaced
  by them, the first of the list first, and itself.
\<close>

partial_function (option) remove_all ::
  "int \<Rightarrow> BRWallet \<Rightarrow> UInt256 list \<Rightarrow> wallet_event list \<Rightarrow> (BRWallet \<times> wallet_event list) option" where
  "remove_all now wallet hs ev = (case hs of
     [] \<Rightarrow> Some (wallet, ev)
   | h # hs \<Rightarrow>
       if h = 0 then None
       else case allTx wallet h of
           None \<Rightarrow> remove_all now wallet hs ev
         | Some tx \<Rightarrow> Option.bind (dependents wallet tx h (rev (transactions wallet))) (\<lambda>ds.
             if ds \<noteq> [] then remove_all now wallet (rev ds @ h # hs) ev
             else Option.bind (remove_one now wallet h tx) (\<lambda>r. remove_all now (fst r) hs (ev @ snd r))))"

declare remove_all.simps [code]

definition BRWalletRemoveTransaction :: "int \<Rightarrow> BRWallet \<Rightarrow> UInt256 \<Rightarrow> (BRWallet \<times> wallet_event list) option" where
  "BRWalletRemoveTransaction now wallet h = remove_all now wallet [h] []"

text \<open>
  One hash of \<open>BRWalletUpdateTransactions\<close>: the wallet, the updated hashes and whether the balance
  has to be computed again.
\<close>

definition update_tx ::
  "u32 \<Rightarrow> u32 \<Rightarrow> BRWallet \<times> UInt256 list \<times> bool \<Rightarrow> UInt256 \<Rightarrow> (BRWallet \<times> UInt256 list \<times> bool) option" where
  "update_tx bh ts s h = (case s of (wallet, hs, needsUpdate) \<Rightarrow>
     case allTx wallet h of
       None \<Rightarrow> Some s
     | Some tx \<Rightarrow>
         if blockHeight tx = bh \<and> tx_timestamp tx = ts then Some s
         else do {
           let tx = tx\<lparr>tx_timestamp := ts, blockHeight := bh\<rparr>;
           let wallet = wallet\<lparr>allTx := (allTx wallet)(h \<mapsto> tx)\<rparr>;
           if BRWalletContainsTx wallet tx then do {
             wallet \<leftarrow> (if h \<in> set (transactions wallet)
               then BRWalletInsertTx (wallet\<lparr>transactions := remove_last h (transactions wallet)\<rparr>) h
               else Some wallet);
             Some (wallet, hs @ [h], needsUpdate \<or> h \<in> pendingTx wallet \<or> h \<in> invalidTx wallet) }
           else if bh \<noteq> TX_UNCONFIRMED then Some (wallet\<lparr>allTx := (allTx wallet)(h := None)\<rparr>, hs, needsUpdate)
           else Some (wallet, hs, needsUpdate) })"

fun update_loop ::
  "u32 \<Rightarrow> u32 \<Rightarrow> BRWallet \<times> UInt256 list \<times> bool \<Rightarrow> UInt256 list \<Rightarrow> (BRWallet \<times> UInt256 list \<times> bool) option" where
  "update_loop bh ts s [] = Some s"
| "update_loop bh ts s (h # hs) = do { s \<leftarrow> update_tx bh ts s h; update_loop bh ts s hs }"

definition BRWalletUpdateTransactions ::
  "int \<Rightarrow> BRWallet \<Rightarrow> UInt256 list \<Rightarrow> u32 \<Rightarrow> u32 \<Rightarrow> (BRWallet \<times> wallet_event list) option" where
  "BRWalletUpdateTransactions now wallet txHashes bh ts = do {
     let wallet = (if bh > w_blockHeight wallet then wallet\<lparr>w_blockHeight := bh\<rparr> else wallet);
     (wallet, hs, needsUpdate) \<leftarrow> update_loop bh ts (wallet, [], False) txHashes;
     wallet \<leftarrow> (if needsUpdate then BRWalletUpdateBalance now wallet else Some wallet);
     Some (wallet, if hs \<noteq> [] then [TxUpdated hs bh ts] else []) }"

definition unconfirm :: "(UInt256 \<rightharpoonup> BRTransaction) \<Rightarrow> UInt256 \<Rightarrow> (UInt256 \<rightharpoonup> BRTransaction)" where
  "unconfirm m h = (case m h of None \<Rightarrow> m | Some tx \<Rightarrow> m(h \<mapsto> tx\<lparr>blockHeight := TX_UNCONFIRMED\<rparr>))"

definition BRWalletSetTxUnconfirmedAfter :: "int \<Rightarrow> BRWallet \<Rightarrow> u32 \<Rightarrow> (BRWallet \<times> wallet_event list) option" where
  "BRWalletSetTxUnconfirmedAfter now wallet bh = do {
     let wallet = wallet\<lparr>w_blockHeight := bh\<rparr>;
     let hs = rev (tail_from wallet (\<lambda>b. b > bh));
     let wallet = wallet\<lparr>allTx := foldl unconfirm (allTx wallet) hs\<rparr>;
     if hs = [] then Some (wallet, [])
     else do {
       wallet \<leftarrow> BRWalletUpdateBalance now wallet;
       Some (wallet, [TxUpdated hs TX_UNCONFIRMED 0]) } }"

end
