(* ===== verification/WalletBalance.thy ===== *)
theory WalletBalance
  imports BRWallet
begin

text \<open>
  The invariants of the wallet's transaction list and of the balance that
  \<open>_BRWalletUpdateBalance\<close> computes from it.
\<close>

definition amount_of :: "BRWallet \<Rightarrow> BRUTXO \<Rightarrow> u64" where
  "amount_of wallet u = (case utxo_output wallet u of None \<Rightarrow> 0 | Some out \<Rightarrow> out_amount out)"

definition utxo_sum :: "BRWallet \<Rightarrow> BRUTXO list \<Rightarrow> u64" where
  "utxo_sum wallet us = sum_list (map (amount_of wallet) us)"

text \<open>An output of a transaction of the wallet to one of its addresses.\<close>

definition utxo_ok :: "BRWallet \<Rightarrow> BRUTXO \<Rightarrow> bool" where
  "utxo_ok wallet u \<longleftrightarrow> (\<exists>out. utxo_output wallet u = Some out \<and> wallet_output wallet out \<and> out_address out \<noteq> [])"

definition tx_inputs :: "BRWallet \<Rightarrow> UInt256 \<Rightarrow> BRUTXO set" where
  "tx_inputs wallet h = (case allTx wallet h of None \<Rightarrow> {} | Some tx \<Rightarrow> utxo_of ` set (inputs tx))"

text \<open>The objects that the wallet owns are found under their hashes, and their outputs can be indexed.\<close>

definition store_ok :: "BRWallet \<Rightarrow> bool" where
  "store_ok wallet \<longleftrightarrow> distinct (transactions wallet) \<and> set (transactions wallet) \<subseteq> dom (allTx wallet) \<and>
     (\<forall>h tx. allTx wallet h = Some tx \<longrightarrow> txHash tx = h \<and> length (outputs tx) < 2 ^ 32)"

text \<open>The members that the balance does not change.\<close>

definition same_base :: "BRWallet \<Rightarrow> BRWallet \<Rightarrow> bool" where
  "same_base w v \<longleftrightarrow> allTx w = allTx v \<and> allAddrs w = allAddrs v \<and> transactions w = transactions v \<and>
     internalChain w = internalChain v \<and> externalChain w = externalChain v \<and> masterPubKey w = masterPubKey v \<and>
     feePerKb w = feePerKb v \<and> w_blockHeight w = w_blockHeight v"

lemma same_base_cong:
  assumes "same_base w v"
  shows "utxo_output w = utxo_output v" "wallet_output w = wallet_output v" "amount_of w = amount_of v"
    "utxo_sum w = utxo_sum v" "utxo_ok w = utxo_ok v" "tx_inputs w = tx_inputs v" "store_ok w = store_ok v"
proof -
  show 1: "utxo_output w = utxo_output v" "wallet_output w = wallet_output v"
    using assms by (simp_all add: same_base_def utxo_output_def wallet_output_def fun_eq_iff)
  then show 2: "amount_of w = amount_of v" by (simp add: amount_of_def fun_eq_iff)
  show "utxo_sum w = utxo_sum v" using 2 by (intro ext) (simp add: utxo_sum_def)
  show "utxo_ok w = utxo_ok v" using 1 by (simp add: utxo_ok_def fun_eq_iff)
  show "tx_inputs w = tx_inputs v" using assms by (simp add: same_base_def tx_inputs_def fun_eq_iff)
  show "store_ok w = store_ok v" using assms by (simp add: same_base_def store_ok_def)
qed

lemma utxo_sum_Nil [simp]: "utxo_sum w [] = 0"
  by (simp add: utxo_sum_def)

lemma utxo_sum_append [simp]: "utxo_sum w (us @ vs) = utxo_sum w us + utxo_sum w vs"
  by (simp add: utxo_sum_def)

lemma utxo_sum_filter: "utxo_sum w (filter P us) + utxo_sum w (filter (\<lambda>u. \<not> P u) us) = utxo_sum w us"
  by (induction us) (simp_all add: utxo_sum_def algebra_simps)

section \<open>The loops\<close>

text \<open>The outputs of \<open>tx\<close> among its first \<open>n\<close> that become unspent outputs of the wallet.\<close>

definition new_utxos :: "BRWallet \<Rightarrow> BRTransaction \<Rightarrow> nat \<Rightarrow> BRUTXO list" where
  "new_utxos w tx n = map (\<lambda>j. \<lparr>utxo_hash = txHash tx, utxo_n = of_nat j\<rparr>)
     (filter (\<lambda>j. out_address (outputs tx ! j) \<noteq> [] \<and> wallet_output w (outputs tx ! j)) [0..<n])"

lemma utxo_output_nth:
  assumes "allTx w (txHash tx) = Some tx" "j < length (outputs tx)" "length (outputs tx) < 2 ^ 32"
  shows "utxo_output w \<lparr>utxo_hash = txHash tx, utxo_n = of_nat j\<rparr> = Some (outputs tx ! j)"
  using assms unat_of_nat_small [of j, where 'a = 32] by (simp add: utxo_output_def)

lemma new_utxos_ok:
  assumes "allTx w (txHash tx) = Some tx" "n \<le> length (outputs tx)" "length (outputs tx) < 2 ^ 32"
  shows "\<forall>u\<in>set (new_utxos w tx n). utxo_ok w u \<and> utxo_hash u = txHash tx" "distinct (new_utxos w tx n)"
proof -
  show "\<forall>u\<in>set (new_utxos w tx n). utxo_ok w u \<and> utxo_hash u = txHash tx"
    using assms by (auto simp: new_utxos_def utxo_ok_def utxo_output_nth)
  have "inj_on (\<lambda>j. \<lparr>utxo_hash = txHash tx, utxo_n = of_nat j\<rparr>) {j. j < n}"
    by (rule inj_on_inverseI [of _ "\<lambda>u. unat (utxo_n u)"])
      (use assms in \<open>simp add: unat_of_nat_small [where 'a = 32]\<close>)
  then show "distinct (new_utxos w tx n)"
    by (auto simp: new_utxos_def distinct_map intro: inj_on_subset)
qed

lemma outputs_added:
  assumes "allTx w (txHash tx) = Some tx" "n \<le> length (outputs tx)" "length (outputs tx) < 2 ^ 32"
  shows "\<exists>used. foldl (output_added tx) (w, bal) [0..<n] =
    (w\<lparr>usedAddrs := used, utxos := utxos w @ new_utxos w tx n\<rparr>, bal + utxo_sum w (new_utxos w tx n))"
  using assms(2)
proof (induction n)
  case 0
  show ?case by (rule exI [of _ "usedAddrs w"]) (simp add: new_utxos_def utxo_sum_def)
next
  case (Suc n)
  then obtain used where IH: "foldl (output_added tx) (w, bal) [0..<n] =
    (w\<lparr>usedAddrs := used, utxos := utxos w @ new_utxos w tx n\<rparr>, bal + utxo_sum w (new_utxos w tx n))" by auto
  let ?out = "outputs tx ! n"
  have "utxo_sum w [\<lparr>utxo_hash = txHash tx, utxo_n = of_nat n\<rparr>] = out_amount ?out"
    using assms Suc.prems by (simp add: utxo_sum_def amount_of_def utxo_output_nth)
  moreover have "new_utxos w tx (Suc n) = new_utxos w tx n @
      (if out_address ?out \<noteq> [] \<and> wallet_output w ?out then [\<lparr>utxo_hash = txHash tx, utxo_n = of_nat n\<rparr>] else [])"
    by (simp add: new_utxos_def)
  moreover have "output_added tx (w\<lparr>usedAddrs := used, utxos := us\<rparr>, b) n =
      (w\<lparr>usedAddrs := if out_address ?out \<noteq> [] then insert (out_address ?out) used else used,
         utxos := us @ (if out_address ?out \<noteq> [] \<and> wallet_output w ?out
           then [\<lparr>utxo_hash = txHash tx, utxo_n = of_nat n\<rparr>] else [])\<rparr>,
       b + (if out_address ?out \<noteq> [] \<and> wallet_output w ?out then out_amount ?out else 0))" for us b
    by (simp add: output_added_def wallet_output_def Let_def)
  ultimately show ?case
    by (intro exI [of _ "if out_address ?out \<noteq> [] then insert (out_address ?out) used else used"])
      (simp add: IH algebra_simps)
qed

lemma spend_loop_eq:
  assumes "\<forall>u\<in>set us. utxo_output w u \<noteq> None"
  shows "spend_loop w us bal =
    Some (filter (\<lambda>u. u \<notin> spentOutputs w) us, bal - utxo_sum w (filter (\<lambda>u. u \<in> spentOutputs w) us))"
  using assms by (induction us) (auto simp: utxo_sum_def amount_of_def)

section \<open>The invariant of the balance\<close>

text \<open>
  After the transactions \<open>ps\<close>: which of them count, what they spend, and that the unspent outputs are
  those of the counted ones to the wallet, none of which a counted one spends.
\<close>

definition counted :: "BRWallet \<Rightarrow> UInt256 list \<Rightarrow> UInt256 set" where
  "counted w ps = set ps - invalidTx w - pendingTx w"

definition balance_inv :: "BRWallet \<Rightarrow> UInt256 list \<Rightarrow> BRWallet \<times> u64 \<times> u64 \<Rightarrow> bool" where
  "balance_inv w0 ps s \<longleftrightarrow> (case s of (w, bal, prev) \<Rightarrow>
     same_base w w0 \<and> length (balanceHist w) = length ps \<and>
     invalidTx w \<subseteq> set ps \<and> pendingTx w \<subseteq> set ps \<and>
     spentOutputs w = (\<Union>h\<in>set ps - invalidTx w. tx_inputs w0 h) \<and>
     distinct (utxos w) \<and> bal = utxo_sum w0 (utxos w) \<and>
     (\<forall>u\<in>set (utxos w). utxo_ok w0 u \<and> utxo_hash u \<in> counted w ps) \<and>
     (\<forall>u\<in>set (utxos w). \<forall>h\<in>counted w ps. u \<notin> tx_inputs w0 h) \<and>
     (\<forall>u. utxo_ok w0 u \<and> utxo_hash u \<in> counted w ps \<longrightarrow> u \<in> set (utxos w) \<or> u \<in> spentOutputs w))"

lemma balance_inv_start: "balance_inv w0 [] (balance_start w0, 0, 0)"
  by (simp add: balance_inv_def balance_start_def same_base_def counted_def utxo_sum_def)

lemma new_utxos_complete:
  assumes "allTx w (txHash tx) = Some tx" "utxo_ok w u" "utxo_hash u = txHash tx"
  shows "u \<in> set (new_utxos w tx (length (outputs tx)))"
proof -
  have "u = \<lparr>utxo_hash = txHash tx, utxo_n = of_nat (unat (utxo_n u))\<rparr>" using assms(3) by simp
  moreover have "unat (utxo_n u) < length (outputs tx)"
    "out_address (outputs tx ! unat (utxo_n u)) \<noteq> []" "wallet_output w (outputs tx ! unat (utxo_n u))"
    using assms by (auto simp: utxo_ok_def utxo_output_def split: if_splits)
  ultimately show ?thesis unfolding new_utxos_def set_map by (intro image_eqI [where x = "unat (utxo_n u)"]) auto
qed

text \<open>A transaction that counts: its outputs are added, and what is spent is taken out.\<close>

lemma balance_inv_counted:
  assumes inv: "balance_inv w0 ps (w, bal, prev)"
    and h: "h \<notin> set ps" "allTx w0 h = Some tx" "txHash tx = h" "length (outputs tx) < 2 ^ 32"
    and spent: "spent = spentOutputs w \<union> tx_inputs w0 h"
    and us: "us = filter (\<lambda>u. u \<notin> spent) (utxos w @ new_utxos w0 tx (length (outputs tx)))"
    and w': "same_base w' w0" "length (balanceHist w') = Suc (length ps)" "invalidTx w' = invalidTx w"
      "pendingTx w' = pendingTx w" "spentOutputs w' = spent" "utxos w' = us"
  shows "balance_inv w0 (ps @ [h]) (w', utxo_sum w0 us, p)"
proof -
  note new = new_utxos_ok [of w0 tx "length (outputs tx)", OF _ le_refl, unfolded h(3), OF h(2,4)]
  have nh: "h \<notin> invalidTx w" "h \<notin> pendingTx w" using inv h(1) by (auto simp: balance_inv_def)
  then have cnt: "counted w' (ps @ [h]) = insert h (counted w ps)" using w' by (auto simp: counted_def)
  have old: "\<forall>u\<in>set (utxos w). utxo_ok w0 u \<and> utxo_hash u \<in> counted w ps"
    "spentOutputs w = (\<Union>h\<in>set ps - invalidTx w. tx_inputs w0 h)"
    using inv by (simp_all add: balance_inv_def)
  have sp: "spent = (\<Union>h\<in>set (ps @ [h]) - invalidTx w. tx_inputs w0 h)" using old(2) nh spent by auto
  have "distinct us"
  proof -
    have "set (utxos w) \<inter> set (new_utxos w0 tx (length (outputs tx))) = {}"
      using old(1) new(1) h(1) by (auto simp: counted_def)
    then show ?thesis using inv new(2) by (auto simp: us balance_inv_def)
  qed
  moreover have "\<forall>u\<in>set us. utxo_ok w0 u \<and> utxo_hash u \<in> insert h (counted w ps)"
    using old(1) new(1) by (auto simp: us)
  moreover have "\<forall>u\<in>set us. \<forall>g\<in>insert h (counted w ps). u \<notin> tx_inputs w0 g"
    unfolding us sp by (auto simp: counted_def nh)
  moreover have "u \<in> set us \<or> u \<in> spent" if "utxo_ok w0 u" "utxo_hash u \<in> insert h (counted w ps)" for u
    using that inv new_utxos_complete [of w0 tx u] h(2,3) by (auto simp: us spent balance_inv_def)
  ultimately show ?thesis
    using inv w' sp by (simp add: balance_inv_def cnt) blast
qed

text \<open>A transaction that does not count.\<close>

lemma balance_inv_invalid:
  assumes inv: "balance_inv w0 ps (w, bal, prev)" and h: "h \<notin> set ps"
    and w': "same_base w' w0" "length (balanceHist w') = Suc (length ps)" "invalidTx w' = insert h (invalidTx w)"
      "pendingTx w' = pendingTx w" "spentOutputs w' = spentOutputs w" "utxos w' = utxos w"
  shows "balance_inv w0 (ps @ [h]) (w', bal, prev)"
proof -
  have "counted w' (ps @ [h]) = counted w ps" "set (ps @ [h]) - invalidTx w' = set ps - invalidTx w"
    using h w' by (auto simp: counted_def)
  then show ?thesis using inv w' by (simp add: balance_inv_def) blast
qed

lemma balance_inv_pending:
  assumes inv: "balance_inv w0 ps (w, bal, prev)" and h: "h \<notin> set ps"
    and w': "same_base w' w0" "length (balanceHist w') = Suc (length ps)" "invalidTx w' = invalidTx w"
      "pendingTx w' = insert h (pendingTx w)" "spentOutputs w' = spentOutputs w \<union> tx_inputs w0 h" "utxos w' = utxos w"
  shows "balance_inv w0 (ps @ [h]) (w', bal, prev)"
proof -
  have nh: "h \<notin> invalidTx w" using inv h by (auto simp: balance_inv_def)
  then have "counted w' (ps @ [h]) = counted w ps"
    "(\<Union>g\<in>set (ps @ [h]) - invalidTx w'. tx_inputs w0 g) =
     (\<Union>g\<in>set ps - invalidTx w. tx_inputs w0 g) \<union> tx_inputs w0 h"
    using h w' by (auto simp: counted_def)
  then show ?thesis using inv w' by (simp add: balance_inv_def) blast
qed

lemma balance_inv_step:
  assumes inv: "balance_inv w0 ps (w, bal, prev)" and st: "store_ok w0"
    and h: "h \<in> dom (allTx w0)" "h \<notin> set ps"
  shows "\<exists>s'. balance_step now (w, bal, prev) h = Some s' \<and> balance_inv w0 (ps @ [h]) s'"
proof -
  obtain tx where tx: "allTx w0 h = Some tx" "txHash tx = h" "length (outputs tx) < 2 ^ 32"
    using h(1) st by (auto simp: store_ok_def)
  have base: "same_base w w0" using inv by (simp add: balance_inv_def)
  then have wtx: "allTx w h = Some tx" using tx by (simp add: same_base_def)
  have ins: "tx_inputs w0 h = utxo_of ` set (inputs tx)" using tx by (simp add: tx_inputs_def)
  have len: "length (balanceHist w) = length ps" using inv by (simp add: balance_inv_def)
  show ?thesis
  proof (cases "tx_invalid w tx")
    case True
    then show ?thesis
      using wtx base len by (auto simp: balance_step_def same_base_def intro!: balance_inv_invalid [OF inv h(2)])
  next
    case False
    note valid = this
    let ?w1 = "w\<lparr>spentOutputs := spentOutputs w \<union> utxo_of ` set (inputs tx)\<rparr>"
    show ?thesis
    proof (cases "tx_pending now ?w1 tx")
      case True
      then show ?thesis
        using wtx base len valid
        by (auto simp: balance_step_def same_base_def ins Let_def intro!: balance_inv_pending [OF inv h(2)])
    next
      case False
      define us where "us = filter (\<lambda>u. u \<notin> spentOutputs ?w1) (utxos w @ new_utxos w0 tx (length (outputs tx)))"
      have b1: "same_base ?w1 w0" using base by (simp add: same_base_def)
      have new_eq: "new_utxos ?w1 tx = new_utxos w0 tx"
        using same_base_cong(2) [OF b1] by (simp add: new_utxos_def fun_eq_iff)
      obtain used where add: "foldl (output_added tx) (?w1, bal) [0..<length (outputs tx)] =
          (?w1\<lparr>usedAddrs := used, utxos := utxos w @ new_utxos w0 tx (length (outputs tx))\<rparr>,
           bal + utxo_sum w0 (new_utxos w0 tx (length (outputs tx))))" (is "_ = (?w2, _)")
        using outputs_added [of ?w1 tx "length (outputs tx)" bal] wtx tx same_base_cong(4) [OF b1]
        by (auto simp: new_eq)
      have b2: "same_base ?w2 w0" using base by (simp add: same_base_def)
      have "\<forall>u\<in>set (utxos ?w2). utxo_output ?w2 u \<noteq> None"
        using inv new_utxos_ok(1) [of w0 tx "length (outputs tx)"] tx
        unfolding same_base_cong(1) [OF b2] by (auto simp: balance_inv_def utxo_ok_def)
      note sp = spend_loop_eq [OF this, of "bal + utxo_sum w0 (new_utxos w0 tx (length (outputs tx)))"]
      have "bal = utxo_sum w0 (utxos w)" using inv by (simp add: balance_inv_def)
      then have spend: "spend_loop ?w2 (utxos ?w2) (bal + utxo_sum w0 (new_utxos w0 tx (length (outputs tx)))) =
          Some (us, utxo_sum w0 us)"
        using utxo_sum_filter [of w0 "\<lambda>u. u \<in> spentOutputs ?w1" "utxos w @ new_utxos w0 tx (length (outputs tx))"]
        by (subst sp) (simp add: us_def same_base_cong(4) [OF b2] algebra_simps)
      have "spentOutputs ?w1 = spentOutputs w \<union> tx_inputs w0 h" by (simp add: ins)
      note cnt = balance_inv_counted [OF inv h(2) tx this us_def]
      show ?thesis
        using valid False wtx add spend base len
        by (auto simp: balance_step_def Let_def same_base_def intro!: cnt)
    qed
  qed
qed

lemma balance_inv_loop:
  assumes "balance_inv w0 ps s" "store_ok w0" "set hs \<subseteq> dom (allTx w0)" "distinct (ps @ hs)"
  shows "\<exists>s'. balance_loop now s hs = Some s' \<and> balance_inv w0 (ps @ hs) s'"
  using assms
proof (induction hs arbitrary: ps s)
  case (Cons h hs)
  obtain w bal prev where s: "s = (w, bal, prev)" by (cases s)
  obtain s' where s': "balance_step now s h = Some s'" "balance_inv w0 (ps @ [h]) s'"
    using balance_inv_step [of w0 ps w bal prev h now] Cons.prems s by auto
  then show ?case using Cons.IH [OF s'(2)] Cons.prems by simp
qed simp

lemma update_balance:
  assumes "store_ok w"
  shows "\<exists>w' prev. BRWalletUpdateBalance now w = Some w' \<and> balance_inv w (transactions w) (w', balance w', prev)"
proof -
  obtain v bal prev where v: "balance_loop now (balance_start w, 0, 0) (transactions w) = Some (v, bal, prev)"
    "balance_inv w (transactions w) (v, bal, prev)"
    using balance_inv_loop [OF balance_inv_start assms, of "transactions w" now] assms
    by (auto simp: store_ok_def)
  then have "balance_inv w (transactions w) (v\<lparr>balance := bal\<rparr>, bal, prev)"
    by (auto simp: balance_inv_def same_base_def counted_def)
  moreover have "length (balanceHist v) = length (transactions v)"
    using v(2) by (simp add: balance_inv_def same_base_def)
  ultimately show ?thesis using v(1) by (auto simp: BRWalletUpdateBalance_def)
qed

section \<open>Double spends\<close>

definition unconfirmed :: "BRWallet \<Rightarrow> UInt256 \<Rightarrow> bool" where
  "unconfirmed w h \<longleftrightarrow> (\<exists>tx. allTx w h = Some tx \<and> blockHeight tx = TX_UNCONFIRMED)"

text \<open>
  An unconfirmed transaction that is not invalid spends no output that an earlier one spends which
  is not invalid either.
\<close>

definition no_double_spend :: "BRWallet \<Rightarrow> UInt256 list \<Rightarrow> UInt256 set \<Rightarrow> bool" where
  "no_double_spend w ps bad \<longleftrightarrow> (\<forall>i j. i < j \<and> j < length ps \<and> ps ! i \<notin> bad \<and> ps ! j \<notin> bad \<and>
     unconfirmed w (ps ! j) \<longrightarrow> tx_inputs w (ps ! i) \<inter> tx_inputs w (ps ! j) = {})"

lemma outputs_added_frame: "invalidTx (fst (foldl (output_added tx) s js)) = invalidTx (fst s)"
  by (induction js arbitrary: s) (simp_all add: output_added_def Let_def split: prod.splits)

lemma step_invalid:
  assumes "balance_step now (w, bal, prev) h = Some (w', r)" "allTx w h = Some tx"
  shows "invalidTx w' = (if tx_invalid w tx then insert h (invalidTx w) else invalidTx w)"
proof -
  let ?w1 = "w\<lparr>spentOutputs := spentOutputs w \<union> utxo_of ` set (inputs tx)\<rparr>"
  obtain w2 bal2 where w2: "foldl (output_added tx) (?w1, bal) [0..<length (outputs tx)] = (w2, bal2)"
    by (cases "foldl (output_added tx) (?w1, bal) [0..<length (outputs tx)]")
  then have inv: "invalidTx w2 = invalidTx w" using outputs_added_frame [of tx "(?w1, bal)" "[0..<length (outputs tx)]"] by simp
  consider "tx_invalid w tx" | "\<not> tx_invalid w tx" "tx_pending now ?w1 tx"
    | "\<not> tx_invalid w tx" "\<not> tx_pending now ?w1 tx" by blast
  then show ?thesis
  proof cases
    case 3
    then have "invalidTx w' = invalidTx w2"
      using assms w2 by (auto simp: balance_step_def Let_def split: Option.bind_splits)
    then show ?thesis using inv 3 by simp
  qed (use assms in \<open>auto simp: balance_step_def Let_def\<close>)
qed

lemma double_spend_step:
  assumes inv: "balance_inv w0 ps (w, bal, prev)" and nd: "no_double_spend w0 ps (invalidTx w)"
    and step: "balance_step now (w, bal, prev) h = Some (w', r)" and h: "h \<notin> set ps" "allTx w0 h = Some tx"
  shows "no_double_spend w0 (ps @ [h]) (invalidTx w')"
proof -
  have wtx: "allTx w h = Some tx" using inv h by (simp add: balance_inv_def same_base_def)
  note i = step_invalid [OF step wtx]
  have new: "tx_inputs w0 g \<inter> tx_inputs w0 h = {}"
    if "g \<in> set ps" "g \<notin> invalidTx w" "\<not> tx_invalid w tx" "unconfirmed w0 h" for g
  proof -
    have "\<forall>inp\<in>set (inputs tx). utxo_of inp \<notin> spentOutputs w"
      using that(3,4) h(2) by (auto simp: tx_invalid_def unconfirmed_def list_ex_iff)
    moreover have "tx_inputs w0 g \<subseteq> spentOutputs w" using inv that by (auto simp: balance_inv_def)
    ultimately show ?thesis using h(2) by (auto simp: tx_inputs_def)
  qed
  show ?thesis
    unfolding no_double_spend_def
  proof (intro allI impI, elim conjE)
    fix a b
    assume ab: "a < b" "b < length (ps @ [h])" "(ps @ [h]) ! a \<notin> invalidTx w'" "(ps @ [h]) ! b \<notin> invalidTx w'"
      "unconfirmed w0 ((ps @ [h]) ! b)"
    show "tx_inputs w0 ((ps @ [h]) ! a) \<inter> tx_inputs w0 ((ps @ [h]) ! b) = {}"
    proof (cases "b < length ps")
      case True
      then show ?thesis using nd ab i unfolding no_double_spend_def by (auto simp: nth_append split: if_splits)
    next
      case False
      then have "b = length ps" "a < length ps" using ab by auto
      then show ?thesis using ab i new [of "ps ! a"] by (auto simp: nth_append split: if_splits)
    qed
  qed
qed

lemma double_spend_loop:
  assumes "balance_loop now s hs = Some (w', r)" "balance_inv w0 ps s" "no_double_spend w0 ps (invalidTx (fst s))"
    "store_ok w0" "set hs \<subseteq> dom (allTx w0)" "distinct (ps @ hs)"
  shows "no_double_spend w0 (ps @ hs) (invalidTx w')"
  using assms
proof (induction hs arbitrary: ps s)
  case (Cons h hs)
  obtain w bal prev where s: "s = (w, bal, prev)" by (cases s)
  obtain s' where s': "balance_step now s h = Some s'" "balance_inv w0 (ps @ [h]) s'"
    using balance_inv_step [of w0 ps w bal prev h now] Cons.prems s by auto
  obtain tx where "allTx w0 h = Some tx" using Cons.prems by auto
  then have "no_double_spend w0 (ps @ [h]) (invalidTx (fst s'))"
    using double_spend_step [of w0 ps w bal prev now h "fst s'" "snd s'" tx] s s' Cons.prems by simp
  then show ?case using Cons.IH [OF _ s'(2)] s' Cons.prems by simp
qed simp

lemma update_balance_no_double_spend:
  assumes "store_ok w" "BRWalletUpdateBalance now w = Some w'"
  shows "no_double_spend w (transactions w) (invalidTx w')"
proof -
  obtain v bal prev where v: "balance_loop now (balance_start w, 0, 0) (transactions w) = Some (v, bal, prev)"
    "invalidTx w' = invalidTx v"
    using assms(2) by (auto simp: BRWalletUpdateBalance_def split: Option.bind_splits if_splits)
  show ?thesis
    using double_spend_loop [OF v(1) balance_inv_start] v(2) assms(1)
    by (simp add: no_double_spend_def store_ok_def)
qed

end
