(* ===== verification/WalletInvariant.thy ===== *)
theory WalletInvariant
  imports WalletBalance
begin

text \<open>
  The invariant of the wallet that every operation keeps: the transactions are ordered by height and
  belong to the wallet, no pointer dangles, and the balance is the sum of the unspent outputs.
\<close>

definition tx_height :: "BRWallet \<Rightarrow> UInt256 \<Rightarrow> u32" where
  "tx_height w h = (case allTx w h of None \<Rightarrow> 0 | Some tx \<Rightarrow> blockHeight tx)"

definition order_ok :: "BRWallet \<Rightarrow> bool" where
  "order_ok w \<longleftrightarrow> sorted (map (tx_height w) (transactions w))"

definition addrs_ok :: "BRWallet \<Rightarrow> bool" where
  "addrs_ok w \<longleftrightarrow> allAddrs w = set (internalChain w) \<union> set (externalChain w)"

definition owned :: "BRWallet \<Rightarrow> bool" where
  "owned w \<longleftrightarrow> (\<forall>h\<in>set (transactions w). \<forall>tx. allTx w h = Some tx \<longrightarrow> BRWalletContainsTx w tx)"

definition funds_ok :: "BRWallet \<Rightarrow> bool" where
  "funds_ok w \<longleftrightarrow> distinct (utxos w) \<and> (\<forall>u\<in>set (utxos w). utxo_ok w u) \<and> balance w = utxo_sum w (utxos w) \<and>
     length (balanceHist w) = length (transactions w)"

definition list_ok :: "BRWallet \<Rightarrow> bool" where
  "list_ok w \<longleftrightarrow> store_ok w \<and> order_ok w"

definition wallet_ok :: "BRWallet \<Rightarrow> bool" where
  "wallet_ok w \<longleftrightarrow> list_ok w \<and> addrs_ok w \<and> owned w \<and> funds_ok w"

section \<open>The order\<close>

lemma compare_height:
  assumes "BRWalletTxCompare w t tx = Some c"
  shows "c > 0 \<Longrightarrow> blockHeight tx \<le> blockHeight t" "\<not> c > 0 \<Longrightarrow> blockHeight t \<le> blockHeight tx"
proof -
  have asc: "ascending_test x y = Some True" "ascending_test y x = Some False"
    if "blockHeight y < blockHeight x" for x y
    using that order_less_not_sym [OF that] by (simp_all add: ascending_test_def)
  have "c = 1" if "blockHeight t > blockHeight tx"
    using assms asc [OF that] by (simp add: BRWalletTxCompare_def BRWalletTxIsAscending_def)
  moreover have "c = - 1" if "blockHeight t < blockHeight tx"
    using assms asc [OF that] by (simp add: BRWalletTxCompare_def BRWalletTxIsAscending_def)
  ultimately show "c > 0 \<Longrightarrow> blockHeight tx \<le> blockHeight t" "\<not> c > 0 \<Longrightarrow> blockHeight t \<le> blockHeight tx"
    by (force simp: not_le [symmetric])+
qed

lemma insert_tx_loop_split:
  assumes "insert_tx_loop w ts h tx = Some us"
  shows "\<exists>a b. ts = a @ b \<and> us = a @ h # b \<and> (\<forall>x\<in>set a. blockHeight tx \<le> tx_height w x) \<and>
    (b \<noteq> [] \<longrightarrow> tx_height w (hd b) \<le> blockHeight tx)"
  using assms
proof (induction ts arbitrary: us)
  case Nil
  then show ?case by simp
next
  case (Cons t ts)
  then obtain t' c where t: "allTx w t = Some t'" "BRWalletTxCompare w t' tx = Some c"
    by (auto split: Option.bind_splits)
  show ?case
  proof (cases "c > 0")
    case True
    then obtain vs where vs: "insert_tx_loop w ts h tx = Some vs" "us = t # vs"
      using Cons.prems t by (auto split: Option.bind_splits)
    from Cons.IH [OF vs(1)] obtain a b where "ts = a @ b" "vs = a @ h # b"
      "\<forall>x\<in>set a. blockHeight tx \<le> tx_height w x" "b \<noteq> [] \<longrightarrow> tx_height w (hd b) \<le> blockHeight tx" by metis
    then show ?thesis using vs(2) compare_height(1) [OF t(2) True] t(1)
      by (intro exI [of _ "t # a"] exI [of _ b]) (simp add: tx_height_def)
  next
    case False
    then show ?thesis using Cons.prems t compare_height(2) [OF t(2) False]
      by (intro exI [of _ "[]"] exI [of _ "t # ts"]) (simp add: tx_height_def)
  qed
qed

lemma insert_tx:
  assumes "BRWalletInsertTx w h = Some w'" "order_ok w"
  shows "order_ok w'" "set (transactions w') = insert h (set (transactions w))"
    "h \<notin> set (transactions w) \<Longrightarrow> distinct (transactions w) \<Longrightarrow> distinct (transactions w')"
    "w' = w\<lparr>transactions := transactions w'\<rparr>" "length (transactions w') = Suc (length (transactions w))"
proof -
  obtain tx us where tx: "allTx w h = Some tx" "insert_tx_loop w (rev (transactions w)) h tx = Some us"
    and w': "w' = w\<lparr>transactions := rev us\<rparr>"
    using assms(1) by (auto simp: BRWalletInsertTx_def bind_eq_Some_conv)
  obtain a b where ab: "rev (transactions w) = a @ b" "us = a @ h # b"
    "\<forall>x\<in>set a. blockHeight tx \<le> tx_height w x" "b \<noteq> [] \<longrightarrow> tx_height w (hd b) \<le> blockHeight tx"
    using insert_tx_loop_split [OF tx(2)] by metis
  have ts: "transactions w = rev b @ rev a" using ab(1) by (metis rev_append rev_rev_ident)
  have hh: "tx_height w' = tx_height w" "tx_height w h = blockHeight tx"
    using tx w' by (simp_all add: tx_height_def fun_eq_iff)
  have "\<forall>x\<in>set b. tx_height w x \<le> blockHeight tx"
  proof (cases b)
    case (Cons y ys)
    then have "\<forall>x\<in>set b. tx_height w x \<le> tx_height w y"
      using assms(2) ts by (auto simp: order_ok_def sorted_append)
    then show ?thesis using ab(4) Cons by (auto intro: order_trans)
  qed simp
  then show "order_ok w'"
    using assms(2) ts ab(3) hh by (auto simp: order_ok_def w' ab(2) sorted_append intro: order_trans)
  show "set (transactions w') = insert h (set (transactions w))"
    "h \<notin> set (transactions w) \<Longrightarrow> distinct (transactions w) \<Longrightarrow> distinct (transactions w')"
    "w' = w\<lparr>transactions := transactions w'\<rparr>" "length (transactions w') = Suc (length (transactions w))"
    by (auto simp: w' ab(2) ts)
qed

section \<open>The operations\<close>

lemma wallet_output_mono: "allAddrs w \<subseteq> allAddrs v \<Longrightarrow> wallet_output w out \<Longrightarrow> wallet_output v out"
  by (auto simp: wallet_output_def)

text \<open>More addresses, and the same transactions.\<close>

lemma contains_tx_mono:
  assumes "allAddrs w \<subseteq> allAddrs v" "\<And>inp out. prev_output w inp = Some out \<Longrightarrow> wallet_output w out \<Longrightarrow>
      prev_output v inp = Some out"
    and "BRWalletContainsTx w tx" "outputs tx' = outputs tx" "inputs tx' = inputs tx"
  shows "BRWalletContainsTx v tx'"
  using assms wallet_output_mono [OF assms(1)]
  unfolding BRWalletContainsTx_def list_ex_iff by (fastforce split: option.splits)

lemma contains_cong:
  assumes "allTx v = allTx w" "allAddrs v = allAddrs w"
  shows "BRWalletContainsTx v = BRWalletContainsTx w"
proof -
  have "wallet_output v = wallet_output w" "prev_output v = prev_output w"
    using assms by (simp_all add: wallet_output_def prev_output_def fun_eq_iff)
  then show ?thesis by (intro ext) (simp only: BRWalletContainsTx_def cong: option.case_cong)
qed

lemma balance_keeps:
  assumes "list_ok w" "addrs_ok w" "owned w" "BRWalletUpdateBalance now w = Some w'"
  shows "wallet_ok w'" "same_base w' w"
proof -
  have st: "store_ok w" using assms(1) by (simp add: list_ok_def)
  obtain prev where inv: "balance_inv w (transactions w) (w', balance w', prev)"
    using update_balance [OF st, of now] assms(4) by auto
  then show b: "same_base w' w" by (simp add: balance_inv_def)
  have "tx_height w' = tx_height w" using b by (simp add: same_base_def tx_height_def fun_eq_iff)
  moreover have "BRWalletContainsTx w' = BRWalletContainsTx w" by (rule contains_cong) (use b in \<open>simp_all add: same_base_def\<close>)
  ultimately show "wallet_ok w'"
    using assms(1-3) b inv same_base_cong [OF b]
    by (auto simp: wallet_ok_def list_ok_def order_ok_def addrs_ok_def owned_def funds_ok_def balance_inv_def same_base_def)
qed

lemma address_loop_extends:
  assumes "address_loop testnet S w chain gapLimit i cs = Some r"
  shows "\<exists>ext. snd r = cs @ ext"
proof (rule address_loop.raw_induct [where P = "\<lambda>testnet S w chain gapLimit i cs r. \<exists>ext. snd r = cs @ ext",
      OF _ assms])
  fix loop :: "bool \<Rightarrow> ('k, 's, 'r) secp \<Rightarrow> BRWallet \<Rightarrow> u32 \<Rightarrow> nat \<Rightarrow> nat \<Rightarrow> bytes list \<Rightarrow> (nat \<times> bytes list) option"
    and testnet S w chain gapLimit i cs r
  assume IH: "\<And>testnet S w chain gapLimit i cs r. loop testnet S w chain gapLimit i cs = Some r \<Longrightarrow> \<exists>ext. snd r = cs @ ext"
    and eq: "(if length cs < i + gapLimit then
        Option.bind (chain_address testnet S (masterPubKey w) chain (length cs)) (\<lambda>a.
          case a of
            None \<Rightarrow> Some (i, cs)
          | Some addr \<Rightarrow> loop testnet S w chain gapLimit
              (if addr \<in> usedAddrs w then length cs + 1 else i) (cs @ [addr]))
      else Some (i, cs)) = Some r"
  show "\<exists>ext. snd r = cs @ ext"
    using eq by (auto split: if_splits option.splits Option.bind_splits dest!: IH)
qed

lemma unused_addrs_keeps:
  assumes "addrs_ok w" "BRWalletUnusedAddrs testnet S moved w gapLimit internal = Some (w', written)"
  shows "addrs_ok w'" "allAddrs w \<subseteq> allAddrs w'"
    "w' = w\<lparr>internalChain := internalChain w', externalChain := externalChain w', allAddrs := allAddrs w'\<rparr>"
proof -
  let ?old = "if internal then internalChain w else externalChain w"
  obtain i ext where l: "address_loop testnet S w
      (if internal then SEQUENCE_INTERNAL_CHAIN else SEQUENCE_EXTERNAL_CHAIN) gapLimit
      (length ?old - length (takeWhile (\<lambda>a. a \<notin> usedAddrs w) (rev ?old))) ?old = Some (i, ?old @ ext)"
    using assms(2)
    by (auto simp: BRWalletUnusedAddrs_def Let_def split: if_splits Option.bind_splits dest!: address_loop_extends)
  show "addrs_ok w'" "allAddrs w \<subseteq> allAddrs w'"
    "w' = w\<lparr>internalChain := internalChain w', externalChain := externalChain w', allAddrs := allAddrs w'\<rparr>"
    using assms l by (auto simp: BRWalletUnusedAddrs_def addrs_ok_def Let_def split: if_splits)
qed

lemma wallet_ok_addrs:
  assumes "wallet_ok w" "BRWalletUnusedAddrs testnet S moved w gapLimit internal = Some (w', written)"
  shows "wallet_ok w'"
proof -
  note u = unused_addrs_keeps [OF _ assms(2)]
  have a: "addrs_ok w" using assms(1) by (simp add: wallet_ok_def)
  obtain ic ec aa where w': "w' = w\<lparr>internalChain := ic, externalChain := ec, allAddrs := aa\<rparr>" "allAddrs w \<subseteq> aa"
    using u(2,3) [OF a] by (metis BRWallet.ext_inject BRWallet.surjective BRWallet.update_convs(17))
  have "store_ok w' = store_ok w" "tx_height w' = tx_height w" "utxo_output w' = utxo_output w"
    "prev_output w' = prev_output w"
    by (simp_all add: w' store_ok_def tx_height_def utxo_output_def prev_output_def fun_eq_iff)
  moreover have "utxo_ok w x \<Longrightarrow> utxo_ok w' x" for x
    using calculation(3) w' by (auto simp: utxo_ok_def wallet_output_def)
  moreover have "utxo_sum w' = utxo_sum w"
    using calculation(3) by (intro ext) (simp add: utxo_sum_def amount_of_def [abs_def])
  moreover have "BRWalletContainsTx w tx \<Longrightarrow> BRWalletContainsTx w' tx" for tx
    using contains_tx_mono [of w w' tx tx] calculation(4) w' by simp
  ultimately show ?thesis
    using assms(1) u(1) [OF a] by (simp add: wallet_ok_def list_ok_def order_ok_def owned_def funds_ok_def w')
qed

text \<open>The wallet without the balance, which an insertion keeps.\<close>

definition base_ok :: "BRWallet \<Rightarrow> bool" where
  "base_ok w \<longleftrightarrow> list_ok w \<and> addrs_ok w \<and> owned w \<and> distinct (utxos w) \<and> (\<forall>u\<in>set (utxos w). utxo_ok w u) \<and>
     balance w = utxo_sum w (utxos w)"

lemma wallet_ok_base: "wallet_ok w \<longleftrightarrow> base_ok w \<and> length (balanceHist w) = length (transactions w)"
  by (auto simp: wallet_ok_def base_ok_def funds_ok_def)

lemma wallet_ok_cong:
  assumes "allTx v = allTx w" "allAddrs v = allAddrs w" "transactions v = transactions w"
    "internalChain v = internalChain w" "externalChain v = externalChain w" "utxos v = utxos w"
    "balance v = balance w" "balanceHist v = balanceHist w"
  shows "wallet_ok v = wallet_ok w"
proof -
  have "tx_height v = tx_height w" "utxo_output v = utxo_output w" "wallet_output v = wallet_output w"
    using assms by (simp_all add: tx_height_def utxo_output_def wallet_output_def fun_eq_iff)
  moreover have "store_ok v = store_ok w" "addrs_ok v = addrs_ok w"
    using assms by (simp_all add: store_ok_def addrs_ok_def)
  moreover have "BRWalletContainsTx v = BRWalletContainsTx w" by (rule contains_cong) (rule assms)+
  moreover have "utxo_ok v = utxo_ok w" using calculation by (simp add: utxo_ok_def fun_eq_iff)
  moreover have "utxo_sum v = utxo_sum w"
    using calculation(2) by (intro ext) (simp add: utxo_sum_def amount_of_def [abs_def])
  ultimately show ?thesis
    using assms by (simp add: wallet_ok_def list_ok_def order_ok_def owned_def funds_ok_def)
qed

lemma balance_keeps_base: "base_ok w \<Longrightarrow> BRWalletUpdateBalance now w = Some w' \<Longrightarrow> wallet_ok w'"
  unfolding base_ok_def by (elim conjE) (rule balance_keeps(1))

text \<open>A transaction of the wallet is put in its place.\<close>

lemma insert_keeps:
  assumes "base_ok w" "h \<notin> set (transactions w)" "allTx w h = Some tx" "BRWalletContainsTx w tx"
    "BRWalletInsertTx w h = Some w'"
  shows "base_ok w'"
proof -
  have o: "order_ok w" using assms(1) by (simp add: base_ok_def list_ok_def)
  note i = insert_tx [OF assms(5) o]
  obtain ts where w': "w' = w\<lparr>transactions := ts\<rparr>" using i(4) by blast
  have "utxo_output w' = utxo_output w" "wallet_output w' = wallet_output w"
    by (simp_all add: w' utxo_output_def wallet_output_def fun_eq_iff)
  moreover have "BRWalletContainsTx w' = BRWalletContainsTx w" by (rule contains_cong) (simp_all add: w')
  moreover have "utxo_ok w' = utxo_ok w" using calculation by (simp add: utxo_ok_def fun_eq_iff)
  moreover have "utxo_sum w' = utxo_sum w"
    using calculation(1) by (intro ext) (simp add: utxo_sum_def amount_of_def [abs_def])
  moreover have "store_ok w'"
    using assms i(2,3) by (auto simp: w' base_ok_def list_ok_def store_ok_def)
  ultimately show ?thesis
    using assms i(1,2) by (auto simp: base_ok_def list_ok_def addrs_ok_def owned_def w')
qed

text \<open>
  A change of the stored objects that keeps the inputs and outputs of the wallet's transactions: a
  new object, another height or time, or an object less that does not belong to the wallet.
\<close>

lemma store_change:
  assumes w: "base_ok w" and v: "v = w\<lparr>allTx := m, transactions := ts\<rparr>"
    and ts: "set ts \<subseteq> set (transactions w)" "distinct ts" "sorted (map (tx_height v) ts)"
    and m: "\<And>h tx. m h = Some tx \<Longrightarrow> txHash tx = h \<and> length (outputs tx) < 2 ^ 32"
      "\<And>h tx. allTx w h = Some tx \<Longrightarrow> h \<in> set ts \<or> list_ex (wallet_output w) (outputs tx) \<Longrightarrow>
        \<exists>tx'. m h = Some tx' \<and> inputs tx' = inputs tx \<and> outputs tx' = outputs tx"
  shows "base_ok v" "BRWalletContainsTx w tx \<Longrightarrow> BRWalletContainsTx v tx"
proof -
  have wo: "wallet_output v = wallet_output w" by (simp add: v wallet_output_def fun_eq_iff)
  have uo: "utxo_output v u = Some out" if "utxo_output w u = Some out" "wallet_output w out" for u out
    using that m(2) [of "utxo_hash u"]
    by (fastforce simp: utxo_output_def v list_ex_iff split: option.splits if_splits)
  have po: "prev_output v inp = Some out" if "prev_output w inp = Some out" "wallet_output w out" for inp out
    using that m(2) [of "in_txHash inp"]
    by (fastforce simp: prev_output_def v list_ex_iff split: option.splits if_splits)
  have cont: "BRWalletContainsTx v tx'" if "BRWalletContainsTx w tx" "outputs tx' = outputs tx" "inputs tx' = inputs tx"
    for tx tx' using contains_tx_mono [of w v tx tx'] that po by (simp add: v)
  then show "BRWalletContainsTx w tx \<Longrightarrow> BRWalletContainsTx v tx" by simp
  have kn: "\<exists>tx. allTx w h = Some tx" if "h \<in> set ts" for h
    using w ts(1) that by (auto simp: base_ok_def list_ok_def store_ok_def)
  have "set ts \<subseteq> dom (allTx v)"
  proof
    fix h assume h: "h \<in> set ts"
    then obtain tx where "allTx w h = Some tx" using kn by blast
    then show "h \<in> dom (allTx v)" using m(2) [of h tx] h by (auto simp: v)
  qed
  then have "list_ok v"
    using ts(2,3) m(1) by (auto simp: list_ok_def store_ok_def order_ok_def v)
  moreover have "owned v"
    unfolding owned_def
  proof (intro ballI allI impI)
    fix h tx' assume h: "h \<in> set (transactions v)" "allTx v h = Some tx'"
    then obtain tx where tx: "allTx w h = Some tx" "BRWalletContainsTx w tx"
      using w ts(1) kn [of h] by (auto simp: v base_ok_def owned_def)
    then show "BRWalletContainsTx v tx'" using cont m(2) [OF tx(1)] h by (auto simp: v)
  qed
  moreover have "\<forall>u\<in>set (utxos v). utxo_ok v u" using w uo wo by (fastforce simp: v base_ok_def utxo_ok_def)
  moreover have "\<forall>u\<in>set (utxos w). amount_of v u = amount_of w u"
    using w uo by (fastforce simp: base_ok_def utxo_ok_def amount_of_def)
  then have "utxo_sum v (utxos w) = utxo_sum w (utxos w)"
    unfolding utxo_sum_def by (metis (no_types, lifting) map_eq_conv)
  ultimately show "base_ok v" using w by (auto simp: base_ok_def addrs_ok_def v)
qed

lemma remove_last_filter: "distinct ts \<Longrightarrow> remove_last h ts = filter (\<lambda>x. x \<noteq> h) ts"
  by (simp add: remove_last_def distinct_remove1_removeAll removeAll_filter_not_eq rev_filter [symmetric]) metis

lemma heights_cong: "(\<And>h. h \<in> set ts \<Longrightarrow> allTx v h = allTx w h) \<Longrightarrow> map (tx_height v) ts = map (tx_height w) ts"
  by (simp add: tx_height_def)

lemma base_sorted: "base_ok w \<Longrightarrow> sorted (map (tx_height w) (filter P (transactions w)))"
  by (simp add: base_ok_def list_ok_def order_ok_def sorted_filter)

lemma sorted_heights:
  assumes "base_ok w" "\<And>h. h \<in> set (transactions w) \<Longrightarrow> P h \<Longrightarrow> allTx v h = allTx w h"
  shows "sorted (map (tx_height v) (filter P (transactions w)))"
proof -
  have "map (tx_height v) (filter P (transactions w)) = map (tx_height w) (filter P (transactions w))"
    by (rule heights_cong) (use assms in auto)
  then show ?thesis by (simp only: base_sorted [OF assms(1)])
qed

lemma base_distinct: "base_ok w \<Longrightarrow> distinct (transactions w)"
  by (simp add: base_ok_def list_ok_def store_ok_def)

lemma base_object: "base_ok w \<Longrightarrow> allTx w h = Some tx \<Longrightarrow> txHash tx = h \<and> length (outputs tx) < 2 ^ 32"
  by (simp add: base_ok_def list_ok_def store_ok_def)

lemma add_tx:
  assumes "base_ok w" "allTx w (txHash tx) = None" "length (outputs tx) < 2 ^ 32"
  defines "v \<equiv> w\<lparr>allTx := (allTx w)(txHash tx \<mapsto> tx)\<rparr>"
  shows "base_ok v" "BRWalletContainsTx w tx \<Longrightarrow> BRWalletContainsTx v tx" "txHash tx \<notin> set (transactions v)"
proof -
  have n: "txHash tx \<notin> set (transactions w)"
    using assms(1,2) by (auto simp: base_ok_def list_ok_def store_ok_def)
  have "sorted (map (tx_height v) (filter (\<lambda>_. True) (transactions w)))"
    by (rule sorted_heights [OF assms(1)]) (use n in \<open>auto simp: v_def\<close>)
  then have "sorted (map (tx_height v) (transactions w))" by simp
  note s = store_change [OF assms(1), where v = v and m = "(allTx w)(txHash tx \<mapsto> tx)" and ts = "transactions w",
      OF _ subset_refl base_distinct [OF assms(1)] this]
  show "base_ok v" by (rule s(1)) (use assms base_object in \<open>auto simp: v_def split: if_splits\<close>)
  show "BRWalletContainsTx w tx \<Longrightarrow> BRWalletContainsTx v tx"
    by (rule s(2)) (use assms base_object in \<open>auto simp: v_def split: if_splits\<close>)
  show "txHash tx \<notin> set (transactions v)" using n by (simp add: v_def)
qed

lemma wallet_ok_base': "wallet_ok w \<Longrightarrow> base_ok w"
  by (simp add: wallet_ok_base)

lemma register_keeps:
  assumes "wallet_ok w" "length (outputs tx) < 2 ^ 32"
    "BRWalletRegisterTransaction testnet S moved now w tx = Some (w', r, ev)"
  shows "wallet_ok w'"
proof -
  let ?v = "w\<lparr>allTx := (allTx w)(txHash tx \<mapsto> tx)\<rparr>"
  note b = wallet_ok_base' [OF assms(1)]
  show ?thesis
  proof (cases "allTx w (txHash tx) = None")
    case True
    note a = add_tx [OF b True assms(2)]
    show ?thesis
    proof (cases "BRWalletContainsTx w tx")
      case c: True
      obtain w1 w2 w3 w4 as bs where
        "BRWalletInsertTx ?v (txHash tx) = Some w1" "BRWalletUpdateBalance now w1 = Some w2"
        "BRWalletUnusedAddrs testnet S moved w2 SEQUENCE_GAP_LIMIT_EXTERNAL False = Some (w3, as)"
        "BRWalletUnusedAddrs testnet S moved w3 SEQUENCE_GAP_LIMIT_INTERNAL True = Some (w', bs)"
        using assms(3) True c by (auto simp: BRWalletRegisterTransaction_def bind_eq_Some_conv split: if_splits)
      then show ?thesis
        using insert_keeps [OF a(1,3) _ a(2)] c balance_keeps_base wallet_ok_addrs
        by (metis BRWallet.select_convs(12) BRWallet.surjective BRWallet.update_convs(12) fun_upd_same)
    next
      case False
      then have "w' = ?v \<or> w' = w"
        using assms(3) True by (auto simp: BRWalletRegisterTransaction_def split: if_splits)
      moreover have "wallet_ok ?v" using a(1) assms(1) by (simp add: wallet_ok_base)
      ultimately show ?thesis using assms(1) by blast
    qed
  next
    case False
    then show ?thesis using assms by (auto simp: BRWalletRegisterTransaction_def split: if_splits)
  qed
qed

lemma remove_one_keeps:
  assumes "wallet_ok w" "remove_one now w h tx = Some (w', ev)"
  shows "wallet_ok w'"
proof -
  note b = wallet_ok_base' [OF assms(1)]
  let ?v = "w\<lparr>transactions := remove_last h (transactions w)\<rparr>"
  have ts: "remove_last h (transactions w) = filter (\<lambda>x. x \<noteq> h) (transactions w)"
    by (rule remove_last_filter [OF base_distinct [OF b]])
  have "base_ok ?v"
    by (rule store_change(1) [OF b, where v = ?v and m = "allTx w" and ts = "remove_last h (transactions w)"])
      (use base_distinct [OF b] sorted_heights [OF b, of "\<lambda>x. x \<noteq> h" ?v] base_object [OF b] in \<open>auto simp: ts\<close>)
  moreover have "BRWalletUpdateBalance now ?v = Some w'"
    using assms(2) by (auto simp: remove_one_def bind_eq_Some_conv)
  ultimately show ?thesis by (rule balance_keeps_base)
qed

text \<open>What the removal of one transaction keeps, the removal of all of them keeps.\<close>

lemma remove_all_invariant:
  assumes one: "\<And>now w h tx s. Q w \<Longrightarrow> remove_one now w h tx = Some s \<Longrightarrow> Q (fst s)"
    and "remove_all now w hs ev = Some r" "Q w"
  shows "Q (fst r)"
proof -
  have "Q w \<longrightarrow> Q (fst r)"
  proof (rule remove_all.raw_induct [where P = "\<lambda>now w hs ev r. Q w \<longrightarrow> Q (fst r)", OF _ assms(2)])
    fix loop :: "int \<Rightarrow> BRWallet \<Rightarrow> UInt256 list \<Rightarrow> wallet_event list \<Rightarrow> (BRWallet \<times> wallet_event list) option"
      and now w hs ev r
    assume IH: "\<And>now w hs ev r. loop now w hs ev = Some r \<Longrightarrow> Q w \<longrightarrow> Q (fst r)"
      and eq: "(case hs of [] \<Rightarrow> Some (w, ev)
        | h # hs \<Rightarrow> if h = 0 then None
           else case allTx w h of None \<Rightarrow> loop now w hs ev
              | Some tx \<Rightarrow> Option.bind (dependents w tx h (rev (transactions w))) (\<lambda>ds.
                  if ds \<noteq> [] then loop now w (rev ds @ h # hs) ev
                  else Option.bind (remove_one now w h tx) (\<lambda>r. loop now (fst r) hs (ev @ snd r)))) = Some r"
    show "Q w \<longrightarrow> Q (fst r)"
    proof (cases hs)
      case (Cons h hs')
      note eq' = eq [unfolded Cons list.case]
      show ?thesis
      proof (cases "allTx w h")
        case None
        then show ?thesis using eq' IH by (simp split: if_splits)
      next
        case (Some tx)
        then obtain ds where d: "dependents w tx h (rev (transactions w)) = Some ds"
          using eq' by (cases "dependents w tx h (rev (transactions w))") (auto split: if_splits)
        have ds: "(if ds \<noteq> [] then loop now w (rev ds @ h # hs') ev
            else Option.bind (remove_one now w h tx) (\<lambda>r. loop now (fst r) hs' (ev @ snd r))) = Some r"
          using eq' Some d by (simp split: if_splits)
        show ?thesis
        proof (cases "ds = []")
          case True
          then obtain s where "remove_one now w h tx = Some s" "loop now (fst s) hs' (ev @ snd s) = Some r"
            using ds by (auto simp: bind_eq_Some_conv)
          then show ?thesis using IH one by metis
        qed (use ds IH in simp)
      qed
    qed (use eq in auto)
  qed
  then show ?thesis using assms(3) by blast
qed

lemma remove_all_keeps: "remove_all now w hs ev = Some r \<Longrightarrow> wallet_ok w \<Longrightarrow> wallet_ok (fst r)"
  by (rule remove_all_invariant [where Q = wallet_ok]) (metis remove_one_keeps prod.collapse)

text \<open>Another height and time of a transaction.\<close>

lemma change_tx:
  assumes b: "base_ok w" and h: "allTx w h = Some tx"
    and tx': "txHash tx' = txHash tx" "inputs tx' = inputs tx" "outputs tx' = outputs tx"
  defines "v \<equiv> w\<lparr>allTx := (allTx w)(h \<mapsto> tx'), transactions := filter (\<lambda>x. x \<noteq> h) (transactions w)\<rparr>"
  shows "base_ok v" "BRWalletContainsTx w tx \<longleftrightarrow> BRWalletContainsTx v tx'"
proof -
  have o: "txHash tx' = h" "length (outputs tx') < 2 ^ 32" using base_object [OF b h] tx' by simp_all
  note s = store_change [OF b, where v = v and m = "(allTx w)(h \<mapsto> tx')" and ts = "filter (\<lambda>x. x \<noteq> h) (transactions w)"]
  show "base_ok v"
    by (rule s(1)) (use base_distinct [OF b] sorted_heights [OF b, of "\<lambda>x. x \<noteq> h" v] base_object [OF b] o h tx'
        in \<open>auto simp: v_def split: if_splits\<close>)
  have "wallet_output v = wallet_output w" by (simp add: v_def wallet_output_def fun_eq_iff)
  moreover have "prev_output v = prev_output w"
    using h tx' by (auto simp: v_def prev_output_def fun_eq_iff)
  ultimately show "BRWalletContainsTx w tx \<longleftrightarrow> BRWalletContainsTx v tx'"
    using tx' by (simp only: BRWalletContainsTx_def cong: option.case_cong)
qed

text \<open>An object that does not belong to the wallet is freed.\<close>

lemma drop_tx:
  assumes "wallet_ok v" "allTx v h = Some tx" "\<not> BRWalletContainsTx v tx"
  shows "wallet_ok (v\<lparr>allTx := (allTx v)(h := None)\<rparr>)" (is "wallet_ok ?u")
proof -
  note b = wallet_ok_base' [OF assms(1)]
  have h: "h \<notin> set (transactions v)" using b assms(2,3) by (auto simp: base_ok_def owned_def)
  have "sorted (map (tx_height ?u) (filter (\<lambda>_. True) (transactions v)))"
    by (rule sorted_heights [OF b]) (use h in auto)
  then have s: "sorted (map (tx_height ?u) (transactions v))" by simp
  have "\<not> list_ex (wallet_output v) (outputs tx)" using assms(3) by (simp add: BRWalletContainsTx_def)
  then have "base_ok ?u"
    by (intro store_change(1) [OF b, where v = ?u and m = "(allTx v)(h := None)" and ts = "transactions v"])
      (use s h base_distinct [OF b] base_object [OF b] assms(2) in \<open>auto split: if_splits\<close>)
  then show ?thesis using assms(1) by (simp add: wallet_ok_base)
qed

lemma length_without: "h \<in> set ts \<Longrightarrow> distinct ts \<Longrightarrow> Suc (length (filter (\<lambda>x. x \<noteq> h) ts)) = length ts"
proof (induction ts)
  case (Cons t ts)
  have "filter (\<lambda>x. x \<noteq> t) ts = ts" using Cons.prems by (intro filter_True) auto
  then show ?case using Cons by auto
qed simp

text \<open>A changed object is put in its place.\<close>

lemma reinsert_keeps:
  assumes "wallet_ok w" "h \<in> set (transactions w)" "allTx w h = Some tx"
    and tx': "txHash tx' = txHash tx" "inputs tx' = inputs tx" "outputs tx' = outputs tx"
    and i: "BRWalletInsertTx (w\<lparr>allTx := (allTx w)(h \<mapsto> tx'),
      transactions := filter (\<lambda>x. x \<noteq> h) (transactions w)\<rparr>) h = Some w'" (is "BRWalletInsertTx ?v h = _")
  shows "wallet_ok w'"
proof -
  note b = wallet_ok_base' [OF assms(1)]
  note c = change_tx [OF b assms(3) tx']
  have "BRWalletContainsTx w tx" using b assms(2,3) by (auto simp: base_ok_def owned_def)
  then have "base_ok w'" by (intro insert_keeps [OF c(1) _ _ _ i]) (use c(2) in auto)
  moreover have "order_ok ?v" using c(1) by (simp add: base_ok_def list_ok_def)
  note j = insert_tx(4,5) [OF i this]
  have "length (transactions w') = length (transactions w)"
    using j(2) length_without [OF assms(2) base_distinct [OF b]] by simp
  moreover have "balanceHist w' = balanceHist w" by (subst j(1)) simp
  ultimately show ?thesis using assms(1) by (simp add: wallet_ok_base)
qed

lemma update_tx_keeps:
  assumes "wallet_ok w" "update_tx bh ts (w, hs, n) h = Some (w', hs', n')"
  shows "wallet_ok w'"
proof (cases "allTx w h")
  case None
  then show ?thesis using assms by (simp add: update_tx_def)
next
  case (Some tx)
  note b = wallet_ok_base' [OF assms(1)]
  define tx' where "tx' = tx\<lparr>tx_timestamp := ts, blockHeight := bh\<rparr>"
  define v where "v = w\<lparr>allTx := (allTx w)(h \<mapsto> tx')\<rparr>"
  have same: "txHash tx' = txHash tx" "inputs tx' = inputs tx" "outputs tx' = outputs tx" by (simp_all add: tx'_def)
  note c = change_tx [OF b Some same]
  have cv: "BRWalletContainsTx v tx' \<longleftrightarrow> BRWalletContainsTx w tx" 
    unfolding c(2) by (rule fun_cong [OF contains_cong]) (simp_all add: v_def)
  have rl: "remove_last h (transactions w) = filter (\<lambda>x. x \<noteq> h) (transactions w)"
    by (rule remove_last_filter [OF base_distinct [OF b]])
  have vok: "wallet_ok v" if "h \<notin> set (transactions w)"
  proof -
    have "filter (\<lambda>x. x \<noteq> h) (transactions w) = transactions w" using that by (auto simp: filter_id_conv)
    then show ?thesis using c(1) assms(1) by (simp add: v_def wallet_ok_base)
  qed
  show ?thesis
  proof (cases "blockHeight tx = bh \<and> tx_timestamp tx = ts")
    case True
    then show ?thesis using assms Some by (simp add: update_tx_def)
  next
    case False
    note upd = assms(2) [unfolded update_tx_def prod.case Some option.case Let_def,
        folded tx'_def, folded v_def, unfolded if_not_P [OF False]]
    show ?thesis
    proof (cases "BRWalletContainsTx v tx'")
      case True
      then show ?thesis
        using upd vok reinsert_keeps [OF assms(1) _ Some same] rl
        by (cases "h \<in> set (transactions w)") (auto simp: v_def bind_eq_Some_conv)
    next
      case False
      then have "h \<notin> set (transactions w)" using b Some cv by (auto simp: base_ok_def owned_def)
      note ok = vok [OF this]
      have "wallet_ok (v\<lparr>allTx := (allTx v)(h := None)\<rparr>)" by (rule drop_tx [OF ok _ False]) (simp add: v_def)
      then show ?thesis using upd False ok by (auto split: if_splits)
    qed
  qed
qed

lemma update_loop_keeps:
  "update_loop bh ts s hs = Some s' \<Longrightarrow> wallet_ok (fst s) \<Longrightarrow> wallet_ok (fst s')"
proof (induction hs arbitrary: s)
  case (Cons h hs)
  then obtain s1 where "update_tx bh ts s h = Some s1" "update_loop bh ts s1 hs = Some s'"
    by (auto simp: bind_eq_Some_conv)
  then show ?case using Cons.IH Cons.prems(2) update_tx_keeps by (metis prod.collapse)
qed simp

lemma update_transactions_keeps:
  assumes "wallet_ok w" "BRWalletUpdateTransactions now w hs bh ts = Some (w', ev)"
  shows "wallet_ok w'"
proof -
  define v where "v = (if bh > w_blockHeight w then w\<lparr>w_blockHeight := bh\<rparr> else w)"
  have "wallet_ok v" by (rule wallet_ok_cong [THEN iffD2, OF _ _ _ _ _ _ _ _ assms(1)]) (simp_all add: v_def)
  moreover obtain w1 hs1 n where "update_loop bh ts (v, [], False) hs = Some (w1, hs1, n)"
    "(if n then BRWalletUpdateBalance now w1 else Some w1) = Some w'"
    using assms(2) by (auto simp: BRWalletUpdateTransactions_def v_def Let_def bind_eq_Some_conv)
  moreover from calculation have "wallet_ok w1" using update_loop_keeps [of bh ts "(v, [], False)" hs] by simp
  ultimately show ?thesis using balance_keeps_base [OF wallet_ok_base'] by (simp split: if_splits)
qed

end
