(* ===== verification/WalletSteps.thy ===== *)
theory WalletSteps
  imports WalletInvariant
begin

text \<open>
  The wallet as a transition system: the remaining operations keep the invariant, and so it holds in
  every state that the operations reach.
\<close>

section \<open>The remaining operations\<close>

lemma unconfirm_eq: "foldl unconfirm m hs h =
    (if h \<in> set hs then map_option (\<lambda>tx. tx\<lparr>blockHeight := TX_UNCONFIRMED\<rparr>) (m h) else m h)"
  by (induction hs arbitrary: m) (auto simp: unconfirm_def split: option.splits)

lemma unconfirm_base:
  assumes b: "base_ok w" and bh: "bh \<le> TX_UNCONFIRMED"
    and hs: "hs = rev (tail_from w (\<lambda>b. b > bh))" and v: "v = w\<lparr>allTx := foldl unconfirm (allTx w) hs\<rparr>"
  shows "base_ok v"
proof -
  define P where "P h = (case allTx w h of None \<Rightarrow> False | Some tx \<Rightarrow> blockHeight tx > bh)" for h
  define pre where "pre = rev (dropWhile P (rev (transactions w)))"
  have "takeWhile P (rev (transactions w)) @ dropWhile P (rev (transactions w)) = rev (transactions w)" by simp
  then have ts: "transactions w = pre @ hs"
    unfolding hs tail_from_def pre_def P_def [symmetric] by (metis rev_append rev_rev_ident)
  have pre: "\<forall>h\<in>set pre. tx_height w h \<le> bh"
  proof (cases pre rule: rev_cases)
    case (snoc qs q)
    then have "dropWhile P (rev (transactions w)) = q # rev qs" by (metis pre_def rev_rev_ident rev_eq_Cons_iff)
    then have "\<not> P q" by (metis hd_dropWhile list.distinct(1) list.sel(1))
    then have "tx_height w q \<le> bh" by (auto simp: P_def tx_height_def split: option.splits)
    moreover have "\<forall>h\<in>set pre. tx_height w h \<le> tx_height w q"
      using b ts snoc by (auto simp: base_ok_def list_ok_def order_ok_def sorted_append)
    ultimately show ?thesis by (auto intro: order_trans)
  qed simp
  have kn: "h \<in> set hs \<Longrightarrow> allTx w h \<noteq> None" for h
    using b ts by (auto simp: base_ok_def list_ok_def store_ok_def)
  have new: "tx_height v h = (if h \<in> set hs then TX_UNCONFIRMED else tx_height w h)" for h
    using kn [of h] by (auto simp: v tx_height_def unconfirm_eq split: option.splits)
  have "set pre \<inter> set hs = {}" using base_distinct [OF b] ts by auto
  then have "map (tx_height v) pre = map (tx_height w) pre" by (auto simp: new)
  moreover have "map (tx_height v) hs = map (\<lambda>_. TX_UNCONFIRMED) hs" by (simp add: new)
  ultimately have "map (tx_height v) (transactions w) = map (tx_height w) pre @ replicate (length hs) TX_UNCONFIRMED"
    by (simp only: ts map_append map_replicate_const)
  moreover have "sorted (map (tx_height w) pre)"
    using b ts by (simp add: base_ok_def list_ok_def order_ok_def sorted_append)
  ultimately have "sorted (map (tx_height v) (transactions w))"
    using pre bh by (auto simp: sorted_append intro: order_trans)
  then show ?thesis
    by (intro store_change(1) [OF b, where v = v and m = "foldl unconfirm (allTx w) hs" and ts = "transactions w"])
      (use base_distinct [OF b] base_object [OF b] in \<open>auto simp: v unconfirm_eq split: if_splits\<close>)
qed

lemma unconfirmed_after_keeps:
  assumes "wallet_ok w" "bh \<le> TX_UNCONFIRMED" "BRWalletSetTxUnconfirmedAfter now w bh = Some (w', ev)"
  shows "wallet_ok w'"
proof -
  define w0 where "w0 = w\<lparr>w_blockHeight := bh\<rparr>"
  define hs where "hs = rev (tail_from w0 (\<lambda>b. b > bh))"
  define v where "v = w0\<lparr>allTx := foldl unconfirm (allTx w0) hs\<rparr>"
  have w0: "wallet_ok w0" by (rule wallet_ok_cong [THEN iffD2, OF _ _ _ _ _ _ _ _ assms(1)]) (simp_all add: w0_def)
  have b: "base_ok v" by (rule unconfirm_base [OF wallet_ok_base' [OF w0] assms(2) hs_def v_def])
  have eq: "(if hs = [] then Some (v, []) else
      Option.bind (BRWalletUpdateBalance now v) (\<lambda>u. Some (u, [TxUpdated hs TX_UNCONFIRMED 0]))) = Some (w', ev)"
    using assms(3) unfolding BRWalletSetTxUnconfirmedAfter_def by (simp only: Let_def w0_def v_def hs_def)
  show ?thesis
  proof (cases "hs = []")
    case True
    then show ?thesis using eq b w0 by (simp add: wallet_ok_base v_def)
  next
    case False
    then show ?thesis using eq balance_keeps_base [OF b] by (auto simp: bind_eq_Some_conv)
  qed
qed

lemma set_fee_keeps: "wallet_ok w \<Longrightarrow> wallet_ok (BRWalletSetFeePerKb w perKb)"
  by (rule wallet_ok_cong [THEN iffD2]) (simp_all add: BRWalletSetFeePerKb_def)

text \<open>What new addresses keep, the creation of a transaction keeps.\<close>

lemma create_invariant:
  assumes "BRWalletCreateTxForOutputs testnet S moved w rs outs = Some r" "Q testnet S w"
    and addrs: "\<And>testnet S moved w gapLimit internal w' as. Q testnet S w \<Longrightarrow>
      BRWalletUnusedAddrs testnet S moved w gapLimit internal = Some (w', as) \<Longrightarrow> Q testnet S w'"
  shows "Q testnet S (fst r)"
proof -
  have change: "Q testnet S w'" if "Q testnet S w" "add_change testnet S moved w rs tx amount = Some (w', s)"
    for testnet S moved w rs tx amount w' s
    using that by (auto simp: add_change_def bind_eq_Some_conv intro: addrs)
  have "Q testnet S w \<longrightarrow> Q testnet S (fst r)"
    by (rule BRWalletCreateTxForOutputs.raw_induct
        [where P = "\<lambda>testnet S moved w rs outs r. Q testnet S w \<longrightarrow> Q testnet S (fst r)", OF _ assms(1)])
      (auto simp: Let_def split: if_splits option.splits prod.splits dest: change)
  then show ?thesis using assms(2) by blast
qed

lemma create_keeps:
  assumes "BRWalletCreateTxForOutputs testnet S moved w rs outs = Some r" "wallet_ok w"
  shows "wallet_ok (fst r)"
  by (rule create_invariant [where Q = "\<lambda>testnet S. wallet_ok", OF assms wallet_ok_addrs])

section \<open>A new wallet\<close>

lemma list_ok_cong:
  assumes "allTx v = allTx w" "transactions v = transactions w"
  shows "list_ok v = list_ok w"
proof -
  have "tx_height v = tx_height w" using assms by (simp add: tx_height_def fun_eq_iff)
  then show ?thesis using assms by (simp add: list_ok_def store_ok_def order_ok_def)
qed

lemma load_keeps:
  assumes "load_loop w txs = Some w'" "list_ok w" "\<forall>tx\<in>set txs. length (outputs tx) < 2 ^ 32"
  shows "list_ok w' \<and> allAddrs w' = allAddrs w \<and> internalChain w' = internalChain w \<and>
    externalChain w' = externalChain w"
  using assms
proof (induction txs arbitrary: w)
  case (Cons tx txs)
  show ?case
  proof (cases "\<not> BRTransactionIsSigned tx \<or> allTx w (txHash tx) \<noteq> None")
    case True
    then show ?thesis using Cons by auto
  next
    case False
    define v where "v = w\<lparr>allTx := (allTx w)(txHash tx \<mapsto> tx)\<rparr>"
    obtain u where u: "BRWalletInsertTx v (txHash tx) = Some u"
      "load_loop (u\<lparr>usedAddrs := usedAddrs u \<union> set (filter (\<lambda>a. a \<noteq> []) (map out_address (outputs tx)))\<rparr>) txs = Some w'"
      using Cons.prems(1) False by (auto simp: v_def Let_def bind_eq_Some_conv)
    have h: "txHash tx \<notin> set (transactions w)"
      using False Cons.prems(2) by (auto simp: list_ok_def store_ok_def)
    then have "map (tx_height v) (transactions w) = map (tx_height w) (transactions w)"
      by (intro heights_cong) (auto simp: v_def)
    moreover have "sorted (map (tx_height w) (transactions w))" "transactions v = transactions w"
      using Cons.prems(2) by (simp_all add: list_ok_def order_ok_def v_def)
    ultimately have o: "order_ok v" by (simp only: order_ok_def)
    note i = insert_tx [OF u(1) o]
    from i(4) obtain ts where ts: "u = v\<lparr>transactions := ts\<rparr>" by blast
    have "list_ok u"
      using i(1-3) h Cons.prems(2,3) by (auto simp: ts list_ok_def store_ok_def v_def)
    then have "list_ok (u\<lparr>usedAddrs := us\<rparr>)" for us
      by (subst list_ok_cong [of _ u]) simp_all
    then show ?thesis using Cons.IH [OF u(2)] Cons.prems(3) by (simp add: ts v_def)
  qed
qed simp

lemma unused_addrs_list:
  assumes "list_ok w" "addrs_ok w" "BRWalletUnusedAddrs testnet S moved w gapLimit internal = Some (w', written)"
  shows "list_ok w' \<and> addrs_ok w'"
proof -
  note u = unused_addrs_keeps [OF assms(2,3)]
  have "allTx w' = allTx w" "transactions w' = transactions w" by (subst u(3), simp)+
  then show ?thesis using list_ok_cong assms(1) u(1) by blast
qed

lemma new_keeps:
  assumes "BRWalletNew testnet S moved now txs mpk = Some (Some w)" "owned w"
    "\<forall>tx\<in>set txs. length (outputs tx) < 2 ^ 32"
  shows "wallet_ok w"
proof -
  obtain w1 w2 w3 as bs where
    l: "load_loop (wallet_calloc mpk) txs = Some w1"
    and a: "BRWalletUnusedAddrs testnet S moved w1 SEQUENCE_GAP_LIMIT_EXTERNAL False = Some (w2, as)"
      "BRWalletUnusedAddrs testnet S moved w2 SEQUENCE_GAP_LIMIT_INTERNAL True = Some (w3, bs)"
    and b: "BRWalletUpdateBalance now w3 = Some w"
    using assms(1) by (cases txs) (auto simp: BRWalletNew_def bind_eq_Some_conv split: if_splits)
  have "list_ok (wallet_calloc mpk)"
    by (simp add: wallet_calloc_def list_ok_def store_ok_def order_ok_def)
  from load_keeps [OF l this assms(3)] have "list_ok w1 \<and> addrs_ok w1"
    by (simp add: wallet_calloc_def addrs_ok_def)
  then have ok: "list_ok w3" "addrs_ok w3" using unused_addrs_list a by metis+
  then obtain prev where "balance_inv w3 (transactions w3) (w, balance w, prev)"
    using update_balance [of w3 now] b by (auto simp: list_ok_def)
  then have base: "same_base w w3" by (simp add: balance_inv_def)
  have "BRWalletContainsTx w = BRWalletContainsTx w3" by (rule contains_cong) (use base in \<open>simp_all add: same_base_def\<close>)
  then have "owned w3" using assms(2) base by (simp add: owned_def same_base_def)
  then show ?thesis by (rule balance_keeps(1) [OF ok _ b])
qed

section \<open>The transition system\<close>

text \<open>
  A call of an operation that changes the wallet. The transactions registered have fewer than \<open>2 ^ 32\<close>
  outputs, as their indexes are 32 bit numbers, and a chain is never cut above the height that stands
  for unconfirmed transactions.
\<close>

inductive wallet_step :: "bool \<Rightarrow> ('k, 's, 'r) secp \<Rightarrow> BRWallet \<Rightarrow> BRWallet \<Rightarrow> bool" for testnet S where
  step_register: "length (outputs tx) < 2 ^ 32 \<Longrightarrow>
    BRWalletRegisterTransaction testnet S moved now w tx = Some (w', r, ev) \<Longrightarrow> wallet_step testnet S w w'"
| step_remove: "BRWalletRemoveTransaction now w h = Some (w', ev) \<Longrightarrow> wallet_step testnet S w w'"
| step_update: "BRWalletUpdateTransactions now w hs bh ts = Some (w', ev) \<Longrightarrow> wallet_step testnet S w w'"
| step_unconfirm: "bh \<le> TX_UNCONFIRMED \<Longrightarrow> BRWalletSetTxUnconfirmedAfter now w bh = Some (w', ev) \<Longrightarrow>
    wallet_step testnet S w w'"
| step_unused: "BRWalletUnusedAddrs testnet S moved w gapLimit internal = Some (w', addrs) \<Longrightarrow> wallet_step testnet S w w'"
| step_receive: "BRWalletReceiveAddress testnet S moved w = Some (w', addr) \<Longrightarrow> wallet_step testnet S w w'"
| step_fee: "wallet_step testnet S w (BRWalletSetFeePerKb w perKb)"
| step_outputs: "BRWalletCreateTxForOutputs testnet S moved w rs outs = Some (w', tx', rs') \<Longrightarrow> wallet_step testnet S w w'"
| step_create: "BRWalletCreateTransaction testnet S moved w rs amount addr = Some (w', tx', rs') \<Longrightarrow>
    wallet_step testnet S w w'"
| step_fee_for: "BRWalletFeeForTxAmount testnet S moved w rs amount = Some (w', fee, rs') \<Longrightarrow> wallet_step testnet S w w'"

text \<open>
  The states of a wallet that was made from transactions of its own: \<open>BRWalletNew\<close> checks this only
  for the first one.
\<close>

inductive reachable :: "bool \<Rightarrow> ('k, 's, 'r) secp \<Rightarrow> BRWallet \<Rightarrow> bool" for testnet S where
  reachable_new: "BRWalletNew testnet S moved now txs mpk = Some (Some w) \<Longrightarrow> owned w \<Longrightarrow>
    list_all (\<lambda>tx. length (outputs tx) < 2 ^ 32) txs \<Longrightarrow> reachable testnet S w"
| reachable_step: "reachable testnet S w \<Longrightarrow> wallet_step testnet S w w' \<Longrightarrow> reachable testnet S w'"

lemma step_keeps: "wallet_step testnet S w w' \<Longrightarrow> wallet_ok w \<Longrightarrow> wallet_ok w'"
proof (induction rule: wallet_step.induct)
  case step_remove
  then show ?case using remove_all_keeps by (fastforce simp: BRWalletRemoveTransaction_def)
next
  case step_outputs
  then show ?case using create_keeps by fastforce
next
  case step_create
  then show ?case using create_keeps by (fastforce simp: BRWalletCreateTransaction_def split: if_splits)
next
  case step_fee_for
  then show ?case
    by (auto simp: BRWalletFeeForTxAmount_def bind_eq_Some_conv Let_def split: if_splits dest: create_keeps)
qed (auto simp: BRWalletReceiveAddress_def bind_eq_Some_conv
    intro: register_keeps update_transactions_keeps unconfirmed_after_keeps wallet_ok_addrs set_fee_keeps)

lemma reachable_ok: "reachable testnet S w \<Longrightarrow> wallet_ok w"
  by (induction rule: reachable.induct) (auto simp: list_all_iff intro: new_keeps step_keeps)

end
