(* ===== verification/WalletAddrs.thy ===== *)
theory WalletAddrs
  imports WalletSteps
begin

text \<open>
  The address chains of the wallet: every address is the one derived for its position, the address
  loop ends, and it leaves a gap of unused addresses.
\<close>

section \<open>Derived addresses\<close>

definition mpk_ok :: "BRMasterPubKey \<Rightarrow> bool" where
  "mpk_ok mpk \<longleftrightarrow> mpk \<noteq> BR_MASTER_PUBKEY_NONE \<and> length (mpk_pubKey mpk) = 33"

lemma CKDpub_length: "secp_ok S \<Longrightarrow> length K = 33 \<Longrightarrow> length (fst (CKDpub S (K, c) i)) = 33"
  using secp_okD(1) [of S]
  by (auto simp: CKDpub_def BRSecp256k1PointAdd_def Let_def bind_eq_Some_conv split: option.splits)

text \<open>The public key of a position.\<close>

definition chain_pub_key :: "('k, 's, 'r) secp \<Rightarrow> BRMasterPubKey \<Rightarrow> u32 \<Rightarrow> u32 \<Rightarrow> bytes" where
  "chain_pub_key S mpk chain i = fst (CKDpub S (CKDpub S (mpk_pubKey mpk, chainCode mpk) chain) i)"

lemma chain_pub_key_length: "secp_ok S \<Longrightarrow> mpk_ok mpk \<Longrightarrow> length (chain_pub_key S mpk chain i) = 33"
  unfolding chain_pub_key_def mpk_ok_def by (metis CKDpub_length prod.collapse)

lemma chain_address_eq:
  assumes "secp_ok S" "mpk_ok mpk"
  shows "chain_address testnet S mpk chain n =
    (case BRKeySetPubKey S (chain_pub_key S mpk chain (of_nat n)) of
       None \<Rightarrow> None
     | Some (key, ok) \<Rightarrow> Some (if \<not> ok then None
         else case BRKeyAddress testnet S key (Some (replicate 36 0)) of (_, addr, r) \<Rightarrow>
           if r = 0 \<or> BRAddressEq (cstr (the addr)) [] then None else Some (cstr (the addr))))"
proof -
  note len = chain_pub_key_length [OF assms, of chain "of_nat n"]
  have "BRBIP32PubKey S (Some (replicate 33 0)) mpk chain (of_nat n) = Some (Some (chain_pub_key S mpk chain (of_nat n)), 33)"
    "BRBIP32PubKey S None mpk chain (of_nat n) = Some (None, 33)"
    using assms(2) len by (simp_all add: BRBIP32PubKey_def mpk_ok_def chain_pub_key_def)
  then show ?thesis using len by (simp add: chain_address_def split: option.splits prod.splits)
qed

lemma chain_address_total:
  assumes "secp_ok S" "mpk_ok mpk"
  shows "\<exists>a. chain_address testnet S mpk chain n = Some a"
proof -
  obtain key ok where "BRKeySetPubKey S (chain_pub_key S mpk chain (of_nat n)) = Some (key, ok)"
    using chain_pub_key_length [OF assms, of chain "of_nat n"] by (simp add: BRKeySetPubKey_def)
  then show ?thesis unfolding chain_address_eq [OF assms] by simp
qed

lemma key_address_text:
  assumes "BRKeyAddress testnet S key (Some (replicate 36 0)) = (key', addr, r)" "r \<noteq> 0"
  shows "\<exists>h. length h = 20 \<and> cstr (the addr) = check_text (pubkey_address testnet # h) \<and>
    length (cstr (the addr)) < 36"
proof -
  obtain hash where e: "BRBase58CheckEncode (pubkey_address testnet # UInt160Set hash) (Some (replicate 36 0)) = (addr, r)"
    using assms by (auto simp: BRKeyAddress_def split: prod.splits if_splits)
  then obtain s where s: "addr = Some s"
    by (cases addr) (auto simp: BRBase58CheckEncode_def BRBase58Encode_def Let_def split: if_splits)
  note t = check_encode_text [OF e [unfolded s] assms(2)]
  moreover have "length (check_text (pubkey_address testnet # UInt160Set hash) @ [0]) \<le> 36"
    using e assms(2) encode_too_small [of "replicate 36 0"
        "(pubkey_address testnet # UInt160Set hash) @ take 4 (BRSHA256_2 (pubkey_address testnet # UInt160Set hash))"]
    by (force simp: not_le BRBase58CheckEncode_def check_text_def)
  ultimately show ?thesis using s by (intro exI [of _ "UInt160Set hash"]) auto
qed

lemma chain_address_valid:
  assumes "chain_address testnet S mpk chain n = Some (Some a)"
  shows "BRAddressIsValid testnet a \<and> length a < 36 \<and> a \<noteq> []"
proof -
  obtain key key' addr r where "BRKeyAddress testnet S key (Some (replicate 36 0)) = (key', addr, r)" "r \<noteq> 0"
      "a = cstr (the addr)"
    using assms by (auto simp: chain_address_def bind_eq_Some_conv split: if_splits prod.splits)
  with key_address_text obtain h where "length h = 20" "a = check_text (pubkey_address testnet # h)" "length a < 36"
    by metis
  then show ?thesis
    using check_text_longer [of "pubkey_address testnet # h"]
    by (auto simp: BRAddressIsValid_def address_data_eq check_bytes_text)
qed

text \<open>A chain holds the addresses of its positions.\<close>

definition derived :: "bool \<Rightarrow> ('k, 's, 'r) secp \<Rightarrow> BRMasterPubKey \<Rightarrow> u32 \<Rightarrow> bytes list \<Rightarrow> bool" where
  "derived testnet S mpk chain as \<longleftrightarrow> (\<forall>i<length as. chain_address testnet S mpk chain i = Some (Some (as ! i)))"

definition chains_ok :: "bool \<Rightarrow> ('k, 's, 'r) secp \<Rightarrow> BRWallet \<Rightarrow> bool" where
  "chains_ok testnet S w \<longleftrightarrow> derived testnet S (masterPubKey w) SEQUENCE_INTERNAL_CHAIN (internalChain w) \<and>
     derived testnet S (masterPubKey w) SEQUENCE_EXTERNAL_CHAIN (externalChain w)"

lemma derived_snoc: "derived testnet S mpk chain as \<Longrightarrow>
    chain_address testnet S mpk chain (length as) = Some (Some a) \<Longrightarrow> derived testnet S mpk chain (as @ [a])"
  by (auto simp: derived_def nth_append less_Suc_eq)

section \<open>The address loop\<close>

text \<open>
  What the loop keeps: the chain is derived, and from position \<open>i\<close> on its addresses are unused. When
  it ends there is a gap, or the next address cannot be derived.
\<close>

definition gap_from :: "BRWallet \<Rightarrow> nat \<Rightarrow> bytes list \<Rightarrow> bool" where
  "gap_from w i as \<longleftrightarrow> i \<le> length as \<and> set (drop i as) \<inter> usedAddrs w = {} \<and> (i > 0 \<longrightarrow> as ! (i - 1) \<in> usedAddrs w)"

lemma gap_snoc:
  assumes "gap_from w i as"
  shows "gap_from w (if a \<in> usedAddrs w then length as + 1 else i) (as @ [a])"
  using assms by (auto simp: gap_from_def nth_append)

lemma address_loop_result:
  assumes "address_loop testnet S w chain gapLimit i as = Some (i', as')"
    "derived testnet S (masterPubKey w) chain as" "gap_from w i as"
  shows "derived testnet S (masterPubKey w) chain as' \<and> gap_from w i' as' \<and>
    (length as' < i' + gapLimit \<longrightarrow> chain_address testnet S (masterPubKey w) chain (length as') = Some None)"
proof -
  let ?P = "\<lambda>testnet S w chain gapLimit i as r. derived testnet S (masterPubKey w) chain as \<longrightarrow> gap_from w i as \<longrightarrow>
    derived testnet S (masterPubKey w) chain (snd r) \<and> gap_from w (fst r) (snd r) \<and>
    (length (snd r) < fst r + gapLimit \<longrightarrow> chain_address testnet S (masterPubKey w) chain (length (snd r)) = Some None)"
  have "?P testnet S w chain gapLimit i as (i', as')"
  proof (rule address_loop.raw_induct [where P = ?P, OF _ assms(1)])
    fix loop :: "bool \<Rightarrow> ('k, 's, 'r) secp \<Rightarrow> BRWallet \<Rightarrow> u32 \<Rightarrow> nat \<Rightarrow> nat \<Rightarrow> bytes list \<Rightarrow> (nat \<times> bytes list) option"
      and testnet S w chain gapLimit i as r
    assume IH: "\<And>testnet S w chain gapLimit i as r. loop testnet S w chain gapLimit i as = Some r \<Longrightarrow>
        ?P testnet S w chain gapLimit i as r"
      and eq: "(if length as < i + gapLimit then
          Option.bind (chain_address testnet S (masterPubKey w) chain (length as)) (\<lambda>a.
            case a of
              None \<Rightarrow> Some (i, as)
            | Some addr \<Rightarrow> loop testnet S w chain gapLimit
                (if addr \<in> usedAddrs w then length as + 1 else i) (as @ [addr]))
        else Some (i, as)) = Some r"
    show "?P testnet S w chain gapLimit i as r"
    proof (cases "length as < i + gapLimit")
      case True
      then obtain a where a: "chain_address testnet S (masterPubKey w) chain (length as) = Some a"
        using eq by (auto simp: bind_eq_Some_conv)
      show ?thesis
      proof (cases a)
        case None
        then show ?thesis using eq True a by auto
      next
        case (Some addr)
        then have "loop testnet S w chain gapLimit (if addr \<in> usedAddrs w then length as + 1 else i) (as @ [addr]) = Some r"
          using eq True a by simp
        from IH [OF this] show ?thesis using derived_snoc gap_snoc a Some by blast
      qed
    qed (use eq in auto)
  qed
  then show ?thesis using assms(2,3) by simp
qed

lemma gap_start:
  "gap_from w (length as - length (takeWhile (\<lambda>a. a \<notin> usedAddrs w) (rev as))) as"
proof -
  let ?P = "\<lambda>a. a \<notin> usedAddrs w"
  define ys where "ys = rev (takeWhile ?P (rev as))"
  define xs where "xs = rev (dropWhile ?P (rev as))"
  have as: "as = xs @ ys" unfolding xs_def ys_def by (metis rev_append rev_rev_ident takeWhile_dropWhile_id)
  have n: "length as - length (takeWhile ?P (rev as)) = length xs"
    using arg_cong [OF as, of length] by (simp add: ys_def)
  have "xs \<noteq> [] \<Longrightarrow> last xs \<in> usedAddrs w" using hd_dropWhile [of ?P "rev as"] by (auto simp: xs_def last_rev)
  moreover have "set ys \<inter> usedAddrs w = {}" by (auto simp: ys_def dest: set_takeWhileD)
  ultimately have "gap_from w (length xs) (xs @ ys)" by (auto simp: gap_from_def nth_append last_conv_nth)
  then show ?thesis using n as by simp
qed

lemma unused_addrs_result:
  assumes ok: "chains_ok testnet S w"
    and "BRWalletUnusedAddrs testnet S moved w gapLimit internal = Some (w', written)"
  defines "chain \<equiv> if internal then SEQUENCE_INTERNAL_CHAIN else SEQUENCE_EXTERNAL_CHAIN"
    and "as' \<equiv> if internal then internalChain w' else externalChain w'"
  shows "chains_ok testnet S w'" "\<exists>i. gap_from w i as' \<and>
    written = (if i + gapLimit \<le> length as' then take gapLimit (drop i as') else []) \<and>
    (length as' < i + gapLimit \<longrightarrow> chain_address testnet S (masterPubKey w) chain (length as') = Some None)"
proof -
  define old where "old = (if internal then internalChain w else externalChain w)"
  obtain i as where l: "address_loop testnet S w chain gapLimit
      (length old - length (takeWhile (\<lambda>a. a \<notin> usedAddrs w) (rev old))) old = Some (i, as)"
    and wr: "written = (if i + gapLimit \<le> length as then take gapLimit (drop i as) else [])"
    and w': "w' = (if internal then w\<lparr>internalChain := as\<rparr> else w\<lparr>externalChain := as\<rparr>)\<lparr>allAddrs := allAddrs w'\<rparr>"
    using assms(2) unfolding BRWalletUnusedAddrs_def Let_def chain_def [symmetric] old_def [symmetric]
    by (cases internal) (auto simp: bind_eq_Some_conv split: if_split_asm)
  have as': "as = as'" by (simp add: as'_def) (cases internal; subst w'; simp)
  have "derived testnet S (masterPubKey w) chain old" using ok by (simp add: chains_ok_def old_def chain_def)
  note r = address_loop_result [OF l this gap_start]
  have "chains_ok testnet S ((if internal then w\<lparr>internalChain := as\<rparr> else w\<lparr>externalChain := as\<rparr>)\<lparr>allAddrs := allAddrs w'\<rparr>)"
    using r ok by (cases internal) (simp_all add: chains_ok_def chain_def)
  then show "chains_ok testnet S w'" by (simp only: w' [symmetric])
  show "\<exists>i. gap_from w i as' \<and>
      written = (if i + gapLimit \<le> length as' then take gapLimit (drop i as') else []) \<and>
      (length as' < i + gapLimit \<longrightarrow> chain_address testnet S (masterPubKey w) chain (length as') = Some None)"
    using r wr unfolding as' by blast
qed

section \<open>The chains in every state\<close>

definition chains :: "BRWallet \<Rightarrow> BRMasterPubKey \<times> bytes list \<times> bytes list" where
  "chains w = (masterPubKey w, internalChain w, externalChain w)"

lemma chains_ok_cong: "chains v = chains w \<Longrightarrow> chains_ok testnet S v = chains_ok testnet S w"
  by (simp add: chains_ok_def chains_def)

lemma chains_simps [simp]:
  "chains (w\<lparr>allTx := m\<rparr>) = chains w" "chains (w\<lparr>transactions := ts\<rparr>) = chains w"
  "chains (w\<lparr>w_blockHeight := bh\<rparr>) = chains w" "chains (w\<lparr>feePerKb := f\<rparr>) = chains w"
  "chains (w\<lparr>usedAddrs := us\<rparr>) = chains w" "chains (w\<lparr>utxos := xs\<rparr>) = chains w"
  "chains (w\<lparr>spentOutputs := ss\<rparr>) = chains w" "chains (w\<lparr>invalidTx := is\<rparr>) = chains w"
  "chains (w\<lparr>pendingTx := ps\<rparr>) = chains w" "chains (w\<lparr>balanceHist := bs\<rparr>) = chains w"
  "chains (w\<lparr>totalSent := n\<rparr>) = chains w" "chains (w\<lparr>totalReceived := n\<rparr>) = chains w"
  "chains (w\<lparr>balance := n\<rparr>) = chains w"
  by (simp_all add: chains_def)

lemma insert_chains: "BRWalletInsertTx w h = Some w' \<Longrightarrow> chains w' = chains w"
  by (auto simp: BRWalletInsertTx_def bind_eq_Some_conv)

lemma outputs_added_chains: "chains (fst (foldl (output_added tx) s js)) = chains (fst s)"
  by (induction js arbitrary: s) (simp_all add: output_added_def Let_def split: prod.splits)

lemma balance_step_chains:
  assumes "balance_step now s h = Some s'"
  shows "chains (fst s') = chains (fst s)"
proof -
  obtain w bal prev where s: "s = (w, bal, prev)" by (cases s)
  obtain tx where tx: "allTx w h = Some tx" using assms by (auto simp: balance_step_def s bind_eq_Some_conv)
  let ?w1 = "w\<lparr>spentOutputs := spentOutputs w \<union> utxo_of ` set (inputs tx)\<rparr>"
  obtain w2 bal2 where w2: "foldl (output_added tx) (?w1, bal) [0..<length (outputs tx)] = (w2, bal2)"
    by (cases "foldl (output_added tx) (?w1, bal) [0..<length (outputs tx)]")
  then have "chains w2 = chains w" using outputs_added_chains [of tx "(?w1, bal)" "[0..<length (outputs tx)]"] by simp
  then show ?thesis
    using assms tx w2
    by (cases "tx_invalid w tx"; cases "tx_pending now ?w1 tx") (auto simp: balance_step_def s Let_def bind_eq_Some_conv)
qed

lemma balance_loop_chains: "balance_loop now s hs = Some s' \<Longrightarrow> chains (fst s') = chains (fst s)"
  by (induction hs arbitrary: s) (auto simp: bind_eq_Some_conv dest: balance_step_chains)

lemma balance_chains:
  assumes "BRWalletUpdateBalance now w = Some w'"
  shows "chains w' = chains w"
proof -
  obtain v bal prev where "balance_loop now (balance_start w, 0, 0) (transactions w) = Some (v, bal, prev)"
      "w' = v\<lparr>balance := bal\<rparr>"
    using assms by (auto simp: BRWalletUpdateBalance_def bind_eq_Some_conv split: if_splits)
  then show ?thesis using balance_loop_chains by (fastforce simp: balance_start_def)
qed

lemma update_tx_chains: "update_tx bh ts s h = Some s' \<Longrightarrow> chains (fst s') = chains (fst s)"
  by (auto simp: update_tx_def Let_def bind_eq_Some_conv split: prod.splits option.splits if_splits dest!: insert_chains)

lemma update_loop_chains: "update_loop bh ts s hs = Some s' \<Longrightarrow> chains (fst s') = chains (fst s)"
  by (induction hs arbitrary: s) (auto simp: bind_eq_Some_conv dest: update_tx_chains)

lemma load_chains: "load_loop w txs = Some w' \<Longrightarrow> chains w' = chains w"
  by (induction txs arbitrary: w) (auto simp: Let_def bind_eq_Some_conv split: if_splits dest!: insert_chains)

lemma register_chains:
  assumes "chains_ok testnet S w" "BRWalletRegisterTransaction testnet S moved now w tx = Some (w', r, ev)"
  shows "chains_ok testnet S w'"
proof (cases "allTx w (txHash tx) = None \<and> BRWalletContainsTx w tx")
  case True
  then obtain w1 w2 w3 as bs where
    "BRWalletInsertTx (w\<lparr>allTx := (allTx w)(txHash tx \<mapsto> tx)\<rparr>) (txHash tx) = Some w1" "BRWalletUpdateBalance now w1 = Some w2"
    and u: "BRWalletUnusedAddrs testnet S moved w2 SEQUENCE_GAP_LIMIT_EXTERNAL False = Some (w3, as)"
    "BRWalletUnusedAddrs testnet S moved w3 SEQUENCE_GAP_LIMIT_INTERNAL True = Some (w', bs)"
    using assms(2) by (auto simp: BRWalletRegisterTransaction_def bind_eq_Some_conv split: if_splits)
  then have "chains w2 = chains w" using insert_chains balance_chains by fastforce
  then show ?thesis using unused_addrs_result(1) u chains_ok_cong assms(1) by metis
next
  case False
  then have "chains w' = chains w" using assms(2) by (auto simp: BRWalletRegisterTransaction_def split: if_splits)
  then show ?thesis using assms(1) chains_ok_cong by metis
qed

lemma remove_chains:
  assumes "remove_all now w hs ev = Some r"
  shows "chains (fst r) = chains w"
  by (rule remove_all_invariant [where Q = "\<lambda>v. chains v = chains w", OF _ assms refl])
    (auto simp: remove_one_def bind_eq_Some_conv dest!: balance_chains)

lemma update_chains: "BRWalletUpdateTransactions now w hs bh ts = Some (w', ev) \<Longrightarrow> chains w' = chains w"
  by (auto simp: BRWalletUpdateTransactions_def Let_def bind_eq_Some_conv split: if_splits
      dest!: update_loop_chains balance_chains)

lemma unconfirm_chains: "BRWalletSetTxUnconfirmedAfter now w bh = Some (w', ev) \<Longrightarrow> chains w' = chains w"
  by (auto simp: BRWalletSetTxUnconfirmedAfter_def Let_def bind_eq_Some_conv split: if_splits dest!: balance_chains)

lemma create_chains:
  assumes "BRWalletCreateTxForOutputs testnet S moved w rs outs = Some r" "chains_ok testnet S w"
  shows "chains_ok testnet S (fst r)"
  by (rule create_invariant [where Q = chains_ok, OF assms unused_addrs_result(1)])

lemma step_chains: "wallet_step testnet S w w' \<Longrightarrow> chains_ok testnet S w \<Longrightarrow> chains_ok testnet S w'"
proof (induction rule: wallet_step.induct)
  case step_remove
  then show ?case using remove_chains chains_ok_cong by (fastforce simp: BRWalletRemoveTransaction_def)
next
  case step_outputs
  then show ?case using create_chains by fastforce
next
  case step_create
  then show ?case using create_chains by (fastforce simp: BRWalletCreateTransaction_def split: if_splits)
next
  case step_fee_for
  then show ?case
    by (auto simp: BRWalletFeeForTxAmount_def bind_eq_Some_conv Let_def split: if_splits dest: create_chains)
next
  case step_fee
  then show ?case using chains_ok_cong by (metis BRWalletSetFeePerKb_def chains_simps(4))
qed (auto simp: BRWalletReceiveAddress_def bind_eq_Some_conv
    intro: register_chains unused_addrs_result(1) chains_ok_cong [THEN iffD2, OF update_chains]
      chains_ok_cong [THEN iffD2, OF unconfirm_chains])

lemma reachable_chains: "reachable testnet S w \<Longrightarrow> chains_ok testnet S w"
proof (induction rule: reachable.induct)
  case (reachable_new moved now txs mpk w)
  then obtain w1 w2 w3 as bs where
    "load_loop (wallet_calloc mpk) txs = Some w1"
    "BRWalletUnusedAddrs testnet S moved w1 SEQUENCE_GAP_LIMIT_EXTERNAL False = Some (w2, as)"
    "BRWalletUnusedAddrs testnet S moved w2 SEQUENCE_GAP_LIMIT_INTERNAL True = Some (w3, bs)"
    "BRWalletUpdateBalance now w3 = Some w"
    by (cases txs) (auto simp: BRWalletNew_def bind_eq_Some_conv split: if_splits)
  moreover have "chains_ok testnet S (wallet_calloc mpk)" by (simp add: chains_ok_def derived_def wallet_calloc_def)
  ultimately show ?case using load_chains balance_chains unused_addrs_result(1) chains_ok_cong by metis
qed (rule step_chains)

section \<open>The loop returns\<close>

text \<open>It returns when every address can be computed and some stretch of the chain is unused.\<close>

lemma address_loop_returns:
  assumes total: "\<And>k. chain_address testnet S (masterPubKey w) chain k \<noteq> None"
    and gap: "\<And>j a. n \<le> j \<Longrightarrow> j < n + gapLimit \<Longrightarrow>
      chain_address testnet S (masterPubKey w) chain j = Some (Some a) \<Longrightarrow> a \<notin> usedAddrs w"
    and "i \<le> n" "length as \<le> n + gapLimit"
  shows "address_loop testnet S w chain gapLimit i as \<noteq> None"
  using assms(3,4)
proof (induction "n + gapLimit - length as" arbitrary: i as rule: less_induct)
  case less
  show ?case
  proof (cases "length as < i + gapLimit")
    case True
    obtain a where a: "chain_address testnet S (masterPubKey w) chain (length as) = Some a" using total by blast
    show ?thesis
    proof (cases a)
      case (Some addr)
      define i' where "i' = (if addr \<in> usedAddrs w then length as + 1 else i)"
      have "length as < n" if "addr \<in> usedAddrs w"
        using gap [of "length as" addr] a Some that less.prems True by force
      then have "address_loop testnet S w chain gapLimit i' (as @ [addr]) \<noteq> None"
        using less.prems True by (intro less.hyps) (auto simp: i'_def)
      then show ?thesis using True a Some by (subst address_loop.simps) (simp add: i'_def)
    qed (use True a in \<open>subst address_loop.simps, simp\<close>)
  qed (subst address_loop.simps, simp)
qed

lemma unused_addrs_returns:
  assumes "secp_ok S" "mpk_ok (masterPubKey w)" "gapLimit > 0"
    and "length (if internal then internalChain w else externalChain w) \<le> n"
    and "\<And>j a. n \<le> j \<Longrightarrow> j < n + gapLimit \<Longrightarrow> chain_address testnet S (masterPubKey w)
        (if internal then SEQUENCE_INTERNAL_CHAIN else SEQUENCE_EXTERNAL_CHAIN) j = Some (Some a) \<Longrightarrow> a \<notin> usedAddrs w"
  shows "\<exists>w' written. BRWalletUnusedAddrs testnet S moved w gapLimit internal = Some (w', written)"
proof -
  define chain where "chain = (if internal then SEQUENCE_INTERNAL_CHAIN else SEQUENCE_EXTERNAL_CHAIN)"
  define old where "old = (if internal then internalChain w else externalChain w)"
  have "address_loop testnet S w chain gapLimit
      (length old - length (takeWhile (\<lambda>a. a \<notin> usedAddrs w) (rev old))) old \<noteq> None"
    by (rule address_loop_returns [where n = n])
      (use assms chain_address_total [OF assms(1,2)] in \<open>auto simp: chain_def old_def\<close>)
  then show ?thesis
    using assms(3) by (auto simp: BRWalletUnusedAddrs_def Let_def chain_def old_def)
qed

lemma new_wallet:
  assumes "secp_ok S" "mpk_ok mpk"
  shows "\<exists>w. BRWalletNew testnet S moved now [] mpk = Some (Some w) \<and> transactions w = [] \<and> usedAddrs w = {} \<and> masterPubKey w = mpk"
proof -
  have 1: "\<exists>w' written. BRWalletUnusedAddrs testnet S moved (wallet_calloc mpk) SEQUENCE_GAP_LIMIT_EXTERNAL False = Some (w', written)"
    by (rule unused_addrs_returns [where n = 0]) (use assms in \<open>simp_all add: wallet_calloc_def SEQUENCE_GAP_LIMIT_EXTERNAL_def\<close>)
  then obtain w1 as where u1: "BRWalletUnusedAddrs testnet S moved (wallet_calloc mpk) SEQUENCE_GAP_LIMIT_EXTERNAL False = Some (w1, as)"
    by blast
  have w1: "masterPubKey w1 = mpk" "usedAddrs w1 = {}" "transactions w1 = []" "internalChain w1 = []"
    using u1 by (auto simp: BRWalletUnusedAddrs_def wallet_calloc_def Let_def bind_eq_Some_conv split: if_splits)
  have "\<exists>w' written. BRWalletUnusedAddrs testnet S moved w1 SEQUENCE_GAP_LIMIT_INTERNAL True = Some (w', written)"
    by (rule unused_addrs_returns [where n = 0]) (use assms w1 in \<open>simp_all add: SEQUENCE_GAP_LIMIT_INTERNAL_def\<close>)
  then obtain w2 bs where u2: "BRWalletUnusedAddrs testnet S moved w1 SEQUENCE_GAP_LIMIT_INTERNAL True = Some (w2, bs)"
    by blast
  have w2: "masterPubKey w2 = mpk" "transactions w2 = []"
    using u2 w1 by (auto simp: BRWalletUnusedAddrs_def Let_def bind_eq_Some_conv split: if_splits)
  then have "BRWalletUpdateBalance now w2 = Some ((balance_start w2)\<lparr>balance := 0\<rparr>)"
    by (simp add: BRWalletUpdateBalance_def balance_start_def)
  then show ?thesis using u1 u2 w2 by (simp add: BRWalletNew_def balance_start_def)
qed

definition sample_mpk :: BRMasterPubKey where
  "sample_mpk = \<lparr>fingerPrint = 0, chainCode = 1, mpk_pubKey = replicate 33 2\<rparr>"

lemma sample_mpk_ok: "mpk_ok sample_mpk"
  by (simp add: mpk_ok_def sample_mpk_def BR_MASTER_PUBKEY_NONE_def)

lemma reachable_sample:
  "\<exists>w. reachable testnet integer_secp w \<and> transactions w = [] \<and> usedAddrs w = {} \<and> masterPubKey w = sample_mpk"
proof -
  obtain w where "BRWalletNew testnet integer_secp False 0 [] sample_mpk = Some (Some w)"
      "transactions w = []" "usedAddrs w = {}" "masterPubKey w = sample_mpk"
    using new_wallet [OF integer_secp_ok sample_mpk_ok] by blast
  then show ?thesis by (intro exI [of _ w]) (auto simp: owned_def intro: reachable_new)
qed

end
