(* ===== verification/WalletLedger.thy ===== *)
theory WalletLedger
  imports WalletBalance
begin

text \<open>
  What \<open>_BRWalletUpdateBalance\<close> computes, stated on the list of transactions without the state of its
  loop: which transactions are invalid and which are pending, which outputs are unspent after each of
  them, and the history of the balance.
\<close>

section \<open>The specification\<close>

text \<open>
  An unconfirmed transaction \<open>h\<close> conflicts with the transactions \<open>ps\<close> before it when it spends an
  output that one of them spends which is not in \<open>bad\<close>, or any output of one of them in \<open>bad\<close>.
\<close>

definition conflicts :: "BRWallet \<Rightarrow> UInt256 set \<Rightarrow> UInt256 list \<Rightarrow> UInt256 \<Rightarrow> bool" where
  "conflicts w bad ps h \<longleftrightarrow> (\<exists>tx. allTx w h = Some tx \<and> blockHeight tx = 0x7fffffff \<and>
     (\<exists>inp\<in>set (inputs tx). utxo_of inp \<in> \<Union> (tx_inputs w ` (set ps - bad)) \<or> in_txHash inp \<in> set ps \<inter> bad))"

text \<open>
  An unconfirmed transaction is held back when it is larger than 100000 bytes, has an output below
  5460, can be replaced (BIP 125), has a lock time in the future, or spends a transaction before it
  that is held back.
\<close>

definition held_back :: "int \<Rightarrow> BRWallet \<Rightarrow> UInt256 set \<Rightarrow> UInt256 list \<Rightarrow> UInt256 \<Rightarrow> bool" where
  "held_back now w wait ps h \<longleftrightarrow> (\<exists>tx. allTx w h = Some tx \<and> blockHeight tx = 0x7fffffff \<and>
     (BRTransactionSize tx > 100000 \<or>
      (\<exists>out\<in>set (outputs tx). out_amount out < 5460) \<or>
      (\<exists>inp\<in>set (inputs tx). in_sequence inp < 0xfffffffe \<or>
         in_sequence inp = 0xfffffffe \<and>
           (if lockTime tx < 500000000 then lockTime tx > w_blockHeight w + 1 \<or> uint (lockTime tx) > now
            else uint (lockTime tx) > now) \<or>
         in_txHash inp \<in> set ps \<inter> wait)))"

text \<open>The outputs of a transaction to addresses of the wallet.\<close>

definition wallet_outputs :: "BRWallet \<Rightarrow> UInt256 \<Rightarrow> BRUTXO list" where
  "wallet_outputs w h = (case allTx w h of None \<Rightarrow> [] | Some tx \<Rightarrow>
     map (\<lambda>j. \<lparr>utxo_hash = h, utxo_n = of_nat j\<rparr>)
       (filter (\<lambda>j. out_address (outputs tx ! j) \<noteq> [] \<and> out_address (outputs tx ! j) \<in> allAddrs w)
         [0..<length (outputs tx)]))"

text \<open>The transactions up to the last one that is not in \<open>skip\<close>: spent outputs are taken out only then.\<close>

definition settled :: "UInt256 set \<Rightarrow> UInt256 list \<Rightarrow> UInt256 list" where
  "settled skip ps = rev (dropWhile (\<lambda>h. h \<in> skip) (rev ps))"

text \<open>
  The unspent outputs after the transactions \<open>ps\<close>: those of the counted ones to the wallet that no
  transaction spends which is not invalid and not behind the last counted one.
\<close>

definition unspent :: "BRWallet \<Rightarrow> UInt256 set \<Rightarrow> UInt256 set \<Rightarrow> UInt256 list \<Rightarrow> BRUTXO list" where
  "unspent w bad wait ps =
     filter (\<lambda>u. u \<notin> \<Union> (tx_inputs w ` (set (settled (bad \<union> wait) ps) - bad)))
       (concat (map (wallet_outputs w) (filter (\<lambda>h. h \<notin> bad \<union> wait) ps)))"

text \<open>The addresses in the outputs of the counted transactions.\<close>

definition paid_addresses :: "BRWallet \<Rightarrow> UInt256 set \<Rightarrow> UInt256 list \<Rightarrow> bytes set" where
  "paid_addresses w skip ps = (\<Union>h\<in>set ps - skip. case allTx w h of None \<Rightarrow> {} | Some tx \<Rightarrow>
     out_address ` set (outputs tx)) - {[]}"

section \<open>One transaction more\<close>

lemma settled_snoc [simp]:
  "settled skip (ps @ [h]) = (if h \<in> skip then settled skip ps else ps @ [h])"
  by (simp add: settled_def)

lemma settled_subset: "set (settled skip ps) \<subseteq> set ps"
  using set_dropWhileD [of _ "\<lambda>h. h \<in> skip" "rev ps"] by (auto simp: settled_def)

lemma settled_cong:
  assumes "set ps \<inter> skip = set ps \<inter> skip'"
  shows "settled skip ps = settled skip' ps"
proof -
  have "dropWhile (\<lambda>h. h \<in> skip) (rev ps) = dropWhile (\<lambda>h. h \<in> skip') (rev ps)"
    by (rule dropWhile_cong) (use assms in auto)
  then show ?thesis by (simp add: settled_def)
qed

lemma unspent_cong:
  assumes "set ps \<inter> bad = set ps \<inter> bad'" "set ps \<inter> wait = set ps \<inter> wait'"
  shows "unspent w bad wait ps = unspent w bad' wait' ps"
proof -
  have "settled (bad \<union> wait) ps = settled (bad' \<union> wait') ps" by (rule settled_cong) (use assms in blast)
  moreover have "set (settled (bad' \<union> wait') ps) - bad = set (settled (bad' \<union> wait') ps) - bad'"
    using settled_subset [of "bad' \<union> wait'" ps] assms(1) by blast
  moreover have "filter (\<lambda>h. h \<notin> bad \<union> wait) ps = filter (\<lambda>h. h \<notin> bad' \<union> wait') ps"
    by (rule filter_cong) (use assms in auto)
  ultimately show ?thesis by (simp add: unspent_def)
qed

lemma conflicts_cong: "set ps \<inter> bad = set ps \<inter> bad' \<Longrightarrow> conflicts w bad ps h = conflicts w bad' ps h"
proof -
  assume "set ps \<inter> bad = set ps \<inter> bad'"
  moreover from this have "set ps - bad = set ps - bad'" by blast
  ultimately show ?thesis by (simp only: conflicts_def)
qed

lemma held_back_cong: "set ps \<inter> wait = set ps \<inter> wait' \<Longrightarrow> held_back now w wait ps h = held_back now w wait' ps h"
  by (simp only: held_back_def)

text \<open>A transaction that is in neither set: its outputs are added, and all spent ones are taken out.\<close>

lemma unspent_counted:
  assumes "h \<notin> bad \<union> wait"
  shows "unspent w bad wait (ps @ [h]) =
    filter (\<lambda>u. u \<notin> \<Union> (tx_inputs w ` (set (ps @ [h]) - bad))) (unspent w bad wait ps @ wallet_outputs w h)"
  using assms settled_subset [of "bad \<union> wait" ps] by (auto simp: unspent_def intro!: filter_cong)

lemma unspent_skipped: "h \<in> bad \<union> wait \<Longrightarrow> unspent w bad wait (ps @ [h]) = unspent w bad wait ps"
  by (auto simp: unspent_def)

section \<open>The loop\<close>

definition ledger_inv :: "int \<Rightarrow> BRWallet \<Rightarrow> UInt256 list \<Rightarrow> BRWallet \<times> u64 \<times> u64 \<Rightarrow> bool" where
  "ledger_inv now w0 ps s \<longleftrightarrow> (case s of (w, bal, prev) \<Rightarrow>
     prev = bal \<and> totalReceived w = bal + totalSent w \<and>
     utxos w = unspent w0 (invalidTx w) (pendingTx w) ps \<and>
     usedAddrs w = paid_addresses w0 (invalidTx w \<union> pendingTx w) ps \<and>
     balanceHist w = map (\<lambda>n. utxo_sum w0 (unspent w0 (invalidTx w) (pendingTx w) (take (Suc n) ps))) [0..<length ps] \<and>
     (\<forall>i<length ps. (ps ! i \<in> invalidTx w \<longleftrightarrow> conflicts w0 (invalidTx w) (take i ps) (ps ! i)) \<and>
       (ps ! i \<in> pendingTx w \<longleftrightarrow> ps ! i \<notin> invalidTx w \<and> held_back now w0 (pendingTx w) (take i ps) (ps ! i))))"

lemma ledger_start: "ledger_inv now w0 [] (balance_start w0, 0, 0)"
  by (simp add: ledger_inv_def balance_start_def unspent_def settled_def paid_addresses_def)

text \<open>The sets may grow by the new transaction only.\<close>

lemma ledger_snoc:
  assumes inv: "ledger_inv now w0 ps (w, bal, prev)" and h: "h \<notin> set ps"
    and bad: "bad - {h} = invalidTx w - {h}" and wait: "wait - {h} = pendingTx w - {h}"
    and new: "h \<in> bad \<longleftrightarrow> conflicts w0 (invalidTx w) ps h"
      "h \<in> wait \<longleftrightarrow> h \<notin> bad \<and> held_back now w0 (pendingTx w) ps h"
    and w': "invalidTx w' = bad" "pendingTx w' = wait" "utxos w' = unspent w0 bad wait (ps @ [h])"
      "usedAddrs w' = paid_addresses w0 (bad \<union> wait) (ps @ [h])"
      "balanceHist w' = balanceHist w @ [utxo_sum w0 (utxos w')]" "totalReceived w' = bal' + totalSent w'"
  shows "ledger_inv now w0 (ps @ [h]) (w', bal', bal')"
proof -
  have sets: "set qs \<inter> bad = set qs \<inter> invalidTx w" "set qs \<inter> wait = set qs \<inter> pendingTx w" if "set qs \<subseteq> set ps" for qs
    using that h bad wait by blast+
  have tk: "set (take n ps) \<subseteq> set ps" for n by (rule set_take_subset)
  have un: "unspent w0 (invalidTx w) (pendingTx w) (take n ps) = unspent w0 bad wait (take n ps)" for n
    using sets [OF tk, of n] by (intro unspent_cong) simp_all
  have hist: "balanceHist w' = map (\<lambda>n. utxo_sum w0 (unspent w0 bad wait (take (Suc n) (ps @ [h])))) [0..<length (ps @ [h])]"
  proof -
    have "map (\<lambda>n. utxo_sum w0 (unspent w0 (invalidTx w) (pendingTx w) (take (Suc n) ps))) [0..<length ps] =
        map (\<lambda>n. utxo_sum w0 (unspent w0 bad wait (take (Suc n) (ps @ [h])))) [0..<length ps]"
      by (simp add: un)
    then show ?thesis using inv w' by (simp add: ledger_inv_def)
  qed
  have old: "((ps @ [h]) ! i \<in> bad \<longleftrightarrow> conflicts w0 bad (take i (ps @ [h])) ((ps @ [h]) ! i)) \<and>
      ((ps @ [h]) ! i \<in> wait \<longleftrightarrow> (ps @ [h]) ! i \<notin> bad \<and> held_back now w0 wait (take i (ps @ [h])) ((ps @ [h]) ! i))"
    if "i < Suc (length ps)" for i
  proof (cases "i = length ps")
    case True
    then show ?thesis
      using new conflicts_cong [OF sets(1) [OF subset_refl]] held_back_cong [OF sets(2) [OF subset_refl]] by simp
  next
    case False
    then have i: "i < length ps" using that by simp
    then have "ps ! i \<noteq> h" using h nth_mem by metis
    then have "ps ! i \<in> bad \<longleftrightarrow> ps ! i \<in> invalidTx w" "ps ! i \<in> wait \<longleftrightarrow> ps ! i \<in> pendingTx w"
      using bad wait by blast+
    then show ?thesis
      using inv i conflicts_cong [OF sets(1) [OF tk]] held_back_cong [OF sets(2) [OF tk]]
      by (simp add: ledger_inv_def nth_append)
  qed
  show ?thesis using w' hist old by (simp add: ledger_inv_def)
qed

lemma outputs_added_used:
  "usedAddrs (fst (foldl (output_added tx) s js)) = usedAddrs (fst s) \<union> (out_address ` (!) (outputs tx) ` set js - {[]})"
  by (induction js arbitrary: s) (auto simp: output_added_def Let_def split: prod.splits)

lemma paid_snoc:
  assumes "h \<notin> set ps" "set ps \<inter> skip' = set ps \<inter> skip" "allTx w h = Some tx"
  shows "paid_addresses w skip' (ps @ [h]) = paid_addresses w skip ps \<union>
    (if h \<in> skip' then {} else out_address ` set (outputs tx) - {[]})"
proof -
  have "set (ps @ [h]) - skip' = (set ps - skip) \<union> (if h \<in> skip' then {} else {h})" using assms(1,2) by auto
  then show ?thesis using assms(3) by (simp add: paid_addresses_def Un_Diff UN_Un)
qed

lemma invalid_conflicts:
  assumes "balance_inv w0 ps (w, bal, prev)" "allTx w0 h = Some tx"
  shows "tx_invalid w tx \<longleftrightarrow> conflicts w0 (invalidTx w) ps h"
proof -
  have "spentOutputs w = \<Union> (tx_inputs w0 ` (set ps - invalidTx w))" "set ps \<inter> invalidTx w = invalidTx w"
    using assms(1) by (auto simp: balance_inv_def)
  then show ?thesis using assms(2) by (simp add: tx_invalid_def conflicts_def TX_UNCONFIRMED_def list_ex_iff)
qed

lemma sequence_cases: "(s :: u32) < 0xffffffff \<longleftrightarrow> s < 0xfffffffe \<or> s = 0xfffffffe"
proof -
  have "unat s < 4294967295 \<longleftrightarrow> unat s < 4294967294 \<or> unat s = 4294967294" by linarith
  then show ?thesis by (simp add: word_less_nat_alt word_unat_eq_iff)
qed

lemma lock_held_back:
  "lock_pending bh now tx inp \<longleftrightarrow> in_sequence inp < 0xfffffffe \<or>
     in_sequence inp = 0xfffffffe \<and>
       (if lockTime tx < 500000000 then lockTime tx > bh + 1 \<or> uint (lockTime tx) > now
        else uint (lockTime tx) > now)"
proof -
  have "(0xffffffff - 1 :: u32) = 0xfffffffe" by simp
  moreover have "int (unat (lockTime tx)) = uint (lockTime tx)" by simp
  ultimately show ?thesis unfolding lock_pending_def TX_MAX_LOCK_HEIGHT_def sequence_cases [of "in_sequence inp"] by metis
qed

lemma min_output_amount: "TX_MIN_OUTPUT_AMOUNT = 5460"
  by (simp add: TX_MIN_OUTPUT_AMOUNT_def TX_FEE_PER_KB_def)

lemma pending_held_back:
  assumes "balance_inv w0 ps (w, bal, prev)" "allTx w0 h = Some tx"
    "w_blockHeight v = w_blockHeight w" "pendingTx v = pendingTx w"
  shows "tx_pending now v tx \<longleftrightarrow> held_back now w0 (pendingTx w) ps h"
proof -
  have p: "w_blockHeight v = w_blockHeight w0" "set ps \<inter> pendingTx w = pendingTx w"
    using assms(1,3) by (auto simp: balance_inv_def same_base_def)
  show ?thesis
    unfolding tx_pending_def held_back_def lock_held_back min_output_amount TX_UNCONFIRMED_def TX_MAX_SIZE_def
      list_ex_iff assms(2,4) p by auto
qed

lemma ledger_step:
  assumes bal_inv: "balance_inv w0 ps (w, bal, prev)" and inv: "ledger_inv now w0 ps (w, bal, prev)"
    and st: "store_ok w0" and h: "h \<in> dom (allTx w0)" "h \<notin> set ps"
    and step: "balance_step now (w, bal, prev) h = Some s'" "balance_inv w0 (ps @ [h]) s'"
  shows "ledger_inv now w0 (ps @ [h]) s'"
proof -
  obtain tx where tx: "allTx w0 h = Some tx" "txHash tx = h" "length (outputs tx) < 2 ^ 32"
    using h(1) st by (auto simp: store_ok_def)
  have base: "same_base w w0" and wtx: "allTx w h = Some tx" and nh: "h \<notin> invalidTx w" "h \<notin> pendingTx w"
    and sum: "bal = utxo_sum w0 (utxos w)" and pv: "prev = bal" and tot: "totalReceived w = bal + totalSent w"
    and ut: "utxos w = unspent w0 (invalidTx w) (pendingTx w) ps"
    and ua: "usedAddrs w = paid_addresses w0 (invalidTx w \<union> pendingTx w) ps"
    using bal_inv inv tx h(2) by (auto simp: balance_inv_def ledger_inv_def same_base_def)
  note i = invalid_conflicts [OF bal_inv tx(1)]
  note snoc = ledger_snoc [OF inv h(2)]
  have grow: "unspent w0 (insert h (invalidTx w)) (pendingTx w) ps = utxos w"
    "unspent w0 (invalidTx w) (insert h (pendingTx w)) ps = utxos w"
    unfolding ut using h(2) by (auto intro!: unspent_cong)
  have paid: "paid_addresses w0 skip (ps @ [h]) = usedAddrs w \<union>
      (if h \<in> skip then {} else out_address ` set (outputs tx) - {[]})"
    if "skip - {h} = invalidTx w \<union> pendingTx w - {h}" for skip
    unfolding ua by (rule paid_snoc) (use that h(2) tx(1) in auto)
  let ?w1 = "w\<lparr>spentOutputs := spentOutputs w \<union> utxo_of ` set (inputs tx)\<rparr>"
  have p: "tx_pending now ?w1 tx \<longleftrightarrow> held_back now w0 (pendingTx w) ps h"
    by (rule pending_held_back [OF bal_inv tx(1)]) simp_all
  consider (invalid) "tx_invalid w tx" | (pending) "\<not> tx_invalid w tx" "tx_pending now ?w1 tx"
    | (counted) "\<not> tx_invalid w tx" "\<not> tx_pending now ?w1 tx" by blast
  then show ?thesis
  proof cases
    case invalid
    then have "s' = (w\<lparr>invalidTx := insert h (invalidTx w), balanceHist := balanceHist w @ [bal]\<rparr>, bal, bal)"
      using step(1) wtx pv by (simp add: balance_step_def)
    then show ?thesis
      using invalid i grow(1) nh sum tot paid [of "insert h (invalidTx w) \<union> pendingTx w"]
      by (auto simp: unspent_skipped intro!: snoc [of "insert h (invalidTx w)" "pendingTx w"])
  next
    case pending
    then have "s' = (?w1\<lparr>pendingTx := insert h (pendingTx w), balanceHist := balanceHist w @ [bal]\<rparr>, bal, bal)"
      using step(1) wtx pv by (simp add: balance_step_def)
    then show ?thesis
      using pending i p grow(2) nh sum tot paid [of "invalidTx w \<union> insert h (pendingTx w)"]
      by (auto simp: unspent_skipped intro!: snoc [of "invalidTx w" "insert h (pendingTx w)"])
  next
    case counted
    let ?new = "new_utxos w0 tx (length (outputs tx))"
    have b1: "same_base ?w1 w0" using base by (simp add: same_base_def)
    have new_eq: "new_utxos ?w1 tx = new_utxos w0 tx"
      using same_base_cong(2) [OF b1] by (simp add: new_utxos_def fun_eq_iff)
    obtain used where add: "foldl (output_added tx) (?w1, bal) [0..<length (outputs tx)] =
        (?w1\<lparr>usedAddrs := used, utxos := utxos w @ ?new\<rparr>, bal + utxo_sum w0 ?new)" (is "_ = (?w2, ?b2)")
      using outputs_added [of ?w1 tx "length (outputs tx)" bal] wtx tx same_base_cong(4) [OF b1]
      by (auto simp: new_eq)
    obtain us b where sp: "spend_loop ?w2 (utxos ?w2) ?b2 = Some (us, b)"
      and s': "s' = (?w2\<lparr>utxos := us,
             totalReceived := (if prev < b then totalReceived w + (b - prev) else totalReceived w),
             totalSent := (if b < prev then totalSent w + (prev - b) else totalSent w),
             balanceHist := balanceHist w @ [b]\<rparr>, b, b)"
      using step(1) counted wtx add by (auto simp: balance_step_def Let_def bind_eq_Some_conv)
    have b2: "same_base ?w2 w0" using base by (simp add: same_base_def)
    have "\<forall>u\<in>set (utxos ?w2). utxo_output ?w2 u \<noteq> None"
      using bal_inv new_utxos_ok(1) [of w0 tx "length (outputs tx)"] tx
      unfolding same_base_cong(1) [OF b2] by (auto simp: balance_inv_def utxo_ok_def)
    from spend_loop_eq [OF this] have us: "us = filter (\<lambda>u. u \<notin> spentOutputs ?w1) (utxos w @ ?new)"
      using sp by simp
    have "spentOutputs ?w1 = \<Union> (tx_inputs w0 ` (set (ps @ [h]) - invalidTx w))"
      using bal_inv nh(1) tx(1) by (auto simp: balance_inv_def tx_inputs_def)
    moreover have "wallet_outputs w0 h = ?new"
      using tx by (simp add: wallet_outputs_def new_utxos_def wallet_output_def)
    ultimately have us': "us = unspent w0 (invalidTx w) (pendingTx w) (ps @ [h])"
      unfolding us ut using nh by (subst unspent_counted) simp_all
    have "b = utxo_sum w0 us" using step(2) s' by (simp add: balance_inv_def)
    moreover have "totalReceived (fst s') = b + totalSent (fst s')"
      using tot pv by (cases "b < bal") (auto simp: s' algebra_simps dest: order_less_not_sym)
    moreover have "usedAddrs ?w2 = paid_addresses w0 (invalidTx w \<union> pendingTx w) (ps @ [h])"
      using outputs_added_used [of tx "(?w1, bal)" "[0..<length (outputs tx)]"] nh unfolding add
      by (subst paid) (simp_all add: nth_image)
    ultimately show ?thesis
      unfolding s' using counted i p nh us' by (intro snoc) simp_all
  qed
qed

lemma ledger_loop:
  assumes "balance_loop now s hs = Some s'" "balance_inv w0 ps s" "ledger_inv now w0 ps s"
    "store_ok w0" "set hs \<subseteq> dom (allTx w0)" "distinct (ps @ hs)"
  shows "ledger_inv now w0 (ps @ hs) s'"
  using assms
proof (induction hs arbitrary: ps s)
  case (Cons h hs)
  obtain w bal prev where s: "s = (w, bal, prev)" by (cases s)
  obtain t where t: "balance_step now s h = Some t" "balance_inv w0 (ps @ [h]) t"
    using balance_inv_step [of w0 ps w bal prev h now] Cons.prems s by auto
  then have "ledger_inv now w0 (ps @ [h]) t"
    using ledger_step [of w0 ps w bal prev now h t] Cons.prems s by simp
  then show ?case using Cons.IH [OF _ t(2)] t Cons.prems by simp
qed simp

lemma update_ledger:
  assumes "store_ok w" "BRWalletUpdateBalance now w = Some w'"
  shows "ledger_inv now w (transactions w) (w', balance w', balance w')"
proof -
  obtain v bal prev where v: "balance_loop now (balance_start w, 0, 0) (transactions w) = Some (v, bal, prev)"
    "w' = v\<lparr>balance := bal\<rparr>"
    using assms(2) by (auto simp: BRWalletUpdateBalance_def bind_eq_Some_conv split: if_splits)
  have "ledger_inv now w (transactions w) (v, bal, prev)"
    using ledger_loop [OF v(1) balance_inv_start ledger_start assms(1)] assms(1) by (simp add: store_ok_def)
  then show ?thesis by (simp add: ledger_inv_def v(2))
qed

end
