(* ===== verification/WalletProperties.thy ===== *)
theory WalletProperties
  imports WalletAddrs WalletLedger
begin

text \<open>
  The properties of the wallet: the invariant of every reachable state, what the balance is, that
  double spends do not count, and what the address chains hold.
\<close>

section \<open>Balance and transactions\<close>

lemma reachable_steps: "(wallet_step testnet S)\<^sup>*\<^sup>* w v \<Longrightarrow> reachable testnet S w \<Longrightarrow> reachable testnet S v"
  by (induction rule: rtranclp_induct) (auto intro: reachable_step)

text \<open>
  C3: take a wallet that \<open>BRWalletNew\<close> made of transactions that all belong to it, which it checks for
  the first one only, each with fewer than \<open>2 ^ 32\<close> outputs. After any sequence of operations the
  balance is the sum of the unspent outputs, which are different outputs of known transactions to
  addresses of the wallet; the transactions are different, known under their hashes, sorted by
  height, and belong to the wallet; the history of the balance has one entry for each; and the
  addresses known to the wallet are those of its two chains.\<close>

theorem wallet_invariant:
  assumes new: "BRWalletNew testnet S moved now txs mpk = Some (Some w0)"
    "list_all (\<lambda>tx. length (outputs tx) < 2 ^ 32) txs"
    and belong: "list_all (\<lambda>h. case allTx w0 h of None \<Rightarrow> False | Some tx \<Rightarrow> BRWalletContainsTransaction w0 tx)
      (transactions w0)"
    and steps: "(wallet_step testnet S)\<^sup>*\<^sup>* w0 w"
  shows "BRWalletBalance w = utxo_sum w (utxos w) \<and> distinct (utxos w) \<and>
    list_all (\<lambda>u. case utxo_output w u of None \<Rightarrow> False
      | Some out \<Rightarrow> BRWalletContainsAddress w (out_address out)) (utxos w) \<and>
    distinct (transactions w) \<and>
    list_all (\<lambda>h. case allTx w h of None \<Rightarrow> False
      | Some tx \<Rightarrow> txHash tx = h \<and> BRWalletContainsTransaction w tx) (transactions w) \<and>
    sorted (map (\<lambda>h. blockHeight (the (allTx w h))) (transactions w)) \<and>
    length (balanceHist w) = length (transactions w) \<and>
    allAddrs w = set (internalChain w) \<union> set (externalChain w)"
proof -
  have "owned w0" using belong by (fastforce simp: owned_def list_all_iff BRWalletContainsTransaction_def)
  then have "reachable testnet S w" using reachable_steps [OF steps reachable_new [OF new(1) _ new(2)]] by blast
  note ok = reachable_ok [OF this, unfolded wallet_ok_def list_ok_def addrs_ok_def funds_ok_def]
  have kn: "\<exists>tx. allTx w h = Some tx \<and> txHash tx = h \<and> BRWalletContainsTx w tx" if "h \<in> set (transactions w)" for h
    using ok that unfolding store_ok_def owned_def by blast
  then have "map (\<lambda>h. blockHeight (the (allTx w h))) (transactions w) = map (tx_height w) (transactions w)"
    by (fastforce simp: tx_height_def)
  then have "sorted (map (\<lambda>h. blockHeight (the (allTx w h))) (transactions w))"
    using ok by (simp only: order_ok_def)
  moreover have "list_all (\<lambda>h. case allTx w h of None \<Rightarrow> False
      | Some tx \<Rightarrow> txHash tx = h \<and> BRWalletContainsTransaction w tx) (transactions w)"
    using kn by (fastforce simp: list_all_iff BRWalletContainsTransaction_def)
  moreover have "list_all (\<lambda>u. case utxo_output w u of None \<Rightarrow> False
      | Some out \<Rightarrow> BRWalletContainsAddress w (out_address out)) (utxos w)"
    using ok by (fastforce simp: list_all_iff utxo_ok_def wallet_output_def BRWalletContainsAddress_def)
  ultimately show ?thesis using ok by (simp add: store_ok_def BRWalletBalance_def)
qed

text \<open>A new wallet, whose fee is set.\<close>

theorem wallet_invariant_witness:
  "\<exists>w0 w. BRWalletNew False integer_secp False 0 [] sample_mpk = Some (Some w0) \<and>
    (wallet_step False integer_secp)\<^sup>*\<^sup>* w0 w \<and> BRWalletFeePerKb w = 7 \<and>
    BRWalletBalance w = utxo_sum w (utxos w) \<and> allAddrs w = set (internalChain w) \<union> set (externalChain w)"
proof -
  obtain w0 where w0: "BRWalletNew False integer_secp False 0 [] sample_mpk = Some (Some w0)" "transactions w0 = []"
    using new_wallet [OF integer_secp_ok sample_mpk_ok] by blast
  have s: "(wallet_step False integer_secp)\<^sup>*\<^sup>* w0 (BRWalletSetFeePerKb w0 7)"
    by (rule r_into_rtranclp, rule step_fee)
  show ?thesis
    using wallet_invariant [OF w0(1) _ _ s] w0 s
    by (intro exI [of _ w0] exI [of _ "BRWalletSetFeePerKb w0 7"]) (simp add: BRWalletFeePerKb_def BRWalletSetFeePerKb_def)
qed

text \<open>
  C4: for different known transactions, each kept under its hash with fewer than \<open>2 ^ 32\<close> outputs,
  \<open>_BRWalletUpdateBalance\<close> returns. A transaction is marked invalid exactly when it conflicts with
  the ones before it, and pending exactly when it is not invalid and held back; the others count. The
  unspent outputs are exactly, and in this order, the outputs of counted transactions to the wallet
  that no transaction spends which is not invalid and not behind the last counted one; the balance is
  their sum, its history holds the same sum after each transaction, the total received is the
  balance and the total sent, and the used addresses are those of counted transactions.\<close>

theorem update_balance_correct:
  assumes "store_ok w"
  shows "\<exists>w'. BRWalletUpdateBalance now w = Some w' \<and>
    (let ts = transactions w; bad = invalidTx w'; wait = pendingTx w' in
      bad \<subseteq> set ts \<and> wait \<subseteq> set ts \<and>
      (\<forall>i<length ts. (ts ! i \<in> bad \<longleftrightarrow> conflicts w bad (take i ts) (ts ! i)) \<and>
        (ts ! i \<in> wait \<longleftrightarrow> ts ! i \<notin> bad \<and> held_back now w wait (take i ts) (ts ! i))) \<and>
      utxos w' = unspent w bad wait ts \<and> distinct (utxos w') \<and>
      balance w' = utxo_sum w (utxos w') \<and>
      balanceHist w' = map (\<lambda>n. utxo_sum w (unspent w bad wait (take (Suc n) ts))) [0..<length ts] \<and>
      totalReceived w' = balance w' + totalSent w' \<and>
      usedAddrs w' = paid_addresses w (bad \<union> wait) ts)"
proof -
  obtain w' prev where w': "BRWalletUpdateBalance now w = Some w'"
    "balance_inv w (transactions w) (w', balance w', prev)"
    using update_balance [OF assms] by blast
  then show ?thesis
    using update_ledger [OF assms w'(1)]
    by (intro exI [of _ w']) (simp add: balance_inv_def ledger_inv_def Let_def)
qed

definition coin :: BRTransaction where
  "coin = \<lparr>txHash = 9, tx_version = 1, inputs = [],
     outputs = [\<lparr>out_address = [0x41], out_amount = 70000, out_script = None\<rparr>],
     lockTime = 0, blockHeight = 5, tx_timestamp = 0\<rparr>"

definition coin_wallet :: BRWallet where
  "coin_wallet = (wallet_calloc sample_mpk)\<lparr>allTx := [9 \<mapsto> coin], transactions := [9], allAddrs := {[0x41]}\<rparr>"

lemma coin_wallet_store: "store_ok coin_wallet"
  by (simp add: store_ok_def coin_wallet_def coin_def wallet_calloc_def)

theorem update_balance_correct_witness:
  "\<exists>w'. BRWalletUpdateBalance 0 coin_wallet = Some w' \<and> balance w' = utxo_sum coin_wallet (utxos w') \<and>
    utxos w' = unspent coin_wallet {} {} [9] \<and> balance w' = 70000"
proof -
  have "balance w' = 70000 \<and> invalidTx w' = {} \<and> pendingTx w' = {}" if "BRWalletUpdateBalance 0 coin_wallet = Some w'" for w'
    using that
    by (auto simp: BRWalletUpdateBalance_def coin_wallet_def coin_def wallet_calloc_def balance_start_def
        balance_step_def tx_invalid_def tx_pending_def output_added_def wallet_output_def Let_def TX_UNCONFIRMED_def)
  moreover have "transactions coin_wallet = [9]" by (simp add: coin_wallet_def)
  ultimately show ?thesis using update_balance_correct [OF coin_wallet_store, of 0] unfolding Let_def by metis
qed

text \<open>
  C5: after an update of the balance, an unconfirmed transaction that is not marked invalid spends no
  output that a transaction before it in the list spends which is not invalid either: of two
  unconfirmed transactions of the wallet that spend the same output, at most one is valid.\<close>

theorem double_spend_invalid:
  assumes "store_ok w" "BRWalletUpdateBalance now w = Some w'"
    and "i < j" "j < length (transactions w)"
    and "transactions w ! i \<notin> invalidTx w'" "transactions w ! j \<notin> invalidTx w'"
    and "unconfirmed w (transactions w ! j)"
  shows "tx_inputs w (transactions w ! i) \<inter> tx_inputs w (transactions w ! j) = {}"
  using update_balance_no_double_spend [OF assms(1,2)] assms(3-) unfolding no_double_spend_def by blast

definition spend_coin :: "UInt256 \<Rightarrow> u32 \<Rightarrow> BRTransaction" where
  "spend_coin h n = \<lparr>txHash = h, tx_version = 1,
     inputs = [\<lparr>in_txHash = 9, in_index = n, in_address = [], in_amount = 0, in_script = None, in_signature = SigAlloc [1],
       in_sequence = 0xffffffff\<rparr>],
     outputs = [], lockTime = 0, blockHeight = TX_UNCONFIRMED, tx_timestamp = 0\<rparr>"

definition spend_wallet :: BRWallet where
  "spend_wallet = (wallet_calloc sample_mpk)\<lparr>
     allTx := [1 \<mapsto> spend_coin 1 0, 2 \<mapsto> spend_coin 2 1, 3 \<mapsto> spend_coin 3 1], transactions := [1, 2, 3]\<rparr>"

lemma spend_wallet_store: "store_ok spend_wallet"
  by (simp add: store_ok_def spend_wallet_def spend_coin_def wallet_calloc_def)

lemma spend_coin_facts:
  "outputs (spend_coin h n) = []" "inputs (spend_coin h n) \<noteq> []"
  "tx_invalid v (spend_coin h n) \<longleftrightarrow> \<lparr>utxo_hash = 9, utxo_n = n\<rparr> \<in> spentOutputs v \<or> 9 \<in> invalidTx v"
  "utxo_of ` set (inputs (spend_coin h n)) = {\<lparr>utxo_hash = 9, utxo_n = n\<rparr>}"
  "pendingTx v = {} \<Longrightarrow> \<not> tx_pending 0 v (spend_coin h n)"
  by (simp_all add: spend_coin_def tx_invalid_def utxo_of_def tx_pending_def BRTransactionSize_def lock_pending_def
      TX_MAX_SIZE_def varint_enc_def TX_INPUT_SIZE_def script_bytes_def)

lemma spend_wallet_balance:
  "\<exists>w'. BRWalletUpdateBalance 0 spend_wallet = Some w' \<and> invalidTx w' = {3}"
proof -
  have "allTx spend_wallet 1 = Some (spend_coin 1 0)" "allTx spend_wallet 2 = Some (spend_coin 2 1)"
    "allTx spend_wallet 3 = Some (spend_coin 3 1)" "transactions spend_wallet = [1, 2, 3]"
    by (simp_all add: spend_wallet_def wallet_calloc_def)
  then show ?thesis
    by (simp add: BRWalletUpdateBalance_def balance_start_def balance_step_def Let_def spend_coin_facts)
qed

theorem double_spend_invalid_witness:
  "tx_inputs spend_wallet 1 \<inter> tx_inputs spend_wallet 2 = {}"
proof -
  obtain w' where "BRWalletUpdateBalance 0 spend_wallet = Some w'" "invalidTx w' = {3}"
    using spend_wallet_balance by blast
  moreover have "transactions spend_wallet = [1, 2, 3]" "unconfirmed spend_wallet 2"
    by (simp_all add: spend_wallet_def wallet_calloc_def unconfirmed_def spend_coin_def)
  ultimately show ?thesis using double_spend_invalid [OF spend_wallet_store, of 0 w' 0 1] by simp
qed

section \<open>Addresses\<close>

text \<open>
  C24: in every reachable state, the address at each position of a chain is the one derived from the
  master public key for this position; it is a valid address that fits a \<open>BRAddress\<close> with its
  terminator, and the wallet knows it.\<close>

theorem wallet_addresses_derived:
  assumes "reachable testnet S w"
  shows "map (chain_address testnet S (masterPubKey w) SEQUENCE_EXTERNAL_CHAIN) [0..<length (externalChain w)] =
      map (Some \<circ> Some) (externalChain w) \<and>
    map (chain_address testnet S (masterPubKey w) SEQUENCE_INTERNAL_CHAIN) [0..<length (internalChain w)] =
      map (Some \<circ> Some) (internalChain w) \<and>
    list_all (\<lambda>a. BRAddressIsValid testnet a \<and> length a < 36 \<and> BRWalletContainsAddress w a)
      (internalChain w @ externalChain w)"
proof -
  have d: "derived testnet S (masterPubKey w) SEQUENCE_INTERNAL_CHAIN (internalChain w)"
    "derived testnet S (masterPubKey w) SEQUENCE_EXTERNAL_CHAIN (externalChain w)"
    using reachable_chains [OF assms] by (simp_all add: chains_ok_def)
  have m: "map (chain_address testnet S mpk c) [0..<length as] = map (Some \<circ> Some) as"
    if "derived testnet S mpk c as" for mpk c as
    using that by (intro nth_equalityI) (simp_all add: derived_def)
  have v: "list_all (\<lambda>a. BRAddressIsValid testnet a \<and> length a < 36) as" if "derived testnet S mpk c as" for mpk c as
    using that chain_address_valid unfolding derived_def list_all_length by blast
  have "allAddrs w = set (internalChain w) \<union> set (externalChain w)"
    using reachable_ok [OF assms] by (simp add: wallet_ok_def addrs_ok_def)
  then show ?thesis
    using m [OF d(1)] m [OF d(2)] v [OF d(1)] v [OF d(2)] by (auto simp: list_all_iff BRWalletContainsAddress_def)
qed

theorem wallet_addresses_derived_witness:
  "\<exists>w. reachable False integer_secp w \<and>
    map (chain_address False integer_secp (masterPubKey w) SEQUENCE_EXTERNAL_CHAIN) [0..<length (externalChain w)] =
      map (Some \<circ> Some) (externalChain w)"
  using reachable_sample wallet_addresses_derived by blast

text \<open>
  C25: when \<open>BRWalletUnusedAddrs\<close> returns for a reachable wallet, it has written \<open>gapLimit\<close> consecutive
  addresses of the chain that come right after the last used one, and neither these nor any later
  address of the chain is used; or it has written nothing, because the next address of the chain
  cannot be derived.\<close>

theorem unused_addrs_gap:
  assumes "reachable testnet S w"
    "BRWalletUnusedAddrs testnet S moved w gapLimit internal = Some (w', written)"
  defines "as \<equiv> if internal then internalChain w' else externalChain w'"
  shows "\<exists>i. (i = 0 \<or> as ! (i - 1) \<in> usedAddrs w) \<and> set (drop i as) \<inter> usedAddrs w = {} \<and>
    ((length written = gapLimit \<and> written = take gapLimit (drop i as)) \<or>
     (written = [] \<and> chain_address testnet S (masterPubKey w)
        (if internal then SEQUENCE_INTERNAL_CHAIN else SEQUENCE_EXTERNAL_CHAIN) (length as) = Some None))"
proof -
  obtain i where "gap_from w i as" "written = (if i + gapLimit \<le> length as then take gapLimit (drop i as) else [])"
    "length as < i + gapLimit \<longrightarrow> chain_address testnet S (masterPubKey w)
        (if internal then SEQUENCE_INTERNAL_CHAIN else SEQUENCE_EXTERNAL_CHAIN) (length as) = Some None"
    using unused_addrs_result(2) [OF reachable_chains [OF assms(1)] assms(2)] unfolding as_def by blast
  then show ?thesis by (intro exI [of _ i]) (auto simp: gap_from_def)
qed

theorem unused_addrs_gap_witness:
  "\<exists>w w' written. reachable False integer_secp w \<and>
    BRWalletUnusedAddrs False integer_secp False w 3 True = Some (w', written) \<and> length written \<in> {0, 3}"
proof -
  obtain w where w: "reachable False integer_secp w" "usedAddrs w = {}" "masterPubKey w = sample_mpk"
    using reachable_sample by blast
  obtain w' written where r: "BRWalletUnusedAddrs False integer_secp False w 3 True = Some (w', written)"
    using unused_addrs_returns [OF integer_secp_ok, of w 3 True "length (internalChain w)" False False] w sample_mpk_ok
    by auto
  from unused_addrs_gap [OF w(1) r] show ?thesis using w(1) r by auto
qed

text \<open>
  C26: \<open>BRWalletUnusedAddrs\<close> returns, under the laws of the curve library and for a master public key
  of 33 bytes, as soon as some stretch of \<open>gapLimit\<close> positions beyond the chain has no used address.\<close>

theorem unused_addrs_return:
  assumes "secp_ok S" "length (mpk_pubKey (masterPubKey w)) = 33" "masterPubKey w \<noteq> BR_MASTER_PUBKEY_NONE"
    and "gapLimit > 0" "length (if internal then internalChain w else externalChain w) \<le> n"
    and "\<And>j a. n \<le> j \<Longrightarrow> j < n + gapLimit \<Longrightarrow> chain_address testnet S (masterPubKey w)
        (if internal then SEQUENCE_INTERNAL_CHAIN else SEQUENCE_EXTERNAL_CHAIN) j = Some (Some a) \<Longrightarrow> a \<notin> usedAddrs w"
  shows "\<exists>w' written. BRWalletUnusedAddrs testnet S moved w gapLimit internal = Some (w', written)"
  by (rule unused_addrs_returns [OF assms(1) _ assms(4-6)]) (use assms(2,3) in \<open>auto simp: mpk_ok_def\<close>)

theorem unused_addrs_return_witness:
  "\<exists>w' written. BRWalletUnusedAddrs False integer_secp False (wallet_calloc sample_mpk) 10 False = Some (w', written)"
  by (rule unused_addrs_return [OF integer_secp_ok, of _ _ _ 0])
    (simp_all add: wallet_calloc_def sample_mpk_def BR_MASTER_PUBKEY_NONE_def)

end
