(* ===== verification/WalletCreate.thy ===== *)
theory WalletCreate
  imports WalletAddrs
begin

text \<open>
  The transactions that the wallet creates: the last attempt they come from, the inputs that the loop
  adds, and that they cannot be signed.
\<close>

section \<open>The last attempt\<close>

text \<open>
  \<open>BRWalletCreateTxForOutputs\<close> calls itself with smaller outputs when the transaction becomes too
  large; what it returns comes from the last of these calls.
\<close>

definition spends_enough ::
  "bool \<Rightarrow> BRWallet \<Rightarrow> BRTxOutput list \<Rightarrow> BRTransaction \<Rightarrow> u64 \<Rightarrow> u64 \<Rightarrow> bool" where
  "spends_enough testnet w outs tx bal fee \<longleftrightarrow> (let amount = sum_list (map out_amount outs) in
     create_loop testnet w amount (BRWalletMinOutputAmount w) (utxos w) (tx_for_outputs testnet outs) 0
       (txFee (feePerKb w) (of_nat (BRTransactionSize (tx_for_outputs testnet outs) + TX_OUTPUT_SIZE))) =
     Some (False, tx, bal, fee) \<and> amount + fee \<le> bal)"

definition last_attempt ::
  "bool \<Rightarrow> ('k, 's, 'r) secp \<Rightarrow> bool \<Rightarrow> BRWallet \<Rightarrow> BRTxOutput list \<Rightarrow> BRTransaction \<Rightarrow> bool" where
  "last_attempt testnet S moved w outs tx \<longleftrightarrow> (\<exists>t bal fee. spends_enough testnet w outs t bal fee \<and>
     (let change = bal - (sum_list (map out_amount outs) + fee) in
      if change > BRWalletMinOutputAmount w
      then \<exists>w' rs rs'. add_change testnet S moved w rs t change = Some (w', tx, rs')
      else tx = t))"

text \<open>\<open>J\<close> is what the smaller outputs keep.\<close>

lemma create_inv:
  assumes "BRWalletCreateTxForOutputs testnet S moved w rs outs = Some r" "fst (snd r) = Some tx" "J testnet w outs"
    and J: "\<And>testnet w outs t bal fee. J testnet w outs \<Longrightarrow> outs \<noteq> [] \<Longrightarrow>
      create_loop testnet w (sum_list (map out_amount outs)) (BRWalletMinOutputAmount w) (utxos w)
        (tx_for_outputs testnet outs) 0
        (txFee (feePerKb w) (of_nat (BRTransactionSize (tx_for_outputs testnet outs) + TX_OUTPUT_SIZE))) =
        Some (True, t, bal, fee) \<Longrightarrow>
      J testnet w (smaller_outputs outs (sum_list (map out_amount outs)) fee (BRWalletMinOutputAmount w) bal)"
  shows "\<exists>outs'. J testnet w outs' \<and> last_attempt testnet S moved w outs' tx"
proof -
  let ?P = "\<lambda>testnet S moved w rs outs r. \<forall>tx. J testnet w outs \<longrightarrow> fst (snd r) = Some tx \<longrightarrow>
    (\<exists>outs'. J testnet w outs' \<and> last_attempt testnet S moved w outs' tx)"
  have "?P testnet S moved w rs outs r"
  proof (rule BRWalletCreateTxForOutputs.raw_induct [where P = ?P, OF _ assms(1)], intro allI impI)
    fix rec :: "bool \<Rightarrow> ('k, 's, 'r) secp \<Rightarrow> bool \<Rightarrow> BRWallet \<Rightarrow> u32 list \<Rightarrow> BRTxOutput list \<Rightarrow>
        (BRWallet \<times> BRTransaction option \<times> u32 list) option"
      and testnet S moved and w :: BRWallet and rs and outs :: "BRTxOutput list" and r tx
    define amount where "amount = sum_list (map out_amount outs)"
    define fee0 where "fee0 = txFee (feePerKb w) (of_nat (BRTransactionSize (tx_for_outputs testnet outs) + TX_OUTPUT_SIZE))"
    define m where "m = BRWalletMinOutputAmount w"
    assume IH: "\<And>testnet S moved w rs outs r. rec testnet S moved w rs outs = Some r \<Longrightarrow> ?P testnet S moved w rs outs r"
      and eq: "(if outs = [] \<or> list_ex (\<lambda>out. script_bytes (out_script out) = []) outs then None
        else
          let transaction = tx_for_outputs testnet outs;
              amount = sum_list (map out_amount outs);
              minAmount = BRWalletMinOutputAmount w;
              fee = txFee (feePerKb w) (of_nat (BRTransactionSize transaction + TX_OUTPUT_SIZE))
          in case create_loop testnet w amount minAmount (utxos w) transaction 0 fee of
               None \<Rightarrow> None
             | Some (tooLarge, transaction, bal, fee) \<Rightarrow>
                 if tooLarge then
                   (if balance w < amount + txFee (feePerKb w)
                         (of_nat (10 + length (utxos w) * TX_INPUT_SIZE + (length outs + 1) * TX_OUTPUT_SIZE))
                    then Some (w, None, rs)
                    else rec testnet S moved w rs (smaller_outputs outs amount fee minAmount bal))
                 else if bal < amount + fee then Some (w, None, rs)
                 else if minAmount < bal - (amount + fee) then
                   (case add_change testnet S moved w rs transaction (bal - (amount + fee)) of
                      None \<Rightarrow> None
                    | Some (wallet, tx, rs) \<Rightarrow> Some (wallet, Some tx, rs))
                 else Some (w, Some transaction, rs)) = Some r"
      and j: "J testnet w outs" and r: "fst (snd r) = Some tx"
    have ne: "outs \<noteq> []" using eq by auto
    note eq' = eq [unfolded Let_def, folded amount_def, folded fee0_def m_def]
    obtain tooLarge t bal fee where l: "create_loop testnet w amount m (utxos w)
        (tx_for_outputs testnet outs) 0 fee0 = Some (tooLarge, t, bal, fee)"
      using eq' by (auto split: if_splits option.splits)
    show "\<exists>outs'. J testnet w outs' \<and> last_attempt testnet S moved w outs' tx"
    proof (cases tooLarge)
      case True
      then have "rec testnet S moved w rs (smaller_outputs outs amount fee m bal) = Some r"
        using eq' l r ne by (auto split: if_splits)
      moreover have "J testnet w (smaller_outputs outs amount fee m bal)"
        by (rule J [where testnet = testnet and t = t, OF j ne, folded amount_def m_def, folded fee0_def]) (use l True in simp)
      ultimately show ?thesis using IH r by blast
    next
      case False
      then have "create_loop testnet w amount m (utxos w) (tx_for_outputs testnet outs) 0 fee0 = Some (False, t, bal, fee) \<and>
          amount + fee \<le> bal"
        using eq' l r ne by (auto split: if_splits)
      then have "spends_enough testnet w outs t bal fee"
        by (simp only: spends_enough_def Let_def amount_def m_def fee0_def)
      moreover have "if bal - (amount + fee) > m
          then \<exists>w' rs rs'. add_change testnet S moved w rs t (bal - (amount + fee)) = Some (w', tx, rs') else tx = t"
        using eq' l r ne False by (auto split: if_splits option.splits) blast
      ultimately show ?thesis using j unfolding last_attempt_def Let_def amount_def m_def by blast
    qed
  qed
  then show ?thesis using assms(2,3) by blast
qed

section \<open>The inputs\<close>

text \<open>An input as \<open>BRTransactionAddInput\<close> leaves it without a signature.\<close>

definition stray :: "BRTxInput \<Rightarrow> bool" where
  "stray inp \<longleftrightarrow> in_sequence inp = 0 \<and> (\<exists>s. in_signature inp = SigStray s)"

lemma add_input:
  assumes "BRTransactionAddInput testnet tx h n amount script None TXIN_SEQUENCE = Some tx'"
  shows "\<exists>inp. tx' = tx\<lparr>inputs := inputs tx @ [inp]\<rparr> \<and> stray inp \<and> utxo_of inp = \<lparr>utxo_hash = h, utxo_n = n\<rparr>"
  using assms by (auto simp: BRTransactionAddInput_def new_input_def BRTxInputSetScript_def TXIN_SEQUENCE_def stray_def
      utxo_of_def Let_def split: if_splits)

text \<open>The fee after a change output was added, rounded so that the rest of the balance is even.\<close>

definition rounded_fee :: "BRWallet \<Rightarrow> u64 \<Rightarrow> BRTransaction \<Rightarrow> u64" where
  "rounded_fee w amount tx = (let fee = txFee (feePerKb w) (of_nat (BRTransactionSize tx + TX_OUTPUT_SIZE)) in
     if balance w > amount + fee then fee + (balance w - (amount + fee)) mod 100 else fee)"

text \<open>The fee of some transaction that is not too large.\<close>

definition proper_fee :: "BRWallet \<Rightarrow> u64 \<Rightarrow> u64 \<Rightarrow> bool" where
  "proper_fee w amount fee \<longleftrightarrow>
     (\<exists>t. fee = rounded_fee w amount t \<and> BRTransactionSize t + TX_OUTPUT_SIZE \<le> TX_MAX_SIZE)"

lemma create_loop_inputs:
  assumes "create_loop testnet w amount m us tx bal fee = Some (tooLarge, tx', bal', fee')"
    "\<forall>u\<in>set us. utxo_output w u \<noteq> None"
  shows "\<exists>inps. tx' = tx\<lparr>inputs := inputs tx @ inps\<rparr> \<and> list_all stray inps \<and>
    map utxo_of inps = take (length inps) us \<and>
    bal' = bal + utxo_sum w (if tooLarge then butlast (map utxo_of inps) else map utxo_of inps) \<and>
    (if inps = [] then \<not> tooLarge \<and> fee' = fee
     else tooLarge \<or> fee' = rounded_fee w amount tx' \<and> BRTransactionSize tx' + TX_OUTPUT_SIZE \<le> TX_MAX_SIZE) \<and>
    (fee' = fee \<or> proper_fee w amount fee')"
  using assms
proof (induction us arbitrary: tx bal fee)
  case (Cons u us)
  obtain out where out: "utxo_output w u = Some out" using Cons.prems(2) by auto
  then have am: "amount_of w u = out_amount out" by (simp add: amount_of_def)
  obtain tx1 where tx1: "BRTransactionAddInput testnet tx (utxo_hash u) (utxo_n u) (out_amount out) (out_script out)
      None TXIN_SEQUENCE = Some tx1"
    using Cons.prems(1) out by (auto simp: bind_eq_Some_conv)
  then obtain inp where inp: "tx1 = tx\<lparr>inputs := inputs tx @ [inp]\<rparr>" "stray inp" "utxo_of inp = u"
    using add_input by fastforce
  define fee1 where "fee1 = rounded_fee w amount tx1"
  define stop where "stop \<longleftrightarrow> bal + out_amount out = amount + fee1 \<or> bal + out_amount out \<ge> amount + fee1 + m"
  have eq: "(if BRTransactionSize tx1 + TX_OUTPUT_SIZE > TX_MAX_SIZE then Some (True, tx1, bal, fee)
      else if stop then Some (False, tx1, bal + out_amount out, fee1)
      else create_loop testnet w amount m us tx1 (bal + out_amount out) fee1) = Some (tooLarge, tx', bal', fee')"
    using Cons.prems(1)
    unfolding create_loop.simps out option.case tx1 Option.bind.bind_lunit stop_def fee1_def rounded_fee_def Let_def .
  consider "BRTransactionSize tx1 + TX_OUTPUT_SIZE > TX_MAX_SIZE" "tooLarge" "tx' = tx1" "bal' = bal" "fee' = fee"
    | "BRTransactionSize tx1 + TX_OUTPUT_SIZE \<le> TX_MAX_SIZE" "\<not> tooLarge" "tx' = tx1" "bal' = bal + out_amount out" "fee' = fee1"
    | "BRTransactionSize tx1 + TX_OUTPUT_SIZE \<le> TX_MAX_SIZE"
      "create_loop testnet w amount m us tx1 (bal + out_amount out) fee1 = Some (tooLarge, tx', bal', fee')"
    using eq by (cases "BRTransactionSize tx1 + TX_OUTPUT_SIZE > TX_MAX_SIZE"; cases stop) (simp_all add: not_less)
  then show ?case
  proof cases
    case 3
    obtain inps where i: "tx' = tx1\<lparr>inputs := inputs tx1 @ inps\<rparr>" "list_all stray inps"
      "map utxo_of inps = take (length inps) us"
      "bal' = bal + out_amount out + utxo_sum w (if tooLarge then butlast (map utxo_of inps) else map utxo_of inps)"
      "if inps = [] then \<not> tooLarge \<and> fee' = fee1
       else tooLarge \<or> fee' = rounded_fee w amount tx' \<and> BRTransactionSize tx' + TX_OUTPUT_SIZE \<le> TX_MAX_SIZE"
      "fee' = fee1 \<or> proper_fee w amount fee'"
      using Cons.IH [OF 3(2)] Cons.prems(2) by auto
    moreover have "proper_fee w amount fee1" using 3(1) by (auto simp: fee1_def proper_fee_def)
    ultimately have "proper_fee w amount fee'" by blast
    then show ?thesis using i(1-5) inp am 3(1)
      by (intro exI [of _ "inp # inps"]) (auto simp: fee1_def utxo_sum_def split: if_splits)
  qed (use inp am in \<open>auto intro!: exI [of _ "[inp]"] simp: fee1_def utxo_sum_def proper_fee_def\<close>)
qed simp

lemma tx_for_outputs_eq:
  "tx_for_outputs testnet outs = BRTransactionNew\<lparr>outputs := map (\<lambda>out. BRTxOutputSetScript testnet (out_script out)
     \<lparr>out_address = [], out_amount = out_amount out, out_script = None\<rparr>) outs\<rparr>"
proof -
  have "foldl (\<lambda>tx out. BRTransactionAddOutput testnet tx (out_amount out) (out_script out)) tx outs =
      tx\<lparr>outputs := outputs tx @ map (\<lambda>out. BRTxOutputSetScript testnet (out_script out)
        \<lparr>out_address = [], out_amount = out_amount out, out_script = None\<rparr>) outs\<rparr>" for tx
    by (induction outs arbitrary: tx) (simp_all add: BRTransactionAddOutput_def)
  then show ?thesis by (simp add: tx_for_outputs_def BRTransactionNew_def)
qed

lemma set_script [simp]:
  "out_amount (BRTxOutputSetScript testnet script out) = out_amount out"
  "out_script (BRTxOutputSetScript testnet script out) = script"
  by (simp_all add: BRTxOutputSetScript_def split: option.splits)

lemma attempt_inputs:
  assumes "spends_enough testnet w outs t bal fee" "list_all (\<lambda>u. utxo_output w u \<noteq> None) (utxos w)"
  shows "t = (tx_for_outputs testnet outs)\<lparr>inputs := inputs t\<rparr>" "list_all stray (inputs t)"
    "map utxo_of (inputs t) = take (length (inputs t)) (utxos w)" "bal = utxo_sum w (map utxo_of (inputs t))"
    "inputs t \<noteq> [] \<Longrightarrow> fee = rounded_fee w (sum_list (map out_amount outs)) t \<and>
      BRTransactionSize t + TX_OUTPUT_SIZE \<le> TX_MAX_SIZE"
    "inputs t = [] \<Longrightarrow> fee = txFee (feePerKb w) (of_nat (BRTransactionSize (tx_for_outputs testnet outs) + TX_OUTPUT_SIZE))"
proof -
  have n: "inputs (tx_for_outputs testnet outs) = []" by (simp add: tx_for_outputs_eq BRTransactionNew_def)
  define fee0 where "fee0 = txFee (feePerKb w) (of_nat (BRTransactionSize (tx_for_outputs testnet outs) + TX_OUTPUT_SIZE))"
  have l: "create_loop testnet w (sum_list (map out_amount outs)) (BRWalletMinOutputAmount w) (utxos w)
      (tx_for_outputs testnet outs) 0 fee0 = Some (False, t, bal, fee)"
    using assms(1) unfolding spends_enough_def Let_def fee0_def by blast
  have "\<forall>u\<in>set (utxos w). utxo_output w u \<noteq> None" using assms(2) by (simp add: list_all_iff)
  from create_loop_inputs [OF l this, unfolded n append_Nil if_False not_False_eq_True simp_thms add_0]
  obtain inps where "t = (tx_for_outputs testnet outs)\<lparr>inputs := inps\<rparr>"
    "list_all stray inps" "map utxo_of inps = take (length inps) (utxos w)" "bal = utxo_sum w (map utxo_of inps)"
    "if inps = [] then fee = fee0
     else fee = rounded_fee w (sum_list (map out_amount outs)) t \<and> BRTransactionSize t + TX_OUTPUT_SIZE \<le> TX_MAX_SIZE"
    by (elim exE conjE) (rule that; assumption)
  then show "t = (tx_for_outputs testnet outs)\<lparr>inputs := inputs t\<rparr>" "list_all stray (inputs t)"
    "map utxo_of (inputs t) = take (length (inputs t)) (utxos w)" "bal = utxo_sum w (map utxo_of (inputs t))"
    "inputs t \<noteq> [] \<Longrightarrow> fee = rounded_fee w (sum_list (map out_amount outs)) t \<and>
      BRTransactionSize t + TX_OUTPUT_SIZE \<le> TX_MAX_SIZE"
    "inputs t = [] \<Longrightarrow> fee = txFee (feePerKb w) (of_nat (BRTransactionSize (tx_for_outputs testnet outs) + TX_OUTPUT_SIZE))"
    unfolding fee0_def [symmetric] by auto
qed

lemma change_added:
  assumes "add_change testnet S moved w rs t amount = Some (w', tx, rs')"
  shows "inputs tx = inputs t" "tx\<lparr>outputs := outputs t\<rparr> = t" "length (outputs t) < 0x7fffffff \<Longrightarrow>
    \<exists>out. mset (outputs tx) = add_mset out (mset (outputs t)) \<and> out_amount out = amount"
proof -
  obtain script outs where o: "tx = t\<lparr>outputs := outs\<rparr>"
    and l: "shuffle_loop (outputs t @ [BRTxOutputSetScript testnet script
        \<lparr>out_address = [], out_amount = amount, out_script = None\<rparr>]) [0..<length (outputs t)] rs = Some (outs, rs')"
      (is "shuffle_loop (_ @ [?out]) _ _ = _")
    using assms by (auto simp: add_change_def bind_eq_Some_conv BRTransactionShuffleOutputs_def BRTransactionAddOutput_def)
  then show "inputs tx = inputs t" "tx\<lparr>outputs := outputs t\<rparr> = t" by simp_all
  show "\<exists>out. mset (outputs tx) = add_mset out (mset (outputs t)) \<and> out_amount out = amount"
    if "length (outputs t) < 0x7fffffff"
    using shuffle_loop_mset [OF l] that o by (intro exI [of _ ?out]) auto
qed

lemma attempt_stray:
  assumes "last_attempt testnet S moved w outs tx" "list_all (\<lambda>u. utxo_output w u \<noteq> None) (utxos w)"
  shows "list_all stray (inputs tx)"
proof -
  obtain t bal fee where s: "spends_enough testnet w outs t bal fee"
    "let change = bal - (sum_list (map out_amount outs) + fee) in
      if change > BRWalletMinOutputAmount w
      then \<exists>w' rs rs'. add_change testnet S moved w rs t change = Some (w', tx, rs')
      else tx = t"
    using assms(1) unfolding last_attempt_def by blast
  then have "inputs tx = inputs t" by (auto simp: Let_def split: if_splits dest: change_added(1))
  then show ?thesis using attempt_inputs(2) [OF s(1) assms(2)] by simp
qed

text \<open>
  C40: every input of a transaction that \<open>BRWalletCreateTxForOutputs\<close> returns has the sequence number 0
  instead of \<open>TXIN_SEQUENCE\<close> and a signature pointer that was never allocated: the transaction is
  taken for signed although it is not, and signing any of its inputs frees that pointer.\<close>

theorem created_tx_unsignable:
  assumes "BRWalletCreateTxForOutputs testnet S moved w rs outs = Some (w', Some tx, rs')"
    "list_all (\<lambda>u. utxo_output w u \<noteq> None) (utxos w)"
  shows "BRTransactionIsSigned tx \<and>
    list_all (\<lambda>inp. in_sequence inp = 0 \<and> BRTxInputSetSignature testnet (Some sig) inp = None) (inputs tx)"
proof -
  obtain outs' where "last_attempt testnet S moved w outs' tx"
    using create_inv [OF assms(1), of tx "\<lambda>_ _ _. True"] by auto
  then have "list_all stray (inputs tx)" by (rule attempt_stray [OF _ assms(2)])
  then show ?thesis by (auto simp: list_all_iff stray_def BRTransactionIsSigned_def BRTxInputSetSignature_def)
qed

text \<open>A wallet with one coin, which pays most of it to a script without an address.\<close>

definition rich_wallet :: BRWallet where
  "rich_wallet = (wallet_calloc sample_mpk)\<lparr>
     allTx := [9 \<mapsto> \<lparr>txHash = 9, tx_version = 1, inputs = [],
       outputs = [\<lparr>out_address = [0x41], out_amount = 70000, out_script = None\<rparr>],
       lockTime = 0, blockHeight = 5, tx_timestamp = 0\<rparr>],
     transactions := [9], allAddrs := {[0x41]}, utxos := [\<lparr>utxo_hash = 9, utxo_n = 0\<rparr>], balance := 70000\<rparr>"

definition payment :: "BRTxOutput list" where
  "payment = [\<lparr>out_address = [], out_amount = 60000, out_script = Some [0x6a]\<rparr>]"

definition payment_tx :: BRTransaction where
  "payment_tx = \<lparr>txHash = 0, tx_version = 1,
     inputs = [\<lparr>in_txHash = 9, in_index = 0, in_address = [], in_amount = 70000, in_script = None,
       in_signature = SigStray 0xffffffff, in_sequence = 0\<rparr>],
     outputs = payment, lockTime = 0, blockHeight = TX_UNCONFIRMED, tx_timestamp = 0\<rparr>"

lemma rich_outputs: "list_all (\<lambda>u. utxo_output rich_wallet u \<noteq> None) (utxos rich_wallet)"
  by (simp add: rich_wallet_def utxo_output_def)

lemma payment_created:
  "BRWalletCreateTxForOutputs False integer_secp False rich_wallet [] payment = Some (rich_wallet, Some payment_tx, [])"
proof -
  have "tx_for_outputs False payment = payment_tx\<lparr>inputs := []\<rparr>" by code_simp
  moreover have "create_loop False rich_wallet 60000 (BRWalletMinOutputAmount rich_wallet) (utxos rich_wallet)
      (payment_tx\<lparr>inputs := []\<rparr>) 0
      (txFee (feePerKb rich_wallet) (of_nat (BRTransactionSize (payment_tx\<lparr>inputs := []\<rparr>) + TX_OUTPUT_SIZE))) =
    Some (False, payment_tx, 70000, 4800)"
    by (simp add: rich_wallet_def payment_tx_def payment_def wallet_calloc_def utxo_output_def BRTransactionAddInput_def
        new_input_def TXIN_SEQUENCE_def TX_MAX_SIZE_def BRTransactionSize_def TX_OUTPUT_SIZE_def varint_enc_def
        script_bytes_def sig_bytes_def txFee_def TX_FEE_PER_KB_def DEFAULT_FEE_PER_KB_def Let_def
        BRWalletMinOutputAmount_def TX_MIN_OUTPUT_AMOUNT_def MIN_FEE_PER_KB_def)
  moreover have "BRWalletMinOutputAmount rich_wallet = 5460"
    by (simp add: rich_wallet_def wallet_calloc_def BRWalletMinOutputAmount_def DEFAULT_FEE_PER_KB_def MIN_FEE_PER_KB_def
        TX_MIN_OUTPUT_AMOUNT_def TX_FEE_PER_KB_def TX_OUTPUT_SIZE_def TX_INPUT_SIZE_def Let_def)
  ultimately show ?thesis
    by (subst BRWalletCreateTxForOutputs.simps) (simp add: Let_def payment_def script_bytes_def)
qed

theorem created_tx_unsignable_witness:
  "\<exists>tx. BRWalletCreateTxForOutputs False integer_secp False rich_wallet [] payment = Some (rich_wallet, Some tx, []) \<and>
    inputs tx \<noteq> [] \<and> BRTransactionIsSigned tx"
  using created_tx_unsignable [OF payment_created rich_outputs] payment_created by (auto simp: payment_tx_def)

end
