(* ===== verification/WalletAmounts.thy ===== *)
theory WalletAmounts
  imports WalletCreate
begin

text \<open>
  What the transactions that the wallet creates pay: how many unspent outputs they spend, the fee,
  the change, and by how much the outputs asked for are cut when the transaction becomes too large.
\<close>

section \<open>The amounts\<close>

definition MAX_MONEY :: nat where "MAX_MONEY = 21000000 * 100000000"
definition MAX_FEE_PER_KB :: u64 where "MAX_FEE_PER_KB = (1000100 * 1000 + 190) div 191"

lemma unat_add64: "unat x + unat y < 2 ^ 64 \<Longrightarrow> unat (x + y) = unat x + unat y" for x y :: u64
  using unat_add_lem [of x y] by simp

lemma unat_mult64: "unat x * unat y < 2 ^ 64 \<Longrightarrow> unat (x * y) = unat x * unat y" for x y :: u64
  using unat_mult_lem [of x y] by simp

lemma unat_sum_list:
  "sum_list (map unat xs) < 2 ^ 64 \<Longrightarrow> unat (sum_list xs) = sum_list (map unat xs)" for xs :: "u64 list"
proof (induction xs)
  case (Cons x xs)
  then show ?case using unat_add64 [of x "sum_list xs"] by simp
qed simp

lemma txFee_bound:
  assumes "perKb \<le> MAX_FEE_PER_KB" "n \<le> 2 ^ 32"
  shows "unat (txFee perKb (of_nat n)) \<le> 10 ^ 14" "0 < n \<Longrightarrow> 0 < unat (txFee perKb (of_nat n))"
proof -
  have p: "unat perKb \<le> 5236127" using assms(1) by (simp add: MAX_FEE_PER_KB_def word_le_nat_alt)
  have n: "unat (of_nat n :: u64) = n" using assms(2) by (intro unat_of_nat_small) simp
  have np: "n * unat perKb \<le> 22488994222702592" using mult_mono [OF assms(2) p] by simp
  have s: "unat (of_nat n * TX_FEE_PER_KB div 1000) = n * 10"
    using assms(2) n unat_mult64 [of "of_nat n" 10000] by (simp add: TX_FEE_PER_KB_def unat_div)
  have "unat (of_nat n * perKb div 1000) \<le> 22488994222702"
    using np n unat_mult64 [of "of_nat n" perKb] by (simp add: unat_div)
  then have "unat ((of_nat n * perKb div 1000 + 99) div 100) \<le> 224889942228"
    using unat_add64 [of "of_nat n * perKb div 1000" 99] by (simp add: unat_div)
  then have "unat ((of_nat n * perKb div 1000 + 99) div 100 * 100) \<le> 10 ^ 14"
    using unat_mult64 [of "(of_nat n * perKb div 1000 + 99) div 100" 100] by simp
  moreover have "txFee perKb (of_nat n) = (of_nat n * perKb div 1000 + 99) div 100 * 100 \<or>
      txFee perKb (of_nat n) = of_nat n * TX_FEE_PER_KB div 1000"
    "of_nat n * TX_FEE_PER_KB div 1000 \<le> txFee perKb (of_nat n)"
    by (auto simp: txFee_def Let_def)
  ultimately show "unat (txFee perKb (of_nat n)) \<le> 10 ^ 14" "0 < n \<Longrightarrow> 0 < unat (txFee perKb (of_nat n))"
    using s assms(2) by (auto simp: word_le_nat_alt)
qed

lemma rounded_fee_bound:
  assumes "feePerKb w \<le> MAX_FEE_PER_KB" "BRTransactionSize t + TX_OUTPUT_SIZE \<le> TX_MAX_SIZE"
  defines "f \<equiv> unat (BRWalletFeeForTxSize w (BRTransactionSize t + TX_OUTPUT_SIZE))"
  shows "f \<le> unat (rounded_fee w amount t)" "unat (rounded_fee w amount t) \<le> f + 99" "f \<le> 10 ^ 14"
proof -
  define g where "g = txFee (feePerKb w) (of_nat (BRTransactionSize t + TX_OUTPUT_SIZE))"
  have g: "unat g \<le> 10 ^ 14"
    unfolding g_def by (rule txFee_bound [OF assms(1)]) (use assms(2) in \<open>simp add: TX_MAX_SIZE_def\<close>)
  have f: "f = unat g" by (simp only: f_def g_def BRWalletFeeForTxSize_def)
  have r: "unat (x mod 100) \<le> 99" for x :: u64 by (simp add: unat_mod)
  define x where "x = balance w - (amount + g)"
  have "rounded_fee w amount t = (if balance w > amount + g then g + x mod 100 else g)"
    by (simp only: rounded_fee_def Let_def g_def x_def)
  moreover have "unat (g + x mod 100) = unat g + unat (x mod 100)"
    using unat_add64 [of g "x mod 100"] g r [of x] by simp
  ultimately show "f \<le> unat (rounded_fee w amount t)" "unat (rounded_fee w amount t) \<le> f + 99" "f \<le> 10 ^ 14"
    using g f r [of x] by auto
qed

lemma proper_fee_bound:
  assumes "proper_fee w amount fee" "feePerKb w \<le> MAX_FEE_PER_KB"
  shows "unat fee \<le> 10 ^ 14 + 99"
proof -
  obtain t where t: "fee = rounded_fee w amount t" "BRTransactionSize t + TX_OUTPUT_SIZE \<le> TX_MAX_SIZE"
    using assms(1) unfolding proper_fee_def by blast
  show ?thesis
    using rounded_fee_bound(2) [OF assms(2) t(2), of amount] rounded_fee_bound(3) [OF assms(2) t(2)] t(1) by simp
qed

lemma min_output_bound:
  assumes "feePerKb w \<le> MAX_FEE_PER_KB"
  shows "unat (BRWalletMinOutputAmount w) \<le> 10 ^ 14"
proof -
  have "unat (feePerKb w) \<le> 5236127" using assms by (simp add: MAX_FEE_PER_KB_def word_le_nat_alt)
  then have "unat (5460 * feePerKb w + 52357 - 1) \<le> 10 ^ 14"
    using unat_mult64 [of 5460 "feePerKb w"] unat_add64 [of 52356 "5460 * feePerKb w"] by simp
  then have "unat ((5460 * feePerKb w + 52357 - 1) div 52357) \<le> 10 ^ 14" by (simp add: unat_div)
  then show ?thesis
    by (simp add: BRWalletMinOutputAmount_def Let_def TX_MIN_OUTPUT_AMOUNT_def TX_FEE_PER_KB_def MIN_FEE_PER_KB_def)
qed

text \<open>The sum of the amounts, and a bound for the size of the outputs of a transaction.\<close>

definition total :: "BRTxOutput list \<Rightarrow> nat" where
  "total outs = sum_list (map (\<lambda>out. unat (out_amount out)) outs)"

definition weight :: "BRTxOutput list \<Rightarrow> nat" where
  "weight outs = sum_list (map (\<lambda>out. 17 + length (script_bytes (out_script out))) outs)"

definition funds :: "BRWallet \<Rightarrow> nat" where
  "funds w = sum_list (map (\<lambda>u. unat (amount_of w u)) (utxos w))"

lemma total_simps [simp]: "total [] = 0" "total (out # outs) = unat (out_amount out) + total outs"
  "total (outs @ outs') = total outs + total outs'"
  by (simp_all add: total_def)

lemma weight_simps [simp]: "weight [] = 0" "weight (out # outs) = 17 + length (script_bytes (out_script out)) + weight outs"
  "weight (outs @ outs') = weight outs + weight outs'"
  by (simp_all add: weight_def)

lemma amount_total: "total outs < 2 ^ 64 \<Longrightarrow> unat (sum_list (map out_amount outs)) = total outs"
  using unat_sum_list [of "map out_amount outs"] by (simp add: total_def comp_def)

lemma varint_length: "length (varint_enc x) \<le> 9"
  by (simp add: varint_enc_def)

lemma outputs_size: "BRTransactionSize (tx_for_outputs testnet outs) \<le> 26 + weight outs"
proof -
  have "sum_list (map (\<lambda>out. 8 + length (varint_enc (of_nat (length (script_bytes (out_script out))))) +
      length (script_bytes (out_script out))) outs) \<le> weight outs"
    unfolding weight_def by (rule sum_list_mono) (simp add: varint_length add_le_mono)
  then show ?thesis
    using varint_length [of "of_nat 0"] varint_length [of "of_nat (length outs)"]
    by (simp add: BRTransactionSize_def tx_for_outputs_eq BRTransactionNew_def comp_def Let_def)
qed

section \<open>An attempt, in numbers\<close>

text \<open>
  The size that \<open>BRTransactionSize\<close> gives for \<open>n\<close> inputs that are taken for signed with an empty
  signature, and one output more for the change.
\<close>

definition attempt_size :: "nat \<Rightarrow> BRTxOutput list \<Rightarrow> nat" where
  "attempt_size n outs = 8 + length (varint_enc (of_nat n)) + length (varint_enc (of_nat (length outs))) + 41 * n +
     sum_list (map (\<lambda>out. 8 + length (varint_enc (of_nat (length (script_bytes (out_script out))))) +
       length (script_bytes (out_script out))) outs) + 34"

text \<open>The fee for \<open>n\<close> inputs, and what the first \<open>n\<close> unspent outputs are worth.\<close>

definition attempt_fee :: "BRWallet \<Rightarrow> BRTxOutput list \<Rightarrow> nat \<Rightarrow> nat" where
  "attempt_fee w outs n = (let need = unat (BRWalletFeeForTxSize w (attempt_size n outs)) in
     if n > 0 \<and> unat (balance w) > total outs + need
     then need + (unat (balance w) - (total outs + need)) mod 100 else need)"

definition first_funds :: "BRWallet \<Rightarrow> nat \<Rightarrow> nat" where
  "first_funds w n = sum_list (map (\<lambda>u. unat (amount_of w u)) (take n (utxos w)))"

text \<open>The first \<open>n\<close> outputs are worth exactly what is needed, or leave at least the smallest output.\<close>

definition enough :: "BRWallet \<Rightarrow> BRTxOutput list \<Rightarrow> nat \<Rightarrow> bool" where
  "enough w outs n \<longleftrightarrow> first_funds w n = total outs + attempt_fee w outs n \<or>
     first_funds w n \<ge> total outs + attempt_fee w outs n + unat (BRWalletMinOutputAmount w)"

text \<open>
  The outputs of the next attempt, when \<open>n\<close> inputs fit and are not enough, and one more makes the
  transaction too large: the last output is reduced by what is missing, or dropped when not more
  than the smallest output would be left. What is missing may be negative.
\<close>

definition cut :: "BRWallet \<Rightarrow> BRTxOutput list \<Rightarrow> BRTxOutput list \<Rightarrow> bool" where
  "cut w outs outs' \<longleftrightarrow> outs \<noteq> [] \<and> (\<exists>n<length (utxos w). attempt_size (Suc n) outs > 100000 \<and>
     (\<forall>k. 1 \<le> k \<and> k \<le> n \<longrightarrow> attempt_size k outs \<le> 100000 \<and> \<not> enough w outs k) \<and>
     (let missing = int (total outs + attempt_fee w outs n) - int (first_funds w n);
          left = int (unat (out_amount (last outs))) - missing
      in outs' = (if left > int (unat (BRWalletMinOutputAmount w))
           then butlast outs @ [(last outs)\<lparr>out_amount := word_of_int left\<rparr>] else butlast outs)))"

section \<open>The attempt of the code\<close>

lemma attempt_size_eq:
  assumes "list_all stray inps"
  shows "BRTransactionSize ((tx_for_outputs testnet outs)\<lparr>inputs := inps\<rparr>) + TX_OUTPUT_SIZE = attempt_size (length inps) outs"
proof -
  have "sum_list (map (\<lambda>inp. if in_signature inp \<noteq> SigNull then
        let sigLen = length (sig_bytes (in_signature inp)) in 32 + 4 + BRVarIntSize (of_nat sigLen) + sigLen + 4
      else TX_INPUT_SIZE) inps) = 41 * length inps"
    using assms by (induction inps) (auto simp: stray_def sig_bytes_def varint_enc_def Let_def)
  then show ?thesis
    by (simp add: BRTransactionSize_def attempt_size_def tx_for_outputs_eq BRTransactionNew_def comp_def Let_def
        TX_OUTPUT_SIZE_def)
qed

text \<open>
  The loop that has added the inputs \<open>inps\<close>: its transaction, balance and fee, and when it stops. \<open>all\<close>
  are the unspent outputs from the first on.
\<close>

definition loop_tx :: "BRTransaction \<Rightarrow> BRTxInput list \<Rightarrow> BRTransaction" where
  "loop_tx tx inps = tx\<lparr>inputs := inps\<rparr>"

definition loop_fee :: "BRWallet \<Rightarrow> u64 \<Rightarrow> BRTransaction \<Rightarrow> u64 \<Rightarrow> BRTxInput list \<Rightarrow> u64" where
  "loop_fee w amount tx fee inps = (if inps = [] then fee else rounded_fee w amount (loop_tx tx inps))"

definition loop_stops :: "BRWallet \<Rightarrow> u64 \<Rightarrow> u64 \<Rightarrow> BRTransaction \<Rightarrow> u64 \<Rightarrow> BRTxInput list \<Rightarrow> bool" where
  "loop_stops w amount m tx fee inps \<longleftrightarrow> (let bal = utxo_sum w (map utxo_of inps); fee = loop_fee w amount tx fee inps in
     bal = amount + fee \<or> bal \<ge> amount + fee + m)"

definition loop_fits :: "BRTransaction \<Rightarrow> BRTxInput list \<Rightarrow> bool" where
  "loop_fits tx inps \<longleftrightarrow> BRTransactionSize (loop_tx tx inps) + TX_OUTPUT_SIZE \<le> TX_MAX_SIZE"

definition loop_passed :: "BRWallet \<Rightarrow> u64 \<Rightarrow> u64 \<Rightarrow> BRTransaction \<Rightarrow> u64 \<Rightarrow> BRTxInput list \<Rightarrow> bool" where
  "loop_passed w amount m tx fee inps \<longleftrightarrow> (\<forall>k. 1 \<le> k \<and> k \<le> length inps \<longrightarrow>
     loop_fits tx (take k inps) \<and> \<not> loop_stops w amount m tx fee (take k inps))"

definition loop_ends :: "BRWallet \<Rightarrow> u64 \<Rightarrow> u64 \<Rightarrow> BRTransaction \<Rightarrow> u64 \<Rightarrow> BRUTXO list \<Rightarrow>
    bool \<times> BRTransaction \<times> u64 \<times> u64 \<Rightarrow> bool" where
  "loop_ends w amount m tx fee all r \<longleftrightarrow> (case r of (tooLarge, tx', bal', fee') \<Rightarrow>
     \<exists>inps. list_all stray inps \<and> map utxo_of inps = take (length inps) all \<and> length inps \<le> length all \<and>
       bal' = utxo_sum w (map utxo_of inps) \<and> fee' = loop_fee w amount tx fee inps \<and>
       (if tooLarge then length inps < length all \<and> loop_passed w amount m tx fee inps \<and>
          (\<exists>inp. stray inp \<and> \<not> loop_fits tx (inps @ [inp]))
        else tx' = loop_tx tx inps \<and> loop_passed w amount m tx fee (butlast inps) \<and>
          (inps \<noteq> [] \<longrightarrow> loop_fits tx inps) \<and> (length inps = length all \<or> loop_stops w amount m tx fee inps)))"

lemma passed_snoc:
  assumes "loop_passed w amount m tx fee inps"
    "loop_fits tx (inps @ [inp])" "\<not> loop_stops w amount m tx fee (inps @ [inp])"
  shows "loop_passed w amount m tx fee (inps @ [inp])"
  using assms unfolding loop_passed_def by (auto simp: le_Suc_eq)

lemma create_loop_ends:
  assumes "create_loop testnet w amount m us (loop_tx tx inps) (utxo_sum w (map utxo_of inps))
      (loop_fee w amount tx fee inps) = Some r"
    "\<forall>u\<in>set us. utxo_output w u \<noteq> None" "list_all stray inps" "map utxo_of inps @ us = all"
    "loop_passed w amount m tx fee inps"
  shows "loop_ends w amount m tx fee all r"
  using assms
proof (induction us arbitrary: inps)
  case Nil
  moreover have "loop_passed w amount m tx fee (butlast inps)"
    using Nil.prems(5) by (auto simp: loop_passed_def take_butlast)
  moreover have "inps \<noteq> [] \<longrightarrow> loop_fits tx inps"
    using Nil.prems(5) by (auto simp: loop_passed_def Suc_le_eq dest: spec [of _ "length inps"])
  ultimately show ?case by (auto simp: loop_ends_def intro!: exI [of _ inps])
next
  case (Cons u us)
  obtain out where out: "utxo_output w u = Some out" using Cons.prems(2) by auto
  obtain tx1 where tx1: "BRTransactionAddInput testnet (loop_tx tx inps) (utxo_hash u) (utxo_n u) (out_amount out)
      (out_script out) None TXIN_SEQUENCE = Some tx1"
    using Cons.prems(1) out by (auto simp: bind_eq_Some_conv)
  then obtain inp where inp: "tx1 = loop_tx tx (inps @ [inp])" "stray inp" "utxo_of inp = u"
    using add_input by (fastforce simp: loop_tx_def)
  let ?inps = "inps @ [inp]"
  have bal: "utxo_sum w (map utxo_of inps) + out_amount out = utxo_sum w (map utxo_of ?inps)"
    using inp(3) out by (simp add: utxo_sum_def amount_of_def)
  have f: "loop_fee w amount tx fee ?inps = rounded_fee w amount tx1" by (simp add: loop_fee_def inp(1))
  have fits: "loop_fits tx ?inps \<longleftrightarrow> \<not> BRTransactionSize tx1 + TX_OUTPUT_SIZE > TX_MAX_SIZE"
    by (simp add: loop_fits_def inp(1) not_less)
  have stops: "loop_stops w amount m tx fee ?inps \<longleftrightarrow>
      utxo_sum w (map utxo_of inps) + out_amount out = amount + rounded_fee w amount tx1 \<or>
      utxo_sum w (map utxo_of inps) + out_amount out \<ge> amount + rounded_fee w amount tx1 + m"
    unfolding loop_stops_def Let_def f bal ..
  have eq: "(if \<not> loop_fits tx ?inps then Some (True, tx1, utxo_sum w (map utxo_of inps), loop_fee w amount tx fee inps)
      else if loop_stops w amount m tx fee ?inps
        then Some (False, tx1, utxo_sum w (map utxo_of ?inps), loop_fee w amount tx fee ?inps)
      else create_loop testnet w amount m us (loop_tx tx ?inps) (utxo_sum w (map utxo_of ?inps))
        (loop_fee w amount tx fee ?inps)) = Some r"
    using Cons.prems(1)
    unfolding create_loop.simps out option.case tx1 Option.bind.bind_lunit stops fits not_not bal [symmetric] f
      inp(1) [symmetric] rounded_fee_def Let_def .
  have all: "map utxo_of ?inps @ us = all" using Cons.prems(4) inp(3) by simp
  consider "\<not> loop_fits tx ?inps" | "loop_fits tx ?inps" "loop_stops w amount m tx fee ?inps"
    | "loop_fits tx ?inps" "\<not> loop_stops w amount m tx fee ?inps" by blast
  then show ?case
  proof cases
    case 1
    then show ?thesis
      using eq Cons.prems(3,5) inp(2) all by (auto simp: loop_ends_def intro!: exI [of _ inps])
  next
    case 2
    then show ?thesis
      using eq Cons.prems(3,5) inp all by (auto simp: loop_ends_def intro!: exI [of _ ?inps])
  next
    case 3
    then show ?thesis
      using eq Cons.prems(2,3,5) inp(2) all by (intro Cons.IH [of ?inps]) (auto intro: passed_snoc)
  qed
qed

section \<open>The numbers of an attempt\<close>

definition solvent :: "BRWallet \<Rightarrow> bool" where
  "solvent w \<longleftrightarrow> list_all (\<lambda>u. utxo_output w u \<noteq> None) (utxos w) \<and> funds w \<le> MAX_MONEY \<and> feePerKb w \<le> MAX_FEE_PER_KB"

lemma total_smaller:
  assumes "outs \<noteq> []" "total outs \<le> MAX_MONEY" "unat bal \<le> MAX_MONEY" "unat fee \<le> 2 * 10 ^ 14" "unat m \<le> 10 ^ 14"
  shows "total (smaller_outputs outs (sum_list (map out_amount outs)) fee m bal) \<le> MAX_MONEY"
    "weight (smaller_outputs outs (sum_list (map out_amount outs)) fee m bal) \<le> weight outs"
proof -
  obtain init l where o: "outs = init @ [l]" using assms(1) by (cases outs rule: rev_cases) auto
  define A where "A = sum_list (map out_amount outs)"
  define L where "L = out_amount l"
  show "weight (smaller_outputs outs (sum_list (map out_amount outs)) fee m bal) \<le> weight outs"
    by (simp add: smaller_outputs_def o Let_def)
  have M: "MAX_MONEY = 2100000000000000" by (simp add: MAX_MONEY_def)
  have a: "unat A = total outs" unfolding A_def using assms(2) M by (intro amount_total) simp
  have s: "total outs = total init + unat L" by (simp add: o L_def)
  have af: "unat (A + fee) = unat A + unat fee" "unat (A + fee + m) = unat A + unat fee + unat m"
    using unat_add64 [of A fee] unat_add64 [of "A + fee" m] assms a M by simp_all
  have "total init + unat (L - (A + fee - bal)) \<le> MAX_MONEY" if c: "A + fee + m - bal < L"
  proof -
    have le: "unat A + unat fee \<le> unat L + unat bal"
    proof (rule ccontr)
      assume n: "\<not> ?thesis"
      then have "bal \<le> A + fee + m" using af by (simp add: word_le_nat_alt)
      then have "unat (A + fee + m - bal) = unat A + unat fee + unat m - unat bal" using af by (simp add: unat_sub)
      then show False using c n by (simp add: word_less_nat_alt)
    qed
    have lb: "unat (L + bal) = unat L + unat bal" using unat_add64 [of L bal] assms s M by simp
    have "L - (A + fee - bal) = L + bal - (A + fee)" by simp
    also have "unat \<dots> = unat L + unat bal - (unat A + unat fee)"
      using le lb af by (subst unat_sub) (simp_all add: word_le_nat_alt)
    finally show ?thesis using le s a assms(3) by simp
  qed
  moreover have "total init \<le> MAX_MONEY" using assms(2) s by simp
  ultimately show "total (smaller_outputs outs (sum_list (map out_amount outs)) fee m bal) \<le> MAX_MONEY"
    unfolding A_def [symmetric] by (simp add: smaller_outputs_def o Let_def L_def)
qed

lemma taken_total:
  assumes "funds w \<le> MAX_MONEY"
  shows "unat (utxo_sum w (take n (utxos w))) = sum_list (map (\<lambda>u. unat (amount_of w u)) (take n (utxos w)))"
    "unat (utxo_sum w (take n (utxos w))) \<le> MAX_MONEY"
proof -
  have "sum_list (map (\<lambda>u. unat (amount_of w u)) (take n (utxos w))) +
      sum_list (map (\<lambda>u. unat (amount_of w u)) (drop n (utxos w))) = funds w"
    unfolding funds_def by (metis append_take_drop_id map_append sum_list_append)
  then have le: "sum_list (map (\<lambda>u. unat (amount_of w u)) (take n (utxos w))) \<le> MAX_MONEY" using assms by linarith
  then show "unat (utxo_sum w (take n (utxos w))) = sum_list (map (\<lambda>u. unat (amount_of w u)) (take n (utxos w)))"
    unfolding utxo_sum_def by (subst unat_sum_list) (simp_all add: MAX_MONEY_def comp_def)
  then show "unat (utxo_sum w (take n (utxos w))) \<le> MAX_MONEY" using le by simp
qed

lemma first_fee:
  fixes testnet :: bool
  assumes "feePerKb w \<le> MAX_FEE_PER_KB" "weight outs < 2 ^ 31"
  defines "fee \<equiv> txFee (feePerKb w) (of_nat (BRTransactionSize (tx_for_outputs testnet outs) + TX_OUTPUT_SIZE))"
  shows "unat fee \<le> 10 ^ 14" "0 < unat fee"
  unfolding fee_def using assms(2) outputs_size [of testnet outs]
  by (intro txFee_bound [OF assms(1)]; simp add: TX_OUTPUT_SIZE_def)+

lemma smaller_keeps:
  assumes "solvent w" "total outs \<le> MAX_MONEY" "weight outs < 2 ^ 31" "outs \<noteq> []"
    and l: "create_loop testnet w (sum_list (map out_amount outs)) (BRWalletMinOutputAmount w) (utxos w)
        (tx_for_outputs testnet outs) 0
        (txFee (feePerKb w) (of_nat (BRTransactionSize (tx_for_outputs testnet outs) + TX_OUTPUT_SIZE))) =
        Some (True, t, bal, fee)"
  defines "outs' \<equiv> smaller_outputs outs (sum_list (map out_amount outs)) fee (BRWalletMinOutputAmount w) bal"
  shows "total outs' \<le> MAX_MONEY \<and> weight outs' < 2 ^ 31"
proof -
  have w: "\<forall>u\<in>set (utxos w). utxo_output w u \<noteq> None" "funds w \<le> MAX_MONEY" "feePerKb w \<le> MAX_FEE_PER_KB"
    using assms(1) by (auto simp: solvent_def list_all_iff)
  from create_loop_inputs [OF l w(1)] obtain n where
    b: "bal = utxo_sum w (butlast (take n (utxos w)))"
    and f: "fee = txFee (feePerKb w) (of_nat (BRTransactionSize (tx_for_outputs testnet outs) + TX_OUTPUT_SIZE)) \<or>
      proper_fee w (sum_list (map out_amount outs)) fee"
    unfolding if_True add_0 by metis
  have "butlast (take n (utxos w)) = take (length (take n (utxos w)) - 1) (utxos w)" by (simp add: butlast_conv_take)
  then have "unat bal \<le> MAX_MONEY" using taken_total(2) [OF w(2)] b by metis
  moreover have "unat fee \<le> 2 * 10 ^ 14"
    using f
  proof
    assume "proper_fee w (sum_list (map out_amount outs)) fee"
    from proper_fee_bound [OF this w(3)] show ?thesis by simp
  next
    assume fee: "fee = txFee (feePerKb w) (of_nat (BRTransactionSize (tx_for_outputs testnet outs) + TX_OUTPUT_SIZE))"
    show ?thesis unfolding fee by (rule order_trans [OF first_fee(1) [OF w(3) assms(3)]]) simp
  qed
  ultimately have "total outs' \<le> MAX_MONEY" "weight outs' \<le> weight outs"
    unfolding outs'_def by (rule total_smaller [OF assms(4,2) _ _ min_output_bound [OF w(3)]])+
  then show ?thesis using assms(3) by simp
qed

lemma total_mset: "mset xs = mset ys \<Longrightarrow> total xs = total ys"
  unfolding total_def by (metis mset_map sum_mset_sum_list)

lemma weight_length: "17 * length outs \<le> weight outs"
  by (induction outs) simp_all

lemma stray_take: "list_all stray inps \<Longrightarrow> list_all stray (take k inps)"
  by (metis append_take_drop_id list_all_append)

text \<open>The bounds under which nothing wraps around.\<close>

definition bounded :: "BRWallet \<Rightarrow> BRTxOutput list \<Rightarrow> bool" where
  "bounded w outs \<longleftrightarrow> solvent w \<and> total outs \<le> MAX_MONEY \<and> weight outs < 2 ^ 31"

lemma boundedD:
  assumes "bounded w outs"
  shows "unat (sum_list (map out_amount outs)) = total outs" "total outs \<le> 2100000000000000"
    "feePerKb w \<le> MAX_FEE_PER_KB" "funds w \<le> MAX_MONEY" "unat (BRWalletMinOutputAmount w) \<le> 10 ^ 14"
    "\<forall>u\<in>set (utxos w). utxo_output w u \<noteq> None"
  using assms amount_total [of outs] min_output_bound [of w]
  by (simp_all add: bounded_def solvent_def MAX_MONEY_def list_all_iff)

lemma fits_num:
  "list_all stray inps \<Longrightarrow> loop_fits (tx_for_outputs testnet outs) inps \<longleftrightarrow> attempt_size (length inps) outs \<le> 100000"
  by (simp add: loop_fits_def loop_tx_def attempt_size_eq TX_MAX_SIZE_def)

definition start_fee :: "bool \<Rightarrow> BRWallet \<Rightarrow> BRTxOutput list \<Rightarrow> u64" where
  "start_fee testnet w outs = txFee (feePerKb w) (of_nat (BRTransactionSize (tx_for_outputs testnet outs) + TX_OUTPUT_SIZE))"

lemma start_tx: "loop_tx (tx_for_outputs testnet outs) [] = tx_for_outputs testnet outs"
  by (simp add: loop_tx_def tx_for_outputs_eq BRTransactionNew_def)

lemma fee_num:
  assumes b: "bounded w outs" and inps: "list_all stray inps" "inps \<noteq> [] \<Longrightarrow> loop_fits (tx_for_outputs testnet outs) inps"
  shows "unat (loop_fee w (sum_list (map out_amount outs)) (tx_for_outputs testnet outs) (start_fee testnet w outs) inps) =
      attempt_fee w outs (length inps)"
    "attempt_fee w outs (length inps) \<le> 2 * 10 ^ 14" "0 < attempt_fee w outs (length inps)"
proof -
  let ?tx = "tx_for_outputs testnet outs"
  define A where "A = sum_list (map out_amount outs)"
  define g where "g = BRWalletFeeForTxSize w (attempt_size (length inps) outs)"
  note D = boundedD [OF b]
  have a: "unat A = total outs" "total outs \<le> 2100000000000000" using D(1,2) by (simp_all add: A_def)
  have s: "BRTransactionSize (loop_tx ?tx inps) + TX_OUTPUT_SIZE = attempt_size (length inps) outs"
    by (simp only: loop_tx_def attempt_size_eq [OF inps(1)])
  have "attempt_size (length inps) outs \<le> 2 ^ 32"
  proof (cases "inps = []")
    case True
    then have "attempt_size (length inps) outs = BRTransactionSize ?tx + TX_OUTPUT_SIZE"
      using s start_tx [of testnet outs] by simp
    then show ?thesis using b outputs_size [of testnet outs] by (simp add: bounded_def TX_OUTPUT_SIZE_def)
  next
    case False
    then show ?thesis using inps fits_num by force
  qed
  moreover have "0 < attempt_size (length inps) outs" by (simp add: attempt_size_def)
  ultimately have g: "unat g \<le> 10 ^ 14" "0 < unat g"
    unfolding g_def BRWalletFeeForTxSize_def using txFee_bound [OF D(3)] by blast+
  have ag: "unat (A + g) = total outs + unat g" using unat_add64 [of A g] a g(1) by simp
  have fee: "loop_fee w A ?tx (start_fee testnet w outs) inps =
      (if inps = [] then g else if balance w > A + g then g + (balance w - (A + g)) mod 100 else g)"
    using s start_tx [of testnet outs]
    by (cases "inps = []")
      (simp_all add: loop_fee_def rounded_fee_def Let_def g_def BRWalletFeeForTxSize_def start_fee_def flip: of_nat_add)
  have r: "unat ((balance w - (A + g)) mod 100) = (unat (balance w) - (total outs + unat g)) mod 100" if "balance w > A + g"
  proof -
    have "A + g \<le> balance w" using that by simp
    then have "unat (balance w - (A + g)) = unat (balance w) - (total outs + unat g)" by (simp only: unat_sub ag)
    then show ?thesis by (simp add: unat_mod)
  qed
  have "unat (g + x mod 100) = unat g + unat (x mod 100)" for x :: u64
    using unat_add64 [of g "x mod 100"] g(1) by (simp add: unat_mod)
  note plus = this
  have mod100: "k mod 100 \<le> (99 :: nat)" for k by simp
  show "unat (loop_fee w (sum_list (map out_amount outs)) ?tx (start_fee testnet w outs) inps) =
      attempt_fee w outs (length inps)"
    unfolding A_def [symmetric] fee attempt_fee_def g_def [symmetric]
    using ag r by (auto simp: Let_def plus word_less_nat_alt)
  show "attempt_fee w outs (length inps) \<le> 2 * 10 ^ 14" "0 < attempt_fee w outs (length inps)"
    unfolding attempt_fee_def g_def [symmetric] Let_def
    using g mod100 [of "unat (balance w) - (total outs + unat g)"] by auto
qed

lemma funds_num:
  assumes "bounded w outs" "map utxo_of inps = take (length inps) (utxos w)"
  shows "unat (utxo_sum w (map utxo_of inps)) = first_funds w (length inps)" "first_funds w (length inps) \<le> 2100000000000000"
proof -
  have "funds w \<le> MAX_MONEY" using boundedD(4) [OF assms(1)] .
  from taken_total [OF this, of "length inps"]
  show "unat (utxo_sum w (map utxo_of inps)) = first_funds w (length inps)" "first_funds w (length inps) \<le> 2100000000000000"
    using assms(2) by (simp_all add: first_funds_def MAX_MONEY_def)
qed

lemma stops_num:
  assumes b: "bounded w outs" and inps: "list_all stray inps" "loop_fits (tx_for_outputs testnet outs) inps"
    "map utxo_of inps = take (length inps) (utxos w)"
  shows "loop_stops w (sum_list (map out_amount outs)) (BRWalletMinOutputAmount w) (tx_for_outputs testnet outs)
      (start_fee testnet w outs) inps \<longleftrightarrow> enough w outs (length inps)"
proof -
  define A where "A = sum_list (map out_amount outs)"
  define f where "f = loop_fee w A (tx_for_outputs testnet outs) (start_fee testnet w outs) inps"
  define m where "m = BRWalletMinOutputAmount w"
  note D = boundedD [OF b]
  have f: "unat f = attempt_fee w outs (length inps)" "unat f \<le> 2 * 10 ^ 14"
    using fee_num(1,2) [OF b inps(1)] inps(2) by (simp_all add: f_def A_def)
  have "unat (A + f) = total outs + unat f" "unat (A + f + m) = total outs + unat f + unat m"
    using unat_add64 [of A f] unat_add64 [of "A + f" m] D(1,2,5) f(2) by (simp_all add: A_def m_def)
  then show ?thesis
    using funds_num [OF b inps(3)] f
    unfolding loop_stops_def Let_def enough_def A_def [symmetric] f_def [symmetric] m_def [symmetric]
    by (simp add: word_unat_eq_iff word_le_nat_alt)
qed

lemma passed_num:
  assumes b: "bounded w outs" and inps: "list_all stray inps" "map utxo_of inps = take (length inps) (utxos w)"
    "loop_passed w (sum_list (map out_amount outs)) (BRWalletMinOutputAmount w) (tx_for_outputs testnet outs)
      (start_fee testnet w outs) inps" and k: "1 \<le> k" "k \<le> length inps"
  shows "attempt_size k outs \<le> 100000 \<and> \<not> enough w outs k"
proof -
  have l: "length (take k inps) = k" using k(2) by simp
  have "map utxo_of (take k inps) = take (length (take k inps)) (utxos w)"
    using inps(2) k(2) by (metis l min.absorb2 min.commute take_map take_take)
  then show ?thesis
    using inps(3) k fits_num [OF stray_take [OF inps(1)], of testnet outs k]
      stops_num [OF b stray_take [OF inps(1)], of testnet k] l
    unfolding loop_passed_def by metis
qed

section \<open>What is paid\<close>

text \<open>An attempt that is too large is followed by one for the outputs cut.\<close>

lemma smaller_cut:
  assumes b: "bounded w outs" and ne: "outs \<noteq> []"
    and l: "create_loop testnet w (sum_list (map out_amount outs)) (BRWalletMinOutputAmount w) (utxos w)
        (tx_for_outputs testnet outs) 0 (start_fee testnet w outs) = Some (True, t, bal, fee)"
  shows "cut w outs (smaller_outputs outs (sum_list (map out_amount outs)) fee (BRWalletMinOutputAmount w) bal)"
proof -
  define A where "A = sum_list (map out_amount outs)"
  define m where "m = BRWalletMinOutputAmount w"
  define lst where "lst = last outs"
  note D = boundedD [OF b]
  have "loop_ends w A m (tx_for_outputs testnet outs) (start_fee testnet w outs) (utxos w) (True, t, bal, fee)"
    by (rule create_loop_ends [where inps = "[]" and us = "utxos w" and testnet = testnet])
      (use l D(6) in \<open>simp_all add: start_tx loop_fee_def loop_passed_def A_def m_def\<close>)
  then obtain inps inp where inps: "list_all stray inps" "map utxo_of inps = take (length inps) (utxos w)"
      "length inps < length (utxos w)" "bal = utxo_sum w (map utxo_of inps)"
      "fee = loop_fee w A (tx_for_outputs testnet outs) (start_fee testnet w outs) inps"
      "loop_passed w A m (tx_for_outputs testnet outs) (start_fee testnet w outs) inps"
      "stray inp" "\<not> loop_fits (tx_for_outputs testnet outs) (inps @ [inp])"
    unfolding loop_ends_def by auto
  define n where "n = length inps"
  note passed = passed_num [OF b inps(1,2), of testnet, folded A_def m_def, OF inps(6), folded n_def]
  have fits: "loop_fits (tx_for_outputs testnet outs) inps" if "inps \<noteq> []"
    using inps(6) that unfolding loop_passed_def by (auto simp: Suc_le_eq dest: spec [of _ "length inps"])
  have big: "attempt_size (Suc n) outs > 100000"
    using fits_num [of "inps @ [inp]" testnet outs] inps(1,7,8) by (simp add: n_def)
  have fee: "unat fee = attempt_fee w outs n" "unat fee \<le> 2 * 10 ^ 14"
    using fee_num(1,2) [OF b inps(1), of testnet] fits inps(5) by (simp_all add: A_def n_def)
  have bal: "unat bal = first_funds w n" using funds_num [OF b inps(2)] inps(4) by (simp add: n_def)
  have a: "unat A = total outs" "total outs \<le> 2100000000000000" using D(1,2) by (simp_all add: A_def)
  have afm: "unat (A + fee + m) = total outs + unat fee + unat m"
    using unat_add64 [of A fee] unat_add64 [of "A + fee" m] a fee(2) D(5) by (simp add: m_def)
  have le: "unat bal \<le> unat (A + fee + m)"
  proof (cases "n = 0")
    case True
    then show ?thesis using inps(4) by (simp add: n_def)
  next
    case False
    then have "\<not> enough w outs n" using passed [of n] by simp
    then show ?thesis using bal fee(1) afm by (simp add: enough_def m_def)
  qed
  define missing where "missing = int (total outs + attempt_fee w outs n) - int (first_funds w n)"
  define left where "left = int (unat (out_amount lst)) - missing"
  have "A + fee + m - bal < out_amount lst \<longleftrightarrow> left > int (unat m)"
  proof -
    have "x + M - B < L \<longleftrightarrow> int L - (int x - int B) > int M" if "B \<le> x + M" for x M B L :: nat
      using that by linarith
    from this [of "unat bal" "total outs + unat fee" "unat m" "unat (out_amount lst)"]
    have "unat (A + fee + m) - unat bal < unat (out_amount lst) \<longleftrightarrow> left > int (unat m)"
      using le unfolding afm left_def missing_def fee(1) [symmetric] bal [symmetric] by blast
    moreover have "bal \<le> A + fee + m" using le by (simp only: word_le_nat_alt)
    ultimately show ?thesis by (simp only: word_less_nat_alt unat_sub)
  qed
  moreover have "out_amount lst - (A + fee - bal) = word_of_int left"
    using a(1) fee(1) bal by (simp add: left_def missing_def flip: a(1) fee(1) bal)
  ultimately have "smaller_outputs outs A fee m bal =
      (if left > int (unat m) then butlast outs @ [lst\<lparr>out_amount := word_of_int left\<rparr>] else butlast outs)"
    by (simp add: smaller_outputs_def lst_def Let_def)
  then show ?thesis
    unfolding cut_def A_def [symmetric] m_def [symmetric] lst_def [symmetric] Let_def missing_def [symmetric] left_def [symmetric]
    using ne inps(3) big passed
    by (intro conjI exI [of _ n]) (auto simp: n_def missing_def left_def m_def)
qed

text \<open>The change goes to an unused address of the wallet.\<close>

lemma change_script:
  assumes "add_change testnet S moved w rs t amount = Some (w', tx, rs')" "length (outputs t) < 0x7fffffff"
  shows "\<exists>v addrs out. BRWalletUnusedAddrs testnet S moved w 1 True = Some (v, addrs) \<and>
    mset (outputs tx) = mset (outputs t @ [out]) \<and> out_amount out = amount \<and>
    out_script out = Some (script_for testnet (case addrs of [] \<Rightarrow> [] | a # _ \<Rightarrow> a))"
proof -
  obtain v addrs outs where u: "BRWalletUnusedAddrs testnet S moved w 1 True = Some (v, addrs)"
    and o: "tx = t\<lparr>outputs := outs\<rparr>"
    and l: "shuffle_loop (outputs t @ [BRTxOutputSetScript testnet (Some (script_for testnet (case addrs of [] \<Rightarrow> [] | a # _ \<Rightarrow> a)))
        \<lparr>out_address = [], out_amount = amount, out_script = None\<rparr>]) [0..<length (outputs t)] rs = Some (outs, rs')"
      (is "shuffle_loop (_ @ [?out]) _ _ = _")
    using assms by (auto simp: add_change_def bind_eq_Some_conv BRTransactionShuffleOutputs_def BRTransactionAddOutput_def)
  have "mset (outputs tx) = mset (outputs t @ [?out])" using shuffle_loop_mset [OF l] assms(2) o by simp
  then show ?thesis using u by (intro exI [of _ v] exI [of _ addrs] exI [of _ ?out]) simp
qed

text \<open>The last attempt, which is not too large.\<close>

lemma attempt_numbers:
  assumes s: "spends_enough testnet w outs t bal fee" and b: "bounded w outs"
  defines "n \<equiv> length (inputs t)"
  shows "t = loop_tx (tx_for_outputs testnet outs) (inputs t)" "1 \<le> n" "n \<le> length (utxos w)"
    "map utxo_of (inputs t) = take n (utxos w)" "attempt_size n outs \<le> 100000"
    "\<And>k. 1 \<le> k \<Longrightarrow> k < n \<Longrightarrow> \<not> enough w outs k" "enough w outs n \<or> n = length (utxos w)"
    "total outs + attempt_fee w outs n \<le> first_funds w n"
    "unat (bal - (sum_list (map out_amount outs) + fee)) = first_funds w n - (total outs + attempt_fee w outs n)"
proof -
  define A where "A = sum_list (map out_amount outs)"
  define m where "m = BRWalletMinOutputAmount w"
  let ?tx = "tx_for_outputs testnet outs" and ?fee = "start_fee testnet w outs"
  note D = boundedD [OF b]
  have l: "create_loop testnet w A m (utxos w) ?tx 0 ?fee = Some (False, t, bal, fee)" and le: "A + fee \<le> bal"
    using s unfolding spends_enough_def Let_def A_def m_def start_fee_def by blast+
  have "loop_ends w A m ?tx ?fee (utxos w) (False, t, bal, fee)"
    by (rule create_loop_ends [where inps = "[]" and us = "utxos w" and testnet = testnet])
      (use l D(6) in \<open>simp_all add: start_tx loop_fee_def loop_passed_def\<close>)
  then obtain inps where inps: "list_all stray inps" "map utxo_of inps = take (length inps) (utxos w)"
      "length inps \<le> length (utxos w)" "bal = utxo_sum w (map utxo_of inps)" "fee = loop_fee w A ?tx ?fee inps"
      "loop_passed w A m ?tx ?fee (butlast inps)" "inps \<noteq> [] \<longrightarrow> loop_fits ?tx inps"
      "length inps = length (utxos w) \<or> loop_stops w A m ?tx ?fee inps"
    and t: "t = loop_tx ?tx inps"
    unfolding loop_ends_def prod.case if_False by (elim exE conjE) (rule that)
  have n: "n = length inps" "inputs t = inps" by (simp_all add: n_def t loop_tx_def)
  show "t = loop_tx ?tx (inputs t)" using t n(2) by simp
  show "n \<le> length (utxos w)" "map utxo_of (inputs t) = take n (utxos w)" using inps(2,3) n by simp_all
  have fee: "unat fee = attempt_fee w outs n" "unat fee \<le> 2 * 10 ^ 14" "0 < unat fee"
    using fee_num [OF b inps(1), of testnet] inps(5,7) n(1) by (simp_all add: A_def)
  have bal: "unat bal = first_funds w n" using funds_num [OF b inps(2)] inps(4) n(1) by simp
  have af: "unat (A + fee) = total outs + attempt_fee w outs n"
    using unat_add64 [of A fee] D(1,2) fee by (simp add: A_def)
  show need: "total outs + attempt_fee w outs n \<le> first_funds w n"
    using le af bal by (simp add: word_le_nat_alt)
  show "unat (bal - (sum_list (map out_amount outs) + fee)) = first_funds w n - (total outs + attempt_fee w outs n)"
    using le af bal unfolding A_def [symmetric] by (simp add: unat_sub)
  have ne: "inps \<noteq> []"
  proof
    assume "inps = []"
    then have "n = 0" using n(1) by simp
    then have "first_funds w n = 0" by (simp add: first_funds_def)
    then show False using need fee by simp
  qed
  then show "1 \<le> n" using n(1) by (simp add: Suc_le_eq)
  show "attempt_size n outs \<le> 100000" using fits_num [OF inps(1), of testnet outs] inps(7) ne n(1) by simp
  have bl: "list_all stray (butlast inps)" using stray_take [OF inps(1)] by (simp add: butlast_conv_take)
  have "map utxo_of (butlast inps) = take (length (butlast inps)) (utxos w)"
    using inps(2) by (metis butlast_conv_take length_butlast length_map map_butlast take_take min.absorb1 diff_le_self)
  from passed_num [OF b bl this, of testnet, folded A_def m_def, OF inps(6)]
  show "\<And>k. 1 \<le> k \<Longrightarrow> k < n \<Longrightarrow> \<not> enough w outs k" using n(1) by simp
  show "enough w outs n \<or> n = length (utxos w)"
    using stops_num [OF b inps(1), of testnet, folded A_def m_def] inps(2,7,8) ne n(1) by blast
qed

text \<open>
  C6: take an unspent output list whose outputs are known, funds and outputs asked for of at most the
  number of coins there can be, scripts of less than \<open>2 ^ 31\<close> bytes in all, and a fee per kilobyte of
  at most \<open>MAX_FEE_PER_KB\<close>. A transaction that the wallet creates pays the outputs asked for, with
  their amounts and scripts, unless a transaction for them is larger than 100000 bytes, when it pays
  what \<open>cut\<close> leaves of them, applied as often as needed. It spends the unspent outputs of the wallet
  from the first on, as many as the first number that is enough, or all. Its inputs are its outputs
  and the fee of an attempt of that size, where a rest of more than the smallest output goes to an
  unused address of the wallet, and a smaller one is added to the fee.\<close>

theorem created_tx_balanced:
  assumes create: "BRWalletCreateTxForOutputs testnet S moved w rs outs = Some (w', Some tx, rs')"
    and w: "list_all (\<lambda>u. utxo_output w u \<noteq> None) (utxos w)" "funds w \<le> MAX_MONEY" "feePerKb w \<le> MAX_FEE_PER_KB"
    and outs: "total outs \<le> MAX_MONEY" "weight outs < 2 ^ 31"
  shows "\<exists>outs' change. (cut w)\<^sup>*\<^sup>* outs outs' \<and>
    (let n = length (inputs tx); fee = attempt_fee w outs' n; rest = first_funds w n - (total outs' + fee) in
      1 \<le> n \<and> n \<le> length (utxos w) \<and> map utxo_of (inputs tx) = take n (utxos w) \<and>
      attempt_size n outs' \<le> 100000 \<and> (\<forall>k. 1 \<le> k \<and> k < n \<longrightarrow> \<not> enough w outs' k) \<and>
      (enough w outs' n \<or> n = length (utxos w)) \<and> total outs' + fee \<le> first_funds w n \<and>
      mset (map (\<lambda>out. (out_amount out, out_script out)) (outputs tx)) =
        mset (map (\<lambda>out. (out_amount out, out_script out)) outs' @ change) \<and>
      (if rest > unat (BRWalletMinOutputAmount w)
       then (\<exists>v addrs. BRWalletUnusedAddrs testnet S moved w 1 True = Some (v, addrs) \<and>
          change = [(of_nat rest, Some (script_for testnet (case addrs of [] \<Rightarrow> [] | a # _ \<Rightarrow> a)))]) \<and>
          first_funds w n = total (outputs tx) + fee
       else change = [] \<and> first_funds w n = total (outputs tx) + fee + rest))"
proof -
  let ?J = "\<lambda>testnet w outs'. bounded w outs' \<and> (cut w)\<^sup>*\<^sup>* outs outs'"
  have "\<exists>outs'. ?J testnet w outs' \<and> last_attempt testnet S moved w outs' tx"
  proof (rule create_inv [OF create, where J = ?J])
    show "?J testnet w outs" using w outs by (simp add: bounded_def solvent_def)
  next
    fix testnet w outs' t bal fee
    assume j: "?J testnet w outs'" and ne: "outs' \<noteq> []" and l: "create_loop testnet w (sum_list (map out_amount outs'))
        (BRWalletMinOutputAmount w) (utxos w) (tx_for_outputs testnet outs') 0
        (txFee (feePerKb w) (of_nat (BRTransactionSize (tx_for_outputs testnet outs') + TX_OUTPUT_SIZE))) =
        Some (True, t, bal, fee)"
    have "cut w outs' (smaller_outputs outs' (sum_list (map out_amount outs')) fee (BRWalletMinOutputAmount w) bal)"
      by (rule smaller_cut [where testnet = testnet and t = t, OF _ ne]) (use j l in \<open>auto simp: start_fee_def\<close>)
    then show "?J testnet w (smaller_outputs outs' (sum_list (map out_amount outs')) fee (BRWalletMinOutputAmount w) bal)"
      using j smaller_keeps [OF _ _ _ ne l] by (auto simp: bounded_def)
  qed simp
  then obtain outs' where J: "?J testnet w outs'" and last: "last_attempt testnet S moved w outs' tx" by blast
  then obtain t bal fee where s: "spends_enough testnet w outs' t bal fee"
    and ch: "let change = bal - (sum_list (map out_amount outs') + fee) in
      if change > BRWalletMinOutputAmount w
      then \<exists>w' rs rs'. add_change testnet S moved w rs t change = Some (w', tx, rs')
      else tx = t"
    unfolding last_attempt_def by blast
  note at = attempt_numbers [OF s conjunct1 [OF J]]
  define n where "n = length (inputs t)"
  define need where "need = attempt_fee w outs' n"
  define rest where "rest = first_funds w n - (total outs' + need)"
  define change where "change = bal - (sum_list (map out_amount outs') + fee)"
  have rest: "unat change = rest" using at(9) by (simp add: change_def rest_def need_def n_def)
  have sum: "first_funds w n = total outs' + need + rest" using at(8) by (simp add: rest_def need_def n_def)
  have out: "outputs t = outputs (tx_for_outputs testnet outs')" by (subst at(1)) (simp add: loop_tx_def)
  then have ot: "map (\<lambda>out. (out_amount out, out_script out)) (outputs t) = map (\<lambda>out. (out_amount out, out_script out)) outs'"
    "total (outputs t) = total outs'" "length (outputs t) = length outs'"
    by (simp_all add: tx_for_outputs_eq total_def comp_def)
  have common: "1 \<le> n" "n \<le> length (utxos w)" "attempt_size n outs' \<le> 100000" "\<forall>k. 1 \<le> k \<and> k < n \<longrightarrow> \<not> enough w outs' k"
    "enough w outs' n \<or> n = length (utxos w)" "total outs' + need \<le> first_funds w n"
    using at(2,3,5-8) by (auto simp: n_def need_def)
  show ?thesis
  proof (cases "rest > unat (BRWalletMinOutputAmount w)")
    case True
    then have "change > BRWalletMinOutputAmount w" using rest by (simp add: word_less_nat_alt)
    then obtain v rs1 rs2 where add: "add_change testnet S moved w rs1 t change = Some (v, tx, rs2)"
      using ch by (auto simp: Let_def change_def)
    have "length (outputs t) < 0x7fffffff" using weight_length [of outs'] J ot(3) by (simp add: bounded_def)
    from change_script [OF add this] obtain v addrs o1 where o1: "BRWalletUnusedAddrs testnet S moved w 1 True = Some (v, addrs)"
      "mset (outputs tx) = mset (outputs t @ [o1])" "out_amount o1 = change"
      "out_script o1 = Some (script_for testnet (case addrs of [] \<Rightarrow> [] | a # _ \<Rightarrow> a))" by blast
    have tot: "total (outputs tx) = total outs' + rest" using total_mset [OF o1(2)] o1(3) ot(2) rest by simp
    have amt: "out_amount o1 = of_nat rest" using o1(3) rest by (simp flip: rest)
    have "mset (map (\<lambda>out. (out_amount out, out_script out)) (outputs tx)) =
        mset (map (\<lambda>out. (out_amount out, out_script out)) outs' @ [(of_nat rest, out_script o1)])"
      using arg_cong [OF o1(2), of "image_mset (\<lambda>out. (out_amount out, out_script out))"] ot(1) amt
      by (simp flip: mset_map)
    then show ?thesis
      using J common at(4) change_added(1) [OF add] o1(1,4) True tot sum
      by (intro exI [of _ outs'] exI [of _ "[(of_nat rest, out_script o1)]"])
        (simp add: Let_def n_def [symmetric] need_def [symmetric] rest_def [symmetric])
  next
    case False
    then have "tx = t" using ch rest by (simp add: Let_def change_def word_less_nat_alt)
    then show ?thesis
      using J common at(4) False ot sum
      by (intro exI [of _ outs'] exI [of _ "[]"])
        (simp add: Let_def n_def [symmetric] need_def [symmetric] rest_def [symmetric])
  qed
qed

theorem created_tx_balanced_witness:
  "\<exists>outs' change. (cut rich_wallet)\<^sup>*\<^sup>* payment outs' \<and>
    total outs' + attempt_fee rich_wallet outs' 1 \<le> first_funds rich_wallet 1 \<and>
    mset (map (\<lambda>out. (out_amount out, out_script out)) (outputs payment_tx)) =
      mset (map (\<lambda>out. (out_amount out, out_script out)) outs' @ change)"
proof -
  have f: "funds rich_wallet \<le> MAX_MONEY" "feePerKb rich_wallet \<le> MAX_FEE_PER_KB"
    by (simp_all add: funds_def rich_wallet_def wallet_calloc_def amount_of_def utxo_output_def MAX_MONEY_def
        MAX_FEE_PER_KB_def DEFAULT_FEE_PER_KB_def)
  have t: "total payment \<le> MAX_MONEY" "weight payment < 2 ^ 31"
    by (simp_all add: payment_def script_bytes_def MAX_MONEY_def)
  have "length (inputs payment_tx) = 1" by (simp add: payment_tx_def)
  from created_tx_balanced [OF payment_created rich_outputs f t, unfolded Let_def this] show ?thesis
    by (elim exE conjE) (intro exI conjI)
qed

end
