(* ===== verification/WalletWalks.thy ===== *)
theory WalletWalks
  imports WalletInvariant
begin

text \<open>
  The recursive walks over the inputs of transactions, which the wallet uses to order transactions
  and to judge them. They follow the hashes of the inputs through \<open>allTx\<close>, and end because no
  transaction spends an output of one that depends on it.
\<close>

definition ranked :: "(UInt256 \<Rightarrow> nat) \<Rightarrow> BRWallet \<Rightarrow> bool" where
  "ranked rank w \<longleftrightarrow> (\<forall>h tx. allTx w h = Some tx \<longrightarrow> BRTransactionIsSigned tx \<and>
     (\<forall>inp\<in>set (inputs tx). in_txHash inp \<noteq> 0 \<and> rank (in_txHash inp) < rank h))"

text \<open>
  A walk over a list of hashes returns when it does so on the rest of the list, and on the inputs of
  the transaction with the first hash.
\<close>

locale tx_walk =
  fixes walk :: "BRWallet \<Rightarrow> UInt256 list \<Rightarrow> 'a option"
  assumes walk_Nil: "walk w [] \<noteq> None"
    and walk_Cons: "ranked rank w \<Longrightarrow> h \<noteq> 0 \<Longrightarrow> walk w hs \<noteq> None \<Longrightarrow>
      (\<And>tx. allTx w h = Some tx \<Longrightarrow> walk w (map in_txHash (inputs tx)) \<noteq> None) \<Longrightarrow> walk w (h # hs) \<noteq> None"
begin

lemma walk_below:
  assumes "ranked rank w" "\<forall>h\<in>set hs. h \<noteq> 0 \<and> rank h < n"
  shows "walk w hs \<noteq> None"
  using assms(2)
proof (induction n arbitrary: hs)
  case 0
  then show ?case using walk_Nil by (cases hs) auto
next
  case (Suc n)
  from Suc.prems show ?case
  proof (induction hs)
    case (Cons h hs)
    have "walk w (map in_txHash (inputs tx)) \<noteq> None" if "allTx w h = Some tx" for tx
    proof (rule Suc.IH)
      show "\<forall>g\<in>set (map in_txHash (inputs tx)). g \<noteq> 0 \<and> rank g < n"
        using assms(1) that Cons.prems unfolding ranked_def by fastforce
    qed
    then show ?case using walk_Cons [OF assms(1)] Cons by simp
  qed (simp add: walk_Nil)
qed

lemma walk_returns:
  assumes "ranked rank w" "\<forall>h\<in>set hs. h \<noteq> 0"
  shows "walk w hs \<noteq> None"
proof (rule walk_below [OF assms(1)])
  show "\<forall>h\<in>set hs. h \<noteq> 0 \<and> rank h < Suc (Max (insert 0 (rank ` set hs)))"
    using assms(2) by (auto simp: less_Suc_eq_le intro: Max_ge)
qed

end

lemma ex_bool [simp]: "\<exists>y. y" "\<exists>y. \<not> y"
  by auto

interpretation ascending: tx_walk "\<lambda>w hs. ascending_any w hs tx2" for tx2
proof
  fix w :: BRWallet and rank h hs
  show "ascending_any w [] tx2 \<noteq> None" by (subst ascending_any.simps) simp
  assume "ascending_any w hs tx2 \<noteq> None"
    and "\<And>tx. allTx w h = Some tx \<Longrightarrow> ascending_any w (map in_txHash (inputs tx)) tx2 \<noteq> None"
  then show "ascending_any w (h # hs) tx2 \<noteq> None"
    by (subst ascending_any.simps) (auto split: option.splits)
qed

lemma hash_lookup: "h \<noteq> 0 \<Longrightarrow> BRWalletTransactionForHash w h = Some (allTx w h)"
  by (simp add: BRWalletTransactionForHash_def)

lemma ranked_signed: "ranked rank w \<Longrightarrow> allTx w h = Some tx \<Longrightarrow> BRTransactionIsSigned tx"
  by (simp add: ranked_def)

lemma ranked_inputs: "ranked rank w \<Longrightarrow> allTx w h = Some tx \<Longrightarrow> \<forall>g\<in>set (map in_txHash (inputs tx)). g \<noteq> 0"
  by (auto simp: ranked_def)

interpretation valid: tx_walk valid_all
proof
  fix w rank h hs
  show "valid_all w [] \<noteq> None" by (subst valid_all.simps) simp
  assume "ranked rank w" "h \<noteq> 0" "valid_all w hs \<noteq> None"
    and "\<And>tx. allTx w h = Some tx \<Longrightarrow> valid_all w (map in_txHash (inputs tx)) \<noteq> None"
  then show "valid_all w (h # hs) \<noteq> None"
    by (subst valid_all.simps) (auto simp: hash_lookup ranked_signed split: option.splits)
qed

interpretation pending: tx_walk "pending_any now" for now
proof
  fix w rank h hs
  show "pending_any now w [] \<noteq> None" by (subst pending_any.simps) simp
  assume "ranked rank w" "h \<noteq> 0" "pending_any now w hs \<noteq> None"
    and "\<And>tx. allTx w h = Some tx \<Longrightarrow> pending_any now w (map in_txHash (inputs tx)) \<noteq> None"
  then show "pending_any now w (h # hs) \<noteq> None"
    by (subst pending_any.simps) (auto simp: hash_lookup ranked_signed split: option.splits)
qed

lemma judged:
  assumes "ranked rank w" "BRTransactionIsSigned tx" "\<forall>h\<in>set (map in_txHash (inputs tx)). h \<noteq> 0"
  shows "BRWalletTransactionIsValid w tx \<noteq> None" "BRWalletTransactionIsPending now w tx \<noteq> None"
    "verified_here now w tx \<noteq> None"
proof -
  show v: "BRWalletTransactionIsValid w tx \<noteq> None"
    using valid.walk_returns [OF assms(1,3)] assms(2) by (simp add: BRWalletTransactionIsValid_def)
  show p: "BRWalletTransactionIsPending now w tx \<noteq> None"
    using pending.walk_returns [OF assms(1,3)] assms(2) by (simp add: BRWalletTransactionIsPending_def)
  show "verified_here now w tx \<noteq> None" using v p by (auto simp: verified_here_def)
qed

interpretation verified: tx_walk "verified_all now" for now
proof
  fix w rank h hs
  show "verified_all now w [] \<noteq> None" by (subst verified_all.simps) simp
  assume r: "ranked rank w" and h: "h \<noteq> 0" and hs: "verified_all now w hs \<noteq> None"
    and tx: "\<And>tx. allTx w h = Some tx \<Longrightarrow> verified_all now w (map in_txHash (inputs tx)) \<noteq> None"
  show "verified_all now w (h # hs) \<noteq> None"
  proof (cases "allTx w h")
    case None
    then show ?thesis using h hs by (subst verified_all.simps) (simp add: hash_lookup)
  next
    case (Some t)
    then have "verified_here now w t \<noteq> None" "BRTransactionIsSigned t"
      using judged(3) [OF r ranked_signed [OF r] ranked_inputs [OF r]] ranked_signed [OF r] by blast+
    then show ?thesis using Some h hs tx by (subst verified_all.simps) (auto simp: hash_lookup)
  qed
qed

text \<open>
  C27: when the transactions known to the wallet are signed and none of them depends on itself, the
  recursions of \<open>_BRWalletTxIsAscending\<close>, \<open>BRWalletTransactionIsValid\<close>, \<open>BRWalletTransactionIsPending\<close>
  and \<open>BRWalletTransactionIsVerified\<close> end, without a failed assertion, for every signed transaction
  whose inputs have hashes.\<close>

theorem transaction_walks_return:
  assumes "ranked rank w" "BRTransactionIsSigned tx" "list_all (\<lambda>inp. in_txHash inp \<noteq> 0) (inputs tx)"
  shows "BRWalletTransactionIsValid w tx \<noteq> None \<and> BRWalletTransactionIsPending now w tx \<noteq> None \<and>
    BRWalletTransactionIsVerified now w tx \<noteq> None \<and> BRWalletTxIsAscending w tx tx2 \<noteq> None"
proof -
  have i: "\<forall>h\<in>set (map in_txHash (inputs tx)). h \<noteq> 0" using assms(3) by (auto simp: list_all_iff)
  note j = judged [OF assms(1,2) i]
  have "BRWalletTransactionIsVerified now w tx \<noteq> None"
    using assms(2) j(3) [of now] verified.walk_returns [OF assms(1) i]
    by (auto simp: BRWalletTransactionIsVerified_def)
  moreover have "BRWalletTxIsAscending w tx tx2 \<noteq> None"
    using ascending.walk_returns [OF assms(1) i] by (auto simp: BRWalletTxIsAscending_def split: option.splits)
  ultimately show ?thesis using j(1) j(2) [of now] by blast
qed

definition chained :: "UInt256 \<Rightarrow> UInt256 \<Rightarrow> BRTransaction" where
  "chained h g = \<lparr>txHash = h, tx_version = 1,
     inputs = [\<lparr>in_txHash = g, in_index = 0, in_address = [], in_amount = 0, in_script = None,
       in_signature = SigAlloc [1], in_sequence = 0xffffffff\<rparr>],
     outputs = [], lockTime = 0, blockHeight = TX_UNCONFIRMED, tx_timestamp = 7\<rparr>"

definition chained_wallet :: BRWallet where
  "chained_wallet = (wallet_calloc BR_MASTER_PUBKEY_NONE)\<lparr>allTx := [2 \<mapsto> chained 2 1, 3 \<mapsto> chained 3 2]\<rparr>"

theorem transaction_walks_return_witness:
  "BRWalletTransactionIsValid chained_wallet (chained 4 3) \<noteq> None \<and>
   BRWalletTransactionIsVerified 0 chained_wallet (chained 4 3) \<noteq> None"
proof -
  have s: "BRTransactionIsSigned (chained h g)" for h g by (simp add: chained_def BRTransactionIsSigned_def)
  moreover have "ranked unat chained_wallet"
    using s by (simp add: ranked_def chained_wallet_def wallet_calloc_def) (simp add: chained_def)
  moreover have "list_all (\<lambda>inp. in_txHash inp \<noteq> 0) (inputs (chained 4 3))" by (simp add: chained_def)
  ultimately show ?thesis using transaction_walks_return [of unat chained_wallet "chained 4 3" 0] by blast
qed

end
