(* ===== verification/BRPeerManager.thy ===== *)
theory BRPeerManager
  imports BRWallet BRBloomFilter PeerThread
begin

text \<open>
  \<open>src/Modules/core/BRPeerManager.c\<close>: the owner of the connections. It chooses nodes to connect to,
  downloads the chain of blocks from one of them, keeps the wallet up to date and publishes transactions.

  A pointer to a \<open>BRPeer\<close> is a number: \<open>conns\<close> has the connection of each peer that is allocated. The
  functions of a peer are those of \<open>BRPeer\<close>. A \<open>BRPeerCallbackInfo\<close> that was passed to a peer, with
  the function to be called, is a number too; \<open>infos\<close> has those that are allocated, so that the call of one
  that was freed is undefined. Blocks are kept once, in \<open>blocks\<close> under their hash; \<open>lastBlock\<close> is this
  hash, and following it when the block was freed is undefined. A transaction in \<open>publishedTx\<close> that
  the wallet knows is the wallet's. The calls of the callbacks of the application and of the wallet are
  logged in \<open>m_events\<close>. The lock is left out: each function runs while it holds the lock, and what
  other threads do in between are other steps. The doubles \<open>fpRate\<close> and \<open>averageTxPerBlock\<close> are
  rational numbers. \<open>None\<close> is undefined behaviour, a failed assertion or a loop that does not end.
\<close>

section \<open>State\<close>

definition PROTOCOL_TIMEOUT :: rat where "PROTOCOL_TIMEOUT = 20"
definition MAX_CONNECT_FAILURES :: nat where "MAX_CONNECT_FAILURES = 20"
definition PEER_MAX_CONNECTIONS :: nat where "PEER_MAX_CONNECTIONS = 3"
definition PEER_FLAG_SYNCED :: u8 where "PEER_FLAG_SYNCED = 0x01"
definition PEER_FLAG_NEEDSUPDATE :: u8 where "PEER_FLAG_NEEDSUPDATE = 0x02"
definition SERVICES_NODE_BLOOM :: u64 where "SERVICES_NODE_BLOOM = 0x04"
definition SERVICES_NODE_BCASH :: u64 where "SERVICES_NODE_BCASH = 0x20"
definition REJECT_SPENT :: u8 where "REJECT_SPENT = 0x12"
definition BLOCK_DIFFICULTY_INTERVAL :: u32 where "BLOCK_DIFFICULTY_INTERVAL = 2016"
definition DGW_BLOCK_DIFFICULTY_INTERVAL :: u32 where "DGW_BLOCK_DIFFICULTY_INTERVAL = 1"
definition BLOOM_UPDATE_ALL :: u8 where "BLOOM_UPDATE_ALL = 1"
definition BLOOM_DEFAULT_FALSEPOSITIVE_RATE :: rat where "BLOOM_DEFAULT_FALSEPOSITIVE_RATE = 5 / 10000"
definition BLOOM_REDUCED_FALSEPOSITIVE_RATE :: rat where "BLOOM_REDUCED_FALSEPOSITIVE_RATE = 5 / 100000"
definition MAX_FEE_PER_KB :: u64 where "MAX_FEE_PER_KB = (1000100 * 1000 + 190) div 191"
definition WEEK :: u32 where "WEEK = 7 * 24 * 60 * 60"
definition EINVAL :: int where "EINVAL = 22"
definition ENETUNREACH :: int where "ENETUNREACH = 51"
definition ENOTCONN :: int where "ENOTCONN = 57"

record BRPublishedTx =
  pub_tx :: BRTransaction
  pub_callback :: callback

record BRTxPeerList =
  txl_hash :: UInt256
  txl_peers :: "BRPeer list"

text \<open>The functions that are passed to a peer together with a \<open>BRPeerCallbackInfo\<close>.\<close>

datatype task =
    UpdateFilterRerequestDone
  | UpdateFilterLoadDone
  | UpdateFilterPingDone
  | RequestUnrelayedTxGetdataDone
  | MempoolDone
  | LoadBloomFilterDone
  | PublishTxInvDone

datatype manager_event =
    SyncStarted
  | SyncStopped int
  | TxStatusUpdate
  | SaveBlocks bool "BRMerkleBlock list"
  | SavePeers bool "BRPeer list"
  | Published nat int
  | WalletEvent wallet_event

record BRPeerManager =
  m_wallet :: BRWallet
  isConnected :: bool
  connectFailureCount :: nat
  misbehavinCount :: nat
  dnsThreadCount :: nat
  maxConnectCount :: nat
  peers :: "BRPeer list"
  downloadPeer :: "nat option"
  fixedPeer :: BRPeer
  connectedPeers :: "nat list"
  m_earliestKeyTime :: u32
  syncStartHeight :: u32
  filterUpdateHeight :: u32
  estimatedHeight :: u32
  bloomFilter :: "BRBloomFilter option"
  fpRate :: rat
  averageTxPerBlock :: rat
  blocks :: block_table
  orphans :: block_table
  checkpoints :: "u32 \<rightharpoonup> BRMerkleBlock"
  lastBlock :: "UInt256 option"
  lastOrphan :: "BRMerkleBlock option"
  txRelays :: "BRTxPeerList list"
  txRequests :: "BRTxPeerList list"
  publishedTx :: "BRPublishedTx list"
  publishedTxHashes :: "UInt256 list"
  conns :: "nat \<rightharpoonup> BRPeerContext"
  infos :: "nat \<rightharpoonup> task \<times> nat"
  m_next :: nat
  pastCount :: nat
  m_events :: "manager_event list"

record checkpoint =
  cp_height :: u32
  cp_hash :: UInt256
  cp_timestamp :: u32
  cp_target :: u32

text \<open>
  The surroundings: those of the peers, the curve library and whether growing address chains move, the
  two expressions on doubles of \<open>BRBloomFilterNew\<close> (of rate and count), the checkpoints, whether the
  network is reachable and a peer's thread can be created, the values of \<open>rand()\<close>, the addresses that
  each name server gives, how many threads for them start, and which end while the manager waits.
\<close>

record ('k, 's, 'r) manager_env =
  me_peer :: peer_env
  me_secp :: "('k, 's, 'r) secp"
  me_moved :: bool
  me_bloom :: "rat \<Rightarrow> nat \<Rightarrow> nat \<times> (nat \<Rightarrow> u32)"
  me_checkpoints :: "checkpoint list"
  me_reachable :: bool
  me_created :: "nat \<Rightarrow> bool"
  me_rand :: "u32 list"
  me_lookup :: "nat \<Rightarrow> UInt128 list"
  me_threads :: nat
  me_finished :: "nat list"

abbreviation testnet :: "('k, 's, 'r) manager_env \<Rightarrow> bool" where "testnet E \<equiv> env_testnet (me_peer E)"
abbreviation now :: "('k, 's, 'r) manager_env \<Rightarrow> u64" where "now E \<equiv> env_time (me_peer E)"
abbreviation wallet_now :: "('k, 's, 'r) manager_env \<Rightarrow> int" where "wallet_now E \<equiv> uint (env_time (me_peer E))"

primrec fold_m :: "('s \<Rightarrow> 'a \<Rightarrow> 's option) \<Rightarrow> 's \<Rightarrow> 'a list \<Rightarrow> 's option" where
  "fold_m f s [] = Some s"
| "fold_m f s (x # xs) = do { s \<leftarrow> f s x; fold_m f s xs }"

definition m_log :: "manager_event list \<Rightarrow> BRPeerManager \<Rightarrow> BRPeerManager" where
  "m_log es m = m\<lparr>m_events := m_events m @ es\<rparr>"

definition on_peer :: "nat \<Rightarrow> (BRPeerContext \<Rightarrow> BRPeerContext) \<Rightarrow> BRPeerManager \<Rightarrow> BRPeerManager option" where
  "on_peer p f m = do { ctx \<leftarrow> conns m p; Some (m\<lparr>conns := (conns m)(p \<mapsto> f ctx)\<rparr>) }"

definition last_block :: "BRPeerManager \<Rightarrow> BRMerkleBlock option" where
  "last_block m = do { h \<leftarrow> lastBlock m; blocks m h }"

definition set_flag :: "u8 \<Rightarrow> BRPeerContext \<Rightarrow> BRPeerContext" where
  "set_flag b ctx = ctx\<lparr>peer := (peer ctx)\<lparr>p_flags := p_flags (peer ctx) OR b\<rparr>\<rparr>"

definition clear_flag :: "u8 \<Rightarrow> BRPeerContext \<Rightarrow> BRPeerContext" where
  "clear_flag b ctx = ctx\<lparr>peer := (peer ctx)\<lparr>p_flags := p_flags (peer ctx) AND NOT b\<rparr>\<rparr>"

definition has_flag :: "u8 \<Rightarrow> BRPeerContext \<Rightarrow> bool" where
  "has_flag b ctx \<longleftrightarrow> p_flags (peer ctx) AND b \<noteq> 0"

definition new_info :: "task \<Rightarrow> nat \<Rightarrow> BRPeerManager \<Rightarrow> BRPeerManager \<times> nat" where
  "new_info t p m = (m\<lparr>infos := (infos m)(m_next m \<mapsto> (t, p)), m_next := m_next m + 1\<rparr>, m_next m)"

definition free_info :: "nat \<Rightarrow> BRPeerManager \<Rightarrow> BRPeerManager" where
  "free_info c m = m\<lparr>infos := (infos m)(c := None)\<rparr>"

section \<open>Lists of peers of a transaction\<close>

text \<open>The loops run from the end: they find the last entry of a hash and the last equal peer in it.\<close>

definition last_entry :: "BRTxPeerList list \<Rightarrow> UInt256 \<Rightarrow> BRTxPeerList option" where
  "last_entry list h = find (\<lambda>e. txl_hash e = h) (rev list)"

primrec update_first :: "('a \<Rightarrow> bool) \<Rightarrow> ('a \<Rightarrow> 'a list) \<Rightarrow> 'a list \<Rightarrow> 'a list" where
  "update_first P f [] = []"
| "update_first P f (x # xs) = (if P x then f x @ xs else x # update_first P f xs)"

definition update_last :: "('a \<Rightarrow> bool) \<Rightarrow> ('a \<Rightarrow> 'a list) \<Rightarrow> 'a list \<Rightarrow> 'a list" where
  "update_last P f xs = rev (update_first P f (rev xs))"

definition BRTxPeerListHasPeer :: "BRTxPeerList list \<Rightarrow> UInt256 \<Rightarrow> BRPeer \<Rightarrow> bool" where
  "BRTxPeerListHasPeer list h p = (case last_entry list h of
     None \<Rightarrow> False | Some e \<Rightarrow> list_ex (\<lambda>q. BRPeerEq q p) (txl_peers e))"

definition BRTxPeerListCount :: "BRTxPeerList list \<Rightarrow> UInt256 \<Rightarrow> nat" where
  "BRTxPeerListCount list h = (case last_entry list h of None \<Rightarrow> 0 | Some e \<Rightarrow> length (txl_peers e))"

definition BRTxPeerListAddPeer :: "BRTxPeerList list \<Rightarrow> UInt256 \<Rightarrow> BRPeer \<Rightarrow> BRTxPeerList list \<times> nat" where
  "BRTxPeerListAddPeer list h p = (case last_entry list h of
     None \<Rightarrow> (list @ [\<lparr>txl_hash = h, txl_peers = [p]\<rparr>], 1)
   | Some e \<Rightarrow>
       if list_ex (\<lambda>q. BRPeerEq q p) (txl_peers e) then (list, length (txl_peers e))
       else (update_last (\<lambda>e. txl_hash e = h) (\<lambda>e. [e\<lparr>txl_peers := txl_peers e @ [p]\<rparr>]) list, length (txl_peers e) + 1))"

definition BRTxPeerListRemovePeer :: "BRTxPeerList list \<Rightarrow> UInt256 \<Rightarrow> BRPeer \<Rightarrow> BRTxPeerList list \<times> bool" where
  "BRTxPeerListRemovePeer list h p = (case last_entry list h of
     None \<Rightarrow> (list, False)
   | Some e \<Rightarrow>
       if list_ex (\<lambda>q. BRPeerEq q p) (txl_peers e)
       then (update_last (\<lambda>e. txl_hash e = h)
               (\<lambda>e. [e\<lparr>txl_peers := update_last (\<lambda>q. BRPeerEq q p) (\<lambda>_. []) (txl_peers e)\<rparr>]) list, True)
       else (list, False))"

definition relay_add :: "UInt256 \<Rightarrow> BRPeer \<Rightarrow> BRPeerManager \<Rightarrow> BRPeerManager \<times> nat" where
  "relay_add h p m = (case BRTxPeerListAddPeer (txRelays m) h p of (l, n) \<Rightarrow> (m\<lparr>txRelays := l\<rparr>, n))"

text \<open>The most recent first; peers of the same time stay in their order.\<close>

definition sort_peers :: "BRPeer list \<Rightarrow> BRPeer list" where
  "sort_peers ps = rev (sort_key p_timestamp (rev ps))"

section \<open>Peers, the chain and the filter\<close>

definition BRPeerManagerPeerMisbehavin :: "nat \<Rightarrow> BRPeerManager \<Rightarrow> BRPeerManager option" where
  "BRPeerManagerPeerMisbehavin p m = do {
     ctx \<leftarrow> conns m p;
     let m = m\<lparr>peers := filter (\<lambda>q. \<not> BRPeerEq q (peer ctx)) (peers m), misbehavinCount := misbehavinCount m + 1\<rparr>;
     let m = (if misbehavinCount m \<ge> 10 then m\<lparr>misbehavinCount := 0, peers := []\<rparr> else m);
     on_peer p BRPeerDisconnect m }"

definition pending_callbacks :: "BRPeerManager \<Rightarrow> bool" where
  "pending_callbacks m = list_ex (\<lambda>p. pub_callback p \<noteq> None) (publishedTx m)"

definition schedule :: "('k, 's, 'r) manager_env \<Rightarrow> nat \<Rightarrow> rat \<Rightarrow> BRPeerManager \<Rightarrow> BRPeerManager option" where
  "schedule E p seconds m = on_peer p (\<lambda>ctx. BRPeerScheduleDisconnect (me_peer E) ctx seconds) m"

definition BRPeerManagerSyncStopped :: "('k, 's, 'r) manager_env \<Rightarrow> BRPeerManager \<Rightarrow> BRPeerManager option" where
  "BRPeerManagerSyncStopped E m = (let m = m\<lparr>syncStartHeight := 0\<rparr> in
     case downloadPeer m of
       None \<Rightarrow> Some m
     | Some p \<Rightarrow> if pending_callbacks m then Some m else schedule E p (- 1) m)"

text \<open>
  The recursion of \<open>_BRPeerManagerAddTxToPublishList\<close> over the inputs, as a loop over the hashes that are
  still to be looked up.
\<close>

definition publish_one :: "BRTransaction \<Rightarrow> callback \<Rightarrow> BRPublishedTx list \<Rightarrow> BRPublishedTx list option" where
  "publish_one tx c pub =
     (if blockHeight tx \<noteq> TX_UNCONFIRMED \<or> list_ex (\<lambda>p. BRTransactionEq (pub_tx p) tx) pub then None
      else Some (pub @ [\<lparr>pub_tx = tx, pub_callback = c\<rparr>]))"

partial_function (option) publish_inputs :: "BRWallet \<Rightarrow> UInt256 list \<Rightarrow> BRPublishedTx list \<Rightarrow> BRPublishedTx list option" where
  "publish_inputs wallet hs pub = (case hs of
     [] \<Rightarrow> Some pub
   | h # hs \<Rightarrow> do {
       t \<leftarrow> BRWalletTransactionForHash wallet h;
       case t of
         None \<Rightarrow> publish_inputs wallet hs pub
       | Some tx \<Rightarrow> (case publish_one tx None pub of
           None \<Rightarrow> publish_inputs wallet hs pub
         | Some pub' \<Rightarrow> publish_inputs wallet (map in_txHash (inputs tx) @ hs) pub') })"

declare publish_inputs.simps [code]

definition BRPeerManagerAddTxToPublishList :: "BRTransaction \<Rightarrow> callback \<Rightarrow> BRPeerManager \<Rightarrow> BRPeerManager option" where
  "BRPeerManagerAddTxToPublishList tx c m = (case publish_one tx c (publishedTx m) of
     None \<Rightarrow> Some m
   | Some pub \<Rightarrow> do {
       pub' \<leftarrow> publish_inputs (m_wallet m) (map in_txHash (inputs tx)) pub;
       Some (m\<lparr>publishedTx := pub', publishedTxHashes := publishedTxHashes m @
         map (txHash \<circ> pub_tx) (drop (length (publishedTx m)) pub')\<rparr>) })"

primrec walk_back :: "block_table \<Rightarrow> nat \<Rightarrow> BRMerkleBlock option \<Rightarrow> BRMerkleBlock option" where
  "walk_back bs 0 b = b"
| "walk_back bs (Suc n) b = (case b of None \<Rightarrow> None | Some b \<Rightarrow> walk_back bs n (bs (prevBlock b)))"

partial_function (option) locator_loop :: "block_table \<Rightarrow> BRMerkleBlock option \<Rightarrow> nat \<Rightarrow> nat \<Rightarrow> UInt256 list option" where
  "locator_loop bs block step i = (case block of
     None \<Rightarrow> Some []
   | Some b \<Rightarrow>
       if height b > 0 then do {
         let step = (if i + 1 \<ge> 10 then step * 2 else step);
         hs \<leftarrow> locator_loop bs (walk_back bs step (Some b)) step (i + 1);
         Some (blockHash b # hs) }
       else Some [])"

declare locator_loop.simps [code]

text \<open>The locators written to an array of \<open>cap\<close> elements, and their number.\<close>

definition BRPeerManagerBlockLocators :: "('k, 's, 'r) manager_env \<Rightarrow> BRPeerManager \<Rightarrow> nat \<Rightarrow> (UInt256 list \<times> nat) option" where
  "BRPeerManagerBlockLocators E m cap = do {
     top \<leftarrow> (case lastBlock m of None \<Rightarrow> Some None | Some h \<Rightarrow> map_option Some (blocks m h));
     hs \<leftarrow> locator_loop (blocks m) top 1 0;
     case me_checkpoints E of
       [] \<Rightarrow> None
     | genesis # _ \<Rightarrow> Some (take cap (hs @ [cp_hash genesis]), length hs + 1) }"

definition locators :: "('k, 's, 'r) manager_env \<Rightarrow> BRPeerManager \<Rightarrow> UInt256 list option" where
  "locators E m = do {
     (_, n) \<leftarrow> BRPeerManagerBlockLocators E m 0;
     (hs, n) \<leftarrow> BRPeerManagerBlockLocators E m n;
     Some (take n hs) }"

definition unused_addrs :: "('k, 's, 'r) manager_env \<Rightarrow> nat \<Rightarrow> bool \<Rightarrow> BRPeerManager \<Rightarrow> (BRPeerManager \<times> bytes list) option" where
  "unused_addrs E gap internal m = do {
     (w, addrs) \<leftarrow> BRWalletUnusedAddrs (testnet E) (me_secp E) (me_moved E) (m_wallet m) gap internal;
     Some (m\<lparr>m_wallet := w\<rparr>, addrs) }"

definition bloom_add :: "BRBloomFilter \<Rightarrow> bytes \<Rightarrow> BRBloomFilter option" where
  "bloom_add f data = do {
     known \<leftarrow> BRBloomFilterContainsData f (Some data);
     if known then Some f else BRBloomFilterInsertData f (Some data) }"

definition watch_address :: "BRBloomFilter \<Rightarrow> bytes \<Rightarrow> BRBloomFilter option" where
  "watch_address f addr = (case BRAddressHash160 addr of
     None \<Rightarrow> Some f
   | Some h \<Rightarrow> if h = replicate 20 0 then Some f else bloom_add f h)"

definition watch_output :: "BRBloomFilter \<Rightarrow> BRUTXO \<Rightarrow> BRBloomFilter option" where
  "watch_output f u = bloom_add f (UInt256Set (utxo_hash u) @ UInt32SetLE (utxo_n u))"

definition watch_spent :: "BRWallet \<Rightarrow> BRBloomFilter \<Rightarrow> UInt256 \<Rightarrow> BRBloomFilter option" where
  "watch_spent wallet f h = do {
     tx \<leftarrow> allTx wallet h;
     fold_m (\<lambda>f inp. do {
       t \<leftarrow> BRWalletTransactionForHash wallet (in_txHash inp);
       case t of
         None \<Rightarrow> Some f
       | Some t \<Rightarrow>
           if unat (in_index inp) < length (outputs t) \<and>
              BRWalletContainsAddress wallet (out_address (outputs t ! unat (in_index inp)))
           then watch_output f \<lparr>utxo_hash = in_txHash inp, utxo_n = in_index inp\<rparr>
           else Some f }) f (inputs tx) }"

definition wallet_filter :: "('k, 's, 'r) manager_env \<Rightarrow> BRWallet \<Rightarrow> rat \<Rightarrow> u32 \<Rightarrow> BRPeer \<Rightarrow> BRBloomFilter option" where
  "wallet_filter E wallet rate bh p = do {
     let addrs = fst (BRWalletAllAddrs wallet (Some (snd (BRWalletAllAddrs wallet None))));
     let us = fst (BRWalletUTXOs wallet (Some (snd (BRWalletUTXOs wallet None))));
     let txs = fst (BRWalletTxUnconfirmedBefore wallet (Some (snd (BRWalletTxUnconfirmedBefore wallet None bh))) bh);
     let (len, funcs) = me_bloom E rate (length addrs + length us + length txs + 100);
     let f = BRBloomFilterNew False len funcs (of_nat (BRPeerHash p)) BLOOM_UPDATE_ALL;
     f \<leftarrow> fold_m watch_address f addrs;
     f \<leftarrow> fold_m watch_output f us;
     fold_m (watch_spent wallet) f txs }"

definition filter_bytes :: "BRBloomFilter \<Rightarrow> bytes" where
  "filter_bytes f = (case BRBloomFilterSerialize f (Some (replicate (snd (BRBloomFilterSerialize f None)) 0)) of
     (b, n) \<Rightarrow> take n (the b))"

definition BRPeerManagerLoadBloomFilter :: "('k, 's, 'r) manager_env \<Rightarrow> nat \<Rightarrow> BRPeerManager \<Rightarrow> BRPeerManager option" where
  "BRPeerManagerLoadBloomFilter E p m = do {
     (m, _) \<leftarrow> unused_addrs E (SEQUENCE_GAP_LIMIT_EXTERNAL + 100) False m;
     (m, _) \<leftarrow> unused_addrs E (SEQUENCE_GAP_LIMIT_INTERNAL + 100) True m;
     lb \<leftarrow> last_block m;
     let m = m\<lparr>orphans := Map.empty, lastOrphan := None, filterUpdateHeight := height lb,
               fpRate := BLOOM_REDUCED_FALSEPOSITIVE_RATE\<rparr>;
     ctx \<leftarrow> conns m p;
     f \<leftarrow> wallet_filter E (m_wallet m) (fpRate m) (if height lb > 100 then height lb - 100 else 0) (peer ctx);
     on_peer p (\<lambda>ctx. BRPeerSendFilterload (me_peer E) ctx (filter_bytes f)) (m\<lparr>bloomFilter := Some f\<rparr>) }"

definition send_ping :: "('k, 's, 'r) manager_env \<Rightarrow> nat \<Rightarrow> nat \<Rightarrow> BRPeerManager \<Rightarrow> BRPeerManager option" where
  "send_ping E p c m = on_peer p (\<lambda>ctx. BRPeerSendPing (me_peer E) ctx (Some c)) m"

text \<open>The ping with a newly allocated info about the peer \<open>q\<close>.\<close>

definition ping_with :: "('k, 's, 'r) manager_env \<Rightarrow> nat \<Rightarrow> task \<Rightarrow> nat \<Rightarrow> BRPeerManager \<Rightarrow> BRPeerManager option" where
  "ping_with E p t q m = (case new_info t q m of (m, c) \<Rightarrow> send_ping E p c m)"

text \<open>A request that is refused calls \<open>_mempoolDone\<close> without success, which frees the info.\<close>

definition send_mempool :: "('k, 's, 'r) manager_env \<Rightarrow> nat \<Rightarrow> UInt256 list \<Rightarrow> callback \<Rightarrow> BRPeerManager \<Rightarrow> BRPeerManager option" where
  "send_mempool E p hs c m = do {
     ctx \<leftarrow> conns m p;
     let refused = (sentMempool ctx \<or> mempoolCallback ctx \<noteq> None);
     m \<leftarrow> on_peer p (\<lambda>ctx. BRPeerSendMempool ((me_peer E)\<lparr>env_call := (\<lambda>_ ctx. ctx)\<rparr>) ctx hs c) m;
     Some (case c of None \<Rightarrow> m | Some c \<Rightarrow> if refused then free_info c m else m) }"

definition send_getblocks :: "('k, 's, 'r) manager_env \<Rightarrow> nat \<Rightarrow> BRPeerManager \<Rightarrow> BRPeerManager option" where
  "send_getblocks E p m = do {
     hs \<leftarrow> locators E m;
     on_peer p (\<lambda>ctx. BRPeerSendGetblocks (me_peer E) ctx hs 0) m }"

section \<open>Updating the filter\<close>

definition update_filter_rerequest_done :: "('k, 's, 'r) manager_env \<Rightarrow> nat \<Rightarrow> bool \<Rightarrow> BRPeerManager \<Rightarrow> BRPeerManager option" where
  "update_filter_rerequest_done E p success m =
     (if success then do {
        ctx \<leftarrow> conns m p;
        if \<not> has_flag PEER_FLAG_NEEDSUPDATE ctx then send_getblocks E p m else Some m }
      else Some m)"

definition update_filter_load_done :: "('k, 's, 'r) manager_env \<Rightarrow> nat \<Rightarrow> bool \<Rightarrow> BRPeerManager \<Rightarrow> BRPeerManager option" where
  "update_filter_load_done E p success m =
     (if success then do {
        m \<leftarrow> on_peer p (\<lambda>ctx. clear_flag PEER_FLAG_NEEDSUPDATE (BRPeerSetNeedsFilterUpdate ctx False)) m;
        lb \<leftarrow> last_block m;
        if height lb < estimatedHeight m then do {
          d \<leftarrow> downloadPeer m;
          m \<leftarrow> on_peer d (\<lambda>ctx. BRPeerRerequestBlocks (me_peer E) ctx (blockHash lb)) m;
          ping_with E d UpdateFilterRerequestDone p m }
        else send_mempool E p [] None m }
      else Some m)"

text \<open>The step for each connected peer of the loops over them.\<close>

definition if_connected :: "(nat \<Rightarrow> BRPeerManager \<Rightarrow> BRPeerManager option) \<Rightarrow> BRPeerManager \<Rightarrow> nat \<Rightarrow> BRPeerManager option" where
  "if_connected f m p = do {
     ctx \<leftarrow> conns m p;
     if BRPeerConnectStatus ctx \<noteq> BRPeerStatusConnected then Some m else f p m }"

definition update_filter_ping_done :: "('k, 's, 'r) manager_env \<Rightarrow> nat \<Rightarrow> nat \<Rightarrow> bool \<Rightarrow> BRPeerManager \<Rightarrow> BRPeerManager option" where
  "update_filter_ping_done E c p success m =
     (if success then do {
        let m = m\<lparr>bloomFilter := None\<rparr>;
        lb \<leftarrow> last_block m;
        if height lb < estimatedHeight m then
          (case downloadPeer m of
             None \<Rightarrow> Some (free_info c m)
           | Some d \<Rightarrow> do {
               m \<leftarrow> BRPeerManagerLoadBloomFilter E d m;
               send_ping E d c (m\<lparr>infos := (infos m)(c \<mapsto> (UpdateFilterLoadDone, p))\<rparr>) })
        else fold_m (if_connected (\<lambda>q m. do {
               m \<leftarrow> BRPeerManagerLoadBloomFilter E q m;
               ping_with E q UpdateFilterLoadDone q m })) (free_info c m) (rev (connectedPeers m)) }
      else Some (free_info c m))"

definition BRPeerManagerUpdateFilter :: "('k, 's, 'r) manager_env \<Rightarrow> BRPeerManager \<Rightarrow> BRPeerManager option" where
  "BRPeerManagerUpdateFilter E m = (case downloadPeer m of
     None \<Rightarrow> Some m
   | Some d \<Rightarrow> do {
       ctx \<leftarrow> conns m d;
       if has_flag PEER_FLAG_NEEDSUPDATE ctx then Some m
       else do {
         m \<leftarrow> on_peer d (\<lambda>ctx. set_flag PEER_FLAG_NEEDSUPDATE (BRPeerSetNeedsFilterUpdate ctx True)) m;
         ping_with E d UpdateFilterPingDone d m } })"

section \<open>Transactions\<close>

definition update_transactions ::
  "('k, 's, 'r) manager_env \<Rightarrow> UInt256 list \<Rightarrow> u32 \<Rightarrow> u32 \<Rightarrow> BRPeerManager \<Rightarrow> BRPeerManager option" where
  "update_transactions E hs bh ts m = do {
     (w, es) \<leftarrow> BRWalletUpdateTransactions (wallet_now E) (m_wallet m) hs bh ts;
     Some (m_log (map WalletEvent es) (m\<lparr>m_wallet := w\<rparr>)) }"

definition register_tx :: "('k, 's, 'r) manager_env \<Rightarrow> BRTransaction \<Rightarrow> BRPeerManager \<Rightarrow> (BRPeerManager \<times> bool) option" where
  "register_tx E tx m = do {
     (w, r, es) \<leftarrow> BRWalletRegisterTransaction (testnet E) (me_secp E) (me_moved E) (wallet_now E) (m_wallet m) tx;
     Some (m_log (map WalletEvent es) (m\<lparr>m_wallet := w\<rparr>), r) }"

definition remove_tx :: "('k, 's, 'r) manager_env \<Rightarrow> UInt256 \<Rightarrow> BRPeerManager \<Rightarrow> BRPeerManager option" where
  "remove_tx E h m = do {
     (w, es) \<leftarrow> BRWalletRemoveTransaction (wallet_now E) (m_wallet m) h;
     Some (m_log (map WalletEvent es) (m\<lparr>m_wallet := w\<rparr>)) }"

text \<open>\<open>publishedTx\<close> and \<open>publishedTxHashes\<close> are read at the same indices.\<close>

definition published :: "BRPeerManager \<Rightarrow> (BRPublishedTx \<times> UInt256) list option" where
  "published m = (if length (publishedTx m) = length (publishedTxHashes m)
     then Some (zip (publishedTx m) (publishedTxHashes m)) else None)"

definition set_published :: "(BRPublishedTx \<times> UInt256) list \<Rightarrow> BRPeerManager \<Rightarrow> BRPeerManager" where
  "set_published ps m = m\<lparr>publishedTx := map fst ps, publishedTxHashes := map snd ps\<rparr>"

definition drop_confirmed :: "BRPeerManager \<Rightarrow> UInt256 \<Rightarrow> BRPeerManager option" where
  "drop_confirmed m h = do {
     ps \<leftarrow> published m;
     Some ((set_published (filter (\<lambda>(p, _). txHash (pub_tx p) \<noteq> h) ps) m)
       \<lparr>txRelays := filter (\<lambda>e. txl_hash e \<noteq> h) (txRelays m)\<rparr>) }"

definition BRPeerManagerUpdateTx ::
  "('k, 's, 'r) manager_env \<Rightarrow> UInt256 list \<Rightarrow> u32 \<Rightarrow> u32 \<Rightarrow> BRPeerManager \<Rightarrow> BRPeerManager option" where
  "BRPeerManagerUpdateTx E hs bh ts m = do {
     m \<leftarrow> (if bh \<noteq> TX_UNCONFIRMED then fold_m drop_confirmed m hs else Some m);
     update_transactions E hs bh ts m }"

text \<open>The number of connected peers when all are synced, 0 otherwise.\<close>

primrec synced_count :: "(nat \<rightharpoonup> BRPeerContext) \<Rightarrow> nat list \<Rightarrow> nat \<Rightarrow> nat option" where
  "synced_count cs [] n = Some n"
| "synced_count cs (p # ps) n = do {
     ctx \<leftarrow> cs p;
     let n = (if BRPeerConnectStatus ctx = BRPeerStatusConnected then n + 1 else n);
     if has_flag PEER_FLAG_SYNCED ctx then synced_count cs ps n else Some 0 }"

definition unrelayed_tx :: "('k, 's, 'r) manager_env \<Rightarrow> BRPeerManager \<Rightarrow> UInt256 \<Rightarrow> BRPeerManager option" where
  "unrelayed_tx E m h = (let
     isPublishing = list_ex (\<lambda>p. txHash (pub_tx p) = h \<and> pub_callback p \<noteq> None) (publishedTx m)
   in if \<not> isPublishing \<and> BRTxPeerListCount (txRelays m) h = 0 \<and> BRTxPeerListCount (txRequests m) h = 0
      then remove_tx E h m
      else if \<not> isPublishing \<and> BRTxPeerListCount (txRelays m) h < maxConnectCount m
      then BRPeerManagerUpdateTx E [h] TX_UNCONFIRMED 0 m
      else Some m)"

definition request_unrelayed_tx_getdata_done ::
  "('k, 's, 'r) manager_env \<Rightarrow> nat \<Rightarrow> bool \<Rightarrow> BRPeerManager \<Rightarrow> BRPeerManager option" where
  "request_unrelayed_tx_getdata_done E p success m = do {
     m \<leftarrow> (if success then on_peer p (set_flag PEER_FLAG_SYNCED) m else Some m);
     n \<leftarrow> synced_count (conns m) (rev (connectedPeers m)) 0;
     if n \<ge> maxConnectCount m then
       let txCount = snd (BRWalletTxUnconfirmedBefore (m_wallet m) None TX_UNCONFIRMED)
       in fold_m (unrelayed_tx E) m
            (fst (BRWalletTxUnconfirmedBefore (m_wallet m) (Some (if txCount < 10000 then txCount else 10000)) TX_UNCONFIRMED))
     else Some m }"

definition BRPeerManagerRequestUnrelayedTx :: "('k, 's, 'r) manager_env \<Rightarrow> nat \<Rightarrow> BRPeerManager \<Rightarrow> BRPeerManager option" where
  "BRPeerManagerRequestUnrelayedTx E p m = do {
     ctx \<leftarrow> conns m p;
     let txs = fst (BRWalletTxUnconfirmedBefore (m_wallet m)
       (Some (snd (BRWalletTxUnconfirmedBefore (m_wallet m) None TX_UNCONFIRMED))) TX_UNCONFIRMED);
     let (m, hs) = foldl (\<lambda>(m, hs) h.
         if \<not> BRTxPeerListHasPeer (txRelays m) h (peer ctx) \<and> \<not> BRTxPeerListHasPeer (txRequests m) h (peer ctx)
         then (m\<lparr>txRequests := fst (BRTxPeerListAddPeer (txRequests m) h (peer ctx))\<rparr>, hs @ [h])
         else (m, hs)) (m, []) txs;
     if length hs > 0 then do {
       m \<leftarrow> on_peer p (\<lambda>ctx. BRPeerSendGetdata (me_peer E) ctx hs []) m;
       if \<not> has_flag PEER_FLAG_SYNCED ctx then ping_with E p RequestUnrelayedTxGetdataDone p m else Some m }
     else on_peer p (set_flag PEER_FLAG_SYNCED) m }"

definition BRPeerManagerPublishPendingTx :: "('k, 's, 'r) manager_env \<Rightarrow> nat \<Rightarrow> BRPeerManager \<Rightarrow> BRPeerManager option" where
  "BRPeerManagerPublishPendingTx E p m = do {
     m \<leftarrow> (if pending_callbacks m then schedule E p PROTOCOL_TIMEOUT m else Some m);
     on_peer p (\<lambda>ctx. BRPeerSendInv (me_peer E) ctx (publishedTxHashes m)) m }"

definition mempool_done :: "('k, 's, 'r) manager_env \<Rightarrow> nat \<Rightarrow> bool \<Rightarrow> BRPeerManager \<Rightarrow> BRPeerManager option" where
  "mempool_done E p success m =
     (if success then do {
        let syncFinished = (syncStartHeight m > 0);
        m \<leftarrow> (if syncFinished then BRPeerManagerSyncStopped E m else Some m);
        m \<leftarrow> BRPeerManagerRequestUnrelayedTx E p m;
        m \<leftarrow> on_peer p (BRPeerSendGetaddr (me_peer E)) m;
        Some (m_log (TxStatusUpdate # (if syncFinished then [SyncStopped 0] else [])) m) }
      else Some m)"

definition load_bloom_filter_done :: "('k, 's, 'r) manager_env \<Rightarrow> nat \<Rightarrow> nat \<Rightarrow> bool \<Rightarrow> BRPeerManager \<Rightarrow> BRPeerManager option" where
  "load_bloom_filter_done E c p success m =
     (if success then send_mempool E p (publishedTxHashes m) (Some c) (m\<lparr>infos := (infos m)(c \<mapsto> (MempoolDone, p))\<rparr>)
      else let m = free_info c m in
        if downloadPeer m = Some p then do {
          m \<leftarrow> BRPeerManagerSyncStopped E m;
          Some (m_log [SyncStopped 0] m) }
        else Some m)"

definition BRPeerManagerLoadMempools :: "('k, 's, 'r) manager_env \<Rightarrow> BRPeerManager \<Rightarrow> BRPeerManager option" where
  "BRPeerManagerLoadMempools E m = fold_m (if_connected (\<lambda>p m.
       if downloadPeer m \<noteq> Some p \<or> fpRate m > BLOOM_REDUCED_FALSEPOSITIVE_RATE * 5 then do {
         let (m, c) = new_info LoadBloomFilterDone p m;
         m \<leftarrow> BRPeerManagerLoadBloomFilter E p m;
         m \<leftarrow> BRPeerManagerPublishPendingTx E p m;
         send_ping E p c m }
       else case new_info MempoolDone p m of (m, c) \<Rightarrow> send_mempool E p (publishedTxHashes m) (Some c) m))
     m (rev (connectedPeers m))"

section \<open>Finding and connecting peers\<close>

definition SEED_SERVICES :: u64 where "SEED_SERVICES = SERVICES_NODE_NETWORK OR SERVICES_NODE_BLOOM"

definition seed_peer :: "('k, 's, 'r) manager_env \<Rightarrow> u64 \<Rightarrow> UInt128 \<Rightarrow> BRPeer" where
  "seed_peer E age a = \<lparr>p_address = a, p_port = STANDARD_PORT (testnet E), p_services = SEED_SERVICES,
     p_timestamp = now E - age, p_flags = 0\<rparr>"

primrec seed_peers :: "('k, 's, 'r) manager_env \<Rightarrow> UInt128 list \<Rightarrow> u32 list \<Rightarrow> (BRPeer list \<times> u32 list) option" where
  "seed_peers E [] rs = Some ([], rs)"
| "seed_peers E (a # as) rs = do {
     (r, rs) \<leftarrow> BRRand (2 * 24 * 60 * 60) rs;
     (ps, rs) \<leftarrow> seed_peers E as rs;
     Some (seed_peer E (24 * 60 * 60 + ucast r) a # ps, rs) }"

text \<open>The array of addresses ends at the first zero one.\<close>

definition findPeersThreadRoutine ::
  "('k, 's, 'r) manager_env \<Rightarrow> nat \<Rightarrow> BRPeerManager \<times> u32 list \<Rightarrow> (BRPeerManager \<times> u32 list) option" where
  "findPeersThreadRoutine E seed s = do {
     (ps, rs) \<leftarrow> seed_peers E (takeWhile (\<lambda>a. a \<noteq> 0) (me_lookup E seed)) (snd s);
     Some ((fst s)\<lparr>peers := peers (fst s) @ ps, dnsThreadCount := dnsThreadCount (fst s) - 1\<rparr>, rs) }"

definition BRPeerManagerFindPeers ::
  "('k, 's, 'r) manager_env \<Rightarrow> BRPeerManager \<Rightarrow> u32 list \<Rightarrow> (BRPeerManager \<times> u32 list) option" where
  "BRPeerManagerFindPeers E m rs =
     (if p_address (fixedPeer m) \<noteq> 0
      then Some (m\<lparr>peers := [(fixedPeer m)\<lparr>p_services := SEED_SERVICES, p_timestamp := now E\<rparr>]\<rparr>, rs)
      else do {
        let m = m\<lparr>dnsThreadCount := dnsThreadCount m + me_threads E\<rparr>;
        let m = m\<lparr>peers := peers m @ map (seed_peer E 0) (takeWhile (\<lambda>a. a \<noteq> 0) (me_lookup E 0))\<rparr>;
        (m, rs) \<leftarrow> fold_m (\<lambda>s seed. findPeersThreadRoutine E seed s) (m, rs) (me_finished E);
        if dnsThreadCount m > 0 \<and> length (peers m) < PEER_MAX_CONNECTIONS then None
        else Some (m\<lparr>peers := sort_peers (peers m)\<rparr>, rs) })"

text \<open>Whether a candidate is connected already.\<close>

definition is_connected :: "BRPeerManager \<Rightarrow> BRPeer \<Rightarrow> bool option" where
  "is_connected m q = fold_m (\<lambda>r p. do { ctx \<leftarrow> conns m p; Some (r \<or> BRPeerEq q (peer ctx)) }) False (connectedPeers m)"

definition connect_new :: "('k, 's, 'r) manager_env \<Rightarrow> BRPeer \<Rightarrow> BRPeerManager \<Rightarrow> BRPeerManager" where
  "connect_new E q m = (let
     p = m_next m;
     ctx = BRPeerSetEarliestKeyTime (BRPeerNew\<lparr>peer := q\<rparr>) (m_earliestKeyTime m)
   in m\<lparr>m_next := p + 1, connectedPeers := connectedPeers m @ [p],
        conns := (conns m)(p \<mapsto> BRPeerConnect (me_peer E) (me_reachable E) (me_created E p) ctx)\<rparr>)"

function connect_loop ::
  "('k, 's, 'r) manager_env \<Rightarrow> BRPeer list \<Rightarrow> u32 list \<Rightarrow> BRPeerManager \<Rightarrow> BRPeerManager option" where
  "connect_loop E cands rs m =
     (if cands = [] \<or> length (connectedPeers m) \<ge> maxConnectCount m then Some m
      else case BRRand (of_nat (length cands)) rs of
        None \<Rightarrow> None
      | Some (r, rs) \<Rightarrow> let i = unat r * unat r div length cands in
          if i \<ge> length cands then None
          else case is_connected m (cands ! i) of
            None \<Rightarrow> None
          | Some known \<Rightarrow> connect_loop E (take i cands @ drop (i + 1) cands) rs
              (if known then m else connect_new E (cands ! i) m))"
  by pat_completeness auto
termination
  by (relation "measure (\<lambda>(E, cands, rs, m). length cands)") auto

definition reconnect :: "('k, 's, 'r) manager_env \<Rightarrow> BRPeerManager \<Rightarrow> nat \<Rightarrow> BRPeerManager option" where
  "reconnect E m p = do {
     ctx \<leftarrow> conns m p;
     if BRPeerConnectStatus ctx = BRPeerStatusConnecting
     then on_peer p (BRPeerConnect (me_peer E) (me_reachable E) (me_created E p)) m else Some m }"

definition needs_peers :: "('k, 's, 'r) manager_env \<Rightarrow> BRPeerManager \<Rightarrow> bool option" where
  "needs_peers E m =
     (if length (peers m) < maxConnectCount m then Some True
      else if maxConnectCount m = 0 then None
      else Some (p_timestamp (peers m ! (maxConnectCount m - 1)) + 3 * 24 * 60 * 60 < now E))"

definition BRPeerManagerConnect :: "('k, 's, 'r) manager_env \<Rightarrow> BRPeerManager \<Rightarrow> BRPeerManager option" where
  "BRPeerManagerConnect E m = do {
     let m = (if connectFailureCount m \<ge> MAX_CONNECT_FAILURES then m\<lparr>connectFailureCount := 0\<rparr> else m);
     behind \<leftarrow> (if downloadPeer m = None then Some True else do { lb \<leftarrow> last_block m; Some (height lb < estimatedHeight m) });
     m \<leftarrow> (if behind \<and> syncStartHeight m = 0 then do {
             lb \<leftarrow> last_block m;
             Some (m_log [SyncStarted] (m\<lparr>syncStartHeight := height lb + 1\<rparr>)) }
           else Some m);
     m \<leftarrow> fold_m (reconnect E) m (rev (connectedPeers m));
     m \<leftarrow> (if length (connectedPeers m) < maxConnectCount m then do {
             find \<leftarrow> needs_peers E m;
             (m, rs) \<leftarrow> (if find then BRPeerManagerFindPeers E m (me_rand E) else Some (m, me_rand E));
             connect_loop E (take 100 (peers m)) rs m }
           else Some m);
     if length (connectedPeers m) = 0 then do {
       m \<leftarrow> BRPeerManagerSyncStopped E m;
       Some (m_log [SyncStopped ENETUNREACH] m) }
     else Some m }"

section \<open>Callbacks of the peers\<close>

definition ping_less :: "rat option \<Rightarrow> rat option \<Rightarrow> bool" where
  "ping_less a b = (case a of None \<Rightarrow> False | Some x \<Rightarrow> (case b of None \<Rightarrow> True | Some y \<Rightarrow> x < y))"

text \<open>The peer to download from: the loop over the connected peers, with the best one so far.\<close>

definition better_peer :: "BRPeerManager \<Rightarrow> nat \<Rightarrow> nat \<Rightarrow> nat option" where
  "better_peer m best p = do {
     c \<leftarrow> conns m p;
     b \<leftarrow> conns m best;
     Some (if BRPeerConnectStatus c = BRPeerStatusConnected \<and>
         ((ping_less (BRPeerPingTime c) (BRPeerPingTime b) \<and> BRPeerLastBlock c \<ge> BRPeerLastBlock b) \<or>
          BRPeerLastBlock c > BRPeerLastBlock b) then p else best) }"

definition download_from :: "('k, 's, 'r) manager_env \<Rightarrow> nat \<Rightarrow> BRPeerManager \<Rightarrow> BRPeerManager option" where
  "download_from E p m = do {
     m \<leftarrow> (case downloadPeer m of None \<Rightarrow> Some m | Some d \<Rightarrow> on_peer d BRPeerDisconnect m);
     ctx \<leftarrow> conns m p;
     let m = m\<lparr>downloadPeer := Some p, isConnected := True, estimatedHeight := BRPeerLastBlock ctx\<rparr>;
     m \<leftarrow> BRPeerManagerLoadBloomFilter E p m;
     lb \<leftarrow> last_block m;
     m \<leftarrow> on_peer p (\<lambda>ctx. BRPeerSetCurrentBlockHeight ctx (height lb)) m;
     m \<leftarrow> BRPeerManagerPublishPendingTx E p m;
     if height lb < BRPeerLastBlock ctx then do {
       hs \<leftarrow> locators E m;
       m \<leftarrow> schedule E p PROTOCOL_TIMEOUT m;
       on_peer p (\<lambda>ctx. if mb_timestamp lb + WEEK \<ge> m_earliestKeyTime m
         then BRPeerSendGetblocks (me_peer E) ctx hs 0 else BRPeerSendGetheaders (me_peer E) ctx hs 0) m }
     else BRPeerManagerLoadMempools E (m\<lparr>connectFailureCount := 0\<rparr>) }"

definition peerConnected :: "('k, 's, 'r) manager_env \<Rightarrow> nat \<Rightarrow> BRPeerManager \<Rightarrow> BRPeerManager option" where
  "peerConnected E p m = do {
     m \<leftarrow> on_peer p (\<lambda>ctx.
       if p_timestamp (peer ctx) > now E + 2 * 60 * 60 \<or> p_timestamp (peer ctx) < now E - 2 * 60 * 60
       then ctx\<lparr>peer := (peer ctx)\<lparr>p_timestamp := now E\<rparr>\<rparr> else ctx) m;
     ctx \<leftarrow> conns m p;
     let services = p_services (peer ctx);
     if services AND SERVICES_NODE_NETWORK = 0 then on_peer p BRPeerDisconnect m
     else do {
       lb \<leftarrow> last_block m;
       if BRPeerLastBlock ctx + 10 < height lb then on_peer p BRPeerDisconnect m
       else if services AND SERVICES_NODE_BCASH = SERVICES_NODE_BCASH then on_peer p BRPeerDisconnect m
       else if BRPeerVersion ctx \<ge> 70011 \<and> services AND SERVICES_NODE_BLOOM = 0 then on_peer p BRPeerDisconnect m
       else do {
         stick \<leftarrow> (case downloadPeer m of
           None \<Rightarrow> Some False
         | Some d \<Rightarrow> do { dctx \<leftarrow> conns m d;
             Some (BRPeerLastBlock dctx \<ge> BRPeerLastBlock ctx \<or> height lb \<ge> BRPeerLastBlock ctx) });
         if stick then
           (if height lb \<ge> BRPeerLastBlock ctx then do {
              m \<leftarrow> BRPeerManagerLoadBloomFilter E p (m\<lparr>connectFailureCount := 0\<rparr>);
              m \<leftarrow> BRPeerManagerPublishPendingTx E p m;
              ping_with E p LoadBloomFilterDone p m }
            else Some m)
         else do {
           best \<leftarrow> fold_m (better_peer m) p (rev (connectedPeers m));
           download_from E best m } } } }"

text \<open>The transactions whose publishing is cancelled: their callbacks from the last to the first.\<close>

definition cancelled :: "BRPublishedTx list \<Rightarrow> nat list" where
  "cancelled ps = List.map_filter pub_callback (rev ps)"

definition peerDisconnected :: "('k, 's, 'r) manager_env \<Rightarrow> nat \<Rightarrow> int \<Rightarrow> BRPeerManager \<Rightarrow> BRPeerManager option" where
  "peerDisconnected E p err m = do {
     ctx \<leftarrow> conns m p;
     let q = peer ctx;
     let txError = (if err \<noteq> EPROTO \<and> err = ETIMEDOUT \<and> (downloadPeer m \<noteq> Some p \<or> syncStartHeight m = 0 \<or>
       length (connectedPeers m) = 1) then ETIMEDOUT else 0);
     m \<leftarrow> (if err = EPROTO then BRPeerManagerPeerMisbehavin p m
           else Some (if err \<noteq> 0 then m\<lparr>peers := filter (\<lambda>r. \<not> BRPeerEq r q) (peers m),
                        connectFailureCount := connectFailureCount m + 1\<rparr> else m));
     let m = m\<lparr>txRelays := map (\<lambda>e. e\<lparr>txl_peers := filter (\<lambda>r. \<not> BRPeerEq r q) (txl_peers e)\<rparr>) (txRelays m)\<rparr>;
     let m = (if downloadPeer m = Some p then m\<lparr>isConnected := False, downloadPeer := None,
         connectFailureCount := min (connectFailureCount m) MAX_CONNECT_FAILURES\<rparr> else m);
     let failed = (\<not> isConnected m \<and> connectFailureCount m = MAX_CONNECT_FAILURES);
     let willReconnect = (\<not> failed \<and> connectFailureCount m < MAX_CONNECT_FAILURES);
     let txError = (if failed then ENOTCONN else txError);
     m \<leftarrow> (if failed then do { m \<leftarrow> BRPeerManagerSyncStopped E m; Some (m\<lparr>peers := []\<rparr>) } else Some m);
     ps \<leftarrow> published m;
     let callbacks = (if txError \<noteq> 0 then cancelled (map fst ps) else []);
     let m = (if txError \<noteq> 0 then set_published (filter (\<lambda>(t, _). pub_callback t = None) ps) m else m);
     let m = m\<lparr>connectedPeers := update_last (\<lambda>r. r = p) (\<lambda>_. []) (connectedPeers m), conns := (conns m)(p := None)\<rparr>;
     let m = m_log (map (\<lambda>c. Published c txError) callbacks @ (if failed then [SavePeers True [], SyncStopped err] else [])) m;
     m \<leftarrow> (if willReconnect then BRPeerManagerConnect E m else Some m);
     Some (m_log [TxStatusUpdate] m) }"

text \<open>The peers that are kept: old ones are dropped from the end while there are more than 1000.\<close>

primrec keep_count :: "BRPeer list \<Rightarrow> u64 \<Rightarrow> nat \<Rightarrow> nat" where
  "keep_count ps t 0 = 0"
| "keep_count ps t (Suc n) =
     (if Suc n > 1000 \<and> p_timestamp (ps ! n) + 3 * 60 * 60 < t then keep_count ps t n else Suc n)"

definition peerRelayedPeers :: "('k, 's, 'r) manager_env \<Rightarrow> BRPeer list \<Rightarrow> BRPeerManager \<Rightarrow> BRPeerManager option" where
  "peerRelayedPeers E ps m = (let
     all = take 2500 (sort_peers (peers m @ ps));
     kept = take (keep_count all (now E) (length all)) all;
     m = m\<lparr>peers := kept\<rparr>
   in Some (if length kept > 1 \<and> length kept < 1000 then m_log [SavePeers True kept] m else m))"

text \<open>
  The loop over the published transactions in \<open>_peerRelayedTx\<close> and \<open>_peerHasTx\<close>: the callback of the
  transaction is taken out, and whether others are pending.
\<close>

definition take_callback :: "UInt256 \<Rightarrow> (BRPublishedTx \<times> UInt256) list \<Rightarrow> (BRPublishedTx \<times> UInt256) list \<times> callback \<times> bool" where
  "take_callback h ps =
     (map (\<lambda>(p, h'). (if h' = h then p\<lparr>pub_callback := None\<rparr> else p, h')) ps,
      (case find (\<lambda>(p, h'). h' = h) ps of None \<Rightarrow> None | Some (p, _) \<Rightarrow> pub_callback p),
      list_ex (\<lambda>(p, h'). h' \<noteq> h \<and> pub_callback p \<noteq> None) ps)"

text \<open>The common part of both: \<open>hit\<close> is whether the transaction is published, \<open>n\<close> its count of relays.\<close>

definition relayed_published ::
  "('k, 's, 'r) manager_env \<Rightarrow> nat \<Rightarrow> BRPeer \<Rightarrow> UInt256 \<Rightarrow> BRPeerManager \<Rightarrow> (BRPeerManager \<times> callback \<times> nat) option" where
  "relayed_published E p q h m = do {
     ps \<leftarrow> published m;
     let (ps', c, pending) = take_callback h ps;
     let m = set_published ps' m;
     let (m, n) = (if h \<in> set (publishedTxHashes m) then relay_add h q m else (m, 0));
     m \<leftarrow> (if \<not> pending \<and> (syncStartHeight m = 0 \<or> downloadPeer m \<noteq> Some p) then schedule E p (- 1) m else Some m);
     Some (m, c, n) }"

definition call_published :: "callback \<Rightarrow> int \<Rightarrow> BRPeerManager \<Rightarrow> BRPeerManager" where
  "call_published c err m = (case c of None \<Rightarrow> m | Some c \<Rightarrow> m_log [Published c err] m)"

text \<open>Whether one of the unused addresses is not matched by the filter.\<close>

fun filter_misses :: "BRBloomFilter \<Rightarrow> bytes list \<Rightarrow> bool option" where
  "filter_misses f [] = Some False"
| "filter_misses f (a # as) = (case BRAddressHash160 a of
     None \<Rightarrow> filter_misses f as
   | Some h \<Rightarrow> do {
       c \<leftarrow> BRBloomFilterContainsData f (Some h);
       if c then filter_misses f as else Some True })"

definition check_filter :: "('k, 's, 'r) manager_env \<Rightarrow> BRPeerManager \<Rightarrow> BRPeerManager option" where
  "check_filter E m = (case bloomFilter m of
     None \<Rightarrow> Some m
   | Some f \<Rightarrow> do {
       (m, ext) \<leftarrow> unused_addrs E SEQUENCE_GAP_LIMIT_EXTERNAL False m;
       (m, int) \<leftarrow> unused_addrs E SEQUENCE_GAP_LIMIT_INTERNAL True m;
       if length ext < SEQUENCE_GAP_LIMIT_EXTERNAL \<or> length int < SEQUENCE_GAP_LIMIT_INTERNAL then None
       else do {
         miss \<leftarrow> filter_misses f (ext @ int);
         if miss then BRPeerManagerUpdateFilter E (m\<lparr>bloomFilter := None\<rparr>) else Some m } })"

definition verify_relayed ::
  "('k, 's, 'r) manager_env \<Rightarrow> BRTransaction \<Rightarrow> nat \<Rightarrow> BRPeerManager \<Rightarrow> BRPeerManager option" where
  "verify_relayed E tx n m =
     (if n \<ge> maxConnectCount m \<and> blockHeight tx = TX_UNCONFIRMED \<and> tx_timestamp tx = 0
      then BRPeerManagerUpdateTx E [txHash tx] TX_UNCONFIRMED (ucast (now E)) m else Some m)"

definition relayed_wallet_tx ::
  "('k, 's, 'r) manager_env \<Rightarrow> nat \<Rightarrow> BRPeer \<Rightarrow> BRTransaction \<Rightarrow> nat \<Rightarrow> BRPeerManager \<Rightarrow> (BRPeerManager \<times> nat) option" where
  "relayed_wallet_tx E p q tx n m = do {
     m \<leftarrow> (if syncStartHeight m > 0 \<and> downloadPeer m = Some p then schedule E p PROTOCOL_TIMEOUT m else Some m);
     valid \<leftarrow> (if BRWalletAmountSentByTx (m_wallet m) tx > 0 then BRWalletTransactionIsValid (m_wallet m) tx else Some False);
     m \<leftarrow> (if valid then BRPeerManagerAddTxToPublishList tx None m else Some m);
     let (m, n) = (if syncStartHeight m = 0 then relay_add (txHash tx) q m else (m, n));
     let m = m\<lparr>txRequests := fst (BRTxPeerListRemovePeer (txRequests m) (txHash tx) q)\<rparr>;
     m \<leftarrow> check_filter E m;
     Some (m, n) }"

definition peerRelayedTx :: "('k, 's, 'r) manager_env \<Rightarrow> nat \<Rightarrow> BRTransaction \<Rightarrow> BRPeerManager \<Rightarrow> BRPeerManager option" where
  "peerRelayedTx E p tx m = do {
     ctx \<leftarrow> conns m p;
     let q = peer ctx;
     (m, c, n) \<leftarrow> relayed_published E p q (txHash tx) m;
     m \<leftarrow> (if syncStartHeight m = 0 \<or> BRWalletContainsTransaction (m_wallet m) tx then do {
             (m, isWalletTx) \<leftarrow> register_tx E tx m;
             if isWalletTx then do {
               t \<leftarrow> BRWalletTransactionForHash (m_wallet m) (txHash tx);
               case t of
                 None \<Rightarrow> Some m
               | Some tx \<Rightarrow> do {
                   (m, n) \<leftarrow> relayed_wallet_tx E p q tx n m;
                   tx \<leftarrow> allTx (m_wallet m) (txHash tx);
                   verify_relayed E tx n m } }
             else verify_relayed E tx n m }
           else Some m);
     Some (call_published c 0 m) }"

definition peerHasTx :: "('k, 's, 'r) manager_env \<Rightarrow> nat \<Rightarrow> UInt256 \<Rightarrow> BRPeerManager \<Rightarrow> BRPeerManager option" where
  "peerHasTx E p h m = do {
     ctx \<leftarrow> conns m p;
     let q = peer ctx;
     t \<leftarrow> BRWalletTransactionForHash (m_wallet m) h;
     ps \<leftarrow> published m;
     let t = (case t of Some tx \<Rightarrow> Some tx | None \<Rightarrow> map_option (pub_tx \<circ> fst) (find (\<lambda>(_, h'). h' = h) (rev ps)));
     (m, c, n) \<leftarrow> relayed_published E p q h m;
     m \<leftarrow> (case t of
         None \<Rightarrow> Some m
       | Some tx \<Rightarrow> do {
           (m, isWalletTx) \<leftarrow> register_tx E tx m;
           t \<leftarrow> (if isWalletTx then BRWalletTransactionForHash (m_wallet m) (txHash tx) else Some (Some tx));
           m \<leftarrow> (if syncStartHeight m > 0 \<and> downloadPeer m = Some p \<and> isWalletTx
                 then schedule E p PROTOCOL_TIMEOUT m else Some m);
           let (m, n) = (if syncStartHeight m = 0 then relay_add h q m else (m, n));
           m \<leftarrow> (case t of
               None \<Rightarrow> Some m
             | Some tx \<Rightarrow>
                 if n \<ge> maxConnectCount m \<and> blockHeight tx = TX_UNCONFIRMED \<and> tx_timestamp tx = 0
                 then BRPeerManagerUpdateTx E [h] TX_UNCONFIRMED (ucast (now E)) m else Some m);
           Some (m\<lparr>txRequests := fst (BRTxPeerListRemovePeer (txRequests m) h q)\<rparr>) });
     Some (call_published c 0 m) }"

text \<open>Whether all inputs of a transaction are confirmed, or not known to the wallet.\<close>

primrec inputs_confirmed :: "BRWallet \<Rightarrow> UInt256 list \<Rightarrow> bool option" where
  "inputs_confirmed wallet [] = Some True"
| "inputs_confirmed wallet (h # hs) = do {
     t \<leftarrow> BRWalletTransactionForHash wallet h;
     case t of
       None \<Rightarrow> inputs_confirmed wallet hs
     | Some t \<Rightarrow> if blockHeight t \<noteq> TX_UNCONFIRMED then inputs_confirmed wallet hs else Some False }"

definition peerRejectedTx :: "('k, 's, 'r) manager_env \<Rightarrow> nat \<Rightarrow> UInt256 \<Rightarrow> u8 \<Rightarrow> BRPeerManager \<Rightarrow> BRPeerManager option" where
  "peerRejectedTx E p h code m = do {
     ctx \<leftarrow> conns m p;
     let q = peer ctx;
     t \<leftarrow> BRWalletTransactionForHash (m_wallet m) h;
     let m = m\<lparr>txRequests := fst (BRTxPeerListRemovePeer (txRequests m) h q)\<rparr>;
     m \<leftarrow> (case t of
         None \<Rightarrow> Some m
       | Some tx \<Rightarrow> do {
           let (l, removed) = BRTxPeerListRemovePeer (txRelays m) h q;
           let m = m\<lparr>txRelays := l\<rparr>;
           m \<leftarrow> (if removed \<and> blockHeight tx = TX_UNCONFIRMED then BRPeerManagerUpdateTx E [h] TX_UNCONFIRMED 0 m else Some m);
           if code \<noteq> REJECT_SPENT \<and> BRWalletAmountSentByTx (m_wallet m) tx > 0 then do {
             ok \<leftarrow> inputs_confirmed (m_wallet m) (map in_txHash (inputs tx));
             if ok then BRPeerManagerPeerMisbehavin p m else Some m }
           else Some m });
     Some (m_log [TxStatusUpdate] m) }"

definition peerDataNotfound :: "nat \<Rightarrow> UInt256 list \<Rightarrow> BRPeerManager \<Rightarrow> BRPeerManager option" where
  "peerDataNotfound p hs m = do {
     ctx \<leftarrow> conns m p;
     Some (foldl (\<lambda>m h. m\<lparr>txRelays := fst (BRTxPeerListRemovePeer (txRelays m) h (peer ctx)),
       txRequests := fst (BRTxPeerListRemovePeer (txRequests m) h (peer ctx))\<rparr>) m hs) }"

text \<open>The highest fee and the one it replaced.\<close>

definition fee_step :: "BRPeerManager \<Rightarrow> u64 \<times> u64 \<Rightarrow> nat \<Rightarrow> (u64 \<times> u64) option" where
  "fee_step m s p = do {
     ctx \<leftarrow> conns m p;
     Some (if BRPeerConnectStatus ctx = BRPeerStatusConnected \<and> BRPeerFeePerKb ctx > fst s
           then (BRPeerFeePerKb ctx, fst s) else s) }"

definition peerSetFeePerKb :: "BRPeerManager \<Rightarrow> BRPeerManager option" where
  "peerSetFeePerKb m = do {
     (_, secondFeePerKb) \<leftarrow> fold_m (fee_step m) (0, 0) (rev (connectedPeers m));
     let fee = secondFeePerKb * 3 div 2;
     Some (if fee > DEFAULT_FEE_PER_KB \<and> fee \<le> MAX_FEE_PER_KB \<and> fee > BRWalletFeePerKb (m_wallet m)
           then m\<lparr>m_wallet := BRWalletSetFeePerKb (m_wallet m) fee\<rparr> else m) }"

text \<open>
  The loop of \<open>_peerRequestedTx\<close>, over the reversed list: what is kept, the transaction, its callback,
  the error and whether other callbacks are pending.
\<close>

record requested =
  rq_tx :: "BRTransaction option"
  rq_callback :: callback
  rq_error :: int
  rq_pending :: bool

definition published_tx :: "BRWallet \<Rightarrow> BRPublishedTx \<Rightarrow> BRTransaction" where
  "published_tx wallet p = (case allTx wallet (txHash (pub_tx p)) of Some t \<Rightarrow> t | None \<Rightarrow> pub_tx p)"

primrec requested_loop ::
  "BRWallet \<Rightarrow> UInt256 \<Rightarrow> (BRPublishedTx \<times> UInt256) list \<Rightarrow> requested \<Rightarrow> ((BRPublishedTx \<times> UInt256) list \<times> requested) option" where
  "requested_loop wallet h [] s = Some ([], s)"
| "requested_loop wallet h (e # es) s = (case e of (p, h') \<Rightarrow>
     if h' = h then do {
       valid \<leftarrow> BRWalletTransactionIsValid wallet (published_tx wallet p);
       let s = s\<lparr>rq_tx := Some (published_tx wallet p), rq_callback := pub_callback p\<rparr>;
       if valid then do {
         (es, s) \<leftarrow> requested_loop wallet h es s;
         Some ((p\<lparr>pub_callback := None\<rparr>, h') # es, s) }
       else do {
         t \<leftarrow> BRWalletTransactionForHash wallet h;
         requested_loop wallet h es (s\<lparr>rq_error := EINVAL, rq_tx := (if t = None then None else rq_tx s)\<rparr>) } }
     else do {
       (es, s) \<leftarrow> requested_loop wallet h es (if pub_callback p \<noteq> None then s\<lparr>rq_pending := True\<rparr> else s);
       Some ((p, h') # es, s) })"

definition peerRequestedTx ::
  "('k, 's, 'r) manager_env \<Rightarrow> nat \<Rightarrow> UInt256 \<Rightarrow> BRPeerManager \<Rightarrow> (BRPeerManager \<times> BRTransaction option) option" where
  "peerRequestedTx E p h m = do {
     ctx \<leftarrow> conns m p;
     ps \<leftarrow> published m;
     (kept, s) \<leftarrow> requested_loop (m_wallet m) h (rev ps) \<lparr>rq_tx = None, rq_callback = None, rq_error = 0, rq_pending = False\<rparr>;
     let m = set_published (rev kept) m;
     m \<leftarrow> (if \<not> rq_pending s \<and> (syncStartHeight m = 0 \<or> downloadPeer m \<noteq> Some p) then schedule E p (- 1) m else Some m);
     m \<leftarrow> (case rq_tx s of
         None \<Rightarrow> Some m
       | Some tx \<Rightarrow>
           if rq_error s = 0 then do {
             (m, _) \<leftarrow> register_tx E tx (fst (relay_add h (peer ctx) m));
             Some m }
           else Some m);
     Some (call_published (rq_callback s) (rq_error s) m, rq_tx s) }"

section \<open>Blocks\<close>

definition interval :: "u32 \<Rightarrow> u32" where
  "interval h = (if h < DGW_START_BLOCK then BLOCK_DIFFICULTY_INTERVAL else DGW_BLOCK_DIFFICULTY_INTERVAL)"

text \<open>The loop that frees the ancestors of \<open>prev\<close>, except those at a multiple of \<open>n\<close>.\<close>

partial_function (option) free_blocks :: "u32 \<Rightarrow> UInt256 \<Rightarrow> block_table \<Rightarrow> block_table option" where
  "free_blocks n prev bs = (case bs prev of
     None \<Rightarrow> Some bs
   | Some b \<Rightarrow> free_blocks n (prevBlock b) (if height b mod n \<noteq> 0 then bs(prev := None) else bs))"

declare free_blocks.simps [code]

definition verify_transition :: "BRMerkleBlock \<Rightarrow> BRPeerManager \<Rightarrow> (BRPeerManager \<times> bool) option" where
  "verify_transition block m =
     (if height block mod interval (height block) = 0 then
        case walk_back (blocks m) (unat (interval (height block))) (Some block) of
          None \<Rightarrow> Some (m, False)
        | Some b \<Rightarrow> do {
            bs \<leftarrow> free_blocks (interval (height block)) (prevBlock b) (blocks m);
            Some (m\<lparr>blocks := bs\<rparr>, True) }
      else Some (m, True))"

definition BRPeerManagerVerifyBlock :: "BRMerkleBlock \<Rightarrow> BRMerkleBlock \<Rightarrow> BRPeerManager \<Rightarrow> (BRPeerManager \<times> bool) option" where
  "BRPeerManagerVerifyBlock block prev m = do {
     (m, r) \<leftarrow> verify_transition block m;
     (m, r) \<leftarrow> (if r then do {
                  (r, n) \<leftarrow> BRMerkleBlockVerifyDifficulty block prev (blocks m) (pastCount m);
                  Some (m\<lparr>pastCount := n\<rparr>, r) }
                else Some (m, False));
     Some (m, r \<and> (case checkpoints m (height block) of None \<Rightarrow> True | Some c \<Rightarrow> BRMerkleBlockEq block c)) }"

text \<open>The number of transactions of a block that the wallet does not know.\<close>

definition fp_step :: "BRWallet \<Rightarrow> nat \<Rightarrow> UInt256 \<Rightarrow> nat option" where
  "fp_step wallet n h = do { t \<leftarrow> BRWalletTransactionForHash wallet h; Some (if t = None then n + 1 else n) }"

definition observe_block :: "('k, 's, 'r) manager_env \<Rightarrow> nat \<Rightarrow> BRMerkleBlock \<Rightarrow> UInt256 list \<Rightarrow> BRPeerManager \<Rightarrow> BRPeerManager option" where
  "observe_block E p block txs m =
     (if downloadPeer m = Some p \<and> totalTx block > 0 then do {
        fpCount \<leftarrow> fold_m (fp_step (m_wallet m)) 0 txs;
        let total = (of_nat (unat (totalTx block)) :: rat);
        let avg = averageTxPerBlock m * (999 / 1000) + total * (1 / 1000);
        let fp = fpRate m * (1 - 1 / 100 * total / avg) + 1 / 100 * of_nat fpCount / avg;
        let m = m\<lparr>averageTxPerBlock := avg, fpRate := fp\<rparr>;
        ctx \<leftarrow> conns m p;
        lb \<leftarrow> last_block m;
        if BRPeerConnectStatus ctx = BRPeerStatusConnected \<and> fp > BLOOM_DEFAULT_FALSEPOSITIVE_RATE * 10
        then on_peer p BRPeerDisconnect m
        else if height lb + 500 < BRPeerLastBlock ctx \<and> fp > BLOOM_REDUCED_FALSEPOSITIVE_RATE * 10
        then BRPeerManagerUpdateFilter E m
        else Some m }
      else Some m)"

text \<open>
  Each of the following cases gives the new state and whether the block is kept, with the number of
  blocks to be saved.
\<close>

definition reset_timeout :: "('k, 's, 'r) manager_env \<Rightarrow> nat \<Rightarrow> BRPeerManager \<Rightarrow> BRPeerManager option" where
  "reset_timeout E p m = do {
     m \<leftarrow> schedule E p PROTOCOL_TIMEOUT m;
     Some (m\<lparr>connectFailureCount := 0\<rparr>) }"

definition pending_filter_block :: "('k, 's, 'r) manager_env \<Rightarrow> nat \<Rightarrow> BRPeerManager \<Rightarrow> BRPeerManager option" where
  "pending_filter_block E p m =
     (if downloadPeer m = Some p then do {
        lb \<leftarrow> last_block m;
        if height lb < estimatedHeight m then reset_timeout E p m else Some m }
      else Some m)"

definition orphan_block :: "('k, 's, 'r) manager_env \<Rightarrow> nat \<Rightarrow> BRMerkleBlock \<Rightarrow> BRPeerManager \<Rightarrow> (BRPeerManager \<times> bool) option" where
  "orphan_block E p block m = do {
     lb \<leftarrow> last_block m;
     if ucast (mb_timestamp block + WEEK) < now E then Some (m, False)
     else do {
       ctx \<leftarrow> conns m p;
       m \<leftarrow> (if height lb \<ge> BRPeerLastBlock ctx \<and>
               (case lastOrphan m of None \<Rightarrow> True | Some l \<Rightarrow> \<not> UInt256Eq (blockHash l) (prevBlock block))
             then send_getblocks E p m else Some m);
       Some (m\<lparr>orphans := (orphans m)(prevBlock block \<mapsto> block), lastOrphan := Some block\<rparr>, True) } }"

definition chain_complete :: "('k, 's, 'r) manager_env \<Rightarrow> BRMerkleBlock \<Rightarrow> BRPeerManager \<Rightarrow> (BRPeerManager \<times> nat) option" where
  "chain_complete E block m =
     (if height block = estimatedHeight m then do {
        m \<leftarrow> BRPeerManagerLoadMempools E m;
        Some (m, unat (height block mod BLOCK_DIFFICULTY_INTERVAL + BLOCK_DIFFICULTY_INTERVAL + 1)) }
      else Some (m, 0))"

definition extend_chain ::
  "('k, 's, 'r) manager_env \<Rightarrow> nat \<Rightarrow> BRMerkleBlock \<Rightarrow> UInt256 list \<Rightarrow> u32 \<Rightarrow> BRPeerManager \<Rightarrow> (BRPeerManager \<times> nat) option" where
  "extend_chain E p block txs txTime m = do {
     let m = m\<lparr>blocks := (blocks m)(blockHash block \<mapsto> block), lastBlock := Some (blockHash block)\<rparr>;
     m \<leftarrow> (if length txs > 0 then BRPeerManagerUpdateTx E txs (height block) txTime m else Some m);
     m \<leftarrow> (case downloadPeer m of None \<Rightarrow> Some m
           | Some d \<Rightarrow> on_peer d (\<lambda>ctx. BRPeerSetCurrentBlockHeight ctx (height block)) m);
     m \<leftarrow> (if height block < estimatedHeight m \<and> downloadPeer m = Some p then reset_timeout E p m else Some m);
     (m, saveCount) \<leftarrow> chain_complete E block m;
     Some (m, if saveCount = 0 \<and> height block mod BLOCK_DIFFICULTY_INTERVAL = 0 then 1 else saveCount) }"

partial_function (option) main_chain_block :: "block_table \<Rightarrow> u32 \<Rightarrow> BRMerkleBlock option \<Rightarrow> BRMerkleBlock option option" where
  "main_chain_block bs h b = (case b of
     None \<Rightarrow> Some None
   | Some c \<Rightarrow> if height c > h then main_chain_block bs h (bs (prevBlock c)) else Some b)"

declare main_chain_block.simps [code]

definition existing_block ::
  "('k, 's, 'r) manager_env \<Rightarrow> BRMerkleBlock \<Rightarrow> UInt256 list \<Rightarrow> u32 \<Rightarrow> BRPeerManager \<Rightarrow> BRPeerManager option" where
  "existing_block E block txs txTime m = do {
     lb \<leftarrow> last_block m;
     b \<leftarrow> main_chain_block (blocks m) (height block) (Some lb);
     b \<leftarrow> b;
     m \<leftarrow> (if BRMerkleBlockEq b block then do {
             m \<leftarrow> (if length txs > 0 then BRPeerManagerUpdateTx E txs (height block) txTime m else Some m);
             Some (if height block = height lb then m\<lparr>lastBlock := Some (blockHash block)\<rparr> else m) }
           else Some m);
     old \<leftarrow> blocks m (blockHash block);
     Some (m\<lparr>blocks := (blocks m)(blockHash block \<mapsto> block),
             orphans := (if orphans m (prevBlock old) = Some old then (orphans m)(prevBlock old := None) else orphans m),
             lastOrphan := (if lastOrphan m = Some old then None else lastOrphan m)\<rparr>) }"

text \<open>The block at which a fork joins the main chain, with the one of the main chain at its end.\<close>

partial_function (option) fork_point ::
  "block_table \<Rightarrow> BRMerkleBlock option \<Rightarrow> BRMerkleBlock option \<Rightarrow> (BRMerkleBlock option \<times> BRMerkleBlock option) option" where
  "fork_point bs b b2 = (case b of
     None \<Rightarrow> Some (b, b2)
   | Some c \<Rightarrow> (case b2 of
       None \<Rightarrow> Some (b, b2)
     | Some c2 \<Rightarrow>
         if BRMerkleBlockEq c c2 then Some (b, b2)
         else (case bs (prevBlock c) of
           None \<Rightarrow> Some (None, b2)
         | Some d \<Rightarrow> fork_point bs (Some d) (if height d < height c2 then bs (prevBlock c2) else b2))))"

declare fork_point.simps [code]

text \<open>The loop that confirms the transactions of the new main chain, from its last block down.\<close>

partial_function (option) confirm_fork ::
  "('k, 's, 'r) manager_env \<Rightarrow> u32 \<Rightarrow> BRMerkleBlock option \<Rightarrow> BRPeerManager \<Rightarrow> BRPeerManager option" where
  "confirm_fork E low b m = (case b of
     None \<Rightarrow> Some m
   | Some c \<Rightarrow>
       if height c > low then do {
         hs \<leftarrow> block_tx_hashes c;
         let ts = (case blocks m (prevBlock c) of None \<Rightarrow> mb_timestamp c
                   | Some d \<Rightarrow> mb_timestamp c div 2 + mb_timestamp d div 2);
         m \<leftarrow> (if length hs > 0 then update_transactions E hs (height c) ts m else Some m);
         confirm_fork E low (blocks m (prevBlock c)) m }
       else Some m)"

declare confirm_fork.simps [code]

definition unconfirm_after :: "('k, 's, 'r) manager_env \<Rightarrow> u32 \<Rightarrow> BRPeerManager \<Rightarrow> BRPeerManager option" where
  "unconfirm_after E bh m = do {
     (w, es) \<leftarrow> BRWalletSetTxUnconfirmedAfter (wallet_now E) (m_wallet m) bh;
     Some (m_log (map WalletEvent es) (m\<lparr>m_wallet := w\<rparr>)) }"

definition reorganize :: "('k, 's, 'r) manager_env \<Rightarrow> BRMerkleBlock \<Rightarrow> BRMerkleBlock \<Rightarrow> BRPeerManager \<Rightarrow> BRPeerManager option" where
  "reorganize E block lb m = do {
     (b, b2) \<leftarrow> fork_point (blocks m) (Some block) (Some lb);
     join \<leftarrow> b;
     m \<leftarrow> unconfirm_after E (height join) m;
     m \<leftarrow> (case b2 of None \<Rightarrow> Some m | Some c2 \<Rightarrow> confirm_fork E (height c2) (Some block) m);
     Some (m\<lparr>lastBlock := Some (blockHash block)\<rparr>) }"

definition fork_block :: "('k, 's, 'r) manager_env \<Rightarrow> BRMerkleBlock \<Rightarrow> BRPeerManager \<Rightarrow> (BRPeerManager \<times> nat) option" where
  "fork_block E block m = do {
     lb \<leftarrow> last_block m;
     let m = m\<lparr>blocks := (blocks m)(blockHash block \<mapsto> block)\<rparr>;
     if height block > height lb then do {
       m \<leftarrow> reorganize E block lb m;
       chain_complete E block m }
     else Some (m, 0) }"

text \<open>The cases of \<open>_peerRelayedBlock\<close>, in their order.\<close>

definition place_block ::
  "('k, 's, 'r) manager_env \<Rightarrow> nat \<Rightarrow> BRMerkleBlock \<Rightarrow> BRMerkleBlock option \<Rightarrow> UInt256 list \<Rightarrow> BRPeerManager \<Rightarrow>
   (BRPeerManager \<times> bool \<times> nat) option" where
  "place_block E p block prev txs m =
     (if totalTx block = 0 \<and> mb_timestamp block + WEEK > m_earliestKeyTime m + 2 * 60 * 60 then Some (m, False, 0)
      else if bloomFilter m = None then do { m \<leftarrow> pending_filter_block E p m; Some (m, False, 0) }
      else case prev of
        None \<Rightarrow> do { (m, kept) \<leftarrow> orphan_block E p block m; Some (m, kept, 0) }
      | Some prev \<Rightarrow> do {
          let txTime = mb_timestamp block div 2 + mb_timestamp prev div 2;
          (m, valid) \<leftarrow> BRPeerManagerVerifyBlock block prev m;
          if \<not> valid then do { m \<leftarrow> BRPeerManagerPeerMisbehavin p m; Some (m, False, 0) }
          else do {
            lb \<leftarrow> last_block m;
            ctx \<leftarrow> conns m p;
            if UInt256Eq (prevBlock block) (blockHash lb) then do {
              (m, n) \<leftarrow> extend_chain E p block txs txTime m; Some (m, True, n) }
            else if blocks m (blockHash block) \<noteq> None then do {
              m \<leftarrow> existing_block E block txs txTime m; Some (m, True, 0) }
            else if height lb < BRPeerLastBlock ctx \<and> height block > height lb + 1
            then Some (m\<lparr>orphans := (orphans m)(prevBlock block \<mapsto> block), lastOrphan := Some block\<rparr>, True, 0)
            else if me_checkpoints E \<noteq> [] \<and> height block \<le> cp_height (last (me_checkpoints E)) then Some (m, False, 0)
            else do { (m, n) \<leftarrow> fork_block E block m; Some (m, True, n) } } })"

text \<open>The blocks to be saved, from the new one back.\<close>

primrec save_list :: "block_table \<Rightarrow> nat \<Rightarrow> BRMerkleBlock option \<Rightarrow> BRMerkleBlock list" where
  "save_list bs 0 b = []"
| "save_list bs (Suc n) b = (case b of None \<Rightarrow> [] | Some b \<Rightarrow> b # save_list bs n (bs (prevBlock b)))"

definition save_blocks :: "BRMerkleBlock list \<Rightarrow> BRMerkleBlock list option" where
  "save_blocks bs = (let
     i = length bs;
     j = (if i > 0 then unat (height (bs ! (i - 1)) mod BLOCK_DIFFICULTY_INTERVAL) else 0);
     i = (if j > 0 then i - (if i > 2016 - j then 2016 - j else i) else i)
   in if i = 0 \<or> height (bs ! (i - 1)) mod BLOCK_DIFFICULTY_INTERVAL = 0 then Some (take i bs) else None)"

text \<open>
  One block: the new state and the orphan that follows the block, if it is known. The callbacks of the
  application are called at the end.
\<close>

definition relay_block ::
  "('k, 's, 'r) manager_env \<Rightarrow> nat \<Rightarrow> BRMerkleBlock \<Rightarrow> BRPeerManager \<Rightarrow> (BRPeerManager \<times> BRMerkleBlock option) option" where
  "relay_block E p block m = do {
     txs \<leftarrow> block_tx_hashes block;
     let prev = blocks m (prevBlock block);
     let block = (case prev of None \<Rightarrow> block | Some b \<Rightarrow> block\<lparr>height := height b + 1\<rparr>);
     m \<leftarrow> observe_block E p block txs m;
     (m, kept, saveCount) \<leftarrow> place_block E p block prev txs m;
     let known = (kept \<and> height block \<noteq> BLOCK_UNKNOWN_HEIGHT);
     let next = (if known then orphans m (blockHash block) else None);
     let m = (if known then m\<lparr>estimatedHeight := max (height block) (estimatedHeight m),
                              orphans := (orphans m)(blockHash block := None)\<rparr> else m);
     saved \<leftarrow> save_blocks (save_list (blocks m) saveCount (if kept then Some block else None));
     ctx \<leftarrow> conns m p;
     Some (m_log ((if length saved > 0 then [SaveBlocks (length saved > 1) saved] else []) @
                  (if known \<and> height block \<ge> BRPeerLastBlock ctx then [TxStatusUpdate] else [])) m, next) }"

partial_function (option) peerRelayedBlock ::
  "('k, 's, 'r) manager_env \<Rightarrow> nat \<Rightarrow> BRMerkleBlock \<Rightarrow> BRPeerManager \<Rightarrow> BRPeerManager option" where
  "peerRelayedBlock E p block m = do {
     (m, next) \<leftarrow> relay_block E p block m;
     case next of None \<Rightarrow> Some m | Some b \<Rightarrow> peerRelayedBlock E p b m }"

declare peerRelayedBlock.simps [code]

section \<open>The functions of the application\<close>

definition checkpoint_block :: "checkpoint \<Rightarrow> BRMerkleBlock" where
  "checkpoint_block c = BRMerkleBlockNew\<lparr>height := cp_height c, blockHash := cp_hash c,
     mb_timestamp := cp_timestamp c, target := cp_target c\<rparr>"

definition before_keys :: "u32 \<Rightarrow> u32 \<Rightarrow> bool" where
  "before_keys ts keyTime \<longleftrightarrow> ts + WEEK < keyTime"

definition add_checkpoint :: "BRPeerManager \<Rightarrow> checkpoint \<Rightarrow> BRPeerManager" where
  "add_checkpoint m c = (let b = checkpoint_block c in
     m\<lparr>checkpoints := (checkpoints m)(height b \<mapsto> b), blocks := (blocks m)(blockHash b \<mapsto> b),
       lastBlock := (if lastBlock m = None \<or> before_keys (mb_timestamp b) (m_earliestKeyTime m)
                     then Some (blockHash b) else lastBlock m)\<rparr>)"

text \<open>The saved blocks become orphans, and the last one at a transition is where the chain starts.\<close>

definition add_saved :: "BRPeerManager \<times> BRMerkleBlock option \<Rightarrow> BRMerkleBlock \<Rightarrow> (BRPeerManager \<times> BRMerkleBlock option) option" where
  "add_saved s b = (case s of (m, start) \<Rightarrow>
     if height b = BLOCK_UNKNOWN_HEIGHT then None
     else Some (m\<lparr>orphans := (orphans m)(prevBlock b \<mapsto> b)\<rparr>,
       if height b mod BLOCK_DIFFICULTY_INTERVAL = 0 \<and> (case start of None \<Rightarrow> True | Some s \<Rightarrow> height b > height s)
       then Some b else start))"

partial_function (option) saved_chain :: "BRMerkleBlock option \<Rightarrow> BRPeerManager \<Rightarrow> BRPeerManager option" where
  "saved_chain b m = (case b of
     None \<Rightarrow> Some m
   | Some b \<Rightarrow> let m = m\<lparr>blocks := (blocks m)(blockHash b \<mapsto> b), lastBlock := Some (blockHash b),
                        orphans := (orphans m)(prevBlock b := None)\<rparr>
       in saved_chain (orphans m (blockHash b)) m)"

declare saved_chain.simps [code]

definition empty_manager :: "BRWallet \<Rightarrow> u32 \<Rightarrow> BRPeer list \<Rightarrow> BRPeerManager" where
  "empty_manager wallet keyTime ps = \<lparr>m_wallet = wallet, isConnected = False, connectFailureCount = 0,
     misbehavinCount = 0, dnsThreadCount = 0, maxConnectCount = PEER_MAX_CONNECTIONS, peers = sort_peers ps,
     downloadPeer = None, fixedPeer = BR_PEER_NONE, connectedPeers = [], m_earliestKeyTime = keyTime,
     syncStartHeight = 0, filterUpdateHeight = 0, estimatedHeight = 0, bloomFilter = None, fpRate = 0,
     averageTxPerBlock = 1400, blocks = Map.empty, orphans = Map.empty, checkpoints = Map.empty,
     lastBlock = None, lastOrphan = None, txRelays = [], txRequests = [], publishedTx = [],
     publishedTxHashes = [], conns = Map.empty, infos = Map.empty, m_next = 0, pastCount = 0, m_events = []\<rparr>"

definition BRPeerManagerNew ::
  "('k, 's, 'r) manager_env \<Rightarrow> BRWallet \<Rightarrow> u32 \<Rightarrow> BRMerkleBlock list \<Rightarrow> BRPeer list \<Rightarrow> BRPeerManager option" where
  "BRPeerManagerNew E wallet keyTime bs ps = do {
     let m = foldl add_checkpoint (empty_manager wallet keyTime ps) (me_checkpoints E);
     (m, start) \<leftarrow> fold_m add_saved (m, None) bs;
     saved_chain start m }"

text \<open>The part of \<open>BRPeerManagerDisconnect\<close> before it waits for the threads to end.\<close>

definition BRPeerManagerDisconnect :: "BRPeerManager \<Rightarrow> BRPeerManager option" where
  "BRPeerManagerDisconnect m = fold_m (\<lambda>m p. on_peer p BRPeerDisconnect (m\<lparr>connectFailureCount := MAX_CONNECT_FAILURES\<rparr>))
     m (rev (connectedPeers m))"

text \<open>The part of \<open>BRPeerManagerSetFixedPeer\<close> after it has disconnected.\<close>

definition set_fixed_peer :: "UInt128 \<Rightarrow> u16 \<Rightarrow> BRPeerManager \<Rightarrow> BRPeerManager" where
  "set_fixed_peer a port m = m\<lparr>maxConnectCount := (if a = 0 then PEER_MAX_CONNECTIONS else 1),
     fixedPeer := \<lparr>p_address = a, p_port = port, p_services = 0, p_timestamp = 0, p_flags = 0\<rparr>, peers := []\<rparr>"

text \<open>The checkpoint from which a rescan starts.\<close>

definition rescan_start :: "checkpoint list \<Rightarrow> u32 \<Rightarrow> checkpoint option" where
  "rescan_start cps keyTime = (case find (\<lambda>c. before_keys (cp_timestamp c) keyTime) (rev (tl cps)) of
     Some c \<Rightarrow> Some c
   | None \<Rightarrow> (case cps of [] \<Rightarrow> None | c # _ \<Rightarrow> Some c))"

definition BRPeerManagerRescan :: "('k, 's, 'r) manager_env \<Rightarrow> BRPeerManager \<Rightarrow> BRPeerManager option" where
  "BRPeerManagerRescan E m =
     (if isConnected m then do {
        c \<leftarrow> rescan_start (me_checkpoints E) (m_earliestKeyTime m);
        let m = m\<lparr>lastBlock := map_option (\<lambda>_. cp_hash c) (blocks m (cp_hash c))\<rparr>;
        m \<leftarrow> (case downloadPeer m of
            None \<Rightarrow> Some m
          | Some d \<Rightarrow> do {
              ctx \<leftarrow> conns m d;
              on_peer d BRPeerDisconnect (m\<lparr>peers := filter (\<lambda>q. \<not> BRPeerEq q (peer ctx)) (peers m)\<rparr>) });
        BRPeerManagerConnect E (m\<lparr>syncStartHeight := 0\<rparr>) }
      else Some m)"

definition BRPeerManagerIsConnected :: "BRPeerManager \<Rightarrow> bool" where
  "BRPeerManagerIsConnected m = isConnected m"

definition BRPeerManagerConnectStatus :: "BRPeerManager \<Rightarrow> BRPeerStatus option" where
  "BRPeerManagerConnectStatus m =
     (if isConnected m then Some BRPeerStatusConnected
      else fold_m (\<lambda>s p. if s \<noteq> BRPeerStatusDisconnected then Some s else do {
             ctx \<leftarrow> conns m p;
             Some (if BRPeerConnectStatus ctx = BRPeerStatusDisconnected then s else BRPeerStatusConnecting) })
           BRPeerStatusDisconnected (rev (connectedPeers m)))"

definition BRPeerManagerEstimatedBlockHeight :: "BRPeerManager \<Rightarrow> u32 option" where
  "BRPeerManagerEstimatedBlockHeight m = do {
     lb \<leftarrow> last_block m;
     Some (if height lb < estimatedHeight m then estimatedHeight m else height lb) }"

definition BRPeerManagerLastBlockHeight :: "BRPeerManager \<Rightarrow> u32 option" where
  "BRPeerManagerLastBlockHeight m = map_option height (last_block m)"

definition BRPeerManagerLastBlockTimestamp :: "BRPeerManager \<Rightarrow> u32 option" where
  "BRPeerManagerLastBlockTimestamp m = map_option mb_timestamp (last_block m)"

definition BRPeerManagerSyncProgress :: "BRPeerManager \<Rightarrow> u32 \<Rightarrow> rat option" where
  "BRPeerManagerSyncProgress m startHeight = (let s = (if startHeight = 0 then syncStartHeight m else startHeight) in
     if downloadPeer m = None \<and> syncStartHeight m = 0 then Some 0
     else do {
       lb \<leftarrow> last_block m;
       Some (if downloadPeer m = None \<or> height lb < estimatedHeight m then
               if height lb > s \<and> estimatedHeight m > s
               then 1 / 10 + 9 / 10 * of_nat (unat (height lb - s)) / of_nat (unat (estimatedHeight m - s))
               else 5 / 100
             else 1) })"

definition connected_count :: "BRPeerManager \<Rightarrow> nat option" where
  "connected_count m = fold_m (\<lambda>n p. do {
     ctx \<leftarrow> conns m p;
     Some (if BRPeerConnectStatus ctx = BRPeerStatusConnected then n + 1 else n) }) 0 (rev (connectedPeers m))"

definition BRPeerManagerPeerCount :: "BRPeerManager \<Rightarrow> nat option" where
  "BRPeerManagerPeerCount m = connected_count m"

definition publish_tx_inv_done :: "('k, 's, 'r) manager_env \<Rightarrow> nat \<Rightarrow> BRPeerManager \<Rightarrow> BRPeerManager option" where
  "publish_tx_inv_done E p m = BRPeerManagerRequestUnrelayedTx E p m"

definition BRPeerManagerPublishTx :: "('k, 's, 'r) manager_env \<Rightarrow> BRTransaction \<Rightarrow> callback \<Rightarrow> BRPeerManager \<Rightarrow> BRPeerManager option" where
  "BRPeerManagerPublishTx E tx c m =
     (if \<not> BRTransactionIsSigned tx then None
      else if \<not> isConnected m \<and> (connectFailureCount m \<ge> MAX_CONNECT_FAILURES \<or> \<not> me_reachable E)
      then Some (call_published c ENOTCONN m)
      else do {
        m \<leftarrow> BRPeerManagerAddTxToPublishList (tx\<lparr>tx_timestamp := ucast (now E)\<rparr>) c m;
        n \<leftarrow> connected_count m;
        fold_m (if_connected (\<lambda>p m.
          if downloadPeer m \<noteq> Some p \<or> n = 1 then do {
            m \<leftarrow> BRPeerManagerPublishPendingTx E p m;
            ping_with E p PublishTxInvDone p m }
          else Some m)) m (rev (connectedPeers m)) })"

definition BRPeerManagerRelayCount :: "BRPeerManager \<Rightarrow> UInt256 \<Rightarrow> nat option" where
  "BRPeerManagerRelayCount m h = (if h = 0 then None else Some (BRTxPeerListCount (txRelays m) h))"

text \<open>The call of a function with its info, which must be allocated.\<close>

definition called :: "('k, 's, 'r) manager_env \<Rightarrow> nat \<Rightarrow> bool \<Rightarrow> BRPeerManager \<Rightarrow> BRPeerManager option" where
  "called E c success m = (case infos m c of
     None \<Rightarrow> None
   | Some (t, p) \<Rightarrow> (case t of
       UpdateFilterRerequestDone \<Rightarrow> update_filter_rerequest_done E p success (free_info c m)
     | UpdateFilterLoadDone \<Rightarrow> update_filter_load_done E p success (free_info c m)
     | UpdateFilterPingDone \<Rightarrow> update_filter_ping_done E c p success m
     | RequestUnrelayedTxGetdataDone \<Rightarrow> request_unrelayed_tx_getdata_done E p success (free_info c m)
     | MempoolDone \<Rightarrow> mempool_done E p success (free_info c m)
     | LoadBloomFilterDone \<Rightarrow> load_bloom_filter_done E c p success m
     | PublishTxInvDone \<Rightarrow> publish_tx_inv_done E p (free_info c m)))"

end
