(* ===== verification/ManagerLists.thy ===== *)
theory ManagerLists
  imports BRPeerManager "HOL-Library.Multiset"
begin

text \<open>
  The lists that the manager keeps: for each transaction the peers that relayed it or were asked for it,
  and the published transactions with their callbacks.
\<close>

section \<open>Updates of the last match\<close>

lemma update_first_none: "\<forall>x\<in>set xs. \<not> P x \<Longrightarrow> update_first P f xs = xs"
  by (induction xs) auto

lemma update_first_split: "\<forall>x\<in>set as. \<not> P x \<Longrightarrow> P x \<Longrightarrow> update_first P f (as @ x # bs) = as @ f x @ bs"
  by (induction as) auto

lemma update_last_split: "\<forall>x\<in>set bs. \<not> P x \<Longrightarrow> P x \<Longrightarrow> update_last P f (as @ x # bs) = as @ rev (f x) @ bs"
  by (simp add: update_last_def update_first_split)

lemma update_last_none: "\<forall>x\<in>set xs. \<not> P x \<Longrightarrow> update_last P f xs = xs"
  by (simp add: update_last_def update_first_none)

lemma last_split:
  assumes "\<exists>x\<in>set xs. P x"
  obtains as x bs where "xs = as @ x # bs" "P x" "\<forall>y\<in>set bs. \<not> P y"
  using split_list_last_prop [OF assms] by blast

lemma update_last_remove:
  assumes "distinct xs"
  shows "distinct (update_last (\<lambda>y. y = x) (\<lambda>_. []) xs)" "set (update_last (\<lambda>y. y = x) (\<lambda>_. []) xs) = set xs - {x}"
    "length (update_last (\<lambda>y. y = x) (\<lambda>_. []) xs) \<le> length xs"
proof -
  have "distinct (update_last (\<lambda>y. y = x) (\<lambda>_. []) xs) \<and> set (update_last (\<lambda>y. y = x) (\<lambda>_. []) xs) = set xs - {x} \<and>
      length (update_last (\<lambda>y. y = x) (\<lambda>_. []) xs) \<le> length xs"
  proof (cases "x \<in> set xs")
    case True
    then have "\<exists>y\<in>set xs. y = x" by blast
    then obtain as y bs where "xs = as @ y # bs" "y = x" "\<forall>z\<in>set bs. z \<noteq> x" by (rule last_split)
    then show ?thesis using assms by (auto simp: update_last_split)
  next
    case False
    then show ?thesis using assms by (subst update_last_none; auto)+
  qed
  then show "distinct (update_last (\<lambda>y. y = x) (\<lambda>_. []) xs)" "set (update_last (\<lambda>y. y = x) (\<lambda>_. []) xs) = set xs - {x}"
    "length (update_last (\<lambda>y. y = x) (\<lambda>_. []) xs) \<le> length xs" by blast+
qed

section \<open>Peers of a transaction\<close>

text \<open>What makes two peers equal, and the peers of a transaction as a set of these.\<close>

definition peer_key :: "BRPeer \<Rightarrow> UInt128 \<times> u16" where "peer_key p = (p_address p, p_port p)"

lemma BRPeerEq_key: "BRPeerEq p q \<longleftrightarrow> peer_key p = peer_key q"
  by (auto simp: BRPeerEq_def peer_key_def)

lemma list_ex_key: "list_ex (\<lambda>q. BRPeerEq q p) ps \<longleftrightarrow> peer_key p \<in> peer_key ` set ps"
  by (auto simp: list_ex_iff BRPeerEq_key) (metis image_eqI)

definition relays_ok :: "BRTxPeerList list \<Rightarrow> bool" where
  "relays_ok l \<longleftrightarrow> distinct (map txl_hash l) \<and> (\<forall>e\<in>set l. distinct (map peer_key (txl_peers e)))"

definition peers_of :: "BRTxPeerList list \<Rightarrow> UInt256 \<Rightarrow> (UInt128 \<times> u16) set" where
  "peers_of l h = {peer_key p | p e. e \<in> set l \<and> txl_hash e = h \<and> p \<in> set (txl_peers e)}"

lemma last_entryD:
  assumes "last_entry l h = Some e" "relays_ok l"
  obtains as bs where "l = as @ e # bs" "txl_hash e = h" "\<forall>x\<in>set as \<union> set bs. txl_hash x \<noteq> h"
proof -
  have "e \<in> set (rev l)" "txl_hash e = h" using assms(1) unfolding last_entry_def find_Some_iff by (metis nth_mem)+
  then have "e \<in> set l" by simp
  then obtain as bs where "l = as @ e # bs" by (auto simp: in_set_conv_decomp)
  moreover have "\<forall>x\<in>set as \<union> set bs. txl_hash x \<noteq> h"
    using assms(2) \<open>txl_hash e = h\<close> unfolding relays_ok_def calculation by (auto simp: image_iff)
  ultimately show ?thesis using \<open>txl_hash e = h\<close> that by blast
qed

lemma last_entry_NoneD: "last_entry l h = None \<Longrightarrow> e \<in> set l \<Longrightarrow> txl_hash e \<noteq> h"
  by (auto simp: last_entry_def find_None_iff)

lemma peers_of_None: "last_entry l h = None \<Longrightarrow> peers_of l h = {}"
  using last_entry_NoneD [of l h] by (auto simp: peers_of_def)

lemma peers_of_entry:
  assumes "last_entry l h = Some e" "relays_ok l"
  shows "peers_of l h = peer_key ` set (txl_peers e)"
proof -
  obtain as bs where "l = as @ e # bs" "txl_hash e = h" "\<forall>x\<in>set as \<union> set bs. txl_hash x \<noteq> h"
    by (rule last_entryD [OF assms])
  then show ?thesis by (auto simp: peers_of_def)
qed

lemma has_peer: "relays_ok l \<Longrightarrow> BRTxPeerListHasPeer l h p \<longleftrightarrow> peer_key p \<in> peers_of l h"
proof (cases "last_entry l h")
  case (Some e)
  assume "relays_ok l"
  then have "peers_of l h = peer_key ` set (txl_peers e)" using Some by (simp add: peers_of_entry)
  then show ?thesis using Some by (simp add: BRTxPeerListHasPeer_def list_ex_key)
qed (simp add: BRTxPeerListHasPeer_def peers_of_None)

lemma peer_list_count: "relays_ok l \<Longrightarrow> BRTxPeerListCount l h = card (peers_of l h)"
proof (cases "last_entry l h")
  case (Some e)
  assume ok: "relays_ok l"
  then have "e \<in> set l" using last_entryD [OF Some] by (metis in_set_conv_decomp)
  then have "distinct (map peer_key (txl_peers e))" using ok by (simp add: relays_ok_def)
  then show ?thesis using distinct_card [of "map peer_key (txl_peers e)"]
    by (simp add: BRTxPeerListCount_def Some peers_of_entry [OF Some ok])
qed (simp add: BRTxPeerListCount_def peers_of_None)

lemma replace_entry:
  assumes "l = as @ e # bs" "txl_hash e = h" "\<forall>x\<in>set as \<union> set bs. txl_hash x \<noteq> h"
  shows "update_last (\<lambda>e. txl_hash e = h) (\<lambda>e. [g e]) l = as @ g e # bs"
  using assms by (simp add: update_last_split)

lemma replaced_ok:
  assumes "relays_ok (as @ e # bs)" "txl_hash e' = txl_hash e" "distinct (map peer_key (txl_peers e'))"
  shows "relays_ok (as @ e' # bs)"
  using assms by (auto simp: relays_ok_def)

lemma replaced_peers:
  assumes "\<forall>x\<in>set as \<union> set bs. txl_hash x \<noteq> h" "txl_hash e = h"
  shows "peers_of (as @ e # bs) = (peers_of (as @ bs))(h := peer_key ` set (txl_peers e))"
  using assms by (intro ext) (auto simp: peers_of_def)

lemma add_peer:
  assumes "relays_ok l" "BRTxPeerListAddPeer l h p = (l', n)"
  shows "relays_ok l' \<and> peers_of l' = (peers_of l)(h := insert (peer_key p) (peers_of l h)) \<and> n = card (peers_of l' h)"
proof (cases "last_entry l h")
  case None
  then have l': "l' = l @ [\<lparr>txl_hash = h, txl_peers = [p]\<rparr>]" "n = 1" using assms(2) by (simp_all add: BRTxPeerListAddPeer_def)
  have new: "\<forall>x\<in>set l \<union> set []. txl_hash x \<noteq> h" using last_entry_NoneD [OF None] by simp
  have "relays_ok l'" using assms(1) new by (auto simp: l' relays_ok_def)
  then show ?thesis using replaced_peers [OF new, of "\<lparr>txl_hash = h, txl_peers = [p]\<rparr>"] by (simp add: l' peers_of_None [OF None])
next
  case (Some e)
  obtain as bs where l: "l = as @ e # bs" "txl_hash e = h" "\<forall>x\<in>set as \<union> set bs. txl_hash x \<noteq> h"
    by (rule last_entryD [OF Some assms(1)])
  note old = peers_of_entry [OF Some assms(1)]
  have count: "length (txl_peers e) = card (peers_of l h)"
    using peer_list_count [OF assms(1), of h] by (simp add: BRTxPeerListCount_def Some)
  show ?thesis
  proof (cases "list_ex (\<lambda>q. BRPeerEq q p) (txl_peers e)")
    case True
    then have "peer_key p \<in> peers_of l h" by (simp add: old list_ex_key)
    then have "(peers_of l)(h := insert (peer_key p) (peers_of l h)) = peers_of l" by (simp add: insert_absorb)
    moreover have "l' = l" "n = card (peers_of l h)" using assms(2) True unfolding count [symmetric] by (auto simp: BRTxPeerListAddPeer_def Some)
    ultimately show ?thesis using assms(1) by simp
  next
    case False
    let ?e = "e\<lparr>txl_peers := txl_peers e @ [p]\<rparr>"
    have l': "l' = as @ ?e # bs" "n = length (txl_peers e) + 1"
      using assms(2) False replace_entry [OF l] by (simp_all add: BRTxPeerListAddPeer_def Some)
    have new: "peer_key p \<notin> peers_of l h" "peer_key p \<notin> peer_key ` set (txl_peers e)"
      using False by (simp_all add: old list_ex_key)
    have d: "distinct (map peer_key (txl_peers e))" using assms(1) by (simp add: l relays_ok_def)
    have "relays_ok l'" unfolding l' by (rule replaced_ok [of _ e]) (use assms(1) new(2) d in \<open>auto simp: l\<close>)
    moreover have "peers_of l' = (peers_of l)(h := insert (peer_key p) (peers_of l h))"
      using replaced_peers [OF l(3), of ?e] replaced_peers [OF l(3), of e] l(1,2) by (simp add: l' old)
    moreover have "n = card (insert (peer_key p) (peers_of l h))" using new by (simp add: l'(2) count old)
    ultimately show ?thesis by simp
  qed
qed

lemma remove_peer:
  assumes "relays_ok l" "BRTxPeerListRemovePeer l h p = (l', r)"
  shows "relays_ok l' \<and> peers_of l' = (peers_of l)(h := peers_of l h - {peer_key p}) \<and> (r \<longleftrightarrow> peer_key p \<in> peers_of l h)"
proof (cases "last_entry l h")
  case None
  then have "l' = l" "\<not> r" using assms(2) by (simp_all add: BRTxPeerListRemovePeer_def)
  moreover have "(peers_of l)(h := peers_of l h - {peer_key p}) = peers_of l" by (simp add: peers_of_None [OF None] fun_upd_idem)
  ultimately show ?thesis using assms(1) by (simp add: peers_of_None [OF None])
next
  case (Some e)
  obtain as bs where l: "l = as @ e # bs" "txl_hash e = h" "\<forall>x\<in>set as \<union> set bs. txl_hash x \<noteq> h"
    by (rule last_entryD [OF Some assms(1)])
  note old = peers_of_entry [OF Some assms(1)]
  show ?thesis
  proof (cases "list_ex (\<lambda>q. BRPeerEq q p) (txl_peers e)")
    case False
    then have "peer_key p \<notin> peers_of l h" by (simp add: old list_ex_key)
    moreover have "l' = l" "\<not> r" using assms(2) False by (simp_all add: BRTxPeerListRemovePeer_def Some)
    ultimately show ?thesis using assms(1) by (simp add: fun_upd_idem)
  next
    case True
    then have "\<exists>q\<in>set (txl_peers e). BRPeerEq q p" by (simp add: list_ex_iff)
    then obtain ps q qs where e: "txl_peers e = ps @ q # qs" "BRPeerEq q p" "\<forall>x\<in>set qs. \<not> BRPeerEq x p"
      by (rule last_split)
    let ?e = "e\<lparr>txl_peers := ps @ qs\<rparr>"
    have "update_last (\<lambda>q. BRPeerEq q p) (\<lambda>_. []) (txl_peers e) = ps @ qs" using e by (simp add: update_last_split)
    then have l': "l' = as @ ?e # bs" "r"
      using assms(2) True replace_entry [OF l] by (auto simp: BRTxPeerListRemovePeer_def Some)
    have d: "distinct (map peer_key (txl_peers e))" using assms(1) by (simp add: l relays_ok_def)
    then have diff: "peer_key ` set (ps @ qs) = peer_key ` set (txl_peers e) - {peer_key p}"
      using e by (auto simp: BRPeerEq_key)
    have "relays_ok l'" unfolding l' by (rule replaced_ok [of _ e]) (use assms(1) d e in \<open>auto simp: l\<close>)
    moreover have "peers_of l' = (peers_of l)(h := peers_of l h - {peer_key p})"
      using replaced_peers [OF l(3), of ?e] replaced_peers [OF l(3), of e] l(1,2) diff by (simp add: l' old)
    moreover have "peer_key p \<in> peers_of l h" using e by (auto simp: old BRPeerEq_key)
    ultimately show ?thesis using l'(2) by simp
  qed
qed

lemma relays_ok_Nil [simp]: "relays_ok []"
  by (simp add: relays_ok_def)

lemma relays_ok_filter: "relays_ok l \<Longrightarrow> relays_ok (filter P l)"
  by (auto simp: relays_ok_def distinct_map_filter)

lemma relays_ok_purge:
  "relays_ok l \<Longrightarrow> relays_ok (map (\<lambda>e. e\<lparr>txl_peers := filter P (txl_peers e)\<rparr>) l)"
  by (auto simp: relays_ok_def distinct_map_filter comp_def)

text \<open>Operations on the lists, and what they do to a map to sets of addresses with ports.\<close>

datatype relay_op = AddRelay UInt256 BRPeer | RemoveRelay UInt256 BRPeer

fun relay_step :: "BRTxPeerList list \<Rightarrow> relay_op \<Rightarrow> BRTxPeerList list" where
  "relay_step l (AddRelay h p) = fst (BRTxPeerListAddPeer l h p)"
| "relay_step l (RemoveRelay h p) = fst (BRTxPeerListRemovePeer l h p)"

fun relay_spec :: "(UInt256 \<Rightarrow> (UInt128 \<times> u16) set) \<Rightarrow> relay_op \<Rightarrow> UInt256 \<Rightarrow> (UInt128 \<times> u16) set" where
  "relay_spec R (AddRelay h p) = R(h := insert (peer_key p) (R h))"
| "relay_spec R (RemoveRelay h p) = R(h := R h - {peer_key p})"

lemma relay_steps: "relays_ok l \<Longrightarrow> relays_ok (foldl relay_step l ops) \<and>
    peers_of (foldl relay_step l ops) = foldl relay_spec (peers_of l) ops"
proof (induction ops arbitrary: l)
  case (Cons op ops)
  have "relays_ok (relay_step l op) \<and> peers_of (relay_step l op) = relay_spec (peers_of l) op"
    using add_peer [OF Cons.prems] remove_peer [OF Cons.prems] by (cases op) (metis prod.collapse relay_step.simps relay_spec.simps)+
  then show ?case using Cons.IH by auto
qed simp

text \<open>
  C13: the lists of peers that relayed a transaction, or were asked for it, implement a map from
  transactions to sets of peers: after any sequence of additions and removals, each by address and port, the
  look-up, the count and the results of these functions are those of the sets.
\<close>
theorem relay_lists_refine_sets:
  "let l = foldl relay_step [] ops; R = foldl relay_spec (\<lambda>_. {}) ops in
     BRTxPeerListHasPeer l h p = (peer_key p \<in> R h) \<and> BRTxPeerListCount l h = card (R h) \<and>
     snd (BRTxPeerListAddPeer l h p) = card (insert (peer_key p) (R h)) \<and>
     snd (BRTxPeerListRemovePeer l h p) = (peer_key p \<in> R h)"
proof -
  have e: "peers_of [] = (\<lambda>_. {})" by (auto simp: peers_of_def)
  note s = relay_steps [OF relays_ok_Nil, of ops, unfolded e]
  show ?thesis unfolding Let_def
    using s has_peer peer_list_count add_peer [of "foldl relay_step [] ops" h p] remove_peer [of "foldl relay_step [] ops" h p]
    by (metis fun_upd_same prod.collapse)
qed

end
