(* ===== verification/ManagerInvariant.thy ===== *)
theory ManagerInvariant
  imports ManagerLists PeerProperties WalletSteps
begin

text \<open>
  The invariant of the manager and that each of its functions keeps it. It has a part for the
  connections, one for the published transactions and their callbacks, one for the lists of peers of
  transactions, one for the blocks, and the reachability of the wallet.
\<close>

section \<open>The invariant\<close>

definition conns_ok :: "BRPeerManager \<Rightarrow> bool" where
  "conns_ok m \<longleftrightarrow> distinct (connectedPeers m) \<and> set (connectedPeers m) = dom (conns m) \<and>
     length (connectedPeers m) \<le> maxConnectCount m \<and> 0 < maxConnectCount m \<and>
     (isConnected m \<longleftrightarrow> downloadPeer m \<noteq> None) \<and> (\<forall>d. downloadPeer m = Some d \<longrightarrow> d \<in> dom (conns m)) \<and>
     (\<forall>p ctx. conns m p = Some ctx \<longrightarrow> p < m_next m \<and> peer_ok ctx)"

definition tx_bound :: "BRTransaction \<Rightarrow> bool" where
  "tx_bound tx \<longleftrightarrow> length (outputs tx) < 2 ^ 32"

definition published_ok :: "BRPublishedTx list \<Rightarrow> UInt256 list \<Rightarrow> bool" where
  "published_ok ps hs \<longleftrightarrow> hs = map (txHash \<circ> pub_tx) ps \<and> distinct hs \<and> (\<forall>p\<in>set ps. tx_bound (pub_tx p))"

fun published_calls :: "manager_event list \<Rightarrow> nat list" where
  "published_calls [] = []"
| "published_calls (Published c e # es) = c # published_calls es"
| "published_calls (_ # es) = published_calls es"

text \<open>The callbacks that are pending or were called.\<close>

definition callbacks :: "BRPublishedTx list \<Rightarrow> manager_event list \<Rightarrow> nat multiset" where
  "callbacks ps es = mset (List.map_filter pub_callback ps) + mset (published_calls es)"

text \<open>
  What is to hold of the blocks is a parameter: a condition on the table with the last block, and one on
  the orphans.
\<close>

type_synonym chain_inv = "(block_table \<Rightarrow> UInt256 option \<Rightarrow> bool) \<times> (UInt256 \<Rightarrow> BRMerkleBlock \<Rightarrow> bool)"

definition chain_ok :: "chain_inv \<Rightarrow> BRPeerManager \<Rightarrow> bool" where
  "chain_ok F m \<longleftrightarrow> fst F (blocks m) (lastBlock m) \<and> (\<forall>h b. orphans m h = Some b \<longrightarrow> snd F h b)"

definition manager_ok :: "chain_inv \<Rightarrow> bool \<Rightarrow> ('k, 's, 'r) secp \<Rightarrow> nat multiset \<Rightarrow> BRPeerManager \<Rightarrow> bool" where
  "manager_ok F T S C m \<longleftrightarrow> conns_ok m \<and> published_ok (publishedTx m) (publishedTxHashes m) \<and>
     callbacks (publishedTx m) (m_events m) \<subseteq># C \<and> relays_ok (txRelays m) \<and> relays_ok (txRequests m) \<and>
     chain_ok F m \<and> reachable T S (m_wallet m)"

lemma manager_ok_updates [simp]:
  "manager_ok F T S C (m\<lparr>connectFailureCount := n\<rparr>) = manager_ok F T S C m"
  "manager_ok F T S C (m\<lparr>misbehavinCount := n\<rparr>) = manager_ok F T S C m"
  "manager_ok F T S C (m\<lparr>dnsThreadCount := n\<rparr>) = manager_ok F T S C m"
  "manager_ok F T S C (m\<lparr>peers := ps\<rparr>) = manager_ok F T S C m"
  "manager_ok F T S C (m\<lparr>fixedPeer := p\<rparr>) = manager_ok F T S C m"
  "manager_ok F T S C (m\<lparr>m_earliestKeyTime := k\<rparr>) = manager_ok F T S C m"
  "manager_ok F T S C (m\<lparr>syncStartHeight := k\<rparr>) = manager_ok F T S C m"
  "manager_ok F T S C (m\<lparr>filterUpdateHeight := k\<rparr>) = manager_ok F T S C m"
  "manager_ok F T S C (m\<lparr>estimatedHeight := k\<rparr>) = manager_ok F T S C m"
  "manager_ok F T S C (m\<lparr>bloomFilter := f\<rparr>) = manager_ok F T S C m"
  "manager_ok F T S C (m\<lparr>fpRate := r\<rparr>) = manager_ok F T S C m"
  "manager_ok F T S C (m\<lparr>averageTxPerBlock := r\<rparr>) = manager_ok F T S C m"
  "manager_ok F T S C (m\<lparr>checkpoints := cs\<rparr>) = manager_ok F T S C m"
  "manager_ok F T S C (m\<lparr>lastOrphan := b\<rparr>) = manager_ok F T S C m"
  "manager_ok F T S C (m\<lparr>infos := i\<rparr>) = manager_ok F T S C m"
  "manager_ok F T S C (m\<lparr>pastCount := n\<rparr>) = manager_ok F T S C m"
  by (simp_all add: manager_ok_def conns_ok_def chain_ok_def)

lemma clear_orphans_ok: "manager_ok F T S C m \<Longrightarrow> manager_ok F T S C (m\<lparr>orphans := Map.empty\<rparr>)"
  by (simp add: manager_ok_def conns_ok_def chain_ok_def)

lemma free_info_ok [simp]: "manager_ok F T S C (free_info c m) = manager_ok F T S C m"
  by (simp add: free_info_def)

lemma published_calls_append [simp]: "published_calls (es @ es') = published_calls es @ published_calls es'"
  by (induction es rule: published_calls.induct) auto

lemma published_calls_map [simp]:
  "published_calls (map WalletEvent es) = []" "published_calls (map (\<lambda>c. Published c e) cs) = cs"
  by (induction es; simp) (induction cs; simp)

lemma m_log_ok: "published_calls es = [] \<Longrightarrow> manager_ok F T S C (m_log es m) = manager_ok F T S C m"
  by (simp add: manager_ok_def m_log_def conns_ok_def chain_ok_def callbacks_def)

lemma new_info_ok: "new_info t p m = (m', c) \<Longrightarrow> manager_ok F T S C m \<Longrightarrow> manager_ok F T S C m'"
  by (auto simp: new_info_def manager_ok_def conns_ok_def chain_ok_def) (meson less_SucI)+

lemma on_peer_ok:
  assumes "on_peer p f m = Some m'" "\<And>ctx. peer_ok ctx \<Longrightarrow> peer_ok (f ctx)" "manager_ok F T S C m"
  shows "manager_ok F T S C m'"
proof -
  obtain ctx where ctx: "conns m p = Some ctx" "m' = m\<lparr>conns := (conns m)(p \<mapsto> f ctx)\<rparr>"
    using assms(1) by (auto simp: on_peer_def bind_eq_Some_conv)
  then have "dom (conns m') = dom (conns m)" by auto
  then show ?thesis using assms(2,3) ctx by (auto simp: manager_ok_def conns_ok_def chain_ok_def)
qed

lemma fold_m_keeps:
  assumes "fold_m f s xs = Some s'" "P s" "\<And>s x s'. x \<in> set xs \<Longrightarrow> P s \<Longrightarrow> f s x = Some s' \<Longrightarrow> P s'"
  shows "P s'"
  using assms by (induction xs arbitrary: s) (auto simp: bind_eq_Some_conv)

lemma wallet_step_ok:
  "wallet_step T S (m_wallet m) w \<Longrightarrow> manager_ok F T S C m \<Longrightarrow> manager_ok F T S C (m\<lparr>m_wallet := w\<rparr>)"
  by (auto simp: manager_ok_def conns_ok_def chain_ok_def intro: reachable_step)

lemma relays_update_ok:
  "manager_ok F T S C m \<Longrightarrow> relays_ok l \<Longrightarrow> manager_ok F T S C (m\<lparr>txRelays := l\<rparr>)"
  "manager_ok F T S C m \<Longrightarrow> relays_ok l \<Longrightarrow> manager_ok F T S C (m\<lparr>txRequests := l\<rparr>)"
  by (simp_all add: manager_ok_def conns_ok_def chain_ok_def)

lemma manager_okD:
  "manager_ok F T S C m \<Longrightarrow> relays_ok (txRelays m)" "manager_ok F T S C m \<Longrightarrow> relays_ok (txRequests m)"
  "manager_ok F T S C m \<Longrightarrow> reachable T S (m_wallet m)" "manager_ok F T S C m \<Longrightarrow> chain_ok F m"
  "manager_ok F T S C m \<Longrightarrow> published_ok (publishedTx m) (publishedTxHashes m)"
  by (simp_all add: manager_ok_def)

lemma add_peer_ok: "relays_ok l \<Longrightarrow> relays_ok (fst (BRTxPeerListAddPeer l h p))"
  using add_peer [of l h p] by (metis prod.collapse)

lemma remove_peer_ok: "relays_ok l \<Longrightarrow> relays_ok (fst (BRTxPeerListRemovePeer l h p))"
  using remove_peer [of l h p] by (metis prod.collapse)

lemma relay_add_ok: "relay_add h p m = (m', n) \<Longrightarrow> manager_ok F T S C m \<Longrightarrow> manager_ok F T S C m'"
  using add_peer_ok [of "txRelays m" h p]
  by (auto simp: relay_add_def manager_okD(1) intro!: relays_update_ok(1) split: prod.splits)

section \<open>Peers and the filter\<close>

lemma peer_ok_requests [simp]:
  "peer_ok (BRPeerScheduleDisconnect E ctx s) = peer_ok ctx" "peer_ok (BRPeerSetNeedsFilterUpdate ctx b) = peer_ok ctx"
  "peer_ok (BRPeerSetEarliestKeyTime ctx t) = peer_ok ctx" "peer_ok (BRPeerSetCurrentBlockHeight ctx h) = peer_ok ctx"
  "peer_ok (BRPeerSendFilterload E ctx f) = peer_ok ctx" "peer_ok (BRPeerSendGetaddr E ctx) = peer_ok ctx"
  "peer_ok (set_flag b8 ctx) = peer_ok ctx" "peer_ok (clear_flag b8 ctx) = peer_ok ctx"
  by (simp_all add: BRPeerScheduleDisconnect_def BRPeerSetNeedsFilterUpdate_def BRPeerSetEarliestKeyTime_def
      BRPeerSetCurrentBlockHeight_def BRPeerSendFilterload_def BRPeerSendGetaddr_def set_flag_def clear_flag_def)
    (simp_all add: peer_ok_def)

lemma peer_ok_ops:
  "peer_ok ctx \<Longrightarrow> peer_ok (BRPeerSendInv E ctx hs)" "peer_ok ctx \<Longrightarrow> peer_ok (BRPeerRerequestBlocks E ctx h)"
  "peer_ok ctx \<Longrightarrow> peer_ok (BRPeerConnect E r c ctx)"
  by (rule peer_op_ok; (rule peer_op.intros | assumption))+

lemma send_mempool_quiet: "peer_ok ctx \<Longrightarrow> peer_ok (BRPeerSendMempool (E\<lparr>env_call := (\<lambda>_ ctx. ctx)\<rparr>) ctx hs c)"
  by (rule send_mempool_ok) (simp_all add: calls_peer_def)

named_theorems keeps "what the functions of the manager keep"

lemma misbehavin_ok [keeps]:
  "BRPeerManagerPeerMisbehavin p m = Some m' \<Longrightarrow> manager_ok F T S C m \<Longrightarrow> manager_ok F T S C m'"
  by (auto simp: BRPeerManagerPeerMisbehavin_def bind_eq_Some_conv Let_def split: if_splits elim!: on_peer_ok)

lemma schedule_ok [keeps]: "schedule E p s m = Some m' \<Longrightarrow> manager_ok F T S C m \<Longrightarrow> manager_ok F T S C m'"
  by (auto simp: schedule_def elim!: on_peer_ok)

lemma sync_stopped_ok [keeps]: "BRPeerManagerSyncStopped E m = Some m' \<Longrightarrow> manager_ok F T S C m \<Longrightarrow> manager_ok F T S C m'"
  by (auto simp: BRPeerManagerSyncStopped_def Let_def split: option.splits if_splits elim!: schedule_ok)

text \<open>The invariant for the network and the curve library of the surroundings.\<close>

abbreviation ok :: "chain_inv \<Rightarrow> ('k, 's, 'r) manager_env \<Rightarrow> nat multiset \<Rightarrow> BRPeerManager \<Rightarrow> bool" where
  "ok F E C m \<equiv> manager_ok F (testnet E) (me_secp E) C m"

lemma unused_addrs_ok [keeps]: "unused_addrs E g i m = Some (m', as) \<Longrightarrow> ok F E C m \<Longrightarrow> ok F E C m'"
  by (auto simp: unused_addrs_def bind_eq_Some_conv intro!: wallet_step_ok step_unused)

lemma load_filter_ok [keeps]: "BRPeerManagerLoadBloomFilter E p m = Some m' \<Longrightarrow> ok F E C m \<Longrightarrow> ok F E C m'"
  by (auto simp: BRPeerManagerLoadBloomFilter_def bind_eq_Some_conv Let_def
      elim!: on_peer_ok clear_orphans_ok dest!: unused_addrs_ok)

lemma send_ping_keeps [keeps]: "send_ping E p c m = Some m' \<Longrightarrow> manager_ok F T S C m \<Longrightarrow> manager_ok F T S C m'"
  by (auto simp: send_ping_def elim!: on_peer_ok)

lemma ping_with_ok [keeps]: "ping_with E p t q m = Some m' \<Longrightarrow> manager_ok F T S C m \<Longrightarrow> manager_ok F T S C m'"
  by (auto simp: ping_with_def split: prod.splits dest: new_info_ok send_ping_keeps)

lemma send_mempool_keeps [keeps]:
  assumes "send_mempool E p hs c m = Some m'" "manager_ok F T S C m"
  shows "manager_ok F T S C m'"
proof -
  obtain m1 where m1: "on_peer p (\<lambda>ctx. BRPeerSendMempool ((me_peer E)\<lparr>env_call := (\<lambda>_ ctx. ctx)\<rparr>) ctx hs c) m = Some m1"
      "m' = m1 \<or> (\<exists>c. m' = free_info c m1)"
    using assms(1) by (cases c) (auto simp: send_mempool_def bind_eq_Some_conv Let_def split: if_splits)
  have "manager_ok F T S C m1" by (rule on_peer_ok [OF m1(1) _ assms(2)]) (rule send_mempool_quiet)
  then show ?thesis using m1(2) by auto
qed

lemma send_getblocks_ok [keeps]: "send_getblocks E p m = Some m' \<Longrightarrow> manager_ok F T S C m \<Longrightarrow> manager_ok F T S C m'"
  by (auto simp: send_getblocks_def bind_eq_Some_conv elim!: on_peer_ok)

lemma if_connected_ok:
  assumes "fold_m (if_connected f) m ps = Some m'" "\<And>p m m'. P m \<Longrightarrow> f p m = Some m' \<Longrightarrow> P m'" "P m"
  shows "P m'"
  by (rule fold_m_keeps [where P = P, OF assms(1,3)]) (auto simp: if_connected_def bind_eq_Some_conv assms(2) split: if_splits)

lemma rerequest_done_ok [keeps]: "update_filter_rerequest_done E p s m = Some m' \<Longrightarrow> ok F E C m \<Longrightarrow> ok F E C m'"
  by (auto simp: update_filter_rerequest_done_def bind_eq_Some_conv split: if_splits dest: keeps)

lemma load_done_ok [keeps]: "update_filter_load_done E p s m = Some m' \<Longrightarrow> ok F E C m \<Longrightarrow> ok F E C m'"
  by (auto simp: update_filter_load_done_def bind_eq_Some_conv split: if_splits
      elim!: on_peer_ok ping_with_ok send_mempool_keeps intro: peer_ok_ops)

lemma ping_done_ok [keeps]: "update_filter_ping_done E c p s m = Some m' \<Longrightarrow> ok F E C m \<Longrightarrow> ok F E C m'"
  by (auto simp: update_filter_ping_done_def bind_eq_Some_conv Let_def split: if_splits option.splits
      elim!: if_connected_ok send_ping_keeps ping_with_ok dest!: load_filter_ok)

lemma update_filter_ok [keeps]: "BRPeerManagerUpdateFilter E m = Some m' \<Longrightarrow> ok F E C m \<Longrightarrow> ok F E C m'"
  by (auto simp: BRPeerManagerUpdateFilter_def bind_eq_Some_conv split: if_splits option.splits
      elim!: on_peer_ok ping_with_ok)

section \<open>Transactions\<close>

lemma log_wallet_ok [simp]: "manager_ok F T S C (m_log (map WalletEvent es) m) = manager_ok F T S C m"
  by (rule m_log_ok) simp

lemma update_transactions_ok [keeps]: "update_transactions E hs bh ts m = Some m' \<Longrightarrow> ok F E C m \<Longrightarrow> ok F E C m'"
  by (auto simp: update_transactions_def bind_eq_Some_conv intro!: wallet_step_ok step_update)

lemma remove_tx_ok [keeps]: "remove_tx E h m = Some m' \<Longrightarrow> ok F E C m \<Longrightarrow> ok F E C m'"
  by (auto simp: remove_tx_def bind_eq_Some_conv intro!: wallet_step_ok step_remove)

lemma known_bound: "reachable T S w \<Longrightarrow> allTx w h = Some tx \<Longrightarrow> txHash tx = h \<and> tx_bound tx"
  by (drule reachable_ok) (simp add: wallet_ok_def list_ok_def store_ok_def tx_bound_def)

lemma register_tx_ok:
  assumes "register_tx E tx m = Some (m', r)" "tx_bound tx" "ok F E C m"
  shows "ok F E C m'"
  using assms by (auto simp: register_tx_def tx_bound_def bind_eq_Some_conv intro!: wallet_step_ok step_register)

lemma published_okD: "published_ok ps hs \<Longrightarrow> length ps = length hs"
  by (simp add: published_ok_def)

lemma publishedD:
  assumes "published m = Some ps" "manager_ok F T S C m"
  shows "map fst ps = publishedTx m" "map snd ps = publishedTxHashes m" "(p, h) \<in> set ps \<Longrightarrow> h = txHash (pub_tx p)"
    "(p, h) \<in> set ps \<Longrightarrow> tx_bound (pub_tx p)"
proof -
  have ps: "ps = zip (publishedTx m) (publishedTxHashes m)" "length (publishedTx m) = length (publishedTxHashes m)"
    using assms(1) by (auto simp: published_def split: if_splits)
  then show "map fst ps = publishedTx m" "map snd ps = publishedTxHashes m" by simp_all
  have e: "publishedTxHashes m = map (txHash \<circ> pub_tx) (publishedTx m)" "\<forall>p\<in>set (publishedTx m). tx_bound (pub_tx p)"
    using assms(2) by (simp_all add: manager_ok_def published_ok_def)
  show "h = txHash (pub_tx p)" if "(p, h) \<in> set ps" using that unfolding ps e(1) by (auto simp: set_zip)
  show "tx_bound (pub_tx p)" if "(p, h) \<in> set ps" using that e(2) unfolding ps by (auto dest: set_zip_leftD)
qed

lemma map_filter_sub:
  assumes "\<And>x. x \<in> set xs \<Longrightarrow> f' x = f x \<or> f' x = None"
  shows "mset (List.map_filter f' xs) \<subseteq># mset (List.map_filter f xs)"
  using assms
proof (induction xs)
  case (Cons x xs)
  then have "mset (List.map_filter f' xs) \<subseteq># mset (List.map_filter f xs)" "f' x = f x \<or> f' x = None" by simp_all
  then show ?case by (auto simp: map_filter_simps split: option.splits intro: subset_mset.order_trans)
qed (simp add: map_filter_simps)

lemma map_filter_filter_sub: "mset (List.map_filter f (filter P xs)) \<subseteq># mset (List.map_filter f xs)"
  by (induction xs) (auto simp: map_filter_simps split: option.splits intro: subset_mset.order_trans)

text \<open>Dropping published transactions and clearing callbacks.\<close>

lemma set_published_ok:
  assumes "manager_ok F T S C m" "published_ok (map fst ps) (map snd ps)"
    and "mset (List.map_filter pub_callback (map fst ps)) \<subseteq># mset (List.map_filter pub_callback (publishedTx m))"
  shows "manager_ok F T S C (set_published ps m)"
  using assms subset_mset.order_trans [OF subset_mset.add_right_mono [OF assms(3)]]
  by (auto simp: manager_ok_def set_published_def callbacks_def conns_ok_def chain_ok_def)

lemma filter_published_ok:
  assumes "published m = Some ps" "manager_ok F T S C m"
  shows "manager_ok F T S C (set_published (filter P ps) m)"
proof (rule set_published_ok [OF assms(2)])
  note d = publishedD [OF assms]
  have o: "published_ok (map fst ps) (map snd ps)" using assms(2) by (simp add: d manager_ok_def)
  then show "published_ok (map fst (filter P ps)) (map snd (filter P ps))"
    by (auto simp: published_ok_def distinct_map_filter d(3))
  have "List.map_filter pub_callback (map fst xs) = List.map_filter (pub_callback \<circ> fst) xs" for xs :: "(BRPublishedTx \<times> UInt256) list"
    by (induction xs) (auto simp: map_filter_simps split: option.splits)
  then show "mset (List.map_filter pub_callback (map fst (filter P ps))) \<subseteq># mset (List.map_filter pub_callback (publishedTx m))"
    using map_filter_filter_sub [of "pub_callback \<circ> fst" P ps] by (simp flip: d(1))
qed

lemma drop_confirmed_ok: "drop_confirmed m h = Some m' \<Longrightarrow> manager_ok F T S C m \<Longrightarrow> manager_ok F T S C m'"
  by (auto simp: drop_confirmed_def bind_eq_Some_conv intro!: relays_update_ok(1) filter_published_ok relays_ok_filter manager_okD(1))

lemma update_tx_ok [keeps]:
  assumes "BRPeerManagerUpdateTx E hs bh ts m = Some m'" "ok F E C m"
  shows "ok F E C m'"
proof -
  obtain m1 where m1: "(if bh \<noteq> TX_UNCONFIRMED then fold_m drop_confirmed m hs else Some m) = Some m1"
      "update_transactions E hs bh ts m1 = Some m'"
    using assms(1) by (auto simp: BRPeerManagerUpdateTx_def bind_eq_Some_conv)
  have "ok F E C m1"
    using m1(1) assms(2) fold_m_keeps [of drop_confirmed m hs m1 "ok F E C"] by (auto split: if_splits dest: drop_confirmed_ok)
  then show ?thesis using m1(2) by (rule update_transactions_ok [rotated])
qed

lemma unrelayed_tx_ok: "unrelayed_tx E m h = Some m' \<Longrightarrow> ok F E C m \<Longrightarrow> ok F E C m'"
  by (auto simp: unrelayed_tx_def Let_def split: if_splits dest: keeps)

lemma getdata_done_ok [keeps]:
  assumes "request_unrelayed_tx_getdata_done E p s m = Some m'" "ok F E C m"
  shows "ok F E C m'"
proof -
  obtain m1 where m1: "(if s then on_peer p (set_flag PEER_FLAG_SYNCED) m else Some m) = Some m1"
      "m' = m1 \<or> (\<exists>hs. fold_m (unrelayed_tx E) m1 hs = Some m')"
    using assms(1) by (auto simp: request_unrelayed_tx_getdata_done_def bind_eq_Some_conv Let_def split: if_splits)
  have "ok F E C m1" using m1(1) assms(2) by (auto split: if_splits elim!: on_peer_ok)
  then show ?thesis using m1(2) fold_m_keeps [of "unrelayed_tx E" m1 _ m' "ok F E C"] unrelayed_tx_ok by blast
qed

lemma request_list_ok:
  assumes "manager_ok F T S C m"
  shows "manager_ok F T S C (fst (foldl (\<lambda>(m, hs) h.
    if \<not> BRTxPeerListHasPeer (txRelays m) h q \<and> \<not> BRTxPeerListHasPeer (txRequests m) h q
    then (m\<lparr>txRequests := fst (BRTxPeerListAddPeer (txRequests m) h q)\<rparr>, hs @ [h]) else (m, hs)) (m, ks) txs))"
  using assms
proof (induction txs arbitrary: m ks)
  case (Cons h txs)
  have "manager_ok F T S C (m\<lparr>txRequests := fst (BRTxPeerListAddPeer (txRequests m) h q)\<rparr>)"
    by (intro relays_update_ok(2) add_peer_ok manager_okD(2) [OF Cons.prems] Cons.prems)
  then show ?case using Cons by simp
qed simp

lemma request_unrelayed_ok [keeps]:
  assumes "BRPeerManagerRequestUnrelayedTx E p m = Some m'" "ok F E C m"
  shows "ok F E C m'"
proof -
  obtain ctx m1 hs where m1: "ok F E C m1" "(if length hs > 0 then do {
       m \<leftarrow> on_peer p (\<lambda>ctx. BRPeerSendGetdata (me_peer E) ctx hs []) m1;
       if \<not> has_flag PEER_FLAG_SYNCED ctx then ping_with E p RequestUnrelayedTxGetdataDone p m else Some m }
     else on_peer p (set_flag PEER_FLAG_SYNCED) m1) = Some m'"
    using assms(1) request_list_ok [OF assms(2)]
    by (fastforce simp: BRPeerManagerRequestUnrelayedTx_def bind_eq_Some_conv Let_def case_prod_beta)
  then show ?thesis by (auto simp: bind_eq_Some_conv split: if_splits elim!: on_peer_ok ping_with_ok)
qed

lemma publish_pending_ok [keeps]: "BRPeerManagerPublishPendingTx E p m = Some m' \<Longrightarrow> ok F E C m \<Longrightarrow> ok F E C m'"
  by (auto simp: BRPeerManagerPublishPendingTx_def bind_eq_Some_conv split: if_splits
      elim!: on_peer_ok schedule_ok intro: peer_ok_ops)

lemma mempool_done_ok [keeps]: "mempool_done E p s m = Some m' \<Longrightarrow> ok F E C m \<Longrightarrow> ok F E C m'"
  by (auto simp: mempool_done_def bind_eq_Some_conv m_log_ok Let_def split: if_splits
      elim!: on_peer_ok request_unrelayed_ok sync_stopped_ok)

lemma load_bloom_done_ok [keeps]: "load_bloom_filter_done E c p s m = Some m' \<Longrightarrow> ok F E C m \<Longrightarrow> ok F E C m'"
  by (auto simp: load_bloom_filter_done_def bind_eq_Some_conv m_log_ok Let_def split: if_splits
      elim!: send_mempool_keeps sync_stopped_ok)

lemma load_mempools_ok [keeps]:
  assumes "BRPeerManagerLoadMempools E m = Some m'" "ok F E C m"
  shows "ok F E C m'"
proof (rule if_connected_ok [where P = "ok F E C", OF assms(1) [unfolded BRPeerManagerLoadMempools_def] _ assms(2)])
  fix p m m'
  assume "ok F E C m" "(if downloadPeer m \<noteq> Some p \<or> fpRate m > BLOOM_REDUCED_FALSEPOSITIVE_RATE * 5 then do {
         let (m, c) = new_info LoadBloomFilterDone p m;
         m \<leftarrow> BRPeerManagerLoadBloomFilter E p m;
         m \<leftarrow> BRPeerManagerPublishPendingTx E p m;
         send_ping E p c m }
       else case new_info MempoolDone p m of (m, c) \<Rightarrow> send_mempool E p (publishedTxHashes m) (Some c) m) = Some m'"
  then show "ok F E C m'"
    by (auto simp: bind_eq_Some_conv case_prod_beta split: if_splits
        elim!: send_mempool_keeps send_ping_keeps publish_pending_ok load_filter_ok intro: new_info_ok [OF surjective_pairing])
qed

section \<open>Connecting\<close>

lemma find_thread_ok: "findPeersThreadRoutine E seed s = Some s' \<Longrightarrow> manager_ok F T S C (fst s) \<Longrightarrow> manager_ok F T S C (fst s')"
  by (auto simp: findPeersThreadRoutine_def bind_eq_Some_conv)

lemma find_peers_ok:
  assumes "BRPeerManagerFindPeers E m rs = Some (m', rs')" "manager_ok F T S C m"
  shows "manager_ok F T S C m'"
proof (cases "p_address (fixedPeer m) = 0")
  case True
  define m1 where "m1 = m\<lparr>dnsThreadCount := dnsThreadCount m + me_threads E,
    peers := peers m @ map (seed_peer E 0) (takeWhile (\<lambda>a. a \<noteq> 0) (me_lookup E 0))\<rparr>"
  obtain m2 where m2: "fold_m (\<lambda>s seed. findPeersThreadRoutine E seed s) (m1, rs) (me_finished E) = Some (m2, rs')"
      "m' = m2\<lparr>peers := sort_peers (peers m2)\<rparr>"
    using assms True by (auto simp: BRPeerManagerFindPeers_def bind_eq_Some_conv Let_def m1_def split: if_splits)
  have "manager_ok F T S C (fst (m2, rs'))"
    by (rule fold_m_keeps [where P = "\<lambda>s. manager_ok F T S C (fst s)", OF m2(1)])
      (use assms(2) find_thread_ok [where F = F] in \<open>auto simp: m1_def\<close>)
  then show ?thesis using m2(2) by simp
qed (use assms in \<open>auto simp: BRPeerManagerFindPeers_def\<close>)

lemma new_peer_ok: "peer_ok BRPeerNew"
  by (simp add: peer_ok_def BRPeerNew_def)

lemma connect_new_ok:
  assumes "manager_ok F (testnet E) S C m" "length (connectedPeers m) < maxConnectCount m"
  shows "manager_ok F (testnet E) S C (connect_new E q m)"
proof -
  have "m_next m \<notin> dom (conns m)" using assms(1) by (auto simp: manager_ok_def conns_ok_def chain_ok_def)
  moreover have "peer_ok (BRPeerConnect (me_peer E) (me_reachable E) (me_created E (m_next m))
      (BRPeerSetEarliestKeyTime (BRPeerNew\<lparr>peer := q\<rparr>) (m_earliestKeyTime m)))"
    using new_peer_ok by (intro peer_ok_ops(3)) simp
  ultimately show ?thesis using assms
    by (auto simp: connect_new_def Let_def manager_ok_def conns_ok_def chain_ok_def) (meson less_SucI)+
qed

declare connect_loop.simps [simp del]

lemma connect_loop_ok: "connect_loop E cands rs m = Some m' \<Longrightarrow> ok F E C m \<Longrightarrow> ok F E C m'"
proof (induction E cands rs m rule: connect_loop.induct)
  case (1 E cands rs m)
  show ?case
  proof (cases "cands = [] \<or> length (connectedPeers m) \<ge> maxConnectCount m")
    case True
    then show ?thesis using 1(2,3) by (subst (asm) connect_loop.simps) simp
  next
    case False
    then obtain r rs' known where r: "BRRand (of_nat (length cands)) rs = Some (r, rs')"
        "unat r * unat r div length cands < length cands"
        "is_connected m (cands ! (unat r * unat r div length cands)) = Some known"
      using 1(2) by (subst (asm) connect_loop.simps) (auto simp: Let_def not_le split: option.splits if_splits)
    let ?i = "unat r * unat r div length cands"
    have "connect_loop E (take ?i cands @ drop (?i + 1) cands) rs' (if known then m else connect_new E (cands ! ?i) m) = Some m'"
      using 1(2) False r by (subst (asm) connect_loop.simps) (simp add: Let_def)
    moreover have "ok F E C (if known then m else connect_new E (cands ! ?i) m)"
      using 1(3) False connect_new_ok [of F E "me_secp E" C m] by (simp add: not_le)
    ultimately show ?thesis using 1(1) [OF False r(1) refl] r(2,3) by (simp add: not_le)
  qed
qed

lemma reconnect_ok: "reconnect E m p = Some m' \<Longrightarrow> ok F E C m \<Longrightarrow> ok F E C m'"
  by (auto simp: reconnect_def bind_eq_Some_conv split: if_splits elim!: on_peer_ok intro: peer_ok_ops)

lemma manager_connect_ok [keeps]:
  assumes "BRPeerManagerConnect E m = Some m'" "ok F E C m"
  shows "ok F E C m'"
proof -
  let ?m0 = "if connectFailureCount m \<ge> MAX_CONNECT_FAILURES then m\<lparr>connectFailureCount := 0\<rparr> else m"
  obtain behind m1 m2 m3 where *:
    "(if behind \<and> syncStartHeight ?m0 = 0 then do {
           lb \<leftarrow> last_block ?m0;
           Some (m_log [SyncStarted] (?m0\<lparr>syncStartHeight := height lb + 1\<rparr>)) }
         else Some ?m0) = Some m1"
    "fold_m (reconnect E) m1 (rev (connectedPeers m1)) = Some m2"
    "(if length (connectedPeers m2) < maxConnectCount m2 then do {
           find \<leftarrow> needs_peers E m2;
           (m, rs) \<leftarrow> (if find then BRPeerManagerFindPeers E m2 (me_rand E) else Some (m2, me_rand E));
           connect_loop E (take 100 (peers m)) rs m }
         else Some m2) = Some m3"
    "(if length (connectedPeers m3) = 0 then do {
       m \<leftarrow> BRPeerManagerSyncStopped E m3;
       Some (m_log [SyncStopped ENETUNREACH] m) }
     else Some m3) = Some m'"
    using assms(1) unfolding BRPeerManagerConnect_def Let_def bind_eq_Some_conv by blast
  have "ok F E C m1" using *(1) assms(2) by (auto simp: bind_eq_Some_conv m_log_ok split: if_splits)
  then have "ok F E C m2" by (rule fold_m_keeps [where P = "ok F E C", OF *(2)]) (rule reconnect_ok)
  then have "ok F E C m3"
    using *(3) by (auto simp: bind_eq_Some_conv split: if_splits dest: find_peers_ok connect_loop_ok)
  then show ?thesis using *(4) by (auto simp: bind_eq_Some_conv m_log_ok split: if_splits dest: sync_stopped_ok)
qed

section \<open>Published transactions\<close>

text \<open>What the recursion over inputs adds: transactions of the wallet, without a callback.\<close>

definition extends_published :: "BRPublishedTx list \<Rightarrow> BRPublishedTx list \<Rightarrow> bool" where
  "extends_published ps ps' \<longleftrightarrow> (\<exists>xs. ps' = ps @ xs \<and> (\<forall>x\<in>set xs. pub_callback x = None \<and> tx_bound (pub_tx x)) \<and>
     (distinct (map (txHash \<circ> pub_tx) ps) \<longrightarrow> distinct (map (txHash \<circ> pub_tx) ps')))"

lemma extends_refl [simp]: "extends_published ps ps"
  by (simp add: extends_published_def)

lemma extends_trans: "extends_published ps qs \<Longrightarrow> extends_published qs rs \<Longrightarrow> extends_published ps rs"
  by (fastforce simp: extends_published_def)

lemma publish_one_extends: "publish_one tx None ps = Some ps' \<Longrightarrow> tx_bound tx \<Longrightarrow> extends_published ps ps'"
  by (force simp: publish_one_def extends_published_def BRTransactionEq_def list_ex_iff split: if_splits)

lemma publish_inputs_extends:
  assumes "publish_inputs w hs ps = Some ps'" "\<And>h tx. allTx w h = Some tx \<Longrightarrow> tx_bound tx"
  shows "extends_published ps ps'"
proof -
  have "(\<forall>h tx. allTx w h = Some tx \<longrightarrow> tx_bound tx) \<longrightarrow> extends_published ps ps'"
  proof (rule publish_inputs.raw_induct [where P = "\<lambda>w hs ps ps'. (\<forall>h tx. allTx w h = Some tx \<longrightarrow> tx_bound tx) \<longrightarrow>
      extends_published ps ps'", OF _ assms(1)])
    fix loop :: "BRWallet \<Rightarrow> UInt256 list \<Rightarrow> BRPublishedTx list \<Rightarrow> BRPublishedTx list option" and w hs ps ps'
    assume IH: "\<And>w hs ps ps'. loop w hs ps = Some ps' \<Longrightarrow> (\<forall>h tx. allTx w h = Some tx \<longrightarrow> tx_bound tx) \<longrightarrow> extends_published ps ps'"
      and eq: "(case hs of [] \<Rightarrow> Some ps
        | h # hs \<Rightarrow> Option.bind (BRWalletTransactionForHash w h) (\<lambda>t. case t of
            None \<Rightarrow> loop w hs ps
          | Some tx \<Rightarrow> (case publish_one tx None ps of None \<Rightarrow> loop w hs ps
             | Some pub' \<Rightarrow> loop w (map in_txHash (inputs tx) @ hs) pub'))) = Some ps'"
    show "(\<forall>h tx. allTx w h = Some tx \<longrightarrow> tx_bound tx) \<longrightarrow> extends_published ps ps'"
    proof (cases hs)
      case (Cons h hs')
      then obtain t where t: "BRWalletTransactionForHash w h = Some t" using eq by (auto simp: bind_eq_Some_conv)
      show ?thesis
      proof (cases t)
        case None
        then have "loop w hs' ps = Some ps'" using eq by (simp add: Cons t)
        then show ?thesis by (rule IH)
      next
        case (Some tx)
        then have tx: "allTx w h = Some tx" using t by (simp add: BRWalletTransactionForHash_def split: if_splits)
        show ?thesis
        proof (cases "publish_one tx None ps")
          case None
          then have "loop w hs' ps = Some ps'" using eq by (simp add: Cons t Some)
          then show ?thesis by (rule IH)
        next
          case (Some pub')
          then have "loop w (map in_txHash (inputs tx) @ hs') pub' = Some ps'" using eq by (simp add: Cons t \<open>t = Some tx\<close>)
          then show ?thesis using IH publish_one_extends [OF Some] tx extends_trans by blast
        qed
      qed
    qed (use eq in simp)
  qed
  then show ?thesis using assms(2) by blast
qed

lemma no_callbacks: "\<forall>x\<in>set xs. pub_callback x = None \<Longrightarrow> List.map_filter pub_callback xs = []"
  by (induction xs) (auto simp: map_filter_simps)

definition opt_mset :: "callback \<Rightarrow> nat multiset" where
  "opt_mset c = (case c of None \<Rightarrow> {#} | Some x \<Rightarrow> {#x#})"

lemma add_to_publish_ok:
  assumes "BRPeerManagerAddTxToPublishList tx c m = Some m'" "tx_bound tx" "manager_ok F T S C m"
  shows "manager_ok F T S (C + opt_mset c) m'"
proof (cases "publish_one tx c (publishedTx m)")
  case None
  then show ?thesis using assms(1,3)
    by (auto simp: BRPeerManagerAddTxToPublishList_def manager_ok_def intro: subset_mset.order_trans)
next
  case (Some ps)
  then obtain ps' where ps': "publish_inputs (m_wallet m) (map in_txHash (inputs tx)) ps = Some ps'"
      "m' = m\<lparr>publishedTx := ps', publishedTxHashes := publishedTxHashes m @
         map (txHash \<circ> pub_tx) (drop (length (publishedTx m)) ps')\<rparr>"
    using assms(1) by (auto simp: BRPeerManagerAddTxToPublishList_def bind_eq_Some_conv)
  have ps: "ps = publishedTx m @ [\<lparr>pub_tx = tx, pub_callback = c\<rparr>]" "txHash tx \<notin> (txHash \<circ> pub_tx) ` set (publishedTx m)"
    using Some by (auto simp: publish_one_def BRTransactionEq_def list_ex_iff split: if_splits)
  have "\<And>h t. allTx (m_wallet m) h = Some t \<Longrightarrow> tx_bound t"
    using known_bound [OF manager_okD(3) [OF assms(3)]] by blast
  then obtain xs where xs: "ps' = ps @ xs" "\<forall>x\<in>set xs. pub_callback x = None \<and> tx_bound (pub_tx x)"
      "distinct (map (txHash \<circ> pub_tx) ps) \<longrightarrow> distinct (map (txHash \<circ> pub_tx) ps')"
    using publish_inputs_extends [OF ps'(1)] by (auto simp: extends_published_def)
  have m: "published_ok (publishedTx m) (publishedTxHashes m)" "callbacks (publishedTx m) (m_events m) \<subseteq># C"
    using assms(3) by (simp_all add: manager_ok_def)
  have "published_ok (publishedTx m') (publishedTxHashes m')"
    using m(1) xs ps assms(2) by (auto simp: ps'(2) published_ok_def)
  moreover have "callbacks (publishedTx m') (m_events m') = callbacks (publishedTx m) (m_events m) + opt_mset c"
    using no_callbacks [of xs] xs(2)
    by (auto simp: ps'(2) xs(1) ps(1) callbacks_def map_filter_def opt_mset_def split: option.splits)
  ultimately show ?thesis using assms(3) m(2) by (auto simp: ps'(2) manager_ok_def conns_ok_def chain_ok_def)
qed

text \<open>The callback that is taken out of the list can still be called.\<close>

lemma take_callback_mset:
  assumes "take_callback h ps = (ps', c, pending)" "distinct (map snd ps)"
  shows "mset (List.map_filter pub_callback (map fst ps')) + opt_mset c \<subseteq># mset (List.map_filter pub_callback (map fst ps))"
proof -
  have no: "map (\<lambda>(p, h'). (if h' = h then p\<lparr>pub_callback := None\<rparr> else p, h')) xs = xs" if "h \<notin> snd ` set xs" for xs
    using that by (force intro!: map_idI)
  show ?thesis
  proof (cases "find (\<lambda>(p, h'). h' = h) ps")
    case None
    then have "h \<notin> snd ` set ps" by (auto simp: find_None_iff)
    from no [OF this] have "ps' = ps" using assms(1) by (simp add: take_callback_def)
    moreover have "c = None" using assms(1) None by (simp add: take_callback_def)
    ultimately have "ps' = ps" "c = None" by blast+
    then show ?thesis by (simp add: opt_mset_def)
  next
    case (Some e)
    obtain p h' where e: "e = (p, h')" by fastforce
    from Some obtain i where i: "i < length ps" "ps ! i = (p, h)" unfolding e find_Some_iff by auto
  then obtain as bs where ps: "ps = as @ (p, h) # bs" by (metis id_take_nth_drop)
  have "h \<notin> snd ` set as" "h \<notin> snd ` set bs" using assms(2) by (auto simp: ps)
  then have "ps' = as @ (p\<lparr>pub_callback := None\<rparr>, h) # bs" "c = pub_callback p"
    using assms(1) Some by (simp_all add: take_callback_def ps no) (auto simp: e find_Some_iff ps)
  then show ?thesis by (auto simp: ps map_filter_def opt_mset_def split: option.splits)
qed
qed

lemma sub_split: "(A :: 'a multiset) + B \<subseteq># C \<Longrightarrow> A \<subseteq># C - B \<and> B \<subseteq># C"
  by (auto simp: subseteq_mset_def intro: add_le_imp_le_diff add_leD2)

lemma set_published_less:
  assumes "manager_ok F T S C m" "published_ok (map fst ps) (map snd ps)"
    and "mset (List.map_filter pub_callback (map fst ps)) + opt_mset c \<subseteq># mset (List.map_filter pub_callback (publishedTx m))"
  shows "manager_ok F T S (C - opt_mset c) (set_published ps m) \<and> opt_mset c \<subseteq># C"
proof -
  have "callbacks (map fst ps) (m_events m) + opt_mset c \<subseteq># C"
    using subset_mset.order_trans [OF subset_mset.add_right_mono [OF assms(3)], of "mset (published_calls (m_events m))" C] assms(1)
    by (simp add: callbacks_def manager_ok_def ac_simps)
  from sub_split [OF this] show ?thesis
    using assms(1,2) by (auto simp: manager_ok_def set_published_def conns_ok_def chain_ok_def)
qed

lemma relayed_published_ok:
  assumes "relayed_published E p q h m = Some (m', c, n)" "manager_ok F T S C m"
  shows "manager_ok F T S (C - opt_mset c) m' \<and> opt_mset c \<subseteq># C"
proof -
  obtain ps where ps1: "published m = Some ps" using assms(1) by (auto simp: relayed_published_def bind_eq_Some_conv)
  obtain ps' c' pending where tc: "take_callback h ps = (ps', c', pending)" by (rule prod_cases3)
  obtain m1 n1 where m1: "(if h \<in> set (publishedTxHashes (set_published ps' m)) then relay_add h q (set_published ps' m)
      else (set_published ps' m, 0)) = (m1, n1)" by fastforce
  have m': "(if \<not> pending \<and> (syncStartHeight m1 = 0 \<or> downloadPeer m1 \<noteq> Some p) then schedule E p (- 1) m1 else Some m1) = Some m'"
      and "c' = c"
    using assms(1) by (auto simp: relayed_published_def ps1 tc m1 Let_def bind_eq_Some_conv)
  note ps = ps1 tc [unfolded \<open>c' = c\<close>]
  note d = publishedD [OF ps(1) assms(2)]
  have o: "published_ok (map fst ps) (map snd ps)" using manager_okD(5) [OF assms(2)] by (simp add: d)
  have sub: "mset (List.map_filter pub_callback (map fst ps')) + opt_mset c \<subseteq># mset (List.map_filter pub_callback (publishedTx m))"
  proof -
    have "distinct (map snd ps)" using o by (simp add: published_ok_def)
    then show ?thesis using take_callback_mset [OF ps(2)] unfolding d(1) by simp
  qed
  have "published_ok (map fst ps') (map snd ps')"
    using o ps(2) by (auto simp: take_callback_def published_ok_def comp_def case_prod_beta d(3)) (metis d(4))+
  from set_published_less [OF assms(2) this sub]
  have "manager_ok F T S (C - opt_mset c) (set_published ps' m)" "opt_mset c \<subseteq># C" by simp_all
  moreover from this have "manager_ok F T S (C - opt_mset c) m1" using m1 by (auto split: if_splits dest: relay_add_ok)
  ultimately show ?thesis using m' by (auto split: if_splits dest: schedule_ok)
qed

lemma call_published_ok:
  assumes "manager_ok F T S (C - opt_mset c) m" "opt_mset c \<subseteq># C"
  shows "manager_ok F T S C (call_published c e m)"
  using assms by (cases c) (auto simp: call_published_def opt_mset_def manager_ok_def m_log_def callbacks_def conns_ok_def chain_ok_def
      insert_subset_eq_iff)

end
