(* ===== verification/ManagerCallbacks.thy ===== *)
theory ManagerCallbacks
  imports ManagerInvariant
begin

text \<open>
  The callbacks of the peers keep the invariant of the manager: connected and disconnected peers,
  relayed and requested transactions.
\<close>

lemma case_tuple_conv: "(case p of (a, b) \<Rightarrow> f a b) = Some r \<longleftrightarrow> (\<exists>a b. p = (a, b) \<and> f a b = Some r)"
  by (cases p) simp

section \<open>Connected peers\<close>

lemma estimated_ok:
  assumes "manager_ok F T S C m" "conns m p = Some ctx"
  shows "manager_ok F T S C (m\<lparr>downloadPeer := Some p, isConnected := True, estimatedHeight := h\<rparr>)"
  using assms by (auto simp: manager_ok_def conns_ok_def chain_ok_def)

lemma download_from_ok:
  assumes "download_from E p m = Some m'" "ok F E C m"
  shows "ok F E C m'"
proof -
  obtain m0 ctx m1 lb m2 m3 where *:
      "(case downloadPeer m of None \<Rightarrow> Some m | Some d \<Rightarrow> on_peer d BRPeerDisconnect m) = Some m0"
      "conns m0 p = Some ctx"
      "BRPeerManagerLoadBloomFilter E p
        (m0\<lparr>downloadPeer := Some p, isConnected := True, estimatedHeight := BRPeerLastBlock ctx\<rparr>) = Some m1"
      "last_block m1 = Some lb" "on_peer p (\<lambda>ctx. BRPeerSetCurrentBlockHeight ctx (height lb)) m1 = Some m2"
      "BRPeerManagerPublishPendingTx E p m2 = Some m3"
      "(if height lb < BRPeerLastBlock ctx then do {
       hs \<leftarrow> locators E m3;
       m \<leftarrow> schedule E p PROTOCOL_TIMEOUT m3;
       on_peer p (\<lambda>ctx. if mb_timestamp lb + WEEK \<ge> m_earliestKeyTime m
         then BRPeerSendGetblocks (me_peer E) ctx hs 0 else BRPeerSendGetheaders (me_peer E) ctx hs 0) m }
     else BRPeerManagerLoadMempools E (m3\<lparr>connectFailureCount := 0\<rparr>)) = Some m'"
    using assms(1) unfolding download_from_def bind_eq_Some_conv Let_def by blast
  have "ok F E C m0" using *(1) assms(2) by (cases "downloadPeer m") (auto elim!: on_peer_ok)
  then have "ok F E C m1" using load_filter_ok [OF *(3)] estimated_ok *(2) by blast
  then have "ok F E C m2" using *(5) by (auto elim!: on_peer_ok)
  with *(6) have "ok F E C m3" by (rule publish_pending_ok)
  then show ?thesis using *(7)
    by (auto simp: bind_eq_Some_conv split: if_splits elim!: on_peer_ok load_mempools_ok schedule_ok)
qed

lemma stick_ok:
  assumes "BRPeerManagerLoadBloomFilter E p (m\<lparr>connectFailureCount := 0\<rparr>) = Some m1"
    and "BRPeerManagerPublishPendingTx E p m1 = Some m2" "ping_with E p LoadBloomFilterDone p m2 = Some m'" "ok F E C m"
  shows "ok F E C m'"
  using assms by (auto elim!: ping_with_ok publish_pending_ok load_filter_ok)

lemma sane_time_ok: "peer_ok ctx \<Longrightarrow> peer_ok (if b then ctx\<lparr>peer := q\<rparr> else ctx)"
  by (simp add: peer_ok_def)

lemma peerConnected_ok:
  assumes "peerConnected E p m = Some m'" "ok F E C m"
  shows "ok F E C m'"
proof -
  obtain m1 where m1: "on_peer p (\<lambda>ctx.
       if p_timestamp (peer ctx) > now E + 2 * 60 * 60 \<or> p_timestamp (peer ctx) < now E - 2 * 60 * 60
       then ctx\<lparr>peer := (peer ctx)\<lparr>p_timestamp := now E\<rparr>\<rparr> else ctx) m = Some m1"
    using assms(1) by (auto simp: peerConnected_def bind_eq_Some_conv)
  have "ok F E C m1" by (rule on_peer_ok [OF m1 _ assms(2)]) (rule sane_time_ok)
  moreover have "m' = m1 \<or> on_peer p BRPeerDisconnect m1 = Some m' \<or> (\<exists>q. download_from E q m1 = Some m') \<or>
      (\<exists>m2 m3. BRPeerManagerLoadBloomFilter E p (m1\<lparr>connectFailureCount := 0\<rparr>) = Some m2 \<and>
        BRPeerManagerPublishPendingTx E p m2 = Some m3 \<and> ping_with E p LoadBloomFilterDone p m3 = Some m')"
    using assms(1) unfolding peerConnected_def m1
    by (auto simp: bind_eq_Some_conv Let_def split: if_splits)
  ultimately show ?thesis by (elim disjE exE conjE) (auto elim!: on_peer_ok download_from_ok stick_ok)
qed

section \<open>Disconnected peers\<close>

text \<open>The peer leaves: its connection is freed and it is the download peer no more.\<close>

definition drop_peer :: "nat \<Rightarrow> BRPeerManager \<Rightarrow> BRPeerManager" where
  "drop_peer p m = m\<lparr>connectedPeers := update_last (\<lambda>r. r = p) (\<lambda>_. []) (connectedPeers m), conns := (conns m)(p := None)\<rparr>"

lemma drop_peer_ok:
  assumes "manager_ok F T S C m" "downloadPeer m \<noteq> Some p"
  shows "manager_ok F T S C (drop_peer p m)"
proof -
  have "distinct (connectedPeers m)" "length (connectedPeers m) \<le> maxConnectCount m" "set (connectedPeers m) = dom (conns m)"
    using assms(1) by (simp_all add: manager_ok_def conns_ok_def chain_ok_def)
  note u = update_last_remove [OF this(1), of p] this(2,3)
  have "length (update_last (\<lambda>r. r = p) (\<lambda>_. []) (connectedPeers m)) \<le> maxConnectCount m" using u(3,4) by linarith
  then show ?thesis using assms u(1,2,5) by (auto simp: drop_peer_def manager_ok_def conns_ok_def chain_ok_def)
qed

lemma no_download_ok:
  "manager_ok F T S C m \<Longrightarrow> manager_ok F T S C (m\<lparr>isConnected := False, downloadPeer := None, connectFailureCount := n\<rparr>)"
  by (simp add: manager_ok_def conns_ok_def chain_ok_def)

lemma forget_relays_ok:
  "manager_ok F T S C m \<Longrightarrow>
   manager_ok F T S C (m\<lparr>txRelays := map (\<lambda>e. e\<lparr>txl_peers := filter P (txl_peers e)\<rparr>) (txRelays m)\<rparr>)"
  by (intro relays_update_ok relays_ok_purge manager_okD) assumption+

text \<open>The cancelled callbacks leave the list and are called.\<close>

lemma mset_cancelled: "mset (cancelled ps) = mset (List.map_filter pub_callback ps)"
  by (simp add: cancelled_def map_filter_def flip: rev_filter rev_map)

lemma cancel_ok:
  assumes "published m = Some ps" "manager_ok F T S C m"
  shows "manager_ok F T S C (m_log (map (\<lambda>c. Published c e) (cancelled (map fst ps)))
    (set_published (filter (\<lambda>(t, _). pub_callback t = None) ps) m))"
proof -
  let ?qs = "filter (\<lambda>(t, _). pub_callback t = None) ps"
  have f: "manager_ok F T S C (set_published ?qs m)" by (rule filter_published_ok [OF assms])
  have "List.map_filter pub_callback (map fst ?qs) = []" by (rule no_callbacks) auto
  moreover have "map fst ps = publishedTx m" by (rule publishedD(1) [OF assms])
  moreover have "callbacks (publishedTx m) (m_events m) \<subseteq># C" using assms(2) by (simp add: manager_ok_def)
  ultimately have "callbacks (map fst ?qs) (m_events m @ map (\<lambda>c. Published c e) (cancelled (map fst ps))) \<subseteq># C"
    by (simp add: callbacks_def mset_cancelled ac_simps)
  then show ?thesis using f by (simp add: manager_ok_def m_log_def set_published_def conns_ok_def chain_ok_def)
qed

lemma peerDisconnected_ok:
  assumes "peerDisconnected E p err m = Some m'" "ok F E C m"
  shows "ok F E C m'"
proof -
  obtain ctx txError m1 m2 m3 failed ps where *: "conns m p = Some ctx"
      "(if err = EPROTO then BRPeerManagerPeerMisbehavin p m
        else Some (if err \<noteq> 0 then m\<lparr>peers := filter (\<lambda>r. \<not> BRPeerEq r (peer ctx)) (peers m),
          connectFailureCount := connectFailureCount m + 1\<rparr> else m)) = Some m1"
      "(let m = m1\<lparr>txRelays := map (\<lambda>e. e\<lparr>txl_peers := filter (\<lambda>r. \<not> BRPeerEq r (peer ctx)) (txl_peers e)\<rparr>) (txRelays m1)\<rparr>
        in if downloadPeer m = Some p then m\<lparr>isConnected := False, downloadPeer := None,
          connectFailureCount := min (connectFailureCount m) MAX_CONNECT_FAILURES\<rparr> else m) = m2"
      "(if failed then do { m \<leftarrow> BRPeerManagerSyncStopped E m2; Some (m\<lparr>peers := []\<rparr>) } else Some m2) = Some m3"
      "published m3 = Some ps"
      "(let m = drop_peer p (if txError \<noteq> 0 then set_published (filter (\<lambda>(t, _). pub_callback t = None) ps) m3 else m3);
            m = m_log (map (\<lambda>c. Published c txError) (if txError \<noteq> 0 then cancelled (map fst ps) else []) @
                 (if failed then [SavePeers True [], SyncStopped err] else [])) m
        in do { m \<leftarrow> (if \<not> failed \<and> connectFailureCount m2 < MAX_CONNECT_FAILURES then BRPeerManagerConnect E m else Some m);
                Some (m_log [TxStatusUpdate] m) }) = Some m'"
    using assms(1) unfolding peerDisconnected_def drop_peer_def Let_def bind_eq_Some_conv by blast
  have "ok F E C m1" using *(2) assms(2) by (auto split: if_splits elim!: misbehavin_ok)
  note f = forget_relays_ok [OF this, of "\<lambda>r. \<not> BRPeerEq r (peer ctx)"]
  have 2: "ok F E C m2" unfolding *(3) [symmetric] Let_def using no_download_ok [OF f] f by simp
  have d: "downloadPeer m2 \<noteq> Some p" unfolding *(3) [symmetric] Let_def by simp
  have 3: "ok F E C m3" using *(4) 2 by (auto simp: bind_eq_Some_conv split: if_splits elim!: sync_stopped_ok)
  have "downloadPeer m3 \<noteq> Some p" using *(4) d
    by (auto simp: bind_eq_Some_conv BRPeerManagerSyncStopped_def Let_def schedule_def on_peer_def split: if_splits option.splits)
  moreover define m4 where "m4 = m_log (map (\<lambda>c. Published c txError) (if txError \<noteq> 0 then cancelled (map fst ps) else []))
    (if txError \<noteq> 0 then set_published (filter (\<lambda>(t, _). pub_callback t = None) ps) m3 else m3)"
  ultimately have "downloadPeer m4 \<noteq> Some p" by (simp add: m_log_def set_published_def)
  moreover have "ok F E C m4" using cancel_ok [OF *(5) 3, of txError] 3 by (auto simp: m4_def m_log_ok)
  ultimately have "ok F E C (drop_peer p m4)" by (simp add: drop_peer_ok)
  then have "ok F E C (m_log (if failed then [SavePeers True [], SyncStopped err] else []) (drop_peer p m4))"
    by (simp add: m_log_ok)
  moreover define m5 where "m5 = m_log (map (\<lambda>c. Published c txError) (if txError \<noteq> 0 then cancelled (map fst ps) else []) @
      (if failed then [SavePeers True [], SyncStopped err] else []))
     (drop_peer p (if txError \<noteq> 0 then set_published (filter (\<lambda>(t, _). pub_callback t = None) ps) m3 else m3))"
  ultimately have "ok F E C m5" by (simp add: m4_def m_log_def drop_peer_def set_published_def)
  then show ?thesis using *(6) [unfolded Let_def, folded m5_def]
    by (auto simp: bind_eq_Some_conv m_log_ok split: if_splits elim!: manager_connect_ok)
qed

section \<open>Relayed peers, fees and missing data\<close>

lemma peerRelayedPeers_ok: "peerRelayedPeers E ps m = Some m' \<Longrightarrow> manager_ok F T S C m \<Longrightarrow> manager_ok F T S C m'"
  by (auto simp: peerRelayedPeers_def Let_def m_log_ok split: if_splits)

lemma peerSetFeePerKb_ok: "peerSetFeePerKb m = Some m' \<Longrightarrow> manager_ok F T S C m \<Longrightarrow> manager_ok F T S C m'"
  by (auto simp: peerSetFeePerKb_def bind_eq_Some_conv Let_def split: if_splits intro!: wallet_step_ok step_fee)

lemma remove_relay_ok: "manager_ok F T S C m \<Longrightarrow> manager_ok F T S C (m\<lparr>txRelays := fst (BRTxPeerListRemovePeer (txRelays m) h q)\<rparr>)"
  "manager_ok F T S C m \<Longrightarrow> manager_ok F T S C (m\<lparr>txRequests := fst (BRTxPeerListRemovePeer (txRequests m) h q)\<rparr>)"
  by (intro relays_update_ok remove_peer_ok manager_okD; assumption)+

lemma peerDataNotfound_ok: "peerDataNotfound p hs m = Some m' \<Longrightarrow> manager_ok F T S C m \<Longrightarrow> manager_ok F T S C m'"
proof -
  have "manager_ok F T S C m \<Longrightarrow> manager_ok F T S C (foldl (\<lambda>m h. m\<lparr>txRelays := fst (BRTxPeerListRemovePeer (txRelays m) h q),
      txRequests := fst (BRTxPeerListRemovePeer (txRequests m) h q)\<rparr>) m hs)" for q
  proof (induction hs arbitrary: m)
    case (Cons h hs)
    have "manager_ok F T S C (m\<lparr>txRelays := fst (BRTxPeerListRemovePeer (txRelays m) h q),
      txRequests := fst (BRTxPeerListRemovePeer (txRequests m) h q)\<rparr>)"
      using remove_relay_ok(2) [OF remove_relay_ok(1) [OF Cons.prems, of h q], of h q] by simp
    then show ?case using Cons.IH by simp
  qed simp
  then show "peerDataNotfound p hs m = Some m' \<Longrightarrow> manager_ok F T S C m \<Longrightarrow> manager_ok F T S C m'"
    by (auto simp: peerDataNotfound_def bind_eq_Some_conv)
qed

section \<open>Transactions of the peers\<close>

lemma verify_relayed_ok: "verify_relayed E tx n m = Some m' \<Longrightarrow> ok F E C m \<Longrightarrow> ok F E C m'"
  by (auto simp: verify_relayed_def split: if_splits elim!: update_tx_ok)

lemma check_filter_ok: "check_filter E m = Some m' \<Longrightarrow> ok F E C m \<Longrightarrow> ok F E C m'"
  by (cases "bloomFilter m")
    (auto simp: check_filter_def bind_eq_Some_conv split: if_splits elim!: update_filter_ok dest!: unused_addrs_ok)

lemma relay_if_ok:
  assumes "(if b then relay_add h q m else (m, n)) = (m', n')" "manager_ok F T S C m"
  shows "manager_ok F T S C m'"
  using assms by (auto split: if_splits dest: relay_add_ok)

lemma add_tx_ok:
  assumes "BRPeerManagerAddTxToPublishList tx None m = Some m'" "tx_bound tx" "manager_ok F T S C m"
  shows "manager_ok F T S C m'"
  using add_to_publish_ok [OF assms] by (simp add: opt_mset_def)

lemma relayed_wallet_tx_ok:
  assumes "relayed_wallet_tx E p q tx n m = Some (m', n')" "tx_bound tx" "ok F E C m"
  shows "ok F E C m'"
proof -
  obtain m1 valid m2 m3 n3 where *:
      "(if syncStartHeight m > 0 \<and> downloadPeer m = Some p then schedule E p PROTOCOL_TIMEOUT m else Some m) = Some m1"
      "(if valid then BRPeerManagerAddTxToPublishList tx None m1 else Some m1) = Some m2"
      "(if syncStartHeight m2 = 0 then relay_add (txHash tx) q m2 else (m2, n)) = (m3, n3)"
      "check_filter E (m3\<lparr>txRequests := fst (BRTxPeerListRemovePeer (txRequests m3) (txHash tx) q)\<rparr>) = Some m'"
    using assms(1) unfolding relayed_wallet_tx_def Let_def bind_eq_Some_conv case_tuple_conv by blast
  have "ok F E C m1" using *(1) assms(3) by (auto split: if_splits elim!: schedule_ok)
  then have "ok F E C m2" using *(2) assms(2) by (auto split: if_splits elim!: add_tx_ok)
  with *(3) have "ok F E C m3" by (rule relay_if_ok)
  then show ?thesis using *(4) by (auto elim!: check_filter_ok intro: remove_relay_ok)
qed

lemma walletTx_bound:
  "BRWalletTransactionForHash (m_wallet m) h = Some (Some tx) \<Longrightarrow> manager_ok F T S C m \<Longrightarrow> tx_bound tx"
  using known_bound [of T S "m_wallet m" h tx]
  by (auto simp: BRWalletTransactionForHash_def manager_okD(3) split: if_splits)

lemma peerRelayedTx_ok:
  assumes "peerRelayedTx E p tx m = Some m'" "tx_bound tx" "ok F E C m"
  shows "ok F E C m'"
proof -
  obtain q m1 c n m2 where *: "relayed_published E p q (txHash tx) m = Some (m1, c, n)"
      "(if syncStartHeight m1 = 0 \<or> BRWalletContainsTransaction (m_wallet m1) tx then do {
             (m, isWalletTx) \<leftarrow> register_tx E tx m1;
             if isWalletTx then do {
               t \<leftarrow> BRWalletTransactionForHash (m_wallet m) (txHash tx);
               case t of
                 None \<Rightarrow> Some m
               | Some tx \<Rightarrow> do {
                   (m, n) \<leftarrow> relayed_wallet_tx E p q tx n m;
                   tx \<leftarrow> allTx (m_wallet m) (txHash tx);
                   verify_relayed E tx n m } }
             else verify_relayed E tx n m }
           else Some m1) = Some m2"
      "m' = call_published c 0 m2"
    using assms(1) unfolding peerRelayedTx_def Let_def bind_eq_Some_conv case_tuple_conv by blast
  note r = relayed_published_ok [OF *(1) assms(3)]
  have "ok F E (C - opt_mset c) m2"
  proof (cases "syncStartHeight m1 = 0 \<or> BRWalletContainsTransaction (m_wallet m1) tx")
    case True
    then obtain m3 w where m3: "register_tx E tx m1 = Some (m3, w)" using *(2) by (auto simp: bind_eq_Some_conv)
    then have 3: "ok F E (C - opt_mset c) m3" using register_tx_ok r assms(2) by blast
    show ?thesis
    proof (cases w)
      case False
      then show ?thesis using *(2) True m3 3 by (auto elim!: verify_relayed_ok)
    next
      case w: True
      then obtain t where t: "BRWalletTransactionForHash (m_wallet m3) (txHash tx) = Some t"
        using *(2) True m3 by (auto simp: bind_eq_Some_conv)
      show ?thesis
        using *(2) True m3 3 t w walletTx_bound [OF _ 3] by (cases t) (auto simp: bind_eq_Some_conv
            elim!: verify_relayed_ok relayed_wallet_tx_ok)
    qed
  qed (use *(2) r in auto)
  then show ?thesis unfolding *(3) using call_published_ok r by blast
qed

lemma peerHasTx_ok:
  assumes "peerHasTx E p h m = Some m'" "ok F E C m"
  shows "ok F E C m'"
proof -
  obtain q t ps m1 c n m2 where *: "BRWalletTransactionForHash (m_wallet m) h = Some t" "published m = Some ps"
      "relayed_published E p q h m = Some (m1, c, n)"
      "(case case t of Some tx \<Rightarrow> Some tx | None \<Rightarrow> map_option (pub_tx \<circ> fst) (find (\<lambda>(_, h'). h' = h) (rev ps)) of
         None \<Rightarrow> Some m1
       | Some tx \<Rightarrow> do {
           (m, isWalletTx) \<leftarrow> register_tx E tx m1;
           t \<leftarrow> (if isWalletTx then BRWalletTransactionForHash (m_wallet m) (txHash tx) else Some (Some tx));
           m \<leftarrow> (if syncStartHeight m > 0 \<and> downloadPeer m = Some p \<and> isWalletTx
                 then schedule E p PROTOCOL_TIMEOUT m else Some m);
           let (m, n) = (if syncStartHeight m = 0 then relay_add h q m else (m, n));
           m \<leftarrow> (case t of
               None \<Rightarrow> Some m
             | Some tx \<Rightarrow>
                 if n \<ge> maxConnectCount m \<and> blockHeight tx = TX_UNCONFIRMED \<and> tx_timestamp tx = 0
                 then BRPeerManagerUpdateTx E [h] TX_UNCONFIRMED (ucast (now E)) m else Some m);
           Some (m\<lparr>txRequests := fst (BRTxPeerListRemovePeer (txRequests m) h q)\<rparr>) }) = Some m2"
      "m' = call_published c 0 m2"
    using assms(1) unfolding peerHasTx_def Let_def bind_eq_Some_conv case_tuple_conv by blast
  note r = relayed_published_ok [OF *(3) assms(2)]
  let ?C = "C - opt_mset c"
  have "ok F E ?C m2"
  proof (cases "case t of Some tx \<Rightarrow> Some tx | None \<Rightarrow> map_option (pub_tx \<circ> fst) (find (\<lambda>(_, h'). h' = h) (rev ps))")
    case (Some tx)
    have bound: "tx_bound tx"
    proof (cases t)
      case None
      then obtain e where "find (\<lambda>(_, h'). h' = h) (rev ps) = Some e" "tx = pub_tx (fst e)" using Some by auto
      moreover from this(1) have "e \<in> set ps" by (auto simp: find_Some_iff) (metis nth_mem set_rev length_rev)
      ultimately show ?thesis using publishedD(4) [OF *(2) assms(2)] by (metis prod.collapse)
    qed (use Some walletTx_bound [OF _ assms(2)] *(1) in auto)
    obtain m3 w m4 m5 n5 m6 and t' :: "BRTransaction option" where 3: "register_tx E tx m1 = Some (m3, w)"
        "(if syncStartHeight m3 > 0 \<and> downloadPeer m3 = Some p \<and> w then schedule E p PROTOCOL_TIMEOUT m3 else Some m3) = Some m4"
        "(if syncStartHeight m4 = 0 then relay_add h q m4 else (m4, n)) = (m5, n5)"
        "(case t' of None \<Rightarrow> Some m5 | Some tx \<Rightarrow>
            if n5 \<ge> maxConnectCount m5 \<and> blockHeight tx = TX_UNCONFIRMED \<and> tx_timestamp tx = 0
            then BRPeerManagerUpdateTx E [h] TX_UNCONFIRMED (ucast (now E)) m5 else Some m5) = Some m6"
        "m2 = m6\<lparr>txRequests := fst (BRTxPeerListRemovePeer (txRequests m6) h q)\<rparr>"
      using *(4) unfolding Some option.case Let_def bind_eq_Some_conv case_tuple_conv by blast
    have "ok F E ?C m3" using register_tx_ok [OF 3(1) bound] r by blast
    then have "ok F E ?C m4" using 3(2) by (auto split: if_splits elim!: schedule_ok)
    with 3(3) have "ok F E ?C m5" by (rule relay_if_ok)
    then have "ok F E ?C m6" using 3(4) by (cases t') (auto split: if_splits elim!: update_tx_ok)
    then show ?thesis unfolding 3(5) by (rule remove_relay_ok)
  qed (use *(4) r in auto)
  then show ?thesis unfolding *(5) using call_published_ok r by blast
qed

lemma peerRejectedTx_ok:
  assumes "peerRejectedTx E p h code m = Some m'" "ok F E C m"
  shows "ok F E C m'"
proof -
  obtain q t m2 where *: "(case t of
         None \<Rightarrow> Some (m\<lparr>txRequests := fst (BRTxPeerListRemovePeer (txRequests m) h q)\<rparr>)
       | Some tx \<Rightarrow> do {
           let m = m\<lparr>txRequests := fst (BRTxPeerListRemovePeer (txRequests m) h q)\<rparr>;
           let (l, removed) = BRTxPeerListRemovePeer (txRelays m) h q;
           let m = m\<lparr>txRelays := l\<rparr>;
           m \<leftarrow> (if removed \<and> blockHeight tx = TX_UNCONFIRMED then BRPeerManagerUpdateTx E [h] TX_UNCONFIRMED 0 m else Some m);
           if code \<noteq> REJECT_SPENT \<and> BRWalletAmountSentByTx (m_wallet m) tx > 0 then do {
             ok \<leftarrow> inputs_confirmed (m_wallet m) (map in_txHash (inputs tx));
             if ok then BRPeerManagerPeerMisbehavin p m else Some m }
           else Some m }) = Some m2" "m' = m_log [TxStatusUpdate] m2"
    using assms(1) unfolding peerRejectedTx_def Let_def bind_eq_Some_conv by blast
  let ?m0 = "m\<lparr>txRequests := fst (BRTxPeerListRemovePeer (txRequests m) h q)\<rparr>"
  have 0: "ok F E C ?m0" "ok F E C (?m0\<lparr>txRelays := fst (BRTxPeerListRemovePeer (txRelays ?m0) h q)\<rparr>)"
    using remove_relay_ok assms(2) by blast+
  have "ok F E C m2"
    using *(1) 0 by (cases t; cases "BRTxPeerListRemovePeer (txRelays ?m0) h q")
      (auto simp: bind_eq_Some_conv Let_def split: if_splits elim!: update_tx_ok misbehavin_ok)
  then show ?thesis unfolding *(2) by (simp add: m_log_ok)
qed

section \<open>Requested transactions\<close>

declare requested_loop.simps [simp del]

lemma requested_loop_other:
  assumes "requested_loop w h es s = Some (kept, s')" "h \<notin> snd ` set es"
  shows "kept = es \<and> rq_callback s' = rq_callback s \<and> rq_tx s' = rq_tx s"
  using assms by (induction es arbitrary: s kept) (force simp: requested_loop.simps bind_eq_Some_conv split: prod.splits if_splits)+

text \<open>The loop on a list with one entry for the hash: it is kept without its callback, or dropped.\<close>

lemma requested_loop_split:
  assumes "requested_loop w h (as @ (p, h) # bs) s = Some (kept, s')" "h \<notin> snd ` set as" "h \<notin> snd ` set bs"
  shows "(kept = as @ (p\<lparr>pub_callback := None\<rparr>, h) # bs \<or> kept = as @ bs) \<and> rq_callback s' = pub_callback p \<and>
    rq_tx s' \<in> {None, Some (published_tx w p)}"
  using assms
proof (induction as arbitrary: s kept)
  case Nil
  then obtain valid where v: "BRWalletTransactionIsValid w (published_tx w p) = Some valid"
    by (auto simp: requested_loop.simps bind_eq_Some_conv)
  show ?case
  proof (cases valid)
    case True
    then obtain es s1 where "requested_loop w h bs (s\<lparr>rq_tx := Some (published_tx w p), rq_callback := pub_callback p\<rparr>) = Some (es, s')"
        "kept = (p\<lparr>pub_callback := None\<rparr>, h) # es"
      using Nil(1) v by (auto simp: requested_loop.simps bind_eq_Some_conv)
    then show ?thesis using requested_loop_other [OF _ Nil(3)] by fastforce
  next
    case False
    then obtain t :: "BRTransaction option" and s1 where s1: "requested_loop w h bs (s1\<lparr>rq_error := EINVAL, rq_tx := (if t = None then None else rq_tx s1)\<rparr>) = Some (kept, s')"
        "s1 = s\<lparr>rq_tx := Some (published_tx w p), rq_callback := pub_callback p\<rparr>"
      using Nil(1) v unfolding append_Nil requested_loop.simps Let_def by (simp add: bind_eq_Some_conv) blast
    then show ?thesis using requested_loop_other [OF s1(1) Nil(3)] by simp
  qed
next
  case (Cons a as)
  then obtain s1 es where "requested_loop w h (as @ (p, h) # bs) s1 = Some (es, s')" "kept = a # es"
    by (auto simp: requested_loop.simps bind_eq_Some_conv split: prod.splits)
  then show ?case using Cons.IH Cons.prems by fastforce
qed

lemma published_ok_pairs: "published_ok (map fst xs) (map snd xs) \<longleftrightarrow>
    (\<forall>x\<in>set xs. snd x = txHash (pub_tx (fst x)) \<and> tx_bound (pub_tx (fst x))) \<and> distinct (map snd xs)"
  by (auto simp: published_ok_def)

lemma requested_published:
  assumes "requested_loop (m_wallet m) h (rev ps) s = Some (kept, s')" "published m = Some ps" "manager_ok F T S C m"
    and "rq_tx s = None" "rq_callback s = None"
  shows "manager_ok F T S (C - opt_mset (rq_callback s')) (set_published (rev kept) m) \<and> opt_mset (rq_callback s') \<subseteq># C \<and>
    (\<forall>tx. rq_tx s' = Some tx \<longrightarrow> tx_bound tx)"
proof -
  note d = publishedD [OF assms(2,3)]
  have o: "published_ok (map fst ps) (map snd ps)" using manager_okD(5) [OF assms(3)] by (simp add: d)
  show ?thesis
  proof (cases "h \<in> snd ` set ps")
    case False
    then have "kept = rev ps" "rq_callback s' = None" "rq_tx s' = None"
      using requested_loop_other [OF assms(1)] assms(4,5) by simp_all
    then show ?thesis using set_published_less [OF assms(3) o, of None] d(1) by (simp add: opt_mset_def)
  next
    case True
    then obtain p where "(p, h) \<in> set ps" by auto
    then obtain as bs where ps: "ps = as @ (p, h) # bs" by (metis in_set_conv_decomp)
    have "distinct (map snd ps)" using o by (simp add: published_ok_def)
    then have n: "h \<notin> snd ` set (rev bs)" "h \<notin> snd ` set (rev as)" by (simp_all add: ps)
    have "rev ps = rev bs @ (p, h) # rev as" by (simp add: ps)
    note k = requested_loop_split [OF assms(1) [unfolded this] n]
    have rk: "rev kept = as @ (p\<lparr>pub_callback := None\<rparr>, h) # bs \<or> rev kept = as @ bs" using k by auto
    have po: "published_ok (map fst (rev kept)) (map snd (rev kept))"
      unfolding published_ok_pairs
    proof
      show "distinct (map snd (rev kept))" using rk \<open>distinct (map snd ps)\<close> by (elim disjE) (simp_all add: ps)
      have "\<forall>x\<in>set ps. snd x = txHash (pub_tx (fst x)) \<and> tx_bound (pub_tx (fst x))" using o published_ok_pairs by blast
      then show "\<forall>x\<in>set (rev kept). snd x = txHash (pub_tx (fst x)) \<and> tx_bound (pub_tx (fst x))"
        using rk by (elim disjE) (simp_all add: ps)
    qed
    have "mset (List.map_filter pub_callback (map fst (rev kept))) + opt_mset (rq_callback s') \<subseteq>#
        mset (List.map_filter pub_callback (publishedTx m))"
      using rk k unfolding d(1) [symmetric]
      by (elim disjE) (auto simp: ps map_filter_def opt_mset_def split: option.splits)
    moreover have "tx_bound (published_tx (m_wallet m) p)"
      using o known_bound [OF manager_okD(3) [OF assms(3)]] by (auto simp: ps published_tx_def published_ok_def split: option.splits)
    ultimately show ?thesis using set_published_less [OF assms(3) po] k by auto
  qed
qed

lemma peerRequestedTx_ok:
  assumes "peerRequestedTx E p h m = Some (m', r)" "ok F E C m"
  shows "ok F E C m'"
proof -
  obtain ps kept m1 m2 s and ctx :: BRPeerContext where *: "published m = Some ps"
      "requested_loop (m_wallet m) h (rev ps) \<lparr>rq_tx = None, rq_callback = None, rq_error = 0, rq_pending = False\<rparr> = Some (kept, s)"
      "(let m = set_published (rev kept) m
        in if \<not> rq_pending s \<and> (syncStartHeight m = 0 \<or> downloadPeer m \<noteq> Some p) then schedule E p (- 1) m else Some m) = Some m1"
      "(case rq_tx s of None \<Rightarrow> Some m1
       | Some tx \<Rightarrow> if rq_error s = 0 then do { (m, _) \<leftarrow> register_tx E tx (fst (relay_add h (peer ctx) m1)); Some m } else Some m1) = Some m2"
      "m' = call_published (rq_callback s) (rq_error s) m2"
    using assms(1) unfolding peerRequestedTx_def Let_def bind_eq_Some_conv case_tuple_conv by blast
  note r = requested_published [OF *(2,1) assms(2), simplified]
  let ?C = "C - opt_mset (rq_callback s)"
  have 1: "ok F E ?C m1" using *(3) r by (auto simp: Let_def split: if_splits elim!: schedule_ok)
  have "ok F E ?C (fst (relay_add h (peer ctx) m1))" by (rule relay_add_ok [OF prod.collapse [symmetric] 1])
  then have "ok F E ?C m2" using *(4) r 1
    by (cases "rq_tx s") (auto simp: bind_eq_Some_conv split: if_splits elim!: register_tx_ok)
  then show ?thesis unfolding *(5) using call_published_ok r by blast
qed

end
