(* ===== verification/ManagerBlocks.thy ===== *)
theory ManagerBlocks
  imports ManagerCallbacks
begin

text \<open>
  The chain of blocks of the manager. The hash of a block fixes its ancestors, so that a number of
  ancestors belongs to each hash: \<open>H\<close> is this height. The table keeps blocks under their hash with
  their true height; a block follows its predecessor, or is a checkpoint, whose predecessor is not known.
\<close>

section \<open>The table of blocks\<close>

definition block_fits :: "(UInt256 \<Rightarrow> nat) \<Rightarrow> BRMerkleBlock \<Rightarrow> bool" where
  "block_fits H b \<longleftrightarrow> blockHash b \<noteq> 0 \<and> H (blockHash b) < 0x7fffffff \<and>
     (prevBlock b \<noteq> 0 \<longrightarrow> H (blockHash b) = Suc (H (prevBlock b)))"

definition table_ok :: "(UInt256 \<Rightarrow> nat) \<Rightarrow> block_table \<Rightarrow> bool" where
  "table_ok H bs \<longleftrightarrow> (\<forall>h b. bs h = Some b \<longrightarrow> blockHash b = h \<and> block_fits H b \<and> unat (height b) = H h)"

text \<open>The last block has at least the height \<open>N\<close>.\<close>

definition heights :: "(UInt256 \<Rightarrow> nat) \<Rightarrow> nat \<Rightarrow> chain_inv" where
  "heights H N = (\<lambda>bs l. table_ok H bs \<and> (\<forall>h. l = Some h \<longrightarrow> N \<le> H h), \<lambda>h b. prevBlock b = h \<and> block_fits H b)"

lemma table_okD:
  assumes "table_ok H bs" "bs h = Some b"
  shows "blockHash b = h" "block_fits H b" "unat (height b) = H h"
  using assms by (auto simp: table_ok_def)

lemma table_ok_sub: "table_ok H bs \<Longrightarrow> bs' \<subseteq>\<^sub>m bs \<Longrightarrow> table_ok H bs'"
  unfolding table_ok_def by (metis domI map_le_def)

lemma table_ok_add: "table_ok H bs \<Longrightarrow> block_fits H b \<Longrightarrow> unat (height b) = H (blockHash b) \<Longrightarrow> table_ok H (bs(blockHash b \<mapsto> b))"
  by (simp add: table_ok_def)

text \<open>A block gets the height of its hash from its predecessor.\<close>

lemma height_set:
  assumes "table_ok H bs" "bs (prevBlock b) = Some c" "block_fits H b"
  shows "unat (height c + 1) = H (blockHash b)"
proof -
  note c = table_okD [OF assms(1,2)]
  then have "prevBlock b \<noteq> 0" by (auto simp: block_fits_def)
  then have "H (blockHash b) = Suc (unat (height c))" "H (blockHash b) < 0x7fffffff"
    using assms(3) c(3) by (simp_all add: block_fits_def)
  then show ?thesis by (simp add: unat_word_ariths)
qed

lemma height_le: "table_ok H bs \<Longrightarrow> bs h = Some b \<Longrightarrow> height b \<le> TX_UNCONFIRMED"
  using table_okD [of H bs h b] by (simp add: word_le_nat_alt TX_UNCONFIRMED_def block_fits_def)

lemma heights_ok: "manager_ok (heights H N) T S C m \<Longrightarrow> table_ok H (blocks m)"
  "manager_ok (heights H N) T S C m \<Longrightarrow> orphans m h = Some b \<Longrightarrow> prevBlock b = h \<and> block_fits H b"
  by (simp_all add: manager_ok_def chain_ok_def heights_def)

lemma blocks_update_ok:
  "manager_ok (heights H N) T S C m \<Longrightarrow> table_ok H bs \<Longrightarrow> manager_ok (heights H N) T S C (m\<lparr>blocks := bs\<rparr>)"
  "manager_ok (heights H N) T S C m \<Longrightarrow> (\<And>h. l = Some h \<Longrightarrow> N \<le> H h) \<Longrightarrow> manager_ok (heights H N) T S C (m\<lparr>lastBlock := l\<rparr>)"
  "manager_ok (heights H N) T S C m \<Longrightarrow> block_fits H b \<Longrightarrow>
    manager_ok (heights H N) T S C (m\<lparr>orphans := (orphans m)(prevBlock b \<mapsto> b)\<rparr>)"
  "manager_ok (heights H N) T S C m \<Longrightarrow> manager_ok (heights H N) T S C (m\<lparr>orphans := (orphans m)(h := None)\<rparr>)"
  by (simp_all add: manager_ok_def chain_ok_def heights_def conns_ok_def)

lemma last_height:
  assumes "manager_ok (heights H N) T S C m" "last_block m = Some lb"
  shows "N \<le> unat (height lb)" "N \<le> H (blockHash lb)" "unat (height lb) = H (blockHash lb)"
proof -
  obtain h where h: "lastBlock m = Some h" "blocks m h = Some lb" using assms(2) by (auto simp: last_block_def bind_eq_Some_conv)
  then have "N \<le> H h" "table_ok H (blocks m)" using assms(1) by (auto simp: manager_ok_def chain_ok_def heights_def)
  then show "N \<le> unat (height lb)" "N \<le> H (blockHash lb)" "unat (height lb) = H (blockHash lb)"
    using table_okD [OF \<open>table_ok H (blocks m)\<close> h(2)] by simp_all
qed

section \<open>Verification frees blocks\<close>

lemma free_blocks_sub:
  assumes "free_blocks n prev bs = Some bs'"
  shows "bs' \<subseteq>\<^sub>m bs"
proof (rule free_blocks.raw_induct [where P = "\<lambda>n prev bs bs'. bs' \<subseteq>\<^sub>m bs", OF _ assms])
  fix free :: "u32 \<Rightarrow> UInt256 \<Rightarrow> block_table \<Rightarrow> block_table option" and n prev bs bs'
  assume IH: "\<And>n prev bs bs'. free n prev bs = Some bs' \<Longrightarrow> bs' \<subseteq>\<^sub>m bs"
    and eq: "(case bs prev of None \<Rightarrow> Some bs
      | Some b \<Rightarrow> free n (prevBlock b) (if height b mod n \<noteq> 0 then bs(prev := None) else bs)) = Some bs'"
  show "bs' \<subseteq>\<^sub>m bs"
  proof (cases "bs prev")
    case (Some b)
    then have "bs' \<subseteq>\<^sub>m (if height b mod n \<noteq> 0 then bs(prev := None) else bs)" using eq by (intro IH) auto
    moreover have "(if height b mod n \<noteq> 0 then bs(prev := None) else bs) \<subseteq>\<^sub>m bs" by (auto simp: map_le_def)
    ultimately show ?thesis by (rule map_le_trans)
  qed (use eq in simp)
qed

lemma verify_block_ok:
  assumes "BRPeerManagerVerifyBlock block prev m = Some (m', r)" "manager_ok (heights H N) T S C m"
  shows "manager_ok (heights H N) T S C m'"
proof -
  obtain m1 r1 where m1: "verify_transition block m = Some (m1, r1)" "m' = m1 \<or> (\<exists>n. m' = m1\<lparr>pastCount := n\<rparr>)"
    using assms(1) by (auto simp: BRPeerManagerVerifyBlock_def bind_eq_Some_conv split: if_splits prod.splits)
  have "manager_ok (heights H N) T S C m1" using m1(1) assms(2) table_ok_sub [OF heights_ok(1) [OF assms(2)]]
    by (auto simp: verify_transition_def bind_eq_Some_conv split: if_splits option.splits intro!: blocks_update_ok dest: free_blocks_sub)
  then show ?thesis using m1(2) by auto
qed

section \<open>The cases of a relayed block\<close>

lemma observe_block_ok:
  assumes "observe_block E p block txs m = Some m'" "ok F E C m"
  shows "ok F E C m'"
  using assms by (auto simp: observe_block_def bind_eq_Some_conv Let_def split: if_splits elim!: on_peer_ok update_filter_ok)

lemma reset_timeout_ok: "reset_timeout E p m = Some m' \<Longrightarrow> manager_ok F T S C m \<Longrightarrow> manager_ok F T S C m'"
  by (auto simp: reset_timeout_def bind_eq_Some_conv elim!: schedule_ok)

lemma pending_filter_ok: "pending_filter_block E p m = Some m' \<Longrightarrow> manager_ok F T S C m \<Longrightarrow> manager_ok F T S C m'"
  by (auto simp: pending_filter_block_def bind_eq_Some_conv split: if_splits elim!: reset_timeout_ok)

lemma orphan_block_ok:
  assumes "orphan_block E p block m = Some (m', kept)" "manager_ok (heights H N) T S C m" "block_fits H block"
  shows "manager_ok (heights H N) T S C m'"
  using assms by (auto simp: orphan_block_def bind_eq_Some_conv split: if_splits
      intro!: blocks_update_ok elim!: send_getblocks_ok)

lemma chain_complete_ok: "chain_complete E block m = Some (m', n) \<Longrightarrow> ok F E C m \<Longrightarrow> ok F E C m'"
  by (auto simp: chain_complete_def bind_eq_Some_conv split: if_splits elim!: load_mempools_ok)

text \<open>A block that has got its height.\<close>

definition placed :: "(UInt256 \<Rightarrow> nat) \<Rightarrow> BRMerkleBlock \<Rightarrow> bool" where
  "placed H b \<longleftrightarrow> block_fits H b \<and> unat (height b) = H (blockHash b)"

lemma add_block_ok:
  "manager_ok (heights H N) T S C m \<Longrightarrow> placed H b \<Longrightarrow>
   manager_ok (heights H N) T S C (m\<lparr>blocks := (blocks m)(blockHash b \<mapsto> b)\<rparr>)"
  by (auto simp: placed_def intro!: blocks_update_ok table_ok_add dest: heights_ok)

lemma extend_chain_ok:
  assumes "extend_chain E p block txs t m = Some (m', n)" "ok (heights H N) E C m" "placed H block" "N \<le> H (blockHash block)"
  shows "ok (heights H N) E C m'"
proof -
  obtain m1 m2 m3 n' where *:
      "(if length txs > 0 then BRPeerManagerUpdateTx E txs (height block) t
          (m\<lparr>blocks := (blocks m)(blockHash block \<mapsto> block), lastBlock := Some (blockHash block)\<rparr>)
        else Some (m\<lparr>blocks := (blocks m)(blockHash block \<mapsto> block), lastBlock := Some (blockHash block)\<rparr>)) = Some m1"
      "(case downloadPeer m1 of None \<Rightarrow> Some m1
        | Some d \<Rightarrow> on_peer d (\<lambda>ctx. BRPeerSetCurrentBlockHeight ctx (height block)) m1) = Some m2"
      "(if height block < estimatedHeight m2 \<and> downloadPeer m2 = Some p then reset_timeout E p m2 else Some m2) = Some m3"
      "chain_complete E block m3 = Some (m', n')"
    using assms(1) unfolding extend_chain_def Let_def bind_eq_Some_conv case_tuple_conv by blast
  have "ok (heights H N) E C m1" using *(1) blocks_update_ok(2) [OF add_block_ok [OF assms(2,3)], of "Some (blockHash block)"] assms(4)
    by (auto split: if_splits elim!: update_tx_ok)
  then have "ok (heights H N) E C m2" using *(2) by (cases "downloadPeer m1") (auto elim!: on_peer_ok)
  then have "ok (heights H N) E C m3" using *(3) by (auto split: if_splits elim!: reset_timeout_ok)
  with *(4) show ?thesis by (rule chain_complete_ok)
qed

lemma existing_block_ok:
  assumes "existing_block E block txs t m = Some m'" "ok (heights H N) E C m" "placed H block"
  shows "ok (heights H N) E C m'"
proof -
  obtain lb b m1 old where *:
      "(if BRMerkleBlockEq b block then do {
          m \<leftarrow> (if length txs > 0 then BRPeerManagerUpdateTx E txs (height block) t m else Some m);
          Some (if height block = height lb then m\<lparr>lastBlock := Some (blockHash block)\<rparr> else m) }
        else Some m) = Some m1" "last_block m = Some lb"
      "m' = m1\<lparr>blocks := (blocks m1)(blockHash block \<mapsto> block),
         orphans := (if orphans m1 (prevBlock old) = Some old then (orphans m1)(prevBlock old := None) else orphans m1),
         lastOrphan := (if lastOrphan m1 = Some old then None else lastOrphan m1)\<rparr>"
    using assms(1) unfolding existing_block_def bind_eq_Some_conv Let_def by blast
  have "N \<le> H (blockHash block)" if "height block = height lb"
    using last_height(1) [OF assms(2) *(2)] assms(3) that by (simp add: placed_def)
  then have "ok (heights H N) E C m1" using *(1) assms(2)
    by (auto simp: bind_eq_Some_conv split: if_splits intro!: blocks_update_ok(2) elim!: update_tx_ok)
  from add_block_ok [OF this assms(3)] show ?thesis
    unfolding *(3) using blocks_update_ok(4) [OF add_block_ok [OF \<open>ok (heights H N) E C m1\<close> assms(3)]] by auto
qed

section \<open>Reorganization\<close>

text \<open>The walk back only meets blocks of the table.\<close>

definition known_block :: "block_table \<Rightarrow> BRMerkleBlock option \<Rightarrow> bool" where
  "known_block bs b \<longleftrightarrow> (\<forall>c. b = Some c \<longrightarrow> (\<exists>h. bs h = Some c))"

lemma known_lookup [simp]: "known_block bs (bs h)" "known_block bs None" "known_block bs (Some c) \<longleftrightarrow> (\<exists>h. bs h = Some c)"
  by (auto simp: known_block_def)

lemma fork_point_known:
  assumes "fork_point bs b b2 = Some (c, c2)" "known_block bs b"
  shows "known_block bs c"
proof -
  have "known_block bs b \<longrightarrow> known_block bs (fst (c, c2))"
  proof (rule fork_point.raw_induct [where P = "\<lambda>bs b b2 r. known_block bs b \<longrightarrow> known_block bs (fst r)", OF _ assms(1)])
    fix walk :: "block_table \<Rightarrow> BRMerkleBlock option \<Rightarrow> BRMerkleBlock option \<Rightarrow> (BRMerkleBlock option \<times> BRMerkleBlock option) option"
      and bs b b2 r
    assume IH: "\<And>bs b b2 r. walk bs b b2 = Some r \<Longrightarrow> known_block bs b \<longrightarrow> known_block bs (fst r)"
      and eq: "(case b of None \<Rightarrow> Some (b, b2) | Some c \<Rightarrow> (case b2 of None \<Rightarrow> Some (b, b2) | Some c2 \<Rightarrow>
         if BRMerkleBlockEq c c2 then Some (b, b2)
         else (case bs (prevBlock c) of None \<Rightarrow> Some (None, b2)
         | Some d \<Rightarrow> walk bs (Some d) (if height d < height c2 then bs (prevBlock c2) else b2)))) = Some r"
    show "known_block bs b \<longrightarrow> known_block bs (fst r)"
    proof (cases "\<exists>c c2 d. b = Some c \<and> b2 = Some c2 \<and> \<not> BRMerkleBlockEq c c2 \<and> bs (prevBlock c) = Some d")
      case True
      then obtain c c2 d where d: "b = Some c" "b2 = Some c2" "\<not> BRMerkleBlockEq c c2" "bs (prevBlock c) = Some d" by blast
      then have "walk bs (Some d) (if height d < height c2 then bs (prevBlock c2) else b2) = Some r" using eq by simp
      from IH [OF this] show ?thesis using d(4) by auto
    qed (use eq in \<open>auto split: option.splits if_splits\<close>)
  qed
  then show ?thesis using assms(2) by simp
qed

lemma confirm_fork_ok:
  assumes "confirm_fork E low b m = Some m'" "ok F E C m"
  shows "ok F E C m'"
proof -
  have "ok F E C m \<longrightarrow> ok F E C m'"
  proof (rule confirm_fork.raw_induct [where P = "\<lambda>E low b m m'. ok F E C m \<longrightarrow> ok F E C m'", OF _ assms(1)])
    fix walk :: "('a, 'b, 'c) manager_env \<Rightarrow> u32 \<Rightarrow> BRMerkleBlock option \<Rightarrow> BRPeerManager \<Rightarrow> BRPeerManager option"
      and E low b m m'
    assume IH: "\<And>E low b m m'. walk E low b m = Some m' \<Longrightarrow> ok F E C m \<longrightarrow> ok F E C m'"
      and eq: "(case b of None \<Rightarrow> Some m | Some c \<Rightarrow>
       if height c > low then
         Option.bind (block_tx_hashes c) (\<lambda>hs.
         let ts = (case blocks m (prevBlock c) of None \<Rightarrow> mb_timestamp c
                   | Some d \<Rightarrow> mb_timestamp c div 2 + mb_timestamp d div 2)
         in Option.bind (if length hs > 0 then update_transactions E hs (height c) ts m else Some m)
           (\<lambda>m. walk E low (blocks m (prevBlock c)) m))
       else Some m) = Some m'"
    show "ok F E C m \<longrightarrow> ok F E C m'"
    proof (cases "\<exists>c. b = Some c \<and> height c > low")
      case True
      then obtain hs ts m1 and c :: BRMerkleBlock where "walk E low (blocks m1 (prevBlock c)) m1 = Some m'"
          "(if length hs > 0 then update_transactions E hs (height c) ts m else Some m) = Some m1"
        using eq by (auto simp: bind_eq_Some_conv Let_def)
      then have "ok F E C m \<longrightarrow> ok F E C m1" "ok F E C m1 \<longrightarrow> ok F E C m'"
        using IH update_transactions_ok [where F = F] by (auto split: if_splits)
      then show ?thesis by blast
    qed (use eq in \<open>auto split: option.splits if_splits\<close>)
  qed
  then show ?thesis using assms(2) by simp
qed

lemma unconfirm_after_ok: "unconfirm_after E bh m = Some m' \<Longrightarrow> bh \<le> TX_UNCONFIRMED \<Longrightarrow> ok F E C m \<Longrightarrow> ok F E C m'"
  by (auto simp: unconfirm_after_def bind_eq_Some_conv intro!: wallet_step_ok step_unconfirm)

lemma reorganize_ok:
  assumes "reorganize E block lb m = Some m'" "ok (heights H N) E C m" "blocks m (blockHash block) = Some block"
    and "N \<le> H (blockHash block)"
  shows "ok (heights H N) E C m'"
proof -
  obtain join b2 m1 m2 where *: "fork_point (blocks m) (Some block) (Some lb) = Some (Some join, b2)"
      "unconfirm_after E (height join) m = Some m1"
      "(case b2 of None \<Rightarrow> Some m1 | Some c2 \<Rightarrow> confirm_fork E (height c2) (Some block) m1) = Some m2"
      "m' = m2\<lparr>lastBlock := Some (blockHash block)\<rparr>"
    using assms(1) by (auto simp: reorganize_def bind_eq_Some_conv)
  have "known_block (blocks m) (Some join)" by (rule fork_point_known [OF *(1)]) (use assms(3) in auto)
  then have "height join \<le> TX_UNCONFIRMED" using height_le [OF heights_ok(1) [OF assms(2)]] by auto
  with *(2) have "ok (heights H N) E C m1" using assms(2) by (rule unconfirm_after_ok)
  then have "ok (heights H N) E C m2" using *(3) by (cases b2) (auto elim!: confirm_fork_ok)
  then show ?thesis unfolding *(4) by (rule blocks_update_ok) (use assms(4) in simp)
qed

lemma fork_block_ok:
  assumes "fork_block E block m = Some (m', n)" "ok (heights H N) E C m" "placed H block"
  shows "ok (heights H N) E C m'"
proof -
  let ?m = "m\<lparr>blocks := (blocks m)(blockHash block \<mapsto> block)\<rparr>"
  obtain lb where "(if height block > height lb then do { m \<leftarrow> reorganize E block lb ?m; chain_complete E block m }
      else Some (?m, 0)) = Some (m', n)" "last_block m = Some lb"
    using assms(1) unfolding fork_block_def bind_eq_Some_conv Let_def by blast
  moreover from this(2) have "N \<le> H (blockHash block)" if "height block > height lb"
    using last_height(1) [OF assms(2)] assms(3) that by (force simp: placed_def word_less_nat_alt)
  ultimately show ?thesis using add_block_ok [OF assms(2,3)]
    by (auto simp: bind_eq_Some_conv split: if_splits elim!: chain_complete_ok reorganize_ok)
qed

section \<open>The whole callback\<close>

lemma if_chain: "(if a then u else if b then v else if c then w else if d then x else y) = z \<Longrightarrow>
    a \<and> u = z \<or> v = z \<or> w = z \<or> x = z \<or> y = z"
  by metis

lemma place_block_ok:
  assumes "place_block E p block prev txs m = Some (m', kept, n)" "ok (heights H N) E C m" "block_fits H block"
    and "prev \<noteq> None \<Longrightarrow> placed H block" "prev \<noteq> None \<Longrightarrow> H (prevBlock block) < H (blockHash block)"
  shows "ok (heights H N) E C m'"
proof -
  consider (same) "m' = m" | (pending) "pending_filter_block E p m = Some m'"
    | (orphan) "orphan_block E p block m = Some (m', kept)"
    | (verified) c where "prev = Some c"
  using assms(1) unfolding place_block_def bind_eq_Some_conv Let_def case_tuple_conv
    by (auto split: if_splits option.splits simp: bind_eq_Some_conv)
  then show ?thesis
  proof cases
    case verified
    have h: "H (prevBlock block) < H (blockHash block)" using assms(5) verified by simp
    have b: "placed H block" using assms(4) verified by simp
    show ?thesis
    proof (cases "totalTx block = 0 \<and> mb_timestamp block + WEEK > m_earliestKeyTime m + 2 * 60 * 60 \<or> bloomFilter m = None")
      case True
      then show ?thesis using assms(1,2) by (auto simp: place_block_def bind_eq_Some_conv split: if_splits elim!: pending_filter_ok)
    next
      case False
      then have f: "\<not> (totalTx block = 0 \<and> mb_timestamp block + WEEK > m_earliestKeyTime m + 2 * 60 * 60)"
          "\<not> bloomFilter m = None" by simp_all
      obtain m1 valid where m1: "BRPeerManagerVerifyBlock block c m = Some (m1, valid)"
        using assms(1) verified False by (auto simp: place_block_def bind_eq_Some_conv Let_def)
      then have 1: "ok (heights H N) E C m1" using assms(2) by (rule verify_block_ok)
      show ?thesis
      proof (cases valid)
        case invalid: False
        then show ?thesis using assms(1) False m1 1 verified
          by (auto simp: place_block_def bind_eq_Some_conv Let_def elim!: misbehavin_ok)
      next
        case valid: True
        let ?t = "mb_timestamp block div 2 + mb_timestamp c div 2"
        obtain lb ctx where placing: "(if UInt256Eq (prevBlock block) (blockHash lb) then do {
              (m, n) \<leftarrow> extend_chain E p block txs ?t m1; Some (m, True, n) }
            else if blocks m1 (blockHash block) \<noteq> None then do {
              m \<leftarrow> existing_block E block txs ?t m1; Some (m, True, 0) }
            else if height lb < BRPeerLastBlock ctx \<and> height block > height lb + 1
            then Some (m1\<lparr>orphans := (orphans m1)(prevBlock block \<mapsto> block), lastOrphan := Some block\<rparr>, True, 0)
            else if me_checkpoints E \<noteq> [] \<and> height block \<le> cp_height (last (me_checkpoints E)) then Some (m1, False, 0)
            else do { (m, n) \<leftarrow> fork_block E block m1; Some (m, True, n) }) = Some (m', kept, n)" "last_block m1 = Some lb"
          using assms(1) unfolding place_block_def if_not_P [OF f(1)] if_not_P [OF f(2)] verified Let_def option.case
            m1 bind.bind_lunit prod.case
          by (simp add: valid bind_eq_Some_conv [of "last_block m1"] bind_eq_Some_conv [of "conns m1 p"] del: not_None_eq) blast
        have orphan: "ok (heights H N) E C (m1\<lparr>orphans := (orphans m1)(prevBlock block \<mapsto> block), lastOrphan := Some block\<rparr>)"
          using blocks_update_ok(3) [OF 1 assms(3)] by simp
        from if_chain [OF placing(1)] show ?thesis
        proof (elim disjE conjE)
          assume "UInt256Eq (prevBlock block) (blockHash lb)" "do { (m, n) \<leftarrow> extend_chain E p block txs ?t m1; Some (m, True, n) } = Some (m', kept, n)"
          moreover from this(1) have "N \<le> H (blockHash block)" using last_height(2) [OF 1 placing(2)] h by (simp add: UInt256Eq_def)
          ultimately show ?thesis by (auto simp: bind_eq_Some_conv intro: extend_chain_ok [OF _ 1 b])
        next
          assume "do { m \<leftarrow> existing_block E block txs ?t m1; Some (m, True, 0) } = Some (m', kept, n)"
          then show ?thesis by (auto simp: bind_eq_Some_conv intro: existing_block_ok [OF _ 1 b])
        next
          assume "do { (m, n) \<leftarrow> fork_block E block m1; Some (m, True, n) } = Some (m', kept, n)"
          then show ?thesis by (auto simp: bind_eq_Some_conv intro: fork_block_ok [OF _ 1 b])
        qed (use 1 orphan in auto)
      qed
    qed
  qed (use assms in \<open>auto elim!: pending_filter_ok orphan_block_ok\<close>)
qed

lemma relay_block_ok:
  assumes "relay_block E p block m = Some (m', next)" "ok (heights H N) E C m" "block_fits H block"
  shows "ok (heights H N) E C m' \<and> (\<forall>b. next = Some b \<longrightarrow> block_fits H b)"
proof -
  define blk where "blk = (case blocks m (prevBlock block) of None \<Rightarrow> block | Some b \<Rightarrow> block\<lparr>height := height b + 1\<rparr>)"
  obtain txs m1 m2 kept n saved ctx where *: "observe_block E p blk txs m = Some m1"
      "place_block E p blk (blocks m (prevBlock block)) txs m1 = Some (m2, kept, n)"
      "(let known = (kept \<and> height blk \<noteq> BLOCK_UNKNOWN_HEIGHT);
          m = (if known then m2\<lparr>estimatedHeight := max (height blk) (estimatedHeight m2),
                              orphans := (orphans m2)(blockHash blk := None)\<rparr> else m2)
        in (m_log ((if length saved > 0 then [SaveBlocks (length saved > 1) saved] else []) @
                  (if known \<and> height blk \<ge> BRPeerLastBlock ctx then [TxStatusUpdate] else [])) m,
            if known then orphans m2 (blockHash blk) else None)) = (m', next)"
    using assms(1) unfolding relay_block_def blk_def [symmetric] bind_eq_Some_conv Let_def case_tuple_conv by blast
  have fits: "block_fits H blk" "blocks m (prevBlock block) \<noteq> None \<Longrightarrow> placed H blk"
    using assms(3) height_set [OF heights_ok(1) [OF assms(2)] _ assms(3)]
    by (auto simp: blk_def block_fits_def placed_def split: option.splits)
  have "blocks m 0 = None" using table_okD [OF heights_ok(1) [OF assms(2)], of 0] by (cases "blocks m 0") (auto simp: block_fits_def)
  then have up: "blocks m (prevBlock block) \<noteq> None \<Longrightarrow> H (prevBlock blk) < H (blockHash blk)"
    using assms(3) by (auto simp: blk_def block_fits_def split: option.splits)
  have "ok (heights H N) E C m1" using *(1) assms(2) by (rule observe_block_ok)
  then have 2: "ok (heights H N) E C m2" using place_block_ok [OF *(2) _ fits up] by simp
  note o = heights_ok(2) [OF 2, of "blockHash blk"]
  have c: "ok (heights H N) E C (m2\<lparr>estimatedHeight := e, orphans := (orphans m2)(blockHash blk := None)\<rparr>)" for e
    using blocks_update_ok(4) [of H N "testnet E" "me_secp E" C "m2\<lparr>estimatedHeight := e\<rparr>" "blockHash blk"] 2 by simp
  show ?thesis using *(3) 2 o c by (auto simp: Let_def m_log_ok split: if_splits)
qed

lemma peerRelayedBlock_ok:
  assumes "peerRelayedBlock E p block m = Some m'" "ok (heights H N) E C m" "block_fits H block"
  shows "ok (heights H N) E C m'"
proof -
  have "ok (heights H N) E C m \<longrightarrow> block_fits H block \<longrightarrow> ok (heights H N) E C m'"
  proof (rule peerRelayedBlock.raw_induct [where P = "\<lambda>E p block m m'. ok (heights H N) E C m \<longrightarrow> block_fits H block \<longrightarrow>
      ok (heights H N) E C m'", OF _ assms(1)])
    fix relay :: "('a, 'b, 'c) manager_env \<Rightarrow> nat \<Rightarrow> BRMerkleBlock \<Rightarrow> BRPeerManager \<Rightarrow> BRPeerManager option" and E p block m m'
    assume IH: "\<And>E p block m m'. relay E p block m = Some m' \<Longrightarrow> ok (heights H N) E C m \<longrightarrow> block_fits H block \<longrightarrow> ok (heights H N) E C m'"
      and eq: "Option.bind (relay_block E p block m) (\<lambda>(m, next). case next of None \<Rightarrow> Some m | Some b \<Rightarrow> relay E p b m) = Some m'"
    obtain m1 n where "relay_block E p block m = Some (m1, n)" "(case n of None \<Rightarrow> Some m1 | Some b \<Rightarrow> relay E p b m1) = Some m'"
      using eq by (auto simp: bind_eq_Some_conv)
    then show "ok (heights H N) E C m \<longrightarrow> block_fits H block \<longrightarrow> ok (heights H N) E C m'"
      using relay_block_ok [of E p block m m1 n H N C] IH by (cases n) auto
  qed
  then show ?thesis using assms(2,3) by simp
qed

end
