(* ===== verification/ManagerProperties.thy ===== *)
theory ManagerProperties
  imports ManagerBlocks WalletProperties
begin

text \<open>
  The reachable states of the manager, and its properties: the invariant of all parts, the blocks that
  are saved, the block locators and the rescan.
\<close>

section \<open>The functions of the application\<close>

lemma disconnect_all_ok:
  assumes "BRPeerManagerDisconnect m = Some m'" "manager_ok F T S C m"
  shows "manager_ok F T S C m'"
  by (rule fold_m_keeps [where P = "manager_ok F T S C", OF assms(1) [unfolded BRPeerManagerDisconnect_def] assms(2)])
    (auto elim!: on_peer_ok)

lemma fixed_peer_ok: "manager_ok F T S C m \<Longrightarrow> connectedPeers m = [] \<Longrightarrow> manager_ok F T S C (set_fixed_peer a port m)"
  by (auto simp: set_fixed_peer_def manager_ok_def conns_ok_def chain_ok_def PEER_MAX_CONNECTIONS_def)

lemma rescan_ok:
  assumes "BRPeerManagerRescan E m = Some m'" "ok (heights H 0) E C m"
  shows "ok (heights H 0) E C m'"
proof (cases "isConnected m")
  case True
  let ?n = "\<lambda>c :: checkpoint. m\<lparr>lastBlock := map_option (\<lambda>_. cp_hash c) (blocks m (cp_hash c))\<rparr>"
  obtain c m1 where *: "(case downloadPeer (?n c) of None \<Rightarrow> Some (?n c)
      | Some d \<Rightarrow> do {
          ctx \<leftarrow> conns (?n c) d;
          on_peer d BRPeerDisconnect ((?n c)\<lparr>peers := filter (\<lambda>q. \<not> BRPeerEq q (peer ctx)) (peers (?n c))\<rparr>) }) = Some m1"
      "BRPeerManagerConnect E (m1\<lparr>syncStartHeight := 0\<rparr>) = Some m'"
    using assms(1) unfolding BRPeerManagerRescan_def if_P [OF True] bind_eq_Some_conv Let_def by blast
  have "ok (heights H 0) E C (m\<lparr>lastBlock := map_option (\<lambda>_. cp_hash c) (blocks m (cp_hash c))\<rparr>)"
    by (rule blocks_update_ok(2) [OF assms(2)]) simp
  then have "ok (heights H 0) E C m1"
    using *(1) by (cases "downloadPeer m") (auto simp: bind_eq_Some_conv elim!: on_peer_ok)
  then show ?thesis using *(2) by (auto elim!: manager_connect_ok)
qed (use assms in \<open>simp add: BRPeerManagerRescan_def\<close>)

lemma more_callbacks: "manager_ok F T S C m \<Longrightarrow> manager_ok F T S (C + D) m"
  by (auto simp: manager_ok_def intro: subset_mset.order_trans)

lemma publish_tx_ok:
  assumes "BRPeerManagerPublishTx E tx c m = Some m'" "tx_bound tx" "ok F E C m"
  shows "ok F E (C + opt_mset c) m'"
proof (cases "\<not> isConnected m \<and> (connectFailureCount m \<ge> MAX_CONNECT_FAILURES \<or> \<not> me_reachable E)")
  case True
  then have "m' = call_published c ENOTCONN m" using assms(1) by (simp add: BRPeerManagerPublishTx_def split: if_splits)
  then show ?thesis using call_published_ok [of F "testnet E" "me_secp E" "C + opt_mset c" c m] assms(3) by simp
next
  case False
  then obtain m1 and n :: nat where *: "BRPeerManagerAddTxToPublishList (tx\<lparr>tx_timestamp := ucast (now E)\<rparr>) c m = Some m1"
      "fold_m (if_connected (\<lambda>p m.
          if downloadPeer m \<noteq> Some p \<or> n = 1 then do {
            m \<leftarrow> BRPeerManagerPublishPendingTx E p m;
            ping_with E p PublishTxInvDone p m }
          else Some m)) m1 (rev (connectedPeers m1)) = Some m'"
    using assms(1) by (auto simp: BRPeerManagerPublishTx_def bind_eq_Some_conv split: if_splits)
  have 1: "ok F E (C + opt_mset c) m1" using add_to_publish_ok [OF *(1) _ assms(3)] assms(2) by (simp add: tx_bound_def)
  show ?thesis
    by (rule if_connected_ok [where P = "ok F E (C + opt_mset c)", OF *(2) _ 1])
      (auto simp: bind_eq_Some_conv split: if_splits elim!: ping_with_ok publish_pending_ok)
qed

lemma called_ok:
  assumes "called E c s m = Some m'" "ok F E C m"
  shows "ok F E C m'"
proof -
  obtain t p where t: "infos m c = Some (t, p)" using assms(1) by (auto simp: called_def split: option.splits)
  show ?thesis
    using assms by (cases t) (auto simp: called_def t publish_tx_inv_done_def elim!: rerequest_done_ok load_done_ok
        ping_done_ok getdata_done_ok mempool_done_ok load_bloom_done_ok request_unrelayed_ok)
qed

section \<open>A new manager\<close>

definition checkpoint_fits :: "(UInt256 \<Rightarrow> nat) \<Rightarrow> checkpoint \<Rightarrow> bool" where
  "checkpoint_fits H c \<longleftrightarrow> cp_hash c \<noteq> 0 \<and> unat (cp_height c) = H (cp_hash c) \<and> H (cp_hash c) < 0x7fffffff"

lemma checkpoint_placed: "checkpoint_fits H c \<Longrightarrow> placed H (checkpoint_block c)"
  by (simp add: checkpoint_fits_def checkpoint_block_def placed_def block_fits_def BRMerkleBlockNew_def)

text \<open>While the manager is made, the orphans are saved blocks, with their heights.\<close>

definition making :: "(UInt256 \<Rightarrow> nat) \<Rightarrow> chain_inv" where
  "making H = (\<lambda>bs _. table_ok H bs, \<lambda>h b. prevBlock b = h \<and> placed H b)"

lemma making_updates:
  "manager_ok (making H) T S C m \<Longrightarrow> placed H b \<Longrightarrow>
    manager_ok (making H) T S C (m\<lparr>blocks := (blocks m)(blockHash b \<mapsto> b), lastBlock := l\<rparr>)"
  "manager_ok (making H) T S C m \<Longrightarrow> placed H b \<Longrightarrow>
    manager_ok (making H) T S C (m\<lparr>orphans := (orphans m)(prevBlock b \<mapsto> b)\<rparr>)"
  "manager_ok (making H) T S C m \<Longrightarrow> manager_ok (making H) T S C (m\<lparr>orphans := (orphans m)(h := None)\<rparr>)"
  by (auto simp: manager_ok_def chain_ok_def making_def conns_ok_def placed_def intro: table_ok_add)

lemma making_orphans: "manager_ok (making H) T S C m \<Longrightarrow> orphans m h = Some b \<Longrightarrow> placed H b"
  by (simp add: manager_ok_def chain_ok_def making_def)

lemma making_heights: "manager_ok (making H) T S C m \<Longrightarrow> manager_ok (heights H 0) T S C m"
  by (simp add: manager_ok_def chain_ok_def making_def heights_def placed_def)

lemma empty_manager_ok: "reachable T S w \<Longrightarrow> manager_ok (making H) T S {#} (empty_manager w k ps)"
  by (simp add: empty_manager_def manager_ok_def conns_ok_def chain_ok_def making_def table_ok_def published_ok_def
      callbacks_def map_filter_simps PEER_MAX_CONNECTIONS_def)

lemma saved_chain_ok:
  assumes "saved_chain b m = Some m'" "manager_ok (making H) T S C m" "\<And>c. b = Some c \<Longrightarrow> placed H c"
  shows "manager_ok (making H) T S C m'"
proof -
  have "manager_ok (making H) T S C m \<longrightarrow> (\<forall>c. b = Some c \<longrightarrow> placed H c) \<longrightarrow> manager_ok (making H) T S C m'"
  proof (rule saved_chain.raw_induct [where P = "\<lambda>b m m'. manager_ok (making H) T S C m \<longrightarrow>
      (\<forall>c. b = Some c \<longrightarrow> placed H c) \<longrightarrow> manager_ok (making H) T S C m'", OF _ assms(1)], intro impI)
    fix walk :: "BRMerkleBlock option \<Rightarrow> BRPeerManager \<Rightarrow> BRPeerManager option" and b m m'
    assume IH: "\<And>b m m'. walk b m = Some m' \<Longrightarrow> manager_ok (making H) T S C m \<longrightarrow>
        (\<forall>c. b = Some c \<longrightarrow> placed H c) \<longrightarrow> manager_ok (making H) T S C m'"
      and eq: "(case b of None \<Rightarrow> Some m
        | Some b \<Rightarrow> let m = m\<lparr>blocks := (blocks m)(blockHash b \<mapsto> b), lastBlock := Some (blockHash b),
                        orphans := (orphans m)(prevBlock b := None)\<rparr>
         in walk (orphans m (blockHash b)) m) = Some m'"
      and m: "manager_ok (making H) T S C m" "\<forall>c. b = Some c \<longrightarrow> placed H c"
    show "manager_ok (making H) T S C m'"
    proof (cases b)
      case (Some c)
      let ?m1 = "m\<lparr>blocks := (blocks m)(blockHash c \<mapsto> c), lastBlock := Some (blockHash c)\<rparr>"
      let ?m2 = "m\<lparr>blocks := (blocks m)(blockHash c \<mapsto> c), lastBlock := Some (blockHash c), orphans := (orphans m)(prevBlock c := None)\<rparr>"
      have "manager_ok (making H) T S C ?m1" using making_updates(1) [OF m(1)] m(2) Some by simp
      from making_updates(3) [OF this, of "prevBlock c"] have 2: "manager_ok (making H) T S C ?m2" by simp
      moreover have "walk (orphans ?m2 (blockHash c)) ?m2 = Some m'" using eq by (simp add: Some Let_def)
      moreover have "\<forall>d. orphans ?m2 (blockHash c) = Some d \<longrightarrow> placed H d"
        using making_orphans [OF 2] by blast
      ultimately show ?thesis using IH by blast
    qed (use eq m in simp)
  qed
  then show ?thesis using assms(2,3) by simp
qed

lemma add_saved_ok:
  assumes "add_saved (m, start) b = Some (m', start')" "manager_ok (making H) T S C m" "placed H b"
    and "\<And>c. start = Some c \<Longrightarrow> placed H c"
  shows "manager_ok (making H) T S C m' \<and> (\<forall>c. start' = Some c \<longrightarrow> placed H c)"
  using assms making_updates(2) [OF assms(2,3)] by (auto simp: add_saved_def split: if_splits)

lemma manager_new_ok:
  assumes "BRPeerManagerNew E w k bs ps = Some m" "reachable T S w"
    and "list_all (checkpoint_fits H) (me_checkpoints E)" "list_all (placed H) bs"
  shows "manager_ok (heights H 0) T S {#} m"
proof -
  obtain m1 start where m1: "fold_m add_saved (foldl add_checkpoint (empty_manager w k ps) (me_checkpoints E), None) bs = Some (m1, start)"
      "saved_chain start m1 = Some m"
    using assms(1) unfolding BRPeerManagerNew_def Let_def bind_eq_Some_conv case_tuple_conv by blast
  let ?P = "\<lambda>s. manager_ok (making H) T S {#} (fst s) \<and> (\<forall>c. snd s = Some c \<longrightarrow> placed H c)"
  have "manager_ok (making H) T S {#} m0 \<Longrightarrow> list_all (checkpoint_fits H) cs \<Longrightarrow>
      manager_ok (making H) T S {#} (foldl add_checkpoint m0 cs)" for m0 cs
  proof (induction cs arbitrary: m0)
    case (Cons c cs)
    have "placed H (checkpoint_block c)" using Cons.prems(2) checkpoint_placed by simp
    note u = making_updates(1) [OF _ this, of T S "{#}" "m0\<lparr>checkpoints := (checkpoints m0)(height (checkpoint_block c) \<mapsto> checkpoint_block c)\<rparr>"]
    have "manager_ok (making H) T S {#} (add_checkpoint m0 c)" using u Cons.prems(1) by (simp add: add_checkpoint_def Let_def)
    then show ?case using Cons by simp
  qed simp
  then have "manager_ok (making H) T S {#} (foldl add_checkpoint (empty_manager w k ps) (me_checkpoints E))"
    using empty_manager_ok assms(2,3) by blast
  then have start: "?P (foldl add_checkpoint (empty_manager w k ps) (me_checkpoints E), None)" by simp
  have "?P (m1, start)"
  proof (rule fold_m_keeps [where P = ?P, OF m1(1) start])
    fix s b s'
    assume "b \<in> set bs" "?P s" "add_saved s b = Some s'"
    then show "?P s'" using add_saved_ok [of "fst s" "snd s" b "fst s'" "snd s'" H T S "{#}"] assms(4) by (simp add: list_all_iff)
  qed
  then show ?thesis by (intro making_heights saved_chain_ok [OF m1(2)]) auto
qed

section \<open>Reachable states\<close>

text \<open>
  A step of the manager, with the callback that is passed to it. The surroundings change from step to
  step, the network and the curve library do not. The thread of a peer may bring its connection to
  any state that satisfies the invariant of a connection; the wallet may take steps of its own.
  A relayed transaction has fewer than \<open>2^32\<close> outputs, and \<open>H\<close> gives the heights of relayed blocks.
\<close>

inductive manager_step ::
  "bool \<Rightarrow> ('k, 's, 'r) secp \<Rightarrow> (UInt256 \<Rightarrow> nat) \<Rightarrow> BRPeerManager \<Rightarrow> callback \<Rightarrow> BRPeerManager \<Rightarrow> bool"
  for T S H where
  step_connect: "testnet E = T \<Longrightarrow> me_secp E = S \<Longrightarrow> BRPeerManagerConnect E m = Some m' \<Longrightarrow> manager_step T S H m None m'"
| step_disconnect: "BRPeerManagerDisconnect m = Some m' \<Longrightarrow> manager_step T S H m None m'"
| step_fixed: "connectedPeers m = [] \<Longrightarrow> manager_step T S H m None (set_fixed_peer a port m)"
| step_rescan: "testnet E = T \<Longrightarrow> me_secp E = S \<Longrightarrow> BRPeerManagerRescan E m = Some m' \<Longrightarrow> manager_step T S H m None m'"
| step_publish: "testnet E = T \<Longrightarrow> me_secp E = S \<Longrightarrow> length (outputs tx) < 2 ^ 32 \<Longrightarrow>
    BRPeerManagerPublishTx E tx c m = Some m' \<Longrightarrow> manager_step T S H m c m'"
| step_connected: "testnet E = T \<Longrightarrow> me_secp E = S \<Longrightarrow> peerConnected E p m = Some m' \<Longrightarrow> manager_step T S H m None m'"
| step_disconnected: "testnet E = T \<Longrightarrow> me_secp E = S \<Longrightarrow> peerDisconnected E p err m = Some m' \<Longrightarrow> manager_step T S H m None m'"
| step_peers: "testnet E = T \<Longrightarrow> me_secp E = S \<Longrightarrow> peerRelayedPeers E ps m = Some m' \<Longrightarrow> manager_step T S H m None m'"
| step_tx: "testnet E = T \<Longrightarrow> me_secp E = S \<Longrightarrow> length (outputs tx) < 2 ^ 32 \<Longrightarrow>
    peerRelayedTx E p tx m = Some m' \<Longrightarrow> manager_step T S H m None m'"
| step_has: "testnet E = T \<Longrightarrow> me_secp E = S \<Longrightarrow> peerHasTx E p h m = Some m' \<Longrightarrow> manager_step T S H m None m'"
| step_rejected: "testnet E = T \<Longrightarrow> me_secp E = S \<Longrightarrow> peerRejectedTx E p h code m = Some m' \<Longrightarrow> manager_step T S H m None m'"
| step_block: "testnet E = T \<Longrightarrow> me_secp E = S \<Longrightarrow> block_fits H block \<Longrightarrow>
    peerRelayedBlock E p block m = Some m' \<Longrightarrow> manager_step T S H m None m'"
| step_notfound: "peerDataNotfound p hs m = Some m' \<Longrightarrow> manager_step T S H m None m'"
| step_fees: "peerSetFeePerKb m = Some m' \<Longrightarrow> manager_step T S H m None m'"
| step_requested: "testnet E = T \<Longrightarrow> me_secp E = S \<Longrightarrow> peerRequestedTx E p h m = Some (m', r) \<Longrightarrow> manager_step T S H m None m'"
| step_called: "testnet E = T \<Longrightarrow> me_secp E = S \<Longrightarrow> called E i s m = Some m' \<Longrightarrow> manager_step T S H m None m'"
| step_thread: "conns m p \<noteq> None \<Longrightarrow> peer_ok ctx \<Longrightarrow> manager_step T S H m None (m\<lparr>conns := (conns m)(p \<mapsto> ctx)\<rparr>)"
| step_wallet: "wallet_step T S (m_wallet m) w \<Longrightarrow> manager_step T S H m None (m\<lparr>m_wallet := w\<rparr>)"

text \<open>The states from a new manager on, with the callbacks that were passed to it.\<close>

inductive manager_reachable ::
  "bool \<Rightarrow> ('k, 's, 'r) secp \<Rightarrow> (UInt256 \<Rightarrow> nat) \<Rightarrow> nat multiset \<Rightarrow> BRPeerManager \<Rightarrow> bool" for T S H where
  manager_new: "me_secp E = S \<Longrightarrow> BRPeerManagerNew E w k bs ps = Some m \<Longrightarrow> reachable T S w \<Longrightarrow> list_all (checkpoint_fits H) (me_checkpoints E) \<Longrightarrow>
    list_all (placed H) bs \<Longrightarrow> manager_reachable T S H {#} m"
| manager_more: "manager_reachable T S H C m \<Longrightarrow> manager_step T S H m c m' \<Longrightarrow> manager_reachable T S H (C + opt_mset c) m'"

lemma thread_ok: "conns m p = Some old \<Longrightarrow> peer_ok ctx \<Longrightarrow> manager_ok F T S C m \<Longrightarrow> manager_ok F T S C (m\<lparr>conns := (conns m)(p \<mapsto> ctx)\<rparr>)"
  by (rule on_peer_ok [where f = "\<lambda>_. ctx" and p = p and m = m]) (auto simp: on_peer_def)

lemma opt_mset_None [simp]: "opt_mset None = {#}"
  by (simp add: opt_mset_def)

lemma manager_step_ok:
  assumes "manager_step T S H m c m'" "manager_ok (heights H 0) T S C m"
  shows "manager_ok (heights H 0) T S (C + opt_mset c) m'"
  using assms
proof (induction rule: manager_step.induct)
  case (step_publish E tx c m m')
  then show ?case using publish_tx_ok [of E tx c m m' "heights H 0" C] by (simp add: tx_bound_def)
qed (auto simp: tx_bound_def elim!: manager_connect_ok disconnect_all_ok fixed_peer_ok rescan_ok peerConnected_ok peerDisconnected_ok
    peerRelayedPeers_ok peerRelayedTx_ok peerHasTx_ok peerRejectedTx_ok peerRelayedBlock_ok peerDataNotfound_ok peerSetFeePerKb_ok
    peerRequestedTx_ok called_ok wallet_step_ok thread_ok)

lemma manager_reachable_ok: "manager_reachable T S H C m \<Longrightarrow> manager_ok (heights H 0) T S C m"
  by (induction rule: manager_reachable.induct) (auto intro: manager_new_ok manager_step_ok)

section \<open>The invariant\<close>

text \<open>
  C7: in every state that the manager reaches, whatever its peers and the application do: the balance of its
  wallet is the sum of the unspent outputs; the connected peers are different, alive, and not more than
  the limit; it is connected exactly when it has a download peer, which is one of them; every connection
  is in order; the published hashes are those of the published transactions, which are different; each
  callback passed to \<open>BRPeerManagerPublishTx\<close> is pending or was called at most as often as it was passed; the
  peers that relayed a transaction are different; and the table has each block under its hash with its
  true height.
\<close>

theorem manager_invariant:
  assumes "manager_reachable T S H C m"
  shows "BRWalletBalance (m_wallet m) = utxo_sum (m_wallet m) (utxos (m_wallet m)) \<and>
    distinct (connectedPeers m) \<and> set (connectedPeers m) = dom (conns m) \<and> length (connectedPeers m) \<le> maxConnectCount m \<and>
    (isConnected m \<longleftrightarrow> downloadPeer m \<noteq> None) \<and> set_option (downloadPeer m) \<subseteq> set (connectedPeers m) \<and>
    Ball (ran (conns m)) peer_ok \<and>
    publishedTxHashes m = map (txHash \<circ> pub_tx) (publishedTx m) \<and> distinct (publishedTxHashes m) \<and>
    callbacks (publishedTx m) (m_events m) \<subseteq># C \<and>
    distinct (map txl_hash (txRelays m)) \<and> list_all (\<lambda>e. distinct (map peer_key (txl_peers e))) (txRelays m) \<and>
    (\<forall>h b. blocks m h = Some b \<longrightarrow> blockHash b = h \<and> unat (height b) = H h)"
proof -
  have ok: "manager_ok (heights H 0) T S C m" by (rule manager_reachable_ok [OF assms])
  then have "BRWalletBalance (m_wallet m) = utxo_sum (m_wallet m) (utxos (m_wallet m))"
    using reachable_ok [of T S "m_wallet m"] by (simp add: manager_ok_def wallet_ok_def funds_ok_def BRWalletBalance_def)
  moreover have "Ball (ran (conns m)) peer_ok" using ok by (auto simp: manager_ok_def conns_ok_def ran_def)
  moreover have "set_option (downloadPeer m) \<subseteq> set (connectedPeers m)"
    using ok by (cases "downloadPeer m") (auto simp: manager_ok_def conns_ok_def)
  moreover have "\<forall>h b. blocks m h = Some b \<longrightarrow> blockHash b = h \<and> unat (height b) = H h"
    using table_okD [OF heights_ok(1) [OF ok]] by blast
  ultimately show ?thesis using ok
    unfolding manager_ok_def conns_ok_def published_ok_def relays_ok_def list_all_iff by blast
qed

text \<open>A manager without network that was asked to publish a transaction: the callback was called with an error.\<close>

definition offline_env :: "(UInt256, UInt256 \<times> UInt256, UInt256) manager_env" where
  "offline_env = \<lparr>me_peer = quiet_env, me_secp = integer_secp, me_moved = False, me_bloom = (\<lambda>_ _. (1, \<lambda>_. 1)),
     me_checkpoints = [\<lparr>cp_height = 0, cp_hash = 77, cp_timestamp = 0, cp_target = 0\<rparr>], me_reachable = False,
     me_created = (\<lambda>_. True), me_rand = [], me_lookup = (\<lambda>_. []), me_threads = 0, me_finished = []\<rparr>"

definition offline_manager :: "BRWallet \<Rightarrow> BRPeerManager" where
  "offline_manager w = add_checkpoint (empty_manager w 0 []) \<lparr>cp_height = 0, cp_hash = 77, cp_timestamp = 0, cp_target = 0\<rparr>"

lemma offline_reachable:
  assumes "reachable False integer_secp w" "H 77 = 0"
  shows "manager_reachable False integer_secp H {#} (offline_manager w)"
proof -
  have "BRPeerManagerNew offline_env w 0 [] [] = Some (offline_manager w)"
    by (simp add: BRPeerManagerNew_def offline_env_def saved_chain.simps offline_manager_def)
  then show ?thesis by (rule manager_new [rotated]) (simp_all add: offline_env_def assms checkpoint_fits_def)
qed

lemmas offline_eval = offline_manager_def add_checkpoint_def empty_manager_def checkpoint_block_def BRMerkleBlockNew_def Let_def

theorem manager_invariant_witness:
  "\<exists>m. manager_reachable False integer_secp (\<lambda>_. 0) {#5#} m \<and> m_events m = [Published 5 ENOTCONN] \<and>
     BRWalletBalance (m_wallet m) = utxo_sum (m_wallet m) (utxos (m_wallet m)) \<and>
     callbacks (publishedTx m) (m_events m) \<subseteq># {#5#} \<and> set (connectedPeers m) = dom (conns m)"
proof -
  obtain w where w: "reachable False integer_secp w" using reachable_sample by blast
  let ?m = "m_log [Published 5 ENOTCONN] (offline_manager w)"
  have "BRPeerManagerPublishTx offline_env coin (Some 5) (offline_manager w) = Some ?m"
    by (simp add: BRPeerManagerPublishTx_def BRTransactionIsSigned_def coin_def offline_env_def call_published_def offline_eval)
  then have "manager_step False integer_secp (\<lambda>_. 0) (offline_manager w) (Some 5) ?m"
    by (rule step_publish [rotated 3]) (simp_all add: offline_env_def quiet_env_def coin_def)
  with offline_reachable [OF w] have "manager_reachable False integer_secp (\<lambda>_. 0) ({#} + opt_mset (Some 5)) ?m"
    by (rule manager_more) simp
  then have "manager_reachable False integer_secp (\<lambda>_. 0) {#5#} ?m" by (simp add: opt_mset_def)
  moreover note manager_invariant [OF this]
  moreover have "m_events ?m = [Published 5 ENOTCONN]" by (simp add: m_log_def offline_eval)
  ultimately show ?thesis by blast
qed

section \<open>The height of the chain\<close>

text \<open>
  C8: a relayed block, with the orphans that follow it, never lowers the height of the chain: a
  reorganization only takes place when the fork is higher.
\<close>

theorem chain_height_monotone:
  assumes "manager_reachable (testnet E) (me_secp E) H C m" "block_fits H block"
    and "peerRelayedBlock E p block m = Some m'" "last_block m = Some lb" "last_block m' = Some lb'"
  shows "height lb \<le> height lb'"
proof -
  have m: "ok (heights H 0) E C m" by (rule manager_reachable_ok [OF assms(1)])
  obtain h where h: "lastBlock m = Some h" "blocks m h = Some lb" using assms(4) by (auto simp: last_block_def bind_eq_Some_conv)
  have "ok (heights H (unat (height lb))) E C m"
    using m h table_okD [OF heights_ok(1) [OF m] h(2)] by (simp add: manager_ok_def chain_ok_def heights_def)
  from peerRelayedBlock_ok [OF assms(3) this assms(2)] show ?thesis
    using last_height(1) assms(5) by (simp add: word_le_nat_alt)
qed

text \<open>A manager with one connection, to which the first block after the checkpoint is relayed.\<close>

definition online_env :: "(UInt256, UInt256 \<times> UInt256, UInt256) manager_env" where
  "online_env = offline_env\<lparr>me_reachable := True, me_rand := [7, 7]\<rparr>"

definition next_block :: BRMerkleBlock where
  "next_block = BRMerkleBlockNew\<lparr>blockHash := 5, prevBlock := 77\<rparr>"

lemma connect_sample:
  "\<exists>m. BRPeerManagerConnect online_env (set_fixed_peer 1 8555 (offline_manager w)) = Some m \<and> conns m 0 \<noteq> None \<and>
    last_block m = last_block (offline_manager w) \<and> m_earliestKeyTime m = 0 \<and> downloadPeer m = None"
  by (simp add: BRPeerManagerConnect_def online_env_def offline_env_def set_fixed_peer_def last_block_def offline_eval
      needs_peers_def BRPeerManagerFindPeers_def connect_loop.simps BRRand_def is_connected_def connect_new_def m_log_def)

lemma relay_sample:
  assumes "conns m 0 \<noteq> None" "m_earliestKeyTime m = 0"
  shows "\<exists>m'. peerRelayedBlock online_env 0 next_block m = Some m' \<and> last_block m' = last_block m"
proof -
  have "BRMerkleBlockTxHashesR b cap out 0 0 0 = Some (out, 0, 0)" if "flagsLen b = 0" for b cap out
    by (subst BRMerkleBlockTxHashesR.simps) (simp add: that)
  then have t: "block_tx_hashes next_block = Some []"
    by (simp add: block_tx_hashes_def BRMerkleBlockTxHashes_def Let_def next_block_def BRMerkleBlockNew_def)
  define blk where "blk = (case blocks m (prevBlock next_block) of None \<Rightarrow> next_block | Some b \<Rightarrow> next_block\<lparr>height := height b + 1\<rparr>)"
  have "totalTx blk = 0" "mb_timestamp blk = 0"
    by (simp_all add: blk_def next_block_def BRMerkleBlockNew_def split: option.splits)
  then have p: "observe_block online_env 0 blk [] m = Some m"
      "place_block online_env 0 blk (blocks m (prevBlock next_block)) [] m = Some (m, False, 0)"
    using assms(2) by (simp_all add: observe_block_def place_block_def WEEK_def)
  obtain ctx where c: "conns m 0 = Some ctx" using assms(1) by auto
  have "save_blocks [] = Some []" by (simp add: save_blocks_def)
  then have "relay_block online_env 0 next_block m = Some (m_log [] m, None)"
    unfolding relay_block_def t Let_def blk_def [symmetric] bind.bind_lunit p prod.case c by (simp add: c)
  then show ?thesis by (subst peerRelayedBlock.simps) (simp add: m_log_def last_block_def)
qed

theorem chain_height_monotone_witness:
  "\<exists>m m' lb lb'. manager_reachable False integer_secp (\<lambda>h. if h = 5 then 1 else 0) {#} m \<and>
    peerRelayedBlock online_env 0 next_block m = Some m' \<and> last_block m = Some lb \<and> last_block m' = Some lb' \<and>
    height lb \<le> height lb'"
proof -
  obtain w where w: "reachable False integer_secp w" using reachable_sample by blast
  let ?H = "\<lambda>h :: UInt256. if h = 5 then 1 else (0 :: nat)"
  let ?m = "set_fixed_peer 1 8555 (offline_manager w)"
  have e: "testnet online_env = False" "me_secp online_env = integer_secp"
    by (simp_all add: online_env_def offline_env_def quiet_env_def)
  have "manager_step False integer_secp ?H (offline_manager w) None ?m"
    by (rule step_fixed) (simp add: offline_eval)
  with offline_reachable [OF w] have "manager_reachable False integer_secp ?H ({#} + opt_mset None) ?m"
    by (rule manager_more) simp
  moreover obtain m where m: "BRPeerManagerConnect online_env ?m = Some m" "conns m 0 \<noteq> None"
      "last_block m = last_block (offline_manager w)" "m_earliestKeyTime m = 0" "downloadPeer m = None"
    using connect_sample by blast
  moreover have "manager_step False integer_secp ?H ?m None m" by (rule step_connect [OF e m(1)])
  ultimately have "manager_reachable False integer_secp ?H ({#} + opt_mset None + opt_mset None) m" by (blast intro: manager_more)
  then have r: "manager_reachable (testnet online_env) (me_secp online_env) ?H {#} m" by (simp add: e)
  have lb: "last_block m = Some (checkpoint_block \<lparr>cp_height = 0, cp_hash = 77, cp_timestamp = 0, cp_target = 0\<rparr>)"
    unfolding m(3) by (simp add: last_block_def offline_eval)
  moreover obtain m' where "peerRelayedBlock online_env 0 next_block m = Some m'" "last_block m' = last_block m"
    using relay_sample [OF m(2,4)] by blast
  moreover have "block_fits ?H next_block" by (simp add: block_fits_def next_block_def BRMerkleBlockNew_def)
  ultimately show ?thesis using chain_height_monotone [OF r] r unfolding e by metis
qed

section \<open>Saved blocks\<close>

lemma parent_height:
  assumes "table_ok H bs" "bs h = Some b" "bs (prevBlock b) = Some c"
  shows "unat (height b) = Suc (unat (height c))"
proof -
  note b = table_okD [OF assms(1,2)] and c = table_okD [OF assms(1,3)]
  have "prevBlock b \<noteq> 0" using c(1,2) by (auto simp: block_fits_def)
  then show ?thesis using b c by (simp add: block_fits_def)
qed

lemma save_list_heights:
  assumes "table_ok H bs" "bs h = Some b" "i < length (save_list bs n (Some b))"
  shows "unat (height (save_list bs n (Some b) ! i)) + i = unat (height b)"
  using assms(2,3)
proof (induction n arbitrary: h b i)
  case (Suc n)
  show ?case
  proof (cases i)
    case (Suc k)
    then obtain c where c: "bs (prevBlock b) = Some c" using Suc.prems by (cases n; cases "bs (prevBlock b)") auto
    then have "unat (height (save_list bs n (Some c) ! k)) + k = unat (height c)" using Suc.IH [OF c, of k] Suc.prems Suc by simp
    then show ?thesis using parent_height [OF assms(1) Suc.prems(1) c] c Suc by simp
  qed simp
qed simp

lemma save_list_length: "length (save_list bs n b) \<le> n"
  by (induction n arbitrary: b) (auto split: option.splits)

lemma save_list_hd: "save_list bs n (Some b) \<noteq> [] \<Longrightarrow> hd (save_list bs n (Some b)) = b"
  by (cases n) simp_all

text \<open>
  C15: the assertion on the blocks to be saved holds: those from any known block back are consecutive in
  height, and after the oldest were left out they end at a multiple of the difficulty interval.
\<close>

theorem saved_blocks_aligned:
  assumes "manager_reachable T S H C m" "blocks m h = Some b"
  shows "\<exists>saved. save_blocks (save_list (blocks m) n (Some b)) = Some saved \<and> length saved \<le> n \<and>
    (\<forall>i<length saved. unat (height (saved ! i)) + i = unat (height b)) \<and>
    (saved = [] \<or> hd saved = b \<and> height (last saved) mod BLOCK_DIFFICULTY_INTERVAL = 0)"
proof -
  define bs where "bs = save_list (blocks m) n (Some b)"
  have t: "table_ok H (blocks m)" by (rule heights_ok [OF manager_reachable_ok [OF assms(1)]])
  have f: "unat (height (bs ! i)) + i = unat (height b)" if "i < length bs" for i
    using save_list_heights [OF t assms(2)] that by (simp add: bs_def)
  have len: "length bs \<le> n" by (simp add: bs_def save_list_length)
  define j where "j = (if length bs > 0 then unat (height (bs ! (length bs - 1)) mod BLOCK_DIFFICULTY_INTERVAL) else 0)"
  define i where "i = (if j > 0 then length bs - (if length bs > 2016 - j then 2016 - j else length bs) else length bs)"
  have i: "i \<le> length bs" by (simp add: i_def)
  have al: "height (bs ! (i - 1)) mod BLOCK_DIFFICULTY_INTERVAL = 0" if "i > 0"
  proof -
    have l: "length bs > 0" using that i by linarith
    let ?l = "unat (height (bs ! (length bs - 1)))"
    have j: "j = ?l mod 2016" using l by (simp add: j_def BLOCK_DIFFICULTY_INTERVAL_def unat_mod)
    have e: "unat (height (bs ! (i - 1))) + (i - 1) = ?l + (length bs - 1)" using f [of "i - 1"] f [of "length bs - 1"] i l that by simp
    have "unat (height (bs ! (i - 1))) mod 2016 = 0"
    proof (cases "j > 0")
      case True
      then have "i = length bs - (2016 - j)" "length bs > 2016 - j" using that by (simp_all add: i_def split: if_splits)
      then have "unat (height (bs ! (i - 1))) = ?l + (2016 - j)" using e that by linarith
      then show ?thesis using j mod_add_left_eq [of ?l 2016 "2016 - j"] by simp
    qed (use e j in \<open>simp add: i_def\<close>)
    then show ?thesis by (simp add: BLOCK_DIFFICULTY_INTERVAL_def word_unat_eq_iff unat_mod)
  qed
  have "save_blocks bs = Some (take i bs)"
    unfolding save_blocks_def Let_def j_def [symmetric] i_def [symmetric] using al by auto
  moreover have "take i bs = [] \<or> hd (take i bs) = b \<and> height (last (take i bs)) mod BLOCK_DIFFICULTY_INTERVAL = 0"
  proof (cases "take i bs = []")
    case False
    then have "i > 0" "bs \<noteq> []" by auto
    moreover from this have "last (take i bs) = bs ! (i - 1)" using i by (simp add: last_conv_nth)
    ultimately show ?thesis using al save_list_hd [of "blocks m" n b] by (simp add: bs_def [symmetric] hd_take)
  qed simp
  ultimately show ?thesis using f i len by (intro exI [of _ "take i bs"]) (simp add: bs_def [symmetric])
qed

theorem saved_blocks_aligned_witness:
  "\<exists>m b saved. manager_reachable False integer_secp (\<lambda>_. 0) {#} m \<and> blocks m 77 = Some b \<and>
    save_blocks (save_list (blocks m) 5 (Some b)) = Some saved \<and> length saved \<le> 5 \<and>
    (saved = [] \<or> hd saved = b \<and> height (last saved) mod BLOCK_DIFFICULTY_INTERVAL = 0)"
proof -
  obtain w where w: "reachable False integer_secp w" using reachable_sample by blast
  then have r: "manager_reachable False integer_secp (\<lambda>_. 0) {#} (offline_manager w)" by (rule offline_reachable) simp
  obtain b where b: "blocks (offline_manager w) 77 = Some b" by (simp add: offline_eval)
  obtain saved where "save_blocks (save_list (blocks (offline_manager w)) 5 (Some b)) = Some saved" "length saved \<le> 5"
      "saved = [] \<or> hd saved = b \<and> height (last saved) mod BLOCK_DIFFICULTY_INTERVAL = 0"
    using saved_blocks_aligned [OF r b, of 5] by (elim exE conjE)
  then show ?thesis using r b by (intro exI conjI)
qed

section \<open>Block locators\<close>

text \<open>How far below the last block the locators are, and the step that leads to one.\<close>

definition locator_depth :: "nat \<Rightarrow> nat" where
  "locator_depth i = (if i < 8 then i else 7 + 2 ^ (i - 8))"

definition locator_step :: "nat \<Rightarrow> nat" where
  "locator_step i = (if i < 10 then 1 else 2 ^ (i - 9))"

lemma locator_step_Suc: "(if i + 1 \<ge> 10 then locator_step i * 2 else locator_step i) = locator_step (i + 1)"
proof -
  consider "i < 9" | "i = 9" | j where "i = j + 10" by atomize_elim presburger
  then show ?thesis by cases (simp_all add: locator_step_def)
qed

lemma locator_depth_Suc: "locator_depth (Suc i) = locator_depth i + locator_step (Suc i)"
proof -
  consider "i < 7" | "i = 7" | "i = 8" | j where "i = j + 9" by atomize_elim presburger
  then show ?thesis by cases (simp_all add: locator_depth_def locator_step_def)
qed

lemma locator_depth_mono: "locator_depth i \<le> locator_depth (i + k)"
  by (induction k) (simp_all add: locator_depth_Suc)

lemma walk_back_None [simp]: "walk_back bs n None = None"
  by (cases n) simp_all

lemma walk_back_add: "walk_back bs (m + n) x = walk_back bs n (walk_back bs m x)"
  by (induction m arbitrary: x) (auto split: option.splits)

lemma walk_back_height:
  assumes "table_ok H bs" "bs h = Some b" "walk_back bs n (Some b) = Some c"
  shows "(\<exists>h. bs h = Some c) \<and> unat (height c) + n = unat (height b)"
  using assms(2,3)
proof (induction n arbitrary: h b)
  case (Suc n)
  then obtain d where d: "bs (prevBlock b) = Some d" by (cases "bs (prevBlock b)") auto
  then have "(\<exists>h. bs h = Some c) \<and> unat (height c) + n = unat (height d)" using Suc.IH [OF d] Suc.prems by simp
  then show ?case using parent_height [OF assms(1) Suc.prems(1) d] by simp
qed auto

lemma locator_loop_spec:
  assumes "table_ok H bs" "bs h = Some b"
  shows "\<exists>hs. locator_loop bs (Some b) (locator_step i) i = Some hs \<and>
    (\<forall>k<length hs. \<exists>c. walk_back bs (locator_depth (i + k) - locator_depth i) (Some b) = Some c \<and>
       hs ! k = blockHash c \<and> height c > 0) \<and>
    (\<forall>c. walk_back bs (locator_depth (i + length hs) - locator_depth i) (Some b) = Some c \<longrightarrow> height c = 0)"
  using assms(2)
proof (induction "unat (height b)" arbitrary: h b i rule: less_induct)
  case less
  show ?case
  proof (cases "height b > 0")
    case True
    let ?s = "locator_step (Suc i)"
    have e: "locator_loop bs (Some b) (locator_step i) i =
        map_option ((#) (blockHash b)) (locator_loop bs (walk_back bs ?s (Some b)) ?s (Suc i))"
      using True locator_step_Suc [of i] by (subst locator_loop.simps) (simp add: Let_def bind_eq_Some_conv map_option_case split: option.splits)
    have s: "locator_depth (Suc i + k) - locator_depth i = ?s + (locator_depth (Suc i + k) - locator_depth (Suc i))" for k
      using locator_depth_mono [of "Suc i" k] by (simp add: locator_depth_Suc)
    show ?thesis
    proof (cases "walk_back bs ?s (Some b)")
      case None
      then have "locator_loop bs (Some b) (locator_step i) i = Some [blockHash b]" using e by (simp add: locator_loop.simps)
      then show ?thesis using True None s [of 0] by simp
    next
      case (Some c)
      then obtain h' where c: "bs h' = Some c" "unat (height c) + ?s = unat (height b)"
        using walk_back_height [OF assms(1) less.prems] by blast
      have "?s > 0" by (simp add: locator_step_def)
      then have "unat (height c) < unat (height b)" using c(2) by simp
      from less.hyps [OF this c(1), of "Suc i"] obtain hs where hs: "locator_loop bs (Some c) ?s (Suc i) = Some hs"
        "\<And>k. k < length hs \<Longrightarrow> \<exists>d. walk_back bs (locator_depth (Suc i + k) - locator_depth (Suc i)) (Some c) = Some d \<and>
           hs ! k = blockHash d \<and> height d > 0"
        "\<And>d. walk_back bs (locator_depth (Suc i + length hs) - locator_depth (Suc i)) (Some c) = Some d \<Longrightarrow> height d = 0"
        by blast
      have w: "walk_back bs (locator_depth (Suc i + k) - locator_depth i) (Some b) =
          walk_back bs (locator_depth (Suc i + k) - locator_depth (Suc i)) (Some c)" for k
        unfolding s by (simp add: walk_back_add Some)
      have "\<exists>d. walk_back bs (locator_depth (i + k) - locator_depth i) (Some b) = Some d \<and>
          (blockHash b # hs) ! k = blockHash d \<and> height d > 0" if "k < length (blockHash b # hs)" for k
        using that hs(2) w True by (cases k) auto
      moreover have "height d = 0" if "walk_back bs (locator_depth (i + length (blockHash b # hs)) - locator_depth i) (Some b) = Some d" for d
        using that hs(3) w [of "length hs"] by simp
      ultimately show ?thesis using e Some hs(1) by (intro exI [of _ "blockHash b # hs"]) simp
    qed
  next
    case False
    then show ?thesis by (intro exI [of _ "[]"]) (simp add: locator_loop.simps word_gt_0)
  qed
qed

text \<open>
  C14: the block locators are returned: the hashes of the last block and of the blocks 1 to 7, 8, 9, 11, 15, 23, 39
  below it, and so on with doubled steps as long as there are such blocks above height 0, and then the
  genesis block; in all at most 40, so that the array the caller allocates on the stack is small.
\<close>

theorem block_locators:
  assumes "manager_reachable T S H C m" "last_block m = Some lb" "me_checkpoints E = genesis # cps"
  shows "\<exists>hs. BRPeerManagerBlockLocators E m cap = Some (take cap (hs @ [cp_hash genesis]), length hs + 1) \<and> length hs < 40 \<and>
    (\<forall>k<length hs. \<exists>c. walk_back (blocks m) (locator_depth k) (Some lb) = Some c \<and> hs ! k = blockHash c \<and>
       unat (height c) + locator_depth k = unat (height lb)) \<and>
    (\<forall>c. walk_back (blocks m) (locator_depth (length hs)) (Some lb) = Some c \<longrightarrow> height c = 0)"
proof -
  have t: "table_ok H (blocks m)" by (rule heights_ok [OF manager_reachable_ok [OF assms(1)]])
  obtain h where h: "lastBlock m = Some h" "blocks m h = Some lb" using assms(2) by (auto simp: last_block_def bind_eq_Some_conv)
  have z: "locator_depth 0 = 0" "locator_step 0 = 1" by (simp_all add: locator_depth_def locator_step_def)
  obtain hs where hs: "locator_loop (blocks m) (Some lb) 1 0 = Some hs"
      "\<And>k. k < length hs \<Longrightarrow> \<exists>c. walk_back (blocks m) (locator_depth k) (Some lb) = Some c \<and> hs ! k = blockHash c"
      "\<forall>c. walk_back (blocks m) (locator_depth (length hs)) (Some lb) = Some c \<longrightarrow> height c = 0"
    using locator_loop_spec [OF t h(2), of 0] unfolding z add_0 diff_zero by blast
  have w: "\<exists>c. walk_back (blocks m) (locator_depth k) (Some lb) = Some c \<and> hs ! k = blockHash c \<and>
      unat (height c) + locator_depth k = unat (height lb)" if "k < length hs" for k
    using hs(2) [OF that] walk_back_height [OF t h(2)] by blast
  have "length hs < 40"
  proof (rule ccontr)
    assume "\<not> length hs < 40"
    then have "locator_depth 39 \<le> unat (height lb)" using w [of 39] by auto
    moreover have "unat (height lb) < 0x7fffffff" using table_okD [OF t h(2)] by (simp add: block_fits_def)
    ultimately show False by (simp add: locator_depth_def)
  qed
  moreover have "BRPeerManagerBlockLocators E m cap = Some (take cap (hs @ [cp_hash genesis]), length hs + 1)"
    using h hs(1) assms(3) by (simp add: BRPeerManagerBlockLocators_def)
  ultimately show ?thesis using w hs(3) by blast
qed

theorem block_locators_witness:
  "\<exists>m hs. manager_reachable False integer_secp (\<lambda>_. 0) {#} m \<and>
    BRPeerManagerBlockLocators offline_env m 3 = Some (take 3 (hs @ [77]), length hs + 1) \<and> length hs < 40"
proof -
  obtain w where w: "reachable False integer_secp w" using reachable_sample by blast
  then have r: "manager_reachable False integer_secp (\<lambda>_. 0) {#} (offline_manager w)" by (rule offline_reachable) simp
  obtain lb where "last_block (offline_manager w) = Some lb" by (simp add: last_block_def offline_eval)
  from block_locators [OF r this, of offline_env "\<lparr>cp_height = 0, cp_hash = 77, cp_timestamp = 0, cp_target = 0\<rparr>" "[]" 3]
  show ?thesis using r by (auto simp: offline_env_def)
qed

end
