(* ===== verification/BRAES256.thy ===== *)
theory BRAES256
  imports BRInt
begin

text \<open>
  The block cipher AES-256 of \<open>src/Modules/core/BRBIP38Key.c\<close>. A block is the list of its 16 bytes, in
  memory order (the columns of the state one after the other); the round key is kept as the list of
  the last 32 bytes of the key schedule, which the code expands in place while it encrypts and takes
  back while it decrypts. The tables are written in decimal.

  The lemmas show that the two routines are inverse to each other and that encryption is the cipher
  of FIPS 197, with its S-box, its key schedule of sixty words and its columns multiplied by a matrix
  over \<open>GF(2^8)\<close>.
\<close>

section \<open>The routines of the code\<close>

definition sbox :: bytes where
  "sbox = [
    99, 124, 119, 123, 242, 107, 111, 197, 48, 1, 103, 43, 254, 215, 171, 118,
    202, 130, 201, 125, 250, 89, 71, 240, 173, 212, 162, 175, 156, 164, 114, 192,
    183, 253, 147, 38, 54, 63, 247, 204, 52, 165, 229, 241, 113, 216, 49, 21,
    4, 199, 35, 195, 24, 150, 5, 154, 7, 18, 128, 226, 235, 39, 178, 117,
    9, 131, 44, 26, 27, 110, 90, 160, 82, 59, 214, 179, 41, 227, 47, 132,
    83, 209, 0, 237, 32, 252, 177, 91, 106, 203, 190, 57, 74, 76, 88, 207,
    208, 239, 170, 251, 67, 77, 51, 133, 69, 249, 2, 127, 80, 60, 159, 168,
    81, 163, 64, 143, 146, 157, 56, 245, 188, 182, 218, 33, 16, 255, 243, 210,
    205, 12, 19, 236, 95, 151, 68, 23, 196, 167, 126, 61, 100, 93, 25, 115,
    96, 129, 79, 220, 34, 42, 144, 136, 70, 238, 184, 20, 222, 94, 11, 219,
    224, 50, 58, 10, 73, 6, 36, 92, 194, 211, 172, 98, 145, 149, 228, 121,
    231, 200, 55, 109, 141, 213, 78, 169, 108, 86, 244, 234, 101, 122, 174, 8,
    186, 120, 37, 46, 28, 166, 180, 198, 232, 221, 116, 31, 75, 189, 139, 138,
    112, 62, 181, 102, 72, 3, 246, 14, 97, 53, 87, 185, 134, 193, 29, 158,
    225, 248, 152, 17, 105, 217, 142, 148, 155, 30, 135, 233, 206, 85, 40, 223,
    140, 161, 137, 13, 191, 230, 66, 104, 65, 153, 45, 15, 176, 84, 187, 22]"

definition sboxi :: bytes where
  "sboxi = [
    82, 9, 106, 213, 48, 54, 165, 56, 191, 64, 163, 158, 129, 243, 215, 251,
    124, 227, 57, 130, 155, 47, 255, 135, 52, 142, 67, 68, 196, 222, 233, 203,
    84, 123, 148, 50, 166, 194, 35, 61, 238, 76, 149, 11, 66, 250, 195, 78,
    8, 46, 161, 102, 40, 217, 36, 178, 118, 91, 162, 73, 109, 139, 209, 37,
    114, 248, 246, 100, 134, 104, 152, 22, 212, 164, 92, 204, 93, 101, 182, 146,
    108, 112, 72, 80, 253, 237, 185, 218, 94, 21, 70, 87, 167, 141, 157, 132,
    144, 216, 171, 0, 140, 188, 211, 10, 247, 228, 88, 5, 184, 179, 69, 6,
    208, 44, 30, 143, 202, 63, 15, 2, 193, 175, 189, 3, 1, 19, 138, 107,
    58, 145, 17, 65, 79, 103, 220, 234, 151, 242, 207, 206, 240, 180, 230, 115,
    150, 172, 116, 34, 231, 173, 53, 133, 226, 249, 55, 232, 28, 117, 223, 110,
    71, 241, 26, 113, 29, 41, 197, 137, 111, 183, 98, 14, 170, 24, 190, 27,
    252, 86, 62, 75, 198, 210, 121, 32, 154, 219, 192, 254, 120, 205, 90, 244,
    31, 221, 168, 51, 136, 7, 199, 49, 177, 18, 16, 89, 39, 128, 236, 95,
    96, 81, 127, 169, 25, 181, 74, 13, 45, 229, 122, 159, 147, 201, 156, 239,
    160, 224, 59, 77, 174, 42, 245, 176, 200, 235, 187, 60, 131, 83, 153, 97,
    23, 43, 4, 126, 186, 119, 214, 38, 225, 105, 20, 99, 85, 33, 12, 125]"

text \<open>
  The macro \<open>xt\<close>, at the width it is used with. C computes it on promoted integers and stores the low
  byte: \<open>xt_promoted\<close> below shows that this is the same.
\<close>

definition xt :: "'a::len word \<Rightarrow> 'a word" where
  "xt x = push_bit 1 x XOR ((drop_bit 7 x AND 1) * 27)"

text \<open>\<open>x[j] ^= a, x[j+1] ^= b, x[j+2] ^= c, x[j+3] ^= d\<close>, with operands that the stores leave alone.\<close>

definition xor4 :: "nat \<Rightarrow> u8 \<Rightarrow> u8 \<Rightarrow> u8 \<Rightarrow> u8 \<Rightarrow> bytes \<Rightarrow> bytes" where
  "xor4 j a b c d x = x[j := x ! j XOR a, j + 1 := x ! (j + 1) XOR b,
     j + 2 := x ! (j + 2) XOR c, j + 3 := x ! (j + 3) XOR d]"

definition add_round_key :: "nat \<Rightarrow> bytes \<Rightarrow> bytes \<Rightarrow> bytes" where
  "add_round_key i k x = map2 (XOR) x (take 16 (drop (16 * (i mod 2)) k))"

definition sub_bytes :: "bytes \<Rightarrow> bytes" where
  "sub_bytes x = map (\<lambda>b. sbox ! unat b) x"

definition unsub_bytes :: "bytes \<Rightarrow> bytes" where
  "unsub_bytes x = map (\<lambda>b. sboxi ! unat b) x"

definition shift_rows :: "bytes \<Rightarrow> bytes" where
  "shift_rows x = (let
     a = x ! 1; x = x[1 := x ! 5]; x = x[5 := x ! 9]; x = x[9 := x ! 13]; x = x[13 := a];
     a = x ! 10; x = x[10 := x ! 2]; x = x[2 := a];
     a = x ! 3; x = x[3 := x ! 15]; x = x[15 := x ! 11]; x = x[11 := x ! 7]; x = x[7 := a];
     a = x ! 14; x = x[14 := x ! 6] in x[6 := a])"

definition unshift_rows :: "bytes \<Rightarrow> bytes" where
  "unshift_rows x = (let
     a = x ! 1; x = x[1 := x ! 13]; x = x[13 := x ! 9]; x = x[9 := x ! 5]; x = x[5 := a];
     a = x ! 2; x = x[2 := x ! 10]; x = x[10 := a];
     a = x ! 3; x = x[3 := x ! 7]; x = x[7 := x ! 11]; x = x[11 := x ! 15]; x = x[15 := a];
     a = x ! 6; x = x[6 := x ! 14] in x[14 := a])"

definition mix_column :: "bytes \<Rightarrow> nat \<Rightarrow> bytes" where
  "mix_column x j = (let a = x ! j; b = x ! (j + 1); c = x ! (j + 2); d = x ! (j + 3);
     e = a XOR b XOR c XOR d
   in xor4 j (e XOR xt (a XOR b)) (e XOR xt (b XOR c)) (e XOR xt (c XOR d)) (e XOR xt (d XOR a)) x)"

definition unmix_column :: "bytes \<Rightarrow> nat \<Rightarrow> bytes" where
  "unmix_column x j = (let a = x ! j; b = x ! (j + 1); c = x ! (j + 2); d = x ! (j + 3);
     e = a XOR b XOR c XOR d; h = xt e;
     f = e XOR xt (xt (h XOR a XOR c)); g = e XOR xt (xt (h XOR b XOR d))
   in xor4 j (f XOR xt (a XOR b)) (g XOR xt (b XOR c)) (f XOR xt (c XOR d)) (g XOR xt (d XOR a)) x)"

definition mix_columns :: "bytes \<Rightarrow> bytes" where
  "mix_columns x = foldl mix_column x [0, 4, 8, 12]"

definition unmix_columns :: "bytes \<Rightarrow> bytes" where
  "unmix_columns x = foldl unmix_column x [0, 4, 8, 12]"

text \<open>The key schedule: a word of the key combined with the one before it, or with its substitution.\<close>

definition chain_word :: "bytes \<Rightarrow> nat \<Rightarrow> bytes" where
  "chain_word k j = xor4 j (k ! (j - 4)) (k ! (j - 3)) (k ! (j - 2)) (k ! (j - 1)) k"

definition first_word :: "u8 \<Rightarrow> bytes \<Rightarrow> bytes" where
  "first_word r k = xor4 0 (sbox ! unat (k ! 29) XOR r) (sbox ! unat (k ! 30)) (sbox ! unat (k ! 31))
     (sbox ! unat (k ! 28)) k"

definition middle_word :: "bytes \<Rightarrow> bytes" where
  "middle_word k = xor4 16 (sbox ! unat (k ! 12)) (sbox ! unat (k ! 13)) (sbox ! unat (k ! 14))
     (sbox ! unat (k ! 15)) k"

definition expand_key :: "bytes \<times> u8 \<Rightarrow> bytes \<times> u8" where
  "expand_key = (\<lambda>(k, r).
     (foldl chain_word (middle_word (foldl chain_word (first_word r k) [4, 8, 12])) [20, 24, 28], xt r))"

definition unexpand_key :: "bytes \<times> u8 \<Rightarrow> bytes \<times> u8" where
  "unexpand_key = (\<lambda>(k, r). let
     k = foldl chain_word (middle_word (foldl chain_word k [28, 24, 20])) [12, 8, 4];
     r = drop_bit 1 r XOR ((r AND 1) * 141)
   in (first_word r k, r))"

definition encrypt_round :: "bytes \<times> bytes \<times> u8 \<Rightarrow> nat \<Rightarrow> bytes \<times> bytes \<times> u8" where
  "encrypt_round = (\<lambda>(x, k, r) i. let
     x = shift_rows (sub_bytes (add_round_key i k x));
     x = (if i < 13 then mix_columns x else x)
   in (x, if i mod 2 \<noteq> 0 then expand_key (k, r) else (k, r)))"

definition BRAES256ECBEncrypt :: "bytes \<Rightarrow> bytes \<Rightarrow> bytes" where
  "BRAES256ECBEncrypt key32 buf16 =
     (case foldl encrypt_round (buf16, key32, 1) [0..<14] of (x, k, r) \<Rightarrow> add_round_key 0 k x)"

definition decrypt_round :: "bytes \<times> bytes \<times> u8 \<Rightarrow> nat \<Rightarrow> bytes \<times> bytes \<times> u8" where
  "decrypt_round = (\<lambda>(x, k, r) i. let
     x = add_round_key i k x;
     x = (if i > 0 then unmix_columns x else x);
     x = unsub_bytes (unshift_rows x)
   in (x, if i mod 2 = 0 then unexpand_key (k, r) else (k, r)))"

definition BRAES256ECBDecrypt :: "bytes \<Rightarrow> bytes \<Rightarrow> bytes" where
  "BRAES256ECBDecrypt key32 buf16 =
     (case foldl decrypt_round (buf16, (expand_key ^^ 7) (key32, 1)) [0..<14] of
        (x, k, r) \<Rightarrow> add_round_key 0 k x)"

section \<open>Arithmetic on bytes\<close>

lemma bit_xt: "bit (xt x) n \<longleftrightarrow> (0 < n \<and> n < LENGTH('a) \<and> bit x (n - 1)) \<noteq> (bit x 7 \<and> bit (27 :: 'a word) n)"
  for x :: "'a::len word"
proof -
  have "drop_bit 7 x AND 1 = (if bit x 7 then 1 else 0)"
    by (auto intro!: bit_word_eqI simp: bit_simps)
  then show ?thesis
    unfolding xt_def bit_xor_iff bit_push_bit_iff by (auto dest: bit_imp_le_length simp: Suc_le_eq)
qed

lemma xt_promoted: "(ucast (xt (w :: u32)) :: u8) = xt (ucast w)"
  by (rule bit_word_eqI) (auto simp: bit_xt bit_ucast_iff bit_numeral_iff less_Suc_eq numeral_eq_Suc)

lemma xt_xor: "xt (a XOR b) = xt a XOR xt b"
  by (rule bit_word_eqI) (auto simp: bit_xt bit_xor_iff)

lemma xt_0 [simp]: "xt 0 = 0"
  by (simp add: xt_def)

lemma xt_inverse: "drop_bit 1 (xt r) XOR ((xt r AND 1) * 141) = (r :: u8)"
proof -
  have "xt r AND 1 = (if bit r 7 then 1 else 0)"
    by (rule bit_word_eqI) (auto simp: bit_xt bit_simps)
  then show ?thesis
    by (intro bit_word_eqI) (auto simp: bit_xt bit_simps less_Suc_eq numeral_eq_Suc)
qed

lemmas xor_ac = xor.assoc xor.commute xor.left_commute

lemma xor_cancel [simp]: "a XOR (a XOR b) = (b :: 'a::len word)"
  by (simp add: xor.assoc [symmetric])

lemma length_tables [simp]: "length sbox = 256" "length sboxi = 256"
  by (simp_all add: sbox_def sboxi_def)

lemma sbox_inverse: "sboxi ! unat (sbox ! unat b) = b"
proof -
  have "map (\<lambda>c. sboxi ! unat c) sbox = map word_of_nat [0..<256]" by code_simp
  then have "map (\<lambda>c. sboxi ! unat c) sbox ! unat b = map word_of_nat [0..<256] ! unat b" by simp
  then show ?thesis using unat_byte [of b] by simp
qed

section \<open>Decryption inverts encryption\<close>

lemma length_xor4 [simp]: "length (xor4 j a b c d x) = length x"
  by (simp add: xor4_def)

lemma nth_xor4:
  assumes "j + 3 < length x"
  shows "xor4 j a b c d x ! i = x ! i XOR (if i = j then a else if i = j + 1 then b
    else if i = j + 2 then c else if i = j + 3 then d else 0)"
  using assms by (auto simp: xor4_def nth_list_update)

text \<open>Every step of the key schedule takes itself back.\<close>

lemma length_steps [simp]:
  "length (chain_word k j) = length k" "length (first_word r k) = length k" "length (middle_word k) = length k"
  by (simp_all add: chain_word_def first_word_def middle_word_def)

lemma nth_chain_word:
  assumes "4 \<le> j" "j + 3 < length k"
  shows "chain_word k j ! i = k ! i XOR (if j \<le> i \<and> i < j + 4 then k ! (i - 4) else 0)"
proof -
  consider "i = j" | "i = j + 1" | "i = j + 2" | "i = j + 3" | "i < j" | "j + 3 < i" by linarith
  then show ?thesis using assms(1) by cases (simp_all add: chain_word_def nth_xor4 [OF assms(2)])
qed

lemma chain_word_twice: "4 \<le> j \<Longrightarrow> j + 3 < length k \<Longrightarrow> chain_word (chain_word k j) j = k"
  by (intro nth_equalityI) (auto simp: nth_chain_word xor.assoc)

lemma first_word_twice: "length k = 32 \<Longrightarrow> first_word r (first_word r k) = k"
  by (intro nth_equalityI) (auto simp: first_word_def nth_xor4 xor.assoc)

lemma middle_word_twice: "length k = 32 \<Longrightarrow> middle_word (middle_word k) = k"
  by (intro nth_equalityI) (auto simp: middle_word_def nth_xor4 xor.assoc)

lemma unexpand_expand: "length k = 32 \<Longrightarrow> unexpand_key (expand_key (k, r)) = (k, r)"
  by (simp add: unexpand_key_def expand_key_def chain_word_twice middle_word_twice first_word_twice
      xt_inverse Let_def del: One_nat_def)

lemma length_expand: "length (fst (expand_key (k, r))) = length k"
  by (simp add: expand_key_def)

lemma length_schedule: "length (fst ((expand_key ^^ n) (k, r))) = length k"
proof (induction n)
  case (Suc n)
  then show ?case
    using length_expand [of "fst ((expand_key ^^ n) (k, r))" "snd ((expand_key ^^ n) (k, r))"] by simp
qed simp

text \<open>The rows and the columns of a block.\<close>

lemma block_cases:
  assumes "length x = 16"
  obtains a b c d e f g h i j k l m n p q where "x = [a, b, c, d, e, f, g, h, i, j, k, l, m, n, p, q]"
proof -
  have "[0..<16] = [0, 1, 2, 3, 4, 5, 6, 7, 8, 9, 10, 11, 12, 13, 14, 15]" by (simp add: upt_rec)
  then have "x = map ((!) x) [0, 1, 2, 3, 4, 5, 6, 7, 8, 9, 10, 11, 12, 13, 14, 15]"
    using map_nth [of x] assms by (simp del: list.map)
  from this [unfolded list.map] show thesis by (rule that)
qed

definition mixed :: "u8 \<Rightarrow> u8 \<Rightarrow> u8 \<Rightarrow> u8 \<Rightarrow> bytes" where
  "mixed a b c d = (let e = a XOR b XOR c XOR d in
     [a XOR (e XOR xt (a XOR b)), b XOR (e XOR xt (b XOR c)), c XOR (e XOR xt (c XOR d)), d XOR (e XOR xt (d XOR a))])"

lemma shift_rows_eq: "shift_rows [a, b, c, d, e, f, g, h, i, j, k, l, m, n, p, q] =
    [a, f, k, q, e, j, p, d, i, n, c, h, m, b, g, l]"
  by (simp add: shift_rows_def Let_def)

lemma mix_columns_eq: "mix_columns [a, b, c, d, e, f, g, h, i, j, k, l, m, n, p, q] =
    mixed a b c d @ mixed e f g h @ mixed i j k l @ mixed m n p q"
  by (simp add: mix_columns_def mix_column_def xor4_def mixed_def Let_def)

lemma unshift_shift: "length x = 16 \<Longrightarrow> unshift_rows (shift_rows x) = x"
  by (erule block_cases) (simp add: shift_rows_eq unshift_rows_def Let_def)

lemma unmix_columns_eq: "unmix_columns [a, b, c, d, e, f, g, h, i, j, k, l, m, n, p, q] =
    unmix_column [a, b, c, d] 0 @ unmix_column [e, f, g, h] 0 @ unmix_column [i, j, k, l] 0 @ unmix_column [m, n, p, q] 0"
  by (simp add: unmix_columns_def unmix_column_def xor4_def Let_def)

lemma unmix_mixed: "unmix_column (mixed a b c d) 0 = [a, b, c, d]"
  by (simp add: unmix_column_def mixed_def xor4_def Let_def xt_xor xor_ac)

lemma unmix_mix: "length x = 16 \<Longrightarrow> unmix_columns (mix_columns x) = x"
proof (erule block_cases)
  fix a b c d e f g h i j k l m n p q
  obtain a1 b1 c1 d1 where 1: "mixed a b c d = [a1, b1, c1, d1]" by (simp add: mixed_def Let_def)
  obtain a2 b2 c2 d2 where 2: "mixed e f g h = [a2, b2, c2, d2]" by (simp add: mixed_def Let_def)
  obtain a3 b3 c3 d3 where 3: "mixed i j k l = [a3, b3, c3, d3]" by (simp add: mixed_def Let_def)
  obtain a4 b4 c4 d4 where 4: "mixed m n p q = [a4, b4, c4, d4]" by (simp add: mixed_def Let_def)
  assume "x = [a, b, c, d, e, f, g, h, i, j, k, l, m, n, p, q]"
  then show ?thesis
    using unmix_mixed [of a b c d] unmix_mixed [of e f g h] unmix_mixed [of i j k l] unmix_mixed [of m n p q]
    by (simp add: mix_columns_eq 1 2 3 4 unmix_columns_eq)
qed

lemma unsub_sub: "unsub_bytes (sub_bytes x) = x"
  by (simp add: unsub_bytes_def sub_bytes_def comp_def sbox_inverse)

lemma length_block_steps [simp]: "length (sub_bytes x) = length x" "length (shift_rows x) = length x"
    "length (mix_columns x) = length x"
  by (simp_all only: sub_bytes_def shift_rows_def mix_columns_def mix_column_def Let_def length_map
      length_list_update length_xor4 foldl.simps)

lemma length_add_round_key [simp]:
  "length x = 16 \<Longrightarrow> length k = 32 \<Longrightarrow> length (add_round_key i k x) = 16"
  by (cases "i mod 2 = 0") (simp_all add: add_round_key_def)

lemma map2_xor_twice: "length x \<le> length k \<Longrightarrow> map2 (XOR) (map2 (XOR) x k) k = (x :: bytes)"
  by (intro nth_equalityI) (simp_all add: xor.assoc)

lemma add_round_key_twice:
  "length x = 16 \<Longrightarrow> length k = 32 \<Longrightarrow> add_round_key i k (add_round_key i k x) = x"
  by (cases "i mod 2 = 0") (simp_all add: add_round_key_def map2_xor_twice)

text \<open>The state before round \<open>n\<close>.\<close>

definition key_at :: "bytes \<Rightarrow> nat \<Rightarrow> bytes \<times> u8" where
  "key_at key n = (expand_key ^^ (n div 2)) (key, 1)"

primrec state_at :: "bytes \<Rightarrow> bytes \<Rightarrow> nat \<Rightarrow> bytes" where
  "state_at key x 0 = x"
| "state_at key x (Suc n) = (let y = shift_rows (sub_bytes (add_round_key n (fst (key_at key n)) (state_at key x n)))
     in if n < 13 then mix_columns y else y)"

lemma key_at_Suc: "key_at key (Suc n) = (if n mod 2 \<noteq> 0 then expand_key (key_at key n) else key_at key n)"
proof (cases "n mod 2 = 0")
  case False
  then have "Suc n div 2 = Suc (n div 2)" by presburger
  then show ?thesis using False by (simp add: key_at_def)
next
  case True
  then have "Suc n div 2 = n div 2" by presburger
  then show ?thesis using True by (simp add: key_at_def)
qed

lemma encrypt_rounds: "foldl encrypt_round (x, key, 1) [0..<n] = (state_at key x n, key_at key n)"
  by (induction n) (auto simp: encrypt_round_def key_at_Suc Let_def key_at_def [of _ 0] split: prod.splits)

lemma encrypt_state: "BRAES256ECBEncrypt key x = add_round_key 14 (fst (key_at key 14)) (state_at key x 14)"
  by (simp add: BRAES256ECBEncrypt_def encrypt_rounds add_round_key_def split: prod.splits)

lemma length_key_at [simp]: "length (fst (key_at key n)) = length key"
  by (simp add: key_at_def length_schedule)

lemma length_state_at [simp]: "length key = 32 \<Longrightarrow> length x = 16 \<Longrightarrow> length (state_at key x n) = 16"
  by (induction n) (simp_all add: Let_def)

lemma unexpand_key_at: "length key = 32 \<Longrightarrow> n mod 2 \<noteq> 0 \<Longrightarrow> unexpand_key (key_at key (Suc n)) = key_at key n"
  using unexpand_expand [of "fst (key_at key n)" "snd (key_at key n)"] by (simp add: key_at_Suc)

lemma add_round_key_mod: "i mod 2 = j mod 2 \<Longrightarrow> add_round_key i k x = add_round_key j k x"
  by (simp add: add_round_key_def)

lemma decrypt_round_state:
  assumes "length key = 32" "length x = 16" "Suc m + i = 14"
  shows "decrypt_round (add_round_key (Suc m) (fst (key_at key (Suc m))) (state_at key x (Suc m)), key_at key (Suc m)) i =
    (add_round_key m (fst (key_at key m)) (state_at key x m), key_at key m)"
proof -
  let ?y = "sub_bytes (add_round_key m (fst (key_at key m)) (state_at key x m))"
  obtain k r where kr: "key_at key (Suc m) = (k, r)" by fastforce
  have k: "length k = 32" using length_key_at [of key "Suc m"] assms(1) kr by simp
  have "i mod 2 = Suc m mod 2" using assms(3) by presburger
  then have "add_round_key i k (add_round_key (Suc m) k (state_at key x (Suc m))) = state_at key x (Suc m)"
    using add_round_key_twice [of "state_at key x (Suc m)" k "Suc m"] k assms(1,2)
    by (simp add: add_round_key_mod [of i "Suc m"] del: state_at.simps)
  moreover have "unshift_rows (if i > 0 then unmix_columns (state_at key x (Suc m)) else state_at key x (Suc m)) = ?y"
    using assms by (auto simp: Let_def unmix_mix unshift_shift)
  moreover have "(if i mod 2 = 0 then unexpand_key (k, r) else (k, r)) = key_at key m"
  proof (cases "i mod 2 = 0")
    case True
    then have "m mod 2 \<noteq> 0" using assms(3) by presburger
    then show ?thesis using unexpand_key_at [OF assms(1), of m] True kr by simp
  next
    case False
    then have "m mod 2 = 0" using assms(3) by presburger
    then show ?thesis using key_at_Suc [of key m] False kr by simp
  qed
  ultimately show ?thesis
    by (simp add: decrypt_round_def kr Let_def unsub_sub del: state_at.simps cong: if_cong)
qed

lemma decrypt_encrypt:
  assumes "length key = 32" "length x = 16"
  shows "BRAES256ECBDecrypt key (BRAES256ECBEncrypt key x) = x"
proof -
  have "n \<le> 14 \<Longrightarrow> foldl decrypt_round (BRAES256ECBEncrypt key x, key_at key 14) [0..<n] =
      (add_round_key (14 - n) (fst (key_at key (14 - n))) (state_at key x (14 - n)), key_at key (14 - n))" for n
  proof (induction n)
    case (Suc n)
    then have "Suc (13 - n) = 14 - n" "14 - Suc n = 13 - n" by simp_all
    with Suc decrypt_round_state [OF assms, of "13 - n" n] show ?case by simp
  qed (simp add: encrypt_state)
  from this [of 14] have "BRAES256ECBDecrypt key (BRAES256ECBEncrypt key x) =
      add_round_key 0 key (add_round_key 0 key x)"
    by (simp add: BRAES256ECBDecrypt_def key_at_def)
  then show ?thesis using assms by (simp add: add_round_key_twice)
qed

lemma length_encrypt: "length key = 32 \<Longrightarrow> length x = 16 \<Longrightarrow> length (BRAES256ECBEncrypt key x) = 16"
  by (simp add: encrypt_state del: state_at.simps)

section \<open>The cipher of FIPS 197\<close>

text \<open>The field \<open>GF(2^8)\<close>: multiplication by Horner's rule, the inverse as the power 254.\<close>

definition gf_mul :: "u8 \<Rightarrow> u8 \<Rightarrow> u8" where
  "gf_mul a b = foldr (\<lambda>i p. xt p XOR (if bit b i then a else 0)) [0..<8] 0"

definition gf_inv :: "u8 \<Rightarrow> u8" where
  "gf_inv b = snd (foldl (\<lambda>(s, p) i. let s = gf_mul s s in (s, gf_mul p s)) (b, 1) [1 :: nat..<8])"

definition affine :: "u8 \<Rightarrow> u8" where
  "affine b = foldl (\<lambda>s i. s XOR (push_bit i b OR drop_bit (8 - i) b)) 99 [0, 1, 2, 3, 4]"

definition SubByte :: "u8 \<Rightarrow> u8" where
  "SubByte b = affine (gf_inv b)"

definition ShiftRows :: "bytes \<Rightarrow> bytes" where
  "ShiftRows s = map (\<lambda>i. s ! (i mod 4 + 4 * ((i div 4 + i mod 4) mod 4))) [0..<16]"

definition MixColumns :: "bytes \<Rightarrow> bytes" where
  "MixColumns s = map (\<lambda>i. let v = (\<lambda>k. s ! (4 * (i div 4) + (i mod 4 + k) mod 4))
     in gf_mul (v 0) 2 XOR gf_mul (v 1) 3 XOR v 2 XOR v 3) [0..<16]"

fun key_word :: "bytes \<Rightarrow> nat \<Rightarrow> bytes" where
  "key_word key i =
     (if i < 8 then take 4 (drop (4 * i) key)
      else map2 (XOR) (key_word key (i - 8))
        (if i mod 8 = 0 then map2 (XOR) (map SubByte (rotate1 (key_word key (i - 1)))) [(xt ^^ (i div 8 - 1)) 1, 0, 0, 0]
         else if i mod 8 = 4 then map SubByte (key_word key (i - 1))
         else key_word key (i - 1)))"

declare key_word.simps [simp del]

definition AddRoundKey :: "bytes \<Rightarrow> nat \<Rightarrow> bytes \<Rightarrow> bytes" where
  "AddRoundKey key n s = map2 (XOR) s (concat (map (key_word key) [4 * n..<4 * n + 4]))"

definition Cipher :: "bytes \<Rightarrow> bytes \<Rightarrow> bytes" where
  "Cipher key s = AddRoundKey key 14 (ShiftRows (map SubByte
     (foldl (\<lambda>s n. AddRoundKey key n (MixColumns (ShiftRows (map SubByte s)))) (AddRoundKey key 0 s) [1..<14])))"

text \<open>The S-box: every byte but 0 is a power of 3, and the multiplication adds the exponents.\<close>

definition times3 :: "u8 \<Rightarrow> u8" where
  "times3 x = xt x XOR x"

lemma upt_8: "[0..<8] = [0, 1, 2, 3, 4, 5, 6, 7]" "[1..<8] = [1, 2, 3, 4, 5, 6, 7]"
  by (simp_all add: upt_rec)

lemma gf_mul_1: "gf_mul 1 b = b"
proof -
  have "n \<le> 8 \<Longrightarrow> foldr (\<lambda>i p. xt p XOR (if bit b i then 1 else 0)) [n..<8] 0 = drop_bit n b" for n
  proof (induction rule: inc_induct)
    case base
    show ?case by (rule bit_word_eqI) (simp add: bit_drop_bit_eq bit_imp_le_length)
  next
    case (step n)
    have "xt (drop_bit (Suc n) b) XOR (if bit b n then 1 else 0) = drop_bit n b"
    proof (rule bit_word_eqI)
      fix m assume "m < LENGTH(8)"
      have "\<not> bit b (8 + n)" by (auto dest: bit_imp_le_length)
      then show "bit (xt (drop_bit (Suc n) b) XOR (if bit b n then 1 else 0)) m = bit (drop_bit n b) m"
        using \<open>m < LENGTH(8)\<close> by (cases m) (auto simp: bit_xt bit_xor_iff bit_drop_bit_eq bit_1_iff)
    qed
    then show ?case using step by (simp add: upt_conv_Cons)
  qed
  from this [of 0] show ?thesis by (simp add: gf_mul_def)
qed

lemma gf_mul_0 [simp]: "gf_mul 0 b = 0"
  by (simp add: gf_mul_def upt_8)

lemma gf_mul_xor: "gf_mul (a XOR c) b = gf_mul a b XOR gf_mul c b"
proof -
  have "foldr (\<lambda>i p. xt p XOR (if bit b i then a XOR c else 0)) is 0 =
    foldr (\<lambda>i p. xt p XOR (if bit b i then a else 0)) is 0 XOR
    foldr (\<lambda>i p. xt p XOR (if bit b i then c else 0)) is 0" for "is" :: "nat list"
    by (induction "is") (simp_all add: xt_xor xor_ac)
  then show ?thesis by (simp add: gf_mul_def)
qed

lemma gf_mul_xt: "gf_mul (xt a) b = xt (gf_mul a b)"
proof -
  have "foldr (\<lambda>i p. xt p XOR (if bit b i then xt a else 0)) is 0 =
    xt (foldr (\<lambda>i p. xt p XOR (if bit b i then a else 0)) is 0)" for "is" :: "nat list"
    by (induction "is") (simp_all add: xt_xor)
  then show ?thesis by (simp add: gf_mul_def)
qed

lemma gf_mul_power: "gf_mul ((times3 ^^ i) 1) ((times3 ^^ j) 1) = (times3 ^^ (i + j)) 1"
proof -
  have "gf_mul (times3 a) b = times3 (gf_mul a b)" for a b
    by (simp add: times3_def gf_mul_xor gf_mul_xt)
  then have "gf_mul ((times3 ^^ i) 1) b = (times3 ^^ i) b" for b
    by (induction i) (simp_all add: gf_mul_1)
  then show ?thesis by (simp add: funpow_add)
qed

lemma gf_inv_power: "gf_inv ((times3 ^^ i) 1) = (times3 ^^ (254 * i)) 1"
proof -
  have "\<exists>q. q + 2 * i = 2 * 2 ^ n * i \<and>
      foldl (\<lambda>(s, p) j. let s = gf_mul s s in (s, gf_mul p s)) ((times3 ^^ i) 1, 1) [1 :: nat..<Suc n] =
        ((times3 ^^ (2 ^ n * i)) 1, (times3 ^^ q) 1)" for n
  proof (induction n)
    case 0
    show ?case by (intro exI [of _ 0]) simp
  next
    case (Suc n)
    then obtain q where "q + 2 * i = 2 * 2 ^ n * i"
      "foldl (\<lambda>(s, p) j. let s = gf_mul s s in (s, gf_mul p s)) ((times3 ^^ i) 1, 1) [1..<Suc n] =
        ((times3 ^^ (2 ^ n * i)) 1, (times3 ^^ q) 1)" by blast
    then show ?case
      by (intro exI [of _ "q + 2 * 2 ^ n * i"]) (simp add: Let_def gf_mul_power mult_2 [symmetric] mult_ac)
  qed
  from this [of 7] obtain q where "q + 2 * i = 256 * i"
    "foldl (\<lambda>(s, p) j. let s = gf_mul s s in (s, gf_mul p s)) ((times3 ^^ i) 1, 1) [1 :: nat..<8] =
      ((times3 ^^ (128 * i)) 1, (times3 ^^ q) 1)" by auto
  then show ?thesis by (simp add: gf_inv_def)
qed

text \<open>The powers of 3 in order, and the exponents of the bytes from 1.\<close>

definition powers :: bytes where
  "powers = [
    1, 3, 5, 15, 17, 51, 85, 255, 26, 46, 114, 150, 161, 248, 19, 53,
    95, 225, 56, 72, 216, 115, 149, 164, 247, 2, 6, 10, 30, 34, 102, 170,
    229, 52, 92, 228, 55, 89, 235, 38, 106, 190, 217, 112, 144, 171, 230, 49,
    83, 245, 4, 12, 20, 60, 68, 204, 79, 209, 104, 184, 211, 110, 178, 205,
    76, 212, 103, 169, 224, 59, 77, 215, 98, 166, 241, 8, 24, 40, 120, 136,
    131, 158, 185, 208, 107, 189, 220, 127, 129, 152, 179, 206, 73, 219, 118, 154,
    181, 196, 87, 249, 16, 48, 80, 240, 11, 29, 39, 105, 187, 214, 97, 163,
    254, 25, 43, 125, 135, 146, 173, 236, 47, 113, 147, 174, 233, 32, 96, 160,
    251, 22, 58, 78, 210, 109, 183, 194, 93, 231, 50, 86, 250, 21, 63, 65,
    195, 94, 226, 61, 71, 201, 64, 192, 91, 237, 44, 116, 156, 191, 218, 117,
    159, 186, 213, 100, 172, 239, 42, 126, 130, 157, 188, 223, 122, 142, 137, 128,
    155, 182, 193, 88, 232, 35, 101, 175, 234, 37, 111, 177, 200, 67, 197, 84,
    252, 31, 33, 99, 165, 244, 7, 9, 27, 45, 119, 153, 176, 203, 70, 202,
    69, 207, 74, 222, 121, 139, 134, 145, 168, 227, 62, 66, 198, 81, 243, 14,
    18, 54, 90, 238, 41, 123, 141, 140, 143, 138, 133, 148, 167, 242, 13, 23,
    57, 75, 221, 124, 132, 151, 162, 253, 28, 36, 108, 180, 199, 82, 246]"

definition exponents :: "nat list" where
  "exponents = [
    0, 25, 1, 50, 2, 26, 198, 75, 199, 27, 104, 51, 238, 223, 3, 100,
    4, 224, 14, 52, 141, 129, 239, 76, 113, 8, 200, 248, 105, 28, 193, 125,
    194, 29, 181, 249, 185, 39, 106, 77, 228, 166, 114, 154, 201, 9, 120, 101,
    47, 138, 5, 33, 15, 225, 36, 18, 240, 130, 69, 53, 147, 218, 142, 150,
    143, 219, 189, 54, 208, 206, 148, 19, 92, 210, 241, 64, 70, 131, 56, 102,
    221, 253, 48, 191, 6, 139, 98, 179, 37, 226, 152, 34, 136, 145, 16, 126,
    110, 72, 195, 163, 182, 30, 66, 58, 107, 40, 84, 250, 133, 61, 186, 43,
    121, 10, 21, 155, 159, 94, 202, 78, 212, 172, 229, 243, 115, 167, 87, 175,
    88, 168, 80, 244, 234, 214, 116, 79, 174, 233, 213, 231, 230, 173, 232, 44,
    215, 117, 122, 235, 22, 11, 245, 89, 203, 95, 176, 156, 169, 81, 160, 127,
    12, 246, 111, 23, 196, 73, 236, 216, 67, 31, 45, 164, 118, 123, 183, 204,
    187, 62, 90, 251, 96, 177, 134, 59, 82, 161, 108, 170, 85, 41, 157, 151,
    178, 135, 144, 97, 190, 220, 252, 188, 149, 207, 205, 55, 63, 91, 209, 83,
    57, 132, 60, 65, 162, 109, 71, 20, 42, 158, 93, 86, 242, 211, 171, 68,
    17, 146, 217, 35, 32, 46, 137, 180, 124, 184, 38, 119, 153, 227, 165, 103,
    74, 237, 222, 197, 49, 254, 24, 13, 99, 140, 128, 192, 247, 112, 7]"

lemma powers_step: "map times3 powers = tl powers @ [1]"
  by (simp add: powers_def times3_def xt_def)

lemma length_powers [simp]: "length powers = 255"
  by (simp add: powers_def)

lemma nth_powers: "i < 255 \<Longrightarrow> powers ! i = (times3 ^^ i) 1"
proof (induction i)
  case (Suc i)
  have "map times3 powers ! i = (tl powers @ [1]) ! i" by (simp add: powers_step)
  then show ?case using Suc by (simp add: nth_append nth_tl)
qed (simp add: powers_def)

lemma times3_order: "(times3 ^^ 255) 1 = 1"
proof -
  have "map times3 powers ! 254 = (tl powers @ [1]) ! 254" by (simp add: powers_step)
  then show ?thesis using nth_powers [of 254] by (simp add: nth_append numeral_eq_Suc)
qed

lemma powers_exponents: "map (\<lambda>i. powers ! i) exponents = map word_of_nat [1..<256]"
  by code_simp

lemma sbox_powers: "map (\<lambda>b. sbox ! unat b) powers = map affine (1 # rev (tl powers))"
proof -
  have "map (\<lambda>b. sbox ! unat b) powers = [
    124, 123, 107, 118, 130, 195, 252, 22, 162, 49, 64, 144, 50, 65, 125, 150,
    207, 248, 7, 82, 97, 143, 42, 73, 104, 119, 111, 103, 114, 147, 51, 172,
    217, 24, 74, 105, 154, 203, 233, 247, 2, 174, 53, 81, 96, 98, 142, 199,
    237, 230, 242, 254, 250, 235, 27, 75, 132, 62, 69, 108, 102, 159, 55, 189,
    41, 72, 133, 211, 225, 226, 227, 14, 170, 36, 161, 48, 173, 52, 188, 196,
    236, 11, 86, 112, 127, 122, 134, 210, 12, 70, 109, 139, 59, 185, 56, 184,
    213, 28, 91, 153, 202, 4, 83, 140, 43, 164, 204, 249, 234, 246, 239, 10,
    187, 212, 241, 255, 23, 79, 149, 206, 21, 163, 220, 228, 30, 183, 208, 224,
    15, 71, 128, 47, 181, 60, 169, 37, 76, 148, 35, 177, 45, 89, 117, 131,
    46, 88, 152, 39, 160, 221, 9, 186, 57, 85, 113, 146, 222, 8, 87, 157,
    219, 244, 3, 67, 145, 223, 229, 243, 19, 94, 101, 158, 218, 25, 167, 205,
    20, 78, 120, 106, 155, 38, 77, 121, 135, 63, 168, 200, 232, 26, 166, 32,
    176, 192, 253, 251, 6, 191, 197, 1, 175, 216, 245, 238, 231, 31, 90, 116,
    110, 138, 214, 29, 182, 61, 68, 129, 194, 17, 178, 44, 180, 209, 13, 171,
    201, 5, 190, 40, 165, 33, 93, 100, 115, 126, 151, 34, 92, 137, 215, 240,
    18, 179, 193, 16, 95, 136, 58, 84, 156, 54, 80, 141, 198, 0, 66]" by code_simp
  also have "\<dots> = map affine (1 # rev (tl powers))" by (simp add: powers_def affine_def)
  finally show ?thesis .
qed

lemma SubByte_eq: "sbox ! unat b = SubByte b"
proof (cases "b = 0")
  case True
  have "gf_inv 0 = 0" by (simp add: gf_inv_def upt_8 Let_def gf_mul_1 del: One_nat_def)
  then show ?thesis using True by (simp add: SubByte_def affine_def sbox_def)
next
  case False
  have "1 \<le> unat b" using False by (simp add: unat_gt_0 Suc_le_eq)
  then have n: "unat b - 1 < 255" using unat_byte [of b] by linarith
  have "length exponents = 255" "list_all (\<lambda>i. i < 255) exponents" by (simp_all add: exponents_def)
  then have "exponents ! (unat b - 1) < 255" using n by (simp add: list_all_length)
  moreover have "powers ! (exponents ! (unat b - 1)) = b"
    using arg_cong [OF powers_exponents, of "\<lambda>xs. xs ! (unat b - 1)"] n \<open>length exponents = 255\<close> \<open>1 \<le> unat b\<close> by simp
  ultimately obtain i where i: "i < 255" "b = powers ! i" by metis
  have "sbox ! unat (powers ! i) = map (\<lambda>b. sbox ! unat b) powers ! i" using i by simp
  also have "\<dots> = affine ((1 # rev (tl powers)) ! i)" unfolding sbox_powers using i by (subst nth_map) simp_all
  also have "(1 # rev (tl powers)) ! i = (times3 ^^ (254 * i)) 1"
  proof (cases i)
    case (Suc j)
    then have "(1 # rev (tl powers)) ! i = (times3 ^^ (255 - i)) 1"
      using i nth_powers [of "255 - i"] Suc_diff_Suc [of j 254] by (simp add: rev_nth nth_tl)
    moreover have "254 * i = (255 - i) + 255 * (i - 1)" using Suc i by (simp add: diff_mult_distrib2)
    moreover have "(times3 ^^ (255 * k)) 1 = 1" for k
      by (induction k) (simp_all add: funpow_add times3_order)
    ultimately show ?thesis by (metis funpow_add comp_apply)
  qed simp
  also have "\<dots> = gf_inv (powers ! i)" using i(1) by (simp add: nth_powers gf_inv_power)
  finally show ?thesis unfolding i(2) SubByte_def .
qed

lemma upt_16: "[0..<16] = [0, 1, 2, 3, 4, 5, 6, 7, 8, 9, 10, 11, 12, 13, 14, 15]"
  by (simp add: upt_rec)

lemma ShiftRows_eq: "length x = 16 \<Longrightarrow> shift_rows x = ShiftRows x"
  by (erule block_cases) (simp add: shift_rows_eq ShiftRows_def upt_16)

lemma gf_mul_2_3: "gf_mul a 2 = xt a" "gf_mul a 3 = xt a XOR a"
  by (simp_all add: gf_mul_def upt_8)

lemma mixed_eq: "mixed a b c d =
    [gf_mul a 2 XOR gf_mul b 3 XOR c XOR d, gf_mul b 2 XOR gf_mul c 3 XOR d XOR a,
     gf_mul c 2 XOR gf_mul d 3 XOR a XOR b, gf_mul d 2 XOR gf_mul a 3 XOR b XOR c]"
  by (simp add: mixed_def Let_def gf_mul_2_3 xt_xor xor_ac)

lemma MixColumns_eq: "length x = 16 \<Longrightarrow> mix_columns x = MixColumns x"
  by (erule block_cases) (simp add: mix_columns_eq MixColumns_def upt_16 mixed_eq)

text \<open>The key schedule, word by word.\<close>

definition word_at :: "bytes \<Rightarrow> nat \<Rightarrow> bytes" where
  "word_at k j = [k ! (4 * j), k ! (4 * j + 1), k ! (4 * j + 2), k ! (4 * j + 3)]"

lemma word_at_xor4:
  assumes "4 * j + 3 < length k"
  shows "word_at (xor4 (4 * j) a b c d k) i = (if i = j then map2 (XOR) (word_at k j) [a, b, c, d] else word_at k i)"
proof -
  have "4 * i + r = 4 * j + s \<longleftrightarrow> i = j \<and> r = s" if "r < 4" "s < 4" for r s
    using that by presburger
  note eq = this [of 0 0, simplified] this [of 0] this [of _ 0] this
  show ?thesis by (simp add: word_at_def nth_xor4 [OF assms] eq)
qed

lemma word_at_chain:
  assumes "1 \<le> j" "4 * j + 3 < length k"
  shows "word_at (chain_word k (4 * j)) i = (if i = j then map2 (XOR) (word_at k j) (word_at k (j - 1)) else word_at k i)"
proof -
  have "word_at k (j - 1) = [k ! (4 * j - 4), k ! (4 * j - 3), k ! (4 * j - 2), k ! (4 * j - 1)]"
    using assms(1) by (cases j) (simp_all add: word_at_def numeral_eq_Suc)
  then show ?thesis by (simp add: chain_word_def word_at_xor4 [OF assms(2)])
qed

lemma word_at_first:
  assumes "length k = 32"
  shows "word_at (first_word r k) i = (if i = 0 then map2 (XOR) (word_at k 0)
    (map2 (XOR) (map SubByte (rotate1 (word_at k 7))) [r, 0, 0, 0]) else word_at k i)"
  using assms word_at_xor4 [of 0 k] by (simp add: first_word_def SubByte_eq word_at_def [of k 7])

lemma word_at_middle:
  assumes "length k = 32"
  shows "word_at (middle_word k) i =
    (if i = 4 then map2 (XOR) (word_at k 4) (map SubByte (word_at k 3)) else word_at k i)"
  using assms word_at_xor4 [of 4 k] by (simp add: middle_word_def SubByte_eq word_at_def [of k 3])

lemma expand_words:
  fixes r :: u8
  assumes "length k = 32"
  defines "k' \<equiv> fst (expand_key (k, r))"
  shows "word_at k' 0 = map2 (XOR) (word_at k 0) (map2 (XOR) (map SubByte (rotate1 (word_at k 7))) [r, 0, 0, 0])"
    and "word_at k' 4 = map2 (XOR) (word_at k 4) (map SubByte (word_at k' 3))"
    and "j \<in> {1, 2, 3, 5, 6, 7} \<Longrightarrow> word_at k' j = map2 (XOR) (word_at k j) (word_at k' (j - 1))"
proof -
  note chain = word_at_chain [of 1, simplified] word_at_chain [of 2, simplified] word_at_chain [of 3, simplified]
    word_at_chain [of 5, simplified] word_at_chain [of 6, simplified] word_at_chain [of 7, simplified]
  note words = chain word_at_first word_at_middle k'_def expand_key_def assms(1)
  show "word_at k' 0 = map2 (XOR) (word_at k 0) (map2 (XOR) (map SubByte (rotate1 (word_at k 7))) [r, 0, 0, 0])"
    by (simp add: words)
  show "word_at k' 4 = map2 (XOR) (word_at k 4) (map SubByte (word_at k' 3))"
    by (simp add: words)
  show "word_at k' j = map2 (XOR) (word_at k j) (word_at k' (j - 1))" if "j \<in> {1, 2, 3, 5, 6, 7}"
    using that by (auto simp: words)
qed

lemma key_word_step:
  "key_word key (8 * Suc m) = map2 (XOR) (key_word key (8 * m))
     (map2 (XOR) (map SubByte (rotate1 (key_word key (8 * m + 7)))) [(xt ^^ m) 1, 0, 0, 0])"
  "key_word key (8 * Suc m + 4) = map2 (XOR) (key_word key (8 * m + 4)) (map SubByte (key_word key (8 * Suc m + 3)))"
  "j \<in> {1, 2, 3, 5, 6, 7} \<Longrightarrow>
     key_word key (8 * Suc m + j) = map2 (XOR) (key_word key (8 * m + j)) (key_word key (8 * Suc m + (j - 1)))"
proof -
  have "8 * Suc m - 8 = 8 * m" "8 * Suc m - 1 = 8 * m + 7" "8 * Suc m div 8 - 1 = m" "8 * Suc m mod 8 = 0" by simp_all
  then show "key_word key (8 * Suc m) = map2 (XOR) (key_word key (8 * m))
     (map2 (XOR) (map SubByte (rotate1 (key_word key (8 * m + 7)))) [(xt ^^ m) 1, 0, 0, 0])"
    by (subst key_word.simps) (simp del: mult_Suc_right)
  have "8 * Suc m + 4 - 8 = 8 * m + 4" "8 * Suc m + 4 - 1 = 8 * Suc m + 3" "\<not> 8 * Suc m + 4 < 8"
    "(8 * Suc m + 4) mod 8 \<noteq> 0" "(8 * Suc m + 4) mod 8 = 4"
    by simp_all
  then show "key_word key (8 * Suc m + 4) = map2 (XOR) (key_word key (8 * m + 4)) (map SubByte (key_word key (8 * Suc m + 3)))"
    by (subst key_word.simps) (simp only: if_False if_True refl)
  assume j: "j \<in> {1, 2, 3, 5, 6, 7}"
  then have "8 * Suc m + j - 8 = 8 * m + j" "8 * Suc m + j - 1 = 8 * Suc m + (j - 1)" "\<not> 8 * Suc m + j < 8" by auto
  moreover have "(8 * Suc m + j) mod 8 = j" using j by auto
  moreover have "j \<noteq> 0" "j \<noteq> 4" using j by auto
  ultimately show "key_word key (8 * Suc m + j) = map2 (XOR) (key_word key (8 * m + j)) (key_word key (8 * Suc m + (j - 1)))"
    by (subst key_word.simps) (simp only: if_False)
qed

lemma schedule_words:
  assumes "length key = 32"
  shows "(\<forall>j<8. word_at (fst ((expand_key ^^ m) (key, 1))) j = key_word key (8 * m + j)) \<and>
    snd ((expand_key ^^ m) (key, 1)) = (xt ^^ m) 1"
proof (induction m)
  case 0
  have "word_at key j = take 4 (drop (4 * j) key)" if "j < 8" for j
    using that assms by (intro nth_equalityI) (auto simp: word_at_def less_Suc_eq numeral_eq_Suc)
  then show ?case by (simp add: key_word.simps)
next
  case (Suc m)
  obtain k r where kr: "(expand_key ^^ m) (key, 1) = (k, r)" by fastforce
  then have k: "length k = 32" using length_schedule [of m key 1] assms by simp
  have old: "word_at k j = key_word key (8 * m + j)" if "j < 8" for j using Suc kr that by simp
  have r: "r = (xt ^^ m) 1" using Suc kr by simp
  let ?k = "fst (expand_key (k, r))"
  have "word_at ?k j = key_word key (8 * Suc m + j)" if "j < 8" for j
    using that
  proof (induction j)
    case 0
    show ?case using expand_words(1) [OF k, of r] old [of 0] old [of 7] key_word_step(1) [of key m] r by simp
  next
    case (Suc j)
    then have IH: "word_at ?k j = key_word key (8 * Suc m + j)" by simp
    show ?case
    proof (cases "Suc j = 4")
      case True
      then have "j = 3" by simp
      then show ?thesis using expand_words(2) [OF k, of r] old [of 4] IH key_word_step(2) [of key m] by simp
    next
      case False
      then have "Suc j \<in> {1, 2, 3, 5, 6, 7}" using Suc.prems by auto
      then show ?thesis
        using expand_words(3) [OF k, of "Suc j" r] old [of "Suc j"] IH Suc.prems key_word_step(3) [of "Suc j" key m]
        by (simp only: diff_Suc_1)
    qed
  qed
  then show ?case using kr r by (simp add: expand_key_def)
qed

lemma round_key_words:
  assumes "length k = 32" "p < 2"
  shows "take 16 (drop (16 * p) k) = concat (map (\<lambda>i. word_at k (4 * p + i)) [0, 1, 2, 3])"
  using assms by (intro nth_equalityI) (auto simp: word_at_def less_Suc_eq numeral_eq_Suc)

lemma AddRoundKey_eq:
  assumes "length key = 32"
  shows "add_round_key n (fst (key_at key n)) x = AddRoundKey key n x"
proof -
  let ?k = "fst (key_at key n)"
  have n: "8 * (n div 2) + (4 * (n mod 2) + i) = 4 * n + i" for i by presburger
  have words: "word_at ?k (4 * (n mod 2) + i) = key_word key (4 * n + i)" if "i < 4" for i
  proof -
    have "4 * (n mod 2) + i < 8" using that by linarith
    then have "word_at ?k (4 * (n mod 2) + i) = key_word key (8 * (n div 2) + (4 * (n mod 2) + i))"
      using schedule_words [OF assms, of "n div 2"] by (simp add: key_at_def)
    then show ?thesis unfolding n .
  qed
  have "[4 * n..<4 * n + 4] = [4 * n, 4 * n + 1, 4 * n + 2, 4 * n + 3]"
    by (simp add: upt_rec)
  then show ?thesis
    using round_key_words [of ?k "n mod 2"] assms words [of 0] words [of 1] words [of 2] words [of 3]
    by (simp add: add_round_key_def AddRoundKey_def)
qed

lemma cipher_rounds:
  assumes "length key = 32" "length x = 16" "n \<le> 13"
  shows "foldl (\<lambda>s n. AddRoundKey key n (MixColumns (ShiftRows (map SubByte s)))) (AddRoundKey key 0 x) [1..<Suc n] =
    AddRoundKey key n (state_at key x n)"
  using assms(3)
proof (induction n)
  case (Suc n)
  have "sub_bytes y = map SubByte y" for y by (simp add: sub_bytes_def SubByte_eq)
  moreover have "length (AddRoundKey key n (state_at key x n)) = 16"
    using assms(1,2) by (simp add: AddRoundKey_eq [symmetric])
  ultimately show ?case
    using Suc assms(1,2) by (simp add: Let_def AddRoundKey_eq ShiftRows_eq [symmetric] MixColumns_eq [symmetric])
qed simp

lemma cipher_eq:
  assumes "length key = 32" "length x = 16"
  shows "BRAES256ECBEncrypt key x = Cipher key x"
proof -
  have "length (AddRoundKey key 13 (state_at key x 13)) = 16"
    using assms by (simp add: AddRoundKey_eq [symmetric] del: state_at.simps)
  moreover have "state_at key x 14 = shift_rows (map SubByte (AddRoundKey key 13 (state_at key x 13)))"
    using state_at.simps(2) [of key x 13] assms
    by (simp add: AddRoundKey_eq sub_bytes_def SubByte_eq Let_def del: state_at.simps)
  ultimately show ?thesis
    using cipher_rounds [OF assms, of 13] assms
    by (simp add: Cipher_def encrypt_state AddRoundKey_eq ShiftRows_eq del: state_at.simps)
qed

section \<open>Properties\<close>

text \<open>
  C30: \<open>_BRAES256ECBEncrypt\<close>, which keeps a window of 32 bytes of the key schedule, replaces the S-box by
  a table and mixes a column with three products by 2, is the cipher of FIPS 197 for every key and
  block, and \<open>_BRAES256ECBDecrypt\<close> with the same key takes it back.\<close>

theorem aes256_correct:
  assumes "length key32 = 32" "length buf16 = 16"
  shows "BRAES256ECBEncrypt key32 buf16 = Cipher key32 buf16 \<and>
    BRAES256ECBDecrypt key32 (BRAES256ECBEncrypt key32 buf16) = buf16"
  using assms cipher_eq decrypt_encrypt by blast

theorem aes256_correct_witness:
  "BRAES256ECBDecrypt (map of_nat [0..<32]) (Cipher (map of_nat [0..<32]) (map of_nat [0..<16])) = map of_nat [0..<16]"
  using aes256_correct [of "map of_nat [0..<32]" "map of_nat [0..<16]"]
  by (metis diff_zero length_map length_upt)

end
