(* ===== verification/BRBIP38Key.thy ===== *)
theory BRBIP38Key
  imports BRAES256 BRCipher BRKey
begin

text \<open>
  \<open>src/Modules/core/BRBIP38Key.c\<close>: private keys encrypted with a passphrase. A value of 128 or 512
  bits that the code only copies, combines by exclusive or and encrypts is the list of its bytes; the
  passphrase is the list of its characters. The network and the functions of the curve library are
  parameters, as in \<open>BRKey\<close>.

  An outer \<open>None\<close> is an execution that reads a variable that was never assigned: the address buffer
  of \<open>BRKeyBIP38Key\<close> when the key has no address, the secret of \<open>BRKeySetBIP38Key\<close> after an unknown
  prefix, the point of an EC key when its factor is no secret key. The lemmas lead to the round trip
  of the two operations that are implemented; the three that make intermediate codes do nothing.
\<close>

definition BIP38_NOEC_PREFIX :: u16 where "BIP38_NOEC_PREFIX = 0x0142"
definition BIP38_EC_PREFIX :: u16 where "BIP38_EC_PREFIX = 0x0143"
definition BIP38_NOEC_FLAG :: u8 where "BIP38_NOEC_FLAG = 0x80 OR 0x40"
definition BIP38_COMPRESSED_FLAG :: u8 where "BIP38_COMPRESSED_FLAG = 0x20"
definition BIP38_LOTSEQUENCE_FLAG :: u8 where "BIP38_LOTSEQUENCE_FLAG = 0x04"
definition BIP38_INVALID_FLAG :: u8 where "BIP38_INVALID_FLAG = 0x10 OR 0x08 OR 0x02 OR 0x01"

definition xor_bytes :: "bytes \<Rightarrow> bytes \<Rightarrow> bytes" where
  "xor_bytes a b = map2 (XOR) a b"

definition BRBIP38DerivePassfactor :: "u8 \<Rightarrow> bytes \<Rightarrow> bytes \<Rightarrow> UInt256" where
  "BRBIP38DerivePassfactor flag entropy passphrase = (let
     prefactor = BRScrypt 32 passphrase
       (take (if flag AND BIP38_LOTSEQUENCE_FLAG \<noteq> 0 then 4 else 8) entropy) 16384 8 8
   in if flag AND BIP38_LOTSEQUENCE_FLAG \<noteq> 0
      then UInt256Get (BRSHA256_2 (prefactor @ take 8 entropy))
      else UInt256Get prefactor)"

definition BRBIP38DeriveKey :: "bytes \<Rightarrow> bytes \<Rightarrow> bytes \<Rightarrow> bytes" where
  "BRBIP38DeriveKey passpoint addresshash entropy =
     BRScrypt 64 passpoint (take 4 addresshash @ take 8 entropy) 1024 1 1"

definition BRBIP38KeyIsValid :: "bytes \<Rightarrow> bool" where
  "BRBIP38KeyIsValid bip38Key =
     (case BRBase58CheckDecode bip38Key (Some (replicate 39 0)) of (data, len) \<Rightarrow>
        if len \<noteq> 39 then False
        else let prefix = UInt16GetBE (the data); flag = the data ! 2 in
          if prefix = BIP38_NOEC_PREFIX
          then flag AND BIP38_NOEC_FLAG = BIP38_NOEC_FLAG \<and> flag AND BIP38_LOTSEQUENCE_FLAG = 0 \<and>
            flag AND BIP38_INVALID_FLAG = 0
          else if prefix = BIP38_EC_PREFIX
          then flag AND BIP38_NOEC_FLAG = 0 \<and> flag AND BIP38_INVALID_FLAG = 0
          else False)"

text \<open>The secret of a key that is not EC multiplied, from its 39 bytes.\<close>

definition noec_secret :: "bytes \<Rightarrow> bytes \<Rightarrow> UInt256" where
  "noec_secret data passphrase = (let
     encrypted1 = take 16 (drop 7 data); encrypted2 = take 16 (drop 23 data);
     derived = BRScrypt 64 passphrase (take 4 (drop 3 data)) 16384 8 8;
     derived1 = take 32 derived; derived2 = drop 32 derived;
     encrypted1 = BRAES256ECBDecrypt derived2 encrypted1;
     secret01 = xor_bytes encrypted1 (take 16 derived1);
     encrypted2 = BRAES256ECBDecrypt derived2 encrypted2;
     secret23 = xor_bytes encrypted2 (drop 16 derived1)
   in UInt256Get (secret01 @ secret23))"

text \<open>The secret of an EC multiplied key; the pieces of eight bytes are the members \<open>u64\<close>.\<close>

definition ec_secret :: "('k, 's, 'r) secp \<Rightarrow> bytes \<Rightarrow> bytes \<Rightarrow> UInt256 option" where
  "ec_secret S data passphrase = (let
     flag = data ! 2; addresshash = drop 3 data; entropy = drop 7 data;
     encrypted2 = take 16 (drop 23 data);
     passfactor = BRBIP38DerivePassfactor flag entropy passphrase
   in do {
     passpoint \<leftarrow> BRSecp256k1PointGen S passfactor;
     let derived = BRBIP38DeriveKey passpoint addresshash entropy;
     let derived1 = take 32 derived;
     let derived2 = drop 32 derived;
     let encrypted1 = take 8 (drop 15 data);
     let encrypted2 = BRAES256ECBDecrypt derived2 encrypted2;
     let encrypted1 = encrypted1 @ xor_bytes (take 8 encrypted2) (take 8 (drop 16 derived1));
     let seedb2 = xor_bytes (drop 8 encrypted2) (drop 24 derived1);
     let encrypted1 = BRAES256ECBDecrypt derived2 encrypted1;
     let seedb01 = xor_bytes encrypted1 (take 16 derived1);
     let factorb = UInt256Get (BRSHA256_2 (seedb01 @ seedb2));
     Some (fst (BRSecp256k1ModMul S passfactor factorb)) })"

text \<open>The new key, \<open>None\<close> when none is assigned, and the result.\<close>

definition BRKeySetBIP38Key ::
    "bool \<Rightarrow> ('k, 's, 'r) secp \<Rightarrow> bytes \<Rightarrow> bytes \<Rightarrow> (BRKey option \<times> bool) option" where
  "BRKeySetBIP38Key testnet S bip38Key passphrase =
     (case BRBase58CheckDecode bip38Key (Some (replicate 39 0)) of (data, len) \<Rightarrow>
        if len \<noteq> 39 then Some (None, False)
        else let data = the data; prefix = UInt16GetBE data; flag = data ! 2; addresshash = drop 3 data in do {
          secret \<leftarrow> (if prefix = BIP38_NOEC_PREFIX then Some (noec_secret data passphrase)
                    else if prefix = BIP38_EC_PREFIX then ec_secret S data passphrase
                    else None);
          let (key, _) = BRKeySetSecret S secret (flag AND BIP38_COMPRESSED_FLAG \<noteq> 0);
          let (key, address, _) = BRKeyAddress testnet S key (Some (replicate 36 0));
          let hash = BRSHA256_2 (cstr (the address));
          Some (Some key, \<not> (the address ! 0 = 0 \<or> take 4 hash \<noteq> take 4 addresshash)) })"

definition BRKeyBIP38ItermediateCode :: "buffer \<Rightarrow> u64 \<Rightarrow> bytes \<Rightarrow> buffer \<times> nat" where
  "BRKeyBIP38ItermediateCode code salt passphrase = (code, 0)"

definition BRKeyBIP38ItermediateCodeLS :: "buffer \<Rightarrow> u32 \<Rightarrow> u16 \<Rightarrow> u32 \<Rightarrow> bytes \<Rightarrow> buffer \<times> nat" where
  "BRKeyBIP38ItermediateCodeLS code lot seq salt passphrase = (code, 0)"

definition BRKeySetBIP38ItermediateCode :: "BRKey \<Rightarrow> bytes \<Rightarrow> bytes \<Rightarrow> bool \<Rightarrow> BRKey" where
  "BRKeySetBIP38ItermediateCode key code seedb compr = key"

text \<open>
  The local address starts with arbitrary contents; the zeros are not read when the address is written.
\<close>

definition BRKeyBIP38Key ::
    "bool \<Rightarrow> ('k, 's, 'r) secp \<Rightarrow> BRKey \<Rightarrow> buffer \<Rightarrow> bytes \<Rightarrow> (BRKey \<times> buffer \<times> nat) option" where
  "BRKeyBIP38Key testnet S key bip38Key passphrase = (case bip38Key of
     None \<Rightarrow> Some (key, None, 43 * 138 div 100 + 2)
   | Some _ \<Rightarrow>
       let flag = BIP38_NOEC_FLAG;
           flag = (if compressed key then flag OR BIP38_COMPRESSED_FLAG else flag);
           (key, address, n) = BRKeyAddress testnet S key (Some (replicate 36 0))
       in if n = 0 then None
          else let
            hash = BRSHA256_2 (cstr (the address)); salt = take 4 hash;
            derived = BRScrypt 64 passphrase salt 16384 8 8;
            derived1 = take 32 derived; derived2 = drop 32 derived;
            encrypted1 = xor_bytes (take 16 (UInt256Set (secret key))) (take 16 derived1);
            encrypted1 = BRAES256ECBEncrypt derived2 encrypted1;
            encrypted2 = xor_bytes (drop 16 (UInt256Set (secret key))) (drop 16 derived1);
            encrypted2 = BRAES256ECBEncrypt derived2 encrypted2;
            buf = UInt16SetBE BIP38_NOEC_PREFIX @ [flag] @ UInt32SetBE (UInt32GetBE salt) @ encrypted1 @ encrypted2
          in case BRBase58CheckEncode buf bip38Key of (str, len) \<Rightarrow> Some (key, str, len))"

section \<open>The round trip\<close>

lemma length_scrypt [simp]: "length (BRScrypt dkLen pw salt n r p) = dkLen"
  by (simp add: BRScrypt_def Let_def length_pbkdf2)

lemma xor_bytes_twice: "length a \<le> length b \<Longrightarrow> xor_bytes (xor_bytes a b) b = a"
  by (simp add: xor_bytes_def map2_xor_twice)

lemma length_xor_bytes [simp]: "length (xor_bytes a b) = min (length a) (length b)"
  by (simp add: xor_bytes_def)

lemma length_bip38_aes [simp]: "length key = 32 \<Longrightarrow> length x = 16 \<Longrightarrow> length (BRAES256ECBEncrypt key x) = 16"
  by (rule length_encrypt)

text \<open>The size that \<open>BRKeyBIP38Key\<close> gives for a null buffer is large enough.\<close>

lemma length_base58_text: "length (base58_text data) \<le> length data * 138 div 100 + 1"
proof -
  let ?z = "length (takeWhile (\<lambda>d. d = 0) data)"
  have "length (foldl (\<lambda>buf d. fst (encode_carry buf (ucast d))) buf ds) = length buf" for buf and ds :: bytes
  proof (induction ds arbitrary: buf)
    case (Cons d ds)
    have "length (fst (encode_carry b c)) = length b" for b c
      by (induction b) (auto simp: Let_def split: prod.splits)
    then show ?case using Cons by simp
  qed simp
  then have digits: "length (encode_digits d) = length d * 138 div 100 + 1" for d
    by (simp add: encode_digits_def)
  have "length (base58_text data) \<le> ?z + length (encode_digits (dropWhile (\<lambda>d. d = 0) data))"
    by (simp add: base58_text_def length_dropWhile_le)
  moreover have "?z + length (dropWhile (\<lambda>d. d = 0) data) = length data"
    by (metis length_append takeWhile_dropWhile_id)
  ultimately show ?thesis unfolding digits by linarith
qed

lemma salt_bytes: "length b = 4 \<Longrightarrow> UInt32SetBE (UInt32GetBE b) = b"
  by (simp add: byte_order)

lemma noec_secret_encrypted:
  fixes passphrase :: bytes
  assumes "length pre = 3" "length salt = 4"
  defines "derived \<equiv> BRScrypt 64 passphrase salt 16384 8 8"
  shows "noec_secret (pre @ salt @
      BRAES256ECBEncrypt (drop 32 derived) (xor_bytes (take 16 (UInt256Set sec)) (take 16 (take 32 derived))) @
      BRAES256ECBEncrypt (drop 32 derived) (xor_bytes (drop 16 (UInt256Set sec)) (drop 16 (take 32 derived))))
    passphrase = sec"
proof -
  let ?e1 = "BRAES256ECBEncrypt (drop 32 derived) (xor_bytes (take 16 (UInt256Set sec)) (take 16 (take 32 derived)))"
  let ?e2 = "BRAES256ECBEncrypt (drop 32 derived) (xor_bytes (drop 16 (UInt256Set sec)) (drop 16 (take 32 derived)))"
  let ?data = "pre @ salt @ ?e1 @ ?e2"
  have len: "length derived = 64" "length ?e1 = 16" "length ?e2 = 16" by (simp_all add: derived_def)
  have "take 4 (drop 3 ?data) = salt" "take 16 (drop 7 ?data) = ?e1" "take 16 (drop 23 ?data) = ?e2"
    using assms(1,2) len(2,3) by simp_all
  moreover have "BRAES256ECBDecrypt (drop 32 derived) ?e1 = xor_bytes (take 16 (UInt256Set sec)) (take 16 (take 32 derived))"
    "BRAES256ECBDecrypt (drop 32 derived) ?e2 = xor_bytes (drop 16 (UInt256Set sec)) (drop 16 (take 32 derived))"
    using len(1) by (simp_all add: decrypt_encrypt)
  ultimately show ?thesis
    using len(1) by (simp add: noec_secret_def derived_def [symmetric] xor_bytes_twice Let_def)
qed

lemma address_keeps_key:
  assumes "BRKeyAddress testnet S key addr = (key', addr', n)"
  shows "secret key' = secret key" "compressed key' = compressed key"
  using assms by (auto simp: BRKeyAddress_def BRKeyHash160_def BRKeyPubKey_def Let_def split: prod.splits if_splits option.splits)

lemma address_written:
  assumes "BRKeyAddress testnet S key (Some b) = (key', addr, n)" "n \<noteq> 0"
  shows "the addr ! 0 \<noteq> 0"
proof -
  obtain d where d: "BRBase58CheckEncode d (Some b) = (addr, n)"
    using assms by (auto simp: BRKeyAddress_def split: prod.splits if_splits)
  obtain a where a: "addr = Some a"
    using d by (auto simp: BRBase58CheckEncode_def BRBase58Encode_def Let_def split: if_splits)
  have "cstr a = check_text d" using check_encode_text(1) d assms(2) a by blast
  then have "cstr a \<noteq> []" using check_text_longer [of d] by auto
  then show ?thesis using a by (cases a) (auto simp: cstr_def split: if_splits)
qed

lemma address_unwritten:
  assumes "BRKeyAddress testnet S key (Some b) = (key', addr, 0)"
  shows "addr = Some b"
proof -
  have "addr = Some b" if "BRBase58CheckEncode d (Some b) = (addr, 0)" for d
    using that by (auto simp: BRBase58CheckEncode_def BRBase58Encode_def Let_def split: if_splits)
  then show ?thesis using assms by (auto simp: BRKeyAddress_def split: prod.splits if_splits)
qed

lemma encrypted_key:
  assumes key: "key = \<lparr>secret = sec, pubKey = replicate 65 0, compressed = c\<rparr>" and n0: "61 \<le> length b"
    and addr: "BRKeyAddress testnet S key (Some (replicate 36 0)) = (key', addr, n)" and n: "n \<noteq> 0"
  shows "\<exists>b' m. BRKeyBIP38Key testnet S key (Some b) passphrase = Some (key', Some b', m) \<and> 0 < m \<and> m \<le> 61 \<and>
    BRBIP38KeyIsValid (cstr b') \<and>
    BRKeySetBIP38Key testnet S (cstr b') passphrase = Some (Some key', True) \<and> secret key' = sec \<and> compressed key' = c"
proof -
  note key' = address_keeps_key [OF addr] and address = address_written [OF addr n]
  define flag where "flag = (if c then BIP38_NOEC_FLAG OR BIP38_COMPRESSED_FLAG else BIP38_NOEC_FLAG)"
  define salt where "salt = take 4 (BRSHA256_2 (cstr (the addr)))"
  define derived where "derived = BRScrypt 64 passphrase salt 16384 8 8"
  define enc where "enc = BRAES256ECBEncrypt (drop 32 derived) (xor_bytes (take 16 (UInt256Set sec)) (take 16 (take 32 derived))) @
      BRAES256ECBEncrypt (drop 32 derived) (xor_bytes (drop 16 (UInt256Set sec)) (drop 16 (take 32 derived)))"
  define pre where "pre = UInt16SetBE BIP38_NOEC_PREFIX @ [flag]"
  have len: "length salt = 4" "length pre = 3" "length enc = 32" "length derived = 64"
    by (simp_all add: salt_def pre_def enc_def derived_def)
  let ?data = "pre @ salt @ enc"
  have size: "length (check_text ?data) + 1 \<le> 61"
    using length_base58_text [of "?data @ take 4 (BRSHA256_2 ?data)"] len by (simp add: check_text_def)
  then have "BRBase58CheckEncode ?data (Some b) =
      (Some (check_text ?data @ 0 # drop (length (check_text ?data) + 1) b), length (check_text ?data) + 1)"
    using check_writer.keeps_rest [of ?data b] n0 by simp
  then have "BRKeyBIP38Key testnet S key (Some b) passphrase =
      Some (key', Some (check_text ?data @ 0 # drop (length (check_text ?data) + 1) b), length (check_text ?data) + 1)"
    using addr n len(1) key' by (simp add: BRKeyBIP38Key_def key flag_def [symmetric] salt_def [symmetric]
        derived_def [symmetric] enc_def pre_def Let_def salt_bytes)
  moreover have dec: "BRBase58CheckDecode (check_text ?data) (Some (replicate 39 0)) = (Some ?data, 39)"
    using len by (simp add: check_decode_eq check_bytes_text)
  have data: "UInt16GetBE ?data = BIP38_NOEC_PREFIX" "?data ! 2 = flag" "take 4 (drop 3 ?data) = salt"
  proof -
    show "UInt16GetBE ?data = BIP38_NOEC_PREFIX" by (simp add: pre_def byte_order)
    show "?data ! 2 = flag" "take 4 (drop 3 ?data) = salt" using len by (simp_all add: pre_def UInt16SetBE_def)
  qed
  have flags: "flag AND BIP38_NOEC_FLAG = BIP38_NOEC_FLAG" "flag AND BIP38_LOTSEQUENCE_FLAG = 0"
    "flag AND BIP38_INVALID_FLAG = 0" "(flag AND BIP38_COMPRESSED_FLAG \<noteq> 0) = c"
    by (simp_all add: flag_def BIP38_NOEC_FLAG_def BIP38_LOTSEQUENCE_FLAG_def BIP38_INVALID_FLAG_def BIP38_COMPRESSED_FLAG_def)
  have "BRBIP38KeyIsValid (check_text ?data)"
    using data flags by (simp add: BRBIP38KeyIsValid_def dec Let_def)
  moreover have "noec_secret ?data passphrase = sec"
    using noec_secret_encrypted [OF len(2,1)] by (simp add: enc_def derived_def)
  then have "BRKeySetBIP38Key testnet S (check_text ?data) passphrase = Some (Some key', True)"
    using addr key data flags address
    by (simp add: BRKeySetBIP38Key_def dec Let_def BRKeySetSecret_def salt_def [symmetric])
  ultimately show ?thesis using size key key' check_text_no_nul [of ?data] by (simp add: del: append.simps)
qed

section \<open>Properties\<close>

text \<open>
  C29: \<open>BRKeyBIP38Key\<close> has a defined result for every key that has an address, and only for such a key.
  Into a buffer of the size it gives for a null pointer it writes a string that
  \<open>BRBIP38KeyIsValid\<close> accepts and from which \<open>BRKeySetBIP38Key\<close>, with the same passphrase, gets the key
  back, its secret and the form of its public key, and reports success.\<close>

theorem bip38_round_trip:
  assumes "BRKeyBIP38Key testnet S key0 None passphrase = Some (key0, None, n0)" "n0 \<le> length b"
    and key_set: "key = fst (BRKeySetSecret S sec c)"
  shows "case BRKeyBIP38Key testnet S key (Some b) passphrase of
      None \<Rightarrow> snd (BRKeyAddress testnet S key (Some (replicate 36 0))) = (Some (replicate 36 0), 0)
    | Some (key', out, n) \<Rightarrow>
        snd (snd (BRKeyAddress testnet S key (Some (replicate 36 0)))) \<noteq> 0 \<and>
        0 < n \<and> n \<le> 61 \<and> BRBIP38KeyIsValid (cstr (the out)) \<and>
        BRKeySetBIP38Key testnet S (cstr (the out)) passphrase = Some (Some key', True) \<and>
        secret key' = sec \<and> compressed key' = c"
proof -
  have key: "key = \<lparr>secret = sec, pubKey = replicate 65 0, compressed = c\<rparr>" by (simp add: key_set BRKeySetSecret_def)
  have n0: "61 \<le> length b" using assms(1,2) by (simp add: BRKeyBIP38Key_def)
  obtain key' addr n where addr: "BRKeyAddress testnet S key (Some (replicate 36 0)) = (key', addr, n)"
    by (metis prod_cases3)
  show ?thesis
  proof (cases "n = 0")
    case True
    then show ?thesis
      using addr address_unwritten [OF addr [unfolded True]] by (simp add: BRKeyBIP38Key_def Let_def)
  next
    case False
    show ?thesis using encrypted_key [OF key n0 addr False, of passphrase] addr False by auto
  qed
qed

theorem bip38_round_trip_witness:
  "case BRKeyBIP38Key True integer_secp (fst (BRKeySetSecret integer_secp 7 True)) (Some (replicate 61 0)) [112, 119] of
      None \<Rightarrow> snd (BRKeyAddress True integer_secp (fst (BRKeySetSecret integer_secp 7 True)) (Some (replicate 36 0))) =
        (Some (replicate 36 0), 0)
    | Some (key', out, n) \<Rightarrow>
        snd (snd (BRKeyAddress True integer_secp (fst (BRKeySetSecret integer_secp 7 True)) (Some (replicate 36 0)))) \<noteq> 0 \<and>
        0 < n \<and> n \<le> 61 \<and> BRBIP38KeyIsValid (cstr (the out)) \<and>
        BRKeySetBIP38Key True integer_secp (cstr (the out)) [112, 119] = Some (Some key', True) \<and>
        secret key' = 7 \<and> compressed key' = True"
  by (rule bip38_round_trip [where ?n0.0 = 61 and ?key0.0 = "fst (BRKeySetSecret integer_secp 7 True)"])
    (simp_all add: BRKeyBIP38Key_def)

end
