(* ===== verification/Spec2Isabelle.thy ===== *)
theory Spec2Isabelle
  imports BRBloomFilter BRMerkleBlock BRBIP39Mnemonic PeerProperties WalletProperties WalletAmounts WalletWalks
    ManagerProperties BRBIP38Key
begin

text \<open>
  \<^bold>\<open>The core of the wallet\<close>

  The program is a wallet for a coin of the Bitcoin family that verifies payments with merkle
  blocks. Its logic is the C library under \<open>src/Modules/core\<close>; the Swift application around it
  draws the user interface. This development translates the library and proves what makes it correct.

  \<^bold>\<open>The parts and how they interact\<close>

  A seed phrase (\<open>BRBIP39Mnemonic.c\<close>) gives a master key, from which \<open>BRBIP32Sequence.c\<close> and
  \<open>BIP44Sequence.c\<close> derive the keys of two chains of addresses over \<open>BRKey.c\<close> and the curve
  library. \<open>BRAddress.c\<close> and \<open>BRBase58.c\<close> write addresses and scripts, \<open>BRTransaction.c\<close>
  parses, writes, hashes and signs transactions. The wallet (\<open>BRWallet.c\<close>) keeps the known
  transactions in tables of \<open>BRSet.c\<close>, derives unused addresses, keeps the unspent outputs and the
  balance, and creates transactions. A connection (\<open>BRPeer.c\<close>) exchanges messages with a node:
  it sends a bloom filter (\<open>BRBloomFilter.c\<close>) of the wallet's addresses, gets merkle blocks
  (\<open>BRMerkleBlock.c\<close>) and the transactions matched in them, and hands both to its callbacks. The
  manager (\<open>BRPeerManager.c\<close>) owns the connections: it finds nodes and connects to them, downloads the
  chain of blocks from one of them, decides between forks, brings the wallet's transactions up to date,
  publishes new ones, and tells the application what happened.
  \<open>BRInt.h\<close> and \<open>BRCrypto.c\<close> have the integers, hash functions and ciphers that all parts use.

  \<^bold>\<open>Theories\<close>

  \<^item> \<^emph>\<open>Prelude\<close>: generic lemmas on lists, words, options, folds and byte strings, and the
    collections of facts the other theories share.
  \<^item> \<^emph>\<open>BRInt\<close>, \<^emph>\<open>BRUInt256\<close> (\<open>BRInt.h\<close>): the byte order functions with their round trips;
    256-bit arithmetic on eight limbs of 32 bits, related to words of 256 bits by an abstraction
    function: addition, negation, multiplication by a limb, shifts, division, the compact targets.
  \<^item> \<^emph>\<open>BRHash\<close>, \<^emph>\<open>BRCipher\<close> (\<open>BRCrypto.c\<close>): SHA-1, the SHA-2 family, RIPEMD-160, MD5, MurmurHash3
    on words of the width of the code, with the loops over blocks and the padding; HMAC, Poly1305,
    ChaCha20, the AEAD construction, PBKDF2 and scrypt, each proved equal to the definition of its
    RFC stated on whole byte strings.
  \<^item> \<^emph>\<open>BRBase58\<close>, \<^emph>\<open>BRAddress\<close>: base 58 with the digit arrays and carries of the code and its value
    as a number; variable-length integers, script elements, scripts and addresses.
  \<^item> \<^emph>\<open>BRBloomFilter\<close>: the filter as bytes; no false negatives.
  \<^item> \<^emph>\<open>BRSet\<close>: the open-addressing table with growth and removal; a locale states what a user of the
    table promises of its hash and equality and what the table promises back, and the refinement of
    a mathematical set is proved for every sequence of operations.
  \<^item> \<^emph>\<open>Reader\<close>, \<^emph>\<open>BRTransaction\<close>: a locale of readers (a parser that consumes exactly what a printer
    wrote) that is interpreted on the parsers of integers, inputs, outputs and lists of them; the
    transaction round trip, the signature preimages and the sizes rest on it.
  \<^item> \<^emph>\<open>BRMerkleBlock\<close>: parsing, the two walks over a partial merkle tree against the encoding of
    BIP 37 as an abstract tree, validity, the hash order of timetravel10, dark gravity wave.
  \<^item> \<^emph>\<open>BRKey\<close>, \<^emph>\<open>BRBIP32Sequence\<close>: keys and derivation over a record of the functions of
    \<open>libsecp256k1\<close>; the laws they are used with are the predicate \<open>secp_ok\<close>, which the addition of
    integers of 256 bits satisfies in the witnesses.
  \<^item> \<^emph>\<open>BRAES256\<close>, \<^emph>\<open>BRBIP38Key\<close> (\<open>BRBIP38Key.c\<close>): the block cipher against FIPS 197, with the
    S-box as an inverse in \<open>GF(2^8)\<close>; keys encrypted with a passphrase.
  \<^item> \<^emph>\<open>Bits\<close>, \<^emph>\<open>BRBIP39Mnemonic\<close>: byte strings bit by bit; phrases of a word list that is a parameter.
  \<^item> \<^emph>\<open>BRWallet\<close> has the wallet record and all operations of \<open>BRWallet.c\<close>; \<^emph>\<open>WalletBalance\<close>,
    \<^emph>\<open>WalletInvariant\<close>, \<^emph>\<open>WalletSteps\<close> and \<^emph>\<open>WalletAddrs\<close> prove what each operation keeps;
    \<^emph>\<open>WalletProperties\<close> has the reachable states and the properties of balance and addresses;
    \<^emph>\<open>WalletCreate\<close> is about created transactions, \<^emph>\<open>WalletWalks\<close> about the recursive judgements.
  \<^item> \<^emph>\<open>BRPeer\<close> has the state of a connection and all its message handlers; \<^emph>\<open>PeerThread\<close> the
    thread that cuts a byte stream into messages; \<^emph>\<open>PeerProperties\<close> the reachable states of a
    connection and its properties.
  \<^item> \<^emph>\<open>BRPeerManager\<close> has the manager's state and all its functions and callbacks, over the models of the
    wallet, the filter and the connections; \<^emph>\<open>ManagerLists\<close> proves that the lists of peers of a
    transaction implement sets; \<^emph>\<open>ManagerInvariant\<close> (peers, filter, publishing, connecting),
    \<^emph>\<open>ManagerCallbacks\<close> (the callbacks of the peers) and \<^emph>\<open>ManagerBlocks\<close> (the chain) prove what each function
    keeps; \<^emph>\<open>ManagerProperties\<close> has the reachable states and the properties.

  \<^bold>\<open>Conventions\<close>

  A buffer is a list of bytes, a C integer a word of its width, and where the code computes a length
  in \<open>size_t\<close> that can wrap around, the model does too. A result of \<open>None\<close> is undefined
  behaviour of the C code (a read or write outside of an array, a failed assertion, a division by
  zero) or a loop that never ends (\<open>partial_function (option)\<close>); the error results of the code are
  values. Pointers to transactions are the transactions of a table indexed by hash. Callbacks are
  entries of an event log, and the callbacks of a connection may run further operations of the peer.
  The manager knows its connections by numbers, and keeps blocks once, in a table by hash; a function
  that is passed to a connection with its data is a number too. Each function of the manager is one
  step, since it runs under the lock, and its surroundings may change between steps.
  The clock, the random generator, the results of system calls, the curve library, the ten hash
  functions of timetravel10 and the word list are parameters.

  \<^bold>\<open>Bounds\<close>

  No model uses fuel: loops are recursions with a measure, or partial functions whose return is
  proved where the property says so (base 58, the table, the unused addresses, the recursive
  judgements, the merkle walks). The table is proved up to \<open>10^9\<close> operations, since its largest size
  is near \<open>2^31\<close>; the round trips hold for byte strings shorter than \<open>2^63\<close>.

  \<^bold>\<open>Properties\<close>

  Round trips (transactions, base 58, addresses, WIF keys, encrypted keys, phrases, merkle blocks, the message
  stream, compact targets, authenticated encryption); the refinement of sets by the hash table and by the
  manager's lists; the invariants of the wallet, of a connection and of the manager over all reachable
  states; a chain whose height never falls, block locators and saved blocks; exactness of the balance, of created
  transactions and of the address gap; equivalence of ciphers and key derivation with their
  definitions; termination of the walks; and the errors that modelling showed, each as a theorem on
  all inputs of a kind: length checks that wrap around, a forged inclusion proof, created
  transactions that cannot be signed.

  \<^bold>\<open>Not modelled\<close>

  \<open>BRPaymentProtocol.c\<close>, which no other part uses. \<open>BRBech32.c\<close> is not compiled: it is not in
  the project and uses an undefined opcode. Locks (every wallet operation runs
  under one), logging, freeing memory, the opening of sockets, the vendored libraries
  (\<open>secp256k1\<close>, \<open>crypto\<close>, \<open>nettle\<close>, \<open>unbound\<close>) and the Swift application are left out.
\<close>

end
